(* ===== verification/Prelude.thy ===== *)
theory Prelude
  imports Main "HOL-Library.Word"
begin

text \<open>
  Shared vocabulary of the development: the machine types of the C++ code, the
  computation type of an operation that may throw, the generic list lemmas
  the components use, and the named collections of simplification rules.

  A C++ member function that can throw and that changes its object is a function
  \<open>'s \<Rightarrow> ('e + 'a) \<times> 's\<close>: the object's state goes in, the result or the exception
  comes out together with the state the object is left in (an exception does not roll
  the object back).  \<open>ret\<close>, \<open>throw\<close> and \<open>bind\<close> are return, throw and sequencing.
\<close>

section \<open>Machine types\<close>

type_synonym byte = "8 word"
type_synonym u32 = "32 word"
type_synonym u64 = "64 word"
type_synonym bytes = "byte list"

section \<open>Operations that may throw\<close>

type_synonym ('s, 'e, 'a) op = "'s \<Rightarrow> ('e + 'a) \<times> 's"

definition ret :: "'a \<Rightarrow> ('s, 'e, 'a) op" where
  "ret x s = (Inr x, s)"

definition throw :: "'e \<Rightarrow> ('s, 'e, 'a) op" where
  "throw e s = (Inl e, s)"

definition bind :: "('s, 'e, 'a) op \<Rightarrow> ('a \<Rightarrow> ('s, 'e, 'b) op) \<Rightarrow> ('s, 'e, 'b) op" where
  "bind m f s = (case m s of (Inl e, s') \<Rightarrow> (Inl e, s') | (Inr x, s') \<Rightarrow> f x s')"

definition modify :: "('s \<Rightarrow> 's) \<Rightarrow> ('s, 'e, unit) op" where
  "modify f s = (Inr (), f s)"

text \<open>A read-only operation: it inspects the state and leaves it alone.\<close>

definition reads :: "('s \<Rightarrow> 'e + 'a) \<Rightarrow> ('s, 'e, 'a) op" where
  "reads f s = (f s, s)"

named_theorems op_defs "the definitions of the operation combinators"

lemmas [op_defs] = ret_def throw_def bind_def modify_def reads_def

lemma bind_Inr_iff:
  "bind m f s = (Inr y, t) \<longleftrightarrow> (\<exists>x u. m s = (Inr x, u) \<and> f x u = (Inr y, t))"
  by (auto simp: bind_def split: prod.splits sum.splits)

lemma bind_InrE:
  assumes "bind m f s = (Inr y, t)"
  obtains x u where "m s = (Inr x, u)" and "f x u = (Inr y, t)"
  using assms by (auto simp: bind_Inr_iff)

lemma bind_Inl_iff:
  "bind m f s = (Inl e, t) \<longleftrightarrow>
     m s = (Inl e, t) \<or> (\<exists>x u. m s = (Inr x, u) \<and> f x u = (Inl e, t))"
  by (auto simp: bind_def split: prod.splits sum.splits)

lemma bind_eq_Inr [simp]: "m s = (Inr x, u) \<Longrightarrow> bind m f s = f x u"
  by (simp add: bind_def)

lemma bind_eq_Inl [simp]: "m s = (Inl e, u) \<Longrightarrow> bind m f s = (Inl e, u)"
  by (simp add: bind_def)

lemma bind_modify: "bind (modify f) g s = g () (f s)"
  by (simp add: bind_def modify_def)

lemma bind_reads: "bind (reads f) g s = (case f s of Inl e \<Rightarrow> (Inl e, s) | Inr x \<Rightarrow> g x s)"
  by (simp add: bind_def reads_def)

text \<open>
  A relation between the state before and the state after that is reflexive and transitive
  holds across a sequence when it holds across its parts, whether or not they throw.
\<close>

lemma bind_rel:
  assumes "\<And>r u. m s = (r, u) \<Longrightarrow> R s u"
    and "\<And>x u r v. m s = (Inr x, u) \<Longrightarrow> f x u = (r, v) \<Longrightarrow> R u v"
    and "\<And>x y z. R x y \<Longrightarrow> R y z \<Longrightarrow> R x z"
    and "bind m f s = (r, t)"
  shows "R s t"
proof (cases "m s")
  case (Pair a u)
  show ?thesis
  proof (cases a)
    case (Inl e)
    with Pair assms(1,4) show ?thesis by (auto simp: bind_def)
  next
    case (Inr x)
    with Pair assms(4) have "f x u = (r, t)" by (simp add: bind_def)
    with assms(1,2,3) Pair Inr show ?thesis by blast
  qed
qed

section \<open>Lists\<close>

lemma distinct_map_of_nat_upt:
  assumes "n \<le> 2 ^ LENGTH('a::len)"
  shows "distinct (map (of_nat :: nat \<Rightarrow> 'a word) [0..<n])"
proof -
  have "inj_on (of_nat :: nat \<Rightarrow> 'a word) (set [0..<n])"
    using assms by (intro inj_onI) (auto simp: unsigned_of_nat word_of_nat_eq_iff take_bit_nat_eq_self)
  then show ?thesis by (simp add: distinct_map)
qed


end
