(* ===== verification/Qt_Text.thy ===== *)
theory Qt_Text
  imports Prelude
begin

text \<open>
  The string functions the program calls on \<open>QString\<close>, on lists of characters: white space and
  trimming, lower case of ASCII letters (all the program compares), prefixes and substrings,
  splitting and sections.
\<close>

definition is_space :: "char \<Rightarrow> bool" where
  "is_space c \<longleftrightarrow> c \<in> {CHR '' '', CHR 0x09, CHR 0x0A, CHR 0x0B, CHR 0x0C, CHR 0x0D}"

text \<open>\<open>s.trimmed().isEmpty()\<close>, \<open>trimmed\<close>\<close>

definition blank :: "string \<Rightarrow> bool" where
  "blank s \<longleftrightarrow> list_all is_space s"

definition trim_text :: "string \<Rightarrow> string" where
  "trim_text s = rev (dropWhile is_space (rev (dropWhile is_space s)))"

lemma blank_Nil [simp]: "blank []"
  by (simp add: blank_def)

lemma blank_trim: "blank s \<longleftrightarrow> trim_text s = []"
proof -
  have "dropWhile is_space (rev (dropWhile is_space s)) = [] \<longleftrightarrow> dropWhile is_space s = []"
  proof
    assume "dropWhile is_space (rev (dropWhile is_space s)) = []"
    then have all: "\<forall>c \<in> set (dropWhile is_space s). is_space c" by (simp add: dropWhile_eq_Nil_conv)
    show "dropWhile is_space s = []"
    proof (rule ccontr)
      assume n: "dropWhile is_space s \<noteq> []"
      then show False using hd_dropWhile [OF n] all hd_in_set [OF n] by blast
    qed
  qed (auto dest: set_dropWhileD)
  then show ?thesis by (simp add: blank_def trim_text_def dropWhile_eq_Nil_conv list_all_iff)
qed

definition lower_char :: "char \<Rightarrow> char" where
  "lower_char c = (let n = (of_char c :: nat) in if 65 \<le> n \<and> n \<le> 90 then char_of (n + 32) else c)"

definition toLower :: "string \<Rightarrow> string" where
  "toLower s = map lower_char s"

definition startsWith :: "string \<Rightarrow> string \<Rightarrow> bool" where
  "startsWith s p \<longleftrightarrow> take (length p) s = p"

fun contains_str :: "string \<Rightarrow> string \<Rightarrow> bool" where
  "contains_str p [] \<longleftrightarrow> p = []"
| "contains_str p (c # cs) \<longleftrightarrow> startsWith (c # cs) p \<or> contains_str p cs"

text \<open>\<open>simplified ().split (' ', SkipEmptyParts)\<close>: the maximal runs of other characters.\<close>

fun split_words :: "string \<Rightarrow> string \<Rightarrow> string list" where
  "split_words [] w = (if w = [] then [] else [w])"
| "split_words (c # cs) w =
     (if is_space c then (if w = [] then split_words cs [] else w # split_words cs [])
      else split_words cs (w @ [c]))"

text \<open>\<open>split (c)\<close> keeps empty parts; \<open>section (c, 0, 0)\<close> is the first of them.\<close>

fun split_at :: "char \<Rightarrow> string \<Rightarrow> string list" where
  "split_at c [] = [[]]"
| "split_at c (d # ds) =
     (if d = c then [] # split_at c ds
      else case split_at c ds of [] \<Rightarrow> [[d]] | p # ps \<Rightarrow> (d # p) # ps)"

definition first_section :: "char \<Rightarrow> string \<Rightarrow> string" where
  "first_section c s = takeWhile (\<lambda>d. d \<noteq> c) s"

lemma split_at_nonempty [simp]: "split_at c s \<noteq> []"
  by (induction s) (auto split: list.splits)

lemma first_section_split: "first_section c s = hd (split_at c s)"
  by (induction s) (auto simp: first_section_def split: list.splits)

end
