(* ===== verification/Jingle_Xml.thy ===== *)
theory Jingle_Xml
  imports Qt_Text
begin

text \<open>
  The vocabulary of call signaling: the XML elements the program builds (\<open>QXmppElement\<close>) and
  reads (\<open>QDomElement\<close>), what it relies on between the two, and the enumerations with their
  names on the wire (features/voip/signaling/jingle_message.hpp, jingle_action.hpp,
  ice_server.hpp).
\<close>

section \<open>Elements read\<close>

text \<open>Tag, namespace URI, attributes, the element's own text, and its child elements.\<close>

datatype dom = Dom (dom_tag: string) (dom_ns: string) (dom_attrs: "(string \<times> string) list") (own_text: string)
  (dom_children: "dom list")

text \<open>\<open>QDomElement::attribute\<close> with the empty default, \<open>hasAttribute\<close>, \<open>text\<close>.\<close>

definition attribute :: "dom \<Rightarrow> string \<Rightarrow> string" where
  "attribute e k = (case map_of (dom_attrs e) k of Some v \<Rightarrow> v | None \<Rightarrow> [])"

definition hasAttribute :: "dom \<Rightarrow> string \<Rightarrow> bool" where
  "hasAttribute e k \<longleftrightarrow> map_of (dom_attrs e) k \<noteq> None"

fun dom_text :: "dom \<Rightarrow> string" where
  "dom_text (Dom t n as v cs) = v @ concat (map dom_text cs)"

text \<open>\<open>firstChildElement (name)\<close>; \<open>None\<close> is the null element, whose text is empty.\<close>

definition first_child :: "string \<Rightarrow> dom \<Rightarrow> dom option" where
  "first_child t e = find (\<lambda>c. dom_tag c = t) (dom_children e)"

definition child_text :: "string \<Rightarrow> dom \<Rightarrow> string" where
  "child_text t e = (case first_child t e of None \<Rightarrow> [] | Some c \<Rightarrow> dom_text c)"

section \<open>Elements built\<close>

datatype xelem = XE (x_tag: string) (x_attrs: "(string \<times> string) list") (x_value: string) (x_children: "xelem list")

definition x_attr :: "xelem \<Rightarrow> string \<Rightarrow> string" where
  "x_attr e k = (case map_of (x_attrs e) k of Some v \<Rightarrow> v | None \<Rightarrow> [])"

definition ns_of :: "string \<Rightarrow> xelem \<Rightarrow> string" where
  "ns_of ns e = (case map_of (x_attrs e) ''xmlns'' of Some n \<Rightarrow> n | None \<Rightarrow> ns)"

text \<open>The characters XML allows in a text; an element that has a tag and only such texts everywhere.\<close>

definition xml_text :: "string \<Rightarrow> bool" where
  "xml_text s \<longleftrightarrow> list_all (\<lambda>c. 32 \<le> (of_char c :: nat) \<or> c \<in> {CHR 0x09, CHR 0x0A, CHR 0x0D}) s"

lemma xml_text_Cons [simp]:
  "xml_text (c # s) \<longleftrightarrow> (32 \<le> (of_char c :: nat) \<or> c \<in> {CHR 0x09, CHR 0x0A, CHR 0x0D}) \<and> xml_text s"
  by (simp add: xml_text_def)

fun writable :: "xelem \<Rightarrow> bool" where
  "writable (XE t as v cs) \<longleftrightarrow>
     t \<noteq> [] \<and> list_all (\<lambda>(_, a). xml_text a) as \<and> xml_text v \<and> list_all writable cs"

text \<open>A reader may give line ends of a text back as a single line feed.\<close>

fun eol :: "string \<Rightarrow> string" where
  "eol [] = []"
| "eol (c # cs) =
     (if c = CHR 0x0D then CHR 0x0A # (case cs of [] \<Rightarrow> [] | d # ds \<Rightarrow> if d = CHR 0x0A then eol ds else eol cs)
      else c # eol cs)"

lemma eol_plain: "CHR 0x0D \<notin> set s \<Longrightarrow> eol s = s"
  by (induction s) auto

lemma blank_eol: "blank (eol s) = blank s"
  by (induction s rule: eol.induct) (auto simp: blank_def is_space_def split: list.splits)

text \<open>
  What the program relies on from the XML writer of one side and the namespace-aware parser of
  the other: a writable element is read with the same tags, children and attributes (an empty
  attribute may be left out), its text up to line ends, and the namespace of its \<open>xmlns\<close>
  attribute or of its parent.
\<close>

definition read_as :: "(string \<Rightarrow> xelem \<Rightarrow> dom) \<Rightarrow> string \<Rightarrow> xelem \<Rightarrow> bool" where
  "read_as wire ns e \<longleftrightarrow>
     dom_tag (wire ns e) = x_tag e \<and> dom_ns (wire ns e) = ns_of ns e
   \<and> own_text (wire ns e) \<in> {x_value e, eol (x_value e)}
   \<and> dom_children (wire ns e) = map (wire (ns_of ns e)) (x_children e)
   \<and> (\<forall>k. k \<noteq> ''xmlns'' \<longrightarrow> attribute (wire ns e) k = x_attr e k
        \<and> (map_of (x_attrs e) k = None \<longrightarrow> \<not> hasAttribute (wire ns e) k))
   \<and> \<not> hasAttribute (wire ns e) ''xmlns''"

definition xml_transport :: "(string \<Rightarrow> xelem \<Rightarrow> dom) \<Rightarrow> bool" where
  "xml_transport wire \<longleftrightarrow> (\<forall>ns e. writable e \<longrightarrow> read_as wire ns e)"

text \<open>A transport that does this.\<close>

fun xml_wire :: "string \<Rightarrow> xelem \<Rightarrow> dom" where
  "xml_wire ns (XE t as v cs) =
     (let n = (case map_of as ''xmlns'' of Some n \<Rightarrow> n | None \<Rightarrow> ns)
      in Dom t n (filter (\<lambda>(k, _). k \<noteq> ''xmlns'') as) (eol v) (map (xml_wire n) cs))"

lemma map_of_filter_key: "map_of (filter (\<lambda>(k, _). P k) as) k = (if P k then map_of as k else None)"
  by (induction as) auto

lemma xml_wire_transport: "xml_transport xml_wire"
  unfolding xml_transport_def
proof (intro allI impI)
  fix ns e
  show "read_as xml_wire ns e" unfolding read_as_def
    by (cases e) (simp add: Let_def ns_of_def attribute_def x_attr_def hasAttribute_def map_of_filter_key)
qed

lemma transport_read_as: "xml_transport wire \<Longrightarrow> writable e \<Longrightarrow> read_as wire ns e"
  by (simp add: xml_transport_def)

lemma transport:
  assumes "xml_transport wire" and "writable (XE t as v cs)"
  shows "dom_tag (wire ns (XE t as v cs)) = t"
    and "dom_ns (wire ns (XE t as v cs)) = ns_of ns (XE t as v cs)"
    and "own_text (wire ns (XE t as v cs)) \<in> {v, eol v}"
    and "dom_children (wire ns (XE t as v cs)) = map (wire (ns_of ns (XE t as v cs))) cs"
    and "\<not> hasAttribute (wire ns (XE t as v cs)) ''xmlns''"
  using transport_read_as [OF assms, of ns] unfolding read_as_def xelem.sel by blast+

lemma transport_attr:
  assumes "xml_transport wire" and "writable (XE t as v cs)"
  shows "k \<noteq> ''xmlns'' \<Longrightarrow> attribute (wire ns (XE t as v cs)) k = x_attr (XE t as v cs) k"
    and "k \<noteq> ''xmlns'' \<Longrightarrow> map_of as k = None \<Longrightarrow> \<not> hasAttribute (wire ns (XE t as v cs)) k"
  using transport_read_as [OF assms, of ns] unfolding read_as_def xelem.sel by blast+

lemma transport_text:
  assumes "xml_transport wire" and "writable (XE t as v [])"
  shows "dom_text (wire ns (XE t as v [])) \<in> {v, eol v}"
proof (cases "wire ns (XE t as v [])")
  case (Dom t' n' as' v' cs')
  then have "v' \<in> {v, eol v}" "cs' = []"
    using transport(3,4) [OF assms, of ns] by simp_all
  then show ?thesis using Dom by simp
qed

lemma transport_plain_text:
  assumes "xml_transport wire" and "writable (XE t as v [])" and "CHR 0x0D \<notin> set v"
  shows "dom_text (wire ns (XE t as v [])) = v"
  using transport_text [OF assms(1,2), of ns] eol_plain [OF assms(3)] by simp

section \<open>Enumerations and their names\<close>

datatype JingleMessageType = Propose | Retract | Accept | Proceed | Reject | Finish | Ringing

fun fromJingleMessageType :: "JingleMessageType \<Rightarrow> string" where
  "fromJingleMessageType Propose = ''propose''"
| "fromJingleMessageType Retract = ''retract''"
| "fromJingleMessageType Accept = ''accept''"
| "fromJingleMessageType Proceed = ''proceed''"
| "fromJingleMessageType Reject = ''reject''"
| "fromJingleMessageType Finish = ''finish''"
| "fromJingleMessageType Ringing = ''ringing''"

definition fromJingleMessageTypeString :: "string \<Rightarrow> JingleMessageType option" where
  "fromJingleMessageTypeString s =
     (if s = ''propose'' then Some Propose
      else if s = ''retract'' then Some Retract
      else if s = ''accept'' then Some Accept
      else if s = ''proceed'' then Some Proceed
      else if s = ''reject'' then Some Reject
      else if s = ''finish'' then Some Finish
      else if s = ''ringing'' then Some Ringing
      else None)"

datatype StreamType = Audio | Video

fun fromStreamType :: "StreamType \<Rightarrow> string" where
  "fromStreamType Audio = ''audio''"
| "fromStreamType Video = ''video''"

definition fromStreamTypeString :: "string \<Rightarrow> StreamType option" where
  "fromStreamTypeString s = (if s = ''audio'' then Some Audio else if s = ''video'' then Some Video else None)"

datatype JingleReason = Busy | Cancel | Success

fun fromJingleReason :: "JingleReason \<Rightarrow> string" where
  "fromJingleReason Busy = ''busy''"
| "fromJingleReason Cancel = ''cancel''"
| "fromJingleReason Success = ''suceess''"

datatype ActionType =
    SessionInitiate | SessionTerminate | SessionAccept | SessionInfoAction | SessionTransport
  | TransportReplace | TransportAccept

fun fromType :: "ActionType \<Rightarrow> string" where
  "fromType SessionInitiate = ''session-initiate''"
| "fromType SessionTerminate = ''session-terminate''"
| "fromType SessionAccept = ''session-accept''"
| "fromType SessionInfoAction = ''session-info''"
| "fromType SessionTransport = ''session-transport''"
| "fromType TransportReplace = ''transport-replace''"
| "fromType TransportAccept = ''transport-accept''"

definition fromString :: "string \<Rightarrow> ActionType option" where
  "fromString s =
     (if s = ''session-initiate'' then Some SessionInitiate
      else if s = ''session-terminate'' then Some SessionTerminate
      else if s = ''session-accept'' then Some SessionAccept
      else if s = ''session-info'' then Some SessionInfoAction
      else if s = ''session-transport'' then Some SessionTransport
      else if s = ''transport-replace'' then Some TransportReplace
      else if s = ''transport-accept'' then Some TransportAccept
      else None)"

datatype SessionInfo = Mute | InfoRinging | Unmute | Active

fun fromSessionInfo :: "SessionInfo \<Rightarrow> string" where
  "fromSessionInfo Mute = ''mute''"
| "fromSessionInfo InfoRinging = ''ringing''"
| "fromSessionInfo Unmute = ''unmute''"
| "fromSessionInfo Active = ''active''"

definition fromSessionInfoString :: "string \<Rightarrow> SessionInfo option" where
  "fromSessionInfoString s =
     (if s = ''mute'' then Some Mute
      else if s = ''ringing'' then Some InfoRinging
      else if s = ''unmute'' then Some Unmute
      else if s = ''active'' then Some Active
      else None)"

datatype MediaType = Microphone | Camera

fun fromMediaType :: "MediaType \<Rightarrow> string" where
  "fromMediaType Microphone = ''microphone''"
| "fromMediaType Camera = ''camera''"

definition fromMediaString :: "string \<Rightarrow> MediaType option" where
  "fromMediaString s = (if s = ''microphone'' then Some Microphone else if s = ''camera'' then Some Camera else None)"

datatype IceType = Turn | Turns | Stun

fun ice_toString :: "IceType \<Rightarrow> string" where
  "ice_toString Turn = ''turn''"
| "ice_toString Stun = ''stun''"
| "ice_toString Turns = ''turns''"

definition ice_toType :: "string \<Rightarrow> IceType option" where
  "ice_toType s =
     (if s = ''turn'' then Some Turn else if s = ''turns'' then Some Turns else if s = ''stun'' then Some Stun else None)"

record IceServer =
  ice_type :: IceType
  ice_host :: string
  ice_port :: string
  ice_username :: string
  ice_credential :: string

section \<open>The contract of a name table\<close>

text \<open>Writing a value and reading it back, and reading nothing but the names written.\<close>

locale name_table =
  fixes to_str :: "'a \<Rightarrow> string" and of_str :: "string \<Rightarrow> 'a option"
  assumes of_to: "of_str (to_str x) = Some x"
    and to_of: "of_str s = Some x \<Longrightarrow> to_str x = s"

context name_table
begin

lemma to_str_inj: "to_str x = to_str y \<longleftrightarrow> x = y"
  by (metis of_to option.inject)

lemma of_str_iff: "of_str s = Some x \<longleftrightarrow> s = to_str x"
  using of_to to_of by auto

lemma of_str_None: "of_str s = None \<longleftrightarrow> s \<notin> range to_str"
proof
  assume "of_str s = None"
  then show "s \<notin> range to_str" using of_to by auto
next
  assume n: "s \<notin> range to_str"
  show "of_str s = None"
  proof (rule ccontr)
    assume "of_str s \<noteq> None"
    then obtain x where "of_str s = Some x" by blast
    then show False using n to_of by blast
  qed
qed

end

interpretation message_type: name_table fromJingleMessageType fromJingleMessageTypeString
proof
  show "fromJingleMessageTypeString (fromJingleMessageType x) = Some x" for x
    by (cases x) (simp_all add: fromJingleMessageTypeString_def)
  show "fromJingleMessageTypeString s = Some x \<Longrightarrow> fromJingleMessageType x = s" for s x
    by (auto simp: fromJingleMessageTypeString_def split: if_splits)
qed

interpretation stream_type: name_table fromStreamType fromStreamTypeString
proof
  show "fromStreamTypeString (fromStreamType x) = Some x" for x
    by (cases x) (simp_all add: fromStreamTypeString_def)
  show "fromStreamTypeString s = Some x \<Longrightarrow> fromStreamType x = s" for s x
    by (auto simp: fromStreamTypeString_def split: if_splits)
qed

interpretation action_type: name_table fromType fromString
proof
  show "fromString (fromType x) = Some x" for x by (cases x) (simp_all add: fromString_def)
  show "fromString s = Some x \<Longrightarrow> fromType x = s" for s x by (auto simp: fromString_def split: if_splits)
qed

interpretation session_info: name_table fromSessionInfo fromSessionInfoString
proof
  show "fromSessionInfoString (fromSessionInfo x) = Some x" for x
    by (cases x) (simp_all add: fromSessionInfoString_def)
  show "fromSessionInfoString s = Some x \<Longrightarrow> fromSessionInfo x = s" for s x
    by (auto simp: fromSessionInfoString_def split: if_splits)
qed

interpretation media_type: name_table fromMediaType fromMediaString
proof
  show "fromMediaString (fromMediaType x) = Some x" for x by (cases x) (simp_all add: fromMediaString_def)
  show "fromMediaString s = Some x \<Longrightarrow> fromMediaType x = s" for s x by (auto simp: fromMediaString_def split: if_splits)
qed

interpretation ice_types: name_table ice_toString ice_toType
proof
  show "ice_toType (ice_toString x) = Some x" for x by (cases x) (simp_all add: ice_toType_def)
  show "ice_toType s = Some x \<Longrightarrow> ice_toString x = s" for s x by (auto simp: ice_toType_def split: if_splits)
qed

section \<open>The names are texts\<close>

lemma xml_text_names [simp]:
  shows "xml_text (fromJingleMessageType ty)" and "xml_text (fromStreamType s)" and "xml_text (fromType a)"
    and "xml_text (fromSessionInfo i)" and "xml_text (fromMediaType m)" and "xml_text (ice_toString k)"
    and "xml_text []"
proof -
  show "xml_text (fromJingleMessageType ty)" by (cases ty) (simp_all add: xml_text_def)
  show "xml_text (fromStreamType s)" by (cases s) (simp_all add: xml_text_def)
  show "xml_text (fromType a)" by (cases a) (simp_all add: xml_text_def)
  show "xml_text (fromSessionInfo i)" by (cases i) (simp_all add: xml_text_def)
  show "xml_text (fromMediaType m)" by (cases m) (simp_all add: xml_text_def)
  show "xml_text (ice_toString k)" by (cases k) (simp_all add: xml_text_def)
  show "xml_text []" by (simp add: xml_text_def)
qed

lemma names_nonempty [simp]:
  shows "fromJingleMessageType ty \<noteq> []" and "fromSessionInfo i \<noteq> []"
proof -
  show "fromJingleMessageType ty \<noteq> []" by (cases ty) simp_all
  show "fromSessionInfo i \<noteq> []" by (cases i) simp_all
qed

end
