(* ===== verification/Jingle_Message.thy ===== *)
theory Jingle_Message
  imports Jingle_Xml
begin

text \<open>
  Jingle message initiation (features/voip/signaling/jingle_message.cpp): the messages that
  propose, accept, reject, retract or finish a call, and their parser.
\<close>

definition kJINGLE_MESSAGE :: string where "kJINGLE_MESSAGE = ''urn:xmpp:jingle-message:0''"
definition kJINGLE_NAME :: string where "kJINGLE_NAME = ''urn:xmpp:jingle:1''"
definition kJINGLE_APP_NAME :: string where "kJINGLE_APP_NAME = ''urn:xmpp:jingle:apps:rtp:1''"

lemma xml_text_namespaces [simp]: "xml_text kJINGLE_MESSAGE" "xml_text kJINGLE_NAME" "xml_text kJINGLE_APP_NAME"
  by (simp_all add: xml_text_def kJINGLE_MESSAGE_def kJINGLE_NAME_def kJINGLE_APP_NAME_def)

section \<open>Building\<close>

text \<open>
  A \<open>QXmppMessage\<close> of type chat: recipient, whether it carries the store hint, and its one
  extension.
\<close>

record outgoing =
  to_jid :: string
  store_hint :: bool
  extension :: xelem

definition description_of :: "StreamType \<Rightarrow> xelem" where
  "description_of s = XE ''description'' [(''xmlns'', kJINGLE_APP_NAME), (''media'', fromStreamType s)] [] []"

definition propose :: "string \<Rightarrow> StreamType list \<Rightarrow> string \<Rightarrow> outgoing" where
  "propose recipient streams mid =
     \<lparr>to_jid = recipient, store_hint = True,
      extension = XE (fromJingleMessageType Propose) [(''xmlns'', kJINGLE_MESSAGE), (''id'', mid)] []
        (map description_of streams)\<rparr>"

text \<open>\<open>accept\<close>, \<open>proceed\<close> and \<open>ringing\<close> carry no more than the identifier.\<close>

definition plain_message :: "JingleMessageType \<Rightarrow> string \<Rightarrow> string \<Rightarrow> outgoing" where
  "plain_message ty recipient mid =
     \<lparr>to_jid = recipient, store_hint = False,
      extension = XE (fromJingleMessageType ty) [(''xmlns'', kJINGLE_MESSAGE), (''id'', mid)] [] []\<rparr>"

definition accept :: "string \<Rightarrow> string \<Rightarrow> outgoing" where
  "accept recipient mid = plain_message Accept recipient mid"

definition proceed :: "string \<Rightarrow> string \<Rightarrow> outgoing" where
  "proceed recipient mid = plain_message Proceed recipient mid"

definition ringing :: "string \<Rightarrow> string \<Rightarrow> outgoing" where
  "ringing recipient mid = plain_message Ringing recipient mid"

definition reason_message :: "JingleMessageType \<Rightarrow> JingleReason \<Rightarrow> string \<Rightarrow> string \<Rightarrow> string \<Rightarrow> outgoing" where
  "reason_message ty why txt recipient mid =
     \<lparr>to_jid = recipient, store_hint = False,
      extension = XE (fromJingleMessageType ty) [(''xmlns'', kJINGLE_MESSAGE), (''id'', mid)] []
        [XE ''reason'' [(''xmlns'', kJINGLE_NAME)] [] [XE (fromJingleReason why) [] [] [], XE ''text'' [] txt []]]\<rparr>"

definition reject :: "string \<Rightarrow> string \<Rightarrow> outgoing" where
  "reject recipient mid = reason_message Reject Busy ''Busy'' recipient mid"

definition retract :: "string \<Rightarrow> string \<Rightarrow> outgoing" where
  "retract recipient mid = reason_message Retract Cancel ''Cancel'' recipient mid"

text \<open>
  \<open>finish\<close> calls \<open>setValue ("reason")\<close> where the others call \<open>setTagName\<close>, and sets an
  attribute, and no tag name, on the text element.
\<close>

definition finish :: "string \<Rightarrow> string \<Rightarrow> outgoing" where
  "finish recipient mid =
     \<lparr>to_jid = recipient, store_hint = False,
      extension = XE (fromJingleMessageType Finish) [(''xmlns'', kJINGLE_MESSAGE), (''id'', mid)] []
        [XE [] [(''xmlns'', kJINGLE_NAME)] ''reason''
           [XE (fromJingleReason Success) [] [] [], XE [] [(''text'', ''Success'')] [] []]]\<rparr>"

section \<open>Parsing\<close>

datatype message_signal =
    messageReceived string string string "StreamType list" string
  | proposeReceived "StreamType list" string string
  | retractReceived string string
  | ringingReceived string string
  | proceedReceived string string
  | rejectReceived string string
  | acceptReceived string string
  | finishReceived string string

text \<open>The streams of a proposal, each once, in order of appearance.\<close>

fun stream_types :: "dom list \<Rightarrow> StreamType list \<Rightarrow> StreamType list" where
  "stream_types [] acc = acc"
| "stream_types (d # ds) acc =
     (if dom_tag d \<noteq> ''description'' \<or> dom_ns d \<noteq> kJINGLE_APP_NAME then stream_types ds acc
      else case fromStreamTypeString (attribute d ''media'') of
        Some s \<Rightarrow> stream_types ds (if s \<in> set acc then acc else acc @ [s])
      | None \<Rightarrow> stream_types ds acc)"

text \<open>The text of a reason, or the tag of its first child when there is none.\<close>

fun reason_text :: "dom list \<Rightarrow> string \<Rightarrow> string" where
  "reason_text [] acc = acc"
| "reason_text (c # cs) acc =
     (if dom_ns c \<noteq> kJINGLE_NAME then reason_text cs acc
      else if dom_tag c = ''text'' then dom_text c
      else reason_text cs (if acc = [] then dom_tag c else acc))"

definition payload_of :: "dom \<Rightarrow> (string \<times> dom) option" where
  "payload_of e =
     (if dom_tag e = ''message'' then
        (if blank (attribute e ''from'') \<or> attribute e ''type'' = ''error'' then None
         else case find (\<lambda>c. dom_ns c = kJINGLE_MESSAGE) (dom_children e) of
                None \<Rightarrow> None
              | Some p \<Rightarrow> Some (attribute e ''from'', p))
      else if dom_ns e \<noteq> kJINGLE_MESSAGE then None
      else Some ([], e))"

definition signals_of :: "JingleMessageType \<Rightarrow> string \<Rightarrow> string \<Rightarrow> StreamType list \<Rightarrow> string \<Rightarrow> message_signal list" where
  "signals_of ty sender sid streams reason =
     [messageReceived (fromJingleMessageType ty) sender sid streams reason,
      (case ty of
         Propose \<Rightarrow> proposeReceived streams sender sid
       | Accept \<Rightarrow> acceptReceived sender sid
       | Ringing \<Rightarrow> ringingReceived sender sid
       | Retract \<Rightarrow> retractReceived reason sid
       | Proceed \<Rightarrow> proceedReceived sender sid
       | Reject \<Rightarrow> rejectReceived reason sid
       | Finish \<Rightarrow> finishReceived reason sid)]"

text \<open>\<open>parse\<close> returns the new \<open>m_streamTypes\<close> and the signals it emits; \<open>None\<close> is a null element.\<close>

definition parse_message :: "dom option \<Rightarrow> StreamType list \<times> message_signal list" where
  "parse_message el =
     (case (case el of None \<Rightarrow> None | Some e \<Rightarrow> payload_of e) of
        None \<Rightarrow> ([], [])
      | Some (sender, payload) \<Rightarrow>
          (case fromJingleMessageTypeString (dom_tag payload) of
             None \<Rightarrow> ([], [])
           | Some ty \<Rightarrow>
               if blank (attribute payload ''id'') then ([], [])
               else
                 (let streams = (if ty = Propose then stream_types (dom_children payload) [] else [])
                  in if ty = Propose \<and> streams = [] then ([], [])
                     else
                       (let reason = (case first_child ''reason'' payload of
                                        Some r \<Rightarrow> if dom_ns r = kJINGLE_NAME then reason_text (dom_children r) [] else []
                                      | None \<Rightarrow> [])
                        in (streams, signals_of ty sender (attribute payload ''id'') streams reason)))))"

section \<open>Round trips\<close>

text \<open>
  The stanza the receiver sees: the sender's address is stamped on by the server, and hints,
  bodies and other extensions stand before and after the call's element.
\<close>

definition delivered :: "(string \<Rightarrow> xelem \<Rightarrow> dom) \<Rightarrow> dom list \<times> dom list \<Rightarrow> string \<Rightarrow> outgoing \<Rightarrow> dom" where
  "delivered wire others from m =
     Dom ''message'' ''jabber:client'' [(''from'', from), (''type'', ''chat'')] []
       (fst others @ wire ''jabber:client'' (extension m) # snd others)"

definition foreign :: "dom list \<times> dom list \<Rightarrow> bool" where
  "foreign others \<longleftrightarrow> list_all (\<lambda>c. dom_ns c \<noteq> kJINGLE_MESSAGE) (fst others)"

definition store_hints :: "dom list \<times> dom list" where
  "store_hints = ([Dom ''store'' ''urn:xmpp:hints'' [] [] []], [])"

lemma foreign_store_hints [simp]: "foreign store_hints"
  by (simp add: foreign_def store_hints_def kJINGLE_MESSAGE_def)

lemma find_past_foreign:
  assumes "foreign others" and "P = (\<lambda>c. dom_ns c = kJINGLE_MESSAGE)" and "P x"
  shows "find P (fst others @ x # ys) = Some x"
proof -
  have "find P (bs @ x # ys) = Some x" if "list_all (\<lambda>c. dom_ns c \<noteq> kJINGLE_MESSAGE) bs" for bs
    using that assms(2,3) by (induction bs) simp_all
  then show ?thesis using assms(1) by (simp add: foreign_def)
qed

lemma parse_delivered:
  assumes w: "xml_transport wire" and wt: "writable (XE (fromJingleMessageType ty) [(''xmlns'', kJINGLE_MESSAGE), (''id'', mid)] [] cs)"
    and m: "extension m = XE (fromJingleMessageType ty) [(''xmlns'', kJINGLE_MESSAGE), (''id'', mid)] [] cs"
    and nb: "\<not> blank from" "\<not> blank mid" and fo: "foreign others"
  shows "parse_message (Some (delivered wire others from m)) =
    (let kids = map (wire kJINGLE_MESSAGE) cs;
         streams = (if ty = Propose then stream_types kids [] else [])
     in if ty = Propose \<and> streams = [] then ([], [])
        else (streams, signals_of ty from mid streams
               (case find (\<lambda>c. dom_tag c = ''reason'') kids of
                  Some r \<Rightarrow> if dom_ns r = kJINGLE_NAME then reason_text (dom_children r) [] else []
                | None \<Rightarrow> [])))"
proof -
  let ?e = "XE (fromJingleMessageType ty) [(''xmlns'', kJINGLE_MESSAGE), (''id'', mid)] [] cs"
  let ?d = "wire ''jabber:client'' ?e"
  note t = transport [OF w wt, of "''jabber:client''"] transport_attr [OF w wt, of "''id''" "''jabber:client''"]
  have n: "ns_of ''jabber:client'' ?e = kJINGLE_MESSAGE" by (simp add: ns_of_def)
  have d: "dom_tag ?d = fromJingleMessageType ty" "dom_ns ?d = kJINGLE_MESSAGE"
    "dom_children ?d = map (wire kJINGLE_MESSAGE) cs" "attribute ?d ''id'' = mid"
    using t by (simp_all add: n x_attr_def)
  have p: "payload_of (delivered wire others from m) = Some (from, ?d)"
    using nb d(2) by (simp add: payload_of_def delivered_def m attribute_def [of "Dom _ _ _ _ _"] find_past_foreign [OF fo])
  show ?thesis
    unfolding parse_message_def option.case p prod.case d message_type.of_to Let_def first_child_def
    using nb(2) by simp
qed

lemma stream_types_described:
  assumes w: "xml_transport wire"
  shows "set acc \<inter> set ss = {} \<Longrightarrow> distinct ss \<Longrightarrow>
    stream_types (map (wire ns) (map description_of ss)) acc = acc @ ss"
proof (induction ss arbitrary: acc)
  case (Cons s ss)
  have wt: "writable (XE ''description'' [(''xmlns'', kJINGLE_APP_NAME), (''media'', fromStreamType s)] [] [])" by simp
  note t = transport [OF w wt, of ns] transport_attr [OF w wt, of "''media''" ns]
  have "dom_tag (wire ns (description_of s)) = ''description''" "dom_ns (wire ns (description_of s)) = kJINGLE_APP_NAME"
    "attribute (wire ns (description_of s)) ''media'' = fromStreamType s"
    using t by (simp_all add: description_of_def ns_of_def x_attr_def)
  then show ?case using Cons by (simp add: stream_type.of_to)
qed simp

lemma propose_roundtrip_raw:
  assumes "xml_transport wire" and "\<not> blank from" and "\<not> blank mid" and "xml_text mid" and "foreign others"
    and "streams \<noteq> []" and "distinct streams"
  shows "parse_message (Some (delivered wire others from (propose recipient streams mid)))
    = (streams, [messageReceived ''propose'' from mid streams [], proposeReceived streams from mid])"
proof -
  have wt: "writable (XE (fromJingleMessageType Propose) [(''xmlns'', kJINGLE_MESSAGE), (''id'', mid)] [] (map description_of streams))"
    using assms(4) by (auto simp: description_of_def list_all_iff)
  have st: "stream_types (map (wire kJINGLE_MESSAGE) (map description_of streams)) [] = streams"
    using stream_types_described [OF assms(1), of "[]" streams] assms(7) by simp
  have tag: "dom_tag (wire ns (description_of s)) = ''description''" for ns s
    using transport(1) [OF assms(1), of "''description''" "[(''xmlns'', kJINGLE_APP_NAME), (''media'', fromStreamType s)]" "[]" "[]"]
    by (simp add: description_of_def)
  have "find (\<lambda>c. dom_tag c = ''reason'') (map (wire kJINGLE_MESSAGE) (map description_of streams)) = None"
    by (simp add: find_None_iff tag)
  then show ?thesis
    using parse_delivered [OF assms(1) wt _ assms(2,3,5), of "propose recipient streams mid"] st assms(6)
    by (simp add: propose_def signals_of_def)
qed

text \<open>
  A proposal with at least one stream, each named once, reaches the other side's
  \<open>proposeReceived\<close> with the same streams in the same order, the sender and the call identifier.
\<close>

theorem propose_roundtrip:
  assumes "xml_transport wire" and "\<not> blank from" and "\<not> blank mid" and "xml_text mid" and "foreign others"
    and "streams \<noteq> []" and "distinct streams"
  shows "parse_message (Some (delivered wire others from (propose recipient streams mid)))
    = (streams, [messageReceived ''propose'' from mid streams [], proposeReceived streams from mid])"
  by (rule propose_roundtrip_raw [OF assms])

theorem propose_roundtrip_witness:
  "parse_message (Some (delivered xml_wire store_hints ''a@x/1'' (propose ''b@x'' [Audio, Video] ''id7'')))
    = ([Audio, Video], [messageReceived ''propose'' ''a@x/1'' ''id7'' [Audio, Video] [], proposeReceived [Audio, Video] ''a@x/1'' ''id7''])"
  by (rule propose_roundtrip [OF xml_wire_transport]) (simp_all add: blank_def is_space_def xml_text_def)

lemma reason_roundtrip:
  assumes w: "xml_transport wire" and nb: "\<not> blank from" "\<not> blank mid"
    and fo: "foreign others" and tx: "xml_text mid" "xml_text txt" "CHR 0x0D \<notin> set txt" and ty: "ty \<noteq> Propose"
  shows "parse_message (Some (delivered wire others from (reason_message ty why txt recipient mid)))
    = ([], signals_of ty from mid [] txt)"
proof -
  have tags: "fromJingleReason why \<noteq> []" "fromJingleReason why \<noteq> ''text''"
    by (cases why; simp)+
  let ?r = "XE ''reason'' [(''xmlns'', kJINGLE_NAME)] [] [XE (fromJingleReason why) [] [] [], XE ''text'' [] txt []]"
  have wt: "writable (XE (fromJingleMessageType ty) [(''xmlns'', kJINGLE_MESSAGE), (''id'', mid)] [] [?r])"
    and wr: "writable ?r" and wy: "writable (XE (fromJingleReason why) [] [] [])" and wx: "writable (XE ''text'' [] txt [])"
    using tags tx by simp_all
  let ?d = "wire kJINGLE_MESSAGE ?r"
  have d: "dom_tag ?d = ''reason''" "dom_ns ?d = kJINGLE_NAME"
    "dom_children ?d = [wire kJINGLE_NAME (XE (fromJingleReason why) [] [] []), wire kJINGLE_NAME (XE ''text'' [] txt [])]"
    using transport(1,2,4) [OF w wr, of kJINGLE_MESSAGE] by (simp_all add: ns_of_def)
  have k: "dom_tag (wire kJINGLE_NAME (XE (fromJingleReason why) [] [] [])) = fromJingleReason why"
    "dom_ns (wire kJINGLE_NAME (XE (fromJingleReason why) [] [] [])) = kJINGLE_NAME"
    "dom_tag (wire kJINGLE_NAME (XE ''text'' [] txt [])) = ''text''"
    "dom_ns (wire kJINGLE_NAME (XE ''text'' [] txt [])) = kJINGLE_NAME"
    "dom_text (wire kJINGLE_NAME (XE ''text'' [] txt [])) = txt"
    using transport(1,2) [OF w wy, of kJINGLE_NAME] transport(1,2) [OF w wx, of kJINGLE_NAME] transport_plain_text [OF w wx tx(3)]
    by (simp_all add: ns_of_def)
  have "reason_text (dom_children ?d) [] = txt" using k tags(2) by (simp add: d(3))
  then show ?thesis
    using parse_delivered [OF w wt _ nb fo, of "reason_message ty why txt recipient mid"] ty d(1,2)
    by (simp add: reason_message_def)
qed

text \<open>
  Accepting, proceeding, ringing, rejecting and retracting are each recognised by the other
  side as what they are, for the same call; a rejection arrives with the text Busy, a retraction
  with the text Cancel.
\<close>

theorem answers_roundtrip:
  assumes "xml_transport wire" and "\<not> blank from" and "\<not> blank mid" and "xml_text mid" and "foreign others"
  shows "snd (parse_message (Some (delivered wire others from (accept r mid)))) = signals_of Accept from mid [] []
    \<and> snd (parse_message (Some (delivered wire others from (proceed r mid)))) = signals_of Proceed from mid [] []
    \<and> snd (parse_message (Some (delivered wire others from (ringing r mid)))) = signals_of Ringing from mid [] []
    \<and> snd (parse_message (Some (delivered wire others from (reject r mid)))) = signals_of Reject from mid [] ''Busy''
    \<and> snd (parse_message (Some (delivered wire others from (retract r mid)))) = signals_of Retract from mid [] ''Cancel''"
proof -
  have plain: "snd (parse_message (Some (delivered wire others from (plain_message ty r mid)))) = signals_of ty from mid [] []"
    if "ty \<noteq> Propose" for ty
  proof -
    have "writable (XE (fromJingleMessageType ty) [(''xmlns'', kJINGLE_MESSAGE), (''id'', mid)] [] [])" using assms(4) by simp
    from parse_delivered [OF assms(1) this _ assms(2,3,5), of "plain_message ty r mid"] that show ?thesis
      by (simp add: plain_message_def)
  qed
  show ?thesis
    using plain reason_roundtrip [OF assms(1-3,5,4)]
    by (simp add: accept_def proceed_def ringing_def reject_def retract_def xml_text_def)
qed

theorem answers_roundtrip_witness:
  "snd (parse_message (Some (delivered xml_wire store_hints ''b@x/2'' (reject ''a@x'' ''id7''))))
     = [messageReceived ''reject'' ''b@x/2'' ''id7'' [] ''Busy'', rejectReceived ''Busy'' ''id7'']"
  using answers_roundtrip [OF xml_wire_transport, of "''b@x/2''" "''id7''" store_hints "''a@x''"]
  by (simp add: signals_of_def blank_def is_space_def xml_text_def)

text \<open>
  The element \<open>finish\<close> builds has children without a tag name, so it is not an element the
  other side can be expected to read.
\<close>

theorem finish_untagged: "\<not> writable (extension (finish recipient mid))"
  by (simp add: finish_def)

lemma stream_types_distinct: "distinct acc \<Longrightarrow> distinct (stream_types ds acc)"
  by (induction ds acc rule: stream_types.induct) (auto split: option.splits)

text \<open>
  Whatever element arrives, a proposal is only reported with a non-empty list of different
  streams and a call identifier that is not blank.
\<close>

theorem propose_is_checked:
  assumes "proposeReceived streams from mid \<in> set (snd (parse_message el))"
  shows "streams \<noteq> [] \<and> distinct streams \<and> \<not> blank mid"
  using assms stream_types_distinct [of "[]"]
  by (auto simp: parse_message_def signals_of_def Let_def split: option.splits if_splits JingleMessageType.splits)

theorem propose_is_checked_witness: "[Audio] \<noteq> [] \<and> distinct [Audio] \<and> \<not> blank ''k''"
proof (rule propose_is_checked)
  show "proposeReceived [Audio] ''a@x'' ''k'' \<in> set (snd (parse_message (Some (delivered xml_wire store_hints ''a@x'' (propose ''b@x'' [Audio] ''k'')))))"
    by (subst propose_roundtrip [OF xml_wire_transport]) (simp_all add: blank_def is_space_def xml_text_def)
qed

end
