(* ===== verification/Jingle_Action.thy ===== *)
theory Jingle_Action
  imports Jingle_Message
begin

text \<open>
  Jingle sessions (features/voip/signaling/jingle_action.cpp): the IQs that offer and answer a
  session, exchange ICE candidates, tell about media and end the session, and their parser with
  the session it guards. Tags are local names: the elements the program exchanges carry no
  prefix, so \<open>localName\<close>, \<open>tagName\<close> and the name \<open>firstChildElement\<close> compares are one string.
\<close>

definition kJINGLE_TRANSPORT :: string where "kJINGLE_TRANSPORT = ''urn:xmpp:jingle:apps:rtp:info:1''"
definition kJINGLE_TRANSPORT_ICE :: string where "kJINGLE_TRANSPORT_ICE = ''urn:xmpp:jingle:transports:ice:0''"

record action_state =
  currentSid :: string
  contentName :: string
  contentCreator :: string

definition no_session :: action_state where
  "no_session = \<lparr>currentSid = [], contentName = [], contentCreator = []\<rparr>"

datatype iq_kind = Get | Set | Result

record iq =
  iq_type :: iq_kind
  iq_to :: string
  iq_id :: string
  extensions :: "xelem list"

text \<open>An IQ built with no identifier is given one by the client when it is sent.\<close>

definition set_iq :: "string \<Rightarrow> xelem \<Rightarrow> iq" where
  "set_iq recipient e = \<lparr>iq_type = Set, iq_to = recipient, iq_id = [], extensions = [e]\<rparr>"

definition empty_iq :: iq where
  "empty_iq = \<lparr>iq_type = Get, iq_to = [], iq_id = [], extensions = []\<rparr>"

section \<open>Building\<close>

definition ackKnowledge :: "string \<Rightarrow> string \<Rightarrow> iq" where
  "ackKnowledge recipient sid = \<lparr>iq_type = Result, iq_to = recipient, iq_id = sid, extensions = []\<rparr>"

definition ice_element :: "IceServer \<Rightarrow> xelem" where
  "ice_element i = XE ''ice''
     [(''type'', ice_toString (ice_type i)), (''port'', ice_port i), (''username'', ice_username i),
      (''credential'', ice_credential i)] [] []"

definition sdp_description :: "(string \<times> string) list \<Rightarrow> string \<Rightarrow> xelem" where
  "sdp_description media sdp = XE ''description'' ((''xmlns'', kJINGLE_APP_NAME) # media) [] [XE ''sdp'' [] sdp []]"

text \<open>The identifier of the new session is the \<open>uuid\<close>; \<open>jidBare\<close> is the account's bare address.\<close>

definition sessionInitaite ::
  "string \<Rightarrow> string \<Rightarrow> string \<Rightarrow> string \<Rightarrow> IceServer list \<Rightarrow> StreamType \<Rightarrow> action_state \<Rightarrow> iq \<times> action_state" where
  "sessionInitaite uuid jidBare recipient sdp_offer ice_servers media st =
     (set_iq recipient
        (XE ''jingle'' [(''xmlns'', kJINGLE_NAME), (''action'', fromType SessionInitiate), (''initiator'', jidBare),
                        (''sid'', uuid)] []
           [XE ''content'' [(''creatore'', ''initiator''), (''name'', ''video'')] []
              [sdp_description [(''media'', fromStreamType media)] sdp_offer,
               XE ''transport'' [(''xmlns'', kJINGLE_TRANSPORT_ICE)] [] (map ice_element ice_servers)]]),
      st\<lparr>currentSid := uuid\<rparr>)"

definition sessionAccept :: "string \<Rightarrow> string \<Rightarrow> string \<Rightarrow> StreamType \<Rightarrow> action_state \<Rightarrow> iq" where
  "sessionAccept jid recipient sdp media st =
     set_iq recipient
       (XE ''jingle'' [(''xmlns'', kJINGLE_NAME), (''action'', fromType SessionAccept), (''responder'', jid),
                       (''sid'', currentSid st)] []
          [XE ''content'' [(''creator'', contentCreator st), (''name'', contentName st)] []
             [sdp_description [(''media'', fromStreamType media)] sdp]])"

definition sessionInfo :: "string \<Rightarrow> SessionInfo \<Rightarrow> MediaType \<Rightarrow> action_state \<Rightarrow> iq" where
  "sessionInfo recipient info media st =
     set_iq recipient
       (XE ''jingle'' [(''xmlns'', kJINGLE_NAME), (''action'', fromType SessionInfoAction), (''sid'', currentSid st)] []
          [XE (fromSessionInfo info)
             ((''xmlns'', kJINGLE_TRANSPORT) # (if info \<in> {Mute, Unmute} then [(''name'', fromMediaType media)] else []))
             [] []])"

definition sessionTerminate :: "string \<Rightarrow> action_state \<Rightarrow> iq" where
  "sessionTerminate recipient st =
     set_iq recipient
       (XE ''jingle'' [(''xmlns'', kJINGLE_NAME), (''sid'', currentSid st), (''action'', fromType SessionTerminate)] []
          [XE ''reason'' [] [] [XE ''success'' [] [] [], XE ''text'' [] ''Stuck!'' []]])"

text \<open>
  The candidate's attributes; \<open>None\<close> for the empty IQ of the early returns. The foundation is
  checked and then not used: the attribute of that name carries \<open>sdpMid\<close>.
\<close>

definition candidate_element :: "(int \<Rightarrow> string) \<Rightarrow> string list \<Rightarrow> string \<Rightarrow> string \<Rightarrow> int \<Rightarrow> xelem" where
  "candidate_element number parts candidate sdpMid sdpMLineIndex = XE ''candidate''
     [(''foundation'', sdpMid), (''component'', number sdpMLineIndex), (''protocol'', parts ! 2),
      (''priority'', parts ! 3), (''ip'', parts ! 4), (''port'', parts ! 5), (''type'', parts ! 7),
      (''sdp'', candidate)] [] []"

definition exchangeIceCandidate ::
  "(int \<Rightarrow> string) \<Rightarrow> string \<Rightarrow> string \<Rightarrow> string \<Rightarrow> int \<Rightarrow> action_state \<Rightarrow> iq" where
  "exchangeIceCandidate number recipient candidate sdpMid sdpMLineIndex st =
     (let parts = split_words candidate []
      in if recipient = [] \<or> currentSid st = [] \<or> length parts < 8 \<or> parts ! 6 \<noteq> ''typ'' then empty_iq
         else
           (let f0 = parts ! 0;
                f1 = (if startsWith f0 ''a='' then drop 2 f0 else f0)
            in if \<not> startsWith f1 ''candidate:'' then empty_iq
               else if drop 10 f1 = [] then empty_iq
               else set_iq recipient
                 (XE ''jingle'' [(''xmlns'', kJINGLE_NAME), (''action'', fromType SessionTransport), (''sid'', currentSid st)] []
                    [XE ''transport'' [(''xmlns'', kJINGLE_TRANSPORT)] []
                       [candidate_element number parts candidate sdpMid sdpMLineIndex]])))"

definition transport_action :: "ActionType \<Rightarrow> string \<Rightarrow> string \<Rightarrow> string \<Rightarrow> action_state \<Rightarrow> iq" where
  "transport_action ty jidBare recipient sdp st =
     set_iq recipient
       (XE ''jingle'' [(''xmlns'', kJINGLE_NAME), (''action'', fromType ty), (''initiator'', jidBare),
                       (''sid'', currentSid st)] []
          [XE ''content'' [(''creator'', ''initiator''), (''name'', ''voice'')] [] [sdp_description [] sdp]])"

definition transportReplace :: "string \<Rightarrow> string \<Rightarrow> string \<Rightarrow> action_state \<Rightarrow> iq" where
  "transportReplace jidBare recipient sdp st = transport_action TransportReplace jidBare recipient sdp st"

definition transportAccept :: "string \<Rightarrow> string \<Rightarrow> string \<Rightarrow> action_state \<Rightarrow> iq" where
  "transportAccept jidBare recipient sdp st = transport_action TransportAccept jidBare recipient sdp st"

section \<open>Parsing\<close>

datatype action_signal =
    remoteSdpOfferReceived string "IceServer list" string
  | remoteSdpAnswerReceived string string
  | exchangeIceCandidateReceived string string int
  | sessionTerminateReceived bool

definition matches :: "dom \<Rightarrow> string \<Rightarrow> string \<Rightarrow> bool" where
  "matches e name ns \<longleftrightarrow> dom_tag e = name \<and> (if dom_ns e = [] then attribute e ''xmlns'' else dom_ns e) = ns"

text \<open>The ICE servers of a transport: an entry of another type, or with no host, is skipped.\<close>

definition parse_ice :: "dom \<Rightarrow> IceServer option" where
  "parse_ice e =
     (let t = attribute e ''type''
      in if t \<noteq> ''stun'' \<and> t \<noteq> ''turn'' then None
         else if attribute e ''host'' = [] then None
         else Some \<lparr>ice_type = (if t = ''stun'' then Stun else Turn), ice_host = attribute e ''host'',
                    ice_port = attribute e ''port'', ice_username = attribute e ''username'',
                    ice_credential = attribute e ''credential''\<rparr>)"

definition children_named :: "string \<Rightarrow> dom \<Rightarrow> dom list" where
  "children_named t e = filter (\<lambda>c. dom_tag c = t) (dom_children e)"

text \<open>One pass over the children of a content: the last description's SDP, and all servers.\<close>

fun parse_content :: "dom list \<Rightarrow> string \<Rightarrow> IceServer list \<Rightarrow> string \<times> IceServer list" where
  "parse_content [] offer ices = (offer, ices)"
| "parse_content (c # cs) offer ices =
     (if matches c ''description'' kJINGLE_APP_NAME then parse_content cs (child_text ''sdp'' c) ices
      else if matches c ''transport'' kJINGLE_TRANSPORT_ICE then
        parse_content cs offer (ices @ List.map_filter parse_ice (children_named ''ice'' c))
      else parse_content cs offer ices)"

fun parse_offer :: "string \<Rightarrow> dom list \<Rightarrow> action_state \<Rightarrow> bool \<times> action_state \<times> action_signal list" where
  "parse_offer sid [] st = (False, st, [])"
| "parse_offer sid (c # cs) st =
     (let (offer, ices) = parse_content (dom_children c) [] []
      in if blank offer then parse_offer sid cs st
         else (True,
               st\<lparr>currentSid := sid, contentName := attribute c ''name'',
                  contentCreator := (if hasAttribute c ''creator'' then attribute c ''creator'' else ''initiator'')\<rparr>,
               [remoteSdpOfferReceived offer ices sid]))"

text \<open>
  The answer: the first content, then whatever sibling follows it (the loop's step names no tag).
\<close>

definition answer_of :: "dom \<Rightarrow> string" where
  "answer_of c = (case first_child ''description'' c of None \<Rightarrow> [] | Some d \<Rightarrow> child_text ''sdp'' d)"

fun parse_answer :: "string \<Rightarrow> dom list \<Rightarrow> bool \<times> action_signal list" where
  "parse_answer sid [] = (False, [])"
| "parse_answer sid (c # cs) =
     (if blank (answer_of c) then parse_answer sid cs else (True, [remoteSdpAnswerReceived (answer_of c) sid]))"

text \<open>\<open>toInt\<close> is \<open>QString::toInt\<close>: \<open>None\<close> when the text is not a 32-bit decimal number.\<close>

definition parse_candidate :: "(string \<Rightarrow> int option) \<Rightarrow> dom \<Rightarrow> action_signal option" where
  "parse_candidate toInt c =
     (if dom_tag c \<noteq> ''candidate'' then None
      else if (dom_ns c \<noteq> [] \<or> hasAttribute c ''xmlns'') \<and> \<not> matches c ''candidate'' kJINGLE_TRANSPORT then None
      else if blank (attribute c ''sdp'') \<or> attribute c ''foundation'' = [] \<or> attribute c ''component'' = [] then None
      else case toInt (attribute c ''component'') of
        None \<Rightarrow> None
      | Some i \<Rightarrow> if i < 0 then None
                  else Some (exchangeIceCandidateReceived (attribute c ''sdp'') (attribute c ''foundation'') i))"

definition parse_transports :: "(string \<Rightarrow> int option) \<Rightarrow> dom \<Rightarrow> action_signal list" where
  "parse_transports toInt j =
     concat (map (\<lambda>t. List.map_filter (parse_candidate toInt) (dom_children t))
       (filter (\<lambda>t. matches t ''transport'' kJINGLE_TRANSPORT) (dom_children j)))"

text \<open>The jingle element of an IQ of type set, or the element itself.\<close>

definition jingle_of :: "dom \<Rightarrow> dom option" where
  "jingle_of e =
     (if dom_tag e = ''iq'' then
        (if attribute e ''type'' \<noteq> ''set'' then None
         else find (\<lambda>c. matches c ''jingle'' kJINGLE_NAME) (dom_children e))
      else if matches e ''jingle'' kJINGLE_NAME then Some e else None)"

definition parse_action ::
  "(string \<Rightarrow> int option) \<Rightarrow> dom option \<Rightarrow> action_state \<Rightarrow> bool \<times> action_state \<times> action_signal list" where
  "parse_action toInt el st =
     (case Option.bind el jingle_of of
        None \<Rightarrow> (False, st, [])
      | Some j \<Rightarrow>
          (let sid = attribute j ''sid''
           in case fromString (attribute j ''action'') of
                None \<Rightarrow> (False, st, [])
              | Some a \<Rightarrow>
                  if sid = [] then (False, st, [])
                  else (case a of
                     SessionInitiate \<Rightarrow> parse_offer sid (children_named ''content'' j) st
                   | SessionAccept \<Rightarrow>
                       if sid \<noteq> currentSid st then (False, st, [])
                       else (let (ok, sigs) = parse_answer sid (dropWhile (\<lambda>c. dom_tag c \<noteq> ''content'') (dom_children j))
                             in (ok, st, sigs))
                   | SessionTerminate \<Rightarrow> (False, st, [sessionTerminateReceived True])
                   | SessionInfoAction \<Rightarrow> (False, st, [])
                   | SessionTransport \<Rightarrow>
                       if sid \<noteq> currentSid st then (False, st, [])
                       else (let sigs = parse_transports toInt j in (sigs \<noteq> [], st, sigs))
                   | TransportReplace \<Rightarrow> (False, st, [])
                   | TransportAccept \<Rightarrow> (False, st, []))))"

section \<open>What the other side receives\<close>

text \<open>The IQ as the server delivers it: with the sender's address and the identifier it was sent with.\<close>

fun iq_kind_name :: "iq_kind \<Rightarrow> string" where
  "iq_kind_name Get = ''get''"
| "iq_kind_name Set = ''set''"
| "iq_kind_name Result = ''result''"

definition delivered_iq :: "(string \<Rightarrow> xelem \<Rightarrow> dom) \<Rightarrow> string \<Rightarrow> string \<Rightarrow> iq \<Rightarrow> dom" where
  "delivered_iq wire from i q =
     Dom ''iq'' ''jabber:client'' [(''from'', from), (''type'', iq_kind_name (iq_type q)), (''id'', i)] []
       (map (wire ''jabber:client'') (extensions q))"

lemma xml_text_transports [simp]: "xml_text kJINGLE_TRANSPORT" "xml_text kJINGLE_TRANSPORT_ICE"
  by (simp_all add: xml_text_def kJINGLE_TRANSPORT_def kJINGLE_TRANSPORT_ICE_def)

lemma namespaces_nonempty [simp]:
  "kJINGLE_NAME \<noteq> []" "kJINGLE_APP_NAME \<noteq> []" "kJINGLE_TRANSPORT \<noteq> []" "kJINGLE_TRANSPORT_ICE \<noteq> []"
  by (simp_all add: kJINGLE_NAME_def kJINGLE_APP_NAME_def kJINGLE_TRANSPORT_def kJINGLE_TRANSPORT_ICE_def)

lemma namespaces_differ [simp]:
  "kJINGLE_APP_NAME \<noteq> kJINGLE_TRANSPORT_ICE" "kJINGLE_TRANSPORT_ICE \<noteq> kJINGLE_APP_NAME"
  by (simp_all add: kJINGLE_APP_NAME_def kJINGLE_TRANSPORT_ICE_def)

lemma ns_of_xmlns [simp]: "ns_of ns (XE t ((''xmlns'', n) # as) v cs) = n"
  by (simp add: ns_of_def)

lemma matches_wire:
  assumes "xml_transport wire" and "writable (XE t ((''xmlns'', n) # as) v cs)" and "n \<noteq> []"
  shows "matches (wire ns (XE t ((''xmlns'', n) # as) v cs)) t' n' \<longleftrightarrow> t = t' \<and> n = n'"
  using transport(1,2) [OF assms(1,2), of ns] assms(3) by (simp add: matches_def)

text \<open>The jingle element of a delivered IQ, and its session identifier, action and children.\<close>

lemma jingle_delivered:
  assumes w: "xml_transport wire" and wt: "writable (XE ''jingle'' ((''xmlns'', kJINGLE_NAME) # as) [] cs)"
  defines "j \<equiv> wire ''jabber:client'' (XE ''jingle'' ((''xmlns'', kJINGLE_NAME) # as) [] cs)"
  shows "jingle_of (delivered_iq wire from i (set_iq r (XE ''jingle'' ((''xmlns'', kJINGLE_NAME) # as) [] cs))) = Some j"
    and "dom_children j = map (wire kJINGLE_NAME) cs"
    and "k \<noteq> ''xmlns'' \<Longrightarrow> attribute j k = x_attr (XE ''jingle'' as [] cs) k"
  using matches_wire [OF w wt, of "''jabber:client''"] transport(4) [OF w wt, of "''jabber:client''"]
    transport_attr(1) [OF w wt, of k "''jabber:client''"]
  unfolding j_def by (simp_all add: jingle_of_def delivered_iq_def set_iq_def attribute_def [of "Dom _ _ _ _ _"] x_attr_def)

lemma sdp_description_read:
  assumes w: "xml_transport wire" and wt: "writable (sdp_description media sdp)"
  shows "matches (wire ns (sdp_description media sdp)) ''description'' kJINGLE_APP_NAME"
    and "dom_tag (wire ns (sdp_description media sdp)) = ''description''"
    and "child_text ''sdp'' (wire ns (sdp_description media sdp)) \<in> {sdp, eol sdp}"
proof -
  have ws: "writable (XE ''sdp'' [] sdp [])" using wt by (simp add: sdp_description_def)
  note d = wt [unfolded sdp_description_def]
  show "matches (wire ns (sdp_description media sdp)) ''description'' kJINGLE_APP_NAME"
    unfolding sdp_description_def using matches_wire [OF w d, of ns] by simp
  show "dom_tag (wire ns (sdp_description media sdp)) = ''description''"
    unfolding sdp_description_def by (rule transport(1) [OF w d])
  show "child_text ''sdp'' (wire ns (sdp_description media sdp)) \<in> {sdp, eol sdp}"
    unfolding sdp_description_def child_text_def first_child_def transport(4) [OF w d]
    using transport(1) [OF w ws, of kJINGLE_APP_NAME] transport_text [OF w ws, of kJINGLE_APP_NAME] by simp
qed

lemma ice_element_read:
  assumes w: "xml_transport wire" and wt: "writable (ice_element i)"
  shows "parse_ice (wire ns (ice_element i)) = None"
proof -
  have "attribute (wire ns (ice_element i)) ''host'' = []"
    unfolding ice_element_def using transport_attr(1) [OF w wt [unfolded ice_element_def], of "''host''" ns]
    by (simp add: x_attr_def)
  then show ?thesis by (simp add: parse_ice_def Let_def)
qed

section \<open>Offer and answer\<close>

definition ice_text :: "IceServer \<Rightarrow> bool" where
  "ice_text i \<longleftrightarrow> xml_text (ice_port i) \<and> xml_text (ice_username i) \<and> xml_text (ice_credential i)"

lemma xml_text_roles [simp]: "xml_text ''initiator''" "xml_text ''video''"
  by (simp_all add: xml_text_def)

lemma writable_description [simp]:
  "writable (sdp_description [(''media'', fromStreamType media)] sdp) = xml_text sdp"
  by (simp add: sdp_description_def)

lemma writable_ice [simp]: "writable (ice_element i) = ice_text i"
  by (auto simp: ice_element_def ice_text_def)

lemma map_filter_ice:
  assumes "xml_transport wire" and "list_all ice_text ices"
  shows "List.map_filter parse_ice (map (wire ns) (map ice_element ices)) = []"
  using assms by (induction ices) (simp_all add: List.map_filter_simps ice_element_read)

lemma ice_tags:
  assumes "xml_transport wire" and "list_all ice_text ices"
  shows "filter (\<lambda>c. dom_tag c = ''ice'') (map (wire ns) (map ice_element ices)) = map (wire ns) (map ice_element ices)"
proof -
  have "dom_tag (wire ns (ice_element i)) = ''ice''" if "ice_text i" for i
    using transport(1) [OF assms(1), of "''ice''"] that writable_ice [of i] unfolding ice_element_def by blast
  then show ?thesis using assms(2) by (induction ices) simp_all
qed

text \<open>The content of an offer, read.\<close>

lemma offer_content_read:
  fixes ns :: string and media :: StreamType
  assumes w: "xml_transport wire" and tx: "xml_text sdp" "list_all ice_text ices"
  defines "c \<equiv> wire ns (XE ''content'' [(''creatore'', ''initiator''), (''name'', ''video'')] []
    [sdp_description [(''media'', fromStreamType media)] sdp, XE ''transport'' [(''xmlns'', kJINGLE_TRANSPORT_ICE)] [] (map ice_element ices)])"
  shows "dom_tag c = ''content''" and "attribute c ''name'' = ''video''" and "\<not> hasAttribute c ''creator''"
    and "\<exists>offer \<in> {sdp, eol sdp}. parse_content (dom_children c) [] [] = (offer, [])"
proof -
  let ?d = "sdp_description [(''media'', fromStreamType media)] sdp"
  let ?t = "XE ''transport'' [(''xmlns'', kJINGLE_TRANSPORT_ICE)] [] (map ice_element ices)"
  have wd: "writable ?d" and wt: "writable ?t" using tx by (simp_all add: list_all_iff)
  have wc: "writable (XE ''content'' [(''creatore'', ''initiator''), (''name'', ''video'')] [] [?d, ?t])"
    using wd wt by simp
  show "dom_tag c = ''content''" unfolding c_def by (rule transport(1) [OF w wc])
  show "attribute c ''name'' = ''video''"
    unfolding c_def using transport_attr(1) [OF w wc, of "''name''" ns] by (simp add: x_attr_def)
  show "\<not> hasAttribute c ''creator''"
    unfolding c_def using transport_attr(2) [OF w wc, of "''creator''" ns] by simp
  have kids: "dom_children c = [wire ns ?d, wire ns ?t]"
    unfolding c_def transport(4) [OF w wc] by (simp add: ns_of_def)
  have "\<not> matches (wire ns ?t) ''description'' kJINGLE_APP_NAME" "matches (wire ns ?t) ''transport'' kJINGLE_TRANSPORT_ICE"
    using matches_wire [OF w wt, of ns] by simp_all
  moreover have "List.map_filter parse_ice (children_named ''ice'' (wire ns ?t)) = []"
    unfolding children_named_def transport(4) [OF w wt] using ice_tags [OF w tx(2)] map_filter_ice [OF w tx(2)] by simp
  ultimately have "parse_content (dom_children c) [] [] = (child_text ''sdp'' (wire ns ?d), [])"
    unfolding kids using sdp_description_read(1) [OF w wd, of ns] by simp
  then show "\<exists>offer \<in> {sdp, eol sdp}. parse_content (dom_children c) [] [] = (offer, [])"
    using sdp_description_read(3) [OF w wd, of ns] by blast
qed

lemma offer_roundtrip_raw:
  assumes "xml_transport wire" and "xml_text sdp" and "\<not> blank sdp"
    and "xml_text uuid" and "uuid \<noteq> []" and "xml_text jidBare" and "list_all ice_text ices"
  shows "\<exists>offer \<in> {sdp, eol sdp}.
    parse_action toInt (Some (delivered_iq wire from i (fst (sessionInitaite uuid jidBare r sdp ices media st)))) st'
      = (True, \<lparr>currentSid = uuid, contentName = ''video'', contentCreator = ''initiator''\<rparr>,
         [remoteSdpOfferReceived offer [] uuid])"
proof -
  let ?c = "XE ''content'' [(''creatore'', ''initiator''), (''name'', ''video'')] []
    [sdp_description [(''media'', fromStreamType media)] sdp, XE ''transport'' [(''xmlns'', kJINGLE_TRANSPORT_ICE)] [] (map ice_element ices)]"
  let ?as = "[(''action'', fromType SessionInitiate), (''initiator'', jidBare), (''sid'', uuid)]"
  have wj: "writable (XE ''jingle'' ((''xmlns'', kJINGLE_NAME) # ?as) [] [?c])"
    using assms by (simp add: list_all_iff)
  note j = jingle_delivered(1,2) [OF assms(1) wj] jingle_delivered(3) [OF assms(1) wj, of "''action''"]
    jingle_delivered(3) [OF assms(1) wj, of "''sid''"]
  note c = offer_content_read [OF assms(1,2,7), of kJINGLE_NAME media]
  obtain offer where o: "offer \<in> {sdp, eol sdp}"
    "parse_content (dom_children (wire kJINGLE_NAME ?c)) [] [] = (offer, [])" using c(4) by blast
  then have nb: "\<not> blank offer" using assms(3) blank_eol by auto
  have "parse_offer uuid [wire kJINGLE_NAME ?c] st'
    = (True, \<lparr>currentSid = uuid, contentName = ''video'', contentCreator = ''initiator''\<rparr>, [remoteSdpOfferReceived offer [] uuid])"
    using o(2) nb c(2,3) by (cases st') simp
  then show ?thesis
    using o(1) j c(1) assms(5)
    by (auto simp: parse_action_def sessionInitaite_def x_attr_def fromString_def children_named_def)
qed

text \<open>
  A session offer reaches the other side's \<open>remoteSdpOfferReceived\<close> with its SDP (up to line
  ends) and its session identifier, and the receiver then holds that session with content name
  video and creator initiator, whatever it held before; but the list of ICE servers it reports is
  empty whatever list was sent, because the sender writes no host.
\<close>

theorem offer_roundtrip:
  assumes "xml_transport wire" and "xml_text sdp" and "\<not> blank sdp"
    and "xml_text uuid" and "uuid \<noteq> []" and "xml_text jidBare" and "list_all ice_text ices"
  shows "\<exists>offer \<in> {sdp, eol sdp}.
    parse_action toInt (Some (delivered_iq wire from i (fst (sessionInitaite uuid jidBare r sdp ices media st)))) st'
      = (True, \<lparr>currentSid = uuid, contentName = ''video'', contentCreator = ''initiator''\<rparr>,
         [remoteSdpOfferReceived offer [] uuid])"
  by (rule offer_roundtrip_raw [OF assms])

theorem offer_roundtrip_witness:
  "\<exists>offer \<in> {''v=0'', eol ''v=0''}.
    parse_action (\<lambda>_. None) (Some (delivered_iq xml_wire ''a@x/1'' ''q1''
        (fst (sessionInitaite ''s1'' ''a@x'' ''b@x/2'' ''v=0'' [\<lparr>ice_type = Stun, ice_host = ''h'', ice_port = ''1'', ice_username = [], ice_credential = []\<rparr>] Audio no_session)))) no_session
      = (True, \<lparr>currentSid = ''s1'', contentName = ''video'', contentCreator = ''initiator''\<rparr>, [remoteSdpOfferReceived offer [] ''s1''])"
  by (rule offer_roundtrip [OF xml_wire_transport]) (simp_all add: blank_def is_space_def ice_text_def)

lemma answer_roundtrip_raw:
  assumes "xml_transport wire" and "xml_text sdp" and "\<not> blank sdp" and "xml_text jid"
    and "xml_text (currentSid callee)" and "xml_text (contentName callee)" and "xml_text (contentCreator callee)"
    and "currentSid caller = currentSid callee" and "currentSid callee \<noteq> []"
  shows "\<exists>answer \<in> {sdp, eol sdp}.
    parse_action toInt (Some (delivered_iq wire from i (sessionAccept jid r sdp media callee))) caller
      = (True, caller, [remoteSdpAnswerReceived answer (currentSid callee)])"
proof -
  let ?d = "sdp_description [(''media'', fromStreamType media)] sdp"
  let ?c = "XE ''content'' [(''creator'', contentCreator callee), (''name'', contentName callee)] [] [?d]"
  let ?as = "[(''action'', fromType SessionAccept), (''responder'', jid), (''sid'', currentSid callee)]"
  have wd: "writable ?d" and wc: "writable ?c" using assms by simp_all
  have wj: "writable (XE ''jingle'' ((''xmlns'', kJINGLE_NAME) # ?as) [] [?c])" using wc assms by simp
  note j = jingle_delivered(1,2) [OF assms(1) wj] jingle_delivered(3) [OF assms(1) wj, of "''action''"]
    jingle_delivered(3) [OF assms(1) wj, of "''sid''"]
  have tag: "dom_tag (wire kJINGLE_NAME ?c) = ''content''" by (rule transport(1) [OF assms(1) wc])
  have "dom_children (wire kJINGLE_NAME ?c) = [wire kJINGLE_NAME ?d]"
    unfolding transport(4) [OF assms(1) wc] by (simp add: ns_of_def)
  then have a: "answer_of (wire kJINGLE_NAME ?c) \<in> {sdp, eol sdp}"
    using sdp_description_read(2,3) [OF assms(1) wd, of kJINGLE_NAME] by (simp add: answer_of_def first_child_def)
  then have nb: "\<not> blank (answer_of (wire kJINGLE_NAME ?c))" using assms(3) by (metis blank_eol empty_iff insert_iff)
  show ?thesis
    by (rule bexI [OF _ a])
      (use j tag nb assms(8,9) in \<open>simp add: parse_action_def sessionAccept_def x_attr_def fromString_def\<close>)
qed

text \<open>
  An answer to the session reaches \<open>remoteSdpAnswerReceived\<close> of the side that offered it,
  when both sides hold the same session identifier.
\<close>

theorem answer_roundtrip:
  assumes "xml_transport wire" and "xml_text sdp" and "\<not> blank sdp" and "xml_text jid"
    and "xml_text (currentSid callee)" and "xml_text (contentName callee)" and "xml_text (contentCreator callee)"
    and "currentSid caller = currentSid callee" and "currentSid callee \<noteq> []"
  shows "\<exists>answer \<in> {sdp, eol sdp}.
    parse_action toInt (Some (delivered_iq wire from i (sessionAccept jid r sdp media callee))) caller
      = (True, caller, [remoteSdpAnswerReceived answer (currentSid callee)])"
  by (rule answer_roundtrip_raw [OF assms])

theorem answer_roundtrip_witness:
  "\<exists>answer \<in> {''v=0'', eol ''v=0''}.
    parse_action (\<lambda>_. None) (Some (delivered_iq xml_wire ''b@x/2'' ''q2''
       (sessionAccept ''b@x/2'' ''a@x/1'' ''v=0'' Audio \<lparr>currentSid = ''s1'', contentName = ''video'', contentCreator = ''initiator''\<rparr>)))
       \<lparr>currentSid = ''s1'', contentName = [], contentCreator = []\<rparr>
     = (True, \<lparr>currentSid = ''s1'', contentName = [], contentCreator = []\<rparr>, [remoteSdpAnswerReceived answer ''s1''])"
  using answer_roundtrip [OF xml_wire_transport, of "''v=0''" "''b@x/2''" "\<lparr>currentSid = ''s1'', contentName = ''video'', contentCreator = ''initiator''\<rparr>"
      "\<lparr>currentSid = ''s1'', contentName = [], contentCreator = []\<rparr>" "\<lambda>_. None" "''b@x/2''" "''q2''" "''a@x/1''" Audio]
  by (simp add: blank_def is_space_def)

section \<open>Candidates\<close>

lemma split_words_chars: "w \<in> set (split_words s acc) \<Longrightarrow> set w \<subseteq> set acc \<union> set s"
proof (induction s acc arbitrary: w rule: split_words.induct)
  case (2 c cs acc)
  show ?case
  proof (cases "is_space c")
    case True
    then have "w = acc \<or> w \<in> set (split_words cs [])" using "2.prems" by (auto split: if_splits)
    then show ?thesis using "2.IH"(1,2) True by fastforce
  next
    case False
    then have "w \<in> set (split_words cs (acc @ [c]))" using "2.prems" by simp
    from "2.IH"(3) [OF False this] show ?thesis by simp
  qed
qed (simp split: if_splits)

lemma split_words_blank: "blank s \<Longrightarrow> split_words s [] = []"
  by (induction s) (simp_all add: blank_def)

lemma xml_text_word: "w \<in> set (split_words s []) \<Longrightarrow> xml_text s \<Longrightarrow> xml_text w"
  using split_words_chars [of w s "[]"] by (auto simp: xml_text_def list_all_iff)

text \<open>
  An ICE candidate that is sent at all is received by the peer holding the same session as
  the same candidate line for the same media section, index and name.
\<close>

theorem candidate_roundtrip:
  assumes "xml_transport wire" and "xml_text candidate" and "xml_text sdpMid" and "sdpMid \<noteq> []"
    and "toInt (number idx) = Some idx" and "number idx \<noteq> []" and "xml_text (number idx)" and "0 \<le> idx"
    and "xml_text (currentSid st)" and "currentSid st' = currentSid st"
    and "extensions (exchangeIceCandidate number r candidate sdpMid idx st) \<noteq> []"
  shows "parse_action toInt (Some (delivered_iq wire from i (exchangeIceCandidate number r candidate sdpMid idx st))) st'
    = (True, st', [exchangeIceCandidateReceived candidate sdpMid idx])"
proof -
  let ?p = "split_words candidate []"
  let ?e = "candidate_element number ?p candidate sdpMid idx"
  let ?t = "XE ''transport'' [(''xmlns'', kJINGLE_TRANSPORT)] [] [?e]"
  let ?as = "[(''action'', fromType SessionTransport), (''sid'', currentSid st)]"
  have len: "8 \<le> length ?p" and sid: "currentSid st \<noteq> []"
    and q: "exchangeIceCandidate number r candidate sdpMid idx st = set_iq r (XE ''jingle'' ((''xmlns'', kJINGLE_NAME) # ?as) [] [?t])"
    using assms(11) by (auto simp: exchangeIceCandidate_def Let_def empty_iq_def split: if_splits)
  have px: "xml_text (?p ! n)" if "n < 8" for n using xml_text_word [OF nth_mem assms(2)] that len by simp
  have nb: "\<not> blank candidate" using len split_words_blank by fastforce
  have we: "writable ?e" using px assms by (simp add: candidate_element_def)
  have wt: "writable ?t" using we by simp
  have wj: "writable (XE ''jingle'' ((''xmlns'', kJINGLE_NAME) # ?as) [] [?t])" using wt assms by simp
  note j = jingle_delivered(1,2) [OF assms(1) wj] jingle_delivered(3) [OF assms(1) wj, of "''action''"]
    jingle_delivered(3) [OF assms(1) wj, of "''sid''"]
  have m: "matches (wire kJINGLE_NAME ?t) ''transport'' kJINGLE_TRANSPORT" using matches_wire [OF assms(1) wt, of kJINGLE_NAME] by simp
  have kids: "dom_children (wire kJINGLE_NAME ?t) = [wire kJINGLE_TRANSPORT ?e]"
    unfolding transport(4) [OF assms(1) wt] by simp
  note w' = we [unfolded candidate_element_def]
  have e: "dom_tag (wire kJINGLE_TRANSPORT ?e) = ''candidate''" "dom_ns (wire kJINGLE_TRANSPORT ?e) = kJINGLE_TRANSPORT"
    "attribute (wire kJINGLE_TRANSPORT ?e) ''sdp'' = candidate" "attribute (wire kJINGLE_TRANSPORT ?e) ''foundation'' = sdpMid"
    "attribute (wire kJINGLE_TRANSPORT ?e) ''component'' = number idx"
    using transport(1,2) [OF assms(1) w', of kJINGLE_TRANSPORT] transport_attr(1) [OF assms(1) w', of _ kJINGLE_TRANSPORT]
    by (simp_all add: candidate_element_def ns_of_def x_attr_def)
  have "parse_candidate toInt (wire kJINGLE_TRANSPORT ?e) = Some (exchangeIceCandidateReceived candidate sdpMid idx)"
    using e nb assms by (simp add: parse_candidate_def matches_def)
  then have "parse_transports toInt (wire ''jabber:client'' (XE ''jingle'' ((''xmlns'', kJINGLE_NAME) # ?as) [] [?t]))
      = [exchangeIceCandidateReceived candidate sdpMid idx]"
    using m kids j(2) by (simp add: parse_transports_def List.map_filter_simps)
  then show ?thesis
    using j sid assms(10) by (simp add: parse_action_def q x_attr_def fromString_def)
qed

definition demo_line :: string where
  "demo_line = ''candidate:1 1 udp 7 10.0.0.1 9 typ host''"

definition demo_session :: action_state where
  "demo_session = \<lparr>currentSid = ''s1'', contentName = ''video'', contentCreator = ''initiator''\<rparr>"

theorem candidate_roundtrip_witness:
  "parse_action (\<lambda>s. if s = ''0'' then Some 0 else None)
     (Some (delivered_iq xml_wire ''a@x/1'' ''q3'' (exchangeIceCandidate (\<lambda>_. ''0'') ''b@x/2'' demo_line ''audio'' 0 demo_session))) demo_session
    = (True, demo_session, [exchangeIceCandidateReceived demo_line ''audio'' 0])"
  by (rule candidate_roundtrip [OF xml_wire_transport])
    (simp_all add: demo_line_def demo_session_def exchangeIceCandidate_def is_space_def startsWith_def Let_def set_iq_def)

section \<open>What the parser guards\<close>

lemma parse_content_offer_sound:
  "parse_offer sid cs st = (ok, st', sigs) \<Longrightarrow>
    (ok = (sigs \<noteq> [])) \<and> (sigs = [] \<longrightarrow> st' = st)
    \<and> (sigs \<noteq> [] \<longrightarrow> (\<exists>offer ices. sigs = [remoteSdpOfferReceived offer ices sid] \<and> \<not> blank offer \<and> currentSid st' = sid))"
  by (induction sid cs st rule: parse_offer.induct) (auto simp: Let_def split: prod.splits if_splits)

lemma parse_answer_sound:
  "parse_answer sid cs = (ok, sigs) \<Longrightarrow>
    (ok = (sigs \<noteq> [])) \<and> (sigs \<noteq> [] \<longrightarrow> (\<exists>answer. sigs = [remoteSdpAnswerReceived answer sid] \<and> \<not> blank answer))"
  by (induction sid cs rule: parse_answer.induct) (auto split: if_splits)

lemma parse_transports_sound:
  "sg \<in> set (parse_transports toInt j) \<Longrightarrow>
    \<exists>sdp mid k. sg = exchangeIceCandidateReceived sdp mid k \<and> \<not> blank sdp \<and> mid \<noteq> [] \<and> 0 \<le> k"
  by (auto simp: parse_transports_def List.map_filter_def parse_candidate_def split: if_splits option.splits)

text \<open>What a parse may report and keep: one constructor of signal at a time, and never another session's.\<close>

definition guarded :: "action_state \<Rightarrow> bool \<Rightarrow> action_state \<Rightarrow> action_signal \<Rightarrow> bool" where
  "guarded st ok st' sg =
     (case sg of
        remoteSdpOfferReceived offer ices sid \<Rightarrow> ok \<and> \<not> blank offer \<and> sid \<noteq> [] \<and> currentSid st' = sid
      | remoteSdpAnswerReceived answer sid \<Rightarrow> ok \<and> \<not> blank answer \<and> sid = currentSid st \<and> sid \<noteq> [] \<and> st' = st
      | exchangeIceCandidateReceived sdp mid k \<Rightarrow> ok \<and> \<not> blank sdp \<and> mid \<noteq> [] \<and> 0 \<le> k \<and> currentSid st \<noteq> [] \<and> st' = st
      | sessionTerminateReceived t \<Rightarrow> t \<and> \<not> ok \<and> st' = st)"

lemma signals_guarded_action:
  assumes "(case a of
      SessionInitiate \<Rightarrow> parse_offer sid (children_named ''content'' j) st
    | SessionAccept \<Rightarrow>
        if sid \<noteq> currentSid st then (False, st, [])
        else (case parse_answer sid (dropWhile (\<lambda>c. dom_tag c \<noteq> ''content'') (dom_children j)) of
                (ok, sigs) \<Rightarrow> (ok, st, sigs))
    | SessionTerminate \<Rightarrow> (False, st, [sessionTerminateReceived True])
    | SessionInfoAction \<Rightarrow> (False, st, [])
    | SessionTransport \<Rightarrow>
        if sid \<noteq> currentSid st then (False, st, [])
        else (parse_transports toInt j \<noteq> [], st, parse_transports toInt j)
    | TransportReplace \<Rightarrow> (False, st, [])
    | TransportAccept \<Rightarrow> (False, st, [])) = (ok, st', sigs)"
    and "sid \<noteq> []"
  shows "(\<forall>sg \<in> set sigs. guarded st ok st' sg) \<and> (sigs = [] \<longrightarrow> st' = st \<and> \<not> ok)"
proof (cases a)
  case SessionInitiate
  then have "parse_offer sid (children_named ''content'' j) st = (ok, st', sigs)" using assms(1) by simp
  from parse_content_offer_sound [OF this] assms(2) show ?thesis by (auto simp: guarded_def)
next
  case SessionAccept
  show ?thesis
  proof (cases "sid = currentSid st")
    case True
    then have st: "st' = st" and "parse_answer sid (dropWhile (\<lambda>c. dom_tag c \<noteq> ''content'') (dom_children j)) = (ok, sigs)"
      using assms(1) SessionAccept by (auto split: prod.splits)
    from parse_answer_sound [OF this(2)] True st assms(2) show ?thesis by (auto simp: guarded_def)
  next
    case False
    then show ?thesis using assms(1) SessionAccept by simp
  qed
next
  case SessionTransport
  show ?thesis
  proof (cases "sid = currentSid st")
    case True
    then have eq: "st' = st" "sigs = parse_transports toInt j" "ok = (sigs \<noteq> [])"
      using assms(1) SessionTransport by auto
    have "guarded st ok st' sg" if "sg \<in> set sigs" for sg
    proof -
      have ok: "ok" using that eq(3) by auto
      from parse_transports_sound that eq(2)
      obtain sdp mid k where "sg = exchangeIceCandidateReceived sdp mid k" "\<not> blank sdp" "mid \<noteq> []" "0 \<le> k" by blast
      then show ?thesis using eq ok True assms(2) by (simp add: guarded_def)
    qed
    then show ?thesis using eq by simp
  next
    case False
    then show ?thesis using assms(1) SessionTransport by simp
  qed
next
  case SessionTerminate
  then show ?thesis using assms(1) by (auto simp: guarded_def)
qed (use assms(1) in auto)

text \<open>
  Whatever element arrives, an answer is reported only for the session held, answers and
  candidates only while a session is held and with no blank SDP or negative index, and the session
  changes only by an offer that is reported with the new identifier; an element that reports
  nothing leaves the session as it was and is not acknowledged.
\<close>

theorem signals_guarded:
  assumes "parse_action toInt el st = (ok, st', sigs)"
  shows "(\<forall>sg \<in> set sigs. guarded st ok st' sg) \<and> (sigs = [] \<longrightarrow> st' = st \<and> \<not> ok)"
proof -
  have none: ?thesis if "(ok, st', sigs) = (False, st, [])" using that by simp
  show ?thesis
  proof (cases "Option.bind el jingle_of")
    case None
    then show ?thesis using assms none by (simp add: parse_action_def)
  next
    case (Some j)
    show ?thesis
    proof (cases "fromString (attribute j ''action'')")
      case None
      then show ?thesis using assms none Some by (simp add: parse_action_def)
    next
      case act: (Some a)
      show ?thesis
      proof (cases "attribute j ''sid'' = []")
        case True
        then show ?thesis using assms none Some act by (simp add: parse_action_def)
      next
        case False
        note p = assms [unfolded parse_action_def Some option.case act Let_def if_not_P [OF False]]
        from p False show ?thesis by (rule signals_guarded_action)
      qed
    qed
  qed
qed

theorem signals_guarded_witness: "guarded demo_session False demo_session (sessionTerminateReceived True)"
proof -
  have "parse_action (\<lambda>_. None) (Some (Dom ''jingle'' kJINGLE_NAME [(''sid'', ''other''), (''action'', ''session-terminate'')] [] [])) demo_session
    = (False, demo_session, [sessionTerminateReceived True])"
    by (simp add: parse_action_def jingle_of_def matches_def attribute_def fromString_def)
  from signals_guarded [OF this] show ?thesis by simp
qed

text \<open>
  A session-terminate ends the call of whoever receives it, whatever session the receiver
  holds, as long as the sender holds any session; it is not acknowledged. A sender with no session
  yet sends one that is ignored.
\<close>

theorem terminate_any_session:
  assumes "xml_transport wire" and "xml_text (currentSid st)"
  shows "parse_action toInt (Some (delivered_iq wire from i (sessionTerminate r st))) st'
    = (False, st', if currentSid st = [] then [] else [sessionTerminateReceived True])"
proof -
  let ?c = "XE ''reason'' [] [] [XE ''success'' [] [] [], XE ''text'' [] ''Stuck!'' []]"
  let ?as = "[(''sid'', currentSid st), (''action'', fromType SessionTerminate)]"
  have wj: "writable (XE ''jingle'' ((''xmlns'', kJINGLE_NAME) # ?as) [] [?c])" using assms by simp
  note j = jingle_delivered(1) [OF assms(1) wj] jingle_delivered(3) [OF assms(1) wj, of "''action''"]
    jingle_delivered(3) [OF assms(1) wj, of "''sid''"]
  show ?thesis using j by (simp add: parse_action_def sessionTerminate_def x_attr_def fromString_def)
qed

theorem terminate_any_session_witness:
  "parse_action (\<lambda>_. None) (Some (delivered_iq xml_wire ''b@x/2'' ''q4'' (sessionTerminate ''a@x/1'' demo_session))) no_session
    = (False, no_session, [sessionTerminateReceived True])"
  using terminate_any_session [OF xml_wire_transport, of demo_session "\<lambda>_. None" "''b@x/2''" "''q4''" "''a@x/1''" no_session]
  by (simp add: demo_session_def)

end
