(* ===== verification/Jingle_Extension.thy ===== *)
theory Jingle_Extension
  imports Jingle_Action
begin

text \<open>
  The client extension that joins the two (features/voip/signaling/jingle_extension.cpp): it
  dispatches incoming stanzas to the parsers, keeps the proposal and the peer of the session, and
  sends what the call needs. Signals are delivered while the parser emits them, so the handlers
  run in the order of emission.
\<close>

datatype CallState = Calling | CallRinging | Connected | Reconnect | CallReject | HandUp | Exchange

datatype extension_signal =
    ProposeReceived string "StreamType list"
  | RetractReceived string string
  | ProceedReceived string string
  | RejectReceived string string
  | AcceptReceived string string
  | FinishReceived string string
  | RemoteSdpOfferReceived string "IceServer list" string
  | RemoteSdpAnswerReceived string string
  | ExchangeIceCandidateReceived string string int
  | SessionTerminateReceived bool
  | CallStateChange CallState

text \<open>What an operation does: messages and IQs handed to the client, signals emitted.\<close>

datatype effect = Send_message outgoing | Send_iq iq | Emit extension_signal

text \<open>
  \<open>m_jingleAction\<close>'s state, \<open>m_message\<close>'s stream types, \<open>m_currentSid\<close>, \<open>m_sessionSender\<close>,
  \<open>proposeFrom\<close> and \<open>mid\<close>.
\<close>

record extension_state =
  jingleAction :: action_state
  streamTypes :: "StreamType list"
  sessionSid :: string
  sessionSender :: string
  proposeFrom :: string
  proposalId :: string

definition fresh_extension :: extension_state where
  "fresh_extension = \<lparr>jingleAction = no_session, streamTypes = [], sessionSid = [], sessionSender = [],
     proposeFrom = [], proposalId = []\<rparr>"

section \<open>Incoming\<close>

definition findJingleElement :: "dom \<Rightarrow> dom option" where
  "findJingleElement e = find (\<lambda>c. dom_ns c = kJINGLE_MESSAGE \<or> dom_ns c = kJINGLE_NAME) (dom_children e)"

definition ext_ringing :: "extension_state \<Rightarrow> effect list" where
  "ext_ringing st = [Send_message (ringing (proposeFrom st) (proposalId st))]"

text \<open>The connections of \<open>initializeJingleMessage\<close>; \<open>messageReceived\<close> has none.\<close>

fun on_message :: "message_signal \<Rightarrow> extension_state \<Rightarrow> extension_state \<times> effect list" where
  "on_message (messageReceived t from mid streams reason) st = (st, [])"
| "on_message (proposeReceived streams from mid) st =
     (let st' = st\<lparr>proposeFrom := from, proposalId := mid\<rparr>
      in (st', ext_ringing st' @ [Emit (ProposeReceived from streams)]))"
| "on_message (retractReceived why mid) st = (st, [Emit (CallStateChange HandUp), Emit (RetractReceived why mid)])"
| "on_message (ringingReceived from mid) st = (st, [Emit (CallStateChange CallRinging)])"
| "on_message (acceptReceived from mid) st = (st, [Emit (CallStateChange Exchange), Emit (AcceptReceived from mid)])"
| "on_message (proceedReceived from mid) st = (st, [Emit (ProceedReceived from mid)])"
| "on_message (rejectReceived why mid) st = (st, [Emit (CallStateChange CallReject), Emit (RejectReceived why mid)])"
| "on_message (finishReceived why mid) st = (st, [Emit (FinishReceived why mid)])"

text \<open>The connections of \<open>initializeJingleAction\<close>.\<close>

fun on_action :: "action_signal \<Rightarrow> extension_state \<Rightarrow> extension_state \<times> effect list" where
  "on_action (remoteSdpOfferReceived offer ices sid) st =
     (st\<lparr>sessionSid := sid\<rparr>, [Emit (RemoteSdpOfferReceived offer ices sid)])"
| "on_action (exchangeIceCandidateReceived sdp mid k) st = (st, [Emit (ExchangeIceCandidateReceived sdp mid k)])"
| "on_action (remoteSdpAnswerReceived answer sid) st = (st, [Emit (RemoteSdpAnswerReceived answer sid)])"
| "on_action (sessionTerminateReceived t) st = (st, [Emit (SessionTerminateReceived t)])"

fun each_signal :: "('s \<Rightarrow> extension_state \<Rightarrow> extension_state \<times> effect list) \<Rightarrow> 's list \<Rightarrow> extension_state
    \<Rightarrow> extension_state \<times> effect list" where
  "each_signal h [] st = (st, [])"
| "each_signal h (s # ss) st =
     (let (st1, ev1) = h s st; (st2, ev2) = each_signal h ss st1 in (st2, ev1 @ ev2))"

text \<open>The reply to a handled IQ.\<close>

definition reply_to :: "dom \<Rightarrow> iq" where
  "reply_to stanza = \<lparr>iq_type = Result, iq_to = attribute stanza ''from'', iq_id = attribute stanza ''id'', extensions = []\<rparr>"

definition handle_message :: "dom \<Rightarrow> extension_state \<Rightarrow> extension_state \<times> effect list" where
  "handle_message stanza st =
     (let (streams, sigs) = parse_message (Some stanza)
      in each_signal on_message sigs (st\<lparr>streamTypes := streams\<rparr>))"

definition handle_iq :: "(string \<Rightarrow> int option) \<Rightarrow> dom \<Rightarrow> dom \<Rightarrow> extension_state \<Rightarrow> bool \<times> extension_state \<times> effect list" where
  "handle_iq toInt stanza jingle st =
     (let st0 = (if attribute jingle ''action'' = ''session-initiate'' \<and> attribute stanza ''type'' = ''set''
                 then st\<lparr>sessionSender := attribute stanza ''from''\<rparr> else st);
          (ok, act, sigs) = parse_action toInt (Some stanza) (jingleAction st0);
          (st1, evs) = each_signal on_action sigs (st0\<lparr>jingleAction := act\<rparr>)
      in (ok, st1, evs @ (if ok then [Send_iq (reply_to stanza)] else [])))"

definition handleStanza :: "(string \<Rightarrow> int option) \<Rightarrow> dom \<Rightarrow> extension_state \<Rightarrow> bool \<times> extension_state \<times> effect list" where
  "handleStanza toInt stanza st =
     (if dom_tag stanza = ''message'' then
        (case findJingleElement stanza of
           None \<Rightarrow> (False, st, [])
         | Some _ \<Rightarrow> (let (st', evs) = handle_message stanza st in (False, st', evs)))
      else if dom_tag stanza = ''iq'' then
        (case findJingleElement stanza of
           None \<Rightarrow> (False, st, [])
         | Some jingle \<Rightarrow> handle_iq toInt stanza jingle st)
      else (False, st, []))"

section \<open>Outgoing\<close>

text \<open>
  \<open>client\<close> is \<open>None\<close> for the null pointer and otherwise whether the client is connected. The
  operations without it dereference the client unconditionally.
\<close>

definition sendAccept :: "bool option \<Rightarrow> extension_state \<Rightarrow> effect list" where
  "sendAccept client st =
     (if client = None \<or> proposeFrom st = [] \<or> proposalId st = [] then []
      else [Send_message (accept (proposeFrom st) (proposalId st)), Emit (CallStateChange Exchange)])"

definition ext_propose :: "string \<Rightarrow> string \<Rightarrow> bool \<Rightarrow> extension_state \<Rightarrow> extension_state \<times> effect list" where
  "ext_propose uuid recipient video st =
     (let streams = [Audio] @ (if video then [Video] else [])
      in (st\<lparr>proposalId := uuid, sessionSender := recipient\<rparr>, [Send_message (propose recipient streams uuid)]))"

definition ext_retract :: "extension_state \<Rightarrow> effect list" where
  "ext_retract st = [Send_message (retract (proposeFrom st) (proposalId st))]"

definition ext_reject :: "extension_state \<Rightarrow> effect list" where
  "ext_reject st = [Send_message (reject (proposeFrom st) (proposalId st))]"

definition media_of :: "string \<Rightarrow> StreamType" where
  "media_of sdp = (if contains_str (CHR 0x0A # ''m=video '') sdp then Video else Audio)"

definition ext_sessionInitaite ::
  "bool option \<Rightarrow> string \<Rightarrow> string \<Rightarrow> string \<Rightarrow> string \<Rightarrow> IceServer list \<Rightarrow> extension_state \<Rightarrow> extension_state \<times> effect list" where
  "ext_sessionInitaite client uuid jidBare recipient sdp_offer ice_servers st =
     (if client \<noteq> Some True \<or> sdp_offer = [] then (st, [])
      else if recipient = [] then (st, [])
      else
        (let (q, act) = sessionInitaite uuid jidBare recipient sdp_offer ice_servers (media_of sdp_offer) (jingleAction st)
         in (st\<lparr>sessionSender := recipient, jingleAction := act\<rparr>, [Send_iq q])))"

definition ext_sessionAccept :: "bool option \<Rightarrow> string \<Rightarrow> string \<Rightarrow> extension_state \<Rightarrow> effect list" where
  "ext_sessionAccept client jid sdp_answer st =
     (if client \<noteq> Some True \<or> sessionSender st = [] \<or> sessionSid st = [] \<or> blank sdp_answer then []
      else [Send_iq (sessionAccept jid (sessionSender st) sdp_answer (media_of sdp_answer) (jingleAction st))])"

definition iceCandidate :: "bool option \<Rightarrow> (int \<Rightarrow> string) \<Rightarrow> string \<Rightarrow> string \<Rightarrow> int \<Rightarrow> extension_state \<Rightarrow> effect list" where
  "iceCandidate client number candidate sdpMid sdpMLineIndex st =
     (if client \<noteq> Some True \<or> sessionSender st = [] then []
      else
        (let q = exchangeIceCandidate number (sessionSender st) candidate sdpMid sdpMLineIndex (jingleAction st)
         in if extensions q = [] then [] else [Send_iq q]))"

definition ext_sessionTerminate :: "bool option \<Rightarrow> extension_state \<Rightarrow> effect list" where
  "ext_sessionTerminate client st =
     (if client \<noteq> Some True \<or> sessionSender st = [] then []
      else [Send_iq (sessionTerminate (sessionSender st) (jingleAction st))])"

section \<open>Acknowledgement\<close>

text \<open>What the signal handlers of a session do: no message or IQ is sent, no other part of the state changes.\<close>

lemma on_action_frame:
  "on_action sg st = (st', evs) \<Longrightarrow>
    st' = st\<lparr>sessionSid := sessionSid st'\<rparr> \<and> (\<forall>q. Send_iq q \<notin> set evs) \<and> (\<forall>m. Send_message m \<notin> set evs)"
  by (cases sg) auto

lemma each_action_frame:
  "each_signal on_action sigs st = (st', evs) \<Longrightarrow>
    st' = st\<lparr>sessionSid := sessionSid st'\<rparr> \<and> (\<forall>q. Send_iq q \<notin> set evs) \<and> (\<forall>m. Send_message m \<notin> set evs)"
proof (induction sigs arbitrary: st st' evs)
  case (Cons sg sigs)
  obtain st1 ev1 where one: "on_action sg st = (st1, ev1)" by fastforce
  obtain st2 ev2 where two: "each_signal on_action sigs st1 = (st2, ev2)" by fastforce
  have eq: "st' = st2" "evs = ev1 @ ev2" using Cons.prems one two by simp_all
  from on_action_frame [OF one] have "st1 = st\<lparr>sessionSid := sessionSid st1\<rparr>" by blast
  moreover from Cons.IH [OF two] have "st2 = st1\<lparr>sessionSid := sessionSid st2\<rparr>" by blast
  ultimately have "st2 = st\<lparr>sessionSid := sessionSid st2\<rparr>"
    by (metis extension_state.update_convs(3) extension_state.surjective extension_state.ext_inject)
  then show ?case using eq on_action_frame [OF one] Cons.IH [OF two] by auto
qed simp

lemma on_message_no_iq: "on_message sg st = (st', evs) \<Longrightarrow> Send_iq q \<notin> set evs"
  by (cases sg) (auto simp: ext_ringing_def Let_def)

lemma each_message_no_iq: "each_signal on_message sigs st = (st', evs) \<Longrightarrow> Send_iq q \<notin> set evs"
proof (induction sigs arbitrary: st st' evs)
  case (Cons sg sigs)
  obtain st1 ev1 where one: "on_message sg st = (st1, ev1)" by fastforce
  obtain st2 ev2 where two: "each_signal on_message sigs st1 = (st2, ev2)" by fastforce
  show ?case using Cons.prems one two on_message_no_iq [OF one] Cons.IH [OF two] by auto
qed simp

definition is_iq :: "effect \<Rightarrow> bool" where
  "is_iq e = (case e of Send_iq _ \<Rightarrow> True | _ \<Rightarrow> False)"

lemma filter_is_iq_none: "(\<forall>q. Send_iq q \<notin> set evs) \<Longrightarrow> filter is_iq evs = []"
  by (auto simp: is_iq_def filter_empty_conv split: effect.splits)

text \<open>
  A stanza is acknowledged exactly when it was handled: one result IQ, to its sender and with
  its identifier, after the signals; a stanza that was not handled is answered by no IQ.
\<close>

theorem acknowledged_once:
  assumes "handleStanza toInt stanza st = (ok, st', evs)"
  shows "filter is_iq evs = (if ok then [Send_iq (reply_to stanza)] else []) \<and> (ok \<longrightarrow> last evs = Send_iq (reply_to stanza))"
proof (cases "findJingleElement stanza")
  case None
  then show ?thesis using assms by (auto simp: handleStanza_def split: if_splits)
next
  case (Some jingle)
  consider "dom_tag stanza = ''message''" | "dom_tag stanza = ''iq''" | "ok = False" "evs = []"
    using assms by (auto simp: handleStanza_def split: if_splits)
  then show ?thesis
  proof cases
    case 1
    then have "ok = False" and "handle_message stanza st = (st', evs)"
      using assms Some by (auto simp: handleStanza_def split: prod.splits)
    moreover from this(2) have "\<forall>q. Send_iq q \<notin> set evs"
      using each_message_no_iq by (fastforce simp: handle_message_def split: prod.splits)
    ultimately show ?thesis using filter_is_iq_none by simp
  next
    case 2
    then have h: "handle_iq toInt stanza jingle st = (ok, st', evs)"
      using assms Some by (simp add: handleStanza_def)
    then obtain sigs s0 evs0 where e: "each_signal on_action sigs s0 = (st', evs0)"
      "evs = evs0 @ (if ok then [Send_iq (reply_to stanza)] else [])"
      by (auto simp: handle_iq_def Let_def split: prod.splits)
    from each_action_frame [OF e(1)] have "filter is_iq evs0 = []" using filter_is_iq_none by blast
    then show ?thesis using e(2) by (simp add: is_iq_def)
  qed simp
qed

definition demo_offer_iq :: iq where
  "demo_offer_iq = fst (sessionInitaite ''s1'' ''a@x'' ''b@x/2'' ''v=0'' [] Audio no_session)"

theorem acknowledged_once_witness:
  "filter is_iq [Send_iq \<lparr>iq_type = Result, iq_to = ''a@x/1'', iq_id = ''q1'', extensions = []\<rparr>]
     = [Send_iq \<lparr>iq_type = Result, iq_to = ''a@x/1'', iq_id = ''q1'', extensions = []\<rparr>]"
proof -
  let ?d = "delivered_iq xml_wire ''a@x/1'' ''q1'' demo_offer_iq"
  have "handleStanza (\<lambda>_. None) ?d fresh_extension
    = (True, fresh_extension\<lparr>jingleAction := demo_session, sessionSid := ''s1'', sessionSender := ''a@x/1''\<rparr>,
       [Emit (RemoteSdpOfferReceived ''v=0'' [] ''s1''), Send_iq (reply_to ?d)])" by code_simp
  from acknowledged_once [OF this] show ?thesis
    by (simp add: is_iq_def reply_to_def delivered_iq_def attribute_def)
qed

section \<open>Setting a call up\<close>

text \<open>
  A proposal makes the callee remember who proposed and which call, answer it with a ringing
  message to the proposer, and report it; its session stays as it was.
\<close>

theorem proposal_handled:
  assumes "xml_transport wire" and "\<not> blank from" and "\<not> blank uuid" and "xml_text uuid" and "foreign others"
    and "ext_propose uuid r video caller = (caller', [Send_message m])"
  shows "\<exists>streams. Audio \<in> set streams \<and> (Video \<in> set streams \<longleftrightarrow> video)
    \<and> handleStanza toInt (delivered wire others from m) callee
      = (False, callee\<lparr>streamTypes := streams, proposeFrom := from, proposalId := uuid\<rparr>,
         [Send_message (ringing from uuid), Emit (ProposeReceived from streams)])"
proof -
  let ?s = "[Audio] @ (if video then [Video] else [])"
  have m: "m = propose r ?s uuid" using assms(6) by (simp add: ext_propose_def)
  have d: "distinct ?s" "?s \<noteq> []" by simp_all
  have p: "parse_message (Some (delivered wire others from m))
    = (?s, [messageReceived ''propose'' from uuid ?s [], proposeReceived ?s from uuid])"
    unfolding m by (rule propose_roundtrip_raw [OF assms(1-5) d(2,1)])
  have wt: "writable (extension m)" using assms(4) by (auto simp: m propose_def description_of_def)
  have "dom_ns (wire ''jabber:client'' (extension m)) = kJINGLE_MESSAGE"
    using transport_read_as [OF assms(1) wt] by (simp add: read_as_def m propose_def ns_of_def)
  then have "findJingleElement (delivered wire others from m) \<noteq> None"
    by (auto simp: findJingleElement_def delivered_def find_None_iff)
  then obtain j where f: "findJingleElement (delivered wire others from m) = Some j" by blast
  have tag: "dom_tag (delivered wire others from m) = ''message''" by (simp add: delivered_def)
  have "handleStanza toInt (delivered wire others from m) callee
      = (False, callee\<lparr>streamTypes := ?s, proposeFrom := from, proposalId := uuid\<rparr>,
         [Send_message (ringing from uuid), Emit (ProposeReceived from ?s)])"
    unfolding handleStanza_def tag f handle_message_def p by (simp add: ext_ringing_def)
  then show ?thesis by (intro exI [of _ ?s]) simp
qed

theorem proposal_handled_witness:
  "\<exists>streams. Audio \<in> set streams \<and> (Video \<in> set streams \<longleftrightarrow> True)
    \<and> handleStanza (\<lambda>_. None) (delivered xml_wire store_hints ''a@x/1'' (propose ''b@x'' [Audio, Video] ''k'')) fresh_extension
      = (False, fresh_extension\<lparr>streamTypes := streams, proposeFrom := ''a@x/1'', proposalId := ''k''\<rparr>,
         [Send_message (ringing ''a@x/1'' ''k''), Emit (ProposeReceived ''a@x/1'' streams)])"
  by (rule proposal_handled [OF xml_wire_transport, where r = "''b@x''" and caller = fresh_extension])
    (simp_all add: blank_def is_space_def ext_propose_def)

text \<open>A delivered jingle IQ is handed to the session's parser and its signals to the handlers.\<close>

lemma handle_delivered:
  assumes w: "xml_transport wire" and wj: "writable (XE ''jingle'' ((''xmlns'', kJINGLE_NAME) # as) [] cs)"
    and p: "parse_action toInt (Some d) (jingleAction st) = (ok, act, sigs)"
    and d: "d = delivered_iq wire from i (set_iq r (XE ''jingle'' ((''xmlns'', kJINGLE_NAME) # as) [] cs))"
  shows "handleStanza toInt d st =
    (let st0 = (if x_attr (XE ''jingle'' as [] cs) ''action'' = ''session-initiate'' then st\<lparr>sessionSender := from\<rparr> else st);
         (st1, evs) = each_signal on_action sigs (st0\<lparr>jingleAction := act\<rparr>)
     in (ok, st1, evs @ (if ok then [Send_iq (reply_to d)] else [])))"
proof -
  let ?j = "wire ''jabber:client'' (XE ''jingle'' ((''xmlns'', kJINGLE_NAME) # as) [] cs)"
  have f: "findJingleElement d = Some ?j"
    using transport(2) [OF w wj, of "''jabber:client''"] by (simp add: findJingleElement_def d delivered_iq_def set_iq_def)
  have t: "dom_tag d = ''iq''" "attribute d ''type'' = ''set''" "attribute d ''from'' = from"
    by (simp_all add: d delivered_iq_def set_iq_def attribute_def)
  have a: "attribute ?j ''action'' = x_attr (XE ''jingle'' as [] cs) ''action''"
    by (rule jingle_delivered(3) [OF w wj]) simp
  have act: "jingleAction (if b then st\<lparr>sessionSender := from\<rparr> else st) = jingleAction st" for b by simp
  show ?thesis
    unfolding handleStanza_def t(1) f option.case handle_iq_def t(2,3) a Let_def
    by (simp add: p)
qed

lemma offer_shape:
  assumes "xml_text sdp" and "xml_text uuid" and "xml_text jidBare" and "list_all ice_text ices"
  obtains as cs where "fst (sessionInitaite uuid jidBare r sdp ices media st)
      = set_iq r (XE ''jingle'' ((''xmlns'', kJINGLE_NAME) # (''action'', ''session-initiate'') # as) [] cs)"
    and "writable (XE ''jingle'' ((''xmlns'', kJINGLE_NAME) # (''action'', ''session-initiate'') # as) [] cs)"
  using that [of "[(''initiator'', jidBare), (''sid'', uuid)]"] assms
  by (simp add: sessionInitaite_def list_all_iff)

lemma answer_shape:
  assumes "xml_text sdp" and "xml_text jid" and "xml_text (currentSid st)" and "xml_text (contentName st)"
    and "xml_text (contentCreator st)"
  obtains as cs where "sessionAccept jid r sdp media st
      = set_iq r (XE ''jingle'' ((''xmlns'', kJINGLE_NAME) # (''action'', ''session-accept'') # as) [] cs)"
    and "writable (XE ''jingle'' ((''xmlns'', kJINGLE_NAME) # (''action'', ''session-accept'') # as) [] cs)"
  using that [of "[(''responder'', jid), (''sid'', currentSid st)]"] assms
  by (simp add: sessionAccept_def)

text \<open>
  C21: a session is set up end to end: what a connected caller sends to start it makes the callee
  report the offer, remember the caller as its peer and acknowledge; what the callee then sends
  to accept is addressed to the caller's own address and makes the caller report the answer for
  the session it started, and acknowledge. Both SDPs arrive as sent, up to line ends.
\<close>

theorem session_setup:
  assumes "xml_transport wire"
    and "xml_text offer" and "\<not> blank offer" and "xml_text answer" and "\<not> blank answer"
    and "xml_text uuid" and "uuid \<noteq> []" and "xml_text bareA" and "xml_text jidB" and "list_all ice_text ices"
    and "addrA \<noteq> []" and "addrB \<noteq> []"
  shows "\<exists>caller' callee' q q2 o' a'.
      ext_sessionInitaite (Some True) uuid bareA addrB offer ices caller = (caller', [Send_iq q]) \<and> iq_to q = addrB
    \<and> handleStanza toInt (delivered_iq wire addrA i1 q) callee
        = (True, callee', [Emit (RemoteSdpOfferReceived o' [] uuid), Send_iq (ackKnowledge addrA i1)])
    \<and> ext_sessionAccept (Some True) jidB answer callee' = [Send_iq q2] \<and> iq_to q2 = addrA
    \<and> handleStanza toInt (delivered_iq wire addrB i2 q2) caller'
        = (True, caller', [Emit (RemoteSdpAnswerReceived a' uuid), Send_iq (ackKnowledge addrB i2)])
    \<and> o' \<in> {offer, eol offer} \<and> a' \<in> {answer, eol answer}"
proof -
  let ?q = "fst (sessionInitaite uuid bareA addrB offer ices (media_of offer) (jingleAction caller))"
  let ?caller' = "caller\<lparr>sessionSender := addrB, jingleAction := (jingleAction caller)\<lparr>currentSid := uuid\<rparr>\<rparr>"
  let ?act = "\<lparr>currentSid = uuid, contentName = ''video'', contentCreator = ''initiator''\<rparr>"
  let ?callee' = "callee\<lparr>sessionSender := addrA, jingleAction := ?act, sessionSid := uuid\<rparr>"
  let ?q2 = "sessionAccept jidB addrA answer (media_of answer) ?act"
  have reply: "reply_to (delivered_iq wire a i x) = ackKnowledge a i" for a i x
    by (simp add: reply_to_def delivered_iq_def attribute_def ackKnowledge_def)
  have 1: "ext_sessionInitaite (Some True) uuid bareA addrB offer ices caller = (?caller', [Send_iq ?q])"
    using assms(3,12) by (auto simp: ext_sessionInitaite_def sessionInitaite_def)
  have "\<exists>o' \<in> {offer, eol offer}. parse_action toInt (Some (delivered_iq wire addrA i1 ?q)) (jingleAction callee)
      = (True, ?act, [remoteSdpOfferReceived o' [] uuid])"
    by (rule offer_roundtrip_raw) (fact assms)+
  then obtain o' where o: "o' \<in> {offer, eol offer}"
    "parse_action toInt (Some (delivered_iq wire addrA i1 ?q)) (jingleAction callee) = (True, ?act, [remoteSdpOfferReceived o' [] uuid])"
    by (rule bexE)
  have 2: "handleStanza toInt (delivered_iq wire addrA i1 ?q) callee
      = (True, ?callee', [Emit (RemoteSdpOfferReceived o' [] uuid), Send_iq (ackKnowledge addrA i1)])"
  proof -
    obtain as cs where q: "?q = set_iq addrB (XE ''jingle'' ((''xmlns'', kJINGLE_NAME) # (''action'', ''session-initiate'') # as) [] cs)"
      and wr: "writable (XE ''jingle'' ((''xmlns'', kJINGLE_NAME) # (''action'', ''session-initiate'') # as) [] cs)"
      by (rule offer_shape [OF assms(2,6,8,10)])
    show ?thesis
      unfolding handle_delivered [OF assms(1) wr o(2) arg_cong [OF q]] by (simp add: x_attr_def reply)
  qed
  have 3: "ext_sessionAccept (Some True) jidB answer ?callee' = [Send_iq ?q2]"
    using assms(5,7,11) by (simp add: ext_sessionAccept_def)
  have "\<exists>a' \<in> {answer, eol answer}. parse_action toInt (Some (delivered_iq wire addrB i2 ?q2)) (jingleAction ?caller')
      = (True, jingleAction ?caller', [remoteSdpAnswerReceived a' (currentSid ?act)])"
    by (rule answer_roundtrip_raw) (use assms in simp_all)
  then obtain a' where a: "a' \<in> {answer, eol answer}"
    "parse_action toInt (Some (delivered_iq wire addrB i2 ?q2)) (jingleAction ?caller')
      = (True, jingleAction ?caller', [remoteSdpAnswerReceived a' uuid])"
    unfolding action_state.simps by (rule bexE)
  have 4: "handleStanza toInt (delivered_iq wire addrB i2 ?q2) ?caller'
      = (True, ?caller', [Emit (RemoteSdpAnswerReceived a' uuid), Send_iq (ackKnowledge addrB i2)])"
  proof -
    obtain as cs where q: "?q2 = set_iq addrA (XE ''jingle'' ((''xmlns'', kJINGLE_NAME) # (''action'', ''session-accept'') # as) [] cs)"
      and wr: "writable (XE ''jingle'' ((''xmlns'', kJINGLE_NAME) # (''action'', ''session-accept'') # as) [] cs)"
      by (rule answer_shape [OF assms(4,9), of ?act addrA "media_of answer"]) (use assms(6) in simp_all)
    show ?thesis
      unfolding handle_delivered [OF assms(1) wr a(2) arg_cong [OF q]] by (simp add: x_attr_def reply)
  qed
  have to: "iq_to ?q = addrB" "iq_to ?q2 = addrA"
    by (simp_all add: sessionInitaite_def sessionAccept_def set_iq_def)
  show ?thesis by (intro exI conjI) (rule 1 2 3 4 to o(1) a(1))+
qed

theorem session_setup_witness:
  "\<exists>caller' q. ext_sessionInitaite (Some True) ''s1'' ''a@x'' ''b@x/2'' ''v=0'' [] fresh_extension = (caller', [Send_iq q])
     \<and> iq_to q = ''b@x/2''"
  using session_setup [OF xml_wire_transport, of "''v=0''" "''v=0''" "''s1''" "''a@x''" "''b@x/2''" "[]" "''a@x/1''" "''b@x/2''"
      fresh_extension "\<lambda>_. None" "''q1''" fresh_extension "''q2''"]
  by (auto simp: blank_def is_space_def)

text \<open>
  An incoming session-initiate that is rejected, and not acknowledged, still becomes the
  peer of the session: what the program sends to end its call goes to that sender, although the
  session identifier and every other part of the state are unchanged.
\<close>

theorem rejected_offer_redirects:
  fixes mallory sid :: string
  assumes "mallory \<noteq> []"
  defines "d \<equiv> Dom ''iq'' ''jabber:client'' [(''from'', mallory), (''type'', ''set'')] []
    [Dom ''jingle'' kJINGLE_NAME [(''action'', ''session-initiate''), (''sid'', sid)] [] []]"
  shows "handleStanza toInt d st = (False, st\<lparr>sessionSender := mallory\<rparr>, [])
    \<and> (\<exists>q. ext_sessionTerminate (Some True) (st\<lparr>sessionSender := mallory\<rparr>) = [Send_iq q] \<and> iq_to q = mallory
        \<and> x_attr (hd (extensions q)) ''sid'' = currentSid (jingleAction st))"
proof
  have p: "parse_action toInt (Some d) act = (False, act, [])" for act
    by (simp add: parse_action_def d_def jingle_of_def matches_def attribute_def fromString_def children_named_def)
  show "handleStanza toInt d st = (False, st\<lparr>sessionSender := mallory\<rparr>, [])"
    unfolding handleStanza_def handle_iq_def p
    by (simp add: d_def findJingleElement_def attribute_def)
  show "\<exists>q. ext_sessionTerminate (Some True) (st\<lparr>sessionSender := mallory\<rparr>) = [Send_iq q] \<and> iq_to q = mallory
      \<and> x_attr (hd (extensions q)) ''sid'' = currentSid (jingleAction st)"
    using assms(1) by (simp add: ext_sessionTerminate_def sessionTerminate_def set_iq_def x_attr_def)
qed

theorem rejected_offer_redirects_witness:
  "handleStanza (\<lambda>_. None) (Dom ''iq'' ''jabber:client'' [(''from'', ''m@y''), (''type'', ''set'')] []
      [Dom ''jingle'' kJINGLE_NAME [(''action'', ''session-initiate''), (''sid'', ''z'')] [] []]) fresh_extension
    = (False, fresh_extension\<lparr>sessionSender := ''m@y''\<rparr>, [])"
  using rejected_offer_redirects [of "''m@y''" "\<lambda>_. None" "''z''" fresh_extension] by simp

text \<open>
  Retracting a call one has proposed is sent with that call's identifier, but to whoever last
  proposed a call to this client and not to the one it was proposed to.
\<close>

theorem retract_goes_to_proposer:
  "let (st', sent) = ext_propose uuid recipient video st
   in \<exists>m. sent = [Send_message m] \<and> to_jid m = recipient
      \<and> ext_retract st' = [Send_message (retract (proposeFrom st) uuid)]
      \<and> to_jid (retract (proposeFrom st) uuid) = proposeFrom st"
  by (simp add: ext_propose_def propose_def ext_retract_def retract_def reason_message_def)

text \<open>
  No IQ leaves for a session unless the client is connected and the addressee is known; each
  operation sends at most one, to the peer of the session, and accepting needs a session offered
  by the peer.
\<close>

theorem session_sends_guarded:
  "(let (st', sent) = ext_sessionInitaite client uuid jidBare r offer ices st
   in (sent = [] \<and> st' = st) \<or> (client = Some True \<and> r \<noteq> [] \<and> offer \<noteq> [] \<and> sessionSender st' = r
        \<and> currentSid (jingleAction st') = uuid \<and> (\<exists>q. sent = [Send_iq q] \<and> iq_to q = r)))
  \<and> (ext_sessionAccept client jid answer st = [] \<or> (client = Some True \<and> sessionSid st \<noteq> [] \<and> sessionSender st \<noteq> []
      \<and> (\<exists>q. ext_sessionAccept client jid answer st = [Send_iq q] \<and> iq_to q = sessionSender st)))
  \<and> (iceCandidate client number cand mid k st = [] \<or> (client = Some True \<and> sessionSender st \<noteq> [] \<and> currentSid (jingleAction st) \<noteq> []
      \<and> (\<exists>q. iceCandidate client number cand mid k st = [Send_iq q] \<and> iq_to q = sessionSender st)))
  \<and> (ext_sessionTerminate client st = [] \<or> (client = Some True \<and> sessionSender st \<noteq> []
      \<and> (\<exists>q. ext_sessionTerminate client st = [Send_iq q] \<and> iq_to q = sessionSender st)))"
  by (auto simp: ext_sessionInitaite_def sessionInitaite_def set_iq_def ext_sessionAccept_def sessionAccept_def
    iceCandidate_def exchangeIceCandidate_def empty_iq_def ext_sessionTerminate_def sessionTerminate_def Let_def split: if_splits)

end
