(* ===== verification/Call_Service.thy ===== *)
theory Call_Service
  imports Jingle_Extension
begin

text \<open>
  \<open>JingleService\<close> (features/voip/signaling/jingle_service.cpp): it joins the signaling of
  \<open>JingleExtension\<close> with the WebRTC client of the call. The operations are those that run on the
  thread of the service (calls from another thread are queued to it). The WebRTC client appears as
  the calls made on it; what it answers, at once or by a callback, comes from the environment.
\<close>

section \<open>State and effects\<close>

datatype rtc_state = Checking | RtcConnecting | RtcConnected | RtcDisconnect

datatype call_effect =
    SignalingFailed string
  | CallStateChanged CallState
  | ConnectionStateChange rtc_state
  | Proposal string "StreamType list"
  | AcceptSeen string string
  | Forwarded extension_signal
  | SessionTerminated
  | LocalFrameCleared
  | RemoteFrameCleared
  | RequestServices
  | Wire effect
  | RtcCreated
  | RtcDestroyed
  | RtcAudioInput string
  | RtcAudioOutput string
  | RtcCameraDevice string
  | RtcPrepare
  | RtcInitialize
  | RtcCamera bool
  | RtcSpeaker bool
  | RtcCameraTrack
  | RtcPeer "IceServer list"
  | RtcCreateOffer
  | RtcCreateAnswer
  | RtcRemoteSdp string string
  | RtcRemoteCandidate string string int
  | RtcClose

text \<open>
  \<open>client\<close> and \<open>m_jingle\<close> are set together by \<open>initialize\<close>; \<open>attached\<close> says that it has run,
  \<open>online\<close> that the client is connected.
\<close>

record call_service =
  attached :: bool
  online :: bool
  ext :: extension_state
  has_rtc :: bool
  mediaPrepared :: bool
  callStarted :: bool
  videoCall :: bool
  recipientId :: string
  audioInput :: string
  audioOutput :: string
  cameraDevice :: string

text \<open>What the WebRTC client answers, the identifiers drawn, and the JID functions of the XMPP library.\<close>

record call_env =
  rtc_initializes :: bool
  rtc_peer_ok :: bool
  rtc_sdp_ok :: bool
  new_uuid :: string
  bareJid :: "string \<Rightarrow> string"
  jidResource :: "string \<Rightarrow> string"
  own_domain :: string
  own_bare :: string
  own_jid :: string

definition client_of :: "call_service \<Rightarrow> bool option" where
  "client_of s = (if attached s then Some (online s) else None)"

section \<open>The WebRTC client of a call\<close>

definition createWebrtcClient :: "call_service \<Rightarrow> call_effect list \<times> call_service" where
  "createWebrtcClient s =
     ([LocalFrameCleared, RemoteFrameCleared] @ (if has_rtc s then [RtcDestroyed] else [])
        @ [RtcCreated, RtcAudioInput (audioInput s), RtcAudioOutput (audioOutput s), RtcCameraDevice (cameraDevice s)],
      s\<lparr>mediaPrepared := False, has_rtc := True\<rparr>)"

definition ensure_rtc :: "call_service \<Rightarrow> call_effect list \<times> call_service" where
  "ensure_rtc s = (if has_rtc s then ([], s) else createWebrtcClient s)"

definition prepareMedia :: "call_env \<Rightarrow> bool \<Rightarrow> call_service \<Rightarrow> bool \<times> call_effect list \<times> call_service" where
  "prepareMedia env video s =
     (let (es, s) = ensure_rtc s; es = es @ [RtcCamera video]
      in if mediaPrepared s then (True, es, s)
         else if \<not> rtc_initializes env
         then (False, es @ [RtcInitialize, RtcCamera False, RtcDestroyed,
                 SignalingFailed ''Cannot initialize WebRTC for the call''], s\<lparr>has_rtc := False\<rparr>)
         else (True, es @ [RtcInitialize], s\<lparr>mediaPrepared := True\<rparr>))"

definition call_prepare :: "call_env \<Rightarrow> call_service \<Rightarrow> call_effect list \<times> call_service" where
  "call_prepare env s =
     (if callStarted s then ([], s)
      else (let (es, s) = ensure_rtc s; (ok, es', s) = prepareMedia env False s
            in (es @ [RtcPrepare] @ es', s)))"

section \<open>Calls of the user\<close>

definition isConnected :: "call_service \<Rightarrow> bool \<times> call_effect list" where
  "isConnected s =
     (if client_of s = Some True then (True, [])
      else (False, [SignalingFailed ''Cannot accept call: XMPP is not connected'']))"

text \<open>The signals an operation of the extension emits reach the service while it runs.\<close>

fun passed_on :: "effect \<Rightarrow> call_effect list" where
  "passed_on (Emit (CallStateChange c)) = [CallStateChanged c]"
| "passed_on e = [Wire e]"

definition acceptCall :: "call_env \<Rightarrow> call_service \<Rightarrow> call_effect list \<times> call_service" where
  "acceptCall env s =
     (let (up, es) = isConnected s
      in if \<not> up then (es, s)
         else (let (ok, es, s) = prepareMedia env (videoCall s) s
               in if \<not> ok then (es, s)
                  else (es @ concat (map passed_on (sendAccept (client_of s) (ext s))), s\<lparr>callStarted := True\<rparr>)))"

definition endCall :: "call_service \<Rightarrow> call_effect list \<times> call_service" where
  "endCall s =
     ((if callStarted s \<and> client_of s = Some True then map Wire (ext_sessionTerminate (client_of s) (ext s)) else [])
        @ (if has_rtc s then [RtcCamera False, RtcSpeaker False, RtcClose, RtcDestroyed] else [])
        @ [LocalFrameCleared, RemoteFrameCleared],
      s\<lparr>has_rtc := False, mediaPrepared := False, callStarted := False\<rparr>)"

definition rejectCall :: "call_service \<Rightarrow> call_effect list \<times> call_service" where
  "rejectCall s =
     (let (up, es) = isConnected s
      in if \<not> up then (es, s)
         else (map Wire (ext_reject (ext s)) @ (if has_rtc s then [RtcDestroyed] else []),
               s\<lparr>has_rtc := False, mediaPrepared := False, callStarted := False\<rparr>))"

text \<open>\<open>ringing\<close> follows \<open>m_jingle\<close> without a test; no result stands for the null dereference.\<close>

definition call_ringing :: "call_service \<Rightarrow> (call_effect list \<times> call_service) option" where
  "call_ringing s = (if attached s then Some (map Wire (ext_ringing (ext s)), s) else None)"

text \<open>The pattern \<open>^[^@/\s]+@[^@/\s]+$\<close>; its end matches before a final line feed too.\<close>

definition part_ok :: "string \<Rightarrow> bool" where
  "part_ok p \<longleftrightarrow> p \<noteq> [] \<and> list_all (\<lambda>c. c \<noteq> CHR ''@'' \<and> c \<noteq> CHR ''/'' \<and> \<not> is_space c) p"

definition jid_pattern :: "string \<Rightarrow> bool" where
  "jid_pattern s =
     (let s = (if s \<noteq> [] \<and> last s = CHR 0x0A then butlast s else s)
      in case split_at CHR ''@'' s of [u, h] \<Rightarrow> part_ok u \<and> part_ok h | _ \<Rightarrow> False)"

definition recipient_of :: "call_env \<Rightarrow> string \<Rightarrow> string" where
  "recipient_of env receiver =
     (let r = bareJid env (trim_text receiver)
      in if r \<noteq> [] \<and> CHR ''@'' \<notin> set r then r @ ''@'' @ own_domain env else r)"

definition startCall :: "call_env \<Rightarrow> string \<Rightarrow> bool \<Rightarrow> call_service \<Rightarrow> call_effect list \<times> call_service" where
  "startCall env receiver video s =
     (if client_of s \<noteq> Some True then ([SignalingFailed ''Cannot start call: XMPP is not connected''], s)
      else
        (let r = recipient_of env receiver
         in if \<not> jid_pattern r then ([SignalingFailed ''Cannot start call: invalid recipient''], s)
            else if r = own_bare env then ([SignalingFailed ''Cannot call your own account''], s)
            else
              (let s = s\<lparr>recipientId := r, videoCall := video\<rparr>;
                   (ok, es, s) = prepareMedia env video s
               in if \<not> ok then (CallStateChanged Calling # es, s)
                  else (let (x, sent) = ext_propose (new_uuid env) r video (ext s)
                        in (CallStateChanged Calling # es @ [RtcCameraTrack] @ map Wire sent,
                            s\<lparr>callStarted := True, ext := x\<rparr>)))))"

section \<open>Signals of the extension\<close>

text \<open>\<open>(?:^|\n)m=video [1-9][0-9]* \<close>: a video line with a port that is not zero.\<close>

definition is_dec :: "char \<Rightarrow> bool" where
  "is_dec c \<longleftrightarrow> (let n = of_char c :: nat in 48 \<le> n \<and> n \<le> 57)"

definition video_line :: "string \<Rightarrow> bool" where
  "video_line l \<longleftrightarrow> startsWith l ''m=video ''
     \<and> (case drop 8 l of
          [] \<Rightarrow> False
        | d # ds \<Rightarrow> is_dec d \<and> d \<noteq> CHR ''0'' \<and> startsWith (dropWhile is_dec ds) '' '')"

definition offers_video :: "string \<Rightarrow> bool" where
  "offers_video sdp \<longleftrightarrow> list_ex video_line (split_at CHR 0x0A sdp)"

text \<open>No result stands for the use of the WebRTC client when there is none.\<close>

definition on_signal :: "call_env \<Rightarrow> extension_signal \<Rightarrow> call_service \<Rightarrow> (call_effect list \<times> call_service) option" where
  "on_signal env sig s =
     (case sig of
        ProposeReceived from streams \<Rightarrow> Some ([Proposal from streams], s\<lparr>videoCall := Video \<in> set streams\<rparr>)
      | AcceptReceived from mid \<Rightarrow>
          (if bareJid env from \<noteq> bareJid env (recipientId s) then Some ([], s)
           else if jidResource env from = []
           then Some ([SignalingFailed ''Cannot start session: acceptance is missing the peer resource''], s)
           else Some ([RequestServices, AcceptSeen from mid], s\<lparr>recipientId := from\<rparr>))
      | CallStateChange c \<Rightarrow> Some ([CallStateChanged c], s)
      | RemoteSdpOfferReceived offer ices sid \<Rightarrow>
          (if \<not> has_rtc s then Some ([SignalingFailed ''Cannot answer: WebRTC is not initialized''], s)
           else Some ([RtcCamera (videoCall s \<and> offers_video offer), RtcPeer ices] @
             (if \<not> rtc_peer_ok env then [SignalingFailed ''Cannot create the peer connection for the remote offer'']
              else RtcRemoteSdp ''offer'' offer #
                (if rtc_sdp_ok env then [] else [SignalingFailed ''Cannot apply the remote SDP offer''])), s))
      | RemoteSdpAnswerReceived answer sid \<Rightarrow>
          (if \<not> has_rtc s then Some ([SignalingFailed ''Cannot apply the remote SDP answer''], s)
           else Some (RtcRemoteSdp ''answer'' answer #
             (if rtc_sdp_ok env then [] else [SignalingFailed ''Cannot apply the remote SDP answer'']), s))
      | ExchangeIceCandidateReceived sdp mid k \<Rightarrow>
          (if has_rtc s then Some ([RtcRemoteCandidate sdp mid k], s) else None)
      | SessionTerminateReceived t \<Rightarrow> Some ([SessionTerminated], s)
      | other \<Rightarrow> Some ([Forwarded other], s))"

text \<open>A stanza: the extension handles it, and its signals reach the service in their order.\<close>

fun dispatch :: "call_env \<Rightarrow> effect list \<Rightarrow> call_service \<Rightarrow> (call_effect list \<times> call_service) option" where
  "dispatch env [] s = Some ([], s)"
| "dispatch env (e # es) s =
     (case (case e of Emit sig \<Rightarrow> on_signal env sig s | _ \<Rightarrow> Some ([Wire e], s)) of
        None \<Rightarrow> None
      | Some (fs, s') \<Rightarrow> (case dispatch env es s' of None \<Rightarrow> None | Some (gs, t) \<Rightarrow> Some (fs @ gs, t)))"

definition on_stanza ::
    "call_env \<Rightarrow> (string \<Rightarrow> int option) \<Rightarrow> dom \<Rightarrow> call_service \<Rightarrow> (call_effect list \<times> call_service) option" where
  "on_stanza env toInt stanza s =
     (if \<not> attached s then Some ([], s)
      else case handleStanza toInt stanza (ext s) of (ok, x, es) \<Rightarrow> dispatch env es (s\<lparr>ext := x\<rparr>))"

section \<open>Callbacks\<close>

record service =
  srv_type :: string
  srv_host :: string
  srv_port :: "int option"
  srv_username :: "string option"
  srv_password :: "string option"

definition ice_of :: "(int \<Rightarrow> string) \<Rightarrow> service \<Rightarrow> IceServer option" where
  "ice_of number v =
     (case ice_toType (srv_type v) of
        None \<Rightarrow> None
      | Some t \<Rightarrow>
          Some \<lparr>ice_type = t, ice_host = srv_host v, ice_port = (case srv_port v of None \<Rightarrow> [] | Some p \<Rightarrow> number p),
                ice_username = (case srv_username v of None \<Rightarrow> [] | Some u \<Rightarrow> u),
                ice_credential = (case srv_password v of None \<Rightarrow> [] | Some p \<Rightarrow> p)\<rparr>)"

definition on_services :: "call_env \<Rightarrow> (int \<Rightarrow> string) \<Rightarrow> service list \<Rightarrow> call_service \<Rightarrow> call_effect list" where
  "on_services env number vs s =
     (if \<not> has_rtc s then []
      else RtcPeer (List.map_filter (ice_of number) vs) #
        (if rtc_peer_ok env then [RtcCreateOffer]
         else [SignalingFailed ''Cannot create the peer connection for the local offer'']))"

text \<open>The callbacks of \<open>createOffer\<close>, \<open>setRemoteSdp\<close> and \<open>createAnswer\<close>.\<close>

definition offer_created :: "call_env \<Rightarrow> string \<Rightarrow> IceServer list \<Rightarrow> call_service \<Rightarrow> call_effect list \<times> call_service" where
  "offer_created env sdp ices s =
     (if \<not> attached s then ([], s)
      else case ext_sessionInitaite (client_of s) (new_uuid env) (own_bare env) (recipientId s) sdp ices (ext s) of
             (x, es) \<Rightarrow> (map Wire es, s\<lparr>ext := x\<rparr>))"

definition remote_offer_set :: "call_service \<Rightarrow> call_effect list" where
  "remote_offer_set s = (if has_rtc s then [RtcCreateAnswer] else [])"

definition answer_created :: "call_env \<Rightarrow> string \<Rightarrow> call_service \<Rightarrow> call_effect list" where
  "answer_created env sdp s =
     (if \<not> attached s then [] else map Wire (ext_sessionAccept (client_of s) (own_jid env) sdp (ext s)))"

definition local_candidate :: "(int \<Rightarrow> string) \<Rightarrow> string \<Rightarrow> string \<Rightarrow> int \<Rightarrow> call_service \<Rightarrow> call_effect list" where
  "local_candidate number candidate mid k s =
     (if \<not> attached s then [] else map Wire (iceCandidate (client_of s) number candidate mid k (ext s)))"

definition rtc_state_changed :: "rtc_state \<Rightarrow> call_effect list" where
  "rtc_state_changed c =
     (case c of RtcConnected \<Rightarrow> [CallStateChanged Connected] | RtcDisconnect \<Rightarrow> [CallStateChanged Reconnect] | _ \<Rightarrow> [])
     @ [ConnectionStateChange c]"

section \<open>Devices and the start\<close>

definition call_setAudioInput :: "string \<Rightarrow> call_service \<Rightarrow> call_effect list \<times> call_service" where
  "call_setAudioInput d s = ((if has_rtc s then [RtcAudioInput d] else []), s\<lparr>audioInput := d\<rparr>)"

definition call_setAudioOutput :: "string \<Rightarrow> call_service \<Rightarrow> call_effect list \<times> call_service" where
  "call_setAudioOutput d s = ((if has_rtc s then [RtcAudioOutput d] else []), s\<lparr>audioOutput := d\<rparr>)"

definition call_setCamera :: "string \<Rightarrow> call_service \<Rightarrow> call_effect list \<times> call_service" where
  "call_setCamera d s = ((if has_rtc s then [RtcCameraDevice d] else []), s\<lparr>cameraDevice := d\<rparr>)"

definition call_initialize :: "extension_state \<Rightarrow> bool \<Rightarrow> call_service \<Rightarrow> call_service" where
  "call_initialize x up s = (if attached s then s else s\<lparr>attached := True, online := up, ext := x\<rparr>)"

definition new_call_service :: "call_effect list \<times> call_service" where
  "new_call_service =
     createWebrtcClient \<lparr>attached = False, online = False, ext = fresh_extension, has_rtc = False, mediaPrepared = False,
       callStarted = False, videoCall = False, recipientId = [], audioInput = [], audioOutput = [], cameraDevice = []\<rparr>"

end
