(* ===== verification/Call_Flow.thy ===== *)
theory Call_Flow
  imports Call_Service
begin

text \<open>
  Every sequence of inputs of \<open>JingleService\<close>: the calls of the user, stanzas, callbacks and device
  changes, in any order, with any answers of the WebRTC client. What holds of each input is proved
  once and lifted to all reachable states.
\<close>

section \<open>Inputs\<close>

datatype call_input =
    Prepare call_env
  | Start call_env string bool
  | AcceptCall call_env
  | EndCall
  | RejectCall
  | RingPeer
  | Stanza call_env "string \<Rightarrow> int option" dom
  | Services call_env "int \<Rightarrow> string" "service list"
  | OfferCreated call_env string "IceServer list"
  | RemoteOfferSet
  | AnswerCreated call_env string
  | LocalCandidate "int \<Rightarrow> string" string string int
  | RtcStateChanged rtc_state
  | AudioInput string
  | AudioOutput string
  | CameraDevice string
  | Initialize extension_state bool
  | Online bool

fun call_step :: "call_input \<Rightarrow> call_service \<Rightarrow> (call_effect list \<times> call_service) option" where
  "call_step (Prepare env) s = Some (call_prepare env s)"
| "call_step (Start env r video) s = Some (startCall env r video s)"
| "call_step (AcceptCall env) s = Some (acceptCall env s)"
| "call_step EndCall s = Some (endCall s)"
| "call_step RejectCall s = Some (rejectCall s)"
| "call_step RingPeer s = call_ringing s"
| "call_step (Stanza env toInt d) s = on_stanza env toInt d s"
| "call_step (Services env number vs) s = Some (on_services env number vs s, s)"
| "call_step (OfferCreated env sdp ices) s = Some (offer_created env sdp ices s)"
| "call_step RemoteOfferSet s = Some (remote_offer_set s, s)"
| "call_step (AnswerCreated env sdp) s = Some (answer_created env sdp s, s)"
| "call_step (LocalCandidate number c mid k) s = Some (local_candidate number c mid k s, s)"
| "call_step (RtcStateChanged c) s = Some (rtc_state_changed c, s)"
| "call_step (AudioInput d) s = Some (call_setAudioInput d s)"
| "call_step (AudioOutput d) s = Some (call_setAudioOutput d s)"
| "call_step (CameraDevice d) s = Some (call_setCamera d s)"
| "call_step (Initialize x up) s = Some ([], call_initialize x up s)"
| "call_step (Online b) s = Some ([], s\<lparr>online := b\<rparr>)"

inductive call_run :: "call_effect list \<Rightarrow> call_service \<Rightarrow> bool" where
  start: "new_call_service = (es, s) \<Longrightarrow> call_run es s"
| step: "call_run es s \<Longrightarrow> call_step i s = Some (fs, t) \<Longrightarrow> call_run (es @ fs) t"

section \<open>The WebRTC client and the camera\<close>

definition call_wf :: "call_service \<Rightarrow> bool" where
  "call_wf s \<longleftrightarrow> (mediaPrepared s \<longrightarrow> has_rtc s) \<and> (callStarted s \<longrightarrow> mediaPrepared s)"

text \<open>Whether the camera is on after some effects.\<close>

fun camera_after :: "bool \<Rightarrow> call_effect list \<Rightarrow> bool" where
  "camera_after b [] = b"
| "camera_after b (e # es) =
     camera_after (case e of RtcCamera c \<Rightarrow> c | RtcDestroyed \<Rightarrow> False | RtcCreated \<Rightarrow> False | _ \<Rightarrow> b) es"

lemma camera_append [simp]: "camera_after b (es @ fs) = camera_after (camera_after b es) fs"
  by (induction es arbitrary: b) simp_all

lemma camera_wire [simp]: "camera_after b (map Wire es) = b"
  by (induction es) simp_all

lemma camera_passed [simp]: "camera_after b (concat (map passed_on es)) = b"
proof (induction es arbitrary: b)
  case (Cons e es)
  have "camera_after b (passed_on e) = b" for b
  proof (cases e)
    case (Emit sig)
    then show ?thesis by (cases sig) simp_all
  qed simp_all
  then show ?case using Cons by simp
qed simp

text \<open>What every input call_keeps: the invariant, and a camera that is on belongs to a client.\<close>

definition call_keeps :: "call_service \<Rightarrow> call_effect list \<Rightarrow> call_service \<Rightarrow> bool" where
  "call_keeps s fs t \<longleftrightarrow> (\<forall>b. call_wf s \<and> (b \<longrightarrow> has_rtc s) \<longrightarrow> call_wf t \<and> (camera_after b fs \<longrightarrow> has_rtc t))"

lemma call_keepsD: "call_keeps s fs t \<Longrightarrow> call_wf s \<Longrightarrow> (b \<longrightarrow> has_rtc s) \<Longrightarrow> call_wf t \<and> (camera_after b fs \<longrightarrow> has_rtc t)"
  unfolding call_keeps_def by blast

lemma call_keeps_trans: "call_keeps s fs t \<Longrightarrow> call_keeps t gs u \<Longrightarrow> call_keeps s (fs @ gs) u"
  unfolding call_keeps_def camera_append by blast

lemma ensure_keeps:
  "ensure_rtc s = (es, t) \<Longrightarrow> has_rtc t \<and> call_keeps s es t \<and> callStarted t = callStarted s \<and> (mediaPrepared t \<longrightarrow> mediaPrepared s)
    \<and> videoCall t = videoCall s \<and> RtcCamera c \<notin> set es"
  by (auto simp: ensure_rtc_def createWebrtcClient_def call_keeps_def call_wf_def split: if_splits)

lemma prepareMedia_keeps:
  assumes "prepareMedia env v s = (ok, es, t)"
  shows "call_keeps s es t \<and> videoCall t = videoCall s \<and> (ok \<longrightarrow> has_rtc t \<and> mediaPrepared t)
    \<and> (RtcCamera True \<in> set es \<longrightarrow> v)"
proof -
  obtain fs u where u: "ensure_rtc s = (fs, u)" by fastforce
  from ensure_keeps [OF u] have k: "has_rtc u" "call_keeps s fs u" "videoCall u = videoCall s" by auto
  have c: "RtcCamera True \<notin> set fs" using ensure_keeps [OF u] by blast
  show ?thesis
  proof (cases "mediaPrepared u \<or> rtc_initializes env")
    case True
    then have t: "t = u\<lparr>mediaPrepared := True\<rparr> \<or> t = u" "ok" "mediaPrepared t" "es = fs @ [RtcCamera v] \<or> es = fs @ [RtcCamera v, RtcInitialize]"
      using assms u by (auto simp: prepareMedia_def Let_def split: if_splits)
    have "call_keeps u [RtcCamera v] t" "call_keeps u [RtcCamera v, RtcInitialize] t"
      using t k(1) by (auto simp: call_keeps_def call_wf_def)
    then have "call_keeps s es t" using call_keeps_trans [OF k(2)] t(4) by auto
    then show ?thesis using t k c by auto
  next
    case False
    then have t: "t = u\<lparr>has_rtc := False\<rparr>" "\<not> ok" "es = fs @ [RtcCamera v, RtcInitialize, RtcCamera False, RtcDestroyed,
        SignalingFailed ''Cannot initialize WebRTC for the call'']"
      using assms u by (auto simp: prepareMedia_def Let_def)
    have "call_keeps u [RtcCamera v, RtcInitialize, RtcCamera False, RtcDestroyed, SignalingFailed ''Cannot initialize WebRTC for the call''] t"
      using t False by (auto simp: call_keeps_def call_wf_def)
    then have "call_keeps s es t" using call_keeps_trans [OF k(2)] t(3) by simp
    then show ?thesis using t k c by auto
  qed
qed

lemma call_keeps_refl_wire: "call_keeps s (map Wire es) (s\<lparr>ext := x\<rparr>)" "call_keeps s (map Wire es) s"
  by (simp_all add: call_keeps_def call_wf_def)

lemma signal_keeps:
  assumes "on_signal env sig s = Some (fs, t)"
  shows "call_keeps s fs t \<and> has_rtc t = has_rtc s \<and> ext t = ext s"
  using assms by (cases sig) (auto simp: on_signal_def call_keeps_def call_wf_def split: if_splits)

lemma dispatch_keeps:
  "dispatch env es s = Some (fs, t) \<Longrightarrow> call_keeps s fs t \<and> has_rtc t = has_rtc s \<and> ext t = ext s"
proof (induction es arbitrary: s fs)
  case Nil
  then show ?case by (simp add: call_keeps_def)
next
  case (Cons e es)
  obtain f1 u f2 where one: "(case e of Emit sig \<Rightarrow> on_signal env sig s | _ \<Rightarrow> Some ([Wire e], s)) = Some (f1, u)"
    and two: "dispatch env es u = Some (f2, t)" "fs = f1 @ f2"
    using Cons.prems by (auto split: option.splits)
  have "call_keeps s f1 u \<and> has_rtc u = has_rtc s \<and> ext u = ext s"
    using one signal_keeps [of env _ s f1 u] by (auto simp: call_keeps_def split: effect.splits)
  then show ?case using Cons.IH [OF two(1)] two(2) call_keeps_trans by metis
qed

lemma call_wf_ext [simp]: "call_wf (s\<lparr>ext := x\<rparr>) = call_wf s"
  by (simp add: call_wf_def)

lemma step_keeps:
  assumes st: "call_step i s = Some (fs, t)"
  shows "call_keeps s fs t"
proof (cases i)
  case (Prepare env)
  show ?thesis
  proof (cases "callStarted s")
    case False
    obtain e1 u where u: "ensure_rtc s = (e1, u)" by fastforce
    obtain ok e2 v where v: "prepareMedia env False u = (ok, e2, v)" by (cases "prepareMedia env False u")
    have "fs = e1 @ [RtcPrepare] @ e2" "t = v" using st Prepare False u v by (auto simp: call_prepare_def)
    moreover have "call_keeps u [RtcPrepare] u" by (simp add: call_keeps_def)
    ultimately show ?thesis using ensure_keeps [OF u] prepareMedia_keeps [OF v] by (metis call_keeps_trans)
  qed (use st Prepare in \<open>auto simp: call_prepare_def call_keeps_def\<close>)
next
  case (Start env r video)
  let ?u = "s\<lparr>recipientId := recipient_of env r, videoCall := video\<rparr>"
  obtain ok e2 v where v: "prepareMedia env video ?u = (ok, e2, v)" by (cases "prepareMedia env video ?u")
  have "call_keeps ?u e2 v" using prepareMedia_keeps [OF v] by blast
  moreover have "call_keeps s [] ?u" by (simp add: call_keeps_def call_wf_def)
  ultimately have k: "call_keeps s e2 v" using call_keeps_trans by fastforce
  show ?thesis
  proof (cases "client_of s = Some True \<and> jid_pattern (recipient_of env r) \<and> recipient_of env r \<noteq> own_bare env")
    case True
    obtain x sent where p: "ext_propose (new_uuid env) (recipient_of env r) video (ext v) = (x, sent)" by fastforce
    have run: "(fs, t) = (if ok then (CallStateChanged Calling # e2 @ [RtcCameraTrack] @ map Wire sent, v\<lparr>callStarted := True, ext := x\<rparr>)
        else (CallStateChanged Calling # e2, v))"
      using st Start True v p by (cases ok) (simp_all add: startCall_def Let_def)
    have c: "call_keeps s [CallStateChanged Calling] s" by (simp add: call_keeps_def)
    have "call_keeps v ([RtcCameraTrack] @ map Wire sent) (v\<lparr>callStarted := True, ext := x\<rparr>)" if ok
      using prepareMedia_keeps [OF v] that by (simp add: call_keeps_def call_wf_def)
    then show ?thesis
      using run call_keeps_trans [OF c k] call_keeps_trans [OF call_keeps_trans [OF c k]] by (cases ok) auto
  qed (use st Start in \<open>auto simp: startCall_def Let_def call_keeps_def split: if_splits\<close>)
next
  case (AcceptCall env)
  obtain ok e2 v where v: "prepareMedia env (videoCall s) s = (ok, e2, v)" by (cases "prepareMedia env (videoCall s) s")
  show ?thesis
  proof (cases "client_of s = Some True")
    case True
    have run: "(fs, t) = (if ok then (e2 @ concat (map passed_on (sendAccept (client_of v) (ext v))), v\<lparr>callStarted := True\<rparr>)
        else (e2, v))"
      using st AcceptCall True v by (cases ok) (simp_all add: acceptCall_def isConnected_def)
    have k: "call_keeps s e2 v" using prepareMedia_keeps [OF v] by blast
    have "call_keeps v (concat (map passed_on (sendAccept (client_of v) (ext v)))) (v\<lparr>callStarted := True\<rparr>)" if ok
      using prepareMedia_keeps [OF v] that by (simp add: call_keeps_def call_wf_def)
    then show ?thesis using run k call_keeps_trans [OF k] by (cases ok) auto
  qed (use st AcceptCall in \<open>auto simp: acceptCall_def isConnected_def call_keeps_def\<close>)
next
  case (Stanza env toInt d)
  show ?thesis
  proof (cases "attached s")
    case True
    obtain ok x es where "handleStanza toInt d (ext s) = (ok, x, es)" by (cases "handleStanza toInt d (ext s)")
    then have "dispatch env es (s\<lparr>ext := x\<rparr>) = Some (fs, t)" using st Stanza True by (simp add: on_stanza_def)
    then have "call_keeps (s\<lparr>ext := x\<rparr>) fs t" using dispatch_keeps by blast
    moreover have "call_keeps s [] (s\<lparr>ext := x\<rparr>)" by (simp add: call_keeps_def)
    ultimately show ?thesis using call_keeps_trans by fastforce
  qed (use st Stanza in \<open>auto simp: on_stanza_def call_keeps_def\<close>)
qed (use st in \<open>auto simp: call_keeps_def call_wf_def endCall_def rejectCall_def isConnected_def call_ringing_def on_services_def
      offer_created_def remote_offer_set_def answer_created_def local_candidate_def rtc_state_changed_def
      call_setAudioInput_def call_setAudioOutput_def call_setCamera_def call_initialize_def
      split: if_splits prod.splits rtc_state.splits\<close>)

lemma run_keeps: "call_run es s \<Longrightarrow> call_wf s \<and> (camera_after False es \<longrightarrow> has_rtc s)"
proof (induction rule: call_run.induct)
  case (start es s)
  then show ?case by (auto simp: new_call_service_def createWebrtcClient_def call_wf_def)
next
  case (step es s i fs t)
  then show ?case using call_keepsD [OF step_keeps [OF step(2)], of "camera_after False es"] by simp
qed

section \<open>What the signals of one stanza can be\<close>

lemma message_signals:
  "each_signal on_message sigs st = (x, es) \<Longrightarrow> Emit (RemoteSdpOfferReceived o1 o2 o3) \<notin> set es"
proof (induction sigs arbitrary: st x es)
  case (Cons sg sigs)
  obtain st1 ev1 where one: "on_message sg st = (st1, ev1)" by fastforce
  obtain st2 ev2 where two: "each_signal on_message sigs st1 = (st2, ev2)" by fastforce
  have "Emit (RemoteSdpOfferReceived o1 o2 o3) \<notin> set ev1" using one by (cases sg) (auto simp: ext_ringing_def Let_def)
  then show ?case using Cons.prems one two Cons.IH [OF two] by auto
qed simp

lemma action_signals:
  "each_signal on_action sigs st = (x, es) \<Longrightarrow> Emit (ProposeReceived p1 p2) \<notin> set es"
proof (induction sigs arbitrary: st x es)
  case (Cons sg sigs)
  obtain st1 ev1 where one: "on_action sg st = (st1, ev1)" by fastforce
  obtain st2 ev2 where two: "each_signal on_action sigs st1 = (st2, ev2)" by fastforce
  have "Emit (ProposeReceived p1 p2) \<notin> set ev1" using one by (cases sg) auto
  then show ?case using Cons.prems one two Cons.IH [OF two] by auto
qed simp

lemma stanza_signals:
  assumes "handleStanza toInt d st = (ok, x, es)"
  shows "(\<forall>o1 o2 o3. Emit (RemoteSdpOfferReceived o1 o2 o3) \<notin> set es) \<or> (\<forall>p1 p2. Emit (ProposeReceived p1 p2) \<notin> set es)"
proof (cases "dom_tag d = ''message''")
  case True
  then have "es = [] \<or> (\<exists>sigs st'. each_signal on_message sigs st' = (x, es))"
    using assms by (auto simp: handleStanza_def handle_message_def split: option.splits prod.splits)
  then show ?thesis using message_signals by fastforce
next
  case False
  then have "es = [] \<or> (\<exists>sigs st' ev. each_signal on_action sigs st' = (x, ev) \<and> (es = ev \<or> es = ev @ [Send_iq (reply_to d)]))"
    using assms by (auto simp: handleStanza_def handle_iq_def Let_def split: option.splits prod.splits if_splits)
  then show ?thesis using action_signals by fastforce
qed

lemma signal_camera:
  assumes "on_signal env sig s = Some (fs, t)"
  shows "(RtcCamera True \<in> set fs \<longrightarrow> videoCall s \<and> (\<exists>o1 o2 o3. sig = RemoteSdpOfferReceived o1 o2 o3 \<and> offers_video o1))
    \<and> (videoCall t = videoCall s \<or> (\<exists>p1 p2. sig = ProposeReceived p1 p2))"
  using assms by (cases sig) (auto simp: on_signal_def split: if_splits)

lemma dispatch_camera:
  assumes "dispatch env es s = Some (fs, t)"
    and "(\<forall>o1 o2 o3. Emit (RemoteSdpOfferReceived o1 o2 o3) \<notin> set es) \<or> (\<forall>p1 p2. Emit (ProposeReceived p1 p2) \<notin> set es)"
  shows "RtcCamera True \<in> set fs \<longrightarrow> videoCall s \<and> videoCall t
    \<and> (\<exists>o1 o2 o3. Emit (RemoteSdpOfferReceived o1 o2 o3) \<in> set es \<and> offers_video o1)"
    and "(\<forall>p1 p2. Emit (ProposeReceived p1 p2) \<notin> set es) \<longrightarrow> videoCall t = videoCall s"
proof -
  have both: "(RtcCamera True \<in> set fs \<longrightarrow> videoCall s \<and> videoCall t
      \<and> (\<exists>o1 o2 o3. Emit (RemoteSdpOfferReceived o1 o2 o3) \<in> set es \<and> offers_video o1))
    \<and> ((\<forall>p1 p2. Emit (ProposeReceived p1 p2) \<notin> set es) \<longrightarrow> videoCall t = videoCall s)"
    using assms
  proof (induction es arbitrary: s fs)
    case (Cons e es)
    obtain f1 u f2 where one: "(case e of Emit sig \<Rightarrow> on_signal env sig s | _ \<Rightarrow> Some ([Wire e], s)) = Some (f1, u)"
      and two: "dispatch env es u = Some (f2, t)" "fs = f1 @ f2"
      using Cons.prems(1) by (auto split: option.splits)
    have ih: "(RtcCamera True \<in> set f2 \<longrightarrow> videoCall u \<and> videoCall t
        \<and> (\<exists>o1 o2 o3. Emit (RemoteSdpOfferReceived o1 o2 o3) \<in> set es \<and> offers_video o1))
      \<and> ((\<forall>p1 p2. Emit (ProposeReceived p1 p2) \<notin> set es) \<longrightarrow> videoCall t = videoCall u)"
      by (rule Cons.IH [OF two(1)]) (use Cons.prems(2) in auto)
    have hd: "(RtcCamera True \<in> set f1 \<longrightarrow> videoCall s \<and> (\<exists>o1 o2 o3. e = Emit (RemoteSdpOfferReceived o1 o2 o3) \<and> offers_video o1))
      \<and> (videoCall u = videoCall s \<or> (\<exists>p1 p2. e = Emit (ProposeReceived p1 p2)))"
      using one signal_camera [of env _ s f1 u] by (cases e) auto
    have f1: "videoCall u = videoCall s \<and> ((\<forall>p1 p2. Emit (ProposeReceived p1 p2) \<notin> set es) \<longrightarrow> videoCall t = videoCall s)"
      if "\<forall>p1 p2. e \<noteq> Emit (ProposeReceived p1 p2)" using that hd ih by metis
    show ?case
    proof (cases "\<forall>p1 p2. Emit (ProposeReceived p1 p2) \<notin> set (e # es)")
      case True
      then have e: "videoCall u = videoCall s" "videoCall t = videoCall s"
        using f1 by (metis list.set_intros(1), metis list.set_intros)
      have "videoCall s \<and> (\<exists>o1 o2 o3. Emit (RemoteSdpOfferReceived o1 o2 o3) \<in> set (e # es) \<and> offers_video o1)"
        if "RtcCamera True \<in> set fs"
      proof (cases "RtcCamera True \<in> set f1")
        case True
        then show ?thesis using hd by (metis list.set_intros(1))
      next
        case False
        then have "RtcCamera True \<in> set f2" using that two(2) by simp
        then show ?thesis using ih e by (metis list.set_intros(2))
      qed
      then show ?thesis using e by blast
    next
      case False
      then have no: "\<forall>o1 o2 o3. Emit (RemoteSdpOfferReceived o1 o2 o3) \<notin> set (e # es)" using Cons.prems(2) by blast
      then have "RtcCamera True \<notin> set f1" using hd by (metis list.set_intros(1))
      moreover have "RtcCamera True \<notin> set f2" using no ih by (metis list.set_intros(2))
      ultimately show ?thesis using False two(2) by auto
    qed
  qed simp
  show "RtcCamera True \<in> set fs \<longrightarrow> videoCall s \<and> videoCall t
    \<and> (\<exists>o1 o2 o3. Emit (RemoteSdpOfferReceived o1 o2 o3) \<in> set es \<and> offers_video o1)" using both by blast
  show "(\<forall>p1 p2. Emit (ProposeReceived p1 p2) \<notin> set es) \<longrightarrow> videoCall t = videoCall s" using both by blast
qed

lemma dispatch_None:
  "dispatch env es s = None \<longleftrightarrow> \<not> has_rtc s \<and> (\<exists>sdp mid k. Emit (ExchangeIceCandidateReceived sdp mid k) \<in> set es)"
proof (induction es arbitrary: s)
  case (Cons e es)
  let ?one = "case e of Emit sig \<Rightarrow> on_signal env sig s | _ \<Rightarrow> Some ([Wire e], s)"
  have none: "?one = None \<longleftrightarrow> \<not> has_rtc s \<and> (\<exists>sdp mid k. e = Emit (ExchangeIceCandidateReceived sdp mid k))"
  proof (cases e)
    case (Emit sig)
    then show ?thesis by (cases sig) (auto simp: on_signal_def)
  qed simp_all
  show ?case
  proof (cases ?one)
    case None
    then show ?thesis using none by auto
  next
    case (Some r)
    obtain fs u where r: "r = (fs, u)" by fastforce
    then have "has_rtc u = has_rtc s" using Some signal_keeps [of env _ s fs u] by (auto split: effect.splits)
    then show ?thesis using Some r none Cons.IH [of u] by (auto split: option.splits)
  qed
qed simp

section \<open>A concrete call\<close>

definition sample_call_env :: call_env where
  "sample_call_env = \<lparr>rtc_initializes = True, rtc_peer_ok = True, rtc_sdp_ok = True, new_uuid = ''u1'',
     bareJid = first_section CHR ''/'', jidResource = (\<lambda>s. drop 1 (dropWhile (\<lambda>c. c \<noteq> CHR ''/'') s)),
     own_domain = ''h'', own_bare = ''me@h'', own_jid = ''me@h/1''\<rparr>"

definition idle_service :: call_service where
  "idle_service = snd new_call_service"

definition sample_run :: "call_input list" where
  "sample_run = [Initialize fresh_extension True, Start sample_call_env ''bob'' True, EndCall]"

fun run_inputs :: "call_input list \<Rightarrow> call_service \<Rightarrow> (call_effect list \<times> call_service) option" where
  "run_inputs [] s = Some ([], s)"
| "run_inputs (i # is) s =
     (case call_step i s of
        None \<Rightarrow> None
      | Some (fs, t) \<Rightarrow> (case run_inputs is t of None \<Rightarrow> None | Some (gs, u) \<Rightarrow> Some (fs @ gs, u)))"

lemma run_inputs_run: "call_run es s \<Longrightarrow> run_inputs is s = Some (fs, t) \<Longrightarrow> call_run (es @ fs) t"
proof (induction "is" arbitrary: es s fs)
  case (Cons i "is")
  obtain f1 u f2 where "call_step i s = Some (f1, u)" "run_inputs is u = Some (f2, t)" "fs = f1 @ f2"
    using Cons.prems(2) by (auto split: option.splits)
  then show ?case using Cons.IH [of "es @ f1" u f2] call_run.step [OF Cons.prems(1)] by auto
qed simp

text \<open>Tests on effects that evaluate.\<close>

fun is_camera_on :: "call_effect \<Rightarrow> bool" where
  "is_camera_on (RtcCamera b) = b"
| "is_camera_on _ = False"

fun is_message :: "call_effect \<Rightarrow> bool" where
  "is_message (Wire (Send_message m)) = True"
| "is_message _ = False"

lemma camera_on_iff: "list_ex is_camera_on es \<longleftrightarrow> RtcCamera True \<in> set es"
proof -
  have "is_camera_on e \<longleftrightarrow> e = RtcCamera True" for e by (cases e) simp_all
  then show ?thesis by (auto simp: list_ex_iff)
qed

lemma message_iff: "list_ex is_message es \<longleftrightarrow> (\<exists>m. Wire (Send_message m) \<in> set es)"
proof -
  have "is_message e \<longleftrightarrow> (\<exists>m. e = Wire (Send_message m))" for e by (cases e rule: is_message.cases) simp_all
  then show ?thesis by (auto simp: list_ex_iff)
qed

fun is_candidate :: "effect \<Rightarrow> bool" where
  "is_candidate (Emit (ExchangeIceCandidateReceived sdp mid k)) = True"
| "is_candidate _ = False"

lemma candidate_iff: "list_ex is_candidate es \<longleftrightarrow> (\<exists>sdp mid k. Emit (ExchangeIceCandidateReceived sdp mid k) \<in> set es)"
proof -
  have "is_candidate e \<longleftrightarrow> (\<exists>sdp mid k. e = Emit (ExchangeIceCandidateReceived sdp mid k))" for e
    by (cases e rule: is_candidate.cases) simp_all
  then show ?thesis by (auto simp: list_ex_iff)
qed

section \<open>What holds of every call\<close>

text \<open>
  C20: in every reachable state a started call has prepared media and prepared media have a WebRTC
  client, and a camera that was turned on belongs to a client: no camera runs without one.
\<close>

theorem media_follows_call:
  assumes "call_run es s"
  shows "(callStarted s \<longrightarrow> mediaPrepared s) \<and> (mediaPrepared s \<longrightarrow> has_rtc s) \<and> (camera_after False es \<longrightarrow> has_rtc s)"
  using run_keeps [OF assms] by (simp add: call_wf_def)

theorem media_follows_call_witness:
  "\<exists>es s. call_run es s \<and> callStarted s \<and> camera_after False es \<and> mediaPrepared s \<and> has_rtc s"
proof -
  obtain es0 s0 where n: "new_call_service = (es0, s0)" by fastforce
  have "case new_call_service of (es0, s0) \<Rightarrow>
      case run_inputs (butlast sample_run) s0 of
        Some (fs, s) \<Rightarrow> callStarted s \<and> camera_after False (es0 @ fs) | None \<Rightarrow> False" by code_simp
  then obtain fs s where r: "run_inputs (butlast sample_run) s0 = Some (fs, s)" "callStarted s" "camera_after False (es0 @ fs)"
    by (auto simp: n split: option.splits)
  have run: "call_run (es0 @ fs) s" by (rule run_inputs_run [OF call_run.start [OF n] r(1)])
  from media_follows_call [OF run] r run show ?thesis by blast
qed

lemma end_camera:
  "(b \<longrightarrow> has_rtc s) \<Longrightarrow> \<not> camera_after b (fst (endCall s))"
  by (cases "has_rtc s") (auto simp: endCall_def)

text \<open>
  Ending a call, at any point of any history, leaves no WebRTC client and the camera off.
\<close>

theorem end_turns_camera_off:
  assumes "call_run es s" and "call_step EndCall s = Some (fs, t)"
  shows "\<not> camera_after False (es @ fs) \<and> \<not> has_rtc t \<and> \<not> mediaPrepared t \<and> \<not> callStarted t"
  using run_keeps [OF assms(1)] assms(2) end_camera [of "camera_after False es" s] by (auto simp: endCall_def)

theorem end_turns_camera_off_witness:
  "case new_call_service of (es0, s0) \<Rightarrow>
     case run_inputs (butlast sample_run) s0 of
       Some (fs, s) \<Rightarrow> (case endCall s of (gs, t) \<Rightarrow> camera_after False (es0 @ fs) \<and> \<not> camera_after False ((es0 @ fs) @ gs))
     | None \<Rightarrow> False"
proof -
  obtain es0 s0 where n: "new_call_service = (es0, s0)" by fastforce
  have "case new_call_service of (es0, s0) \<Rightarrow>
      case run_inputs (butlast sample_run) s0 of Some (fs, s) \<Rightarrow> camera_after False (es0 @ fs) | None \<Rightarrow> False" by code_simp
  then obtain fs s where r: "run_inputs (butlast sample_run) s0 = Some (fs, s)" "camera_after False (es0 @ fs)"
    by (auto simp: n split: option.splits)
  obtain gs t where e: "endCall s = (gs, t)" by fastforce
  have "\<not> camera_after False ((es0 @ fs) @ gs)"
    using end_turns_camera_off [OF run_inputs_run [OF call_run.start [OF n] r(1)], of gs t] e by simp
  then show ?thesis unfolding n prod.case r(1) option.case e using r(2) by blast
qed

text \<open>
  The camera is turned on only in a video call, and by a remote offer only if that call is a
  video call and the offer has a video line with a port that is not zero.
\<close>

theorem camera_only_for_video:
  assumes "call_step i s = Some (fs, t)" and "RtcCamera True \<in> set fs"
  shows "videoCall t \<and> ((\<exists>env r. i = Start env r True) \<or> videoCall s)
    \<and> (\<forall>env toInt d. i = Stanza env toInt d \<longrightarrow>
         (\<exists>ok x es offer ices sid. handleStanza toInt d (ext s) = (ok, x, es)
            \<and> Emit (RemoteSdpOfferReceived offer ices sid) \<in> set es \<and> offers_video offer))"
proof (cases i)
  case (Prepare env)
  obtain e1 u where u: "ensure_rtc s = (e1, u)" by fastforce
  obtain ok e2 v where v: "prepareMedia env False u = (ok, e2, v)" by (cases "prepareMedia env False u")
  have "RtcCamera True \<notin> set e1" "RtcCamera True \<notin> set e2" using ensure_keeps [OF u] prepareMedia_keeps [OF v] by blast+
  then show ?thesis using assms Prepare u v by (auto simp: call_prepare_def split: if_splits)
next
  case (Start env r video)
  let ?u = "s\<lparr>recipientId := recipient_of env r, videoCall := video\<rparr>"
  obtain ok e2 v where v: "prepareMedia env video ?u = (ok, e2, v)" by (cases "prepareMedia env video ?u")
  have p: "videoCall v = video" "RtcCamera True \<in> set e2 \<longrightarrow> video" using prepareMedia_keeps [OF v] by simp_all
  have "RtcCamera True \<in> set e2 \<and> videoCall t = videoCall v"
    using assms Start v by (auto simp: startCall_def Let_def split: if_splits prod.splits)
  then show ?thesis using p Start by simp
next
  case (AcceptCall env)
  obtain ok e2 v where v: "prepareMedia env (videoCall s) s = (ok, e2, v)" by (cases "prepareMedia env (videoCall s) s")
  have p: "videoCall v = videoCall s" "RtcCamera True \<in> set e2 \<longrightarrow> videoCall s" using prepareMedia_keeps [OF v] by simp_all
  have w: "RtcCamera True \<notin> set (passed_on e)" for e by (cases e rule: passed_on.cases) simp_all
  have "RtcCamera True \<in> set e2 \<and> videoCall t = videoCall v"
    using assms AcceptCall v w by (auto simp: acceptCall_def isConnected_def split: if_splits)
  then show ?thesis using p AcceptCall by simp
next
  case (Stanza env toInt d)
  then have a: "attached s" using assms by (auto simp: on_stanza_def split: if_splits)
  obtain ok x es where h: "handleStanza toInt d (ext s) = (ok, x, es)" by (cases "handleStanza toInt d (ext s)")
  then have "dispatch env es (s\<lparr>ext := x\<rparr>) = Some (fs, t)" using assms(1) Stanza a by (simp add: on_stanza_def)
  from dispatch_camera(1) [OF this stanza_signals [OF h]] assms(2) h Stanza show ?thesis by auto
qed (use assms in \<open>auto simp: endCall_def rejectCall_def isConnected_def call_ringing_def on_services_def
      offer_created_def remote_offer_set_def answer_created_def local_candidate_def rtc_state_changed_def
      call_setAudioInput_def call_setAudioOutput_def call_setCamera_def
      split: if_splits prod.splits rtc_state.splits\<close>)

theorem camera_only_for_video_witness:
  "case call_step (Start sample_call_env ''bob'' True) (call_initialize fresh_extension True idle_service) of
     Some (fs, t) \<Rightarrow> RtcCamera True \<in> set fs \<and> videoCall t | None \<Rightarrow> False"
proof -
  let ?s = "call_initialize fresh_extension True idle_service"
  have "case call_step (Start sample_call_env ''bob'' True) ?s of
      Some (fs, t) \<Rightarrow> list_ex is_camera_on fs | None \<Rightarrow> False" by code_simp
  then obtain fs t where r: "call_step (Start sample_call_env ''bob'' True) ?s = Some (fs, t)" "RtcCamera True \<in> set fs"
    by (auto simp: camera_on_iff split: option.splits)
  from camera_only_for_video [OF r] r show ?thesis by simp
qed

text \<open>
  A stanza makes the service use a WebRTC client it does not have exactly when it carries an
  ICE candidate of the session while there is no client, as after a call has ended.
\<close>

theorem candidate_without_client:
  assumes "attached s" and "handleStanza toInt d (ext s) = (ok, x, es)"
  shows "on_stanza env toInt d s = None
    \<longleftrightarrow> \<not> has_rtc s \<and> (\<exists>sdp mid k. Emit (ExchangeIceCandidateReceived sdp mid k) \<in> set es)"
  using assms by (simp add: on_stanza_def dispatch_None)

definition ended_service :: call_service where
  "ended_service = snd (endCall (call_initialize
     (fresh_extension\<lparr>jingleAction := demo_session, sessionSid := ''s1'', sessionSender := ''a@x/1''\<rparr>) True idle_service))"

theorem candidate_without_client_witness:
  "on_stanza sample_call_env (\<lambda>s. if s = ''0'' then Some 0 else None)
     (delivered_iq xml_wire ''a@x/1'' ''q3'' (exchangeIceCandidate (\<lambda>_. ''0'') ''b@x/2'' demo_line ''audio'' 0 demo_session))
     ended_service = None"
proof -
  let ?toInt = "\<lambda>s. if s = ''0'' then Some 0 else None"
  let ?d = "delivered_iq xml_wire ''a@x/1'' ''q3'' (exchangeIceCandidate (\<lambda>_. ''0'') ''b@x/2'' demo_line ''audio'' 0 demo_session)"
  have a: "attached ended_service" "\<not> has_rtc ended_service" by (simp_all add: ended_service_def endCall_def call_initialize_def
        idle_service_def new_call_service_def createWebrtcClient_def)
  obtain ok x es where h: "handleStanza ?toInt ?d (ext ended_service) = (ok, x, es)" by (cases "handleStanza ?toInt ?d (ext ended_service)")
  have "case handleStanza ?toInt ?d (ext ended_service) of (ok, x, es) \<Rightarrow>
      list_ex is_candidate es" by code_simp
  then have "\<exists>sdp mid k. Emit (ExchangeIceCandidateReceived sdp mid k) \<in> set es"
    by (simp add: h candidate_iff)
  then show ?thesis using candidate_without_client [OF a(1) h] a(2) by blast
qed

lemma prepareMedia_quiet:
  assumes "prepareMedia env v s = (ok, es, t)"
  shows "Wire w \<notin> set es" "ext t = ext s" "recipientId t = recipientId s"
    and "\<not> ok \<longrightarrow> (\<exists>why. SignalingFailed why \<in> set es)"
proof -
  obtain fs u where u: "ensure_rtc s = (fs, u)" by fastforce
  have "Wire w \<notin> set fs \<and> ext u = ext s \<and> recipientId u = recipientId s"
    using u by (auto simp: ensure_rtc_def createWebrtcClient_def split: if_splits)
  moreover have "(ok, es, t) = (if mediaPrepared u then (True, fs @ [RtcCamera v], u)
      else if rtc_initializes env then (True, fs @ [RtcCamera v, RtcInitialize], u\<lparr>mediaPrepared := True\<rparr>)
      else (False, fs @ [RtcCamera v, RtcInitialize, RtcCamera False, RtcDestroyed,
              SignalingFailed ''Cannot initialize WebRTC for the call''], u\<lparr>has_rtc := False\<rparr>))"
    using assms by (simp add: prepareMedia_def u Let_def split: if_splits)
  ultimately show "Wire w \<notin> set es" "ext t = ext s" "recipientId t = recipientId s"
    "\<not> ok \<longrightarrow> (\<exists>why. SignalingFailed why \<in> set es)"
    by (auto split: if_splits)
qed

text \<open>
  A call is proposed only while connected, to one well-formed bare address that is not the
  user's own, with prepared media; in every other case nothing is sent and no call starts.
\<close>

theorem proposal_checked:
  assumes "startCall env r video s = (fs, t)" and "call_wf s"
  shows "if \<exists>m. Wire (Send_message m) \<in> set fs
    then online s \<and> attached s \<and> jid_pattern (recipient_of env r) \<and> recipient_of env r \<noteq> own_bare env
      \<and> {m. Wire (Send_message m) \<in> set fs} = {propose (recipient_of env r) ([Audio] @ (if video then [Video] else [])) (new_uuid env)}
      \<and> callStarted t \<and> mediaPrepared t \<and> recipientId t = recipient_of env r \<and> proposalId (ext t) = new_uuid env
    else (\<exists>why. SignalingFailed why \<in> set fs) \<and> ext t = ext s"
proof (cases "client_of s = Some True \<and> jid_pattern (recipient_of env r) \<and> recipient_of env r \<noteq> own_bare env")
  case False
  then have "(\<exists>why. fs = [SignalingFailed why]) \<and> t = s"
    using assms(1) by (auto simp: startCall_def Let_def split: if_splits)
  then show ?thesis by (elim conjE exE) simp
next
  case True
  let ?u = "s\<lparr>recipientId := recipient_of env r, videoCall := video\<rparr>"
  obtain ok e2 v where v: "prepareMedia env video ?u = (ok, e2, v)" by (cases "prepareMedia env video ?u")
  have e2: "Wire w \<notin> set e2" "ext v = ext s" "recipientId v = recipient_of env r" "\<not> ok \<longrightarrow> (\<exists>why. SignalingFailed why \<in> set e2)" for w
    using prepareMedia_quiet [OF v] by simp_all
  obtain x sent where p: "ext_propose (new_uuid env) (recipient_of env r) video (ext v) = (x, sent)" by fastforce
  then have sent: "sent = [Send_message (propose (recipient_of env r) ([Audio] @ (if video then [Video] else [])) (new_uuid env))]"
    "proposalId x = new_uuid env" by (auto simp: ext_propose_def)
  have run: "(fs, t) = (if ok then (CallStateChanged Calling # e2 @ [RtcCameraTrack] @ map Wire sent, v\<lparr>callStarted := True, ext := x\<rparr>)
      else (CallStateChanged Calling # e2, v))"
    using assms(1) True v p by (cases ok) (simp_all add: startCall_def Let_def)
  note known = True
  have on: "online s" "attached s" using True by (auto simp: client_of_def split: if_splits)
  show ?thesis
  proof (cases ok)
    case True
    then have one: "{m. Wire (Send_message m) \<in> set fs} = {propose (recipient_of env r) ([Audio] @ (if video then [Video] else [])) (new_uuid env)}"
      using run sent(1) e2(1) by auto
    then have some: "\<exists>m. Wire (Send_message m) \<in> set fs" by blast
    have t: "t = v\<lparr>callStarted := True, ext := x\<rparr>" "mediaPrepared v" using True run prepareMedia_keeps [OF v] by simp_all
    show ?thesis unfolding if_P [OF some] one using t sent(2) e2(3) on known by simp
  next
    case False
    then have "fs = CallStateChanged Calling # e2" "t = v" using run by simp_all
    then have none: "\<not> (\<exists>m. Wire (Send_message m) \<in> set fs)" "\<exists>why. SignalingFailed why \<in> set fs" "ext t = ext s"
      using e2 False by auto
    show ?thesis unfolding if_not_P [OF none(1)] using none by blast
  qed
qed

theorem proposal_checked_witness:
  "case startCall sample_call_env ''bob'' False (call_initialize fresh_extension True idle_service) of
     (fs, t) \<Rightarrow> {m. Wire (Send_message m) \<in> set fs} = {propose ''bob@h'' [Audio] ''u1''} \<and> callStarted t"
proof -
  let ?s = "call_initialize fresh_extension True idle_service"
  obtain fs t where r: "startCall sample_call_env ''bob'' False ?s = (fs, t)" by fastforce
  have w: "call_wf ?s" by (simp add: call_wf_def call_initialize_def idle_service_def new_call_service_def createWebrtcClient_def)
  have "case startCall sample_call_env ''bob'' False ?s of (fs, t) \<Rightarrow>
      list_ex is_message fs" by code_simp
  then have "\<exists>m. Wire (Send_message m) \<in> set fs" by (simp add: r message_iff)
  moreover have "recipient_of sample_call_env ''bob'' = ''bob@h''" "new_uuid sample_call_env = ''u1''" by code_simp+
  ultimately show ?thesis using proposal_checked [OF r w] r by simp
qed

end
