(* ===== verification/Call_View.thy ===== *)
theory Call_View
  imports Call_Flow
begin

text \<open>
  \<open>CallVM\<close> (features/voip/presentation/viewmodel/call_vm.cpp), the view of a call: it asks for the
  permissions, starts and answers calls, and holds the frames on show. Its calls go through
  \<open>CallUseCase\<close> and \<open>CallRepositoryImpl\<close>, which only forward them, to the service.
\<close>

section \<open>State and effects\<close>

datatype permission_status = Granted | Denied | Undetermined

record permissions =
  microphone :: permission_status
  camera :: permission_status

datatype call_command =
    CmdStart string bool
  | CmdPrepare
  | CmdAccept
  | CmdEnd
  | CmdReject
  | CmdAudioInput string
  | CmdAudioOutput string
  | CmdCamera string

text \<open>What a permission is asked for: the closures handed to \<open>withCallPermissions\<close>.\<close>

datatype call_action = ActStart string bool | ActPrepare | ActAccept

datatype permission_kind = Microphone | Camera

record permission_request =
  rq_kind :: permission_kind
  rq_number :: "64 word"
  rq_video :: bool
  rq_action :: call_action

datatype view_state =
  ViewIdle | ViewCalling | ViewRinging | ViewConnected | ViewReconnect | ViewReject | ViewHandUp | ViewExchange

datatype view_effect =
    CallFailed string
  | Do call_command
  | CallWindowRequested string string
  | ProposeShown string bool
  | SessionEndShown
  | AskPermission permission_kind
  | ConnectionStateNotified
  | CallStateNotified
  | LocalFrameNotified
  | RemoteFrameNotified
  | LocalSinkNotified
  | RemoteSinkNotified
  | SinkFrame nat string

text \<open>A frame is its content, the invalid frame the empty one; a sink is a number. The requests that
  the system has not answered yet are kept by the application object.\<close>

record call_vm =
  localFrame :: string
  localSink :: "nat option"
  remoteFrame :: string
  remoteSink :: "nat option"
  acceptRemoteVideo :: bool
  incomingVideo :: bool
  permissionRequest :: "64 word"
  receiverId :: string
  peerName :: string
  connectionState :: string
  currentCallState :: view_state
  asked :: "permission_request list"

definition new_call_vm :: call_vm where
  "new_call_vm = \<lparr>localFrame = [], localSink = None, remoteFrame = [], remoteSink = None, acceptRemoteVideo = False,
     incomingVideo = False, permissionRequest = 0, receiverId = [], peerName = [], connectionState = [],
     currentCallState = ViewIdle, asked = []\<rparr>"

section \<open>Permissions\<close>

fun run_action :: "call_action \<Rightarrow> call_vm \<Rightarrow> view_effect list \<times> call_vm" where
  "run_action (ActStart r video) v = ([Do (CmdStart r video)], v\<lparr>acceptRemoteVideo := True\<rparr>)"
| "run_action ActPrepare v = ([Do CmdPrepare], v\<lparr>acceptRemoteVideo := True\<rparr>)"
| "run_action ActAccept v = ([Do CmdAccept], v\<lparr>acceptRemoteVideo := True\<rparr>)"

definition ask :: "permission_kind \<Rightarrow> bool \<Rightarrow> call_action \<Rightarrow> call_vm \<Rightarrow> view_effect list \<times> call_vm" where
  "ask kind video act v =
     ([AskPermission kind],
      v\<lparr>asked := asked v @ [\<lparr>rq_kind = kind, rq_number = permissionRequest v, rq_video = video, rq_action = act\<rparr>]\<rparr>)"

text \<open>What \<open>withCallPermissions\<close> does once the microphone is granted.\<close>

definition camera_next :: "permissions \<Rightarrow> bool \<Rightarrow> call_action \<Rightarrow> call_vm \<Rightarrow> view_effect list \<times> call_vm" where
  "camera_next p video act v =
     (if \<not> video then run_action act v
      else case camera p of
             Granted \<Rightarrow> run_action act v
           | Denied \<Rightarrow> ([CallFailed ''Camera access is denied. Allow camera access in system settings to make video calls.''], v)
           | Undetermined \<Rightarrow> ask Camera video act v)"

definition withCallPermissions :: "permissions \<Rightarrow> bool \<Rightarrow> call_action \<Rightarrow> call_vm \<Rightarrow> view_effect list \<times> call_vm" where
  "withCallPermissions p video act v =
     (let v = v\<lparr>permissionRequest := permissionRequest v + 1\<rparr>
      in case microphone p of
           Granted \<Rightarrow> camera_next p video act v
         | Denied \<Rightarrow> ([CallFailed ''Microphone access is denied. Allow microphone access in system settings to make calls.''], v)
         | Undetermined \<Rightarrow> ask Microphone video act v)"

text \<open>The answer to the \<open>k\<close>-th open request, given when the permissions are \<open>p\<close>.\<close>

definition forget :: "nat \<Rightarrow> call_vm \<Rightarrow> call_vm" where
  "forget k v = v\<lparr>asked := take k (asked v) @ drop (Suc k) (asked v)\<rparr>"

definition permission_answered :: "permissions \<Rightarrow> nat \<Rightarrow> bool \<Rightarrow> call_vm \<Rightarrow> view_effect list \<times> call_vm" where
  "permission_answered p k granted v =
     (if length (asked v) \<le> k then ([], v)
      else
        (let r = asked v ! k; v = forget k v
         in if rq_number r \<noteq> permissionRequest v then ([], v)
            else case rq_kind r of
                   Microphone \<Rightarrow>
                     (if granted then camera_next p (rq_video r) (rq_action r) v
                      else ([CallFailed ''Microphone access is required for calls.''], v))
                 | Camera \<Rightarrow>
                     (if granted then run_action (rq_action r) v
                      else ([CallFailed ''Camera access is required for video calls.''], v))))"

section \<open>Operations\<close>

definition setConnectionState :: "string \<Rightarrow> call_vm \<Rightarrow> view_effect list \<times> call_vm" where
  "setConnectionState st v =
     (if st = connectionState v then ([], v) else ([ConnectionStateNotified], v\<lparr>connectionState := st\<rparr>))"

definition setCallState :: "view_state \<Rightarrow> call_vm \<Rightarrow> view_effect list \<times> call_vm" where
  "setCallState st v =
     (if st = currentCallState v then ([], v) else ([CallStateNotified], v\<lparr>currentCallState := st\<rparr>))"

definition view_startCall :: "permissions \<Rightarrow> bool \<Rightarrow> call_vm \<Rightarrow> view_effect list \<times> call_vm" where
  "view_startCall p video v =
     (if blank (receiverId v) then ([CallFailed ''Cannot start call: no recipient or call service''], v)
      else withCallPermissions p video (ActStart (receiverId v) video) v)"

definition requestCall :: "permissions \<Rightarrow> string \<Rightarrow> string \<Rightarrow> call_vm \<Rightarrow> view_effect list \<times> call_vm" where
  "requestCall p receiver name v =
     (if blank receiver then ([], v)
      else
        (let v = v\<lparr>permissionRequest := permissionRequest v + 1, receiverId := receiver, peerName := name\<rparr>;
             (es, v) = withCallPermissions p True ActPrepare v
         in (CallWindowRequested receiver name # es, v)))"

definition declineCall :: "call_vm \<Rightarrow> view_effect list \<times> call_vm" where
  "declineCall v = ([Do CmdReject], v\<lparr>permissionRequest := permissionRequest v + 1\<rparr>)"

definition to_sink :: "nat option \<Rightarrow> string \<Rightarrow> view_effect list" where
  "to_sink sink frame = (case sink of None \<Rightarrow> [] | Some n \<Rightarrow> [SinkFrame n frame])"

definition view_reset :: "call_vm \<Rightarrow> view_effect list \<times> call_vm" where
  "view_reset v =
     (to_sink (localSink v) [] @ [LocalFrameNotified] @ to_sink (remoteSink v) [] @ [RemoteFrameNotified, Do CmdEnd]
        @ (if connectionState v \<noteq> [] then [ConnectionStateNotified] else []),
      v\<lparr>acceptRemoteVideo := False, localFrame := [], remoteFrame := [], permissionRequest := permissionRequest v + 1,
        connectionState := [], incomingVideo := False, receiverId := [], peerName := []\<rparr>)"

definition view_accept :: "permissions \<Rightarrow> call_vm \<Rightarrow> view_effect list \<times> call_vm" where
  "view_accept p v = withCallPermissions p (incomingVideo v) ActAccept v"

definition view_endCall :: "call_vm \<Rightarrow> view_effect list \<times> call_vm" where
  "view_endCall v = setConnectionState [] (v\<lparr>connectionState := []\<rparr>)"

definition setLocalSink :: "nat option \<Rightarrow> call_vm \<Rightarrow> view_effect list \<times> call_vm" where
  "setLocalSink sink v =
     (if localSink v = sink then ([], v)
      else (to_sink (localSink v) [] @ to_sink sink (localFrame v) @ [LocalSinkNotified], v\<lparr>localSink := sink\<rparr>))"

definition setRemoteSink :: "nat option \<Rightarrow> call_vm \<Rightarrow> view_effect list \<times> call_vm" where
  "setRemoteSink sink v =
     (if remoteSink v = sink then ([], v)
      else (to_sink (remoteSink v) [] @ to_sink sink (remoteFrame v) @ [RemoteSinkNotified], v\<lparr>remoteSink := sink\<rparr>))"

section \<open>Signals of the use case\<close>

definition on_local_frame :: "string \<Rightarrow> call_vm \<Rightarrow> view_effect list \<times> call_vm" where
  "on_local_frame f v =
     (if acceptRemoteVideo v then (to_sink (localSink v) f @ [LocalFrameNotified], v\<lparr>localFrame := f\<rparr>) else ([], v))"

definition on_remote_frame :: "string \<Rightarrow> call_vm \<Rightarrow> view_effect list \<times> call_vm" where
  "on_remote_frame f v =
     (if acceptRemoteVideo v then (to_sink (remoteSink v) f @ [RemoteFrameNotified], v\<lparr>remoteFrame := f\<rparr>) else ([], v))"

definition on_proposal :: "string \<Rightarrow> bool \<Rightarrow> call_vm \<Rightarrow> view_effect list \<times> call_vm" where
  "on_proposal sender video v = ([Do CmdPrepare, ProposeShown sender video], v\<lparr>incomingVideo := video\<rparr>)"

fun call_state_text :: "CallState \<Rightarrow> string" where
  "call_state_text Calling = ''Calling''"
| "call_state_text CallRinging = ''Ringing''"
| "call_state_text Connected = ''Connected''"
| "call_state_text Reconnect = ''Reconnect''"
| "call_state_text CallReject = ''Reject''"
| "call_state_text HandUp = ''Hand up''"
| "call_state_text Exchange = ''Exchange''"

definition on_call_state :: "CallState \<Rightarrow> call_vm \<Rightarrow> view_effect list \<times> call_vm" where
  "on_call_state c v =
     (let (es, v) = (if c = CallRinging then setCallState ViewRinging v else ([], v));
          (fs, v) = setConnectionState (call_state_text c) v
      in (es @ fs, v))"

text \<open>What reaches the view, in any order.\<close>

datatype view_input =
    StartPressed permissions bool
  | CallRequested permissions string string
  | Declined
  | Reset
  | Accepted permissions
  | EndPressed
  | Answered permissions nat bool
  | LocalFrame string
  | RemoteFrame string
  | LocalSink "nat option"
  | RemoteSink "nat option"
  | SignalFailed string
  | Proposed string bool
  | Terminated
  | StateReported CallState
  | CallStateWritten view_state
  | ConnectionStateWritten string
  | AudioInputChanged string
  | AudioOutputChanged string
  | CameraChanged string

fun view_step :: "view_input \<Rightarrow> call_vm \<Rightarrow> view_effect list \<times> call_vm" where
  "view_step (StartPressed p video) v = view_startCall p video v"
| "view_step (CallRequested p r n) v = requestCall p r n v"
| "view_step Declined v = declineCall v"
| "view_step Reset v = view_reset v"
| "view_step (Accepted p) v = view_accept p v"
| "view_step EndPressed v = view_endCall v"
| "view_step (Answered p k g) v = permission_answered p k g v"
| "view_step (LocalFrame f) v = on_local_frame f v"
| "view_step (RemoteFrame f) v = on_remote_frame f v"
| "view_step (LocalSink s) v = setLocalSink s v"
| "view_step (RemoteSink s) v = setRemoteSink s v"
| "view_step (SignalFailed why) v = ([CallFailed why], v)"
| "view_step (Proposed from video) v = on_proposal from video v"
| "view_step Terminated v = ([SessionEndShown], v)"
| "view_step (StateReported c) v = on_call_state c v"
| "view_step (CallStateWritten st) v = setCallState st v"
| "view_step (ConnectionStateWritten st) v = setConnectionState st v"
| "view_step (AudioInputChanged d) v = ([Do (CmdAudioInput d)], v)"
| "view_step (AudioOutputChanged d) v = ([Do (CmdAudioOutput d)], v)"
| "view_step (CameraChanged d) v = ([Do (CmdCamera d)], v)"

text \<open>The permissions the system reports as granted at a step.\<close>

definition told :: "permissions \<Rightarrow> permission_kind set" where
  "told p = (if microphone p = Granted then {Microphone} else {}) \<union> (if camera p = Granted then {Camera} else {})"

fun grants :: "view_input \<Rightarrow> call_vm \<Rightarrow> permission_kind set" where
  "grants (StartPressed p video) v = told p"
| "grants (CallRequested p r n) v = told p"
| "grants (Accepted p) v = told p"
| "grants (Answered p k g) v = told p \<union> (if g \<and> k < length (asked v) then {rq_kind (asked v ! k)} else {})"
| "grants _ v = {}"

text \<open>The states reachable by some inputs, with the permissions granted on the way.\<close>

inductive view_run :: "permission_kind set \<Rightarrow> view_input list \<Rightarrow> call_vm \<Rightarrow> bool" where
  fresh: "view_run {} [] new_call_vm"
| more: "view_run G is v \<Longrightarrow> view_step i v = (es, w) \<Longrightarrow> view_run (G \<union> grants i v) (is @ [i]) w"

fun view_steps :: "view_input list \<Rightarrow> call_vm \<Rightarrow> view_effect list \<times> call_vm" where
  "view_steps [] v = ([], v)"
| "view_steps (i # is) v = (let (es, v) = view_step i v; (fs, v) = view_steps is v in (es @ fs, v))"

section \<open>Numbers of requests\<close>

text \<open>
  The number grows with every request; with fewer than \<open>2 ^ 64\<close> of them it tells requests apart.
  A request is live when it has the current number.
\<close>

definition silent :: "call_vm \<Rightarrow> bool" where
  "silent v \<longleftrightarrow> (\<forall>r \<in> set (asked v). rq_number r \<noteq> permissionRequest v)"

definition live :: "call_vm \<Rightarrow> permission_request list" where
  "live v = filter (\<lambda>r. rq_number r = permissionRequest v) (asked v)"

definition numbered :: "nat \<Rightarrow> call_vm \<Rightarrow> bool" where
  "numbered n v \<longleftrightarrow> permissionRequest v = of_nat n \<and> n < 2 ^ 64
     \<and> (\<forall>r \<in> set (asked v). \<exists>k \<le> n. rq_number r = of_nat k) \<and> length (live v) \<le> 1"

lemma silent_live: "silent v \<longleftrightarrow> live v = []"
  by (auto simp: silent_def live_def filter_empty_conv)

lemma number_differs: "k \<le> n \<Longrightarrow> Suc n < 2 ^ 64 \<Longrightarrow> (of_nat k :: 64 word) \<noteq> of_nat (Suc n)"
  by (simp add: word_of_nat_eq_iff take_bit_nat_eq_self del: of_nat_Suc)

lemma bump_numbered:
  assumes "numbered n v" and "Suc n < 2 ^ 64"
    and "asked w = asked v" and "permissionRequest w = permissionRequest v + 1"
  shows "numbered (Suc n) w \<and> silent w"
proof -
  have p: "permissionRequest w = of_nat (Suc n)" using assms by (simp add: numbered_def)
  have "silent w"
    unfolding silent_def p assms(3) using assms(1,2) number_differs by (fastforce simp: numbered_def)
  then show ?thesis using assms p by (auto simp: numbered_def silent_live intro: le_SucI)
qed

lemma numbered_same: "numbered n v \<Longrightarrow> asked w = asked v \<Longrightarrow> permissionRequest w = permissionRequest v \<Longrightarrow> numbered n w"
  by (auto simp: numbered_def live_def)

lemma own_number: "\<exists>k \<le> n. (of_nat n :: 64 word) = of_nat k"
  by blast

lemma ask_numbered:
  "numbered n v \<Longrightarrow> silent v \<Longrightarrow> ask kind video act v = (es, w) \<Longrightarrow> numbered n w"
  by (auto simp: numbered_def ask_def silent_live live_def own_number)

lemma action_asked: "run_action act v = (es, w) \<Longrightarrow> asked w = asked v \<and> permissionRequest w = permissionRequest v"
  by (cases act) auto

lemma camera_numbered:
  assumes "numbered n v" and "silent v" and "camera_next p video act v = (es, w)"
  shows "numbered n w"
proof (cases "\<exists>fs. run_action act v = (fs, w)")
  case True
  then show ?thesis using numbered_same [OF assms(1)] action_asked by blast
next
  case False
  then have "w = v \<or> ask Camera video act v = (es, w)"
    using assms(3) by (auto simp: camera_next_def split: if_splits permission_status.splits)
  then show ?thesis using ask_numbered [OF assms(1,2)] assms(1) by blast
qed

lemma permissions_numbered:
  assumes "numbered n v" and "Suc n < 2 ^ 64" and "withCallPermissions p video act v = (es, w)"
  shows "numbered (Suc n) w"
proof -
  let ?u = "v\<lparr>permissionRequest := permissionRequest v + 1\<rparr>"
  have u: "numbered (Suc n) ?u" "silent ?u" using bump_numbered [OF assms(1,2), of ?u] by simp_all
  have "camera_next p video act ?u = (es, w) \<or> w = ?u \<or> ask Microphone video act ?u = (es, w)"
    using assms(3) by (auto simp: withCallPermissions_def Let_def split: permission_status.splits)
  then show ?thesis using camera_numbered [OF u] ask_numbered [OF u] u(1) by blast
qed

lemma forget_numbered:
  assumes "numbered n v" and "k < length (asked v)"
  shows "numbered n (forget k v) \<and> (rq_number (asked v ! k) = permissionRequest v \<longrightarrow> silent (forget k v))"
proof -
  have s: "asked v = take k (asked v) @ asked v ! k # drop (Suc k) (asked v)" using assms(2) by (rule id_take_nth_drop)
  let ?live = "\<lambda>rs. filter (\<lambda>r. rq_number r = permissionRequest v) rs"
  have l: "live v = ?live (take k (asked v)) @ ?live [asked v ! k] @ ?live (drop (Suc k) (asked v))"
    unfolding live_def by (subst s) simp
  have f: "live (forget k v) = ?live (take k (asked v)) @ ?live (drop (Suc k) (asked v))"
    by (simp add: live_def forget_def)
  have "set (asked (forget k v)) \<subseteq> set (asked v)"
    using set_take_subset set_drop_subset by (fastforce simp: forget_def)
  moreover have "length (live v) \<le> 1" using assms(1) by (simp add: numbered_def)
  ultimately show ?thesis
    using assms(1) l f by (auto simp: numbered_def silent_live forget_def split: if_splits)
qed

lemma answered_numbered:
  assumes "numbered n v" and "permission_answered p k g v = (es, w)"
  shows "numbered n w"
proof (cases "k < length (asked v) \<and> rq_number (asked v ! k) = permissionRequest v")
  case True
  have f: "numbered n (forget k v)" "silent (forget k v)" using forget_numbered [OF assms(1)] True by simp_all
  let ?r = "asked v ! k"
  have "camera_next p (rq_video ?r) (rq_action ?r) (forget k v) = (es, w) \<or> w = forget k v
      \<or> run_action (rq_action ?r) (forget k v) = (es, w)"
    using assms(2) True by (auto simp: permission_answered_def Let_def forget_def split: if_splits permission_kind.splits)
  then show ?thesis using camera_numbered [OF f] f(1) numbered_same [OF f(1)] action_asked by blast
next
  case False
  then have "w = v \<or> k < length (asked v) \<and> w = forget k v"
    using assms(2) by (auto simp: permission_answered_def Let_def forget_def split: if_splits)
  then show ?thesis using assms(1) forget_numbered by blast
qed

lemma numbered_up: "numbered m w \<Longrightarrow> n \<le> m \<Longrightarrow> m \<le> n + 2 \<Longrightarrow> \<exists>m \<le> n + 2. n \<le> m \<and> numbered m w"
  by blast

lemma step_numbered:
  assumes n: "numbered n v" and b: "n + 2 < 2 ^ 64" and st: "view_step i v = (es, w)"
  shows "\<exists>m \<le> n + 2. n \<le> m \<and> numbered m w"
proof (cases i)
  case (StartPressed p video)
  then have "w = v \<or> withCallPermissions p video (ActStart (receiverId v) video) v = (es, w)"
    using st by (auto simp: view_startCall_def split: if_splits)
  then have "numbered n w \<or> numbered (Suc n) w" using permissions_numbered [OF n] n b by auto
  then show ?thesis using numbered_up [of n w n] numbered_up [of "Suc n" w n] by auto
next
  case (CallRequested p r name)
  let ?u = "v\<lparr>permissionRequest := permissionRequest v + 1, receiverId := r, peerName := name\<rparr>"
  have u: "numbered (Suc n) ?u" using bump_numbered [OF n, of ?u] b by simp
  obtain fs x where x: "withCallPermissions p True ActPrepare ?u = (fs, x)" by fastforce
  have "numbered (Suc (Suc n)) x" using permissions_numbered [OF u _ x] b by simp
  moreover have "w = v \<or> w = x" using st CallRequested x by (auto simp: requestCall_def Let_def split: if_splits)
  ultimately show ?thesis using n numbered_up [of n w n] numbered_up [of "Suc (Suc n)" w n] by auto
next
  case Declined
  then have "numbered (Suc n) w" using bump_numbered [OF n, of w] b st by (auto simp: declineCall_def)
  then show ?thesis using numbered_up [of "Suc n" w n] by simp
next
  case Reset
  then have "numbered (Suc n) w" using bump_numbered [OF n, of w] b st by (auto simp: view_reset_def)
  then show ?thesis using numbered_up [of "Suc n" w n] by simp
next
  case (Accepted p)
  then have "numbered (Suc n) w" using permissions_numbered [OF n] st b by (simp add: view_accept_def)
  then show ?thesis using numbered_up [of "Suc n" w n] by simp
next
  case (Answered p k g)
  then show ?thesis using answered_numbered [OF n] st numbered_up [of n w n] by simp
next
  case (StateReported c)
  then have "numbered n w" using st numbered_same [OF n, of w]
    by (auto simp: on_call_state_def setCallState_def setConnectionState_def split: if_splits)
  then show ?thesis using numbered_up [of n w n] by simp
qed (use st numbered_same [OF n, of w] in \<open>auto simp: view_endCall_def setConnectionState_def setCallState_def on_local_frame_def
      on_remote_frame_def setLocalSink_def setRemoteSink_def on_proposal_def split: if_splits intro: exI [of _ n]\<close>)

lemma run_numbered:
  "view_run G is v \<Longrightarrow> 2 * length is < 2 ^ 64 \<Longrightarrow> \<exists>n \<le> 2 * length is. numbered n v"
proof (induction rule: view_run.induct)
  case fresh
  show ?case by (simp add: numbered_def new_call_vm_def live_def)
next
  case (more G "is" v i es w)
  then obtain n where n: "n \<le> 2 * length is" "numbered n v" by auto
  moreover have "n + 2 < 2 ^ 64" using more.prems n(1) by simp
  ultimately obtain m where "m \<le> n + 2" "numbered m w" using step_numbered [OF n(2) _ more.hyps(2)] by blast
  then show ?case using n(1) by (intro exI [of _ m]) simp
qed

section \<open>Late answers and late frames\<close>

text \<open>What may still arrive for a call that was ended (or, for answers only, declined).\<close>

fun late :: "bool \<Rightarrow> view_input \<Rightarrow> bool" where
  "late ended (Answered p k g) \<longleftrightarrow> True"
| "late ended (LocalFrame f) \<longleftrightarrow> ended"
| "late ended (RemoteFrame f) \<longleftrightarrow> ended"
| "late ended _ \<longleftrightarrow> False"

lemma forget_silent: "silent v \<Longrightarrow> silent (forget k v)"
  using set_take_subset set_drop_subset by (fastforce simp: silent_def forget_def)

lemma late_step:
  assumes "silent v" and "ended \<longrightarrow> \<not> acceptRemoteVideo v" and "late ended i"
  shows "\<exists>w. view_step i v = ([], w) \<and> silent w \<and> acceptRemoteVideo w = acceptRemoteVideo v
    \<and> localFrame w = localFrame v \<and> remoteFrame w = remoteFrame v"
proof (cases i)
  case (Answered p k g)
  have "permission_answered p k g v = ([], if length (asked v) \<le> k then v else forget k v)"
    using assms(1) by (auto simp: permission_answered_def silent_def forget_def)
  then show ?thesis using Answered assms(1) forget_silent by (simp add: forget_def)
qed (use assms in \<open>auto simp: on_local_frame_def on_remote_frame_def\<close>)

lemma late_steps:
  "silent v \<Longrightarrow> (ended \<longrightarrow> \<not> acceptRemoteVideo v) \<Longrightarrow> list_all (late ended) is \<Longrightarrow>
    \<exists>w. view_steps is v = ([], w) \<and> localFrame w = localFrame v \<and> remoteFrame w = remoteFrame v"
proof (induction "is" arbitrary: v)
  case (Cons i "is")
  from late_step [OF Cons.prems(1,2), of i] Cons.prems(3) obtain u where
    u: "view_step i v = ([], u)" "silent u" "acceptRemoteVideo u = acceptRemoteVideo v" "localFrame u = localFrame v"
      "remoteFrame u = remoteFrame v" by auto
  then show ?case using Cons.IH [of u] Cons.prems by auto
qed simp

section \<open>Grants\<close>

text \<open>A camera is asked for after the microphone was granted, and an action waits for what it needs.\<close>

definition asked_ok :: "permission_kind set \<Rightarrow> call_vm \<Rightarrow> bool" where
  "asked_ok G v \<longleftrightarrow> (\<forall>r \<in> set (asked v). (rq_kind r = Camera \<longrightarrow> Microphone \<in> G)
     \<and> (\<forall>x video. rq_action r = ActStart x video \<longrightarrow> rq_video r = video) \<and> (rq_action r = ActPrepare \<longrightarrow> rq_video r))"

definition may :: "permission_kind set \<Rightarrow> bool \<Rightarrow> view_effect list \<Rightarrow> bool" where
  "may G proposal es \<longleftrightarrow> (\<forall>r video. Do (CmdStart r video) \<in> set es \<longrightarrow> Microphone \<in> G \<and> (video \<longrightarrow> Camera \<in> G))
     \<and> (Do CmdAccept \<in> set es \<longrightarrow> Microphone \<in> G) \<and> (Do CmdPrepare \<in> set es \<longrightarrow> proposal \<or> Microphone \<in> G \<and> Camera \<in> G)"

definition action_ok :: "call_action \<Rightarrow> bool \<Rightarrow> bool" where
  "action_ok act video \<longleftrightarrow> (\<forall>x w. act = ActStart x w \<longrightarrow> w = video) \<and> (act = ActPrepare \<longrightarrow> video)"

lemma run_action_may:
  "run_action act v = (es, w) \<Longrightarrow> action_ok act video \<Longrightarrow> Microphone \<in> G \<Longrightarrow> (video \<longrightarrow> Camera \<in> G) \<Longrightarrow> may G b es"
  by (cases act) (auto simp: may_def action_ok_def)

lemma camera_next_may:
  assumes "camera_next p video act v = (es, w)" and "asked_ok G v" and "action_ok act video"
    and "Microphone \<in> G" and "told p \<subseteq> G"
  shows "asked_ok G w \<and> may G b es"
proof -
  consider (go) "run_action act v = (es, w)" "video \<longrightarrow> Camera \<in> G" | (no) "w = v" "may G b es" | (wait) "ask Camera video act v = (es, w)" video
    using assms by (auto simp: camera_next_def told_def may_def split: if_splits permission_status.splits)
  then show ?thesis
  proof cases
    case go
    then show ?thesis using run_action_may [OF go(1) assms(3)] assms action_asked [OF go(1)] by (simp add: asked_ok_def)
  next
    case wait
    then show ?thesis using assms by (cases act) (auto simp: ask_def asked_ok_def may_def action_ok_def)
  qed (use assms in simp)
qed

lemma permissions_may:
  assumes "withCallPermissions p video act v = (es, w)" and "asked_ok G v" and "action_ok act video" and "told p \<subseteq> G"
  shows "asked_ok G w \<and> may G b es"
proof -
  let ?u = "v\<lparr>permissionRequest := permissionRequest v + 1\<rparr>"
  have u: "asked_ok G ?u" using assms(2) by (simp add: asked_ok_def)
  consider (go) "camera_next p video act ?u = (es, w)" "Microphone \<in> G" | (no) "w = ?u" "may G b es"
    | (wait) "ask Microphone video act ?u = (es, w)"
    using assms by (auto simp: withCallPermissions_def Let_def told_def may_def split: permission_status.splits)
  then show ?thesis
  proof cases
    case go
    then show ?thesis using camera_next_may [OF go(1) u assms(3) go(2) assms(4)] by blast
  next
    case wait
    then show ?thesis using u assms by (cases act) (auto simp: ask_def asked_ok_def may_def action_ok_def)
  qed (use u in simp)
qed

lemma answered_may:
  assumes "permission_answered p k g v = (es, w)" and "asked_ok G v" and "grants (Answered p k g) v \<subseteq> G"
  shows "asked_ok G w \<and> may G b es"
proof (cases "k < length (asked v) \<and> rq_number (asked v ! k) = permissionRequest v \<and> g")
  case True
  let ?r = "asked v ! k"
  have r: "?r \<in> set (asked v)" using True by simp
  have "set (asked (forget k v)) \<subseteq> set (asked v)"
    using set_take_subset set_drop_subset by (fastforce simp: forget_def)
  then have f: "asked_ok G (forget k v)" using assms(2) by (auto simp: asked_ok_def)
  have act: "action_ok (rq_action ?r) (rq_video ?r)" using assms(2) r by (auto simp: asked_ok_def action_ok_def)
  show ?thesis
  proof (cases "rq_kind ?r")
    case Microphone
    then have "camera_next p (rq_video ?r) (rq_action ?r) (forget k v) = (es, w)"
      using assms(1) True by (simp add: permission_answered_def Let_def forget_def)
    then show ?thesis using camera_next_may [OF _ f act] assms(3) True Microphone by (auto simp: told_def)
  next
    case Camera
    then have run: "run_action (rq_action ?r) (forget k v) = (es, w)"
      using assms(1) True by (simp add: permission_answered_def Let_def forget_def)
    have "Microphone \<in> G" "Camera \<in> G" using assms(2,3) r Camera True by (auto simp: asked_ok_def)
    then show ?thesis using run_action_may [OF run act] action_asked [OF run] f by (simp add: asked_ok_def)
  qed
next
  case False
  have "asked_ok G (forget k v)"
    using assms(2) set_take_subset set_drop_subset by (fastforce simp: asked_ok_def forget_def)
  then show ?thesis
    using assms(1,2) False by (auto simp: permission_answered_def Let_def forget_def may_def split: if_splits permission_kind.splits)
qed

lemma asked_ok_mono: "asked_ok G v \<Longrightarrow> G \<subseteq> H \<Longrightarrow> asked_ok H v"
  by (auto simp: asked_ok_def)

fun is_proposal :: "view_input \<Rightarrow> bool" where
  "is_proposal (Proposed from video) = True"
| "is_proposal _ = False"

lemma may_none: "(\<forall>c. Do c \<notin> set es) \<Longrightarrow> may G b es"
  by (simp add: may_def)

lemma no_commands:
  "\<forall>c. Do c \<notin> set (to_sink s f)"
  by (simp add: to_sink_def split: option.splits)

lemma asked_ok_same: "asked_ok G v \<Longrightarrow> asked w = asked v \<Longrightarrow> asked_ok G w"
  by (simp add: asked_ok_def)

lemma step_may:
  assumes st: "view_step i v = (es, w)" and ok: "asked_ok G v"
  shows "asked_ok (G \<union> grants i v) w \<and> may (G \<union> grants i v) (is_proposal i) es"
proof -
  let ?G = "G \<union> grants i v"
  have k: "asked_ok ?G v" using ok by (rule asked_ok_mono) simp
  show ?thesis
  proof (cases i)
    case (StartPressed p video)
    then have "withCallPermissions p video (ActStart (receiverId v) video) v = (es, w) \<or> w = v \<and> (\<forall>c. Do c \<notin> set es)"
      using st by (auto simp: view_startCall_def split: if_splits)
    then show ?thesis
      using permissions_may [OF _ k, of p video "ActStart (receiverId v) video" es w] may_none k StartPressed
      by (auto simp: action_ok_def)
  next
    case (CallRequested p r name)
    let ?u = "v\<lparr>permissionRequest := permissionRequest v + 1, receiverId := r, peerName := name\<rparr>"
    obtain fs x where x: "withCallPermissions p True ActPrepare ?u = (fs, x)" by fastforce
    have "asked_ok ?G x \<and> may ?G False fs"
      using permissions_may [OF x asked_ok_same [OF k]] CallRequested by (simp add: action_ok_def)
    moreover have "w = v \<and> es = [] \<or> w = x \<and> es = CallWindowRequested r name # fs"
      using st CallRequested x by (auto simp: requestCall_def Let_def split: if_splits)
    ultimately show ?thesis using k CallRequested by (auto simp: may_def)
  next
    case (Accepted p)
    then show ?thesis using permissions_may [OF _ k, of p "incomingVideo v" ActAccept es w] st
      by (simp add: view_accept_def action_ok_def)
  next
    case (Answered p x g)
    then show ?thesis using answered_may [OF _ k, of p x g es w] st by simp
  next
    case (StateReported c)
    then have "asked w = asked v \<and> (\<forall>c. Do c \<notin> set es)"
      using st by (auto simp: on_call_state_def setCallState_def setConnectionState_def split: if_splits)
    then show ?thesis using may_none asked_ok_same [OF k] by simp
  qed (use st k asked_ok_same [OF k, of w] no_commands in \<open>auto simp: may_def declineCall_def view_reset_def view_endCall_def setConnectionState_def
        setCallState_def on_local_frame_def on_remote_frame_def setLocalSink_def setRemoteSink_def on_proposal_def split: if_splits\<close>)
qed

lemma run_asked_ok: "view_run G is v \<Longrightarrow> asked_ok G v"
proof (induction rule: view_run.induct)
  case fresh
  show ?case by (simp add: asked_ok_def new_call_vm_def)
next
  case (more G "is" v i es w)
  then show ?case using step_may by blast
qed

section \<open>What the view does\<close>

fun run_view :: "view_input list \<Rightarrow> permission_kind set \<times> call_vm \<Rightarrow> permission_kind set \<times> call_vm" where
  "run_view [] x = x"
| "run_view (i # is) (G, v) = run_view is (G \<union> grants i v, snd (view_step i v))"

lemma run_view_run: "view_run G is v \<Longrightarrow> run_view js (G, v) = (H, w) \<Longrightarrow> view_run H (is @ js) w"
proof (induction js arbitrary: G "is" v)
  case (Cons j js)
  obtain es u where u: "view_step j v = (es, u)" by fastforce
  from Cons.IH [OF view_run.more [OF Cons.prems(1) u]] Cons.prems(2) u show ?case by simp
qed simp

text \<open>
  C18: the view starts a call only when the system has reported the microphone as granted, and for a
  video call the camera too; it accepts a call only with the microphone granted. It prepares the
  media either with both granted or for any incoming proposal, without asking.
\<close>

theorem calls_need_permission:
  assumes "view_run G is v" and "view_step i v = (es, w)"
  shows "(Do (CmdStart r video) \<in> set es \<longrightarrow> Microphone \<in> G \<union> grants i v \<and> (video \<longrightarrow> Camera \<in> G \<union> grants i v))
    \<and> (Do CmdAccept \<in> set es \<longrightarrow> Microphone \<in> G \<union> grants i v)
    \<and> (Do CmdPrepare \<in> set es \<longrightarrow> is_proposal i \<or> {Microphone, Camera} \<subseteq> G \<union> grants i v)
    \<and> (i = Proposed r video \<longrightarrow> Do CmdPrepare \<in> set es)"
proof -
  have "may (G \<union> grants i v) (is_proposal i) es" using step_may [OF assms(2) run_asked_ok [OF assms(1)]] by blast
  moreover have "i = Proposed r video \<longrightarrow> Do CmdPrepare \<in> set es" using assms(2) by (auto simp: on_proposal_def)
  ultimately show ?thesis by (auto simp: may_def)
qed

definition undecided :: permissions where
  "undecided = \<lparr>microphone = Undetermined, camera = Undetermined\<rparr>"

definition asking_view :: "view_input list" where
  "asking_view = [CallRequested undecided ''bob'' ''Bob'', StartPressed undecided True, Answered undecided 1 True]"

theorem calls_need_permission_witness:
  "case run_view asking_view ({}, new_call_vm) of (G, v) \<Rightarrow>
     (case view_step (Answered undecided 1 True) v of (es, w) \<Rightarrow> es = [Do (CmdStart ''bob'' True)]
        \<and> {Microphone, Camera} \<subseteq> G \<union> grants (Answered undecided 1 True) v)"
proof -
  obtain G v where r: "run_view asking_view ({}, new_call_vm) = (G, v)" by fastforce
  obtain es w where s: "view_step (Answered undecided 1 True) v = (es, w)" by fastforce
  have "case run_view asking_view ({}, new_call_vm) of (G, v) \<Rightarrow>
      fst (view_step (Answered undecided 1 True) v) = [Do (CmdStart ''bob'' True)]" by code_simp
  then have es: "es = [Do (CmdStart ''bob'' True)]" using s unfolding r prod.case by simp
  have "view_run G ([] @ asking_view) v" by (rule run_view_run [OF view_run.fresh r])
  from calls_need_permission [OF this s, of "''bob''" True] es
  have "{Microphone, Camera} \<subseteq> G \<union> grants (Answered undecided 1 True) v" by simp
  then show ?thesis unfolding r prod.case s using es by blast
qed

text \<open>
  After a call was ended or declined, the answers of the system to permissions asked before do
  nothing, in any number and order, and after an end no late video frame is shown: in every history
  of fewer than \<open>2 ^ 63\<close> inputs.
\<close>

theorem late_answers_ignored:
  assumes "view_run G is v" and "2 * length is + 2 < 2 ^ 64"
    and "view_step (if ended then Reset else Declined) v = (es, w)" and "list_all (late ended) js"
  shows "fst (view_steps js w) = [] \<and> (ended \<longrightarrow> localFrame (snd (view_steps js w)) = [] \<and> remoteFrame (snd (view_steps js w)) = [])"
proof -
  obtain n where n: "n \<le> 2 * length is" "numbered n v" using run_numbered [OF assms(1)] assms(2) by auto
  have p: "asked w = asked v" "permissionRequest w = permissionRequest v + 1"
    and e: "ended \<longrightarrow> \<not> acceptRemoteVideo w \<and> localFrame w = [] \<and> remoteFrame w = []"
    using assms(3) by (auto simp: view_reset_def declineCall_def split: if_splits)
  have "silent w" using bump_numbered [OF n(2) _ p] n(1) assms(2) by simp
  from late_steps [OF this _ assms(4)] e show ?thesis by auto
qed

theorem late_answers_ignored_witness:
  "case run_view (butlast asking_view) ({}, new_call_vm) of (G, v) \<Rightarrow>
     fst (view_step (Answered undecided 1 True) v) = [AskPermission Camera]
     \<and> fst (view_steps [Answered undecided 1 True, LocalFrame ''f'', Answered undecided 0 True] (snd (view_step Reset v))) = []"
proof -
  obtain G v where r: "run_view (butlast asking_view) ({}, new_call_vm) = (G, v)" by fastforce
  have "case run_view (butlast asking_view) ({}, new_call_vm) of (G, v) \<Rightarrow>
      fst (view_step (Answered undecided 1 True) v) = [AskPermission Camera]" by code_simp
  then have a: "fst (view_step (Answered undecided 1 True) v) = [AskPermission Camera]" unfolding r prod.case .
  have "view_run G ([] @ butlast asking_view) v" by (rule run_view_run [OF view_run.fresh r])
  from late_answers_ignored [OF this, of True "fst (view_step Reset v)" "snd (view_step Reset v)"
      "[Answered undecided 1 True, LocalFrame ''f'', Answered undecided 0 True]"]
  show ?thesis unfolding r prod.case using a by (simp add: asking_view_def)
qed

end
