(* ===== verification/Call_World.thy ===== *)
theory Call_World
  imports Call_View
begin

text \<open>
  A call as a whole: the view on the user's thread and the service on the thread of the connection.
  \<open>CallUseCase\<close> and \<open>CallRepositoryImpl\<close> (features/voip/domain/usecase/call_use_case.cpp,
  features/voip/data/call_repository_impl.cpp) stand between them: every call becomes an entry of the
  service's event queue and every signal one of the view's, in their order.
\<close>

section \<open>The forwarding\<close>

fun to_input :: "call_env \<Rightarrow> call_command \<Rightarrow> call_input" where
  "to_input env (CmdStart r video) = Start env r video"
| "to_input env CmdPrepare = Prepare env"
| "to_input env CmdAccept = AcceptCall env"
| "to_input env CmdEnd = EndCall"
| "to_input env CmdReject = RejectCall"
| "to_input env (CmdAudioInput d) = AudioInput d"
| "to_input env (CmdAudioOutput d) = AudioOutput d"
| "to_input env (CmdCamera d) = CameraDevice d"

text \<open>The signals that reach the view; the others end in the repository or the use case.\<close>

fun to_signal :: "call_effect \<Rightarrow> view_input list" where
  "to_signal (SignalingFailed why) = [SignalFailed why]"
| "to_signal (CallStateChanged c) = [StateReported c]"
| "to_signal (Proposal from streams) = [Proposed from (Video \<in> set streams)]"
| "to_signal SessionTerminated = [Terminated]"
| "to_signal LocalFrameCleared = [LocalFrame []]"
| "to_signal RemoteFrameCleared = [RemoteFrame []]"
| "to_signal _ = []"

fun commands :: "view_effect list \<Rightarrow> call_command list" where
  "commands [] = []"
| "commands (Do c # es) = c # commands es"
| "commands (_ # es) = commands es"

lemma set_commands [simp]: "c \<in> set (commands es) \<longleftrightarrow> Do c \<in> set es"
  by (induction es rule: commands.induct) auto

lemma commands_append [simp]: "commands (es @ fs) = commands es @ commands fs"
  by (induction es rule: commands.induct) auto

record call_world =
  the_view :: call_vm
  to_service :: "call_command list"
  the_service :: call_service
  to_view :: "view_input list"

section \<open>Events\<close>

text \<open>What the user, the system and the cameras do at the view (everything but the signals that come
  through the queue), and what reaches the service from the connection and the WebRTC client.\<close>

fun by_user :: "view_input \<Rightarrow> bool" where
  "by_user (SignalFailed why) = False"
| "by_user (StateReported c) = False"
| "by_user (Proposed from video) = False"
| "by_user Terminated = False"
| "by_user _ = True"

fun by_connection :: "call_input \<Rightarrow> bool" where
  "by_connection (Stanza env toInt d) = True"
| "by_connection (Services env number vs) = True"
| "by_connection (OfferCreated env sdp ices) = True"
| "by_connection RemoteOfferSet = True"
| "by_connection (AnswerCreated env sdp) = True"
| "by_connection (LocalCandidate number c mid k) = True"
| "by_connection (RtcStateChanged c) = True"
| "by_connection (Initialize x up) = True"
| "by_connection (Online b) = True"
| "by_connection _ = False"

datatype world_event = AtView view_input | AtService call_input | ServiceTakes call_env | ViewTakes

definition view_turn :: "view_input \<Rightarrow> call_world \<Rightarrow> call_effect list \<times> call_world" where
  "view_turn i w =
     (let (es, v) = view_step i (the_view w)
      in ([], w\<lparr>the_view := v, to_service := to_service w @ commands es\<rparr>))"

definition service_turn :: "call_input \<Rightarrow> call_world \<Rightarrow> (call_effect list \<times> call_world) option" where
  "service_turn i w =
     (case call_step i (the_service w) of
        None \<Rightarrow> None
      | Some (fs, s) \<Rightarrow> Some (fs, w\<lparr>the_service := s, to_view := to_view w @ concat (map to_signal fs)\<rparr>))"

text \<open>An event that cannot happen changes nothing; no result is the use of a missing WebRTC client.\<close>

fun world_step :: "world_event \<Rightarrow> call_world \<Rightarrow> (call_effect list \<times> call_world) option" where
  "world_step (AtView i) w = Some (if by_user i then view_turn i w else ([], w))"
| "world_step (AtService i) w = (if by_connection i then service_turn i w else Some ([], w))"
| "world_step (ServiceTakes env) w =
     (case to_service w of
        [] \<Rightarrow> Some ([], w)
      | c # cs \<Rightarrow> service_turn (to_input env c) (w\<lparr>to_service := cs\<rparr>))"
| "world_step ViewTakes w =
     (case to_view w of [] \<Rightarrow> Some ([], w) | i # is \<Rightarrow> Some (view_turn i (w\<lparr>to_view := is\<rparr>)))"

fun world_steps :: "world_event list \<Rightarrow> call_world \<Rightarrow> (call_effect list \<times> call_world) option" where
  "world_steps [] w = Some ([], w)"
| "world_steps (e # es) w =
     (case world_step e w of
        None \<Rightarrow> None
      | Some (fs, u) \<Rightarrow> (case world_steps es u of None \<Rightarrow> None | Some (gs, x) \<Rightarrow> Some (fs @ gs, x)))"

definition new_world :: call_world where
  "new_world = \<lparr>the_view = new_call_vm, to_service = [], the_service = snd new_call_service,
     to_view = concat (map to_signal (fst new_call_service))\<rparr>"

text \<open>The permissions granted in the course of an event.\<close>

definition world_grants :: "world_event \<Rightarrow> call_world \<Rightarrow> permission_kind set" where
  "world_grants e w =
     (case e of AtView i \<Rightarrow> (if by_user i then grants i (the_view w) else {})
      | _ \<Rightarrow> {})"

inductive world_run :: "permission_kind set \<Rightarrow> call_effect list \<Rightarrow> call_world \<Rightarrow> bool" where
  begin_world: "world_run {} (fst new_call_service) new_world"
| next_world: "world_run G es w \<Longrightarrow> world_step e w = Some (fs, u) \<Longrightarrow> world_run (G \<union> world_grants e w) (es @ fs) u"

section \<open>Started calls\<close>

lemma prepareMedia_started:
  assumes "prepareMedia env v s = (ok, es, t)"
  shows "callStarted t = callStarted s"
proof -
  obtain fs u where u: "ensure_rtc s = (fs, u)" by fastforce
  have "callStarted u = callStarted s" using ensure_keeps [OF u] by blast
  moreover have "t = u \<or> t = u\<lparr>mediaPrepared := True\<rparr> \<or> t = u\<lparr>has_rtc := False\<rparr>"
    using assms by (auto simp: prepareMedia_def u Let_def split: if_splits)
  ultimately show ?thesis by auto
qed

lemma signal_started: "on_signal env sig s = Some (fs, t) \<Longrightarrow> callStarted t = callStarted s"
  by (cases sig) (auto simp: on_signal_def split: if_splits)

lemma dispatch_started: "dispatch env es s = Some (fs, t) \<Longrightarrow> callStarted t = callStarted s"
proof (induction es arbitrary: s fs)
  case (Cons e es)
  obtain f1 u f2 where one: "(case e of Emit sig \<Rightarrow> on_signal env sig s | _ \<Rightarrow> Some ([Wire e], s)) = Some (f1, u)"
    and two: "dispatch env es u = Some (f2, t)"
    using Cons.prems by (auto split: option.splits)
  have "callStarted u = callStarted s" using one signal_started by (auto split: effect.splits)
  then show ?case using Cons.IH [OF two] by simp
qed simp

lemma connection_frame:
  assumes "by_connection i" and "call_step i s = Some (fs, t)"
  shows "has_rtc t = has_rtc s \<and> callStarted t = callStarted s"
proof (cases i)
  case (Stanza env toInt d)
  show ?thesis
  proof (cases "attached s")
    case True
    obtain ok x es where "handleStanza toInt d (ext s) = (ok, x, es)" by (cases "handleStanza toInt d (ext s)")
    then have "dispatch env es (s\<lparr>ext := x\<rparr>) = Some (fs, t)" using assms(2) Stanza True by (simp add: on_stanza_def)
    from dispatch_keeps [OF this] dispatch_started [OF this] show ?thesis by simp
  qed (use assms Stanza in \<open>simp add: on_stanza_def\<close>)
qed (use assms in \<open>auto simp: on_services_def offer_created_def remote_offer_set_def answer_created_def
    local_candidate_def rtc_state_changed_def call_initialize_def split: if_splits prod.splits rtc_state.splits\<close>)

lemma command_started:
  assumes "call_step (to_input env c) s = Some (fs, t)" and "callStarted t"
  shows "callStarted s \<or> c = CmdAccept \<or> (\<exists>r video. c = CmdStart r video)"
proof (cases c)
  case CmdPrepare
  show ?thesis
  proof (cases "callStarted s")
    case False
    obtain e1 u where u: "ensure_rtc s = (e1, u)" by fastforce
    obtain ok e2 v where v: "prepareMedia env False u = (ok, e2, v)" by (cases "prepareMedia env False u")
    then have "t = v" using assms(1) CmdPrepare False u by (auto simp: call_prepare_def)
    then show ?thesis using assms(2) ensure_keeps [OF u] prepareMedia_started [OF v] by simp
  qed simp
qed (use assms in \<open>auto simp: endCall_def rejectCall_def isConnected_def call_setAudioInput_def call_setAudioOutput_def
    call_setCamera_def split: if_splits\<close>)

section \<open>Invariant\<close>

fun is_signal :: "view_input \<Rightarrow> bool" where
  "is_signal (SignalFailed why) = True"
| "is_signal (StateReported c) = True"
| "is_signal (Proposed from video) = True"
| "is_signal Terminated = True"
| "is_signal (LocalFrame f) = True"
| "is_signal (RemoteFrame f) = True"
| "is_signal _ = False"

lemma signal_no_grants: "is_signal i \<Longrightarrow> grants i v = {}"
  by (cases i) simp_all

lemma to_signal_signals: "list_all is_signal (concat (map to_signal fs))"
proof (induction fs)
  case (Cons e fs)
  have "list_all is_signal (to_signal e)" by (cases e) simp_all
  then show ?case using Cons by simp
qed simp

definition granted_commands :: "permission_kind set \<Rightarrow> call_command list \<Rightarrow> bool" where
  "granted_commands G cs \<longleftrightarrow> (CmdAccept \<in> set cs \<longrightarrow> Microphone \<in> G)
     \<and> (\<forall>r video. CmdStart r video \<in> set cs \<longrightarrow> Microphone \<in> G \<and> (video \<longrightarrow> Camera \<in> G))"

definition world_ok :: "permission_kind set \<Rightarrow> call_world \<Rightarrow> bool" where
  "world_ok G w \<longleftrightarrow> asked_ok G (the_view w) \<and> granted_commands G (to_service w) \<and> list_all is_signal (to_view w)
     \<and> (callStarted (the_service w) \<longrightarrow> Microphone \<in> G)"

lemma world_ok_mono: "world_ok G w \<Longrightarrow> G \<subseteq> H \<Longrightarrow> world_ok H w"
  using asked_ok_mono by (auto simp: world_ok_def granted_commands_def)

lemma view_turn_ok:
  assumes "world_ok G w"
  shows "world_ok (G \<union> grants i (the_view w)) (snd (view_turn i w))"
proof -
  obtain es v where st: "view_step i (the_view w) = (es, v)" by fastforce
  have m: "asked_ok (G \<union> grants i (the_view w)) v \<and> may (G \<union> grants i (the_view w)) (is_proposal i) es"
    using step_may [OF st] assms by (simp add: world_ok_def)
  then have "granted_commands (G \<union> grants i (the_view w)) (commands es)"
    by (auto simp: may_def granted_commands_def)
  moreover have "world_ok (G \<union> grants i (the_view w)) w" using assms world_ok_mono by blast
  ultimately show ?thesis using m by (auto simp: view_turn_def st world_ok_def granted_commands_def)
qed

lemma service_turn_ok:
  assumes "world_ok G w" and "service_turn i w = Some (fs, u)"
    and "\<And>gs t. call_step i (the_service w) = Some (gs, t) \<Longrightarrow> callStarted t \<Longrightarrow> Microphone \<in> G"
  shows "world_ok G u"
proof -
  obtain s where s: "call_step i (the_service w) = Some (fs, s)"
    and u: "u = w\<lparr>the_service := s, to_view := to_view w @ concat (map to_signal fs)\<rparr>"
    using assms(2) by (auto simp: service_turn_def split: option.splits)
  show ?thesis using assms(1) assms(3) [OF s] to_signal_signals u by (simp add: world_ok_def)
qed

lemma world_step_ok:
  assumes ok: "world_ok G w" and st: "world_step e w = Some (fs, u)"
  shows "world_ok (G \<union> world_grants e w) u"
proof (cases e)
  case (AtView i)
  then have u: "u = (if by_user i then snd (view_turn i w) else w)" using st by (auto split: if_splits)
  show ?thesis
  proof (cases "by_user i")
    case True
    then show ?thesis using view_turn_ok [OF ok, of i] u AtView by (simp add: world_grants_def)
  qed (use ok u AtView in \<open>simp add: world_grants_def\<close>)
next
  case (AtService i)
  show ?thesis
  proof (cases "by_connection i")
    case True
    then have "service_turn i w = Some (fs, u)" using st AtService by simp
    then have "world_ok G u"
      using service_turn_ok [OF ok] connection_frame [OF True] ok by (metis world_ok_def)
    then show ?thesis using AtService by (simp add: world_grants_def)
  qed (use st ok AtService in \<open>simp add: world_grants_def\<close>)
next
  case (ServiceTakes env)
  show ?thesis
  proof (cases "to_service w")
    case (Cons c cs)
    let ?w = "w\<lparr>to_service := cs\<rparr>"
    have k: "world_ok G ?w" using ok Cons by (auto simp: world_ok_def granted_commands_def)
    have "service_turn (to_input env c) ?w = Some (fs, u)" using st ServiceTakes Cons by simp
    moreover have "Microphone \<in> G" if "call_step (to_input env c) (the_service ?w) = Some (gs, t)" "callStarted t" for gs t
      using command_started [OF that] ok Cons by (auto simp: world_ok_def granted_commands_def)
    ultimately have "world_ok G u" using service_turn_ok [OF k] by blast
    then show ?thesis using ServiceTakes by (simp add: world_grants_def)
  qed (use st ok ServiceTakes in \<open>simp add: world_grants_def\<close>)
next
  case ViewTakes
  show ?thesis
  proof (cases "to_view w")
    case (Cons i "is")
    let ?w = "w\<lparr>to_view := is\<rparr>"
    have k: "world_ok G ?w" "is_signal i" using ok Cons by (simp_all add: world_ok_def)
    have "u = snd (view_turn i ?w)" using st ViewTakes Cons by auto
    then show ?thesis using view_turn_ok [OF k(1), of i] signal_no_grants [OF k(2)] ViewTakes by (simp add: world_grants_def)
  qed (use st ok ViewTakes in \<open>simp add: world_grants_def\<close>)
qed

lemma run_world_ok: "world_run G es w \<Longrightarrow> world_ok G w"
proof (induction rule: world_run.induct)
  case begin_world
  show ?case using to_signal_signals
    by (simp add: world_ok_def new_world_def asked_ok_def new_call_vm_def granted_commands_def new_call_service_def createWebrtcClient_def)
next
  case (next_world G es w e fs u)
  then show ?case using world_step_ok by blast
qed

section \<open>The end of a call\<close>

fun service_side :: "world_event \<Rightarrow> bool" where
  "service_side (AtService i) = True"
| "service_side (ServiceTakes env) = True"
| "service_side _ = False"

fun is_take :: "world_event \<Rightarrow> bool" where
  "is_take (ServiceTakes env) = True"
| "is_take _ = False"

definition call_over :: "call_world \<Rightarrow> bool" where
  "call_over w \<longleftrightarrow> to_service w = [] \<and> \<not> has_rtc (the_service w) \<and> \<not> callStarted (the_service w)"

lemma over_step:
  assumes "call_over w" and "service_side e" and "world_step e w = Some (fs, u)"
  shows "call_over u"
proof (cases e)
  case (AtService i)
  show ?thesis
  proof (cases "by_connection i")
    case True
    then show ?thesis using assms connection_frame [OF True] AtService
      by (auto simp: call_over_def service_turn_def split: option.splits)
  qed (use assms AtService in simp)
qed (use assms in \<open>auto simp: call_over_def\<close>)

lemma ending_step:
  assumes "to_service w = cs @ [CmdEnd]" and "service_side e" and "world_step e w = Some (fs, u)"
  shows "if is_take e then (if cs = [] then call_over u else to_service u = tl cs @ [CmdEnd]) else to_service u = cs @ [CmdEnd]"
proof (cases e)
  case (AtService i)
  then show ?thesis using assms by (auto simp: service_turn_def split: option.splits if_splits)
next
  case (ServiceTakes env)
  then show ?thesis using assms
    by (cases cs) (auto simp: service_turn_def call_over_def endCall_def split: option.splits)
qed (use assms in auto)

lemma ending_steps:
  assumes "list_all service_side es" and "world_steps es w = Some (fs, u)"
    and "call_over w \<or> (\<exists>cs. to_service w = cs @ [CmdEnd] \<and> Suc (length cs) \<le> length (filter is_take es))"
  shows "call_over u"
  using assms
proof (induction es arbitrary: w fs)
  case (Cons e es)
  obtain f1 v f2 where v: "world_step e w = Some (f1, v)" "world_steps es v = Some (f2, u)"
    using Cons.prems(2) by (auto split: option.splits)
  have side: "service_side e" "list_all service_side es" using Cons.prems(1) by simp_all
  have "call_over v \<or> (\<exists>cs. to_service v = cs @ [CmdEnd] \<and> Suc (length cs) \<le> length (filter is_take es))"
  proof (cases "call_over w")
    case True
    then show ?thesis using over_step [OF True side(1) v(1)] by blast
  next
    case False
    then obtain cs where cs: "to_service w = cs @ [CmdEnd]" "Suc (length cs) \<le> length (filter is_take (e # es))"
      using Cons.prems(3) by blast
    show ?thesis
      using ending_step [OF cs(1) side(1) v(1)] cs(2) by (cases "is_take e"; cases cs) auto
  qed
  then show ?case using Cons.IH [OF side(2) v(2)] by blast
qed simp

section \<open>Concrete worlds\<close>

fun trace_world :: "world_event list \<Rightarrow> permission_kind set \<times> call_effect list \<times> call_world \<Rightarrow>
    (permission_kind set \<times> call_effect list \<times> call_world) option" where
  "trace_world [] x = Some x"
| "trace_world (e # es) (G, fs, w) =
     (case world_step e w of None \<Rightarrow> None | Some (gs, u) \<Rightarrow> trace_world es (G \<union> world_grants e w, fs @ gs, u))"

lemma trace_world_run: "world_run G fs w \<Longrightarrow> trace_world es (G, fs, w) = Some (H, gs, u) \<Longrightarrow> world_run H gs u"
proof (induction es arbitrary: G fs w)
  case (Cons e es)
  then show ?case using world_run.next_world by (fastforce split: option.splits)
qed simp

definition begun :: "permission_kind set \<times> call_effect list \<times> call_world" where
  "begun = ({}, fst new_call_service, new_world)"

lemma begun_run: "trace_world es begun = Some (G, fs, w) \<Longrightarrow> world_run G fs w"
  using trace_world_run [OF begin_world] by (simp add: begun_def)

definition proposal_from :: "string \<Rightarrow> StreamType list \<Rightarrow> world_event" where
  "proposal_from x streams =
     AtService (Stanza sample_call_env (\<lambda>_. None) (delivered xml_wire store_hints x (propose ''me@h'' streams ''k'')))"

definition microphone_only :: permissions where
  "microphone_only = \<lparr>microphone = Granted, camera = Denied\<rparr>"

text \<open>An audio call is offered and shown; while the user decides, a video call is offered too.\<close>

definition crossed_offers :: "world_event list" where
  "crossed_offers = [AtService (Initialize fresh_extension True), proposal_from ''a@x/1'' [Audio],
     ViewTakes, ViewTakes, ViewTakes, ServiceTakes sample_call_env, proposal_from ''c@y/1'' [Audio, Video],
     AtView (Accepted microphone_only), ServiceTakes sample_call_env]"

section \<open>What holds of view and service together\<close>

text \<open>
  C9: whatever the user, the connection and the order of delivery do, a call is started at the
  service only after the system has reported the microphone as granted.
\<close>

theorem started_call_granted:
  assumes "world_run G es w" and "callStarted (the_service w)"
  shows "Microphone \<in> G"
  using run_world_ok [OF assms(1)] assms(2) by (simp add: world_ok_def)

theorem started_call_granted_witness:
  "case trace_world crossed_offers begun of Some (G, fs, w) \<Rightarrow> callStarted (the_service w) \<and> Microphone \<in> G | None \<Rightarrow> False"
proof -
  have "case trace_world crossed_offers begun of Some (G, fs, w) \<Rightarrow> callStarted (the_service w) | None \<Rightarrow> False" by code_simp
  then obtain G fs w where r: "trace_world crossed_offers begun = Some (G, fs, w)" "callStarted (the_service w)"
    by (auto split: option.splits)
  from started_call_granted [OF begun_run [OF r(1)] r(2)] r show ?thesis by simp
qed

text \<open>
  The camera can be turned on without the user having granted it: the service takes the kind of
  the latest proposal, the view asks for the permissions of the one it has shown.
\<close>

theorem camera_without_permission:
  "\<exists>G es w. world_run G es w \<and> RtcCamera True \<in> set es \<and> Camera \<notin> G"
proof -
  have "case trace_world crossed_offers begun of Some (G, fs, w) \<Rightarrow> list_ex is_camera_on fs \<and> Camera \<notin> G | None \<Rightarrow> False"
    by code_simp
  then obtain G fs w where r: "trace_world crossed_offers begun = Some (G, fs, w)" "list_ex is_camera_on fs" "Camera \<notin> G"
    by (auto split: option.splits)
  then show ?thesis using begun_run camera_on_iff by blast
qed

text \<open>
  Closing the call window ends the call: once the service has taken the commands that were
  waiting, whatever the connection delivers in between, there is no WebRTC client and no started
  call, unless a stanza makes it use a client it does not have.
\<close>

theorem reset_ends_call:
  assumes "world_step (AtView Reset) w = Some (fs, u)" and "list_all service_side es"
    and "length (to_service u) \<le> length (filter is_take es)" and "world_steps es u = Some (gs, x)"
  shows "to_service x = [] \<and> \<not> has_rtc (the_service x) \<and> \<not> callStarted (the_service x)"
proof -
  have "to_service u = (to_service w) @ [CmdEnd]"
    using assms(1) by (auto simp: view_turn_def view_reset_def to_sink_def split: option.splits)
  then have "call_over x" using ending_steps [OF assms(2,4)] assms(3) by simp
  then show ?thesis by (simp add: call_over_def)
qed

theorem reset_ends_call_witness:
  "case trace_world crossed_offers begun of
     Some (G, fs, w) \<Rightarrow> has_rtc (the_service w) \<and>
       (case trace_world [AtView Reset, proposal_from ''d@y/1'' [Audio], ServiceTakes sample_call_env] (G, fs, w) of
          Some (H, gs, x) \<Rightarrow> \<not> has_rtc (the_service x) | None \<Rightarrow> False)
   | None \<Rightarrow> False"
proof -
  let ?es = "[proposal_from ''d@y/1'' [Audio], ServiceTakes sample_call_env]"
  have "case trace_world crossed_offers begun of Some (G, fs, w) \<Rightarrow> has_rtc (the_service w) \<and> to_service w = []
      \<and> world_steps ?es (snd (view_turn Reset w)) \<noteq> None | None \<Rightarrow> False" by code_simp
  then obtain G fs w where r: "trace_world crossed_offers begun = Some (G, fs, w)" "has_rtc (the_service w)" "to_service w = []"
    "world_steps ?es (snd (view_turn Reset w)) \<noteq> None"
    by (cases "trace_world crossed_offers begun") (auto simp del: world_steps.simps)
  obtain f1 u where u: "view_turn Reset w = (f1, u)" by fastforce
  then obtain gs x where x: "world_steps ?es u = Some (gs, x)" using r(4) by auto
  have st: "world_step (AtView Reset) w = Some (f1, u)" by (simp add: u)
  have "to_service u = [CmdEnd]" using u r(3) by (auto simp: view_turn_def view_reset_def to_sink_def split: option.splits)
  with reset_ends_call [OF st _ _ x] have "\<not> has_rtc (the_service x)" by (simp add: proposal_from_def)
  moreover obtain H hs where "trace_world (AtView Reset # ?es) (G, fs, w) = Some (H, hs, x)"
    using x st by (auto split: option.splits)
  ultimately show ?thesis using r(1,2) by simp
qed

end
