(* ===== verification/Json.thy ===== *)
theory Json
  imports Qt_Text "HOL-Library.List_Lexorder" "HOL-Library.Char_ord"
begin

text \<open>
  JSON values as Qt presents them (\<open>QJsonValue\<close>, \<open>QJsonObject\<close>, \<open>QJsonArray\<close>) and the
  reading functions the program calls on them; an object is an association list, kept in key
  order by the functions that build one.  Numbers are integers here: the program reads no others.
  The text format is a parameter wherever it is used.
\<close>

datatype json =
    JNull
  | JBool bool
  | JNum int
  | JStr string
  | JArr "json list"
  | JObj "(string \<times> json) list"

text \<open>\<open>QJsonObject::value\<close>; an absent key gives an undefined value, here \<open>None\<close>.\<close>

fun obj_value :: "json \<Rightarrow> string \<Rightarrow> json option" where
  "obj_value (JObj kvs) k = map_of kvs k"
| "obj_value _ k = None"

definition is_object :: "json \<Rightarrow> bool" where
  "is_object j \<longleftrightarrow> (case j of JObj _ \<Rightarrow> True | _ \<Rightarrow> False)"

definition is_string :: "json option \<Rightarrow> bool" where
  "is_string v \<longleftrightarrow> (case v of Some (JStr _) \<Rightarrow> True | _ \<Rightarrow> False)"

definition is_array :: "json \<Rightarrow> bool" where
  "is_array j \<longleftrightarrow> (case j of JArr _ \<Rightarrow> True | _ \<Rightarrow> False)"

text \<open>\<open>QJsonValue::toString\<close>, \<open>toInt\<close> and \<open>toBool\<close> with their defaults.\<close>

definition to_string :: "json option \<Rightarrow> string" where
  "to_string v = (case v of Some (JStr s) \<Rightarrow> s | _ \<Rightarrow> [])"

definition to_int :: "int \<Rightarrow> json option \<Rightarrow> int" where
  "to_int d v = (case v of Some (JNum n) \<Rightarrow> if - (2 ^ 31) \<le> n \<and> n < 2 ^ 31 then n else d | _ \<Rightarrow> d)"

definition to_bool :: "bool \<Rightarrow> json option \<Rightarrow> bool" where
  "to_bool d v = (case v of Some (JBool b) \<Rightarrow> b | _ \<Rightarrow> d)"

definition to_object :: "json option \<Rightarrow> json" where
  "to_object v = (case v of Some (JObj kvs) \<Rightarrow> JObj kvs | _ \<Rightarrow> JObj [])"

definition to_array :: "json option \<Rightarrow> json list" where
  "to_array v = (case v of Some (JArr xs) \<Rightarrow> xs | _ \<Rightarrow> [])"

named_theorems json_defs "the reading functions of JSON values"

lemmas [json_defs] = is_object_def is_string_def is_array_def to_string_def to_int_def to_bool_def to_object_def to_array_def

section \<open>Building objects\<close>

text \<open>\<open>QJsonObject::insert\<close> keeps the entries in key order and replaces the value of a present key.\<close>

fun kv_insert :: "string \<Rightarrow> json \<Rightarrow> (string \<times> json) list \<Rightarrow> (string \<times> json) list" where
  "kv_insert k v [] = [(k, v)]"
| "kv_insert k v ((k', v') # kvs) =
     (if k < k' then (k, v) # (k', v') # kvs
      else if k = k' then (k, v) # kvs
      else (k', v') # kv_insert k v kvs)"

definition obj_insert :: "string \<Rightarrow> json \<Rightarrow> json \<Rightarrow> json" where
  "obj_insert k v j = (case j of JObj kvs \<Rightarrow> JObj (kv_insert k v kvs) | _ \<Rightarrow> j)"

definition object :: "(string \<times> json) list \<Rightarrow> json" where
  "object kvs = JObj (foldl (\<lambda>m (k, v). kv_insert k v m) [] kvs)"

lemma map_of_kv_insert: "map_of (kv_insert k v kvs) = (map_of kvs)(k \<mapsto> v)"
  by (induction k v kvs rule: kv_insert.induct) auto

lemma map_of_inserts: "map_of (foldl (\<lambda>m (k, v). kv_insert k v m) m kvs) = map_of (rev kvs @ m)"
  by (induction kvs arbitrary: m) (auto simp: map_of_kv_insert map_add_def fun_eq_iff split: option.splits)

lemma obj_value_object [simp]: "obj_value (object kvs) k = map_of (rev kvs) k"
  by (simp add: object_def map_of_inserts)

lemma is_object_object [simp]: "is_object (object kvs)" "is_object (JObj ps)"
  by (simp_all add: object_def is_object_def)

lemma obj_value_insert: "obj_value (obj_insert k v (JObj kvs)) k' = (if k' = k then Some v else obj_value (JObj kvs) k')"
  by (simp add: obj_insert_def map_of_kv_insert)

text \<open>
  A value as the library holds it: the keys of an object ascending, each once, and integers of 64
  bits. The text format is one that reads back the objects it prints.
\<close>

fun canonical :: "json \<Rightarrow> bool" where
  "canonical JNull = True"
| "canonical (JBool b) = True"
| "canonical (JNum n) = (- (2 ^ 63) \<le> n \<and> n < 2 ^ 63)"
| "canonical (JStr s) = True"
| "canonical (JArr xs) = (\<forall>x \<in> set xs. canonical x)"
| "canonical (JObj kvs) = (sorted_wrt (<) (map fst kvs) \<and> (\<forall>kv \<in> set kvs. canonical (snd kv)))"

definition json_text :: "(json \<Rightarrow> string) \<Rightarrow> (string \<Rightarrow> json option) \<Rightarrow> bool" where
  "json_text print parse \<longleftrightarrow> (\<forall>j. canonical j \<and> is_object j \<longrightarrow> parse (print j) = Some j)"

lemma set_kv_insert: "set (kv_insert k v kvs) \<subseteq> insert (k, v) (set kvs)"
  by (induction k v kvs rule: kv_insert.induct) auto

lemma sorted_kv_insert:
  "sorted_wrt (<) (map fst kvs) \<Longrightarrow> sorted_wrt (<) (map fst (kv_insert k v kvs))"
proof (induction k v kvs rule: kv_insert.induct)
  case (2 k v k' v' kvs)
  show ?case
  proof (cases "k < k' \<or> k = k'")
    case True
    then show ?thesis using "2.prems" by (auto intro: less_trans)
  next
    case False
    then have "k' < k" by auto
    moreover have "k' < fst x" if "x \<in> set (kv_insert k v kvs)" for x
      using that set_kv_insert [of k v kvs] \<open>k' < k\<close> "2.prems" by auto
    ultimately show ?thesis using 2 False by auto
  qed
qed simp

lemma canonical_inserts:
  "canonical (JObj m) \<Longrightarrow> list_all (\<lambda>kv. canonical (snd kv)) kvs \<Longrightarrow>
     canonical (JObj (foldl (\<lambda>m (k, v). kv_insert k v m) m kvs))"
proof (induction kvs arbitrary: m)
  case (Cons kv kvs)
  obtain k v where kv: "kv = (k, v)" by fastforce
  have "canonical (snd x)" if "x \<in> set (kv_insert k v m)" for x
  proof -
    have "x = (k, v) \<or> x \<in> set m" using that set_kv_insert [of k v m] by blast
    then show ?thesis using Cons.prems by (auto simp: kv)
  qed
  moreover have "sorted_wrt (<) (map fst (kv_insert k v m))"
    by (rule sorted_kv_insert) (use Cons.prems(1) in \<open>simp only: canonical.simps\<close>)
  ultimately have "canonical (JObj (kv_insert k v m))"
    unfolding canonical.simps by blast
  from Cons.IH [OF this] Cons.prems(2) show ?case by (simp add: kv)
qed simp

lemma canonical_object: "list_all (\<lambda>kv. canonical (snd kv)) kvs \<Longrightarrow> canonical (object kvs)"
  unfolding object_def by (rule canonical_inserts) simp_all

section \<open>Lists of objects\<close>

text \<open>
  core/network/json_serializer.hpp: \<open>fromArray\<close> and \<open>toArray\<close>, for a type with the
  conversions \<open>of_json\<close> and \<open>to_json\<close>.  A failure names the index of the item.
\<close>

datatype array_error = NotAnObject nat | InvalidItem nat

fun from_items :: "(json \<Rightarrow> 'a option) \<Rightarrow> nat \<Rightarrow> json list \<Rightarrow> array_error + 'a list" where
  "from_items of_json i [] = Inr []"
| "from_items of_json i (v # vs) =
     (if \<not> is_object v then Inl (NotAnObject i)
      else case of_json v of
             None \<Rightarrow> Inl (InvalidItem i)
           | Some x \<Rightarrow>
               (case from_items of_json (Suc i) vs of Inl e \<Rightarrow> Inl e | Inr xs \<Rightarrow> Inr (x # xs)))"

definition fromArray :: "(json \<Rightarrow> 'a option) \<Rightarrow> json list \<Rightarrow> array_error + 'a list" where
  "fromArray of_json vs = from_items of_json 0 vs"

definition toArray :: "('a \<Rightarrow> json) \<Rightarrow> 'a list \<Rightarrow> json list" where
  "toArray to_json xs = map to_json xs"

definition json_parse :: "(string \<Rightarrow> json option) \<Rightarrow> string \<Rightarrow> json option" where
  "json_parse parser dat = (case parser dat of None \<Rightarrow> None | Some j \<Rightarrow> Some j)"

text \<open>A conversion and its inverse, the contract \<open>JsonSerializer\<close> asks of a DTO.\<close>

locale json_codec =
  fixes to_json :: "'a \<Rightarrow> json" and of_json :: "json \<Rightarrow> 'a option" and valid :: "'a \<Rightarrow> bool"
  assumes to_object: "is_object (to_json x)"
    and roundtrip: "valid x \<Longrightarrow> of_json (to_json x) = Some x"

context json_codec
begin

lemma from_items_map: "list_all valid xs \<Longrightarrow> from_items of_json i (map to_json xs) = Inr xs"
  by (induction xs arbitrary: i) (simp_all add: to_object roundtrip)

lemma array_roundtrip: "list_all valid xs \<Longrightarrow> fromArray of_json (toArray to_json xs) = Inr xs"
  by (simp add: fromArray_def toArray_def from_items_map)

end

lemma from_items_Inr:
  "from_items f i vs = Inr xs \<Longrightarrow> list_all is_object vs \<and> map f vs = map Some xs"
  by (induction vs arbitrary: i xs) (auto split: if_splits option.splits sum.splits)

end
