(* ===== verification/Json_Text.thy ===== *)
theory Json_Text
  imports Json
begin

text \<open>
  The compact JSON text format (RFC 8259) as an instance of the text format the program takes
  from Qt: a printer, a parser of what it prints, and the proof that it reads back every object.
\<close>

section \<open>Printing\<close>

definition hexd :: "nat \<Rightarrow> char" where
  "hexd n = char_of (if n < 10 then 48 + n else 87 + n)"

definition escape :: "char \<Rightarrow> string" where
  "escape c =
     (if c = CHR 0x22 \<or> c = CHR 0x5C then [CHR 0x5C, c]
      else if (of_char c :: nat) < 32
      then [CHR 0x5C, CHR ''u'', CHR ''0'', CHR ''0'', hexd (of_char c div 16), hexd (of_char c mod 16)]
      else [c])"

definition print_chars :: "string \<Rightarrow> string" where
  "print_chars s = concat (map escape s) @ [CHR 0x22]"

fun print_nat :: "nat \<Rightarrow> string" where
  "print_nat n = (if n < 10 then [hexd n] else print_nat (n div 10) @ [hexd (n mod 10)])"

declare print_nat.simps [simp del]

definition print_int :: "int \<Rightarrow> string" where
  "print_int n = (if n < 0 then CHR ''-'' # print_nat (nat (- n)) else print_nat (nat n))"

fun commas :: "string list \<Rightarrow> string" where
  "commas [] = []"
| "commas [s] = s"
| "commas (s # t # ss) = s @ CHR '','' # commas (t # ss)"

fun print_json :: "json \<Rightarrow> string" where
  "print_json JNull = ''null''"
| "print_json (JBool b) = (if b then ''true'' else ''false'')"
| "print_json (JNum n) = print_int n"
| "print_json (JStr s) = CHR 0x22 # print_chars s"
| "print_json (JArr xs) = CHR ''['' # commas (map print_json xs) @ '']''"
| "print_json (JObj kvs) =
     CHR ''{'' # commas (map (\<lambda>(k, v). CHR 0x22 # print_chars k @ CHR '':'' # print_json v) kvs) @ ''}''"

section \<open>Parsing\<close>

definition unhex :: "char \<Rightarrow> nat" where
  "unhex c = (let n = of_char c in if n < 58 then n - 48 else n - 87)"

definition is_digit :: "char \<Rightarrow> bool" where
  "is_digit c \<longleftrightarrow> 48 \<le> (of_char c :: nat) \<and> (of_char c :: nat) < 58"

fun parse_chars :: "string \<Rightarrow> (string \<times> string) option" where
  "parse_chars [] = None"
| "parse_chars (c # cs) =
     (if c = CHR 0x22 then Some ([], cs)
      else if c = CHR 0x5C then
        (case cs of
           [] \<Rightarrow> None
         | e # r \<Rightarrow>
             if e = CHR ''u'' then
               (case r of
                  a # b # h # l # r' \<Rightarrow>
                    map_option (\<lambda>(s, t). (char_of (unhex h * 16 + unhex l) # s, t)) (parse_chars r')
                | _ \<Rightarrow> None)
             else map_option (\<lambda>(s, t). (e # s, t)) (parse_chars r))
      else map_option (\<lambda>(s, t). (c # s, t)) (parse_chars cs))"

fun parse_nat :: "nat \<Rightarrow> string \<Rightarrow> nat \<times> string" where
  "parse_nat n [] = (n, [])"
| "parse_nat n (c # cs) = (if is_digit c then parse_nat (n * 10 + unhex c) cs else (n, c # cs))"

fun parse_value :: "nat \<Rightarrow> string \<Rightarrow> (json \<times> string) option"
  and parse_items :: "nat \<Rightarrow> string \<Rightarrow> (json list \<times> string) option"
  and parse_fields :: "nat \<Rightarrow> string \<Rightarrow> ((string \<times> json) list \<times> string) option" where
  "parse_value 0 s = None"
| "parse_value (Suc f) [] = None"
| "parse_value (Suc f) (c # cs) =
     (if c = CHR 0x22 then map_option (\<lambda>(s, t). (JStr s, t)) (parse_chars cs)
      else if c = CHR ''['' then
        (if take 1 cs = '']'' then Some (JArr [], drop 1 cs) else map_option (\<lambda>(xs, t). (JArr xs, t)) (parse_items f cs))
      else if c = CHR ''{'' then
        (if take 1 cs = ''}'' then Some (JObj [], drop 1 cs) else map_option (\<lambda>(kvs, t). (JObj kvs, t)) (parse_fields f cs))
      else if c = CHR ''-'' then (case parse_nat 0 cs of (n, t) \<Rightarrow> Some (JNum (- int n), t))
      else if is_digit c then (case parse_nat 0 (c # cs) of (n, t) \<Rightarrow> Some (JNum (int n), t))
      else if take 4 (c # cs) = ''null'' then Some (JNull, drop 4 (c # cs))
      else if take 4 (c # cs) = ''true'' then Some (JBool True, drop 4 (c # cs))
      else if take 5 (c # cs) = ''false'' then Some (JBool False, drop 5 (c # cs))
      else None)"
| "parse_items 0 s = None"
| "parse_items (Suc f) s =
     (case parse_value f s of
        Some (v, c # t) \<Rightarrow>
          if c = CHR '']'' then Some ([v], t)
          else if c = CHR '','' then map_option (\<lambda>(vs, u). (v # vs, u)) (parse_items f t)
          else None
      | _ \<Rightarrow> None)"
| "parse_fields 0 s = None"
| "parse_fields (Suc f) s =
     (case s of
        q # r \<Rightarrow>
          if q \<noteq> CHR 0x22 then None
          else (case parse_chars r of
                  Some (k, col # t) \<Rightarrow>
                    if col \<noteq> CHR '':'' then None
                    else (case parse_value f t of
                            Some (v, c # u) \<Rightarrow>
                              if c = CHR ''}'' then Some ([(k, v)], u)
                              else if c = CHR '','' then map_option (\<lambda>(kvs, w). ((k, v) # kvs, w)) (parse_fields f u)
                              else None
                          | _ \<Rightarrow> None)
                | _ \<Rightarrow> None)
      | [] \<Rightarrow> None)"

definition parse_json :: "string \<Rightarrow> json option" where
  "parse_json s = (case parse_value (Suc (length s)) s of Some (j, []) \<Rightarrow> Some j | _ \<Rightarrow> None)"

section \<open>Reading back\<close>

lemma of_char_hexd: "n < 16 \<Longrightarrow> (of_char (hexd n) :: nat) = (if n < 10 then 48 + n else 87 + n)"
  by (simp add: hexd_def)

lemma unhex_hexd: "n < 16 \<Longrightarrow> unhex (hexd n) = n"
  by (simp add: unhex_def of_char_hexd Let_def)

lemma is_digit_hexd: "n < 10 \<Longrightarrow> is_digit (hexd n)"
  by (simp add: is_digit_def of_char_hexd)

lemma char_of_nibbles: "(of_char c :: nat) < 256 \<Longrightarrow> char_of ((of_char c :: nat) div 16 * 16 + of_char c mod 16) = c"
  by simp

lemma parse_escape:
  "parse_chars (escape c @ rest) = map_option (\<lambda>(s, t). (c # s, t)) (parse_chars rest)"
proof (cases "c = CHR 0x22 \<or> c = CHR 0x5C")
  case True
  then show ?thesis by (auto simp: escape_def)
next
  case False
  show ?thesis
  proof (cases "(of_char c :: nat) < 32")
    case True
    then have "unhex (hexd ((of_char c :: nat) div 16)) * 16 + unhex (hexd ((of_char c :: nat) mod 16)) = of_char c"
      by (subst (1 2) unhex_hexd) simp_all
    then show ?thesis using False True by (simp add: escape_def)
  next
    case False2: False
    then show ?thesis using False by (simp add: escape_def)
  qed
qed

lemma parse_print_chars: "parse_chars (print_chars s @ rest) = Some (s, rest)"
  unfolding print_chars_def by (induction s) (simp_all add: parse_escape)

definition no_digit :: "string \<Rightarrow> bool" where
  "no_digit s \<longleftrightarrow> s = [] \<or> \<not> is_digit (hd s)"

lemma parse_nat_stop: "no_digit rest \<Longrightarrow> parse_nat n rest = (n, rest)"
  by (cases rest) (simp_all add: no_digit_def)

lemma parse_nat_digits: "\<exists>k. \<forall>n rest. parse_nat n (print_nat m @ rest) = parse_nat (n * 10 ^ k + m) rest"
proof (induction m rule: print_nat.induct)
  case (1 m)
  show ?case
  proof (cases "m < 10")
    case True
    then show ?thesis
      by (intro exI [of _ 1]) (simp add: print_nat.simps [of m] is_digit_hexd unhex_hexd)
  next
    case False
    then obtain k where k: "parse_nat n (print_nat (m div 10) @ rest) = parse_nat (n * 10 ^ k + m div 10) rest" for n rest
      using 1 by blast
    have "parse_nat n (print_nat m @ rest) = parse_nat (n * 10 ^ Suc k + m) rest" for n rest
    proof -
      have "(n * 10 ^ k + m div 10) * 10 + m mod 10 = n * 10 ^ Suc k + m" by (simp add: ac_simps)
      then show ?thesis
        using False by (simp add: print_nat.simps [of m] k is_digit_hexd unhex_hexd ac_simps)
    qed
    then show ?thesis by blast
  qed
qed

lemma parse_print_nat: "no_digit rest \<Longrightarrow> parse_nat 0 (print_nat m @ rest) = (m, rest)"
  using parse_nat_digits [of m] parse_nat_stop by auto

lemma print_nat_hd: "\<exists>c cs. print_nat m = c # cs \<and> is_digit c"
proof (induction m rule: print_nat.induct)
  case (1 m)
  show ?case using 1 by (cases "m < 10") (auto simp: print_nat.simps [of m] is_digit_hexd)
qed

lemma is_digit_other:
  "is_digit c \<Longrightarrow> c \<noteq> CHR 0x22 \<and> c \<noteq> CHR ''['' \<and> c \<noteq> CHR ''{'' \<and> c \<noteq> CHR ''-'' \<and> c \<noteq> CHR '']'' \<and> c \<noteq> CHR ''}''"
  by (auto simp: is_digit_def)

lemma no_digit_after [simp]: "no_digit (CHR '','' # s)" "no_digit (CHR '']'' # s)" "no_digit (CHR ''}'' # s)" "no_digit []"
  by (simp_all add: no_digit_def is_digit_def)

lemma parse_print_int:
  assumes "no_digit rest"
  shows "parse_value (Suc f) (print_int n @ rest) = Some (JNum n, rest)"
proof (cases "n < 0")
  case True
  then show ?thesis using parse_print_nat [OF assms] by (simp add: print_int_def is_digit_def)
next
  case False
  obtain c cs where c: "print_nat (nat n) = c # cs" "is_digit c" using print_nat_hd by blast
  have "parse_nat 0 (c # cs @ rest) = (nat n, rest)" using parse_print_nat [OF assms, of "nat n"] c by simp
  then show ?thesis using False c is_digit_other [OF c(2)] by (simp add: print_int_def)
qed

lemma print_json_hd: "\<exists>c cs. print_json j = c # cs \<and> c \<noteq> CHR '']'' \<and> c \<noteq> CHR ''}''"
proof (cases j)
  case (JNum n)
  obtain c cs where "print_nat (nat n) = c # cs" "is_digit c" using print_nat_hd by blast
  then show ?thesis using JNum is_digit_other by (auto simp: print_int_def)
qed auto

definition reads_back :: "json \<Rightarrow> bool" where
  "reads_back j \<longleftrightarrow> (\<forall>f rest. length (print_json j) < f \<longrightarrow> no_digit rest \<longrightarrow> parse_value f (print_json j @ rest) = Some (j, rest))"

lemma parse_items_print:
  assumes "\<forall>x \<in> set xs. reads_back x" and "xs \<noteq> []" and "length (commas (map print_json xs)) + 1 < f"
  shows "parse_items f (commas (map print_json xs) @ CHR '']'' # rest) = Some (xs, rest)"
  using assms
proof (induction xs arbitrary: f)
  case (Cons x xs)
  then obtain f' where f: "f = Suc f'" by (cases f) auto
  have x: "reads_back x" using Cons.prems(1) by simp
  show ?case
  proof (cases xs)
    case Nil
    then show ?thesis using x Cons.prems(3) by (simp add: f reads_back_def)
  next
    case (Cons y ys)
    have "parse_items f' (commas (map print_json xs) @ CHR '']'' # rest) = Some (xs, rest)"
      using Cons.IH [of f'] Cons.prems Cons by (simp add: f)
    then show ?thesis using x Cons.prems(3) Cons by (simp add: f reads_back_def)
  qed
qed simp

definition print_field :: "string \<times> json \<Rightarrow> string" where
  "print_field kv = CHR 0x22 # print_chars (fst kv) @ CHR '':'' # print_json (snd kv)"

lemma parse_fields_print:
  assumes "\<forall>kv \<in> set kvs. reads_back (snd kv)" and "kvs \<noteq> []" and "length (commas (map print_field kvs)) + 1 < f"
  shows "parse_fields f (commas (map print_field kvs) @ CHR ''}'' # rest) = Some (kvs, rest)"
  using assms
proof (induction kvs arbitrary: f)
  case (Cons kv kvs)
  then obtain f' where f: "f = Suc f'" by (cases f) auto
  obtain k v where kv: "kv = (k, v)" by fastforce
  have v: "reads_back v" using Cons.prems(1) kv by simp
  show ?case
  proof (cases kvs)
    case Nil
    then show ?thesis using v Cons.prems(3) by (simp add: f kv print_field_def reads_back_def parse_print_chars)
  next
    case (Cons y ys)
    have "parse_fields f' (commas (map print_field kvs) @ CHR ''}'' # rest) = Some (kvs, rest)"
      using Cons.IH [of f'] Cons.prems Cons by (simp add: f)
    then show ?thesis using v Cons.prems(3) Cons by (simp add: f kv print_field_def [of "(k, v)"] reads_back_def parse_print_chars)
  qed
qed simp

lemma print_json_obj: "print_json (JObj kvs) = CHR ''{'' # commas (map print_field kvs) @ ''}''"
proof -
  have "(\<lambda>(k, v). CHR 0x22 # print_chars k @ CHR '':'' # print_json v) = print_field"
    by (auto simp: print_field_def)
  then show ?thesis by simp
qed

lemma commas_hd: "xs \<noteq> [] \<Longrightarrow> hd xs = c # cs \<Longrightarrow> \<exists>ds. commas xs = c # ds"
  by (induction xs rule: commas.induct) auto

lemma parse_print: "reads_back j"
proof (induction j rule: print_json.induct)
  case (5 xs)
  show ?case unfolding reads_back_def
  proof (intro allI impI)
    fix f rest assume l: "length (print_json (JArr xs)) < f" and "no_digit rest"
    obtain f' where f: "f = Suc f'" using l by (cases f) auto
    show "parse_value f (print_json (JArr xs) @ rest) = Some (JArr xs, rest)"
    proof (cases "xs = []")
      case False
      obtain c cs where "print_json (hd xs) = c # cs" "c \<noteq> CHR '']''" using print_json_hd by blast
      then obtain ds where "commas (map print_json xs) = c # ds" using commas_hd [of "map print_json xs" c cs] False by (auto simp: hd_map)
      moreover have "parse_items f' (commas (map print_json xs) @ CHR '']'' # rest) = Some (xs, rest)"
        using parse_items_print [of xs f' rest] 5 False l f by auto
      ultimately show ?thesis using \<open>c \<noteq> CHR '']''\<close> by (simp add: f)
    qed (simp add: f)
  qed
next
  case (6 kvs)
  show ?case unfolding reads_back_def
  proof (intro allI impI)
    fix f rest assume l: "length (print_json (JObj kvs)) < f" and "no_digit rest"
    obtain f' where f: "f = Suc f'" using l by (cases f) auto
    show "parse_value f (print_json (JObj kvs) @ rest) = Some (JObj kvs, rest)"
    proof (cases "kvs = []")
      case False
      obtain ds where d: "commas (map print_field kvs) = CHR 0x22 # ds"
        using commas_hd [of "map print_field kvs" "CHR 0x22"] False by (auto simp: hd_map print_field_def)
      have "\<forall>kv \<in> set kvs. reads_back (snd kv)" using 6 by fastforce
      then have "parse_fields f' (commas (map print_field kvs) @ CHR ''}'' # rest) = Some (kvs, rest)"
        using parse_fields_print [of kvs f' rest] False l f unfolding print_json_obj by simp
      then show ?thesis unfolding print_json_obj by (simp add: f d)
    qed (simp add: f)
  qed
next
  case (3 n)
  show ?case unfolding reads_back_def print_json.simps by (metis parse_print_int less_imp_Suc_add)
qed (auto simp: reads_back_def parse_print_chars less_iff_Suc_add is_digit_def)

theorem compact_json_text: "json_text print_json parse_json"
  unfolding json_text_def
proof (intro allI impI)
  fix j
  have "parse_value (Suc (length (print_json j))) (print_json j @ []) = Some (j, [])"
    using parse_print [of j] unfolding reads_back_def by (metis lessI no_digit_after(4))
  then show "parse_json (print_json j) = Some j" by (simp add: parse_json_def)
qed

end
