(* ===== verification/Message_Dto.thy ===== *)
theory Message_Dto
  imports Json_Text
begin

text \<open>
  The data transfer objects of the chat and of the session and their JSON
  (features/chat/data/dto/message_payload_dto.hpp, message_dto.hpp, conversations_dto.hpp,
  features/authentication/data/dto/). The domain entities \<open>toDomain\<close> copies them into have the
  same fields, so the records stand for both.
\<close>

section \<open>Message types\<close>

datatype MessageType = Text | Voice | Video | Location | Image | File | Sticker

fun msg_toString :: "MessageType \<Rightarrow> string" where
  "msg_toString Text = ''text''"
| "msg_toString Voice = ''voice''"
| "msg_toString Video = ''video''"
| "msg_toString Location = ''location''"
| "msg_toString Image = ''image''"
| "msg_toString File = ''file''"
| "msg_toString Sticker = ''sticker''"

definition msg_fromString :: "string \<Rightarrow> MessageType" where
  "msg_fromString str =
     (let value = toLower (trim_text str)
      in if value = ''text'' then Text
         else if value = ''voice'' then Voice
         else if value = ''video'' then Video
         else if value = ''location'' then Location
         else if value = ''image'' then Image
         else if value = ''file'' then File
         else if value = ''sticker'' then Sticker
         else Text)"

section \<open>Records\<close>

record ContentDto =
  c_type :: MessageType
  c_text :: string
  media_url :: string
  file_name :: string
  fileSize :: int
  duration :: int

definition default_content :: ContentDto where
  "default_content = \<lparr>c_type = Text, c_text = [], media_url = [], file_name = [], fileSize = 0, duration = 0\<rparr>"

record PayloadDto =
  message_id :: string
  payload_sender :: string
  receiver_id :: string
  reply_message_id :: string
  timestamp :: string
  payload_content :: ContentDto
  attachment_batch_id :: string
  attachment_index :: int

record MessageItemDto =
  item_id :: string
  sender_id :: string
  recipient_id :: string
  item_body :: PayloadDto
  sent_at :: string

record MessageDto =
  messages :: "MessageItemDto list"
  page :: int
  limit :: int
  total :: int
  total_pages :: int

section \<open>Writing\<close>

definition content_toJson :: "ContentDto \<Rightarrow> json" where
  "content_toJson c = object
     ([(''type'', JStr (msg_toString (c_type c))), (''text'', JStr (c_text c)), (''media_url'', JStr (media_url c)),
       (''file_name'', JStr (file_name c)), (''fileSize'', JNum (fileSize c))]
      @ (if c_type c = Voice then [(''duration'', JNum (duration c))] else []))"

definition payload_toJson :: "PayloadDto \<Rightarrow> json" where
  "payload_toJson p = object
     ([(''message_id'', JStr (message_id p)), (''sender_id'', JStr (payload_sender p)), (''receiver_id'', JStr (receiver_id p)),
       (''reply_message_id'', JStr (reply_message_id p)), (''timestamp'', JStr (timestamp p)),
       (''content'', content_toJson (payload_content p))]
      @ (if attachment_batch_id p \<noteq> [] \<and> 0 \<le> attachment_index p
         then [(''attachment_batch_id'', JStr (attachment_batch_id p)), (''attachment_index'', JNum (attachment_index p))]
         else []))"

definition item_toJson :: "MessageItemDto \<Rightarrow> json" where
  "item_toJson i = object
     [(''id'', JStr (item_id i)), (''sender_id'', JStr (sender_id i)), (''recipient_id'', JStr (recipient_id i)),
      (''body'', payload_toJson (item_body i)), (''sent_at'', JStr (sent_at i))]"

definition message_toJson :: "MessageDto \<Rightarrow> json" where
  "message_toJson m = object
     [(''messages'', JArr (toArray item_toJson (messages m))), (''page'', JNum (page m)), (''limit'', JNum (limit m)),
      (''total'', JNum (total m)), (''total_pages'', JNum (total_pages m))]"

section \<open>Reading\<close>

text \<open>
  \<open>toVariant ().toLongLong ()\<close>: a number, a boolean as 0 or 1, and of a string what
  \<open>QString::toLongLong\<close> makes of it (\<open>ll\<close>, 0 when it is not a number).
\<close>

definition to_longlong :: "(string \<Rightarrow> int) \<Rightarrow> json option \<Rightarrow> int" where
  "to_longlong ll v =
     (case v of Some (JNum n) \<Rightarrow> n | Some (JBool b) \<Rightarrow> (if b then 1 else 0) | Some (JStr s) \<Rightarrow> ll s | _ \<Rightarrow> 0)"

definition content_fromJson :: "(string \<Rightarrow> int) \<Rightarrow> json \<Rightarrow> ContentDto" where
  "content_fromJson ll j =
     \<lparr>c_type = msg_fromString (to_string (obj_value j ''type'')), c_text = to_string (obj_value j ''text''),
      media_url = to_string (obj_value j ''media_url''), file_name = to_string (obj_value j ''file_name''),
      fileSize = to_longlong ll (obj_value j ''fileSize''), duration = to_longlong ll (obj_value j ''duration'')\<rparr>"

definition payload_fromJson :: "(string \<Rightarrow> int) \<Rightarrow> json \<Rightarrow> PayloadDto" where
  "payload_fromJson ll j =
     \<lparr>message_id = to_string (obj_value j ''message_id''), payload_sender = to_string (obj_value j ''sender_id''),
      receiver_id = to_string (obj_value j ''receiver_id''),
      reply_message_id = to_string (obj_value j ''reply_message_id''), timestamp = to_string (obj_value j ''timestamp''),
      payload_content =
        (case obj_value j ''content'' of
           Some (JObj kvs) \<Rightarrow> content_fromJson ll (JObj kvs)
         | Some (JArr [x]) \<Rightarrow> content_fromJson ll (to_object (Some x))
         | _ \<Rightarrow> default_content),
      attachment_batch_id = to_string (obj_value j ''attachment_batch_id''),
      attachment_index = to_int (- 1) (obj_value j ''attachment_index'')\<rparr>"

definition payload_fromJsonString :: "(string \<Rightarrow> int) \<Rightarrow> (string \<Rightarrow> json option) \<Rightarrow> string \<Rightarrow> PayloadDto option" where
  "payload_fromJsonString ll parse s =
     (case parse s of
        Some (JObj kvs) \<Rightarrow>
          (case map_of kvs ''content'' of
             Some (JObj _) \<Rightarrow> Some (payload_fromJson ll (JObj kvs))
           | Some (JArr [JObj _]) \<Rightarrow> Some (payload_fromJson ll (JObj kvs))
           | _ \<Rightarrow> None)
      | _ \<Rightarrow> None)"

text \<open>\<open>ContentDto::fromJsonString\<close> and \<open>PayloadDto::toJsonString\<close>.\<close>

definition content_fromJsonString :: "(string \<Rightarrow> int) \<Rightarrow> (string \<Rightarrow> json option) \<Rightarrow> string \<Rightarrow> ContentDto option" where
  "content_fromJsonString ll parse s =
     (case parse s of Some (JObj kvs) \<Rightarrow> Some (content_fromJson ll (JObj kvs)) | _ \<Rightarrow> None)"

definition payload_toJsonString :: "(json \<Rightarrow> string) \<Rightarrow> PayloadDto \<Rightarrow> string" where
  "payload_toJsonString print p = print (payload_toJson p)"

text \<open>The body is an object, printed and parsed again, or a string.\<close>

definition item_fromJson ::
    "(string \<Rightarrow> int) \<Rightarrow> (json \<Rightarrow> string) \<Rightarrow> (string \<Rightarrow> json option) \<Rightarrow> json \<Rightarrow> MessageItemDto option" where
  "item_fromJson ll print parse j =
     (case (case obj_value j ''body'' of
              Some (JObj kvs) \<Rightarrow> payload_fromJsonString ll parse (print (JObj kvs))
            | Some (JStr s) \<Rightarrow> payload_fromJsonString ll parse s
            | _ \<Rightarrow> None) of
        None \<Rightarrow> None
      | Some b \<Rightarrow> Some \<lparr>item_id = to_string (obj_value j ''id''), sender_id = to_string (obj_value j ''sender_id''),
                       recipient_id = to_string (obj_value j ''recipient_id''), item_body = b,
                       sent_at = to_string (obj_value j ''sent_at'')\<rparr>)"

definition message_fromJson ::
    "(string \<Rightarrow> int) \<Rightarrow> (json \<Rightarrow> string) \<Rightarrow> (string \<Rightarrow> json option) \<Rightarrow> json \<Rightarrow> MessageDto option" where
  "message_fromJson ll print parse j =
     (case obj_value j ''messages'' of
        Some (JArr vs) \<Rightarrow>
          (case fromArray (item_fromJson ll print parse) vs of
             Inl _ \<Rightarrow> None
           | Inr ms \<Rightarrow> Some \<lparr>messages = ms, page = to_int 0 (obj_value j ''page''), limit = to_int 0 (obj_value j ''limit''),
                            total = to_int 0 (obj_value j ''total''), total_pages = to_int 0 (obj_value j ''total_pages'')\<rparr>)
      | _ \<Rightarrow> None)"

section \<open>Round trips\<close>

lemma msg_type_roundtrip [simp]: "msg_fromString (msg_toString t) = t"
  by (cases t) (simp_all add: msg_fromString_def trim_text_def toLower_def lower_char_def is_space_def)

lemma msg_fromString_voice [simp]: "msg_fromString ''voice'' = Voice"
  using msg_type_roundtrip [of Voice] by simp

lemma to_string_JStr [simp]: "to_string (Some (JStr s)) = s" "to_string None = []"
  by (simp_all add: to_string_def)

lemma to_int_JNum [simp]: "- (2 ^ 31) \<le> n \<Longrightarrow> n < 2 ^ 31 \<Longrightarrow> to_int d (Some (JNum n)) = n" "to_int d None = d"
  by (simp_all add: to_int_def)

lemma to_longlong_JNum [simp]: "to_longlong ll (Some (JNum n)) = n" "to_longlong ll None = 0"
  by (simp_all add: to_longlong_def)

text \<open>What is lost: the duration of anything but a voice message, and a batch without an index.\<close>

definition sent_content :: "ContentDto \<Rightarrow> ContentDto" where
  "sent_content c = (if c_type c = Voice then c else c\<lparr>duration := 0\<rparr>)"

definition sent_payload :: "PayloadDto \<Rightarrow> PayloadDto" where
  "sent_payload p =
     (let q = p\<lparr>payload_content := sent_content (payload_content p)\<rparr>
      in if attachment_batch_id p \<noteq> [] \<and> 0 \<le> attachment_index p then q
         else q\<lparr>attachment_batch_id := [], attachment_index := - 1\<rparr>)"

definition int64 :: "int \<Rightarrow> bool" where "int64 n \<longleftrightarrow> - (2 ^ 63) \<le> n \<and> n < 2 ^ 63"
definition int32 :: "int \<Rightarrow> bool" where "int32 n \<longleftrightarrow> - (2 ^ 31) \<le> n \<and> n < 2 ^ 31"

lemma int32_int64: "int32 n \<Longrightarrow> int64 n"
  by (simp add: int32_def int64_def)

definition payload_ints :: "PayloadDto \<Rightarrow> bool" where
  "payload_ints p \<longleftrightarrow> int64 (fileSize (payload_content p)) \<and> int64 (duration (payload_content p)) \<and> int32 (attachment_index p)"

lemma content_read: "content_fromJson ll (content_toJson c) = sent_content c"
  by (cases c) (simp add: content_fromJson_def content_toJson_def sent_content_def)

lemma content_object: "\<exists>kvs. content_toJson c = JObj kvs"
  by (simp add: content_toJson_def object_def)

lemma content_canonical: "int64 (fileSize c) \<Longrightarrow> int64 (duration c) \<Longrightarrow> canonical (content_toJson c)"
  unfolding content_toJson_def by (rule canonical_object) (simp add: int64_def)

lemma payload_content_value: "obj_value (payload_toJson p) ''content'' = Some (content_toJson (payload_content p))"
  by (simp add: payload_toJson_def)

lemma payload_read: "payload_ints p \<Longrightarrow> payload_fromJson ll (payload_toJson p) = sent_payload p"
proof -
  assume "payload_ints p"
  then have i: "- (2 ^ 31) \<le> attachment_index p" "attachment_index p < 2 ^ 31" by (simp_all add: payload_ints_def int32_def)
  obtain kvs where c: "content_toJson (payload_content p) = JObj kvs" using content_object by blast
  have r: "content_fromJson ll (JObj kvs) = sent_content (payload_content p)" using content_read [of ll "payload_content p"] c by simp
  show ?thesis
    unfolding payload_fromJson_def payload_content_value c option.case json.case r
    using i by (cases p) (simp add: payload_toJson_def sent_payload_def Let_def)
qed

lemma payload_canonical: "payload_ints p \<Longrightarrow> canonical (payload_toJson p)"
  unfolding payload_toJson_def
  by (rule canonical_object) (auto simp: payload_ints_def int32_def content_canonical)

lemma payload_object: "\<exists>kvs. payload_toJson p = JObj kvs"
  by (simp add: payload_toJson_def object_def)

lemma payload_print_read:
  assumes "json_text print parse" and "payload_ints p"
  shows "payload_fromJsonString ll parse (print (payload_toJson p)) = Some (sent_payload p)"
proof -
  obtain kvs where k: "payload_toJson p = JObj kvs" using payload_object by blast
  obtain cs where c: "content_toJson (payload_content p) = JObj cs" using content_object by blast
  have "parse (print (payload_toJson p)) = Some (JObj kvs)"
    using assms(1) payload_canonical [OF assms(2)] k by (simp add: json_text_def)
  moreover have "map_of kvs ''content'' = Some (JObj cs)"
    using payload_content_value [of p] k c by simp
  ultimately show ?thesis
    using payload_read [OF assms(2), of ll] k by (simp add: payload_fromJsonString_def)
qed

definition sent_item :: "MessageItemDto \<Rightarrow> MessageItemDto" where
  "sent_item i = i\<lparr>item_body := sent_payload (item_body i)\<rparr>"

lemma item_read:
  assumes "json_text print parse" and "payload_ints (item_body i)"
  shows "item_fromJson ll print parse (item_toJson i) = Some (sent_item i)"
proof -
  obtain kvs where k: "payload_toJson (item_body i) = JObj kvs" using payload_object by blast
  have b: "obj_value (item_toJson i) ''body'' = Some (JObj kvs)" by (simp add: item_toJson_def k)
  show ?thesis
    unfolding item_fromJson_def b option.case json.case
    using payload_print_read [OF assms, of ll] unfolding k
    by (cases i) (simp add: item_toJson_def sent_item_def)
qed

text \<open>An item that survives the wire as it is.\<close>

definition sendable :: "MessageItemDto \<Rightarrow> bool" where
  "sendable i \<longleftrightarrow> payload_ints (item_body i) \<and> sent_item i = i"

lemma sent_content_idem: "sent_content (sent_content c) = sent_content c"
  by (simp add: sent_content_def)

lemma sent_payload_idem: "sent_payload (sent_payload p) = sent_payload p"
  by (simp add: sent_payload_def Let_def sent_content_idem)

lemma item_codec:
  "json_text print parse \<Longrightarrow> json_codec item_toJson (item_fromJson ll print parse) sendable"
  by unfold_locales (auto simp: sendable_def item_read, simp add: item_toJson_def)

lemma message_read:
  assumes "json_text print parse" and "list_all sendable (messages m)"
    and "int32 (page m)" and "int32 (limit m)" and "int32 (total m)" and "int32 (total_pages m)"
  shows "message_fromJson ll print parse (message_toJson m) = Some m"
proof -
  have a: "fromArray (item_fromJson ll print parse) (toArray item_toJson (messages m)) = Inr (messages m)"
    by (rule json_codec.array_roundtrip [OF item_codec [OF assms(1)] assms(2)])
  have v: "obj_value (message_toJson m) ''messages'' = Some (JArr (toArray item_toJson (messages m)))"
    by (simp add: message_toJson_def)
  show ?thesis
    unfolding message_fromJson_def v option.case json.case a sum.case
    using assms(3-6) by (cases m) (simp add: message_toJson_def int32_def)
qed

definition sample_page :: MessageDto where
  "sample_page = \<lparr>messages = [sent_item \<lparr>item_id = ''7'', sender_id = ''a'', recipient_id = ''b'',
       item_body = \<lparr>message_id = ''m'', payload_sender = ''a'', receiver_id = ''b'', reply_message_id = [], timestamp = [],
         payload_content = default_content, attachment_batch_id = ''x'', attachment_index = 1\<rparr>, sent_at = []\<rparr>],
     page = 1, limit = 200, total = 1, total_pages = 1\<rparr>"

lemma sample_sendable: "list_all sendable (messages sample_page)"
  by code_simp

text \<open>
  C40: a page of messages written to JSON reads back as the same page when its counters are 32-bit
  and its messages lose nothing on the wire; the text format only has to read back what it prints.
\<close>

theorem message_roundtrip:
  assumes "json_text print parse" and "list_all sendable (messages m)"
    and "int32 (page m)" and "int32 (limit m)" and "int32 (total m)" and "int32 (total_pages m)"
  shows "message_fromJson ll print parse (message_toJson m) = Some m"
  using assms by (rule message_read)

theorem message_roundtrip_witness:
  "message_fromJson (\<lambda>s. 0) print_json parse_json (message_toJson sample_page) = Some sample_page"
  by (rule message_roundtrip [OF compact_json_text sample_sendable])
    (simp_all add: sample_page_def int32_def)

end
