(* ===== verification/Message_Order.thy ===== *)
theory Message_Order
  imports Message_Dto "HOL-Library.Multiset"
begin

text \<open>
  \<open>MessageDto::toDomain\<close>: the order of selection is restored within each sender's batch of
  attachments. The code groups the positions of the messages by sender and batch in nested hash
  tables, sorts the messages of each group stably by their index and writes them back to the
  positions of the group. The order in which the hash tables are traversed is arbitrary, here the
  argument \<open>ks\<close>.
\<close>

section \<open>The code\<close>

definition batch_of :: "MessageItemDto \<Rightarrow> (string \<times> string) option" where
  "batch_of m =
     (let body = item_body m
      in if attachment_batch_id body \<noteq> [] \<and> 0 \<le> attachment_index body
         then Some (sender_id m, attachment_batch_id body) else None)"

definition batch_index :: "MessageItemDto \<Rightarrow> int" where
  "batch_index m = attachment_index (item_body m)"

text \<open>\<open>batches[sender][batch]\<close>\<close>

definition positions :: "('a \<Rightarrow> bool) \<Rightarrow> 'a list \<Rightarrow> nat list" where
  "positions P ms = filter (\<lambda>i. P (ms ! i)) [0..<length ms]"

text \<open>\<open>for (i) msg[positions[i]] = ordered[i];\<close>\<close>

fun place :: "nat list \<Rightarrow> 'a list \<Rightarrow> 'a list \<Rightarrow> 'a list" where
  "place (p # ps) (x # xs) ms = place ps xs (ms[p := x])"
| "place _ _ ms = ms"

definition reorder_batch :: "nat list \<Rightarrow> MessageItemDto list \<Rightarrow> MessageItemDto list" where
  "reorder_batch ps ms = place ps (sort_key batch_index (map ((!) ms) ps)) ms"

definition toDomain :: "(string \<times> string) list \<Rightarrow> MessageItemDto list \<Rightarrow> MessageItemDto list" where
  "toDomain ks ms = foldl (\<lambda>msg k. reorder_batch (positions (\<lambda>m. batch_of m = Some k) ms) msg) ms ks"

section \<open>A reference\<close>

text \<open>
  Every message of a batch is replaced by the next one of the sorted batch; the others stay.
\<close>

fun spread :: "('a \<Rightarrow> 'k option) \<Rightarrow> ('k \<Rightarrow> 'a list) \<Rightarrow> 'a list \<Rightarrow> 'a list" where
  "spread key q [] = []"
| "spread key q (m # ms) =
     (case key m of
        None \<Rightarrow> m # spread key q ms
      | Some k \<Rightarrow> hd (q k) # spread key (q(k := tl (q k))) ms)"

definition in_batch :: "string \<times> string \<Rightarrow> MessageItemDto \<Rightarrow> bool" where
  "in_batch k m \<longleftrightarrow> batch_of m = Some k"

definition batches_in_order :: "MessageItemDto list \<Rightarrow> MessageItemDto list" where
  "batches_in_order ms = spread batch_of (\<lambda>k. sort_key batch_index (filter (in_batch k) ms)) ms"

section \<open>Equivalence\<close>

text \<open>A list is determined by its keys and by the subsequence of each key.\<close>

lemma list_by_keys:
  assumes "map f xs = map f ys" and "\<And>k. filter (\<lambda>x. f x = k) xs = filter (\<lambda>x. f x = k) ys"
  shows "xs = ys"
  using assms
proof (induction xs arbitrary: ys)
  case (Cons x xs)
  then obtain y ys' where y: "ys = y # ys'" "f x = f y" "map f xs = map f ys'" by (cases ys) auto
  have xy: "x = y" using Cons.prems(2) [of "f x"] y by simp
  have "filter (\<lambda>x. f x = k) xs = filter (\<lambda>x. f x = k) ys'" for k
    using Cons.prems(2) [of k] y xy by (simp split: if_splits)
  with Cons.IH y xy show ?case by simp
qed simp

text \<open>The index loop as a traversal.\<close>

fun fill :: "('a \<Rightarrow> bool) \<Rightarrow> 'a list \<Rightarrow> 'a list \<Rightarrow> 'a list" where
  "fill P xs [] = []"
| "fill P xs (m # ms) = (if P m then hd xs # fill P (tl xs) ms else m # fill P xs ms)"

lemma positions_Cons: "positions P (m # ms) = (if P m then [0] else []) @ map Suc (positions P ms)"
proof -
  have "[0..<length (m # ms)] = 0 # map Suc [0..<length ms]" by (simp only: length_Cons map_Suc_upt upt_conv_Cons zero_less_Suc)
  then show ?thesis by (simp add: positions_def filter_map comp_def)
qed

lemma place_Suc: "place (map Suc ps) xs (m # ms) = m # place ps xs ms"
  by (induction ps xs ms rule: place.induct) auto

lemma map_nth_positions: "map ((!) ms) (positions P ms) = filter P ms"
  by (induction ms) (simp_all add: positions_Cons comp_def, simp add: positions_def)

lemma place_fill: "length xs = length (filter P ms) \<Longrightarrow> place (positions P ms) xs ms = fill P xs ms"
proof (induction ms arbitrary: xs)
  case (Cons m ms)
  show ?case
  proof (cases "P m")
    case True
    then obtain y ys where "xs = y # ys" using Cons.prems by (cases xs) auto
    then show ?thesis using Cons True by (simp add: positions_Cons place_Suc)
  next
    case False
    then show ?thesis using Cons by (simp add: positions_Cons place_Suc)
  qed
qed (simp add: positions_def)

lemma fill_keys:
  assumes "length xs = length (filter P ms)" and "\<forall>x \<in> set xs. key x = k" and "\<And>m. P m \<longleftrightarrow> key m = k"
  shows "map key (fill P xs ms) = map key ms \<and> filter P (fill P xs ms) = xs
    \<and> (\<forall>k'. k' \<noteq> k \<longrightarrow> filter (\<lambda>m. key m = k') (fill P xs ms) = filter (\<lambda>m. key m = k') ms)"
  using assms(1,2)
proof (induction ms arbitrary: xs)
  case (Cons m ms)
  show ?case
  proof (cases "P m")
    case True
    then obtain y ys where y: "xs = y # ys" using Cons.prems by (cases xs) auto
    have "key y = k" "P y" using Cons.prems(2) y assms(3) by auto
    then show ?thesis using Cons.IH [of ys] Cons.prems True y assms(3) by auto
  next
    case False
    then show ?thesis using Cons.IH [of xs] Cons.prems assms(3) by auto
  qed
qed simp

lemma positions_keys:
  assumes "map key xs = map key ys"
  shows "positions (\<lambda>m. key m = k) xs = positions (\<lambda>m. key m = k) ys"
proof -
  have l: "length xs = length ys" using assms map_eq_imp_length_eq by blast
  moreover have "key (xs ! i) = key (ys ! i)" if "i < length xs" for i
    using assms that l by (metis nth_map)
  ultimately show ?thesis unfolding positions_def by (intro filter_cong) auto
qed

lemma reorder_batch_keys:
  fixes k :: "string \<times> string"
  assumes "map batch_of cur = map batch_of ms"
  defines "res \<equiv> reorder_batch (positions (\<lambda>m. batch_of m = Some k) ms) cur"
  shows "map batch_of res = map batch_of ms"
    and "filter (\<lambda>m. batch_of m = k') res
      = (if k' = Some k then sort_key batch_index (filter (\<lambda>m. batch_of m = k') cur) else filter (\<lambda>m. batch_of m = k') cur)"
proof -
  let ?P = "\<lambda>m. batch_of m = Some k"
  let ?xs = "sort_key batch_index (filter ?P cur)"
  have res: "res = fill ?P ?xs cur"
    unfolding res_def reorder_batch_def positions_keys [OF assms(1) [symmetric]] map_nth_positions
    by (rule place_fill) simp
  have f: "map batch_of res = map batch_of cur \<and> filter ?P res = ?xs
      \<and> (\<forall>k'. k' \<noteq> Some k \<longrightarrow> filter (\<lambda>m. batch_of m = k') res = filter (\<lambda>m. batch_of m = k') cur)"
    unfolding res by (rule fill_keys) simp_all
  then show "map batch_of res = map batch_of ms" using assms(1) by simp
  from f show "filter (\<lambda>m. batch_of m = k') res
      = (if k' = Some k then sort_key batch_index (filter (\<lambda>m. batch_of m = k') cur) else filter (\<lambda>m. batch_of m = k') cur)"
    by (cases "k' = Some k") simp_all
qed

lemma toDomain_keys:
  assumes "distinct ks"
  shows "map batch_of (toDomain ks ms) = map batch_of ms
    \<and> (\<forall>k. filter (\<lambda>m. batch_of m = k) (toDomain ks ms)
        = (if k \<in> Some ` set ks then sort_key batch_index (filter (\<lambda>m. batch_of m = k) ms) else filter (\<lambda>m. batch_of m = k) ms))"
  using assms
proof (induction ks rule: rev_induct)
  case (snoc k ks)
  let ?c = "toDomain ks ms"
  have c: "map batch_of ?c = map batch_of ms" and f: "filter (\<lambda>m. batch_of m = j) ?c
      = (if j \<in> Some ` set ks then sort_key batch_index (filter (\<lambda>m. batch_of m = j) ms) else filter (\<lambda>m. batch_of m = j) ms)" for j
    using snoc by auto
  have t: "toDomain (ks @ [k]) ms = reorder_batch (positions (\<lambda>m. batch_of m = Some k) ms) ?c"
    by (simp add: toDomain_def)
  show ?case
    unfolding t using reorder_batch_keys [OF c, where k = k] f snoc.prems by auto
qed (simp add: toDomain_def)

lemma spread_keys:
  assumes "\<And>k. length (q k) = length (filter (\<lambda>m. key m = Some k) ms)" and "\<And>k x. x \<in> set (q k) \<Longrightarrow> key x = Some k"
  shows "map key (spread key q ms) = map key ms
    \<and> (\<forall>k. filter (\<lambda>m. key m = Some k) (spread key q ms) = q k)
    \<and> filter (\<lambda>m. key m = None) (spread key q ms) = filter (\<lambda>m. key m = None) ms"
  using assms
proof (induction ms arbitrary: q)
  case (Cons m ms)
  show ?case
  proof (cases "key m")
    case None
    then show ?thesis using Cons.IH [of q] Cons.prems by simp
  next
    case (Some k)
    obtain y ys where y: "q k = y # ys" using Cons.prems(1) [of k] Some by (cases "q k") auto
    have ky: "key y = Some k" using Cons.prems(2) [of y k] y by simp
    have "length ((q(k := tl (q k))) j) = length (filter (\<lambda>m. key m = Some j) ms)" for j
      using Cons.prems(1) [of j] Some y by auto
    moreover have "x \<in> set ((q(k := tl (q k))) j) \<Longrightarrow> key x = Some j" for x j
      using Cons.prems(2) [of x j] y by (auto split: if_splits)
    ultimately have ih: "map key (spread key (q(k := tl (q k))) ms) = map key ms
        \<and> (\<forall>j. filter (\<lambda>m. key m = Some j) (spread key (q(k := tl (q k))) ms) = (q(k := tl (q k))) j)
        \<and> filter (\<lambda>m. key m = None) (spread key (q(k := tl (q k))) ms) = filter (\<lambda>m. key m = None) ms"
      by (rule Cons.IH)
    have "spread key q (m # ms) = y # spread key (q(k := tl (q k))) ms" using Some y by simp
    moreover have "filter (\<lambda>m. key m = Some j) (y # spread key (q(k := tl (q k))) ms) = q j" for j
      using ih ky y by (cases "j = k") (simp_all del: fun_upd_apply add: fun_upd_def)
    ultimately show ?thesis using ih ky Some by (simp only: list.map filter.simps option.distinct if_False) simp
  qed
qed simp

lemma toDomain_spread:
  assumes "distinct ks" and "\<forall>m \<in> set ms. \<forall>k. batch_of m = Some k \<longrightarrow> k \<in> set ks"
  shows "toDomain ks ms = batches_in_order ms"
proof (rule list_by_keys [of batch_of])
  let ?q = "\<lambda>k. sort_key batch_index (filter (in_batch k) ms)"
  have s: "map batch_of (batches_in_order ms) = map batch_of ms
    \<and> (\<forall>k. filter (\<lambda>m. batch_of m = Some k) (batches_in_order ms) = ?q k)
    \<and> filter (\<lambda>m. batch_of m = None) (batches_in_order ms) = filter (\<lambda>m. batch_of m = None) ms"
    unfolding batches_in_order_def in_batch_def [abs_def] by (rule spread_keys) auto
  note t = toDomain_keys [OF assms(1), of ms]
  show "map batch_of (toDomain ks ms) = map batch_of (batches_in_order ms)" using s t by simp
  show "filter (\<lambda>x. batch_of x = k) (toDomain ks ms) = filter (\<lambda>x. batch_of x = k) (batches_in_order ms)" for k
  proof (cases k)
    case (Some b)
    have sb: "filter (\<lambda>m. batch_of m = Some b) (batches_in_order ms) = ?q b" using s by blast
    show ?thesis
    proof (cases "b \<in> set ks")
      case False
      then have "filter (\<lambda>m. batch_of m = Some b) ms = []" using assms(2) unfolding filter_empty_conv by blast
      then show ?thesis using sb t Some False by (simp add: in_batch_def [abs_def] image_iff)
    qed (use sb t Some in \<open>simp add: in_batch_def [abs_def]\<close>)
  qed (use s t in auto)
qed

lemma same_key_fixed:
  assumes "map f xs = map f ys" and "filter (\<lambda>x. f x = k) xs = filter (\<lambda>x. f x = k) ys" and "i < length ys" and "f (ys ! i) = k"
  shows "xs ! i = ys ! i"
  using assms
proof (induction xs arbitrary: ys i)
  case (Cons x xs)
  then obtain y ys' where y: "ys = y # ys'" "f x = f y" "map f xs = map f ys'" by (cases ys) auto
  show ?case
  proof (cases i)
    case 0
    then show ?thesis using Cons.prems y by simp
  next
    case (Suc j)
    have "filter (\<lambda>x. f x = k) xs = filter (\<lambda>x. f x = k) ys'" using Cons.prems(2) y by (simp split: if_splits)
    then show ?thesis using Cons.IH [OF y(3), of j] Cons.prems Suc y by simp
  qed
qed simp

lemma mset_by_keys:
  assumes "\<And>k. mset (filter (\<lambda>x. f x = k) xs) = mset (filter (\<lambda>x. f x = k) ys)"
  shows "mset xs = mset ys"
proof (rule multiset_eqI)
  fix x
  have "count (mset zs) x = count (mset (filter (\<lambda>y. f y = f x) zs)) x" for zs
    by (simp add: mset_filter)
  then show "count (mset xs) x = count (mset ys) x" using assms [of "f x"] by metis
qed

section \<open>Properties\<close>

text \<open>The keys the nested hash tables hold, in any order.\<close>

definition traversal :: "(string \<times> string) list \<Rightarrow> MessageItemDto list \<Rightarrow> bool" where
  "traversal ks ms \<longleftrightarrow> distinct ks \<and> Some ` set ks = set (map batch_of ms) - {None}"

lemma traversal_cover: "traversal ks ms \<Longrightarrow> \<forall>m \<in> set ms. \<forall>k. batch_of m = Some k \<longrightarrow> k \<in> set ks"
proof (intro ballI allI impI)
  fix m k assume t: "traversal ks ms" and m: "m \<in> set ms" "batch_of m = Some k"
  then have "Some k \<in> set (map batch_of ms) - {None}" by force
  then show "k \<in> set ks" using t by (auto simp: traversal_def)
qed

definition demo_item :: "string \<Rightarrow> string \<Rightarrow> string \<Rightarrow> int \<Rightarrow> MessageItemDto" where
  "demo_item i s b n = \<lparr>item_id = i, sender_id = s, recipient_id = ''me'',
     item_body = \<lparr>message_id = i, payload_sender = s, receiver_id = ''me'', reply_message_id = [], timestamp = [],
       payload_content = default_content, attachment_batch_id = b, attachment_index = n\<rparr>, sent_at = []\<rparr>"

definition demo_page :: "MessageItemDto list" where
  "demo_page = [demo_item ''1'' ''a'' ''x'' 2, demo_item ''2'' ''b'' ''x'' 1, demo_item ''3'' ''a'' [] (- 1),
     demo_item ''4'' ''a'' ''x'' 0, demo_item ''5'' ''b'' ''x'' 0]"

lemma demo_traversal: "traversal [(''b'', ''x''), (''a'', ''x'')] demo_page"
  by code_simp

text \<open>
  C24: in whatever order the hash tables are traversed, the result is the reference: each message of
  a batch is replaced by the next one of its batch sorted stably by index.
\<close>

theorem toDomain_reference:
  assumes "traversal ks ms"
  shows "toDomain ks ms = batches_in_order ms"
  using assms by (intro toDomain_spread traversal_cover) (simp_all add: traversal_def)

theorem toDomain_reference_witness:
  "toDomain [(''b'', ''x''), (''a'', ''x'')] demo_page = batches_in_order demo_page
   \<and> map item_id (batches_in_order demo_page) = [''4'', ''5'', ''3'', ''1'', ''2'']"
proof
  show "toDomain [(''b'', ''x''), (''a'', ''x'')] demo_page = batches_in_order demo_page"
    by (rule toDomain_reference [OF demo_traversal])
  show "map item_id (batches_in_order demo_page) = [''4'', ''5'', ''3'', ''1'', ''2'']" by code_simp
qed

text \<open>
  No message is lost or made up, every message outside a batch keeps its place in the history,
  the place of each batch and sender is unchanged, and the messages of each batch end up in the
  order of their indices, those with the same index in the order they came.
\<close>

theorem toDomain_permutes:
  assumes "traversal ks ms"
  shows "mset (toDomain ks ms) = mset ms
    \<and> map batch_of (toDomain ks ms) = map batch_of ms
    \<and> (\<forall>i < length ms. batch_of (ms ! i) = None \<longrightarrow> toDomain ks ms ! i = ms ! i)
    \<and> (\<forall>k. sorted (map batch_index (filter (in_batch k) (toDomain ks ms)))
         \<and> (\<forall>n. filter (\<lambda>m. in_batch k m \<and> batch_index m = n) (toDomain ks ms)
              = filter (\<lambda>m. in_batch k m \<and> batch_index m = n) ms))"
proof -
  have d: "distinct ks" using assms by (simp add: traversal_def)
  note t = toDomain_keys [OF d, of ms]
  have f: "filter (in_batch k) (toDomain ks ms) = sort_key batch_index (filter (in_batch k) ms)" for k
  proof (cases "k \<in> set ks")
    case False
    then have "filter (in_batch k) ms = []"
      using traversal_cover [OF assms] unfolding filter_empty_conv in_batch_def by blast
    then show ?thesis using t False by (auto simp: in_batch_def [abs_def] image_iff)
  qed (use t in \<open>simp add: in_batch_def [abs_def]\<close>)
  have "mset (toDomain ks ms) = mset ms" by (rule mset_by_keys [of batch_of]) (use t in \<open>simp add: sort_key_def [symmetric]\<close>)
  moreover have "toDomain ks ms ! i = ms ! i" if "i < length ms" "batch_of (ms ! i) = None" for i
    by (rule same_key_fixed [of batch_of _ _ None]) (use t that in auto)
  moreover have "filter (\<lambda>m. in_batch k m \<and> batch_index m = n) (toDomain ks ms)
      = filter (\<lambda>m. in_batch k m \<and> batch_index m = n) ms" for k n
  proof -
    have s: "filter (\<lambda>m. in_batch k m \<and> batch_index m = n) zs = filter (\<lambda>m. batch_index m = n) (filter (in_batch k) zs)" for zs
      by (simp add: conj_commute)
    show ?thesis unfolding s f by (rule sort_key_stable)
  qed
  ultimately show ?thesis using t f by simp
qed

theorem toDomain_permutes_witness:
  "mset (toDomain [(''b'', ''x''), (''a'', ''x'')] demo_page) = mset demo_page
   \<and> sorted (map batch_index (filter (in_batch (''a'', ''x'')) (toDomain [(''b'', ''x''), (''a'', ''x'')] demo_page)))"
  using toDomain_permutes [OF demo_traversal] by blast

end
