(* ===== verification/Bytes.thy ===== *)
theory Bytes
  imports Prelude
begin

text \<open>
  The little-endian helpers of \<open>LocalStorage\<close> (core/storage/local_storage.cpp: \<open>w32\<close>,
  \<open>w64\<close>, \<open>r32\<close>, \<open>r64\<close>).  The C++ functions write to or read from a pointer;
  here a writer returns the bytes it stores and a reader takes the bytes at the pointer.
  The loops are the loops of the source, over the byte index.
\<close>

unbundle bit_operations_syntax

definition w32 :: "u32 \<Rightarrow> bytes" where
  "w32 v = map (\<lambda>i. ucast (drop_bit (8 * i) v)) [0..<4]"

definition w64 :: "u64 \<Rightarrow> bytes" where
  "w64 v = map (\<lambda>i. ucast (drop_bit (8 * i) v)) [0..<8]"

definition r32 :: "bytes \<Rightarrow> u32" where
  "r32 p = fold (\<lambda>i v. v OR push_bit (8 * i) (ucast (p ! i))) [0..<4] 0"

definition r64 :: "bytes \<Rightarrow> u64" where
  "r64 p = fold (\<lambda>i v. v OR push_bit (8 * i) (ucast (p ! i))) [0..<8] 0"

lemma length_w32 [simp]: "length (w32 v) = 4"
  by (simp add: w32_def)

lemma length_w64 [simp]: "length (w64 v) = 8"
  by (simp add: w64_def)

lemma upt_4: "[0..<4] = [0, 1, 2, 3 :: nat]"
  by (simp add: upt_rec)

lemma upt_8: "[0..<8] = [0, 1, 2, 3, 4, 5, 6, 7 :: nat]"
  by (simp add: upt_rec)


lemma nth_w32: "i < 4 \<Longrightarrow> w32 v ! i = ucast (drop_bit (8 * i) v)"
  by (simp add: w32_def)

lemma nth_w64: "i < 8 \<Longrightarrow> w64 v ! i = ucast (drop_bit (8 * i) v)"
  by (simp add: w64_def)

text \<open>The readers read the first four or eight bytes and nothing else.\<close>

lemma r32_append: "4 \<le> length p \<Longrightarrow> r32 (p @ q) = r32 p"
  unfolding r32_def by (rule fold_cong) (auto simp: nth_append)

lemma r64_append: "8 \<le> length p \<Longrightarrow> r64 (p @ q) = r64 p"
  unfolding r64_def by (rule fold_cong) (auto simp: nth_append)

text \<open>
  The loop after \<open>k\<close> rounds holds the low \<open>8 * k\<close> bits of the value the bytes were cut from.
\<close>

lemma bit_byte_of_word:
  fixes v :: "'a::len word"
  assumes "n < LENGTH('a)"
  shows "bit (push_bit (8 * i) (ucast (ucast (drop_bit (8 * i) v) :: byte)) :: 'a word) n
     \<longleftrightarrow> 8 * i \<le> n \<and> n < 8 * i + 8 \<and> bit v n"
  using assms by (auto simp: bit_simps)

lemma bit_fold_bytes:
  fixes v :: "'a::len word"
  assumes "n < LENGTH('a)"
  shows "bit (fold (\<lambda>i u. u OR push_bit (8 * i) (ucast (ucast (drop_bit (8 * i) v) :: byte)))
            [0..<k] (0 :: 'a word)) n \<longleftrightarrow> n < 8 * k \<and> bit v n"
proof (induction k)
  case 0
  show ?case by simp
next
  case (Suc k)
  then show ?case
    by (auto simp: bit_or_iff bit_byte_of_word [OF assms])
qed

lemma r32_w32 [simp]: "r32 (w32 v) = v"
proof (rule bit_word_eqI)
  fix n assume n: "n < LENGTH(32)"
  have "r32 (w32 v) = fold (\<lambda>i u. u OR push_bit (8 * i)
            (ucast (ucast (drop_bit (8 * i) v) :: byte))) [0..<4] 0"
    unfolding r32_def by (rule fold_cong) (auto simp: nth_w32)
  with n show "bit (r32 (w32 v)) n \<longleftrightarrow> bit v n"
    by (simp only: bit_fold_bytes) simp
qed

lemma r64_w64 [simp]: "r64 (w64 v) = v"
proof (rule bit_word_eqI)
  fix n assume n: "n < LENGTH(64)"
  have "r64 (w64 v) = fold (\<lambda>i u. u OR push_bit (8 * i)
            (ucast (ucast (drop_bit (8 * i) v) :: byte))) [0..<8] 0"
    unfolding r64_def by (rule fold_cong) (auto simp: nth_w64)
  with n show "bit (r64 (w64 v)) n \<longleftrightarrow> bit v n"
    by (simp only: bit_fold_bytes) simp
qed

end
