(* ===== verification/Disk.thy ===== *)
theory Disk
  imports Bytes
begin

text \<open>
  The open file of a \<open>LocalStorage\<close> and the calls into the operating system and into
  OpenSSL that the store makes: \<open>preadFull\<close>, \<open>pwriteFull\<close>, \<open>synceFd\<close>,
  \<open>randBytes\<close> (core/storage/local_storage.cpp).  What is not code of the
  repository is a parameter carried in the device record: how many bytes a read transfers
  (\<open>read_chunk\<close>), how the next writing calls turn out (\<open>events\<close>) and the
  cryptographic library (\<open>lib\<close>).
\<close>

section \<open>Exceptions, the library and the device\<close>

text \<open>One constructor per exception the store throws.\<close>

datatype storage_error =
    CannotOpen | StoreLocked | FstatFailed | ReadFailed | WriteFailed | FsyncFailed
  | FtruncateFailed | RandFailed | HmacFailed | EncryptionFailed | KeyDerivationFailed
  | BadBlockSize | NotALocalStorageFile | CorruptHeader | WrongPassword
  | BlockAuthentication u64 | BlockMalformed u64 | ShortFile | BrokenChain u64 | ChainLoop
  | UnexpectedBlockType | DirectoryMissing | CorruptDirectory | ReservedTag | NotOpened
  | NoSuchRecord

text \<open>
  The OpenSSL calls: HMAC-SHA256 of a message under a key, AES-256-GCM sealing (key, IV,
  associated data, plaintext to ciphertext and tag) and opening, the scrypt key derivation
  of a password and a salt, and the \<open>n\<close>-th draw of random bytes.  \<open>None\<close> is an
  error return.
\<close>

record crypto =
  hmac :: "bytes \<Rightarrow> bytes \<Rightarrow> bytes option"
  gcm_seal :: "bytes \<Rightarrow> bytes \<Rightarrow> bytes \<Rightarrow> bytes \<Rightarrow> (bytes \<times> bytes) option"
  gcm_open :: "bytes \<Rightarrow> bytes \<Rightarrow> bytes \<Rightarrow> bytes \<Rightarrow> bytes \<Rightarrow> bytes option"
  scrypt :: "bytes \<Rightarrow> bytes \<Rightarrow> bytes option"
  rand :: "nat \<Rightarrow> nat \<Rightarrow> bytes option"

text \<open>
  What the store relies on: opening undoes sealing under the same key, IV and associated
  data, a ciphertext is as long as its plaintext and has a 16-byte tag, and a draw of
  \<open>k\<close> bytes has \<open>k\<close> bytes.
\<close>

definition crypto_ok :: "crypto \<Rightarrow> bool" where
  "crypto_ok c \<longleftrightarrow>
     (\<forall>k iv ad p ct tag. gcm_seal c k iv ad p = Some (ct, tag) \<longrightarrow>
        gcm_open c k iv ad ct tag = Some p \<and> length ct = length p \<and> length tag = 16)
   \<and> (\<forall>k iv ad ct tag p. gcm_open c k iv ad ct tag = Some p \<longrightarrow> length p = length ct)
   \<and> (\<forall>i n bs. rand c i n = Some bs \<longrightarrow> length bs = n)"

text \<open>The library never reports an error: what liveness statements add.\<close>

definition crypto_total :: "crypto \<Rightarrow> bool" where
  "crypto_total c \<longleftrightarrow>
     (\<forall>k m. hmac c k m \<noteq> None) \<and> (\<forall>k iv ad p. gcm_seal c k iv ad p \<noteq> None)
   \<and> (\<forall>i n. rand c i n \<noteq> None)"

text \<open>
  How one writing system call turns out: it does all of its work, a write transfers at most
  \<open>k\<close> bytes, or the call fails.
\<close>

datatype io_event = Done | Short nat | Fail

record device =
  content :: bytes
  events :: "io_event list"
  draws :: nat
  read_chunk :: "nat \<Rightarrow> int \<Rightarrow> int"
  lib :: crypto

text \<open>Reads make progress: a read inside the file transfers at least one byte.\<close>

definition reads_ok :: "device \<Rightarrow> bool" where
  "reads_ok d \<longleftrightarrow> (\<forall>n off. 0 < n \<longrightarrow> 0 < read_chunk d n off)"

section \<open>System calls\<close>

text \<open>
  \<open>pread\<close>: \<open>None\<close> when the call returns zero (end of file) or a negative value
  (an error, or a negative offset); otherwise the bytes transferred.
\<close>

definition sys_pread :: "device \<Rightarrow> nat \<Rightarrow> int \<Rightarrow> bytes option" where
  "sys_pread d n off =
     (if off < 0 then None
      else let r = min (nat (read_chunk d n off)) (min n (length (content d) - nat off))
           in if r = 0 then None else Some (take r (drop (nat off) (content d))))"

text \<open>Writing past the end of a file leaves a hole of zero bytes.\<close>

definition write_at :: "bytes \<Rightarrow> nat \<Rightarrow> bytes \<Rightarrow> bytes" where
  "write_at f off bs =
     (if bs = [] then f
      else take off (f @ replicate (off - length f) 0) @ bs @ drop (off + length bs) f)"

definition next_event :: "device \<Rightarrow> io_event \<times> device" where
  "next_event d = (case events d of [] \<Rightarrow> (Done, d) | e # es \<Rightarrow> (e, d\<lparr>events := es\<rparr>))"

text \<open>\<open>pwrite\<close>: the number of bytes written, \<open>None\<close> for a result of zero or less.\<close>

definition sys_pwrite :: "bytes \<Rightarrow> int \<Rightarrow> device \<Rightarrow> nat option \<times> device" where
  "sys_pwrite bs off d =
     (let (e, d') = next_event d;
          k = (case e of Done \<Rightarrow> length bs | Short k \<Rightarrow> min k (length bs) | Fail \<Rightarrow> 0)
      in if off < 0 \<or> k = 0 then (None, d')
         else (Some k, d'\<lparr>content := write_at (content d') (nat off) (take k bs)\<rparr>))"

section \<open>The read and write loops\<close>

function preadFull :: "device \<Rightarrow> nat \<Rightarrow> int \<Rightarrow> storage_error + bytes" where
  "preadFull d n off =
     (if n = 0 then Inr []
      else case sys_pread d n off of
             None \<Rightarrow> Inl ReadFailed
           | Some bs \<Rightarrow>
               (case preadFull d (n - length bs) (off + int (length bs)) of
                  Inl e \<Rightarrow> Inl e
                | Inr rest \<Rightarrow> Inr (bs @ rest)))"
  by pat_completeness auto
termination
  by (relation "measure (\<lambda>(d, n, off). n)")
     (auto simp: sys_pread_def Let_def split: if_splits)

function pwriteFull :: "bytes \<Rightarrow> int \<Rightarrow> (device, storage_error, unit) op" where
  "pwriteFull bs off d =
     (if bs = [] then (Inr (), d)
      else case sys_pwrite bs off d of
             (None, d') \<Rightarrow> (Inl WriteFailed, d')
           | (Some k, d') \<Rightarrow> pwriteFull (drop k bs) (off + int k) d')"
  by pat_completeness auto
termination
  by (relation "measure (\<lambda>(bs, off, d). length bs)")
     (auto simp: sys_pwrite_def Let_def split: if_splits prod.splits io_event.splits)

declare preadFull.simps [simp del] pwriteFull.simps [simp del]

definition synceFd :: "(device, storage_error, unit) op" where
  "synceFd d = (case next_event d of (Fail, d') \<Rightarrow> (Inl FsyncFailed, d') | (_, d') \<Rightarrow> (Inr (), d'))"

definition sys_ftruncate :: "nat \<Rightarrow> (device, storage_error, unit) op" where
  "sys_ftruncate n d =
     (case next_event d of
        (Fail, d') \<Rightarrow> (Inl FtruncateFailed, d')
      | (_, d') \<Rightarrow> (Inr (), d'\<lparr>content := take n (content d') @ replicate (n - length (content d')) 0\<rparr>))"

definition randBytes :: "nat \<Rightarrow> (device, storage_error, bytes) op" where
  "randBytes n d =
     (case rand (lib d) (draws d) n of
        None \<Rightarrow> (Inl RandFailed, d)
      | Some bs \<Rightarrow> (Inr bs, d\<lparr>draws := Suc (draws d)\<rparr>))"

section \<open>Lemmas: reading\<close>

lemma sys_pread_length:
  "sys_pread d n off = Some bs \<Longrightarrow> 0 < length bs \<and> length bs \<le> n \<and> nat off + length bs \<le> length (content d)"
  by (auto simp: sys_pread_def Let_def split: if_splits)

lemma sys_pread_bytes:
  "sys_pread d n off = Some bs \<Longrightarrow> 0 \<le> off \<and> bs = take (length bs) (drop (nat off) (content d))"
  by (auto simp: sys_pread_def Let_def split: if_splits)

lemma sys_pread_progress:
  assumes "reads_ok d" and "0 < n" and "0 \<le> off" and "nat off < length (content d)"
  shows "\<exists>bs. sys_pread d n off = Some bs"
proof -
  have "0 < read_chunk d n off" using assms(1,2) by (simp add: reads_ok_def)
  then show ?thesis using assms by (auto simp: sys_pread_def Let_def)
qed

lemma preadFull_0 [simp]: "preadFull d 0 off = Inr []"
  by (simp add: preadFull.simps)

text \<open>However the operating system splits the reads, the loop returns the bytes of the file.\<close>

lemma preadFull_Inr:
  "preadFull d n off = Inr bs \<Longrightarrow> 0 < n \<Longrightarrow>
     0 \<le> off \<and> nat off + n \<le> length (content d) \<and> bs = take n (drop (nat off) (content d))"
proof (induction n arbitrary: off bs rule: less_induct)
  case (less n)
  from less.prems obtain as rest where as: "sys_pread d n off = Some as"
    and rest: "preadFull d (n - length as) (off + int (length as)) = Inr rest" and bs: "bs = as @ rest"
    by (auto simp: preadFull.simps [of d n off] split: option.splits sum.splits)
  note len = sys_pread_length [OF as] and eq = sys_pread_bytes [OF as]
  have split: "take n (drop (nat off) (content d)) =
      take (length as) (drop (nat off) (content d))
      @ take (n - length as) (drop (nat off + length as) (content d))"
    using len by (metis add.commute drop_drop le_add_diff_inverse take_add)
  show ?case
  proof (cases "n = length as")
    case True
    with rest bs len eq show ?thesis by simp
  next
    case False
    then have "n - length as < n" and "0 < n - length as" using len by auto
    from less.IH [OF this(1) rest this(2)]
    show ?thesis using bs len eq split by (auto simp: nat_add_distrib)
  qed
qed

lemma preadFull_total:
  "reads_ok d \<Longrightarrow> 0 \<le> off \<Longrightarrow> nat off + n \<le> length (content d) \<Longrightarrow> \<exists>bs. preadFull d n off = Inr bs"
proof (induction n arbitrary: off rule: less_induct)
  case (less n)
  show ?case
  proof (cases "n = 0")
    case True
    then show ?thesis by simp
  next
    case False
    with less.prems obtain as where as: "sys_pread d n off = Some as"
      using sys_pread_progress [of d n off] by auto
    note len = sys_pread_length [OF as]
    have "\<exists>rest. preadFull d (n - length as) (off + int (length as)) = Inr rest"
      using len less.prems False by (intro less.IH) (auto simp: nat_add_distrib)
    with as False show ?thesis by (auto simp: preadFull.simps [of d n off])
  qed
qed

lemma preadFull_eq:
  assumes "reads_ok d" and "0 \<le> off" and "nat off + n \<le> length (content d)" and "0 < n"
  shows "preadFull d n off = Inr (take n (drop (nat off) (content d)))"
proof -
  from preadFull_total [OF assms(1-3)] obtain bs where bs: "preadFull d n off = Inr bs" ..
  with preadFull_Inr [OF bs assms(4)] show ?thesis by simp
qed

text \<open>A read depends only on the bytes of its range.\<close>

lemma preadFull_Inr_cong:
  assumes "preadFull d n off = Inr bs" and "0 < n" and "reads_ok d'"
    and "nat off + n \<le> length (content d')"
    and "take n (drop (nat off) (content d')) = take n (drop (nat off) (content d))"
  shows "preadFull d' n off = Inr bs"
  using preadFull_Inr [OF assms(1,2)] preadFull_eq [OF assms(3) _ assms(4,2)] assms(5) by simp

section \<open>Lemmas: splicing\<close>

lemma write_at_Nil [simp]: "write_at f off [] = f"
  by (simp add: write_at_def)

lemma length_write_at: "bs \<noteq> [] \<Longrightarrow> length (write_at f off bs) = max (length f) (off + length bs)"
  by (auto simp: write_at_def)

lemma length_write_at_ge: "length f \<le> length (write_at f off bs)"
  by (cases "bs = []") (auto simp: length_write_at)

lemma nth_write_at:
  assumes "bs \<noteq> []" and "i < max (length f) (off + length bs)"
  shows "write_at f off bs ! i =
    (if i < off then (if i < length f then f ! i else 0)
     else if i < off + length bs then bs ! (i - off) else f ! i)"
  using assms by (auto simp: write_at_def nth_append min_def)

lemma write_at_write_at_adjacent: "write_at (write_at f off xs) (off + length xs) ys = write_at f off (xs @ ys)"
proof (cases "xs = [] \<or> ys = []")
  case True
  then show ?thesis by auto
next
  case False
  then show ?thesis
    by (intro nth_equalityI) (auto simp: length_write_at nth_write_at nth_append)
qed

lemma read_write_at_same:
  "bs \<noteq> [] \<Longrightarrow> take (length bs) (drop off (write_at f off bs)) = bs"
  by (rule nth_equalityI) (auto simp: length_write_at nth_write_at)

lemma read_write_at_other:
  assumes "off' + n \<le> off \<or> off + length bs \<le> off'" and "off' + n \<le> length f"
  shows "take n (drop off' (write_at f off bs)) = take n (drop off' f)"
proof (cases "bs = []")
  case False
  with assms show ?thesis
    by (intro nth_equalityI) (auto simp: length_write_at nth_write_at)
qed simp

section \<open>Lemmas: writing\<close>

text \<open>What an operation on the file never touches: the library and how reads behave.\<close>

definition same_lib :: "device \<Rightarrow> device \<Rightarrow> bool" where
  "same_lib d d' \<longleftrightarrow> lib d' = lib d \<and> read_chunk d' = read_chunk d"

lemma same_lib_refl [simp, intro]: "same_lib d d"
  by (simp add: same_lib_def)

lemma same_lib_trans: "same_lib a b \<Longrightarrow> same_lib b c \<Longrightarrow> same_lib a c"
  by (simp add: same_lib_def)

lemma same_lib_reads_ok: "same_lib d d' \<Longrightarrow> reads_ok d' = reads_ok d"
  by (simp add: same_lib_def reads_ok_def)

lemma next_event_frame:
  "next_event d = (e, d') \<Longrightarrow> content d' = content d \<and> draws d' = draws d \<and> same_lib d d'"
  by (auto simp: next_event_def same_lib_def split: list.splits)

lemma sys_pwrite_Some:
  assumes "sys_pwrite bs off d = (Some k, d')"
  shows "0 \<le> off \<and> 0 < k \<and> k \<le> length bs \<and> content d' = write_at (content d) (nat off) (take k bs)
    \<and> draws d' = draws d \<and> same_lib d d'"
  using assms
  by (auto simp: sys_pwrite_def Let_def next_event_def same_lib_def
      split: prod.splits if_splits list.splits io_event.splits)

lemma sys_pwrite_None:
  assumes "sys_pwrite bs off d = (None, d')"
  shows "content d' = content d \<and> draws d' = draws d \<and> same_lib d d'"
  using assms
  by (auto simp: sys_pwrite_def Let_def next_event_def same_lib_def
      split: prod.splits if_splits list.splits io_event.splits)

text \<open>
  A completed write has stored all of its bytes; a failed one has stored a proper prefix,
  whatever the sizes of the partial writes.
\<close>

lemma pwriteFull_result:
  "pwriteFull bs off d = (r, d') \<Longrightarrow>
     same_lib d d' \<and> draws d' = draws d \<and>
     (case r of
        Inr _ \<Rightarrow> (bs = [] \<or> 0 \<le> off) \<and> content d' = write_at (content d) (nat off) bs
      | Inl e \<Rightarrow> e = WriteFailed \<and>
          (\<exists>k < length bs. content d' = write_at (content d) (nat off) (take k bs)))"
proof (induction bs arbitrary: off d rule: length_induct)
  case (1 bs)
  show ?case
  proof (cases "bs = []")
    case True
    with "1.prems" show ?thesis by (auto simp: pwriteFull.simps)
  next
    case False
    obtain w d1 where w: "sys_pwrite bs off d = (w, d1)" by fastforce
    show ?thesis
    proof (cases w)
      case None
      with w "1.prems" False have "r = Inl WriteFailed" and "d' = d1"
        by (auto simp: pwriteFull.simps [of bs off d])
      moreover have "content d1 = write_at (content d) (nat off) (take 0 bs)"
        using sys_pwrite_None w None by simp
      ultimately show ?thesis using sys_pwrite_None [of bs off d d1] w None False by auto
    next
      case (Some k)
      note step = sys_pwrite_Some [OF w [unfolded Some]]
      from w Some "1.prems" False have rec: "pwriteFull (drop k bs) (off + int k) d1 = (r, d')"
        by (simp add: pwriteFull.simps [of bs off d])
      have off': "nat (off + int k) = nat off + length (take k bs)"
        using step by (simp add: nat_add_distrib)
      have join: "write_at (content d1) (nat (off + int k)) ys = write_at (content d) (nat off) (take k bs @ ys)" for ys
        using step write_at_write_at_adjacent [of "content d" "nat off" "take k bs" ys]
        by (simp only: off')
      have tk: "take k bs @ take j (drop k bs) = take (k + j) bs" for j
        by (simp add: take_add)
      have "length (drop k bs) < length bs" using step False by simp
      with "1.IH" rec have IH: "same_lib d1 d' \<and> draws d' = draws d1 \<and>
         (case r of
            Inr _ \<Rightarrow> (drop k bs = [] \<or> 0 \<le> off + int k)
              \<and> content d' = write_at (content d1) (nat (off + int k)) (drop k bs)
          | Inl e \<Rightarrow> e = WriteFailed \<and> (\<exists>j < length (drop k bs).
              content d' = write_at (content d1) (nat (off + int k)) (take j (drop k bs))))"
        by blast
      show ?thesis
      proof (cases r)
        case (Inl e)
        with IH obtain j where j: "j < length bs - k" "e = WriteFailed"
          "content d' = write_at (content d) (nat off) (take (k + j) bs)"
          by (auto simp: join tk)
        then show ?thesis using Inl IH step
          by (auto intro: same_lib_trans intro!: exI [of _ "k + j"])
      next
        case (Inr u)
        with IH join [of "drop k bs"] have "content d' = write_at (content d) (nat off) bs"
          by simp
        with Inr IH step show ?thesis by (auto intro: same_lib_trans)
      qed
    qed
  qed
qed

lemma pwriteFull_quiet:
  assumes "events d = []" and "0 \<le> off" and "bs \<noteq> []"
  shows "pwriteFull bs off d = (Inr (), d\<lparr>content := write_at (content d) (nat off) bs\<rparr>)"
proof -
  have "sys_pwrite bs off d = (Some (length bs), d\<lparr>content := write_at (content d) (nat off) bs\<rparr>)"
    using assms by (simp add: sys_pwrite_def next_event_def)
  with assms(3) show ?thesis by (simp add: pwriteFull.simps)
qed

lemma synceFd_frame:
  "synceFd d = (r, d') \<Longrightarrow> content d' = content d \<and> draws d' = draws d \<and> same_lib d d'"
  by (auto simp: synceFd_def split: prod.splits io_event.splits dest: next_event_frame)

lemma synceFd_quiet: "events d = [] \<Longrightarrow> synceFd d = (Inr (), d)"
  by (simp add: synceFd_def next_event_def)

lemma randBytes_frame:
  "randBytes n d = (r, d') \<Longrightarrow> content d' = content d \<and> events d' = events d \<and> same_lib d d'"
  by (auto simp: randBytes_def same_lib_def split: option.splits)

end
