(* ===== verification/Block_IO.thy ===== *)
theory Block_IO
  imports Disk
begin

text \<open>
  The state of a \<open>LocalStorage\<close> and its encrypted block input and output
  (core/storage/local_storage.hpp, core/storage/local_storage.cpp: \<open>blockOffset\<close>,
  \<open>subkey\<close>, \<open>aeadEncrypt\<close>, \<open>aeadDecrypt\<close>, \<open>setGeometry\<close>, \<open>writeBlock\<close>,
  \<open>readBlock\<close>), and the interface \<open>block_device\<close> the record layer uses.
\<close>

section \<open>State\<close>

definition kNonce :: nat where "kNonce = 24"
definition kTag :: nat where "kTag = 16"
definition kKey :: nat where "kKey = 32"
definition kSalt :: nat where "kSalt = 16"
definition kBlkHdr :: nat where "kBlkHdr = 17"
definition kDirTag :: u32 where "kDirTag = 0xFFFFFFFF"

lemmas size_defs = kNonce_def kTag_def kKey_def kSalt_def kBlkHdr_def

record blk =
  blk_type :: byte
  blk_tag :: u32
  blk_next :: u64
  blk_used :: u32
  plain :: bytes

record head_info =
  hi_tag :: u32
  hi_next :: u64

text \<open>
  The members of \<open>LocalStorage\<close>.  \<open>m_fd\<close> is the device with the flag \<open>is_open\<close>;
  \<open>m_free\<close> is a vector whose back is the last element; \<open>m_roots\<close>, a
  \<open>std::map\<close>, is an association list kept in key order.
\<close>

record store =
  dev :: device
  is_open :: bool
  opt_block_size :: nat
  durable :: bool
  m_bs :: nat
  m_plain :: nat
  m_cap :: nat
  m_nblocks :: u64
  m_dirId :: u64
  m_dirDirty :: bool
  m_key :: bytes
  m_free :: "u64 list"
  m_head :: "u64 \<rightharpoonup> head_info"
  m_byTag :: "u32 \<rightharpoonup> u64 set"
  m_roots :: "(bytes \<times> u64) list"

definition on_dev :: "(device, 'e, 'a) op \<Rightarrow> (store, 'e, 'a) op" where
  "on_dev m s = (case m (dev s) of (r, d) \<Rightarrow> (r, s\<lparr>dev := d\<rparr>))"

definition blk_data :: "blk \<Rightarrow> bytes" where
  "blk_data b = drop kBlkHdr (plain b)"

definition setGeometry :: "nat \<Rightarrow> store \<Rightarrow> store" where
  "setGeometry bs s = s\<lparr>m_bs := bs, m_plain := bs - kNonce - kTag, m_cap := bs - kNonce - kTag - kBlkHdr\<rparr>"

section \<open>Encryption of one block\<close>

definition subkey :: "store \<Rightarrow> bytes \<Rightarrow> storage_error + bytes" where
  "subkey s nonce =
     (case hmac (lib (dev s)) (m_key s) nonce of
        None \<Rightarrow> Inl HmacFailed
      | Some k \<Rightarrow> if length k = kKey then Inr k else Inl HmacFailed)"

definition aeadEncrypt :: "store \<Rightarrow> bytes \<Rightarrow> bytes \<Rightarrow> bytes \<Rightarrow> storage_error + bytes" where
  "aeadEncrypt s nonce ad inp =
     (case subkey s nonce of
        Inl e \<Rightarrow> Inl e
      | Inr sk \<Rightarrow>
          (case gcm_seal (lib (dev s)) sk (replicate 12 0) ad inp of
             None \<Rightarrow> Inl EncryptionFailed
           | Some (ct, tag) \<Rightarrow> Inr (ct @ tag)))"

text \<open>\<open>None\<close> is the \<open>false\<close> of the C++ function.\<close>

definition aeadDecrypt :: "store \<Rightarrow> bytes \<Rightarrow> bytes \<Rightarrow> bytes \<Rightarrow> storage_error + bytes option" where
  "aeadDecrypt s nonce ad inp =
     (if length inp < kTag then Inr None
      else case subkey s nonce of
        Inl e \<Rightarrow> Inl e
      | Inr sk \<Rightarrow>
          (let clen = length inp - kTag
           in Inr (gcm_open (lib (dev s)) sk (replicate 12 0) ad (take clen inp) (drop clen inp))))"

section \<open>Reading and writing blocks\<close>

definition blockOffset :: "store \<Rightarrow> u64 \<Rightarrow> u64" where
  "blockOffset s bid = of_nat (m_bs s) + (bid - 1) * of_nat (m_bs s)"

definition block_plain :: "nat \<Rightarrow> byte \<Rightarrow> u32 \<Rightarrow> u64 \<Rightarrow> bytes \<Rightarrow> bytes" where
  "block_plain n ty tag nxt dat =
     ty # w32 tag @ w64 nxt @ w32 (of_nat (length dat)) @ dat @ replicate (n - kBlkHdr - length dat) 0"

definition writeBlock :: "u64 \<Rightarrow> byte \<Rightarrow> u32 \<Rightarrow> u64 \<Rightarrow> bytes \<Rightarrow> (store, storage_error, unit) op" where
  "writeBlock bid ty tag nxt dat =
     bind (on_dev (randBytes kNonce)) (\<lambda>nonce.
     bind (reads (\<lambda>s. aeadEncrypt s nonce (w64 bid) (block_plain (m_plain s) ty tag nxt dat))) (\<lambda>ct.
     bind (reads (\<lambda>s. Inr (sint (blockOffset s bid)))) (\<lambda>off.
     on_dev (pwriteFull (nonce @ ct) off))))"

definition parse_block :: "nat \<Rightarrow> u64 \<Rightarrow> bytes \<Rightarrow> storage_error + blk" where
  "parse_block cap bid pl =
     (let b = \<lparr>blk_type = pl ! 0, blk_tag = r32 (drop 1 pl), blk_next = r64 (drop 5 pl),
               blk_used = r32 (drop 13 pl), plain = pl\<rparr>
      in if 2 < blk_type b \<or> cap < unat (blk_used b) then Inl (BlockMalformed bid) else Inr b)"

definition readBlock :: "store \<Rightarrow> u64 \<Rightarrow> storage_error + blk" where
  "readBlock s bid =
     (case preadFull (dev s) (m_bs s) (sint (blockOffset s bid)) of
        Inl e \<Rightarrow> Inl e
      | Inr raw \<Rightarrow>
          (case aeadDecrypt s (take kNonce raw) (w64 bid) (drop kNonce raw) of
             Inl e \<Rightarrow> Inl e
           | Inr None \<Rightarrow> Inl (BlockAuthentication bid)
           | Inr (Some pl) \<Rightarrow> parse_block (m_cap s) bid pl))"

definition sync :: "(store, storage_error, unit) op" where
  "sync = on_dev synceFd"

section \<open>The interface the record layer uses\<close>

text \<open>The bytes of a block that belong to its record.\<close>

definition payload :: "blk \<Rightarrow> bytes" where
  "payload b = take (unat (blk_used b)) (blk_data b)"

definition holds :: "blk \<Rightarrow> byte \<Rightarrow> u32 \<Rightarrow> u64 \<Rightarrow> bytes \<Rightarrow> bool" where
  "holds b ty tag nxt dat \<longleftrightarrow>
     blk_type b = ty \<and> blk_tag b = tag \<and> blk_next b = nxt \<and> payload b = dat"

text \<open>
  A block device: \<open>good\<close> states are kept by every write, completed or not, a completed
  write is read back, and no write, completed or not, damages another block.
\<close>

locale block_device =
  fixes rd :: "'s \<Rightarrow> u64 \<Rightarrow> storage_error + blk"
    and wr :: "u64 \<Rightarrow> byte \<Rightarrow> u32 \<Rightarrow> u64 \<Rightarrow> bytes \<Rightarrow> ('s, storage_error, unit) op"
    and fl :: "('s, storage_error, unit) op"
    and good :: "'s \<Rightarrow> bool"
    and addr :: "'s \<Rightarrow> u64 set"
    and cap :: "'s \<Rightarrow> nat"
  assumes wr_frame: "good s \<Longrightarrow> x \<in> addr s \<Longrightarrow> length dat \<le> cap s \<Longrightarrow> wr x ty tag nxt dat s = (r, t) \<Longrightarrow> good t \<and> addr t = addr s \<and> cap t = cap s"
    and rd_wr_same: "good s \<Longrightarrow> x \<in> addr s \<Longrightarrow> ty \<le> 2 \<Longrightarrow> length dat \<le> cap s \<Longrightarrow>
          wr x ty tag nxt dat s = (Inr u, t) \<Longrightarrow> \<exists>b. rd t x = Inr b \<and> holds b ty tag nxt dat"
    and rd_wr_other: "good s \<Longrightarrow> x \<in> addr s \<Longrightarrow> y \<in> addr s \<Longrightarrow> y \<noteq> x \<Longrightarrow> length dat \<le> cap s \<Longrightarrow>
          rd s y = Inr b \<Longrightarrow> wr x ty tag nxt dat s = (r, t) \<Longrightarrow> rd t y = Inr b"
    and fl_frame: "good s \<Longrightarrow> fl s = (r, t) \<Longrightarrow>
          good t \<and> addr t = addr s \<and> cap t = cap s \<and> (\<forall>y b. y \<in> addr s \<longrightarrow> rd s y = Inr b \<longrightarrow> rd t y = Inr b)"
    and addr_nonzero: "0 \<notin> addr s"

section \<open>The store provides it\<close>

text \<open>
  The geometry \<open>setGeometry\<close> establishes from a block size that passed the header check.
\<close>

definition geometry :: "store \<Rightarrow> bool" where
  "geometry s \<longleftrightarrow> 128 \<le> m_bs s \<and> m_bs s \<le> 2 ^ 20 \<and> m_plain s = m_bs s - 40 \<and> m_cap s = m_bs s - 57"

definition good :: "store \<Rightarrow> bool" where
  "good s \<longleftrightarrow> crypto_ok (lib (dev s)) \<and> reads_ok (dev s) \<and> geometry s"

text \<open>Block numbers whose bytes lie below the largest file offset.\<close>

definition addressable :: "store \<Rightarrow> u64 set" where
  "addressable s = {x. x \<noteq> 0 \<and> (unat x + 1) * m_bs s < 2 ^ 63}"

definition block_bytes :: "store \<Rightarrow> u64 \<Rightarrow> bytes" where
  "block_bytes s x = take (m_bs s) (drop (unat x * m_bs s) (content (dev s)))"

lemma setGeometry_geometry:
  "128 \<le> bs \<Longrightarrow> bs \<le> 2 ^ 20 \<Longrightarrow> geometry (setGeometry bs s)"
  by (simp add: geometry_def setGeometry_def size_defs)

lemma addressable_bounds:
  assumes "good s" and "x \<in> addressable s"
  shows "x \<noteq> 0" and "unat x * m_bs s + m_bs s < 2 ^ 63" and "0 < m_bs s"
  using assms by (auto simp: addressable_def good_def geometry_def algebra_simps)

lemma blockOffset_eq:
  assumes "good s" and "x \<in> addressable s"
  shows "sint (blockOffset s x) = int (unat x * m_bs s)"
proof -
  note b = addressable_bounds [OF assms]
  have bs: "m_bs s < 2 ^ 64" using assms(1) by (simp add: good_def geometry_def)
  have eq: "blockOffset s x = x * of_nat (m_bs s)"
    by (simp add: blockOffset_def algebra_simps)
  have "unat x * m_bs s < 2 ^ 64" using b(2) by simp
  then have u: "unat (blockOffset s x) = unat x * m_bs s"
    using bs by (simp add: eq unat_word_ariths unat_of_nat)
  have "uint (blockOffset s x) = int (unat (blockOffset s x))" by simp
  then have uint: "uint (blockOffset s x) = int (unat x * m_bs s)"
    by (simp only: u)
  have "int (unat x * m_bs s) < int (2 ^ 63)"
    using b(2) by (simp only: of_nat_less_iff)
  then have "uint (blockOffset s x) < 2 ^ 63"
    by (simp only: uint of_nat_power of_nat_numeral)
  then have "sint (blockOffset s x) = uint (blockOffset s x)"
    unfolding sint_uint by (intro signed_take_bit_int_eq_self) (auto intro: order_trans [of _ 0])
  then show ?thesis by (simp only: uint)
qed

lemma length_block_plain [simp]:
  "kBlkHdr \<le> n \<Longrightarrow> length dat \<le> n - kBlkHdr \<Longrightarrow> length (block_plain n ty tag nxt dat) = n"
  by (auto simp: block_plain_def kBlkHdr_def)

lemma parse_block_plain:
  assumes "ty \<le> 2" and "length dat \<le> cap" and "cap < 2 ^ 32"
  shows "\<exists>b. parse_block cap bid (block_plain n ty tag nxt dat) = Inr b \<and> holds b ty tag nxt dat"
proof -
  have used: "unat (of_nat (length dat) :: u32) = length dat"
    using assms by (simp add: unat_of_nat)
  let ?pl = "block_plain n ty tag nxt dat"
  have "?pl ! 0 = ty" "r32 (drop 1 ?pl) = tag" "r64 (drop 5 ?pl) = nxt"
    "r32 (drop 13 ?pl) = of_nat (length dat)"
    "take (length dat) (drop kBlkHdr ?pl) = dat"
    by (simp_all add: block_plain_def kBlkHdr_def r32_append r64_append)
  then show ?thesis
    using assms by (auto simp: parse_block_def Let_def holds_def payload_def blk_data_def used not_less)
qed

lemma aeadEncrypt_decrypt:
  assumes "crypto_ok (lib (dev s))" and "aeadEncrypt s nonce ad pl = Inr ct"
  shows "length ct = length pl + kTag \<and> aeadDecrypt s nonce ad ct = Inr (Some pl)"
  using assms
  by (auto simp: aeadEncrypt_def aeadDecrypt_def crypto_ok_def kTag_def Let_def
      split: sum.splits option.splits prod.splits)

text \<open>Reading a block depends only on the bytes of that block.\<close>

lemma readBlock_Inr_bytes:
  assumes "good s" and "x \<in> addressable s" and "readBlock s x = Inr b"
  shows "unat x * m_bs s + m_bs s \<le> length (content (dev s))"
proof -
  obtain raw where "preadFull (dev s) (m_bs s) (sint (blockOffset s x)) = Inr raw"
    using assms(3) by (auto simp: readBlock_def split: sum.splits)
  then have "nat (sint (blockOffset s x)) + m_bs s \<le> length (content (dev s))"
    using preadFull_Inr addressable_bounds(3) [OF assms(1,2)] by blast
  then show ?thesis by (simp add: blockOffset_eq [OF assms(1,2)] flip: of_nat_mult)
qed

lemma readBlock_bytes:
  assumes "good s" and "x \<in> addressable s"
    and "unat x * m_bs s + m_bs s \<le> length (content (dev s))"
  shows "readBlock s x =
     (case aeadDecrypt s (take kNonce (block_bytes s x)) (w64 x) (drop kNonce (block_bytes s x)) of
        Inl e \<Rightarrow> Inl e
      | Inr None \<Rightarrow> Inl (BlockAuthentication x)
      | Inr (Some pl) \<Rightarrow> parse_block (m_cap s) x pl)"
proof -
  have "preadFull (dev s) (m_bs s) (sint (blockOffset s x)) = Inr (block_bytes s x)"
    using assms addressable_bounds(3) [OF assms(1,2)]
    by (simp add: blockOffset_eq block_bytes_def preadFull_eq good_def flip: of_nat_mult)
  then show ?thesis by (simp add: readBlock_def)
qed

text \<open>Writes leave everything but the device alone.\<close>

definition same_store :: "store \<Rightarrow> store \<Rightarrow> bool" where
  "same_store s t \<longleftrightarrow> (\<exists>d. t = s\<lparr>dev := d\<rparr> \<and> same_lib (dev s) d)"

lemma same_store_refl [simp, intro]: "same_store s s"
  by (auto simp: same_store_def intro!: exI [of _ "dev s"])

lemma same_store_trans: "same_store a b \<Longrightarrow> same_store b c \<Longrightarrow> same_store a c"
  by (auto simp: same_store_def dest: same_lib_trans intro!: exI [of _ "dev c"])

lemma same_store_good: "same_store s t \<Longrightarrow> good t = good s"
  by (auto simp: same_store_def good_def geometry_def same_lib_reads_ok) (auto simp: same_lib_def)

lemma same_store_addressable: "same_store s t \<Longrightarrow> addressable t = addressable s"
  by (auto simp: same_store_def addressable_def)

lemma same_store_fields:
  assumes "same_store s t"
  shows "is_open t = is_open s" "durable t = durable s" "m_bs t = m_bs s" "m_plain t = m_plain s"
    "m_cap t = m_cap s" "m_nblocks t = m_nblocks s" "m_dirId t = m_dirId s"
    "m_dirDirty t = m_dirDirty s" "m_key t = m_key s" "m_free t = m_free s"
    "m_head t = m_head s" "m_byTag t = m_byTag s" "m_roots t = m_roots s"
    "opt_block_size t = opt_block_size s"
  using assms by (auto simp: same_store_def)

lemma same_store_aead: "same_store s t \<Longrightarrow> aeadDecrypt t = aeadDecrypt s"
  by (auto simp: fun_eq_iff aeadDecrypt_def subkey_def same_store_def same_lib_def Let_def
      split: sum.splits option.splits)

lemma readBlock_same_bytes:
  assumes "good s" and "x \<in> addressable s" and "same_store s t"
    and "length (content (dev s)) \<le> length (content (dev t))"
    and "block_bytes t x = block_bytes s x" and "readBlock s x = Inr b"
  shows "readBlock t x = Inr b"
proof -
  have len: "unat x * m_bs s + m_bs s \<le> length (content (dev s))"
    by (rule readBlock_Inr_bytes [OF assms(1,2,6)])
  have t: "good t" "x \<in> addressable t" "unat x * m_bs t + m_bs t \<le> length (content (dev t))"
    using assms len by (auto simp: same_store_good same_store_addressable same_store_fields)
  have "readBlock t x = readBlock s x"
    unfolding readBlock_bytes [OF t] readBlock_bytes [OF assms(1,2) len]
    by (simp only: assms(5) same_store_fields [OF assms(3)] same_store_aead [OF assms(3)])
  with assms(6) show ?thesis by simp
qed

lemma on_dev_same_store:
  "on_dev m s = (r, t) \<Longrightarrow> (\<And>r d. m (dev s) = (r, d) \<Longrightarrow> same_lib (dev s) d) \<Longrightarrow> same_store s t"
  by (auto simp: on_dev_def same_store_def split: prod.splits)

lemma writeBlock_steps:
  assumes "writeBlock x ty tag nxt dat s = (r, t)"
  shows "(\<exists>e. r = Inl e \<and> same_store s t \<and> content (dev t) = content (dev s))
    \<or> (\<exists>nonce ct s1. same_store s s1 \<and> content (dev s1) = content (dev s)
         \<and> (\<exists>i. rand (lib (dev s)) i kNonce = Some nonce)
         \<and> aeadEncrypt s1 nonce (w64 x) (block_plain (m_plain s) ty tag nxt dat) = Inr ct
         \<and> on_dev (pwriteFull (nonce @ ct) (sint (blockOffset s x))) s1 = (r, t))"
proof -
  obtain r1 s1 where rb: "on_dev (randBytes kNonce) s = (r1, s1)" by fastforce
  have ss: "same_store s s1" and co: "content (dev s1) = content (dev s)"
    using rb randBytes_frame by (auto simp: on_dev_def same_store_def split: prod.splits)
  show ?thesis
  proof (cases r1)
    case (Inl e)
    with rb assms have "r = Inl e" "t = s1" by (auto simp: writeBlock_def)
    with ss co show ?thesis by blast
  next
    case (Inr nonce)
    have rnd: "\<exists>i. rand (lib (dev s)) i kNonce = Some nonce"
      using rb Inr by (auto simp: on_dev_def randBytes_def split: prod.splits option.splits)
    let ?e = "aeadEncrypt s1 nonce (w64 x) (block_plain (m_plain s) ty tag nxt dat)"
    have rest: "bind (reads (\<lambda>s. aeadEncrypt s nonce (w64 x) (block_plain (m_plain s) ty tag nxt dat)))
        (\<lambda>ct. bind (reads (\<lambda>s. Inr (sint (blockOffset s x)))) (\<lambda>off. on_dev (pwriteFull (nonce @ ct) off))) s1 = (r, t)"
      using assms rb Inr by (simp add: writeBlock_def)
    have off: "blockOffset s1 x = blockOffset s x"
      by (simp add: blockOffset_def same_store_fields [OF ss])
    show ?thesis
    proof (cases ?e)
      case (Inl e)
      with rest ss have "r = Inl e" "t = s1"
        by (auto simp: bind_def reads_def same_store_fields split: sum.splits)
      with ss co show ?thesis by blast
    next
      case (Inr ct)
      with rest ss have "on_dev (pwriteFull (nonce @ ct) (sint (blockOffset s x))) s1 = (r, t)"
        by (auto simp: bind_def reads_def same_store_fields off split: sum.splits)
      with ss co rnd Inr show ?thesis by blast
    qed
  qed
qed

text \<open>
  Completed or not, \<open>writeBlock\<close> changes only bytes of its own block; completed, the
  block's bytes are the nonce and the sealed block.
\<close>

lemma writeBlock_effect:
  assumes g: "good s" and x: "x \<in> addressable s" and len: "length dat \<le> m_cap s"
    and w: "writeBlock x ty tag nxt dat s = (r, t)"
  shows "same_store s t \<and> (\<exists>pre. length pre \<le> m_bs s
      \<and> content (dev t) = write_at (content (dev s)) (unat x * m_bs s) pre
      \<and> (r = Inr () \<longrightarrow> length pre = m_bs s \<and> length (take kNonce pre) = kNonce
          \<and> aeadDecrypt s (take kNonce pre) (w64 x) (drop kNonce pre)
              = Inr (Some (block_plain (m_plain s) ty tag nxt dat))))"
  using writeBlock_steps [OF w]
proof (elim disjE exE conjE)
  fix e assume "r = Inl e" "same_store s t" "content (dev t) = content (dev s)"
  then show ?thesis by (auto intro!: exI [of _ "[]"])
next
  fix nonce ct s1 i
  assume ss: "same_store s s1" and co: "content (dev s1) = content (dev s)"
    and rnd: "rand (lib (dev s)) i kNonce = Some nonce"
    and enc: "aeadEncrypt s1 nonce (w64 x) (block_plain (m_plain s) ty tag nxt dat) = Inr ct"
    and wr: "on_dev (pwriteFull (nonce @ ct) (sint (blockOffset s x))) s1 = (r, t)"
  have geo: "geometry s" and cr: "crypto_ok (lib (dev s))" using g by (auto simp: good_def)
  have n24: "length nonce = kNonce" using cr rnd by (auto simp: crypto_ok_def)
  have "good s1" using ss g by (simp add: same_store_good)
  then have g1: "crypto_ok (lib (dev s1))" by (simp add: good_def)
  note dec = aeadEncrypt_decrypt [OF g1 enc, unfolded same_store_aead [OF ss]]
  have pl: "length (block_plain (m_plain s) ty tag nxt dat) = m_plain s"
    using geo len by (intro length_block_plain) (auto simp: geometry_def kBlkHdr_def)
  have full: "length (nonce @ ct) = m_bs s"
    using dec n24 pl geo by (simp add: size_defs geometry_def)
  obtain d where d: "pwriteFull (nonce @ ct) (int (unat x * m_bs s)) (dev s1) = (r, d)" and t: "t = s1\<lparr>dev := d\<rparr>"
    using wr by (auto simp: on_dev_def blockOffset_eq [OF g x] split: prod.splits)
  note res = pwriteFull_result [OF d]
  have "same_store s1 t"
    using res t by (auto simp: same_store_def intro!: exI [of _ d])
  with ss have st: "same_store s t" by (rule same_store_trans)
  show ?thesis
  proof (cases r)
    case (Inl e)
    with res obtain k where "k < length (nonce @ ct)"
      "content (dev t) = write_at (content (dev s)) (unat x * m_bs s) (take k (nonce @ ct))"
      by (auto simp: t co nat_mult_distrib simp flip: of_nat_mult)
    with st full Inl show ?thesis by (auto intro!: exI [of _ "take k (nonce @ ct)"])
  next
    case (Inr u)
    with res have "content (dev t) = write_at (content (dev s)) (unat x * m_bs s) (nonce @ ct)"
      by (auto simp: t co simp flip: of_nat_mult)
    with st full Inr dec n24 show ?thesis by (auto intro!: exI [of _ "nonce @ ct"])
  qed
qed

lemma disjoint_blocks:
  fixes x y :: u64
  assumes "x \<noteq> y"
  shows "unat y * n + n \<le> unat x * n \<or> unat x * n + n \<le> unat y * n"
proof -
  have "unat x \<noteq> unat y" using assms by (simp add: word_unat_eq_iff)
  then consider "unat y + 1 \<le> unat x" | "unat x + 1 \<le> unat y" by linarith
  then show ?thesis
  proof cases
    case 1
    from mult_le_mono1 [OF 1, of n] show ?thesis by (simp add: algebra_simps)
  next
    case 2
    from mult_le_mono1 [OF 2, of n] show ?thesis by (simp add: algebra_simps)
  qed
qed

lemma writeBlock_same:
  assumes g: "good s" and x: "x \<in> addressable s" and ty: "ty \<le> 2" and len: "length dat \<le> m_cap s"
    and w: "writeBlock x ty tag nxt dat s = (Inr u, t)"
  shows "\<exists>b. readBlock t x = Inr b \<and> holds b ty tag nxt dat"
proof -
  from writeBlock_effect [OF g x len w] obtain pre where ss: "same_store s t"
    and co: "content (dev t) = write_at (content (dev s)) (unat x * m_bs s) pre"
    and lp: "length pre = m_bs s"
    and dec: "aeadDecrypt s (take kNonce pre) (w64 x) (drop kNonce pre)
        = Inr (Some (block_plain (m_plain s) ty tag nxt dat))"
    by auto
  have ne: "pre \<noteq> []" using lp addressable_bounds(3) [OF g x] by auto
  have bb: "block_bytes t x = pre"
    using read_write_at_same [OF ne] lp by (simp add: block_bytes_def co same_store_fields [OF ss])
  have t: "good t" "x \<in> addressable t" "unat x * m_bs t + m_bs t \<le> length (content (dev t))"
    using g x lp ne by (auto simp: same_store_good [OF ss] same_store_addressable [OF ss]
        same_store_fields [OF ss] co length_write_at)
  have "readBlock t x = parse_block (m_cap t) x (block_plain (m_plain s) ty tag nxt dat)"
    unfolding readBlock_bytes [OF t] bb same_store_aead [OF ss] dec by simp
  moreover have "m_cap t < 2 ^ 32" and "length dat \<le> m_cap t"
    using t(1) len by (auto simp: good_def geometry_def same_store_fields [OF ss])
  ultimately show ?thesis using parse_block_plain [OF ty] by metis
qed

lemma writeBlock_other:
  assumes g: "good s" and x: "x \<in> addressable s" and y: "y \<in> addressable s" and ne: "y \<noteq> x"
    and len: "length dat \<le> m_cap s" and rd: "readBlock s y = Inr b"
    and w: "writeBlock x ty tag nxt dat s = (r, t)"
  shows "readBlock t y = Inr b"
proof -
  from writeBlock_effect [OF g x len w] obtain pre where ss: "same_store s t"
    and lp: "length pre \<le> m_bs s"
    and co: "content (dev t) = write_at (content (dev s)) (unat x * m_bs s) pre"
    by auto
  have inside: "unat y * m_bs s + m_bs s \<le> length (content (dev s))"
    by (rule readBlock_Inr_bytes [OF g y rd])
  have "unat y * m_bs s + m_bs s \<le> unat x * m_bs s \<or> unat x * m_bs s + length pre \<le> unat y * m_bs s"
    using disjoint_blocks [of x y "m_bs s"] ne lp by auto
  then have "block_bytes t y = block_bytes s y"
    using read_write_at_other inside by (simp add: block_bytes_def co same_store_fields [OF ss])
  then show ?thesis
    using readBlock_same_bytes [OF g y ss _ _ rd] by (simp add: co length_write_at_ge)
qed

lemma sync_same_store: "sync s = (r, t) \<Longrightarrow> same_store s t \<and> content (dev t) = content (dev s)"
  by (auto simp: sync_def on_dev_def same_store_def dest: synceFd_frame split: prod.splits)

interpretation bd: block_device readBlock writeBlock sync good addressable m_cap
proof
  show "0 \<notin> addressable s" for s by (simp add: addressable_def)
next
  fix s x ty tag nxt dat r t
  assume "good s" "x \<in> addressable s" "length dat \<le> m_cap s" "writeBlock x ty tag nxt dat s = (r, t)"
  then have "same_store s t" using writeBlock_effect by blast
  then show "good t \<and> addressable t = addressable s \<and> m_cap t = m_cap s"
    using \<open>good s\<close> by (simp add: same_store_good same_store_addressable same_store_fields)
next
  fix s x ty tag nxt dat u t
  assume "good s" "x \<in> addressable s" "ty \<le> 2" "length dat \<le> m_cap s"
    "writeBlock x ty tag nxt dat s = (Inr u, t)"
  then show "\<exists>b. readBlock t x = Inr b \<and> holds b ty tag nxt dat" by (rule writeBlock_same)
next
  fix s x y ty tag nxt dat r t b
  assume "good s" "x \<in> addressable s" "y \<in> addressable s" "y \<noteq> x" "length dat \<le> m_cap s"
    "readBlock s y = Inr b" "writeBlock x ty tag nxt dat s = (r, t)"
  then show "readBlock t y = Inr b" by (rule writeBlock_other)
next
  fix s r t
  assume g: "good s" and "sync s = (r, t)"
  then have ss: "same_store s t" and co: "content (dev t) = content (dev s)"
    using sync_same_store by auto
  have "readBlock t y = Inr b" if "y \<in> addressable s" "readBlock s y = Inr b" for y b
    using readBlock_same_bytes [OF g that(1) ss _ _ that(2)] co
    by (simp add: block_bytes_def same_store_fields [OF ss])
  then show "good t \<and> addressable t = addressable s \<and> m_cap t = m_cap s
      \<and> (\<forall>y b. y \<in> addressable s \<longrightarrow> readBlock s y = Inr b \<longrightarrow> readBlock t y = Inr b)"
    using g ss by (simp add: same_store_good same_store_addressable same_store_fields)
qed

end
