(* ===== verification/Record_Chain.thy ===== *)
theory Record_Chain
  imports Block_IO
begin

text \<open>
  Records as chains of blocks (core/storage/local_storage.cpp: \<open>chunks\<close>,
  \<open>writeChain\<close>, and the loops of \<open>getLocked\<close> and \<open>oldContinuations\<close>).
  The loops take the block operations they call as arguments; the lemmas about them are
  proved once, for any \<open>block_device\<close>.
\<close>

section \<open>The loops\<close>

definition chunks :: "nat \<Rightarrow> nat \<Rightarrow> nat" where
  "chunks cap n = max 1 ((n + cap - 1) div cap)"

text \<open>The bytes block \<open>i\<close> of a record holds: from \<open>i * m_cap\<close>, \<open>len_of(i)\<close> of them.\<close>

definition chunk :: "nat \<Rightarrow> bytes \<Rightarrow> nat \<Rightarrow> bytes" where
  "chunk cap dat i =
     (let offset = i * cap
      in if offset < length dat then take (min cap (length dat - offset)) (drop offset dat) else [])"

text \<open>\<open>for (i = n; i-- > 1;)\<close>: continuation blocks, the last one first.\<close>

fun write_conts ::
    "(u64 \<Rightarrow> byte \<Rightarrow> u32 \<Rightarrow> u64 \<Rightarrow> bytes \<Rightarrow> ('s, storage_error, unit) op) \<Rightarrow> nat \<Rightarrow>
     u64 list \<Rightarrow> bytes \<Rightarrow> nat \<Rightarrow> ('s, storage_error, unit) op" where
  "write_conts wr cap ids dat 0 = ret ()"
| "write_conts wr cap ids dat (Suc i) =
     (if i = 0 then ret ()
      else bind (wr (ids ! i) 2 0 (if i + 1 < length ids then ids ! (i + 1) else 0) (chunk cap dat i))
             (\<lambda>_. write_conts wr cap ids dat i))"

definition write_chain ::
    "(u64 \<Rightarrow> byte \<Rightarrow> u32 \<Rightarrow> u64 \<Rightarrow> bytes \<Rightarrow> ('s, storage_error, unit) op) \<Rightarrow>
     ('s, storage_error, unit) op \<Rightarrow> nat \<Rightarrow> bool \<Rightarrow>
     u64 list \<Rightarrow> bytes \<Rightarrow> u32 \<Rightarrow> ('s, storage_error, unit) op" where
  "write_chain wr fl cap dur ids dat tag =
     bind (write_conts wr cap ids dat (length ids)) (\<lambda>_.
     bind (if dur \<and> 1 < length ids then fl else ret ()) (\<lambda>_.
     bind (wr (ids ! 0) 1 tag (if 1 < length ids then ids ! 1 else 0) (chunk cap dat 0)) (\<lambda>_.
     if dur then fl else ret ())))"

text \<open>
  The loop of \<open>getLocked\<close>; \<open>fuel\<close> counts down what \<open>guard\<close> counts up, so the
  chain-loop exception is thrown exactly where \<open>++guard > m_nblocks + 1\<close> holds.
\<close>

fun read_chain :: "(u64 \<Rightarrow> storage_error + blk) \<Rightarrow> u64 \<Rightarrow> nat \<Rightarrow> u64 \<Rightarrow> storage_error + bytes" where
  "read_chain rd bid fuel cur =
     (if cur = 0 then Inr []
      else case fuel of
        0 \<Rightarrow> Inl ChainLoop
      | Suc f \<Rightarrow>
          (case rd cur of
             Inl e \<Rightarrow> Inl e
           | Inr b \<Rightarrow>
               if blk_type b \<noteq> (if cur = bid then 1 else 2) then Inl UnexpectedBlockType
               else (case read_chain rd bid f (blk_next b) of
                       Inl e \<Rightarrow> Inl e
                     | Inr rest \<Rightarrow> Inr (payload b @ rest))))"

text \<open>The loop of \<open>oldContinuations\<close>; \<open>fuel\<close> is what remains of \<open>m_nblocks + 1\<close> pushes.\<close>

fun old_conts :: "(u64 \<Rightarrow> storage_error + blk) \<Rightarrow> nat \<Rightarrow> u64 \<Rightarrow> storage_error + u64 list" where
  "old_conts rd fuel cur =
     (if cur = 0 then Inr []
      else case fuel of
        0 \<Rightarrow> Inl ChainLoop
      | Suc f \<Rightarrow>
          (case rd cur of
             Inl e \<Rightarrow> Inl e
           | Inr b \<Rightarrow> (case old_conts rd f (blk_next b) of Inl e \<Rightarrow> Inl e | Inr xs \<Rightarrow> Inr (cur # xs))))"

declare read_chain.simps [simp del] old_conts.simps [simp del]

section \<open>Well-formed chains\<close>

fun cont_chain :: "(u64 \<Rightarrow> storage_error + blk) \<Rightarrow> u64 \<Rightarrow> u64 list \<Rightarrow> bytes \<Rightarrow> bool" where
  "cont_chain rd cur [] dat \<longleftrightarrow> cur = 0 \<and> dat = []"
| "cont_chain rd cur (x # xs) dat \<longleftrightarrow>
     cur = x \<and> x \<noteq> 0 \<and>
     (\<exists>b rest. rd x = Inr b \<and> blk_type b = 2 \<and> dat = payload b @ rest \<and> cont_chain rd (blk_next b) xs rest)"

text \<open>
  Record \<open>x\<close> with head information \<open>h\<close> has the continuation blocks \<open>cs\<close> and the
  content \<open>dat\<close>.
\<close>

definition rec_chain :: "(u64 \<Rightarrow> storage_error + blk) \<Rightarrow> u64 \<Rightarrow> head_info \<Rightarrow> u64 list \<Rightarrow> bytes \<Rightarrow> bool" where
  "rec_chain rd x h cs dat \<longleftrightarrow> x \<noteq> 0 \<and>
     (\<exists>b rest. rd x = Inr b \<and> blk_type b = 1 \<and> blk_tag b = hi_tag h \<and> blk_next b = hi_next h
       \<and> dat = payload b @ rest \<and> cont_chain rd (hi_next h) cs rest)"

lemma cont_chain_cong:
  assumes "cont_chain rd cur cs dat" and "\<And>x b. x \<in> set cs \<Longrightarrow> rd x = Inr b \<Longrightarrow> rd' x = Inr b"
  shows "cont_chain rd' cur cs dat"
  using assms by (induction cs arbitrary: cur dat) fastforce+

lemma rec_chain_cong:
  assumes "rec_chain rd x h cs dat" and "\<And>y b. y \<in> set (x # cs) \<Longrightarrow> rd y = Inr b \<Longrightarrow> rd' y = Inr b"
  shows "rec_chain rd' x h cs dat"
proof -
  obtain b rest where b: "x \<noteq> 0" "rd x = Inr b" "blk_type b = 1" "blk_tag b = hi_tag h"
    "blk_next b = hi_next h" "dat = payload b @ rest" "cont_chain rd (hi_next h) cs rest"
    using assms(1) by (auto simp: rec_chain_def)
  moreover have "rd' x = Inr b" using assms(2) b(2) by simp
  moreover have "cont_chain rd' (hi_next h) cs rest"
    using cont_chain_cong [OF b(7)] assms(2) by auto
  ultimately show ?thesis by (auto simp: rec_chain_def)
qed

lemma read_chain_conts:
  "cont_chain rd cur cs dat \<Longrightarrow> length cs \<le> fuel \<Longrightarrow> bid \<notin> set cs \<Longrightarrow> read_chain rd bid fuel cur = Inr dat"
proof (induction cs arbitrary: cur dat fuel)
  case Nil
  then show ?case by (simp add: read_chain.simps)
next
  case (Cons x xs)
  then obtain b rest f where "cur = x" "x \<noteq> 0" "rd x = Inr b" "blk_type b = 2" "dat = payload b @ rest"
    "cont_chain rd (blk_next b) xs rest" "fuel = Suc f"
    by (cases fuel) auto
  with Cons.IH [of "blk_next b" rest f] Cons.prems show ?case
    by (auto simp: read_chain.simps [of rd bid "Suc f" x])
qed

text \<open>A well-formed chain is read back, with fuel for its blocks.\<close>

lemma read_chain_rec:
  assumes "rec_chain rd x h cs dat" and "length cs < fuel" and "x \<notin> set cs"
  shows "read_chain rd x fuel x = Inr dat"
proof -
  obtain b rest f where "x \<noteq> 0" "rd x = Inr b" "blk_type b = 1" "blk_next b = hi_next h"
    "dat = payload b @ rest" "cont_chain rd (hi_next h) cs rest" "fuel = Suc f" "length cs \<le> f"
    using assms(1,2) by (cases fuel) (auto simp: rec_chain_def)
  moreover from this assms(3) have "read_chain rd x f (hi_next h) = Inr rest"
    by (intro read_chain_conts)
  ultimately show ?thesis by (simp add: read_chain.simps [of rd x "Suc f" x])
qed

lemma old_conts_chain:
  "cont_chain rd cur cs dat \<Longrightarrow> length cs \<le> fuel \<Longrightarrow> old_conts rd fuel cur = Inr cs"
proof (induction cs arbitrary: cur dat fuel)
  case Nil
  then show ?case by (simp add: old_conts.simps)
next
  case (Cons x xs)
  then obtain b rest f where "cur = x" "x \<noteq> 0" "rd x = Inr b"
    "cont_chain rd (blk_next b) xs rest" "fuel = Suc f" "length xs \<le> f"
    by (cases fuel) auto
  with Cons.IH [of "blk_next b" rest f] show ?case
    by (simp add: old_conts.simps [of rd "Suc f" x])
qed

section \<open>Cutting a record into blocks\<close>

lemma chunk_eq: "chunk cap dat i = take cap (drop (i * cap) dat)"
  by (auto simp: chunk_def Let_def min_def)

lemma length_chunk: "length (chunk cap dat i) \<le> cap"
  by (simp add: chunk_eq)

lemma concat_chunks_take: "concat (map (chunk cap dat) [0..<n]) = take (n * cap) dat"
proof (induction n)
  case (Suc n)
  have "take (Suc n * cap) dat = take (n * cap) dat @ take cap (drop (n * cap) dat)"
    by (simp add: add.commute flip: take_add)
  with Suc show ?case by (simp add: chunk_eq)
qed simp

lemma chunks_enough: "0 < cap \<Longrightarrow> n \<le> chunks cap n * cap"
proof -
  assume cap: "0 < cap"
  have "n \<le> (n + cap - 1) div cap * cap"
  proof -
    have "n + cap - 1 < (n + cap - 1) div cap * cap + cap"
      using cap by (metis add.commute div_mult_mod_eq mod_less_divisor nat_add_left_cancel_less)
    then show ?thesis using cap by linarith
  qed
  also have "\<dots> \<le> chunks cap n * cap" by (simp add: chunks_def)
  finally show ?thesis .
qed

text \<open>The blocks of a record hold its bytes, all of them and in order.\<close>

lemma concat_chunks: "0 < cap \<Longrightarrow> concat (map (chunk cap dat) [0..<chunks cap (length dat)]) = dat"
  by (simp add: concat_chunks_take chunks_enough)

lemma chunks_pos: "0 < chunks cap n"
  by (simp add: chunks_def)

section \<open>Writing a chain, on any block device\<close>

context block_device
begin

text \<open>
  \<open>keeps s Y t\<close>: the device is still good in \<open>t\<close>, with the same addresses and
  capacity, and every block of \<open>Y\<close> that could be read in \<open>s\<close> reads the same in \<open>t\<close>.
\<close>

definition keeps :: "'s \<Rightarrow> u64 set \<Rightarrow> 's \<Rightarrow> bool" where
  "keeps s Y t \<longleftrightarrow> good t \<and> addr t = addr s \<and> cap t = cap s
     \<and> (\<forall>y b. y \<in> Y \<longrightarrow> rd s y = Inr b \<longrightarrow> rd t y = Inr b)"

lemma keeps_refl: "good s \<Longrightarrow> keeps s Y s"
  by (simp add: keeps_def)

lemma keeps_trans: "keeps s Y t \<Longrightarrow> keeps t Y u \<Longrightarrow> keeps s Y u"
  by (simp add: keeps_def)

lemma keeps_mono: "keeps s Y t \<Longrightarrow> Z \<subseteq> Y \<Longrightarrow> keeps s Z t"
  by (auto simp: keeps_def)

lemma keeps_good: "keeps s Y t \<Longrightarrow> good t \<and> addr t = addr s \<and> cap t = cap s"
  by (simp add: keeps_def)

lemma keeps_rd: "keeps s Y t \<Longrightarrow> y \<in> Y \<Longrightarrow> rd s y = Inr b \<Longrightarrow> rd t y = Inr b"
  by (simp add: keeps_def)

lemma wr_keeps:
  assumes "good s" and "x \<in> addr s" and "length dat \<le> cap s" and "wr x ty tag nxt dat s = (r, t)"
  shows "keeps s (addr s - {x}) t"
  using wr_frame [OF assms] rd_wr_other [OF assms(1,2) _ _ assms(3) _ assms(4)]
  by (auto simp: keeps_def)

lemma fl_keeps: "good s \<Longrightarrow> fl s = (r, t) \<Longrightarrow> keeps s (addr s) t"
  using fl_frame by (auto simp: keeps_def)

text \<open>The continuation loop touches the continuation blocks only, whether it ends or throws.\<close>

lemma write_conts_keeps:
  "good s \<Longrightarrow> set ids \<subseteq> addr s \<Longrightarrow> i \<le> length ids \<Longrightarrow>
     write_conts wr (cap s) ids dat i s = (r, t) \<Longrightarrow> keeps s (addr s - set (tl ids)) t"
proof (induction i arbitrary: s)
  case 0
  then show ?case by (simp add: ret_def keeps_refl)
next
  case (Suc i)
  show ?case
  proof (cases "i = 0")
    case True
    with Suc.prems show ?thesis by (simp add: ret_def keeps_refl)
  next
    case False
    let ?w = "wr (ids ! i) 2 0 (if i + 1 < length ids then ids ! (i + 1) else 0) (chunk (cap s) dat i)"
    obtain r1 u where w: "?w s = (r1, u)" by fastforce
    have x: "ids ! i \<in> addr s" using Suc.prems by auto
    have tl: "ids ! i \<in> set (tl ids)"
      using False Suc.prems(3) by (metis Suc_le_eq Suc_pred' length_tl less_diff_conv nth_mem nth_tl
          not_gr_zero add.commute plus_1_eq_Suc)
    have k1: "keeps s (addr s - set (tl ids)) u"
      using wr_keeps [OF Suc.prems(1) x length_chunk w] tl by (auto intro: keeps_mono)
    show ?thesis
    proof (cases r1)
      case (Inl e)
      with w Suc.prems(4) False have "t = u" by simp
      with k1 show ?thesis by simp
    next
      case (Inr v)
      with w Suc.prems(4) False have "write_conts wr (cap s) ids dat i u = (r, t)" by simp
      then have "keeps u (addr u - set (tl ids)) t"
        using Suc.IH [of u] keeps_good [OF k1] Suc.prems(2,3) by simp
      with k1 show ?thesis using keeps_good [OF k1] by (auto intro: keeps_trans)
    qed
  qed
qed

text \<open>Continuation blocks \<open>i\<close>, \<open>i + 1\<close>, \dots of a chain are on the device.\<close>

definition written :: "'s \<Rightarrow> u64 list \<Rightarrow> bytes \<Rightarrow> nat \<Rightarrow> bool" where
  "written s ids dat i \<longleftrightarrow>
     (\<forall>j. i \<le> j \<longrightarrow> 0 < j \<longrightarrow> j < length ids \<longrightarrow>
        (\<exists>b. rd s (ids ! j) = Inr b
           \<and> holds b 2 0 (if j + 1 < length ids then ids ! (j + 1) else 0) (chunk (cap s) dat j)))"

lemma written_keeps:
  assumes "written s ids dat i" and "keeps s (addr s - Y) t" and "set ids \<subseteq> addr s"
    and "\<And>j. i \<le> j \<Longrightarrow> 0 < j \<Longrightarrow> j < length ids \<Longrightarrow> ids ! j \<notin> Y"
  shows "written t ids dat i"
  unfolding written_def
proof (intro allI impI)
  fix j assume j: "i \<le> j" "0 < j" "j < length ids"
  with assms(1) obtain b where b: "rd s (ids ! j) = Inr b"
    "holds b 2 0 (if j + 1 < length ids then ids ! (j + 1) else 0) (chunk (cap s) dat j)"
    by (auto simp: written_def)
  have "ids ! j \<in> addr s - Y" using assms(3,4) j by auto
  then have "rd t (ids ! j) = Inr b" by (rule keeps_rd [OF assms(2) _ b(1)])
  with b(2) keeps_good [OF assms(2)]
  show "\<exists>b. rd t (ids ! j) = Inr b
      \<and> holds b 2 0 (if j + 1 < length ids then ids ! (j + 1) else 0) (chunk (cap t) dat j)"
    by auto
qed

lemma write_conts_written:
  "good s \<Longrightarrow> set ids \<subseteq> addr s \<Longrightarrow> distinct ids \<Longrightarrow> i \<le> length ids \<Longrightarrow> written s ids dat i \<Longrightarrow>
     write_conts wr (cap s) ids dat i s = (Inr u, t) \<Longrightarrow> written t ids dat 0"
proof (induction i arbitrary: s)
  case 0
  then show ?case by (simp add: ret_def)
next
  case (Suc i)
  show ?case
  proof (cases "i = 0")
    case True
    with Suc.prems show ?thesis by (auto simp: ret_def written_def)
  next
    case False
    let ?nx = "if i + 1 < length ids then ids ! (i + 1) else 0"
    from Suc.prems(6) False obtain v s1 where w: "wr (ids ! i) 2 0 ?nx (chunk (cap s) dat i) s = (Inr v, s1)"
      and rest: "write_conts wr (cap s) ids dat i s1 = (Inr u, t)"
      by (auto elim: bind_InrE)
    have x: "ids ! i \<in> addr s" using Suc.prems by auto
    note k1 = wr_keeps [OF Suc.prems(1) x length_chunk w]
    obtain b where b: "rd s1 (ids ! i) = Inr b" "holds b 2 0 ?nx (chunk (cap s) dat i)"
      using rd_wr_same [OF Suc.prems(1) x _ length_chunk w] by auto
    have "written s1 ids dat (Suc i)"
      using Suc.prems by (intro written_keeps [OF _ k1]) (auto simp: nth_eq_iff_index_eq)
    then have wi: "written s1 ids dat i"
      using b keeps_good [OF k1] unfolding written_def by (metis Suc_leI le_neq_implies_less)
    show ?thesis
      using Suc.IH [of s1] wi rest keeps_good [OF k1] Suc.prems(2-4) by simp
  qed
qed

lemma written_cont_chain:
  assumes w: "written s ids dat 0" and ids: "set ids \<subseteq> addr s"
  shows "k \<le> length ids \<Longrightarrow> 0 < k \<Longrightarrow>
     cont_chain (rd s) (if k < length ids then ids ! k else 0) (drop k ids)
       (concat (map (chunk (cap s) dat) [k..<length ids]))"
proof (induction "length ids - k" arbitrary: k)
  case 0
  then show ?case by simp
next
  case (Suc n)
  then have k: "k < length ids" by simp
  have "ids ! k \<noteq> 0" using k ids addr_nonzero by (metis nth_mem subsetD)
  moreover obtain b where "rd s (ids ! k) = Inr b"
    "holds b 2 0 (if k + 1 < length ids then ids ! (k + 1) else 0) (chunk (cap s) dat k)"
    using w k Suc.prems by (auto simp: written_def)
  moreover have "cont_chain (rd s) (if Suc k < length ids then ids ! Suc k else 0) (drop (Suc k) ids)
      (concat (map (chunk (cap s) dat) [Suc k..<length ids]))"
    using Suc k by (intro Suc.hyps(1)) auto
  ultimately show ?case using k
    by (auto simp: holds_def upt_conv_Cons simp flip: Cons_nth_drop_Suc)
qed

text \<open>
  A run of \<open>write_chain\<close> either stops before the head is written, and then only
  continuation blocks of the new chain have changed, or it reaches the head with all the
  continuation blocks in place.
\<close>

lemma write_chain_cases:
  assumes g: "good s" and ids: "set ids \<subseteq> addr s" "ids \<noteq> []" "distinct ids"
    and w: "write_chain wr fl (cap s) dur ids dat tag s = (r, t)"
  obtains (before) e where "r = Inl e" and "keeps s (addr s - set (tl ids)) t"
    | (head) u q v where "keeps s (addr s - set (tl ids)) u" and "written u ids dat 0"
      and "wr (ids ! 0) 1 tag (if 1 < length ids then ids ! 1 else 0) (chunk (cap s) dat 0) u = (q, v)"
      and "case q of Inl e \<Rightarrow> r = Inl e \<and> t = v | Inr _ \<Rightarrow> keeps v (addr v) t"
proof -
  let ?nx = "if 1 < length ids then ids ! 1 else 0"
  let ?Y = "addr s - set (tl ids)"
  obtain r1 s1 where c1: "write_conts wr (cap s) ids dat (length ids) s = (r1, s1)" by fastforce
  have k1: "keeps s ?Y s1" by (rule write_conts_keeps [OF g ids(1) order_refl c1])
  show ?thesis
  proof (cases r1)
    case (Inl e)
    with c1 w have "r = Inl e" "t = s1" by (auto simp: write_chain_def)
    with k1 show ?thesis by (auto intro: before)
  next
    case (Inr x1)
    have w1: "written s1 ids dat 0"
      using write_conts_written [OF g ids(1,3) order_refl _ c1 [unfolded Inr]] by (simp add: written_def)
    obtain r2 s2 where c2: "(if dur \<and> 1 < length ids then fl else ret ()) s1 = (r2, s2)" by fastforce
    have k2: "keeps s1 (addr s1) s2"
      using c2 fl_keeps [of s1] keeps_refl [of s1] keeps_good [OF k1]
      by (auto simp: ret_def split: if_splits)
    then have k12: "keeps s ?Y s2"
      using k1 keeps_good [OF k1] by (auto intro: keeps_trans keeps_mono)
    show ?thesis
    proof (cases r2)
      case (Inl e)
      with c1 c2 Inr w have "r = Inl e" "t = s2" by (auto simp: write_chain_def)
      with k12 show ?thesis by (auto intro: before)
    next
      case (Inr x2)
      have w2: "written s2 ids dat 0"
        using written_keeps [OF w1, of "{}" s2] k2 ids(1) keeps_good [OF k1] by simp
      obtain q v where c3: "wr (ids ! 0) 1 tag ?nx (chunk (cap s) dat 0) s2 = (q, v)" by fastforce
      have rest: "bind (wr (ids ! 0) 1 tag ?nx (chunk (cap s) dat 0)) (\<lambda>_. if dur then fl else ret ()) s2 = (r, t)"
        using c1 c2 Inr \<open>r1 = Inr x1\<close> w by (simp add: write_chain_def)
      have "case q of Inl e \<Rightarrow> r = Inl e \<and> t = v | Inr _ \<Rightarrow> keeps v (addr v) t"
      proof (cases q)
        case (Inl e)
        with c3 rest have "r = Inl e" "t = v" by simp_all
        with Inl show ?thesis by simp
      next
        case (Inr y)
        have "good v"
          using wr_frame [OF _ _ _ c3] keeps_good [OF k12] ids length_chunk by (cases ids) auto
        moreover have "(if dur then fl else ret ()) v = (r, t)" using c3 rest Inr by simp
        ultimately show ?thesis
          using Inr fl_keeps keeps_refl by (auto simp: ret_def split: if_splits)
      qed
      with k12 w2 c3 show ?thesis by (rule head)
    qed
  qed
qed

lemma head_write_keeps:
  assumes "keeps s Y u" and "ids ! 0 \<in> addr s" and "wr (ids ! 0) 1 tag nx (chunk (cap s) dat 0) u = (q, v)"
  shows "keeps u (addr s - {ids ! 0}) v"
  using wr_keeps [OF _ _ _ assms(3)] assms(2) keeps_good [OF assms(1)] length_chunk by simp

text \<open>No other block is damaged, whether the chain is completed or not.\<close>

lemma write_chain_keeps:
  assumes g: "good s" and ids: "set ids \<subseteq> addr s" "ids \<noteq> []" "distinct ids"
    and w: "write_chain wr fl (cap s) dur ids dat tag s = (r, t)"
  shows "keeps s (addr s - set ids) t"
  using g ids w
proof (cases rule: write_chain_cases)
  case (before e)
  moreover have "addr s - set ids \<subseteq> addr s - set (tl ids)" using ids(2) by (cases ids) auto
  ultimately show ?thesis by (blast intro: keeps_mono)
next
  case (head u q v)
  have x: "ids ! 0 \<in> addr s" and sub: "addr s - set ids \<subseteq> addr s - {ids ! 0}"
    "addr s - set ids \<subseteq> addr s - set (tl ids)"
    using ids by (cases ids; auto)+
  note kv = head_write_keeps [OF head(1) x head(3)]
  have "keeps s (addr s - set ids) v"
    using keeps_mono [OF head(1) sub(2)] keeps_mono [OF kv sub(1)] by (rule keeps_trans)
  moreover have "keeps v (addr s - set ids) t"
    using head(4) keeps_refl keeps_good [OF kv] keeps_good [OF head(1)]
    by (auto split: sum.splits intro: keeps_mono)
  ultimately show ?thesis by (rule keeps_trans)
qed

text \<open>A completed \<open>write_chain\<close> leaves a well-formed chain with the record's bytes.\<close>

lemma write_chain_ok:
  assumes g: "good s" and ids: "set ids \<subseteq> addr s" "distinct ids" and cap: "0 < cap s"
    and len: "length ids = chunks (cap s) (length dat)"
    and w: "write_chain wr fl (cap s) dur ids dat tag s = (Inr x, t)"
  shows "rec_chain (rd t) (ids ! 0)
    \<lparr>hi_tag = tag, hi_next = if 1 < length ids then ids ! 1 else 0\<rparr> (tl ids) dat"
proof -
  have ne: "ids \<noteq> []" using len chunks_pos by (metis length_0_conv less_not_refl)
  show ?thesis
    using g ids(1) ne ids(2) w
  proof (cases rule: write_chain_cases)
    case (before e)
    then show ?thesis by simp
  next
    case (head u q v)
    let ?nx = "if 1 < length ids then ids ! 1 else 0"
    obtain y where q: "q = Inr y" and kt: "keeps v (addr v) t"
      using head(4) by (auto split: sum.splits)
    have x: "ids ! 0 \<in> addr s" using ids ne by (cases ids) auto
    note kv = head_write_keeps [OF head(1) x head(3)]
    note gu = keeps_good [OF head(1)] and gv = keeps_good [OF kv]
    obtain b where b: "rd v (ids ! 0) = Inr b" "holds b 1 tag ?nx (chunk (cap s) dat 0)"
      using rd_wr_same [OF _ _ _ _ head(3) [unfolded q]] gu x length_chunk [of "cap s" dat 0] by auto
    have bt: "rd t (ids ! 0) = Inr b" using keeps_rd [OF kt _ b(1)] gu gv x by simp
    have "written v ids dat 0"
      using ids head(2) kv gu ne nth_eq_iff_index_eq [OF ids(2)]
      by (intro written_keeps [of u ids dat 0 "{ids ! 0}" v]) fastforce+
    then have wt: "written t ids dat 0"
      using written_keeps [of v ids dat 0 "{}" t] kt ids(1) gu gv by simp
    have ct: "addr t = addr s" "cap t = cap s" using keeps_good [OF kt] gu gv by auto
    have "cont_chain (rd t) ?nx (drop 1 ids) (concat (map (chunk (cap s) dat) [1..<length ids]))"
      using written_cont_chain [OF wt, of 1] ids(1) ct ne by (simp add: Suc_le_eq)
    moreover have "dat = chunk (cap s) dat 0 @ concat (map (chunk (cap s) dat) [1..<length ids])"
      using concat_chunks [OF cap, of dat] ne
      by (simp add: len upt_conv_Cons chunks_pos flip: One_nat_def)
    moreover have "ids ! 0 \<noteq> 0" using x addr_nonzero by metis
    ultimately show ?thesis
      using b(2) bt by (auto simp: rec_chain_def holds_def drop_Suc)
  qed
qed

end

end
