(* ===== verification/Local_Storage.thy ===== *)
theory Local_Storage
  imports Record_Chain
begin

text \<open>
  The record store \<open>LocalStorage\<close> (core/storage/local_storage.cpp): allocation, the record
  operations, the named roots and their directory record, opening a file (header, scan,
  directory) and the public operations.  The locks are not modelled: each operation is one
  step.  An operation returns its result or exception and the object as it leaves it.
\<close>

section \<open>Containers of the object\<close>

text \<open>\<open>std::string::operator<\<close>: lexicographic on unsigned bytes.\<close>

fun bytes_less :: "bytes \<Rightarrow> bytes \<Rightarrow> bool" where
  "bytes_less xs [] = False"
| "bytes_less [] (y # ys) = True"
| "bytes_less (x # xs) (y # ys) = (x < y \<or> x = y \<and> bytes_less xs ys)"

text \<open>\<open>m_roots[name] = id\<close> on a map kept in key order.\<close>

fun put_root :: "bytes \<Rightarrow> u64 \<Rightarrow> (bytes \<times> u64) list \<Rightarrow> (bytes \<times> u64) list" where
  "put_root k v [] = [(k, v)]"
| "put_root k v ((a, w) # m) =
     (if bytes_less k a then (k, v) # (a, w) # m
      else if k = a then (k, v) # m
      else (a, w) # put_root k v m)"

definition byTag_insert :: "u32 \<Rightarrow> u64 \<Rightarrow> (u32 \<rightharpoonup> u64 set) \<Rightarrow> (u32 \<rightharpoonup> u64 set)" where
  "byTag_insert t x m = m(t \<mapsto> insert x (case m t of None \<Rightarrow> {} | Some xs \<Rightarrow> xs))"

definition byTag_erase :: "u32 \<Rightarrow> u64 \<Rightarrow> (u32 \<rightharpoonup> u64 set) \<Rightarrow> (u32 \<rightharpoonup> u64 set)" where
  "byTag_erase t x m =
     (case m t of
        None \<Rightarrow> m
      | Some xs \<Rightarrow> if xs - {x} = {} then m(t := None) else m(t \<mapsto> xs - {x}))"

section \<open>Record operations\<close>

definition alloc :: "(store, storage_error, u64) op" where
  "alloc s =
     (if m_free s \<noteq> [] then (Inr (last (m_free s)), s\<lparr>m_free := butlast (m_free s)\<rparr>)
      else (Inr (m_nblocks s + 1), s\<lparr>m_nblocks := m_nblocks s + 1\<rparr>))"

text \<open>\<open>for (auto &id : ids) id = alloc();\<close>\<close>

fun allocs :: "nat \<Rightarrow> (store, storage_error, u64 list) op" where
  "allocs 0 = ret []"
| "allocs (Suc k) = bind alloc (\<lambda>x. bind (allocs k) (\<lambda>xs. ret (x # xs)))"

definition writeChain :: "u64 list \<Rightarrow> bytes \<Rightarrow> u32 \<Rightarrow> (store, storage_error, unit) op" where
  "writeChain ids dat tag s = write_chain writeBlock sync (m_cap s) (durable s) ids dat tag s"

definition next_of :: "u64 list \<Rightarrow> u64" where
  "next_of ids = (if 1 < length ids then ids ! 1 else 0)"

definition insertLocked :: "bytes \<Rightarrow> u32 \<Rightarrow> (store, storage_error, u64) op" where
  "insertLocked dat tag s =
     bind (allocs (chunks (m_cap s) (length dat))) (\<lambda>ids.
     bind (writeChain ids dat tag) (\<lambda>_.
     bind (modify (\<lambda>s. s\<lparr>m_head := (m_head s)(ids ! 0 \<mapsto> \<lparr>hi_tag = tag, hi_next = next_of ids\<rparr>),
                         m_byTag := byTag_insert tag (ids ! 0) (m_byTag s)\<rparr>)) (\<lambda>_.
     ret (ids ! 0)))) s"

definition getLocked :: "store \<Rightarrow> u64 \<Rightarrow> storage_error + bytes option" where
  "getLocked s bid =
     (case m_head s bid of
        None \<Rightarrow> Inr None
      | Some _ \<Rightarrow>
          (case read_chain (readBlock s) bid (unat (m_nblocks s + 1)) bid of
             Inl e \<Rightarrow> Inl e
           | Inr out \<Rightarrow> Inr (Some out)))"

definition oldContinuations :: "store \<Rightarrow> head_info \<Rightarrow> storage_error + u64 list" where
  "oldContinuations s h = old_conts (readBlock s) (unat (m_nblocks s + 1)) (hi_next h)"

text \<open>
  \<open>m_head[id]\<close> of an absent record inserts an empty \<open>HeadInfo\<close>; every caller has
  looked the record up first.
\<close>

definition updateLocked :: "u64 \<Rightarrow> bytes \<Rightarrow> (store, storage_error, unit) op" where
  "updateLocked bid dat s =
     (let h = (case m_head s bid of None \<Rightarrow> \<lparr>hi_tag = 0, hi_next = 0\<rparr> | Some h \<Rightarrow> h)
      in bind (modify (\<lambda>s. s\<lparr>m_head := (m_head s)(bid \<mapsto> h)\<rparr>)) (\<lambda>_.
         bind (reads (\<lambda>s. oldContinuations s h)) (\<lambda>old.
         bind (allocs (chunks (m_cap s) (length dat) - 1)) (\<lambda>new.
         bind (writeChain (bid # new) dat (hi_tag h)) (\<lambda>_.
         modify (\<lambda>s. s\<lparr>m_head := (m_head s)(bid \<mapsto> h\<lparr>hi_next := next_of (bid # new)\<rparr>),
                       m_free := m_free s @ old\<rparr>))))) s)"

text \<open>The directory record: the number of roots, then each name with its length and its id.\<close>

definition encode_root :: "bytes \<times> u64 \<Rightarrow> bytes" where
  "encode_root e = w32 (of_nat (length (fst e))) @ fst e @ w64 (snd e)"

definition encode_directory :: "(bytes \<times> u64) list \<Rightarrow> bytes" where
  "encode_directory m = w32 (of_nat (length m)) @ concat (map encode_root m)"

definition saveDirectoryLocked :: "(store, storage_error, unit) op" where
  "saveDirectoryLocked s =
     (let out = encode_directory (m_roots s)
      in if m_dirId s = 0
         then bind (insertLocked out kDirTag) (\<lambda>x. modify (\<lambda>s. s\<lparr>m_dirId := x\<rparr>)) s
         else updateLocked (m_dirId s) out s)"

definition drop_record :: "u64 \<Rightarrow> head_info \<Rightarrow> u64 list \<Rightarrow> store \<Rightarrow> store" where
  "drop_record bid h old s =
     s\<lparr>m_byTag := byTag_erase (hi_tag h) bid (m_byTag s),
       m_head := (m_head s)(bid := None),
       m_free := m_free s @ bid # old,
       m_roots := filter (\<lambda>(_, x). x \<noteq> bid) (m_roots s),
       m_dirDirty := m_dirDirty s \<or> (\<exists>(_, x) \<in> set (m_roots s). x = bid)\<rparr>"

definition removeLocked :: "u64 \<Rightarrow> (store, storage_error, unit) op" where
  "removeLocked bid s =
     (case m_head s bid of
        None \<Rightarrow> (Inr (), s)
      | Some h \<Rightarrow>
          bind (reads (\<lambda>s. oldContinuations s h)) (\<lambda>old.
          bind (writeBlock bid 0 0 0 []) (\<lambda>_.
          bind (if durable s then sync else ret ()) (\<lambda>_.
          bind (modify (drop_record bid h old)) (\<lambda>_.
          (\<lambda>s. if m_dirDirty s then saveDirectoryLocked (s\<lparr>m_dirDirty := False\<rparr>)
               else (Inr (), s)))))) s)"

section \<open>Public operations\<close>

text \<open>Named \<open>store_*\<close> where the C++ name is a name of the library.\<close>

definition store_insert :: "bytes \<Rightarrow> u32 \<Rightarrow> (store, storage_error, u64) op" where
  "store_insert dat tag s =
     (if tag = kDirTag then (Inl ReservedTag, s)
      else if \<not> is_open s then (Inl NotOpened, s)
      else insertLocked dat tag s)"

definition store_get :: "store \<Rightarrow> u64 \<Rightarrow> storage_error + bytes option" where
  "store_get s bid = getLocked s bid"

definition store_update :: "u64 \<Rightarrow> bytes \<Rightarrow> (store, storage_error, bool) op" where
  "store_update bid dat s =
     (if bid = m_dirId s \<or> m_head s bid = None then (Inr False, s)
      else bind (updateLocked bid dat) (\<lambda>_. ret True) s)"

definition store_remove :: "u64 \<Rightarrow> (store, storage_error, bool) op" where
  "store_remove bid s =
     (if bid = m_dirId s \<or> m_head s bid = None then (Inr False, s)
      else bind (removeLocked bid) (\<lambda>_. ret True) s)"

definition store_exists :: "store \<Rightarrow> u64 \<Rightarrow> bool" where
  "store_exists s bid \<longleftrightarrow> bid \<noteq> m_dirId s \<and> m_head s bid \<noteq> None"

definition ids :: "store \<Rightarrow> u32 \<Rightarrow> u64 list" where
  "ids s tag =
     (if tag = kDirTag then []
      else case m_byTag s tag of None \<Rightarrow> [] | Some xs \<Rightarrow> sorted_list_of_set xs)"

text \<open>\<open>forEach\<close> hands the records to a callback; here they are collected in call order.\<close>

fun collect :: "store \<Rightarrow> u64 list \<Rightarrow> storage_error + (u64 \<times> bytes) list" where
  "collect s [] = Inr []"
| "collect s (x # xs) =
     (case store_get s x of
        Inl e \<Rightarrow> Inl e
      | Inr v \<Rightarrow>
          (case collect s xs of
             Inl e \<Rightarrow> Inl e
           | Inr r \<Rightarrow> Inr (case v of None \<Rightarrow> r | Some d \<Rightarrow> (x, d) # r)))"

definition forEach :: "store \<Rightarrow> u32 \<Rightarrow> storage_error + (u64 \<times> bytes) list" where
  "forEach s tag = collect s (ids s tag)"

definition setRoot :: "bytes \<Rightarrow> u64 \<Rightarrow> (store, storage_error, unit) op" where
  "setRoot name bid s =
     (if bid = m_dirId s \<or> m_head s bid = None then (Inl NoSuchRecord, s)
      else saveDirectoryLocked (s\<lparr>m_roots := put_root name bid (m_roots s)\<rparr>))"

definition root :: "store \<Rightarrow> bytes \<Rightarrow> u64 option" where
  "root s name = map_of (m_roots s) name"

definition removeRoot :: "bytes \<Rightarrow> (store, storage_error, bool) op" where
  "removeRoot name s =
     (if map_of (m_roots s) name = None then (Inr False, s)
      else bind saveDirectoryLocked (\<lambda>_. ret True)
             (s\<lparr>m_roots := filter (\<lambda>(n, _). n \<noteq> name) (m_roots s)\<rparr>))"

definition recordCount :: "store \<Rightarrow> nat" where
  "recordCount s = card (dom (m_head s)) - (if m_dirId s \<noteq> 0 then 1 else 0)"

definition blockCount :: "store \<Rightarrow> u64" where
  "blockCount s = m_nblocks s"

definition freeBlock :: "store \<Rightarrow> nat" where
  "freeBlock s = length (m_free s)"

definition blockSize :: "store \<Rightarrow> nat" where
  "blockSize s = m_bs s"

definition maxInline :: "store \<Rightarrow> nat" where
  "maxInline s = m_cap s"

definition store_sync :: "(store, storage_error, unit) op" where
  "store_sync s = (if \<not> is_open s then (Inl NotOpened, s) else sync s)"

end
