(* ===== verification/Store_Invariant.thy ===== *)
theory Store_Invariant
  imports Local_Storage
begin

text \<open>
  The invariant of a \<open>LocalStorage\<close>: the chains of its records are well formed, use
  distinct blocks, and share none with the free list; the tag index lists exactly the records.
  Each record operation keeps it, and changes the record it names and no other.
\<close>

section \<open>What the fields a read depends on are\<close>

lemma aeadDecrypt_cong:
  assumes "lib (dev t) = lib (dev s)" and "m_key t = m_key s"
  shows "aeadDecrypt t = aeadDecrypt s"
proof -
  have "subkey t = subkey s" unfolding subkey_def [abs_def] assms ..
  then show ?thesis unfolding aeadDecrypt_def [abs_def] assms by (rule arg_cong)
qed

lemma readBlock_cong:
  assumes "dev t = dev s" and "m_bs t = m_bs s" and "m_cap t = m_cap s" and "m_key t = m_key s"
  shows "readBlock t = readBlock s"
proof -
  have a: "aeadDecrypt t = aeadDecrypt s" by (rule aeadDecrypt_cong) (simp_all add: assms)
  have o: "blockOffset t = blockOffset s" unfolding blockOffset_def [abs_def] assms ..
  show ?thesis unfolding readBlock_def [abs_def] assms a o ..
qed

lemma readBlock_upd [simp]:
  "readBlock (s\<lparr>m_free := F\<rparr>) = readBlock s" "readBlock (s\<lparr>m_nblocks := N\<rparr>) = readBlock s"
  "readBlock (s\<lparr>m_head := H\<rparr>) = readBlock s" "readBlock (s\<lparr>m_byTag := B\<rparr>) = readBlock s"
  "readBlock (s\<lparr>m_roots := R\<rparr>) = readBlock s" "readBlock (s\<lparr>m_dirDirty := b\<rparr>) = readBlock s"
  "readBlock (s\<lparr>m_dirId := i\<rparr>) = readBlock s"
  by (rule readBlock_cong; simp)+

lemma good_upd [simp]:
  "good (s\<lparr>m_free := F\<rparr>) = good s" "good (s\<lparr>m_nblocks := N\<rparr>) = good s"
  "good (s\<lparr>m_head := H\<rparr>) = good s" "good (s\<lparr>m_byTag := B\<rparr>) = good s"
  "good (s\<lparr>m_roots := R\<rparr>) = good s" "good (s\<lparr>m_dirDirty := b\<rparr>) = good s"
  "good (s\<lparr>m_dirId := i\<rparr>) = good s"
  by (simp_all add: good_def geometry_def)

lemma addressable_upd [simp]:
  "addressable (s\<lparr>m_free := F\<rparr>) = addressable s" "addressable (s\<lparr>m_nblocks := N\<rparr>) = addressable s"
  "addressable (s\<lparr>m_head := H\<rparr>) = addressable s" "addressable (s\<lparr>m_byTag := B\<rparr>) = addressable s"
  "addressable (s\<lparr>m_roots := R\<rparr>) = addressable s" "addressable (s\<lparr>m_dirDirty := b\<rparr>) = addressable s"
  "addressable (s\<lparr>m_dirId := i\<rparr>) = addressable s"
  by (simp_all add: addressable_def)

section \<open>The tag index\<close>

definition with_tag :: "(u64 \<rightharpoonup> head_info) \<Rightarrow> u32 \<Rightarrow> u64 set" where
  "with_tag h t = {x. \<exists>i. h x = Some i \<and> hi_tag i = t}"

definition index_of :: "(u64 \<rightharpoonup> head_info) \<Rightarrow> (u32 \<rightharpoonup> u64 set)" where
  "index_of h t = (if with_tag h t = {} then None else Some (with_tag h t))"

lemma with_tag_insert:
  "h x = None \<Longrightarrow> with_tag (h(x \<mapsto> i)) t = (if hi_tag i = t then insert x (with_tag h t) else with_tag h t)"
  by (auto simp: with_tag_def)

lemma with_tag_erase: "with_tag (h(x := None)) t = with_tag h t - {x}"
  by (auto simp: with_tag_def)

lemma with_tag_other: "h x = Some i \<Longrightarrow> hi_tag i \<noteq> t \<Longrightarrow> with_tag h t - {x} = with_tag h t"
  by (auto simp: with_tag_def)

lemma index_of_insert:
  assumes "h x = None"
  shows "byTag_insert (hi_tag i) x (index_of h) = index_of (h(x \<mapsto> i))"
proof (rule ext)
  fix t show "byTag_insert (hi_tag i) x (index_of h) t = index_of (h(x \<mapsto> i)) t"
    unfolding byTag_insert_def index_of_def with_tag_insert [where h = h and i = i, OF assms]
    by (cases "hi_tag i = t") simp_all
qed

lemma index_of_erase:
  assumes "h x = Some i"
  shows "byTag_erase (hi_tag i) x (index_of h) = index_of (h(x := None))"
proof (rule ext)
  have ne: "with_tag h (hi_tag i) \<noteq> {}" using assms by (auto simp: with_tag_def)
  fix t show "byTag_erase (hi_tag i) x (index_of h) t = index_of (h(x := None)) t"
    using ne with_tag_other [where h = h and t = t, OF assms]
    unfolding byTag_erase_def index_of_def with_tag_erase
    by (cases "hi_tag i = t") simp_all
qed

lemma index_of_update:
  "h x = Some i \<Longrightarrow> hi_tag j = hi_tag i \<Longrightarrow> index_of (h(x \<mapsto> j)) = index_of h"
  by (rule ext) (auto simp: index_of_def with_tag_def)

section \<open>Well-formed chains and free list\<close>

definition ids_upto :: "u64 \<Rightarrow> u64 set" where
  "ids_upto n = {x. 1 \<le> x \<and> x \<le> n}"

text \<open>\<open>room s k\<close>: the file can grow by \<open>k\<close> blocks and stay below the largest offset.\<close>

definition room :: "store \<Rightarrow> nat \<Rightarrow> bool" where
  "room s k \<longleftrightarrow> (unat (m_nblocks s) + k + 1) * m_bs s < 2 ^ 63"

definition free_wf :: "store \<Rightarrow> bool" where
  "free_wf s \<longleftrightarrow> distinct (m_free s) \<and> set (m_free s) \<subseteq> ids_upto (m_nblocks s)"

definition chain_wf :: "store \<Rightarrow> (u64 \<Rightarrow> u64 list) \<Rightarrow> (u64 \<rightharpoonup> u32 \<times> bytes) \<Rightarrow> u64 \<Rightarrow> bool" where
  "chain_wf s ch rs x \<longleftrightarrow>
     distinct (x # ch x) \<and> set (x # ch x) \<subseteq> ids_upto (m_nblocks s) - set (m_free s)
   \<and> (\<exists>h d. m_head s x = Some h \<and> rs x = Some (hi_tag h, d) \<and> rec_chain (readBlock s) x h (ch x) d)"

definition chains_wf :: "u64 set \<Rightarrow> store \<Rightarrow> (u64 \<Rightarrow> u64 list) \<Rightarrow> (u64 \<rightharpoonup> u32 \<times> bytes) \<Rightarrow> bool" where
  "chains_wf D s ch rs \<longleftrightarrow> good s \<and> room s 0 \<and> free_wf s
     \<and> (\<forall>x\<in>D. chain_wf s ch rs x)
     \<and> (\<forall>x\<in>D. \<forall>y\<in>D. x \<noteq> y \<longrightarrow> set (x # ch x) \<inter> set (y # ch y) = {})"

text \<open>
  \<open>store_wf s ch rs\<close>: the store is well formed, \<open>ch\<close> gives the continuation blocks of
  each record and \<open>rs\<close> is the abstract content, tag and bytes of each record.
\<close>

definition store_wf :: "store \<Rightarrow> (u64 \<Rightarrow> u64 list) \<Rightarrow> (u64 \<rightharpoonup> u32 \<times> bytes) \<Rightarrow> bool" where
  "store_wf s ch rs \<longleftrightarrow> chains_wf (dom (m_head s)) s ch rs \<and> dom rs = dom (m_head s)
     \<and> m_byTag s = index_of (m_head s)"

lemma ids_upto_addressable: "room s 0 \<Longrightarrow> ids_upto (m_nblocks s) \<subseteq> addressable s"
proof
  fix x assume r: "room s 0" and x: "x \<in> ids_upto (m_nblocks s)"
  have "unat x \<le> unat (m_nblocks s)" using x by (simp add: ids_upto_def word_le_nat_alt)
  then have "(unat x + 1) * m_bs s \<le> (unat (m_nblocks s) + 0 + 1) * m_bs s"
    by (intro mult_le_mono1) simp
  with r have "(unat x + 1) * m_bs s < 2 ^ 63" unfolding room_def by (rule order.strict_trans1 [rotated])
  moreover have "x \<noteq> 0" using x by (auto simp: ids_upto_def)
  ultimately show "x \<in> addressable s" by (simp add: addressable_def)
qed

lemma room_bound:
  assumes "good s" and "room s k"
  shows "unat (m_nblocks s) + k + 1 < 2 ^ 63"
proof -
  have "(unat (m_nblocks s) + k + 1) * 1 \<le> (unat (m_nblocks s) + k + 1) * m_bs s"
    using assms(1) by (intro mult_le_mono2) (simp add: good_def geometry_def)
  then have "(unat (m_nblocks s) + k + 1) * 1 < 2 ^ 63"
    using assms(2) unfolding room_def by (rule order.strict_trans1)
  then show ?thesis by simp
qed

lemma room_le:
  assumes "room s k" and "unat (m_nblocks t) + j \<le> unat (m_nblocks s) + k" and "m_bs t = m_bs s"
  shows "room t j"
proof -
  have "(unat (m_nblocks t) + j + 1) * m_bs t \<le> (unat (m_nblocks s) + k + 1) * m_bs s"
    using assms(2,3) by (simp add: mult_le_mono1)
  then show ?thesis using assms(1) unfolding room_def by (rule order.strict_trans1)
qed

lemma room_mono: "room s k \<Longrightarrow> j \<le> k \<Longrightarrow> room s j"
  by (erule room_le) simp_all

lemma chains_wf_mono: "chains_wf D s ch rs \<Longrightarrow> E \<subseteq> D \<Longrightarrow> chains_wf E s ch rs"
  unfolding chains_wf_def by blast

section \<open>Writing a chain next to the others\<close>

lemma write_conts_rel:
  assumes "\<And>x ty tag nxt d s r t. wr x ty tag nxt d s = (r, t) \<Longrightarrow> R s t"
    and "\<And>s. R s s" and tr: "\<And>x y z. R x y \<Longrightarrow> R y z \<Longrightarrow> R x z"
  shows "write_conts wr cap xs dat i s = (r, t) \<Longrightarrow> R s t"
proof (induction i arbitrary: s r t)
  case (Suc i)
  show ?case
  proof (cases "i = 0")
    case False
    let ?w = "wr (xs ! i) 2 0 (if i + 1 < length xs then xs ! (i + 1) else 0) (chunk cap dat i)"
    have "bind ?w (\<lambda>_. write_conts wr cap xs dat i) s = (r, t)"
      using Suc.prems False by simp
    then show ?thesis by - (rule bind_rel [where R = R, rotated 3], assumption, erule assms(1), erule Suc.IH, erule (1) tr)
  qed (use Suc.prems assms(2) in \<open>simp add: ret_def\<close>)
qed (simp add: ret_def assms(2))

lemma write_chain_rel:
  assumes wr: "\<And>x ty tag nxt d s r t. wr x ty tag nxt d s = (r, t) \<Longrightarrow> R s t"
    and fl: "\<And>s r t. fl s = (r, t) \<Longrightarrow> R s t"
    and rf: "\<And>s. R s s" and tr: "\<And>x y z. R x y \<Longrightarrow> R y z \<Longrightarrow> R x z"
    and w: "write_chain wr fl cap dur xs dat tag s = (r, t)"
  shows "R s t"
proof -
  have fin: "(if c then fl else ret ()) s = (r, t) \<Longrightarrow> R s t" for c s r t
    using fl rf by (auto simp: ret_def split: if_splits)
  have last: "bind (wr a b c d e) (\<lambda>_. if dur then fl else ret ()) s = (r, t) \<Longrightarrow> R s t" for a b c d e s r t
    by (rule bind_rel [where R = R, rotated 3], assumption, erule wr, erule fin, erule (1) tr)
  have mid: "bind (if c then fl else ret ()) (\<lambda>_. bind (wr x y z d e) (\<lambda>_. if dur then fl else ret ())) s = (r, t) \<Longrightarrow> R s t"
    for c x y z d e s r t
    by (rule bind_rel [where R = R, rotated 3], assumption, erule fin, erule last, erule (1) tr)
  have first: "write_conts wr cap xs dat i s = (r, t) \<Longrightarrow> R s t" for i s r t
    by (rule write_conts_rel [where R = R, OF wr rf tr])
  show ?thesis
    using w unfolding write_chain_def
    by - (rule bind_rel [where R = R, rotated 3], assumption, erule first, erule mid, erule (1) tr)
qed

lemma writeBlock_same_store: "writeBlock x ty tag nxt dat s = (r, t) \<Longrightarrow> same_store s t"
  using writeBlock_steps [of x ty tag nxt dat s r t] pwriteFull_result
  by (auto intro: same_store_trans dest: on_dev_same_store)

lemma writeChain_same_store: "writeChain xs dat tag s = (r, t) \<Longrightarrow> same_store s t"
  unfolding writeChain_def
  by (erule write_chain_rel [rotated 4]) (auto intro: writeBlock_same_store same_store_trans dest: sync_same_store)

definition blocks :: "u64 set \<Rightarrow> (u64 \<Rightarrow> u64 list) \<Rightarrow> u64 set" where
  "blocks D ch = (\<Union>x\<in>D. set (x # ch x))"

lemma blocks_mono: "E \<subseteq> D \<Longrightarrow> blocks E ch \<subseteq> blocks D ch"
  by (auto simp: blocks_def)

lemma chains_wf_blocks:
  "chains_wf D s ch rs \<Longrightarrow> blocks D ch \<subseteq> ids_upto (m_nblocks s) - set (m_free s)"
  unfolding chains_wf_def chain_wf_def blocks_def by blast

lemma chains_wf_addressable: "chains_wf D s ch rs \<Longrightarrow> ids_upto (m_nblocks s) \<subseteq> addressable s"
  unfolding chains_wf_def using ids_upto_addressable by blast

text \<open>Writes that keep the blocks of some records keep those records.\<close>

lemma chain_wf_keeps:
  assumes "chain_wf s ch rs x" and "same_store s t" and "bd.keeps s Y t" and "set (x # ch x) \<subseteq> Y"
  shows "chain_wf t ch rs x"
proof -
  obtain h d where h: "m_head s x = Some h" "rs x = Some (hi_tag h, d)"
    and rc: "rec_chain (readBlock s) x h (ch x) d"
    using assms(1) by (auto simp: chain_wf_def)
  have "rec_chain (readBlock t) x h (ch x) d"
    using rec_chain_cong [OF rc] bd.keeps_rd [OF assms(3)] assms(4) by blast
  then show ?thesis
    using assms(1) h by (simp add: chain_wf_def same_store_fields [OF assms(2)])
qed

lemma chains_wf_keeps:
  assumes wf: "chains_wf D s ch rs" and st: "same_store s t" and k: "bd.keeps s Y t"
    and sub: "blocks D ch \<subseteq> Y"
  shows "chains_wf D t ch rs"
proof -
  have "chain_wf t ch rs x" if x: "x \<in> D" for x
  proof (rule chain_wf_keeps [OF _ st k])
    show "chain_wf s ch rs x" using wf x by (simp add: chains_wf_def)
    show "set (x # ch x) \<subseteq> Y" using sub x by (auto simp: blocks_def)
  qed
  then show ?thesis
    using wf by (simp add: chains_wf_def room_def free_wf_def same_store_fields [OF st] same_store_good [OF st])
qed

section \<open>Allocation\<close>

lemma alloc_room:
  assumes "good s" and "room s k" and "0 < k" and "m_free s = []"
  shows "unat (m_nblocks s + 1) = unat (m_nblocks s) + 1"
  using room_bound [OF assms(1,2)] by (simp add: unat_word_ariths)

text \<open>
  \<open>allocs\<close> takes distinct block numbers from the free list and from behind the end of the
  file, none of them in use.
\<close>

lemma allocs_spec:
  assumes "good s" and "room s k" and "free_wf s"
  obtains xs F N where "allocs k s = (Inr xs, s\<lparr>m_free := F, m_nblocks := N\<rparr>)"
    and "length xs = k" and "distinct xs" and "set xs \<inter> set F = {}" and "set xs \<subseteq> ids_upto N"
    and "m_nblocks s \<le> N" and "unat N \<le> unat (m_nblocks s) + k"
    and "set F \<subseteq> set (m_free s)" and "distinct F"
    and "set xs \<inter> (ids_upto (m_nblocks s) - set (m_free s)) = {}"
  using assms
proof (induction k arbitrary: s thesis)
  case 0
  show ?case
    using "0.prems"(4) by (intro "0.prems"(1) [where xs = "[]" and F = "m_free s" and N = "m_nblocks s"]) (auto simp: ret_def free_wf_def)
next
  case (Suc k)
  let ?n = "m_nblocks s" and ?F = "m_free s"
  show ?case
  proof (cases "?F = []")
    case True
    have n1: "unat (?n + 1) = unat ?n + 1" by (rule alloc_room [OF Suc.prems(2,3) _ True]) simp
    let ?u = "s\<lparr>m_nblocks := ?n + 1\<rparr>"
    have r: "room ?u k" by (rule room_le [OF Suc.prems(3)]) (simp_all add: n1)
    have "good ?u" "free_wf ?u" using Suc.prems(2) True by (auto simp: free_wf_def)
    then obtain xs F N where a: "allocs k ?u = (Inr xs, ?u\<lparr>m_free := F, m_nblocks := N\<rparr>)"
      and h: "length xs = k" "distinct xs" "set xs \<inter> set F = {}" "set xs \<subseteq> ids_upto N"
      "?n + 1 \<le> N" "unat N \<le> unat (?n + 1) + k" "set F \<subseteq> set ?F" "distinct F"
      "set xs \<inter> (ids_upto (?n + 1) - set ?F) = {}"
      using Suc.IH [of ?u] r by auto
    have new: "?n + 1 \<in> ids_upto N" "?n + 1 \<notin> set xs" "?n + 1 \<notin> ids_upto ?n"
      using h(5,9) n1 True by (auto simp: ids_upto_def word_le_nat_alt)
    have sub: "ids_upto ?n \<subseteq> ids_upto (?n + 1)" using n1 by (auto simp: ids_upto_def word_le_nat_alt)
    show ?thesis
    proof (rule Suc.prems(1) [where xs = "(?n + 1) # xs" and F = F and N = N])
      show "allocs (Suc k) s = (Inr ((?n + 1) # xs), s\<lparr>m_free := F, m_nblocks := N\<rparr>)"
        using a True by (simp add: bind_def alloc_def ret_def)
    qed (use h new sub True n1 in \<open>auto simp: word_le_nat_alt\<close>)
  next
    case False
    let ?u = "s\<lparr>m_free := butlast ?F\<rparr>"
    have F: "?F = butlast ?F @ [last ?F]" using False by simp
    have wf: "distinct (butlast ?F)" "last ?F \<notin> set (butlast ?F)" "set (butlast ?F) \<subseteq> set ?F"
      "last ?F \<in> ids_upto ?n" "set ?F = insert (last ?F) (set (butlast ?F))"
      using Suc.prems(4) F unfolding free_wf_def
      by (metis distinct_append not_distinct_conv_prefix, metis distinct_append distinct.simps(2) not_distinct_conv_prefix,
          metis append_Nil2 set_append sup_ge1, metis last_in_set False subsetD,
          metis Un_insert_right list.simps(15) set_append append_Nil2 list.set(1) sup_bot_right)
    have "good ?u" "free_wf ?u" using Suc.prems(2,4) wf by (auto simp: free_wf_def)
    moreover have "room ?u k" by (rule room_le [OF Suc.prems(3)]) simp_all
    ultimately obtain xs F N where a: "allocs k ?u = (Inr xs, ?u\<lparr>m_free := F, m_nblocks := N\<rparr>)"
      and h: "length xs = k" "distinct xs" "set xs \<inter> set F = {}" "set xs \<subseteq> ids_upto N"
      "?n \<le> N" "unat N \<le> unat ?n + k" "set F \<subseteq> set (butlast ?F)" "distinct F"
      "set xs \<inter> (ids_upto ?n - set (butlast ?F)) = {}"
      using Suc.IH [of ?u] by auto
    have new: "last ?F \<in> ids_upto N" "last ?F \<notin> set xs" "last ?F \<notin> set F"
      using h(5,7,9) wf by (auto simp: ids_upto_def)
    show ?thesis
    proof (rule Suc.prems(1) [where xs = "last ?F # xs" and F = F and N = N])
      show "allocs (Suc k) s = (Inr (last ?F # xs), s\<lparr>m_free := F, m_nblocks := N\<rparr>)"
        using a False by (simp add: bind_def alloc_def ret_def)
    qed (use h new wf in auto)
  qed
qed

end
