(* ===== verification/Record_Operations.thy ===== *)
theory Record_Operations
  imports Store_Invariant
begin

text \<open>
  What \<open>insertLocked\<close>, \<open>updateLocked\<close>, \<open>removeLocked\<close> and \<open>getLocked\<close>
  do to the records of a store, whatever the outcome of the input and output they make.
\<close>

section \<open>Allocating and writing next to the other records\<close>

text \<open>
  \<open>fresh s xs D ch\<close>: the blocks \<open>xs\<close> are in the file, not free, and in no chain of
  \<open>D\<close>.
\<close>

definition fresh :: "store \<Rightarrow> u64 list \<Rightarrow> u64 set \<Rightarrow> (u64 \<Rightarrow> u64 list) \<Rightarrow> bool" where
  "fresh s xs D ch \<longleftrightarrow> distinct xs
     \<and> set xs \<subseteq> ids_upto (m_nblocks s) - set (m_free s) \<and> set xs \<inter> blocks D ch = {}"

lemma chains_wf_grow:
  assumes wf: "chains_wf D s ch rs" and r: "room s k"
    and N: "m_nblocks s \<le> N" "unat N \<le> unat (m_nblocks s) + k"
    and F: "set F \<subseteq> set (m_free s)" "distinct F"
  shows "chains_wf D (s\<lparr>m_free := F, m_nblocks := N\<rparr>) ch rs"
proof -
  let ?u = "s\<lparr>m_free := F, m_nblocks := N\<rparr>"
  have ids: "ids_upto (m_nblocks s) \<subseteq> ids_upto N" using N(1) by (auto simp: ids_upto_def)
  have "room ?u 0" by (rule room_le [OF r]) (use N in simp_all)
  moreover have "free_wf ?u" using wf F ids by (auto simp: chains_wf_def free_wf_def)
  moreover have "chain_wf ?u ch rs x" if "x \<in> D" for x
    using wf that ids F(1) unfolding chains_wf_def chain_wf_def by fastforce
  ultimately show ?thesis using wf by (simp add: chains_wf_def)
qed

lemma allocs_wf:
  assumes wf: "chains_wf D s ch rs" and r: "room s k"
  obtains xs F N where "allocs k s = (Inr xs, s\<lparr>m_free := F, m_nblocks := N\<rparr>)"
    and "length xs = k" and "fresh (s\<lparr>m_free := F, m_nblocks := N\<rparr>) xs D ch"
    and "chains_wf D (s\<lparr>m_free := F, m_nblocks := N\<rparr>) ch rs"
proof -
  have g: "good s" "free_wf s" using wf by (auto simp: chains_wf_def)
  obtain xs F N where a: "allocs k s = (Inr xs, s\<lparr>m_free := F, m_nblocks := N\<rparr>)" "length xs = k"
    "distinct xs" "set xs \<inter> set F = {}" "set xs \<subseteq> ids_upto N"
    "m_nblocks s \<le> N" "unat N \<le> unat (m_nblocks s) + k"
    "set F \<subseteq> set (m_free s)" "distinct F" "set xs \<inter> (ids_upto (m_nblocks s) - set (m_free s)) = {}"
    using allocs_spec [OF g(1) r g(2)] by metis
  moreover have "fresh (s\<lparr>m_free := F, m_nblocks := N\<rparr>) xs D ch"
    using a chains_wf_blocks [OF wf] by (auto simp: fresh_def)
  ultimately show thesis using chains_wf_grow [OF wf r] that by blast
qed

lemma writeChain_keeps:
  assumes wf: "chains_wf D s ch rs" and f: "set xs \<subseteq> ids_upto (m_nblocks s)" "distinct xs" "xs \<noteq> []"
    and w: "writeChain xs dat tag s = (r, t)"
  shows "bd.keeps s (addressable s - set xs) t"
proof -
  have "good s" "set xs \<subseteq> addressable s"
    using wf subset_trans [OF f(1) chains_wf_addressable [OF wf]] by (simp_all add: chains_wf_def)
  then show ?thesis using f w unfolding writeChain_def by (intro bd.write_chain_keeps)
qed

lemma writeChain_others:
  assumes wf: "chains_wf D s ch rs" and f: "fresh s xs D ch" "xs \<noteq> []"
    and w: "writeChain xs dat tag s = (r, t)"
  shows "chains_wf D t ch rs" and "same_store s t"
proof -
  show st: "same_store s t" by (rule writeChain_same_store [OF w])
  have k: "bd.keeps s (addressable s - set xs) t"
    using writeChain_keeps [OF wf _ _ f(2) w] f(1) by (auto simp: fresh_def)
  have "blocks D ch \<subseteq> addressable s - set xs"
    using chains_wf_blocks [OF wf] chains_wf_addressable [OF wf] f(1) by (auto simp: fresh_def)
  with wf st k show "chains_wf D t ch rs" by (rule chains_wf_keeps)
qed

lemma writeChain_done:
  assumes wf: "chains_wf D s ch rs" and f: "set xs \<subseteq> ids_upto (m_nblocks s)" "distinct xs"
    and len: "length xs = chunks (m_cap s) (length dat)"
    and w: "writeChain xs dat tag s = (Inr u, t)"
  shows "rec_chain (readBlock t) (xs ! 0) \<lparr>hi_tag = tag, hi_next = next_of xs\<rparr> (tl xs) dat"
proof -
  have "good s" "set xs \<subseteq> addressable s" "0 < m_cap s"
    using wf subset_trans [OF f(1) chains_wf_addressable [OF wf]]
    by (simp_all add: chains_wf_def good_def geometry_def)
  then show ?thesis using f len w unfolding writeChain_def next_of_def by (intro bd.write_chain_ok)
qed

text \<open>Adding one record whose chain is in place.\<close>

lemma chains_wf_add:
  assumes wf: "chains_wf D s ch rs" and f: "fresh s xs D ch" and ne: "xs \<noteq> []"
    and rc: "rec_chain (readBlock s) (xs ! 0) h (tl xs) dat"
    and t: "m_head t = (m_head s)(xs ! 0 \<mapsto> h)" "readBlock t = readBlock s" "good t = good s"
      "m_nblocks t = m_nblocks s" "m_free t = m_free s" "m_bs t = m_bs s"
  shows "chains_wf (insert (xs ! 0) D) t (ch(xs ! 0 := tl xs)) (rs(xs ! 0 \<mapsto> (hi_tag h, dat)))"
proof -
  let ?x = "xs ! 0" and ?ch = "ch(xs ! 0 := tl xs)" and ?rs = "rs(xs ! 0 \<mapsto> (hi_tag h, dat))"
  have xs: "xs = ?x # tl xs" using ne by (cases xs) auto
  have cx: "set (?x # ?ch ?x) = set xs" by (subst (4) xs) simp
  have xD: "?x \<notin> D" using f xs by (cases xs) (auto simp: fresh_def blocks_def)
  have new: "chain_wf t ?ch ?rs ?x"
    using f t rc xs cx unfolding chain_wf_def fresh_def by (metis fun_upd_same)
  have old: "chain_wf t ?ch ?rs y" if "y \<in> D" for y
    using wf that xD t by (auto simp: chains_wf_def chain_wf_def)
  have disj: "set (?x # ?ch ?x) \<inter> set (y # ?ch y) = {}" if "y \<in> D" for y
    using that xD f unfolding cx by (auto simp: fresh_def blocks_def)
  have rest: "good t" "room t 0" "free_wf t" using wf t by (auto simp: chains_wf_def room_def free_wf_def)
  have od: "set (y # ?ch y) \<inter> set (z # ?ch z) = {}" if "y \<in> D" "z \<in> D" "y \<noteq> z" for y z
    using wf that xD by (auto simp: chains_wf_def)
  show ?thesis unfolding chains_wf_def
    using new old disj od rest by (metis Int_commute insert_iff)
qed

text \<open>A chain that is given up goes to the free list.\<close>

lemma chains_wf_free:
  assumes wf: "chains_wf D s ch rs" and new: "distinct fs" "set fs \<subseteq> ids_upto (m_nblocks s) - set (m_free s)"
    "set fs \<inter> blocks D ch = {}"
  shows "chains_wf D (s\<lparr>m_free := m_free s @ fs\<rparr>) ch rs"
proof -
  have "chain_wf (s\<lparr>m_free := m_free s @ fs\<rparr>) ch rs x" if x: "x \<in> D" for x
  proof -
    have "set (x # ch x) \<inter> set fs = {}" using new(3) x by (auto simp: blocks_def)
    moreover have "chain_wf s ch rs x" using wf x by (simp add: chains_wf_def)
    ultimately show ?thesis unfolding chain_wf_def by auto
  qed
  then show ?thesis using wf new(1,2) unfolding chains_wf_def by (auto simp: free_wf_def room_def)
qed

section \<open>Reading\<close>

lemma card_ids_upto: "card (ids_upto n) = unat n"
proof -
  have lt: "unat n < 2 ^ LENGTH(64)" by (rule unsigned_less)
  have "ids_upto n = of_nat ` {1..unat n}"
  proof (rule set_eqI)
    fix x :: u64
    show "x \<in> ids_upto n \<longleftrightarrow> x \<in> of_nat ` {1..unat n}"
    proof
      assume "x \<in> ids_upto n"
      then have "unat x \<in> {1..unat n}" by (auto simp: ids_upto_def word_le_nat_alt)
      moreover have "x = of_nat (unat x)" by simp
      ultimately show "x \<in> of_nat ` {1..unat n}" by (rule image_eqI [rotated])
    next
      assume "x \<in> of_nat ` {1..unat n}"
      then obtain k where k: "x = of_nat k" "1 \<le> k" "k \<le> unat n" by auto
      then have "unat x = k" using lt by (simp add: unat_of_nat)
      then show "x \<in> ids_upto n" using k by (simp add: ids_upto_def word_le_nat_alt)
    qed
  qed
  moreover have "inj_on (of_nat :: nat \<Rightarrow> u64) {1..unat n}"
    using lt by (intro inj_onI) (auto simp: word_of_nat_eq_iff take_bit_nat_eq_self)
  ultimately show ?thesis by (simp add: card_image)
qed

lemma chain_length:
  assumes "chains_wf D s ch rs" and "x \<in> D"
  shows "length (ch x) < unat (m_nblocks s + 1)"
proof -
  have g: "good s" "room s 0" and c: "distinct (x # ch x)" "set (x # ch x) \<subseteq> ids_upto (m_nblocks s)"
    using assms by (auto simp: chains_wf_def chain_wf_def)
  have "finite (ids_upto (m_nblocks s))" by simp
  then have "card (set (x # ch x)) \<le> unat (m_nblocks s)"
    using card_mono c(2) card_ids_upto by metis
  then have "length (x # ch x) \<le> unat (m_nblocks s)" using distinct_card [OF c(1)] by simp
  then show ?thesis using room_bound [OF g] by (simp add: unat_word_ariths)
qed

lemma getLocked_wf:
  assumes wf: "chains_wf D s ch rs" and x: "x \<in> D"
  obtains tag d where "rs x = Some (tag, d)" and "getLocked s x = Inr (Some d)"
proof -
  obtain h d where h: "m_head s x = Some h" "rs x = Some (hi_tag h, d)"
    and rc: "rec_chain (readBlock s) x h (ch x) d" and "x \<notin> set (ch x)"
    using wf x by (auto simp: chains_wf_def chain_wf_def)
  then have "read_chain (readBlock s) x (unat (m_nblocks s + 1)) x = Inr d"
    using chain_length [OF wf x] by (intro read_chain_rec)
  with h show thesis by (intro that) (simp_all add: getLocked_def)
qed

lemma oldContinuations_wf:
  assumes wf: "chains_wf D s ch rs" and x: "x \<in> D" and h: "m_head s x = Some h"
  shows "oldContinuations s h = Inr (ch x)"
proof -
  obtain dat where "cont_chain (readBlock s) (hi_next h) (ch x) dat"
    using wf x h by (auto simp: chains_wf_def chain_wf_def rec_chain_def)
  then show ?thesis
    unfolding oldContinuations_def using chain_length [OF wf x] by (intro old_conts_chain) auto
qed

section \<open>Inserting\<close>

text \<open>The members the record operations leave alone.\<close>

definition same_roots :: "store \<Rightarrow> store \<Rightarrow> bool" where
  "same_roots s t \<longleftrightarrow> m_roots t = m_roots s \<and> m_dirId t = m_dirId s \<and> m_dirDirty t = m_dirDirty s
     \<and> is_open t = is_open s \<and> durable t = durable s \<and> m_cap t = m_cap s \<and> m_bs t = m_bs s"

lemma same_roots_refl: "same_roots s s"
  by (simp add: same_roots_def)

lemma same_store_roots: "same_store s t \<Longrightarrow> same_roots s t"
  by (simp add: same_roots_def same_store_fields)

lemma insertLocked_wf:
  assumes wf: "store_wf s ch rs" and r: "room s (chunks (m_cap s) (length dat))"
    and ins: "insertLocked dat tag s = (r, t)"
  shows "same_roots s t \<and>
    (case r of
       Inl _ \<Rightarrow> store_wf t ch rs
     | Inr x \<Rightarrow> x \<noteq> 0 \<and> rs x = None \<and> (\<exists>ch'. store_wf t ch' (rs(x \<mapsto> (tag, dat)))))"
proof -
  let ?D = "dom (m_head s)"
  have cw: "chains_wf ?D s ch rs" and dr: "dom rs = ?D" and ix: "m_byTag s = index_of (m_head s)"
    using wf by (auto simp: store_wf_def)
  obtain xs F N where a: "allocs (chunks (m_cap s) (length dat)) s = (Inr xs, s\<lparr>m_free := F, m_nblocks := N\<rparr>)"
    and len: "length xs = chunks (m_cap s) (length dat)"
    and fr: "fresh (s\<lparr>m_free := F, m_nblocks := N\<rparr>) xs ?D ch"
    and wu: "chains_wf ?D (s\<lparr>m_free := F, m_nblocks := N\<rparr>) ch rs"
    by (rule allocs_wf [OF cw r])
  let ?u = "s\<lparr>m_free := F, m_nblocks := N\<rparr>"
  have ne: "xs \<noteq> []" using len chunks_pos by (metis length_0_conv less_not_refl)
  obtain q v where w: "writeChain xs dat tag ?u = (q, v)" by fastforce
  note ov = writeChain_others [OF wu fr ne w]
  note fv = same_store_fields [OF ov(2)]
  show ?thesis
  proof (cases q)
    case (Inl e)
    then have "r = Inl e" "t = v" using ins a w by (auto simp: insertLocked_def)
    then show ?thesis using ov(1) dr ix fv by (simp add: store_wf_def same_roots_def)
  next
    case (Inr y)
    let ?x = "xs ! 0" and ?h = "\<lparr>hi_tag = tag, hi_next = next_of xs\<rparr>"
    have rt: "r = Inr ?x" "t = v\<lparr>m_head := (m_head v)(?x \<mapsto> ?h), m_byTag := byTag_insert tag ?x (m_byTag v)\<rparr>"
      using ins a w Inr by (auto simp: insertLocked_def op_defs)
    have rc: "rec_chain (readBlock v) ?x ?h (tl xs) dat"
      using writeChain_done [OF wu _ _ _ w [unfolded Inr]] fr len by (auto simp: fresh_def)
    have fr2: "fresh v xs ?D ch" using fr fv by (simp add: fresh_def)
    have cw2: "chains_wf (insert ?x ?D) t (ch(?x := tl xs)) (rs(?x \<mapsto> (hi_tag ?h, dat)))"
      by (rule chains_wf_add [OF ov(1) fr2 ne rc]) (simp_all add: rt)
    have x: "?x \<notin> ?D" "?x \<noteq> 0"
      using fr ne rc by (cases xs; auto simp: fresh_def blocks_def rec_chain_def)+
    have "store_wf t (ch(?x := tl xs)) (rs(?x \<mapsto> (tag, dat)))"
      using cw2 rt fv dr ix x index_of_insert [of "m_head s" ?x ?h]
      by (auto simp: store_wf_def)
    then show ?thesis using rt x dr fv by (auto simp: same_roots_def)
  qed
qed

section \<open>Updating\<close>

text \<open>
  An update writes the new continuation blocks, then the head over the old one: it ends with
  the new content, or with the old content unless the head was being written; the other
  records stay as they are in every case.
\<close>

lemma updateLocked_wf:
  assumes wf: "store_wf s ch rs" and x: "rs x = Some (tag, d)"
    and r: "room s (chunks (m_cap s) (length dat))"
    and upd: "updateLocked x dat s = (r, t)"
  shows "same_roots s t \<and> m_byTag t = m_byTag s \<and> dom (m_head t) = dom (m_head s) \<and>
    (case r of
       Inl _ \<Rightarrow> chains_wf (dom (m_head s) - {x}) t ch rs
     | Inr _ \<Rightarrow> (\<exists>ch'. store_wf t ch' (rs(x \<mapsto> (tag, dat)))))"
proof -
  let ?D = "dom (m_head s)" and ?E = "dom (m_head s) - {x}" and ?k = "chunks (m_cap s) (length dat) - 1"
  have cw: "chains_wf ?D s ch rs" and dr: "dom rs = ?D" and ix: "m_byTag s = index_of (m_head s)"
    using wf by (auto simp: store_wf_def)
  have xD: "x \<in> ?D" using x dr by blast
  obtain h where h: "m_head s x = Some h" and ht: "hi_tag h = tag"
  proof -
    have "chain_wf s ch rs x" using cw xD by (simp add: chains_wf_def)
    then show thesis using that x by (auto simp: chain_wf_def)
  qed
  have hs: "(m_head s)(x \<mapsto> h) = m_head s" using h by (simp add: fun_upd_idem)
  note old = oldContinuations_wf [OF cw xD h]
  obtain xs F N where a: "allocs ?k s = (Inr xs, s\<lparr>m_free := F, m_nblocks := N\<rparr>)"
    and len: "length xs = ?k" and fr: "fresh (s\<lparr>m_free := F, m_nblocks := N\<rparr>) xs ?D ch"
    and wu: "chains_wf ?D (s\<lparr>m_free := F, m_nblocks := N\<rparr>) ch rs"
    using allocs_wf [OF cw room_mono [OF r]] diff_le_self by metis
  let ?u = "s\<lparr>m_free := F, m_nblocks := N\<rparr>"
  have ch: "chain_wf ?u ch rs x" using wu xD by (simp add: chains_wf_def)
  have disj: "set (x # ch x) \<inter> blocks ?E ch = {}" using wu xD by (auto simp: chains_wf_def blocks_def)
  have xch: "set (x # ch x) \<subseteq> blocks ?D ch" using xD by (auto simp: blocks_def)
  have fr2: "fresh ?u (x # xs) ?E ch"
    using fr ch disj xch blocks_mono [of ?E ?D ch] by (auto simp: fresh_def chain_wf_def)
  have wE: "chains_wf ?E ?u ch rs" by (rule chains_wf_mono [OF wu]) blast
  obtain q v where w: "writeChain (x # xs) dat tag ?u = (q, v)" by fastforce
  note ov = writeChain_others [OF wE fr2 _ w]
  note fv = same_store_fields [OF ov(2), simplified]
  have run: "updateLocked x dat s = bind (writeChain (x # xs) dat tag) (\<lambda>_.
         modify (\<lambda>s. s\<lparr>m_head := (m_head s)(x \<mapsto> h\<lparr>hi_next := next_of (x # xs)\<rparr>),
                       m_free := m_free s @ ch x\<rparr>)) ?u"
    using h hs old a ht by (simp add: updateLocked_def bind_def modify_def reads_def Let_def)
  show ?thesis
  proof (cases q)
    case (Inl e)
    then have "r = Inl e" "t = v" using upd run w by auto
    then show ?thesis using ov(1) fv by (simp add: same_roots_def)
  next
    case (Inr y)
    let ?h = "h\<lparr>hi_next := next_of (x # xs)\<rparr>"
    let ?v1 = "v\<lparr>m_head := (m_head v)(x \<mapsto> ?h)\<rparr>"
    have rt: "r = Inr ()" "t = ?v1\<lparr>m_free := m_free ?v1 @ ch x\<rparr>"
      using upd run w Inr by (auto simp: op_defs)
    have n: "length (x # xs) = chunks (m_cap ?u) (length dat)"
      using len chunks_pos [of "m_cap s" "length dat"] by simp
    have rc: "rec_chain (readBlock v) ((x # xs) ! 0) ?h (tl (x # xs)) dat"
      using writeChain_done [OF wu _ _ n w [unfolded Inr]] fr2 ht
      by (cases h) (auto simp: fresh_def)
    have fr3: "fresh v (x # xs) ?E ch" using fr2 fv by (simp add: fresh_def)
    have cw2: "chains_wf (insert x ?E) ?v1 (ch(x := xs)) (rs(x \<mapsto> (hi_tag ?h, dat)))"
      using chains_wf_add [OF ov(1) fr3 _ rc, of ?v1] by simp
    have bl: "blocks (insert x ?E) (ch(x := xs)) = set (x # xs) \<union> blocks ?E ch"
      using disj by (auto simp: blocks_def fun_upd_apply split: if_splits)
    have new: "distinct (ch x)" "set (ch x) \<subseteq> ids_upto (m_nblocks ?v1) - set (m_free ?v1)"
      "set (ch x) \<inter> blocks (insert x ?E) (ch(x := xs)) = {}"
      using ch fr disj xch unfolding bl by (auto simp: chain_wf_def fv fresh_def)
    have "chains_wf (insert x ?E) t (ch(x := xs)) (rs(x \<mapsto> (tag, dat)))"
      using chains_wf_free [OF cw2 new] rt(2) ht by simp
    moreover have "insert x ?E = dom (m_head t)" "m_byTag t = index_of (m_head t)"
      using rt(2) fv ix xD index_of_update [of "m_head s" x h ?h] h by auto
    ultimately have "store_wf t (ch(x := xs)) (rs(x \<mapsto> (tag, dat)))"
      using dr xD rt(2) fv by (auto simp: store_wf_def)
    then show ?thesis using rt fv xD by (auto simp: same_roots_def)
  qed
qed

section \<open>Removing\<close>

lemma same_roots_trans: "same_roots s t \<Longrightarrow> same_roots t u \<Longrightarrow> same_roots s u"
  by (simp add: same_roots_def)

lemma drop_record_wf:
  assumes wf: "store_wf s ch rs" and h: "m_head s x = Some h"
    and st: "same_store s v" and k: "bd.keeps s (addressable s - {x}) v"
  shows "store_wf (drop_record x h (ch x) v) ch (rs(x := None))"
proof -
  let ?D = "dom (m_head s)" and ?E = "dom (m_head s) - {x}"
  have cw: "chains_wf ?D s ch rs" and dr: "dom rs = ?D" and ix: "m_byTag s = index_of (m_head s)"
    using wf by (auto simp: store_wf_def)
  have xD: "x \<in> ?D" using h by blast
  have cE: "chains_wf ?E s ch rs" by (rule chains_wf_mono [OF cw]) blast
  have cx: "chain_wf s ch rs x" using cw xD by (simp add: chains_wf_def)
  have disj: "set (x # ch x) \<inter> blocks ?E ch = {}" using cw xD by (auto simp: chains_wf_def blocks_def)
  have "blocks ?E ch \<subseteq> addressable s - {x}"
    using chains_wf_blocks [OF cE] chains_wf_addressable [OF cE] disj by auto
  from chains_wf_keeps [OF cE st k this] have cv: "chains_wf ?E v ch rs" .
  note fv = same_store_fields [OF st]
  let ?v1 = "v\<lparr>m_free := m_free v @ x # ch x\<rparr>"
  let ?t = "drop_record x h (ch x) v"
  have c1: "chains_wf ?E ?v1 ch rs"
    using cx disj by (intro chains_wf_free [OF cv]) (auto simp: chain_wf_def fv)
  have same: "readBlock ?t = readBlock ?v1" by (rule readBlock_cong) (simp_all add: drop_record_def)
  have "chain_wf ?t ch (rs(x := None)) y" if y: "y \<in> ?E" for y
    using c1 y unfolding chains_wf_def chain_wf_def same by (auto simp: drop_record_def fv)
  then have "chains_wf ?E ?t ch (rs(x := None))"
    using c1 unfolding chains_wf_def
    by (auto simp: drop_record_def good_def geometry_def room_def free_wf_def)
  moreover have "dom (m_head ?t) = ?E" by (simp add: drop_record_def fv)
  moreover have "m_byTag ?t = index_of (m_head ?t)"
    using ix index_of_erase [where h = "m_head s", OF h] by (simp add: drop_record_def fv)
  ultimately show ?thesis using dr by (auto simp: store_wf_def)
qed

lemma removeLocked_steps:
  assumes wf: "store_wf s ch rs" and x: "rs x = Some (tag, d)"
    and rem: "removeLocked x s = (r, t)"
  obtains (failed) e where "r = Inl e" "same_store s t" "bd.keeps s (addressable s - {x}) t"
    | (dropped) u where "store_wf u ch (rs(x := None))"
        "m_roots u = filter (\<lambda>(_, y). y \<noteq> x) (m_roots s)" "m_dirId u = m_dirId s"
        "m_dirDirty u = (m_dirDirty s \<or> x \<in> snd ` set (m_roots s))"
        "m_nblocks u = m_nblocks s" "m_cap u = m_cap s" "m_bs u = m_bs s" "is_open u = is_open s"
        "(if m_dirDirty u then saveDirectoryLocked (u\<lparr>m_dirDirty := False\<rparr>) else (Inr (), u)) = (r, t)"
proof -
  have cw: "chains_wf (dom (m_head s)) s ch rs" and xD: "x \<in> dom (m_head s)"
    using wf x by (auto simp: store_wf_def)
  then obtain h where h: "m_head s x = Some h" by blast
  have g: "good s" "x \<in> addressable s"
  proof -
    have "chain_wf s ch rs x" using cw xD by (simp add: chains_wf_def)
    then have "x \<in> ids_upto (m_nblocks s)" by (simp add: chain_wf_def)
    then show "x \<in> addressable s" using chains_wf_addressable [OF cw] by blast
    show "good s" using cw by (simp add: chains_wf_def)
  qed
  obtain q1 s1 where w: "writeBlock x 0 0 0 [] s = (q1, s1)" by fastforce
  have k1: "bd.keeps s (addressable s - {x}) s1" by (rule bd.wr_keeps [OF g _ w]) simp
  note st1 = writeBlock_same_store [OF w]
  have run: "removeLocked x s = bind (writeBlock x 0 0 0 []) (\<lambda>_.
          bind (if durable s then sync else ret ()) (\<lambda>_.
          bind (modify (drop_record x h (ch x))) (\<lambda>_.
          (\<lambda>s. if m_dirDirty s then saveDirectoryLocked (s\<lparr>m_dirDirty := False\<rparr>) else (Inr (), s))))) s"
    using h oldContinuations_wf [OF cw xD h] by (simp add: removeLocked_def bind_def reads_def)
  show thesis
  proof (cases q1)
    case (Inl e)
    then show thesis using failed w run rem k1 st1 by auto
  next
    case (Inr y)
    obtain q2 s2 where f: "(if durable s then sync else ret ()) s1 = (q2, s2)" by fastforce
    have st2: "same_store s1 s2" using f sync_same_store by (auto simp: ret_def split: if_splits)
    have "bd.keeps s1 (addressable s1) s2"
      using f bd.fl_keeps [of s1 q2 s2] bd.keeps_refl [of s1] bd.keeps_good [OF k1]
      by (auto simp: ret_def split: if_splits)
    then have k2: "bd.keeps s (addressable s - {x}) s2"
      using k1 bd.keeps_good [OF k1] by (auto intro: bd.keeps_trans bd.keeps_mono)
    note st = same_store_trans [OF st1 st2]
    show thesis
    proof (cases q2)
      case (Inl e)
      then show thesis using failed w run rem k2 st f Inr by (auto simp: bind_def)
    next
      case (Inr z)
      let ?u = "drop_record x h (ch x) s2"
      show thesis
      proof (rule dropped [of ?u])
        show "store_wf ?u ch (rs(x := None))" by (rule drop_record_wf [OF wf h st k2])
        show "m_dirDirty ?u = (m_dirDirty s \<or> x \<in> snd ` set (m_roots s))"
          using same_store_fields [OF st] by (auto simp: drop_record_def rev_image_eqI)
        show "(if m_dirDirty ?u then saveDirectoryLocked (?u\<lparr>m_dirDirty := False\<rparr>) else (Inr (), ?u)) = (r, t)"
          using w f \<open>q1 = Inr y\<close> Inr run rem by (simp add: bind_def modify_def)
      qed (simp_all add: drop_record_def same_store_fields [OF st])
    qed
  qed
qed

section \<open>The directory record\<close>

definition dir_record :: "store \<Rightarrow> (u64 \<rightharpoonup> u32 \<times> bytes) \<Rightarrow> bool" where
  "dir_record s rs \<longleftrightarrow> m_dirId s \<noteq> 0 \<longrightarrow> (\<exists>d. rs (m_dirId s) = Some (kDirTag, d))"

lemma store_wf_zero: "store_wf s ch rs \<Longrightarrow> rs 0 = None"
proof (rule ccontr)
  assume wf: "store_wf s ch rs" and "rs 0 \<noteq> None"
  then have "0 \<in> dom (m_head s)" by (auto simp: store_wf_def)
  with wf have "chain_wf s ch rs 0" by (simp add: store_wf_def chains_wf_def)
  then show False by (simp add: chain_wf_def rec_chain_def)
qed

lemma saveDirectoryLocked_wf:
  assumes wf: "store_wf s ch rs" and dir: "dir_record s rs"
    and r: "room s (chunks (m_cap s) (length (encode_directory (m_roots s))))"
    and sv: "saveDirectoryLocked s = (r, t)"
  shows "m_roots t = m_roots s \<and> m_dirDirty t = m_dirDirty s \<and> is_open t = is_open s \<and>
    (case r of
       Inl _ \<Rightarrow> m_dirId t = m_dirId s \<and> chains_wf (dom rs - {m_dirId s}) t ch rs
     | Inr _ \<Rightarrow> m_dirId t \<noteq> 0 \<and> (if m_dirId s = 0 then rs (m_dirId t) = None else m_dirId t = m_dirId s)
         \<and> (\<exists>ch'. store_wf t ch' (rs(m_dirId t \<mapsto> (kDirTag, encode_directory (m_roots s))))))"
proof (cases "m_dirId s = 0")
  case True
  let ?out = "encode_directory (m_roots s)"
  obtain q v where i: "insertLocked ?out kDirTag s = (q, v)" by fastforce
  note res = insertLocked_wf [OF wf r i]
  show ?thesis
  proof (cases q)
    case (Inl e)
    then have "r = Inl e" "t = v" using sv True i by (auto simp: saveDirectoryLocked_def)
    then show ?thesis
      using res Inl True by (auto simp: same_roots_def store_wf_def intro: chains_wf_mono)
  next
    case (Inr x)
    then have rt: "r = Inr ()" "t = v\<lparr>m_dirId := x\<rparr>"
      using sv True i by (auto simp: saveDirectoryLocked_def modify_def)
    have "store_wf t ch' rs' = store_wf v ch' rs'" for ch' rs'
      unfolding rt(2) by (simp add: store_wf_def chains_wf_def chain_wf_def room_def free_wf_def)
    then show ?thesis using res Inr True rt by (auto simp: same_roots_def)
  qed
next
  case False
  then obtain d where d: "rs (m_dirId s) = Some (kDirTag, d)" using dir by (auto simp: dir_record_def)
  have u: "updateLocked (m_dirId s) (encode_directory (m_roots s)) s = (r, t)"
    using sv False by (simp add: saveDirectoryLocked_def)
  show ?thesis
    using updateLocked_wf [OF wf d r u] False wf
    by (auto simp: same_roots_def store_wf_def split: sum.splits)
qed

end
