(* ===== verification/Record_Store.thy ===== *)
theory Record_Store
  imports Record_Operations
begin

text \<open>
  The \<open>LocalStorage\<close> its clients see: identifiers to tagged byte strings.  The relation
  \<open>views s U\<close> is the abstraction: the file's chains carry the records \<open>U\<close> and the
  directory record that goes with \<open>m_roots\<close>.  The locale \<open>record_store\<close> is the contract
  of the operations over it, interpreted on the model's operations.
\<close>

section \<open>Abstraction\<close>

type_synonym records = "u64 \<rightharpoonup> u32 \<times> bytes"

definition dir_wf :: "store \<Rightarrow> records \<Rightarrow> bool" where
  "dir_wf s rs \<longleftrightarrow> \<not> m_dirDirty s
     \<and> (\<forall>x d. rs x = Some (kDirTag, d) \<longrightarrow> x = m_dirId s)
     \<and> (if m_dirId s = 0 then m_roots s = [] else rs (m_dirId s) = Some (kDirTag, encode_directory (m_roots s)))
     \<and> snd ` set (m_roots s) \<subseteq> dom rs - {m_dirId s}"

definition views :: "store \<Rightarrow> records \<Rightarrow> bool" where
  "views s U \<longleftrightarrow> is_open s \<and> (\<exists>ch rs. store_wf s ch rs \<and> dir_wf s rs \<and> U = rs(m_dirId s := None))"

definition fits :: "store \<Rightarrow> bytes \<Rightarrow> bool" where
  "fits s dat \<longleftrightarrow> room s (chunks (m_cap s) (length dat))"

lemma viewsE:
  assumes "views s U"
  obtains ch rs where "store_wf s ch rs" "dir_wf s rs" "U = rs(m_dirId s := None)" "is_open s"
  using assms by (auto simp: views_def)

lemma views_dom: "views s U \<Longrightarrow> dom U = {x. store_exists s x}"
  by (elim viewsE) (auto simp: store_wf_def store_exists_def)

lemma views_None: "views s U \<Longrightarrow> U x = None \<longleftrightarrow> x = m_dirId s \<or> m_head s x = None"
proof -
  assume "views s U"
  then have "U x \<noteq> None \<longleftrightarrow> store_exists s x" using views_dom [of s U] by (metis domIff mem_Collect_eq)
  then show ?thesis unfolding store_exists_def by blast
qed

lemma views_zero: "views s U \<Longrightarrow> U 0 = None"
  by (elim viewsE) (auto dest: store_wf_zero)

lemma views_tag: "views s U \<Longrightarrow> U x = Some (t, d) \<Longrightarrow> t \<noteq> kDirTag"
  by (elim viewsE) (auto simp: dir_wf_def split: if_splits)

lemma dir_wf_same:
  assumes "dir_wf s rs" and "same_roots s t"
  shows "dir_wf t rs"
  using assms by (simp add: dir_wf_def same_roots_def)

section \<open>The operations on the abstraction\<close>

lemma store_get_views:
  assumes "views s U" and "x \<noteq> m_dirId s"
  shows "store_get s x = Inr (map_option snd (U x))"
proof -
  obtain ch rs where wf: "store_wf s ch rs" and U: "U = rs(m_dirId s := None)"
    using assms(1) by (rule viewsE)
  show ?thesis
  proof (cases "x \<in> dom (m_head s)")
    case True
    have "chains_wf (dom (m_head s)) s ch rs" using wf by (simp add: store_wf_def)
    then obtain tag d where "rs x = Some (tag, d)" "getLocked s x = Inr (Some d)"
      using getLocked_wf True by metis
    then show ?thesis using assms(2) U by (simp add: store_get_def)
  next
    case False
    then have "rs x = None" using wf by (auto simp: store_wf_def)
    with False assms(2) U show ?thesis by (auto simp: store_get_def getLocked_def domIff)
  qed
qed

lemma store_insert_views:
  assumes sh: "views s U" and ft: "fits s dat" and ins: "store_insert dat tag s = (r, t)"
  shows "case r of
     Inl _ \<Rightarrow> views t U
   | Inr x \<Rightarrow> x \<noteq> 0 \<and> x \<noteq> m_dirId s \<and> U x = None \<and> views t (U(x \<mapsto> (tag, dat)))"
proof -
  obtain ch rs where wf: "store_wf s ch rs" and dw: "dir_wf s rs" and U: "U = rs(m_dirId s := None)"
    and op: "is_open s" using sh by (rule viewsE)
  show ?thesis
  proof (cases "tag = kDirTag")
    case True
    then show ?thesis using ins sh by (auto simp: store_insert_def)
  next
    case False
    then have i: "insertLocked dat tag s = (r, t)" using ins op by (simp add: store_insert_def)
    have res: "same_roots s t \<and>
      (case r of Inl _ \<Rightarrow> store_wf t ch rs
       | Inr x \<Rightarrow> x \<noteq> 0 \<and> rs x = None \<and> (\<exists>ch'. store_wf t ch' (rs(x \<mapsto> (tag, dat)))))"
      by (rule insertLocked_wf [OF wf _ i]) (use ft in \<open>simp add: fits_def\<close>)
    then have t: "m_dirId t = m_dirId s" "is_open t" using op by (simp_all add: same_roots_def)
    show ?thesis
    proof (cases r)
      case (Inl e)
      then show ?thesis
        using res U t dir_wf_same [OF dw] by (auto simp: views_def)
    next
      case (Inr x)
      with res obtain ch' where w: "store_wf t ch' (rs(x \<mapsto> (tag, dat)))" and x: "x \<noteq> 0" "rs x = None"
        by auto
      have d: "x \<noteq> m_dirId s" using dw x by (auto simp: dir_wf_def split: if_splits)
      have "dir_wf t (rs(x \<mapsto> (tag, dat)))"
        using dir_wf_same [OF dw, of t] res False d t by (auto simp: dir_wf_def)
      moreover have "U(x \<mapsto> (tag, dat)) = (rs(x \<mapsto> (tag, dat)))(m_dirId t := None)"
        using U t d by (simp add: fun_upd_twist)
      ultimately show ?thesis using Inr x d w t U by (auto simp: views_def)
    qed
  qed
qed

lemma store_update_views:
  assumes sh: "views s U" and ft: "fits s dat" and upd: "store_update x dat s = (Inr b, t)"
  shows "b = (U x \<noteq> None) \<and> views t (case U x of None \<Rightarrow> U | Some (tag, _) \<Rightarrow> U(x \<mapsto> (tag, dat)))"
proof -
  obtain ch rs where wf: "store_wf s ch rs" and dw: "dir_wf s rs" and U: "U = rs(m_dirId s := None)"
    and op: "is_open s" using sh by (rule viewsE)
  show ?thesis
  proof (cases "U x")
    case None
    then have "x = m_dirId s \<or> m_head s x = None" by (simp add: views_None [OF sh])
    then have "b = False" "t = s" using upd by (simp_all add: store_update_def)
    then show ?thesis using sh None by simp
  next
    case (Some e)
    then obtain tag d where e: "U x = Some (tag, d)" by (cases e) auto
    then have x: "rs x = Some (tag, d)" "x \<noteq> m_dirId s" using U by (auto split: if_splits)
    then have "m_head s x \<noteq> None" using wf by (auto simp: store_wf_def)
    with x upd have u: "updateLocked x dat s = (Inr (), t)" and b: "b = True"
      by (auto simp: store_update_def bind_Inr_iff ret_def)
    note res = updateLocked_wf [OF wf x(1) _ u] ft
    then obtain ch' where w: "store_wf t ch' (rs(x \<mapsto> (tag, dat)))" and sr: "same_roots s t"
      by (auto simp: fits_def)
    have t: "m_dirId t = m_dirId s" "is_open t" using sr op by (simp_all add: same_roots_def)
    have tg: "tag \<noteq> kDirTag" using views_tag [OF sh e] .
    have "dir_wf t (rs(x \<mapsto> (tag, dat)))"
      using dir_wf_same [OF dw sr] x tg t by (auto simp: dir_wf_def)
    moreover have "U(x \<mapsto> (tag, dat)) = (rs(x \<mapsto> (tag, dat)))(m_dirId t := None)"
      using U t x by (simp add: fun_upd_twist)
    ultimately show ?thesis using b e w t by (auto simp: views_def)
  qed
qed

lemma dir_wf_dir_record: "dir_wf s rs \<Longrightarrow> dir_record s rs"
  by (auto simp: dir_wf_def dir_record_def split: if_splits)

lemma saveDirectory_views:
  assumes wf: "store_wf s ch rs" and op: "is_open s"
    and dr: "\<not> m_dirDirty s" "\<forall>x d. rs x = Some (kDirTag, d) \<longrightarrow> x = m_dirId s" "dir_record s rs"
      "snd ` set (m_roots s) \<subseteq> dom rs - {m_dirId s}"
    and r: "fits s (encode_directory (m_roots s))"
    and sv: "saveDirectoryLocked s = (Inr u, t)"
  shows "views t (rs(m_dirId s := None)) \<and> m_roots t = m_roots s"
proof -
  let ?rs = "rs(m_dirId t \<mapsto> (kDirTag, encode_directory (m_roots s)))"
  have "room s (chunks (m_cap s) (length (encode_directory (m_roots s))))" using r by (simp add: fits_def)
  note all = saveDirectoryLocked_wf [OF wf dr(3) this sv, simplified]
  have res: "m_roots t = m_roots s" "m_dirDirty t = m_dirDirty s" "is_open t = is_open s" "m_dirId t \<noteq> 0"
    using all by simp_all
  have di: "if m_dirId s = 0 then rs (m_dirId t) = None else m_dirId t = m_dirId s" using all by blast
  obtain ch' where wt: "store_wf t ch' ?rs" using all by blast
  have z: "rs 0 = None" by (rule store_wf_zero [OF wf])
  have "dir_wf t ?rs"
  proof -
    have "snd ` set (m_roots s) \<subseteq> dom ?rs - {m_dirId t}" using dr(4) di by (cases "m_dirId s = 0") auto
    then have "snd ` set (m_roots t) \<subseteq> dom ?rs - {m_dirId t}" unfolding res(1) .
    moreover have "\<forall>x d. ?rs x = Some (kDirTag, d) \<longrightarrow> x = m_dirId t"
      using dr(2) di z by (metis fun_upd_other option.distinct(1))
    moreover have "if m_dirId t = 0 then m_roots t = []
        else ?rs (m_dirId t) = Some (kDirTag, encode_directory (m_roots t))"
      using res(1,4) by simp
    moreover have "\<not> m_dirDirty t" using res(2) dr(1) by simp
    ultimately show ?thesis unfolding dir_wf_def by blast
  qed
  moreover have "rs(m_dirId s := None) = ?rs(m_dirId t := None)"
    using di z by (cases "m_dirId s = 0") auto
  ultimately show ?thesis using res(1,3) op wt unfolding views_def by blast
qed

lemma store_remove_views:
  assumes sh: "views s U"
    and ft: "x \<in> snd ` set (m_roots s) \<Longrightarrow>
      fits s (encode_directory (filter (\<lambda>(_, y). y \<noteq> x) (m_roots s)))"
    and rem: "store_remove x s = (Inr b, t)"
  shows "b = (U x \<noteq> None) \<and> views t (U(x := None))
    \<and> m_roots t = (if b then filter (\<lambda>(_, y). y \<noteq> x) (m_roots s) else m_roots s)"
proof -
  obtain ch rs where wf: "store_wf s ch rs" and dw: "dir_wf s rs" and U: "U = rs(m_dirId s := None)"
    and op: "is_open s" using sh by (rule viewsE)
  show ?thesis
  proof (cases "U x")
    case None
    then have "x = m_dirId s \<or> m_head s x = None" by (simp add: views_None [OF sh])
    then have "b = False" "t = s" using rem by (simp_all add: store_remove_def)
    then show ?thesis using sh None by (simp add: fun_upd_idem)
  next
    case (Some e)
    then obtain tag d where e: "U x = Some (tag, d)" by (cases e) auto
    then have x: "rs x = Some (tag, d)" "x \<noteq> m_dirId s" using U by (auto split: if_splits)
    then have "m_head s x \<noteq> None" using wf by (auto simp: store_wf_def)
    with x rem have u: "removeLocked x s = (Inr (), t)" and b: "b = True"
      by (auto simp: store_remove_def bind_Inr_iff ret_def)
    show ?thesis
      using wf x(1) u
    proof (cases rule: removeLocked_steps)
      case (failed e)
      then show ?thesis by simp
    next
      case (dropped u)
      let ?rs = "rs(x := None)" and ?R = "filter (\<lambda>(_, y). y \<noteq> x) (m_roots s)"
      have Ux: "U(x := None) = ?rs(m_dirId s := None)" unfolding U by (rule ext) simp
      have dd: "\<not> m_dirDirty s" "\<forall>y d. rs y = Some (kDirTag, d) \<longrightarrow> y = m_dirId s" "dir_record s rs"
        using dw dir_wf_dir_record [OF dw] by (auto simp: dir_wf_def)
      show ?thesis
      proof (cases "x \<in> snd ` set (m_roots s)")
        case False
        then have R: "?R = m_roots s" by (auto simp: filter_id_conv image_iff)
        have "t = u" using dropped(4,9) dd(1) False by simp
        moreover have "dir_wf u ?rs"
          using dw dropped(2-4) x(2) False R by (auto simp: dir_wf_def image_iff split: if_splits)
        ultimately show ?thesis
          using dropped op b e R Ux unfolding views_def by auto
      next
        case True
        let ?u = "u\<lparr>m_dirDirty := False\<rparr>"
        have sv: "saveDirectoryLocked ?u = (Inr (), t)" using dropped(4,9) True by simp
        have w: "store_wf ?u ch ?rs" using dropped(1)
          by (simp add: store_wf_def chains_wf_def chain_wf_def room_def free_wf_def)
        have "views t (?rs(m_dirId ?u := None)) \<and> m_roots t = m_roots ?u"
        proof (rule saveDirectory_views [OF w _ _ _ _ _ _ sv])
          show "is_open ?u" using op dropped(8) by simp
          show "\<forall>y d. ?rs y = Some (kDirTag, d) \<longrightarrow> y = m_dirId ?u" using dd(2) dropped(3) by auto
          show "dir_record ?u ?rs" using dd(3) dropped(3) x(2) by (simp add: dir_record_def)
          show "snd ` set (m_roots ?u) \<subseteq> dom ?rs - {m_dirId ?u}"
            using dw dropped(2,3) by (auto simp: dir_wf_def)
          show "fits ?u (encode_directory (m_roots ?u))"
            using ft [OF True] dropped by (simp add: fits_def room_def)
        qed simp
        then show ?thesis using dropped(2,3) b e Ux by simp
      qed
    qed
  qed
qed

lemma set_put_root: "snd ` set (put_root k v m) \<subseteq> insert v (snd ` set m)"
  by (induction k v m rule: put_root.induct) (auto split: if_splits)

lemma setRoot_views:
  assumes sh: "views s U"
    and ft: "fits s (encode_directory (put_root k x (m_roots s)))"
    and st: "setRoot k x s = (Inr u, t)"
  shows "U x \<noteq> None \<and> views t U \<and> m_roots t = put_root k x (m_roots s)"
proof -
  obtain ch rs where wf: "store_wf s ch rs" and dw: "dir_wf s rs" and U: "U = rs(m_dirId s := None)"
    and op: "is_open s" using sh by (rule viewsE)
  have x: "U x \<noteq> None" using st by (auto simp: setRoot_def views_None [OF sh] split: if_splits)
  let ?s = "s\<lparr>m_roots := put_root k x (m_roots s)\<rparr>"
  have sv: "saveDirectoryLocked ?s = (Inr u, t)" using st by (auto simp: setRoot_def split: if_splits)
  have w: "store_wf ?s ch rs"
    using wf by (simp add: store_wf_def chains_wf_def chain_wf_def room_def free_wf_def)
  have "views t (rs(m_dirId ?s := None)) \<and> m_roots t = m_roots ?s"
  proof (rule saveDirectory_views [OF w _ _ _ _ _ _ sv])
    show "\<forall>y d. rs y = Some (kDirTag, d) \<longrightarrow> y = m_dirId ?s" using dw by (auto simp: dir_wf_def)
    show "dir_record ?s rs" using dir_wf_dir_record [OF dw] by (simp add: dir_record_def)
    have "insert x (snd ` set (m_roots s)) \<subseteq> dom rs - {m_dirId s}"
      using dw x U by (auto simp: dir_wf_def split: if_splits)
    then show "snd ` set (m_roots ?s) \<subseteq> dom rs - {m_dirId ?s}"
      using subset_trans [OF set_put_root [of k x "m_roots s"]] by simp
    show "fits ?s (encode_directory (m_roots ?s))" using ft by (simp add: fits_def room_def)
  qed (use op dw in \<open>simp_all add: dir_wf_def\<close>)
  then show ?thesis using x U by simp
qed

section \<open>The contract its clients rely on\<close>

text \<open>
  A store of tagged records: \<open>abs s U\<close> says that \<open>s\<close> holds the records \<open>U\<close>,
  \<open>fit s d\<close> that there is room for \<open>d\<close>, and \<open>user\<close> which tags are not reserved.
\<close>

locale record_store =
  fixes ins :: "bytes \<Rightarrow> u32 \<Rightarrow> ('s, 'e, u64) op"
    and get :: "'s \<Rightarrow> u64 \<Rightarrow> 'e + bytes option"
    and upd :: "u64 \<Rightarrow> bytes \<Rightarrow> ('s, 'e, bool) op"
    and rem :: "u64 \<Rightarrow> ('s, 'e, bool) op"
    and lst :: "'s \<Rightarrow> u32 \<Rightarrow> u64 list"
    and abs :: "'s \<Rightarrow> records \<Rightarrow> bool"
    and fit :: "'s \<Rightarrow> bytes \<Rightarrow> bool"
    and drops :: "'s \<Rightarrow> u64 \<Rightarrow> bool"
    and user :: "u32 \<Rightarrow> bool"
  assumes ins_law: "abs s U \<Longrightarrow> fit s d \<Longrightarrow> ins d tg s = (Inr x, t) \<Longrightarrow> U x = None \<and> abs t (U(x \<mapsto> (tg, d)))"
    and get_law: "abs s U \<Longrightarrow> U x = Some (tg, d) \<Longrightarrow> get s x = Inr (Some d)"
    and upd_law: "abs s U \<Longrightarrow> fit s d \<Longrightarrow> upd x d s = (Inr b, t) \<Longrightarrow>
          b = (U x \<noteq> None) \<and> abs t (case U x of None \<Rightarrow> U | Some (tg, _) \<Rightarrow> U(x \<mapsto> (tg, d)))"
    and rem_law: "abs s U \<Longrightarrow> drops s x \<Longrightarrow> rem x s = (Inr b, t) \<Longrightarrow> b = (U x \<noteq> None) \<and> abs t (U(x := None))"
    and lst_law: "abs s U \<Longrightarrow> user tg \<Longrightarrow> distinct (lst s tg) \<and> set (lst s tg) = {x. \<exists>d. U x = Some (tg, d)}"

context record_store
begin

lemma ins_get:
  assumes "abs s U" and "fit s d" and "ins d tg s = (Inr x, t)"
  shows "get t x = Inr (Some d)"
  using ins_law [OF assms] get_law [of t "U(x \<mapsto> (tg, d))" x tg d] by simp

lemma ins_other:
  assumes "abs s U" and "fit s d" and "ins d tg s = (Inr x, t)" and "U y = Some (tg', d')"
  shows "y \<noteq> x \<and> get t y = Inr (Some d')"
  using ins_law [OF assms(1-3)] get_law [of t "U(x \<mapsto> (tg, d))" y tg' d'] assms(4)
  by (cases "y = x") auto

lemma upd_get:
  assumes "abs s U" and "fit s d" and "upd x d s = (Inr True, t)"
  shows "get t x = Inr (Some d)"
  using upd_law [OF assms] get_law [of t "U(x \<mapsto> (tg, d))" x tg d for tg] by (auto split: option.splits)

lemma upd_other:
  assumes "abs s U" and "fit s d" and "upd x d s = (Inr b, t)" and "y \<noteq> x" and "U y = Some (tg, d')"
  shows "get t y = Inr (Some d')"
  using upd_law [OF assms(1-3)] get_law assms(4,5)
  by (cases "U x") (auto split: prod.splits)

lemma rem_lst:
  assumes "abs s U" and "drops s x" and "rem x s = (Inr b, t)" and "user tg"
  shows "set (lst t tg) = set (lst s tg) - {x}"
  using lst_law [OF assms(1,4)] lst_law [of t "U(x := None)" tg] rem_law [OF assms(1-3)] assms(4) by auto

end

section \<open>The contract holds of \<open>LocalStorage\<close>\<close>

lemma ids_views:
  assumes sh: "views s U" and tg: "tg \<noteq> kDirTag"
  shows "distinct (ids s tg) \<and> sorted (ids s tg) \<and> set (ids s tg) = {x. \<exists>d. U x = Some (tg, d)}"
proof -
  obtain ch rs where wf: "store_wf s ch rs" and dw: "dir_wf s rs" and U: "U = rs(m_dirId s := None)"
    using sh by (rule viewsE)
  have rs: "rs x = Some (t, d) \<Longrightarrow> x \<in> with_tag (m_head s) t" for x t d
  proof -
    assume r: "rs x = Some (t, d)"
    then have "x \<in> dom (m_head s)" using wf by (auto simp: store_wf_def)
    then have "chain_wf s ch rs x" using wf by (simp add: store_wf_def chains_wf_def)
    then show "x \<in> with_tag (m_head s) t" using r by (auto simp: chain_wf_def with_tag_def)
  qed
  have "set (ids s tg) = with_tag (m_head s) tg \<and> distinct (ids s tg) \<and> sorted (ids s tg)"
    using wf tg by (auto simp: ids_def store_wf_def index_of_def)
  moreover have "with_tag (m_head s) tg = {x. \<exists>d. U x = Some (tg, d)}"
  proof (intro set_eqI iffI)
    fix x assume x: "x \<in> with_tag (m_head s) tg"
    then have "x \<in> dom (m_head s)" by (auto simp: with_tag_def)
    then have "chain_wf s ch rs x" using wf by (simp add: store_wf_def chains_wf_def)
    then obtain d where d: "rs x = Some (tg, d)" using x by (auto simp: chain_wf_def with_tag_def)
    then have "x \<noteq> m_dirId s" using dw tg store_wf_zero [OF wf] by (auto simp: dir_wf_def split: if_splits)
    then show "x \<in> {x. \<exists>d. U x = Some (tg, d)}" using d U by simp
  next
    fix x assume "x \<in> {x. \<exists>d. U x = Some (tg, d)}"
    then show "x \<in> with_tag (m_head s) tg" using rs U by (auto split: if_splits)
  qed
  ultimately show ?thesis by simp
qed

definition drop_fits :: "store \<Rightarrow> u64 \<Rightarrow> bool" where
  "drop_fits s x \<longleftrightarrow> (x \<in> snd ` set (m_roots s) \<longrightarrow>
     fits s (encode_directory (filter (\<lambda>(_, y). y \<noteq> x) (m_roots s))))"

interpretation ls: record_store store_insert store_get store_update store_remove ids views fits drop_fits "\<lambda>tg. tg \<noteq> kDirTag"
proof
  show "U x = None \<and> views t (U(x \<mapsto> (tg, d)))"
    if "views s U" "fits s d" "store_insert d tg s = (Inr x, t)" for s U d tg x t
    using store_insert_views [OF that] by simp
  show "store_get s x = Inr (Some d)" if "views s U" "U x = Some (tg, d)" for s U x tg d
    using store_get_views [OF that(1), of x] views_None [OF that(1), of x] that(2) by auto
  show "b = (U x \<noteq> None) \<and> views t (case U x of None \<Rightarrow> U | Some (tg, _) \<Rightarrow> U(x \<mapsto> (tg, d)))"
    if "views s U" "fits s d" "store_update x d s = (Inr b, t)" for s U d x b t
    using that by (rule store_update_views)
  show "b = (U x \<noteq> None) \<and> views t (U(x := None))"
    if "views s U" "drop_fits s x" "store_remove x s = (Inr b, t)" for s U x b t
    using store_remove_views [OF that(1) _ that(3)] that(2) by (simp add: drop_fits_def)
  show "distinct (ids s tg) \<and> set (ids s tg) = {x. \<exists>d. U x = Some (tg, d)}"
    if "views s U" "tg \<noteq> kDirTag" for s U tg
    using ids_views [OF that] by simp
qed

end
