(* ===== verification/Store_Open.thy ===== *)
theory Store_Open
  imports Local_Storage
begin

text \<open>
  Opening a \<open>LocalStorage\<close> (core/storage/local_storage.cpp: the constructor,
  \<open>deriveKey\<close>, \<open>createHeader\<close>, \<open>loadHeader\<close>, \<open>scan\<close>, \<open>loadDirectory\<close>,
  \<open>setPath\<close>, \<open>cleanup\<close>): the header block, the scan that rebuilds the record index and
  the free list, and the directory of named roots.  An object whose constructor throws does
  not exist, so the state that comes with an exception of these functions is never used.
\<close>

section \<open>Header\<close>

definition kMagic :: bytes where
  "kMagic = [0x45, 0x53, 0x42, 0x53, 0x30, 0x30, 0x30, 0x31]"

definition kCheck :: bytes where
  "kCheck = [0x45, 0x53, 0x42, 0x53, 0x2D, 0x43, 0x48, 0x45, 0x43, 0x4B, 0x2D, 0x4F, 0x4B, 0x21, 0x21, 0x21]"

definition kHdrAad :: nat where "kHdrAad = 8 + kSalt + 4"
definition kHdr :: nat where "kHdr = kHdrAad + kNonce + 16 + kTag"

definition deriveKey :: "bytes \<Rightarrow> bytes \<Rightarrow> (store, storage_error, unit) op" where
  "deriveKey pw salt s =
     (case scrypt (lib (dev s)) pw salt of
        None \<Rightarrow> (Inl KeyDerivationFailed, s)
      | Some k \<Rightarrow> (Inr (), s\<lparr>m_key := k\<rparr>))"

definition createHeader :: "bytes \<Rightarrow> (store, storage_error, unit) op" where
  "createHeader pw s =
     (if opt_block_size s < 128 \<or> 2 ^ 20 < opt_block_size s then (Inl BadBlockSize, s)
      else
        (bind (modify (setGeometry (opt_block_size s))) (\<lambda>_.
         bind (on_dev (randBytes kSalt)) (\<lambda>salt.
         let aad = kMagic @ salt @ w32 (of_nat (opt_block_size s))
         in bind (deriveKey pw salt) (\<lambda>_.
            bind (on_dev (randBytes kNonce)) (\<lambda>nonce.
            bind (reads (\<lambda>s. aeadEncrypt s nonce aad kCheck)) (\<lambda>ct.
            bind (on_dev (pwriteFull (aad @ nonce @ ct) 0)) (\<lambda>_.
            bind (\<lambda>s. on_dev (sys_ftruncate (m_bs s)) s) (\<lambda>_.
            sync)))))))) s)"

definition loadHeader :: "bytes \<Rightarrow> (store, storage_error, unit) op" where
  "loadHeader pw s =
     (case preadFull (dev s) kHdr 0 of
        Inl e \<Rightarrow> (Inl e, s)
      | Inr h \<Rightarrow>
          if take 8 h \<noteq> kMagic then (Inl NotALocalStorageFile, s)
          else
            (let bs = r32 (drop (8 + kSalt) h)
             in if bs < 128 \<or> 2 ^ 20 < bs then (Inl CorruptHeader, s)
                else bind (deriveKey pw (take kSalt (drop 8 h))) (\<lambda>_.
                     bind (reads (\<lambda>s. aeadDecrypt s (take kNonce (drop kHdrAad h)) (take kHdrAad h)
                                         (take (16 + kTag) (drop (kHdrAad + kNonce) h)))) (\<lambda>chk.
                     case chk of None \<Rightarrow> throw WrongPassword | Some _ \<Rightarrow> ret ()))
                   (setGeometry (unat bs) s)))"

section \<open>Scan\<close>

record info =
  in_type :: byte
  in_tag :: u32
  in_next :: u64

definition info_of :: "blk \<Rightarrow> info" where
  "info_of b = \<lparr>in_type = blk_type b, in_tag = blk_tag b, in_next = blk_next b\<rparr>"

text \<open>\<open>for (id = 1; id <= n; id++) readBlock (id, b);\<close> over the identifiers in that order.\<close>

fun read_infos :: "store \<Rightarrow> u64 list \<Rightarrow> storage_error + info list" where
  "read_infos s [] = Inr []"
| "read_infos s (x # xs) =
     (case readBlock s x of
        Inl e \<Rightarrow> Inl e
      | Inr b \<Rightarrow> (case read_infos s xs of Inl e \<Rightarrow> Inl e | Inr is \<Rightarrow> Inr (info_of b # is)))"

text \<open>
  \<open>info[c]\<close> for \<open>1 <= c <= n\<close>; the table is a list from identifier 1 on.
\<close>

definition info_at :: "info list \<Rightarrow> u64 \<Rightarrow> info" where
  "info_at is c = is ! (unat c - 1)"

text \<open>
  One walk along a chain: \<open>seen\<close> grows by the blocks walked; \<open>None\<close> is the
  broken-chain exception.
\<close>

function follow :: "info list \<Rightarrow> u64 set \<Rightarrow> u64 \<Rightarrow> u64 set option" where
  "follow is seen c =
     (if c = 0 then Some seen
      else if length is < unat c \<or> in_type (info_at is c) \<noteq> 2 \<or> c \<in> seen then None
      else follow is (insert c seen) (in_next (info_at is c)))"
  by pat_completeness auto
termination
proof (relation "measure (\<lambda>(is, seen, c). card (UNIV - seen))")
  fix "is" :: "info list" and seen :: "u64 set" and c
  assume "\<not> (length is < unat c \<or> in_type (info_at is c) \<noteq> 2 \<or> c \<in> seen)"
  then have "UNIV - insert c seen \<subset> UNIV - seen" by blast
  then show "((is, insert c seen, in_next (info_at is c)), is, seen, c) \<in> measure (\<lambda>(is, seen, c). card (UNIV - seen))"
    by (simp add: psubset_card_mono)
qed simp

declare follow.simps [simp del]

text \<open>The loop over the heads: it registers each head and walks its chain.\<close>

fun scan_heads :: "info list \<Rightarrow> u64 list \<Rightarrow> u64 set \<Rightarrow> (store, storage_error, u64 set) op" where
  "scan_heads is [] seen = ret seen"
| "scan_heads is (x # xs) seen =
     (let i = info_at is x
      in if in_type i \<noteq> 1 then scan_heads is xs seen
         else bind (modify (\<lambda>s. s\<lparr>m_head := (m_head s)(x \<mapsto> \<lparr>hi_tag = in_tag i, hi_next = in_next i\<rparr>),
                                  m_byTag := byTag_insert (in_tag i) x (m_byTag s)\<rparr>))
                (\<lambda>_. case follow is seen (in_next i) of
                       None \<Rightarrow> throw (BrokenChain x)
                     | Some seen' \<Rightarrow> scan_heads is xs seen'))"

definition is_free :: "info list \<Rightarrow> u64 set \<Rightarrow> u64 \<Rightarrow> bool" where
  "is_free is seen x \<longleftrightarrow>
     in_type (info_at is x) = 0 \<or> in_type (info_at is x) = 2 \<and> x \<notin> seen"

text \<open>\<open>while (n > 0 && is_free[n]) n--;\<close>\<close>

fun trim :: "(u64 \<Rightarrow> bool) \<Rightarrow> nat \<Rightarrow> nat" where
  "trim free 0 = 0"
| "trim free (Suc n) = (if free (of_nat (Suc n)) then trim free n else Suc n)"

definition block_ids :: "nat \<Rightarrow> u64 list" where
  "block_ids n = map of_nat [1..<Suc n]"

definition scan :: "(store, storage_error, unit) op" where
  "scan s =
     (let fsize = length (content (dev s)); n = (fsize - m_bs s) div m_bs s
      in if fsize < m_bs s then (Inl ShortFile, s)
         else
           bind (reads (\<lambda>s. read_infos s (block_ids n))) (\<lambda>is.
           bind (scan_heads is (block_ids n) {}) (\<lambda>seen.
           let k = trim (is_free is seen) n
           in bind (\<lambda>s. if fsize \<noteq> m_bs s + k * m_bs s
                        then on_dev (sys_ftruncate (m_bs s + k * m_bs s)) s else (Inr (), s)) (\<lambda>_.
              modify (\<lambda>s. s\<lparr>m_nblocks := of_nat k,
                            m_free := m_free s @ filter (is_free is seen) (rev (block_ids k))\<rparr>)))) s)"

section \<open>Directory\<close>

fun parse_entries :: "nat \<Rightarrow> bytes \<Rightarrow> (bytes \<times> u64) list \<Rightarrow> storage_error + (bytes \<times> u64) list" where
  "parse_entries 0 p roots = Inr roots"
| "parse_entries (Suc k) p roots =
     (if length p < 4 then Inl CorruptDirectory
      else let len = unat (r32 p); p = drop 4 p
           in if length p < len + 8 then Inl CorruptDirectory
              else parse_entries k (drop 8 (drop len p)) (put_root (take len p) (r64 (drop len p)) roots))"

definition parse_directory :: "bytes \<Rightarrow> (bytes \<times> u64) list \<Rightarrow> storage_error + (bytes \<times> u64) list" where
  "parse_directory raw roots =
     (if length raw < 4 then Inl CorruptDirectory
      else parse_entries (unat (r32 raw)) (drop 4 raw) roots)"

definition loadDirectory :: "(store, storage_error, unit) op" where
  "loadDirectory s =
     (case m_byTag s kDirTag of
        None \<Rightarrow> (Inr (), s)
      | Some xs \<Rightarrow>
          if xs = {} then (Inr (), s)
          else
            (let s = s\<lparr>m_dirId := Min xs\<rparr>
             in case getLocked s (m_dirId s) of
                  Inl e \<Rightarrow> (Inl e, s)
                | Inr None \<Rightarrow> (Inl DirectoryMissing, s)
                | Inr (Some raw) \<Rightarrow>
                    (case parse_directory raw (m_roots s) of
                       Inl e \<Rightarrow> (Inl e, s)
                     | Inr rs \<Rightarrow> (Inr (), s\<lparr>m_roots := rs\<rparr>))))"

section \<open>Constructor, \<open>setPath\<close> and \<open>cleanup\<close>\<close>

text \<open>
  What \<open>open\<close>, \<open>flock\<close> and \<open>fstat\<close> answer for a path: the open device, or the exception
  the constructor throws for the call that failed.
\<close>

type_synonym opened = "storage_error + device"

definition fresh_store :: "nat \<Rightarrow> bool \<Rightarrow> device \<Rightarrow> store" where
  "fresh_store bs dur d =
     \<lparr>dev = d, is_open = True, opt_block_size = bs, durable = dur, m_bs = 0, m_plain = 0, m_cap = 0,
      m_nblocks = 0, m_dirId = 0, m_dirDirty = False, m_key = replicate kKey 0, m_free = [],
      m_head = Map.empty, m_byTag = Map.empty, m_roots = []\<rparr>"

definition cleanup :: "store \<Rightarrow> store" where
  "cleanup s = s\<lparr>is_open := False, m_key := replicate kKey 0\<rparr>"

definition open_store :: "opened \<Rightarrow> bytes \<Rightarrow> nat \<Rightarrow> bool \<Rightarrow> storage_error + store" where
  "open_store target pw bs dur =
     (case target of
        Inl e \<Rightarrow> Inl e
      | Inr d \<Rightarrow>
          (case bind (\<lambda>s. if content (dev s) = [] then createHeader pw s else loadHeader pw s) (\<lambda>_.
                bind scan (\<lambda>_. loadDirectory)) (fresh_store bs dur d) of
             (Inl e, s) \<Rightarrow> Inl e
           | (Inr _, s) \<Rightarrow> Inr s))"

text \<open>
  \<open>setPath\<close>: \<open>same_file\<close> is the outcome of comparing device and inode, or the exception
  of a failing \<open>fstat\<close> or \<open>dup\<close> of the open file.  The verifier
  object reads the header of the open file and is thrown away; the replacement store is opened
  before the old file is given up.
\<close>

definition setPath :: "storage_error + bool \<Rightarrow> opened \<Rightarrow> bytes \<Rightarrow> store \<Rightarrow> (storage_error + unit) \<times> store" where
  "setPath same_file target pw s =
     (case (if is_open s then same_file else Inr False) of
        Inl e \<Rightarrow> (Inl e, s)
      | Inr True \<Rightarrow>
          (case loadHeader pw (fresh_store 4096 False (dev s)) of
             (Inl e, _) \<Rightarrow> (Inl e, s)
           | (Inr _, _) \<Rightarrow> (Inr (), s))
      | Inr False \<Rightarrow>
          (case open_store target pw (opt_block_size s) (durable s) of
             Inl e \<Rightarrow> (Inl e, s)
           | Inr new \<Rightarrow>
               (case (if is_open s then sync s else (Inr (), s)) of
                  (Inl e, s') \<Rightarrow> (Inl e, s')
                | (Inr _, s') \<Rightarrow> (Inr (), new))))"

end
