(* ===== verification/Store_Properties.thy ===== *)
theory Store_Properties
  imports Record_Store Store_Open
begin

text \<open>
  What \<open>LocalStorage\<close> guarantees: each public operation against the abstract records,
  isolation of the other records from a failing operation, success on a device that does not
  fail, and the round trips of the directory record and of the header.
\<close>

section \<open>A device that does not fail\<close>

definition quiet :: "store \<Rightarrow> bool" where
  "quiet s \<longleftrightarrow> events (dev s) = [] \<and> crypto_total (lib (dev s))
     \<and> (\<forall>k m r. hmac (lib (dev s)) k m = Some r \<longrightarrow> length r = kKey)"

lemma writeBlock_quiet:
  assumes q: "quiet s" and g: "good s" and x: "x \<in> addressable s" and len: "length dat \<le> m_cap s"
  shows "\<exists>t. writeBlock x ty tag nxt dat s = (Inr (), t) \<and> quiet t \<and> good t \<and> addressable t = addressable s \<and> m_cap t = m_cap s"
proof -
  obtain nonce where n: "randBytes kNonce (dev s) = (Inr nonce, dev s\<lparr>draws := Suc (draws (dev s))\<rparr>)"
  proof -
    obtain y where "rand (lib (dev s)) (draws (dev s)) kNonce = Some y"
      using q unfolding quiet_def crypto_total_def by (metis not_Some_eq)
    then show thesis by (intro that [of y]) (simp add: randBytes_def)
  qed
  let ?s1 = "s\<lparr>dev := dev s\<lparr>draws := Suc (draws (dev s))\<rparr>\<rparr>"
  obtain ct where ct: "aeadEncrypt ?s1 nonce (w64 x) (block_plain (m_plain s) ty tag nxt dat) = Inr ct"
  proof -
    obtain k where k: "subkey ?s1 nonce = Inr k"
    proof -
      obtain k where "hmac (lib (dev s)) (m_key s) nonce = Some k" "length k = kKey"
        using q unfolding quiet_def crypto_total_def by (metis not_Some_eq)
      then show thesis by (intro that [of k]) (simp add: subkey_def)
    qed
    obtain ct tg where "gcm_seal (lib (dev s)) k (replicate 12 0) (w64 x) (block_plain (m_plain s) ty tag nxt dat) = Some (ct, tg)"
      using q unfolding quiet_def crypto_total_def by (metis not_Some_eq surj_pair)
    with k show thesis by (intro that) (simp add: aeadEncrypt_def)
  qed
  have ln: "length nonce = kNonce"
    using n g by (auto simp: randBytes_def good_def crypto_ok_def split: option.splits)
  have "sint (blockOffset s x) \<ge> 0" by (simp add: blockOffset_eq [OF g x])
  then have w: "pwriteFull (nonce @ ct) (sint (blockOffset s x)) (dev ?s1)
      = (Inr (), (dev ?s1)\<lparr>content := write_at (content (dev ?s1)) (nat (sint (blockOffset s x))) (nonce @ ct)\<rparr>)"
    using q ln by (intro pwriteFull_quiet) (auto simp: quiet_def kNonce_def)
  let ?t = "?s1\<lparr>dev := (dev ?s1)\<lparr>content := write_at (content (dev ?s1)) (nat (sint (blockOffset s x))) (nonce @ ct)\<rparr>\<rparr>"
  have "blockOffset ?s1 x = blockOffset s x" by (simp add: blockOffset_def)
  then have run: "writeBlock x ty tag nxt dat s = (Inr (), ?t)"
    using n ct w by (simp add: writeBlock_def bind_def reads_def on_dev_def)
  moreover have "quiet ?t" using q by (simp add: quiet_def)
  ultimately show ?thesis using bd.wr_frame [OF g x len run] by blast
qed

lemma sync_quiet: "quiet s \<Longrightarrow> sync s = (Inr (), s)"
  by (simp add: sync_def on_dev_def synceFd_quiet quiet_def)

definition quiet_at :: "u64 set \<Rightarrow> nat \<Rightarrow> store \<Rightarrow> bool" where
  "quiet_at A c s \<longleftrightarrow> quiet s \<and> good s \<and> addressable s = A \<and> m_cap s = c"

lemma write_conts_quiet:
  "quiet_at A c s \<Longrightarrow> set xs \<subseteq> A \<Longrightarrow> i \<le> length xs \<Longrightarrow>
     \<exists>t. write_conts writeBlock c xs dat i s = (Inr (), t) \<and> quiet_at A c t"
proof (induction i arbitrary: s)
  case (Suc i)
  show ?case
  proof (cases "i = 0")
    case False
    have "xs ! i \<in> addressable s" using Suc.prems by (auto simp: quiet_at_def)
    then obtain u where "writeBlock (xs ! i) 2 0 (if i + 1 < length xs then xs ! (i + 1) else 0) (chunk c dat i) s = (Inr (), u)"
      "quiet_at A c u"
      using writeBlock_quiet [of s "xs ! i" "chunk c dat i" 2 0 "if i + 1 < length xs then xs ! (i + 1) else 0"]
        length_chunk Suc.prems(1) by (auto simp: quiet_at_def)
    then show ?thesis using Suc False by simp
  qed (use Suc.prems in \<open>simp add: ret_def\<close>)
qed (simp add: ret_def)

lemma writeChain_quiet:
  assumes q: "quiet s" "good s" "set xs \<subseteq> addressable s" "xs \<noteq> []"
  shows "\<exists>t. writeChain xs dat tag s = (Inr (), t) \<and> quiet t"
proof -
  let ?A = "addressable s" and ?c = "m_cap s"
  have q0: "quiet_at ?A ?c s" using q by (simp add: quiet_at_def)
  obtain u where u: "write_conts writeBlock ?c xs dat (length xs) s = (Inr (), u)" "quiet_at ?A ?c u"
    using write_conts_quiet [OF q0 q(3) order_refl] by blast
  have f: "(if b then sync else ret ()) v = (Inr (), v)" if "quiet v" for b v
    using sync_quiet [OF that] by (simp add: ret_def)
  have "xs ! 0 \<in> addressable u" using q u by (cases xs) (auto simp: quiet_at_def)
  then obtain v where "writeBlock (xs ! 0) 1 tag (if 1 < length xs then xs ! 1 else 0) (chunk ?c dat 0) u = (Inr (), v)" "quiet v"
    using writeBlock_quiet [of u "xs ! 0" "chunk ?c dat 0" 1 tag "if 1 < length xs then xs ! 1 else 0"]
      length_chunk u(2) by (auto simp: quiet_at_def)
  then show ?thesis
    using u f [of u] f [of v] by (auto simp: writeChain_def write_chain_def quiet_at_def)
qed

lemma quiet_upd [simp]:
  "quiet (s\<lparr>m_free := f\<rparr>) = quiet s" "quiet (s\<lparr>m_nblocks := n\<rparr>) = quiet s" "quiet (s\<lparr>m_head := h\<rparr>) = quiet s"
  "quiet (s\<lparr>m_byTag := b\<rparr>) = quiet s" "quiet (s\<lparr>m_dirId := d\<rparr>) = quiet s" "quiet (s\<lparr>m_roots := r\<rparr>) = quiet s"
  by (simp_all add: quiet_def)

lemma insertLocked_quiet:
  assumes wf: "store_wf s ch rs" and r: "room s (chunks (m_cap s) (length dat))" and q: "quiet s"
  shows "\<exists>x t. insertLocked dat tag s = (Inr x, t) \<and> quiet t"
proof -
  have cw: "chains_wf (dom (m_head s)) s ch rs" using wf by (simp add: store_wf_def)
  obtain xs F N where a: "allocs (chunks (m_cap s) (length dat)) s = (Inr xs, s\<lparr>m_free := F, m_nblocks := N\<rparr>)"
    and len: "length xs = chunks (m_cap s) (length dat)"
    and fr: "fresh (s\<lparr>m_free := F, m_nblocks := N\<rparr>) xs (dom (m_head s)) ch"
    and wu: "chains_wf (dom (m_head s)) (s\<lparr>m_free := F, m_nblocks := N\<rparr>) ch rs"
    by (rule allocs_wf [OF cw r])
  let ?u = "s\<lparr>m_free := F, m_nblocks := N\<rparr>"
  have "xs \<noteq> []" using len chunks_pos by (metis length_0_conv less_not_refl)
  moreover have "set xs \<subseteq> addressable ?u" "good ?u"
    using fr chains_wf_addressable [OF wu] wu by (auto simp: fresh_def chains_wf_def)
  ultimately obtain t where "writeChain xs dat tag ?u = (Inr (), t)" "quiet t"
    using writeChain_quiet [of ?u xs dat tag] q by auto
  then show ?thesis using a by (simp add: insertLocked_def bind_def modify_def ret_def)
qed

lemma updateLocked_quiet:
  assumes wf: "store_wf s ch rs" and x: "rs x = Some (tag, d)"
    and r: "room s (chunks (m_cap s) (length dat))" and q: "quiet s"
  shows "\<exists>t. updateLocked x dat s = (Inr (), t) \<and> quiet t"
proof -
  let ?D = "dom (m_head s)" and ?k = "chunks (m_cap s) (length dat) - 1"
  have cw: "chains_wf ?D s ch rs" and dr: "dom rs = ?D" using wf by (auto simp: store_wf_def)
  have xD: "x \<in> ?D" using x dr by blast
  then obtain h where h: "m_head s x = Some h" by blast
  have hs: "(m_head s)(x \<mapsto> h) = m_head s" using h by (simp add: fun_upd_idem)
  obtain xs F N where a: "allocs ?k s = (Inr xs, s\<lparr>m_free := F, m_nblocks := N\<rparr>)"
    and fr: "fresh (s\<lparr>m_free := F, m_nblocks := N\<rparr>) xs ?D ch"
    and wu: "chains_wf ?D (s\<lparr>m_free := F, m_nblocks := N\<rparr>) ch rs"
    using allocs_wf [OF cw room_mono [OF r]] diff_le_self by metis
  let ?u = "s\<lparr>m_free := F, m_nblocks := N\<rparr>"
  have "set (x # xs) \<subseteq> ids_upto (m_nblocks ?u)"
    using fr wu xD by (auto simp: fresh_def chains_wf_def chain_wf_def)
  then have "set (x # xs) \<subseteq> addressable ?u" "good ?u"
    using chains_wf_addressable [OF wu] wu by (auto simp: chains_wf_def)
  then obtain t where "writeChain (x # xs) dat (hi_tag h) ?u = (Inr (), t)" "quiet t"
    using writeChain_quiet [of ?u "x # xs" dat "hi_tag h"] q by auto
  then show ?thesis
    using h hs a oldContinuations_wf [OF cw xD h] by (simp add: updateLocked_def bind_def modify_def reads_def Let_def)
qed

lemma insert_quiet:
  assumes sh: "views s U" and ft: "fits s dat" and q: "quiet s" and tag: "tag \<noteq> kDirTag"
  shows "\<exists>x t. store_insert dat tag s = (Inr x, t) \<and> quiet t"
proof -
  obtain ch rs where wf: "store_wf s ch rs" and op: "is_open s" using sh by (rule viewsE)
  then show ?thesis
    using insertLocked_quiet [OF wf _ q, of dat tag] ft tag by (simp add: store_insert_def fits_def)
qed

lemma update_quiet:
  assumes sh: "views s U" and ft: "fits s dat" and q: "quiet s"
  shows "\<exists>t. store_update x dat s = (Inr (U x \<noteq> None), t) \<and> quiet t"
proof (cases "U x")
  case None
  then show ?thesis using q views_None [OF sh, of x] by (simp add: store_update_def)
next
  case (Some e)
  obtain ch rs where wf: "store_wf s ch rs" and U: "U = rs(m_dirId s := None)" using sh by (rule viewsE)
  then have x: "x \<noteq> m_dirId s" "rs x = Some (fst e, snd e)" using Some by (auto split: if_splits)
  then have "m_head s x \<noteq> None" using wf by (auto simp: store_wf_def)
  then show ?thesis
    using updateLocked_quiet [OF wf x(2) _ q, of dat] ft x(1) Some
    by (auto simp: store_update_def fits_def bind_def ret_def)
qed

lemma setRoot_quiet:
  assumes sh: "views s U" and ft: "fits s (encode_directory (put_root k x (m_roots s)))" and q: "quiet s" and x: "U x \<noteq> None"
  shows "\<exists>t. setRoot k x s = (Inr (), t) \<and> quiet t"
proof -
  obtain ch rs where wf: "store_wf s ch rs" and dw: "dir_wf s rs" using sh by (rule viewsE)
  let ?s = "s\<lparr>m_roots := put_root k x (m_roots s)\<rparr>"
  have w: "store_wf ?s ch rs" using wf by (simp add: store_wf_def chains_wf_def chain_wf_def room_def free_wf_def)
  have r: "room ?s (chunks (m_cap ?s) (length (encode_directory (m_roots ?s))))" using ft by (simp add: fits_def room_def)
  have "\<exists>t. saveDirectoryLocked ?s = (Inr (), t) \<and> quiet t"
  proof (cases "m_dirId s = 0")
    case True
    then show ?thesis
      using insertLocked_quiet [OF w r, of kDirTag] q by (auto simp: saveDirectoryLocked_def bind_def modify_def)
  next
    case False
    then have "rs (m_dirId ?s) = Some (kDirTag, encode_directory (m_roots s))" using dw by (simp add: dir_wf_def)
    then show ?thesis using updateLocked_quiet [OF w _ r] q False by (simp add: saveDirectoryLocked_def)
  qed
  then show ?thesis using x views_None [OF sh, of x] by (simp add: setRoot_def)
qed

lemma store_sync_quiet: "views s U \<Longrightarrow> quiet s \<Longrightarrow> store_sync s = (Inr (), s)"
  by (auto simp: store_sync_def sync_quiet views_def)

section \<open>Round trips\<close>

lemma put_root_last:
  assumes "\<forall>e \<in> set m. bytes_less (fst e) k"
  shows "put_root k v m = m @ [(k, v)]"
proof -
  have irr: "bytes_less a b \<Longrightarrow> \<not> bytes_less b a \<and> a \<noteq> b" for a b
    by (induction a b rule: bytes_less.induct) auto
  show ?thesis using assms by (induction m) (auto dest: irr)
qed

lemma encode_root_append:
  assumes "length (fst e) < 2 ^ 32"
  shows "encode_root e @ rest = w32 (of_nat (length (fst e))) @ fst e @ w64 (snd e) @ rest"
    and "unat (of_nat (length (fst e)) :: u32) = length (fst e)"
  using assms by (simp_all add: encode_root_def unat_of_nat)

lemma parse_entries_encode:
  assumes "sorted_wrt bytes_less (map fst (pre @ m))" and "\<forall>e \<in> set m. length (fst e) < 2 ^ 32"
  shows "parse_entries (length m) (concat (map encode_root m) @ rest) pre = Inr (pre @ m)"
  using assms
proof (induction m arbitrary: pre)
  case (Cons e m)
  have l: "unat (of_nat (length (fst e)) :: u32) = length (fst e)"
    using Cons.prems(2) by (simp add: unat_of_nat)
  have p: "put_root (fst e) (snd e) pre = pre @ [e]"
    using Cons.prems(1) by (subst put_root_last) (auto simp: sorted_wrt_append)
  show ?case
    using Cons.IH [of "pre @ [e]"] Cons.prems
    by (simp add: encode_root_def Let_def l p r32_append r64_append)
qed simp

section \<open>A concrete store\<close>

text \<open>
  A library that meets the assumptions, and an empty store on it with blocks of 128 bytes.
\<close>

definition demo_lib :: crypto where
  "demo_lib = \<lparr>hmac = \<lambda>k m. Some (replicate 32 0), gcm_seal = \<lambda>k iv ad p. Some (p, replicate 16 0),
     gcm_open = \<lambda>k iv ad ct tag. Some ct, scrypt = \<lambda>p s. Some (replicate 32 1),
     rand = \<lambda>i n. Some (replicate n 0)\<rparr>"

definition demo_device :: "bytes \<Rightarrow> device" where
  "demo_device f = \<lparr>content = f, events = [], draws = 0, read_chunk = \<lambda>n off. int n, lib = demo_lib\<rparr>"

definition demo_store :: store where
  "demo_store = setGeometry 128 (fresh_store 128 False (demo_device (replicate 128 0)))"

lemma demo_views: "views demo_store Map.empty"
  by (auto simp: views_def store_wf_def chains_wf_def dir_wf_def demo_store_def setGeometry_def fresh_store_def
      good_def geometry_def crypto_ok_def demo_device_def demo_lib_def reads_ok_def room_def free_wf_def
      index_of_def with_tag_def fun_eq_iff size_defs)

lemma demo_fits: "length dat \<le> 1000 \<Longrightarrow> fits demo_store dat"
proof -
  assume "length dat \<le> 1000"
  then have "chunks 71 (length dat) \<le> 16" by (simp add: chunks_def)
  then show ?thesis
    by (simp add: fits_def room_def demo_store_def setGeometry_def fresh_store_def size_defs)
qed

lemma demo_quiet: "quiet demo_store"
  by (simp add: quiet_def demo_store_def setGeometry_def fresh_store_def demo_device_def demo_lib_def
      crypto_total_def kKey_def)

definition demo_one :: store where
  "demo_one = snd (store_insert [1] 7 demo_store)"

lemma demo_one_run: "store_insert [1] 7 demo_store = (Inr 1, demo_one)"
proof -
  have "fst (store_insert [1] 7 demo_store) = Inr 1" by code_simp
  then show ?thesis by (cases "store_insert [1] 7 demo_store") (simp add: demo_one_def)
qed

lemma demo_one_views: "views demo_one [1 \<mapsto> (7, [1])]"
  using ls.ins_law [OF demo_views demo_fits demo_one_run] by simp

section \<open>The record operations\<close>

text \<open>
  C1: \<open>insert\<close> returns a fresh identifier under which exactly the given bytes are read back, and
  the store holds the old records and the new one; when it throws (reserved tag, or the input
  and output fail at any point) all the old records are still there.
\<close>

theorem store_insert_refines:
  assumes "views s U" and "fits s dat"
  shows "case store_insert dat tag s of
      (Inl _, t) \<Rightarrow> views t U
    | (Inr x, t) \<Rightarrow> U x = None \<and> views t (U(x \<mapsto> (tag, dat))) \<and> store_get t x = Inr (Some dat)"
proof -
  obtain r t where i: "store_insert dat tag s = (r, t)" by fastforce
  then show ?thesis
    using store_insert_views [OF assms i] ls.ins_get [OF assms] by (cases r) simp_all
qed

theorem store_insert_refines_witness:
  "case store_insert [1, 2, 3] 7 demo_store of
      (Inl _, t) \<Rightarrow> views t Map.empty
    | (Inr x, t) \<Rightarrow> views t [x \<mapsto> (7, [1, 2, 3])] \<and> store_get t x = Inr (Some [1, 2, 3])"
  using store_insert_refines [OF demo_views demo_fits, of "[1, 2, 3]" 7]
  by (auto split: prod.splits sum.splits)

text \<open>
  On a device that does not fail, with a cryptographic library that reports no error,
  \<open>insert\<close> of any record that fits returns.
\<close>

theorem store_insert_succeeds:
  assumes "views s U" and "fits s dat" and "quiet s" and "tag \<noteq> kDirTag"
  shows "\<exists>x t. store_insert dat tag s = (Inr x, t) \<and> store_get t x = Inr (Some dat)"
  using insert_quiet [OF assms] ls.ins_get [OF assms(1,2)] by blast

theorem store_insert_succeeds_witness:
  "\<exists>x t. store_insert (replicate 200 9) 2 demo_store = (Inr x, t) \<and> store_get t x = Inr (Some (replicate 200 9))"
  by (rule store_insert_succeeds [OF demo_views demo_fits demo_quiet]) (simp_all add: kDirTag_def)

text \<open>
  C2: \<open>update\<close> answers whether the record exists and replaces its bytes, nothing else; when it
  throws half way, every other record is still read back unchanged.
\<close>

theorem store_update_refines:
  assumes "views s U" and "fits s dat"
  shows "case store_update x dat s of
      (Inl _, t) \<Rightarrow> (\<forall>y tg d. y \<noteq> x \<longrightarrow> U y = Some (tg, d) \<longrightarrow> store_get t y = Inr (Some d))
    | (Inr b, t) \<Rightarrow> b = (U x \<noteq> None)
        \<and> views t (case U x of None \<Rightarrow> U | Some (tg, _) \<Rightarrow> U(x \<mapsto> (tg, dat)))
        \<and> (b \<longrightarrow> store_get t x = Inr (Some dat))"
proof -
  obtain r t where u: "store_update x dat s = (r, t)" by fastforce
  show ?thesis
  proof (cases r)
    case (Inr b)
    then show ?thesis
      using u ls.upd_law [OF assms] ls.upd_get [OF assms, of x t] by (cases b) simp_all
  next
    case (Inl e)
    obtain ch rs where wf: "store_wf s ch rs" and U: "U = rs(m_dirId s := None)" using assms(1) by (rule viewsE)
    from Inl u have ul: "updateLocked x dat s = (Inl e, t)" and xh: "m_head s x \<noteq> None"
      by (auto simp: store_update_def bind_Inl_iff ret_def split: if_splits)
    have "dom rs = dom (m_head s)" using wf by (simp add: store_wf_def)
    then have "rs x \<noteq> None" using xh by (metis domIff)
    then obtain tg d where x: "rs x = Some (tg, d)" by auto
    have r: "room s (chunks (m_cap s) (length dat))" using assms(2) by (simp add: fits_def)
    have c: "chains_wf (dom (m_head s) - {x}) t ch rs"
      using updateLocked_wf [OF wf x r ul] by simp
    have "store_get t y = Inr (Some d)" if y: "y \<noteq> x" "U y = Some (tg, d)" for y tg d
    proof -
      have ry: "rs y = Some (tg, d)" using y(2) U by (auto split: if_splits)
      then have "y \<in> dom (m_head s) - {x}" using y(1) wf by (auto simp: store_wf_def)
      then show ?thesis using getLocked_wf [OF c] ry by (metis option.inject prod.inject store_get_def)
    qed
    then show ?thesis using u Inl by auto
  qed
qed

theorem store_update_refines_witness:
  "case store_update 5 [1, 2, 3] demo_store of
      (Inl _, t) \<Rightarrow> True
    | (Inr b, t) \<Rightarrow> \<not> b \<and> views t Map.empty"
  using store_update_refines [OF demo_views demo_fits, of "[1, 2, 3]" 5] by (auto split: prod.splits sum.splits)

text \<open>
  C3: a \<open>remove\<close> that returns answers whether the record existed, takes exactly that record
  away, and takes the named roots that led to it out of the directory.
\<close>

theorem store_remove_refines:
  assumes "views s U" and "drop_fits s x" and "store_remove x s = (Inr b, t)"
  shows "b = (U x \<noteq> None) \<and> views t (U(x := None))
    \<and> m_roots t = (if b then filter (\<lambda>(_, y). y \<noteq> x) (m_roots s) else m_roots s)"
  using store_remove_views [OF assms(1) _ assms(3)] assms(2) by (simp add: drop_fits_def)

theorem store_remove_refines_witness:
  "\<exists>t. store_remove 1 demo_one = (Inr True, t) \<and> views t Map.empty \<and> m_roots t = []"
proof -
  have "fst (store_remove 1 demo_one) = Inr True" by code_simp
  then have run: "store_remove 1 demo_one = (Inr True, snd (store_remove 1 demo_one))"
    by (cases "store_remove 1 demo_one") simp
  have "m_roots demo_one = []" by code_simp
  then have "drop_fits demo_one 1" by (simp add: drop_fits_def)
  from store_remove_refines [OF demo_one_views this run] run \<open>m_roots demo_one = []\<close> show ?thesis by auto
qed

lemma collect_spec:
  "(\<And>x. x \<in> set xs \<Longrightarrow> store_get s x = Inr (Some (f x))) \<Longrightarrow> collect s xs = Inr (map (\<lambda>x. (x, f x)) xs)"
  by (induction xs) simp_all

text \<open>
  \<open>ids\<close> lists the identifiers of a tag once each and ascending, and \<open>forEach\<close> calls back
  with every one of these records and its bytes, in that order.
\<close>

theorem store_forEach_lists:
  assumes "views s U" and "tag \<noteq> kDirTag"
  shows "sorted (ids s tag) \<and> distinct (ids s tag) \<and> set (ids s tag) = {x. \<exists>d. U x = Some (tag, d)}
    \<and> forEach s tag = Inr (map (\<lambda>x. (x, snd (the (U x)))) (ids s tag))"
proof -
  note i = ids_views [OF assms]
  have "store_get s x = Inr (Some (snd (the (U x))))" if "x \<in> set (ids s tag)" for x
    using i that ls.get_law [OF assms(1)] by fastforce
  then have "forEach s tag = Inr (map (\<lambda>x. (x, snd (the (U x)))) (ids s tag))"
    unfolding forEach_def by (rule collect_spec)
  with i show ?thesis by blast
qed

theorem store_forEach_lists_witness: "sorted (ids demo_store 3) \<and> forEach demo_store 3 = Inr []"
  using store_forEach_lists [OF demo_views, of 3] by (simp add: kDirTag_def)

section \<open>Named roots and the directory record\<close>

lemma map_of_put_root: "map_of (put_root k v m) = (map_of m)(k \<mapsto> v)"
  by (induction k v m rule: put_root.induct) (auto simp: fun_eq_iff)

text \<open>
  A \<open>setRoot\<close> that returns was given an existing record; afterwards \<open>root\<close> finds it under
  that name, all other names and all records are as before.
\<close>

theorem setRoot_then_root:
  assumes "views s U" and "fits s (encode_directory (put_root k x (m_roots s)))"
    and "setRoot k x s = (Inr u, t)"
  shows "U x \<noteq> None \<and> views t U \<and> root t = (root s)(k \<mapsto> x)"
  using setRoot_views [OF assms] by (auto simp: root_def fun_eq_iff map_of_put_root)

theorem setRoot_then_root_witness:
  "\<exists>t. setRoot [97] 1 demo_one = (Inr (), t) \<and> views t [1 \<mapsto> (7, [1])] \<and> root t = (root demo_one)([97] \<mapsto> 1)"
proof -
  have "fst (setRoot [97] 1 demo_one) = Inr ()" by code_simp
  then have run: "setRoot [97] 1 demo_one = (Inr (), snd (setRoot [97] 1 demo_one))"
    by (cases "setRoot [97] 1 demo_one") simp
  have "m_roots demo_one = []" "(m_bs demo_one, m_cap demo_one, m_nblocks demo_one) = (128, 71, 1)" by code_simp+
  then have "fits demo_one (encode_directory (put_root [97] 1 (m_roots demo_one)))"
    by (simp add: fits_def room_def chunks_def encode_directory_def encode_root_def)
  from setRoot_then_root [OF demo_one_views this run] run show ?thesis by blast
qed

text \<open>
  The bytes of a directory with names in key order, each shorter than 4 GiB, parse back to
  the same names and identifiers.
\<close>

theorem directory_roundtrip:
  assumes "sorted_wrt bytes_less (map fst m)" and "\<forall>e \<in> set m. length (fst e) < 2 ^ 32"
    and "length m < 2 ^ 32"
  shows "parse_directory (encode_directory m) [] = Inr m"
proof -
  have "unat (of_nat (length m) :: u32) = length m" using assms(3) by (simp add: unat_of_nat)
  then show ?thesis
    using parse_entries_encode [of "[]" m "[]"] assms(1,2)
    by (simp add: parse_directory_def encode_directory_def r32_append)
qed

theorem directory_roundtrip_witness:
  "parse_directory (encode_directory [([49], 5), ([49, 48], 7), ([50], 2)]) [] = Inr [([49], 5), ([49, 48], 7), ([50], 2)]"
  by (rule directory_roundtrip) simp_all

section \<open>The header\<close>

lemma write_at_empty: "write_at [] 0 bs = bs"
  by (simp add: write_at_def)

lemma on_dev_randBytes:
  assumes "on_dev (randBytes n) s = (Inr bs, t)" and "crypto_ok (lib (dev s))"
  shows "same_store s t \<and> content (dev t) = content (dev s) \<and> length bs = n"
proof -
  obtain d where d: "randBytes n (dev s) = (Inr bs, d)" "t = s\<lparr>dev := d\<rparr>"
    using assms(1) by (auto simp: on_dev_def split: prod.splits)
  then have "rand (lib (dev s)) (draws (dev s)) n = Some bs" by (auto simp: randBytes_def split: option.splits)
  then have "length bs = n" using assms(2) by (auto simp: crypto_ok_def)
  with d show ?thesis using randBytes_frame [OF d(1)] by (auto simp: same_store_def)
qed

lemma createHeader_file:
  assumes s: "content (dev s) = []" "crypto_ok (lib (dev s))"
    and c: "createHeader pw s = (Inr u, t)"
  obtains salt nonce ct where "128 \<le> opt_block_size s" "opt_block_size s \<le> 2 ^ 20"
    and "length salt = kSalt" "length nonce = kNonce" "length ct = 32"
    and "scrypt (lib (dev s)) pw salt = Some (m_key t)" "same_lib (dev s) (dev t)"
    and "aeadDecrypt t nonce (kMagic @ salt @ w32 (of_nat (opt_block_size s))) ct = Inr (Some kCheck)"
    and "content (dev t) = (kMagic @ salt @ w32 (of_nat (opt_block_size s)) @ nonce @ ct)
           @ replicate (opt_block_size s - kHdr) 0"
    and "m_bs t = opt_block_size s" "m_cap t = opt_block_size s - 57"
proof -
  let ?bs = "opt_block_size s"
  have bs: "128 \<le> ?bs" "?bs \<le> 2 ^ 20" using c by (auto simp: createHeader_def split: if_splits)
  let ?s0 = "setGeometry ?bs s"
  from c bs obtain salt s1 where r1: "on_dev (randBytes kSalt) ?s0 = (Inr salt, s1)"
    and c1: "bind (deriveKey pw salt) (\<lambda>_.
            bind (on_dev (randBytes kNonce)) (\<lambda>nonce.
            bind (reads (\<lambda>t. aeadEncrypt t nonce (kMagic @ salt @ w32 (of_nat ?bs)) kCheck)) (\<lambda>ct.
            bind (on_dev (pwriteFull ((kMagic @ salt @ w32 (of_nat ?bs)) @ nonce @ ct) 0)) (\<lambda>_.
            bind (\<lambda>s. on_dev (sys_ftruncate (m_bs s)) s) (\<lambda>_.
            sync))))) s1 = (Inr u, t)"
  proof -
    have "bind (on_dev (randBytes kSalt)) (\<lambda>salt. bind (deriveKey pw salt) (\<lambda>_.
            bind (on_dev (randBytes kNonce)) (\<lambda>nonce.
            bind (reads (\<lambda>t. aeadEncrypt t nonce (kMagic @ salt @ w32 (of_nat ?bs)) kCheck)) (\<lambda>ct.
            bind (on_dev (pwriteFull ((kMagic @ salt @ w32 (of_nat ?bs)) @ nonce @ ct) 0)) (\<lambda>_.
            bind (\<lambda>s. on_dev (sys_ftruncate (m_bs s)) s) (\<lambda>_.
            sync)))))) ?s0 = (Inr u, t)"
      using c bs by (simp add: createHeader_def bind_modify Let_def)
    then show thesis using that by (rule bind_InrE)
  qed
  from c1 [unfolded bind_Inr_iff] obtain v1 s2 nonce s3 ct s3' v2 s4 v3 s5
    where d: "deriveKey pw salt s1 = (Inr v1, s2)"
      and r2: "on_dev (randBytes kNonce) s2 = (Inr nonce, s3)"
      and e': "reads (\<lambda>t. aeadEncrypt t nonce (kMagic @ salt @ w32 (of_nat ?bs)) kCheck) s3 = (Inr ct, s3')"
      and w': "on_dev (pwriteFull ((kMagic @ salt @ w32 (of_nat ?bs)) @ nonce @ ct) 0) s3' = (Inr v2, s4)"
      and f: "on_dev (sys_ftruncate (m_bs s4)) s4 = (Inr v3, s5)" and y: "sync s5 = (Inr u, t)"
    by blast
  have e: "aeadEncrypt s3 nonce (kMagic @ salt @ w32 (of_nat ?bs)) kCheck = Inr ct" and "s3' = s3"
    using e' by (auto simp: reads_def)
  with w' have w: "on_dev (pwriteFull ((kMagic @ salt @ w32 (of_nat ?bs)) @ nonce @ ct) 0) s3 = (Inr v2, s4)" by simp
  have s0: "content (dev ?s0) = []" "lib (dev ?s0) = lib (dev s)" using s(1) by (simp_all add: setGeometry_def)
  note a1 = on_dev_randBytes [OF r1, unfolded s0, OF s(2)]
  have l1: "length salt = kSalt" using a1 by simp
  have lib1: "lib (dev s1) = lib (dev s)" using a1 s0 by (auto simp: same_store_def same_lib_def)
  have a2: "s2 = s1\<lparr>m_key := m_key s2\<rparr>" and k2: "scrypt (lib (dev s)) pw salt = Some (m_key s2)"
    using d lib1 by (auto simp: deriveKey_def split: option.splits)
  have lib2: "lib (dev s2) = lib (dev s)" "content (dev s2) = []"
    using a1 lib1 by (subst a2; simp)+
  note a3 = on_dev_randBytes [OF r2, unfolded lib2, OF s(2)]
  have l3: "length nonce = kNonce" and c3: "content (dev s3) = []" using a3 by simp_all
  have lib3: "lib (dev s3) = lib (dev s)" using a3 lib2 by (auto simp: same_store_def same_lib_def)
  have ok3: "crypto_ok (lib (dev s3))" using lib3 s(2) by simp
  note dec = aeadEncrypt_decrypt [OF ok3 e]
  let ?h = "(kMagic @ salt @ w32 (of_nat ?bs)) @ nonce @ ct"
  obtain d4 where d4: "pwriteFull ?h 0 (dev s3) = (Inr v2, d4)" "s4 = s3\<lparr>dev := d4\<rparr>"
    using w by (auto simp: on_dev_def split: prod.splits)
  have a4: "same_store s3 s4" "content (dev s4) = ?h"
    using pwriteFull_result [OF d4(1)] d4(2) c3 by (auto simp: same_store_def write_at_empty)
  have a5: "same_store s4 s5" "content (dev s5) = take (m_bs s4) ?h @ replicate (m_bs s4 - length ?h) 0"
    using f a4 next_event_frame
    by (auto simp: on_dev_def same_store_def sys_ftruncate_def same_lib_def split: prod.splits io_event.splits)
  note a6 = sync_same_store [OF y]
  have st: "same_store s3 t" using a4 a5 a6 by (blast intro: same_store_trans)
  have g2: "m_bs s2 = ?bs" "m_cap s2 = ?bs - 57"
    using same_store_fields(3,5) [of ?s0 s1] a1 by (subst a2; simp add: setGeometry_def size_defs)+
  have bs3: "m_bs s3 = ?bs" "m_cap s3 = ?bs - 57" "m_key s3 = m_key s2"
    using same_store_fields(3,5,9) [of s2 s3] a3 g2 by simp_all
  have lh: "length ?h = kHdr" using l1 l3 dec by (simp add: size_defs kHdr_def kHdrAad_def kMagic_def kCheck_def)
  have "kHdr \<le> ?bs" using bs by (simp add: size_defs kHdr_def kHdrAad_def)
  then have con: "content (dev t) = ?h @ replicate (?bs - kHdr) 0"
    using a5 a6 lh bs3 same_store_fields(3) [OF a4(1)] by simp
  show thesis
  proof (rule that [OF bs l1 l3])
    show "length ct = 32" using dec by (simp add: kCheck_def kTag_def)
    show "scrypt (lib (dev s)) pw salt = Some (m_key t)"
      using k2 bs3 same_store_fields(9) [OF st] by simp
    show "same_lib (dev s) (dev t)"
    proof -
      have "same_lib (dev s) (dev s1)" using a1 by (auto simp: same_store_def setGeometry_def)
      moreover have "dev s2 = dev s1" by (subst a2) simp
      moreover have "same_lib (dev s2) (dev s3)" "same_lib (dev s3) (dev t)"
        using a3 st by (auto simp: same_store_def)
      ultimately show ?thesis by (metis same_lib_trans)
    qed
    show "aeadDecrypt t nonce (kMagic @ salt @ w32 (of_nat ?bs)) ct = Inr (Some kCheck)"
      using dec same_store_aead [OF st] by simp
    show "m_bs t = ?bs" "m_cap t = ?bs - 57" using bs3 same_store_fields [OF st] by simp_all
    show "content (dev t) = (kMagic @ salt @ w32 (of_nat ?bs) @ nonce @ ct) @ replicate (?bs - kHdr) 0"
      using con by simp
  qed
qed

text \<open>
  The header \<open>createHeader\<close> writes into an empty file is accepted by \<open>loadHeader\<close> with the
  same password, which recovers the block size and the master key.
\<close>

theorem header_roundtrip:
  assumes "content (dev s) = []" and "crypto_ok (lib (dev s))" and "reads_ok (dev s)"
    and "createHeader pw s = (Inr u, t)"
  shows "\<exists>v. loadHeader pw (fresh_store bs dur (dev t)) = (Inr (), v)
    \<and> m_key v = m_key t \<and> m_bs v = m_bs t \<and> m_cap v = m_cap t"
proof -
  let ?n = "opt_block_size s"
  obtain salt nonce ct where n: "128 \<le> ?n" "?n \<le> 2 ^ 20"
    and l: "length salt = kSalt" "length nonce = kNonce" "length ct = 32"
    and k: "scrypt (lib (dev s)) pw salt = Some (m_key t)" and sl: "same_lib (dev s) (dev t)"
    and dec: "aeadDecrypt t nonce (kMagic @ salt @ w32 (of_nat ?n)) ct = Inr (Some kCheck)"
    and co: "content (dev t) = (kMagic @ salt @ w32 (of_nat ?n) @ nonce @ ct) @ replicate (?n - kHdr) 0"
    and bt: "m_bs t = ?n" "m_cap t = ?n - 57"
    using createHeader_file [OF assms(1,2,4)] by metis
  let ?h = "kMagic @ salt @ w32 (of_nat ?n) @ nonce @ ct"
  have lh: "length ?h = kHdr" using l by (simp add: size_defs kHdr_def kHdrAad_def kMagic_def)
  have "reads_ok (dev t)" using assms(3) sl same_lib_reads_ok by blast
  then have rd: "preadFull (dev t) kHdr 0 = Inr ?h"
    using lh co by (subst preadFull_eq) (simp_all add: kHdr_def)
  have un: "unat (of_nat ?n :: u32) = ?n" using n by (simp add: unat_of_nat)
  then have range: "\<not> (of_nat ?n < (128 :: u32) \<or> 2 ^ 20 < (of_nat ?n :: u32))"
    using n by (simp add: word_less_nat_alt)
  have parts: "take 8 ?h = kMagic" "r32 (drop (8 + kSalt) ?h) = of_nat ?n" "take kSalt (drop 8 ?h) = salt"
    "take kNonce (drop kHdrAad ?h) = nonce" "take kHdrAad ?h = kMagic @ salt @ w32 (of_nat ?n)"
    "take (16 + kTag) (drop (kHdrAad + kNonce) ?h) = ct"
    using l by (simp_all add: kMagic_def size_defs kHdrAad_def r32_append)
  let ?v = "(setGeometry ?n (fresh_store bs dur (dev t)))\<lparr>m_key := m_key t\<rparr>"
  have "aeadDecrypt ?v nonce (kMagic @ salt @ w32 (of_nat ?n)) ct = Inr (Some kCheck)"
    using dec aeadDecrypt_cong [of ?v t] by (simp add: setGeometry_def fresh_store_def)
  moreover have "deriveKey pw salt (setGeometry ?n (fresh_store bs dur (dev t))) = (Inr (), ?v)"
    using k sl by (simp add: deriveKey_def setGeometry_def fresh_store_def same_lib_def)
  ultimately have "loadHeader pw (fresh_store bs dur (dev t)) = (Inr (), ?v)"
    using rd range parts un
    by (simp add: loadHeader_def fresh_store_def Let_def bind_reads ret_def)
  then show ?thesis using bt by (simp add: setGeometry_def size_defs)
qed

theorem header_roundtrip_witness:
  "\<exists>t v. createHeader [1] (fresh_store 128 False (demo_device [])) = (Inr (), t)
    \<and> loadHeader [1] (fresh_store 4096 True (dev t)) = (Inr (), v) \<and> m_key v = m_key t \<and> m_bs v = m_bs t"
proof -
  let ?s = "fresh_store 128 False (demo_device [])"
  have "fst (createHeader [1] ?s) = Inr ()"
    unfolding createHeader_def by (subst if_not_P, simp add: fresh_store_def) code_simp
  then obtain t where run: "createHeader [1] ?s = (Inr (), t)" by (cases "createHeader [1] ?s") simp
  have "content (dev (fresh_store 128 False (demo_device []))) = []"
    "crypto_ok (lib (dev (fresh_store 128 False (demo_device []))))"
    "reads_ok (dev (fresh_store 128 False (demo_device [])))"
    by (simp_all add: fresh_store_def demo_device_def demo_lib_def crypto_ok_def reads_ok_def)
  from header_roundtrip [OF this run, of 4096 True] run show ?thesis by blast
qed

end
