(* ===== verification/Store_Growth.thy ===== *)
theory Store_Growth
  imports Store_Properties
begin

text \<open>
  How much room the record operations take: a chain needs at most one block per chunk, so a bound
  on the block numbers before an operation gives one after it.
\<close>

definition grows :: "nat \<Rightarrow> store \<Rightarrow> store \<Rightarrow> bool" where
  "grows k s t \<longleftrightarrow> m_bs t = m_bs s \<and> m_cap t = m_cap s \<and> unat (m_nblocks t) \<le> unat (m_nblocks s) + k"

lemma grows_refl [simp]: "grows k s s"
  by (simp add: grows_def)

lemma grows_trans: "grows j s t \<Longrightarrow> grows k t u \<Longrightarrow> grows (j + k) s u"
  by (simp add: grows_def)

lemma grows_mono: "grows j s t \<Longrightarrow> j \<le> k \<Longrightarrow> grows k s t"
  by (simp add: grows_def)

lemma grows_room: "grows j s t \<Longrightarrow> room s (j + k) \<Longrightarrow> room t k"
  by (erule room_le) (simp_all add: grows_def)

lemma grows_fits: "grows j s t \<Longrightarrow> room s (j + chunks (m_cap s) (length d)) \<Longrightarrow> fits t d"
  using grows_room [of j s t "chunks (m_cap s) (length d)"] by (simp add: fits_def grows_def)

lemma insertLocked_grows:
  assumes wf: "store_wf s ch rs" and r: "room s (chunks (m_cap s) (length d))"
    and ins: "insertLocked d tg s = (Inr x, t)"
  shows "grows (chunks (m_cap s) (length d)) s t"
proof -
  have g: "good s" "free_wf s" using wf by (auto simp: store_wf_def chains_wf_def)
  obtain xs F N where a: "allocs (chunks (m_cap s) (length d)) s = (Inr xs, s\<lparr>m_free := F, m_nblocks := N\<rparr>)"
    and N: "unat N \<le> unat (m_nblocks s) + chunks (m_cap s) (length d)"
    using allocs_spec [OF g(1) r g(2)] by metis
  obtain u where w: "writeChain xs d tg (s\<lparr>m_free := F, m_nblocks := N\<rparr>) = (Inr (), u)"
    and t: "m_bs t = m_bs u" "m_cap t = m_cap u" "m_nblocks t = m_nblocks u"
    using ins a by (auto simp: insertLocked_def bind_def modify_def ret_def split: prod.splits sum.splits)
  from same_store_fields [OF writeChain_same_store [OF w]] show ?thesis using N t by (simp add: grows_def)
qed

lemma updateLocked_grows:
  assumes wf: "store_wf s ch rs" and x: "rs x \<noteq> None" and r: "room s (chunks (m_cap s) (length d))"
    and upd: "updateLocked x d s = (Inr u, t)"
  shows "grows (chunks (m_cap s) (length d)) s t"
proof -
  let ?k = "chunks (m_cap s) (length d) - 1"
  have cw: "chains_wf (dom (m_head s)) s ch rs" and dr: "dom rs = dom (m_head s)" using wf by (auto simp: store_wf_def)
  then have xD: "x \<in> dom (m_head s)" using x by blast
  then obtain h where h: "m_head s x = Some h" by blast
  have hs: "(m_head s)(x \<mapsto> h) = m_head s" using h by (simp add: fun_upd_idem)
  have g: "good s" "free_wf s" using wf by (auto simp: store_wf_def chains_wf_def)
  have r': "room s ?k" using room_mono [OF r] by simp
  obtain xs F N where a: "allocs ?k s = (Inr xs, s\<lparr>m_free := F, m_nblocks := N\<rparr>)"
    and N: "unat N \<le> unat (m_nblocks s) + ?k"
    using allocs_spec [OF g(1) r' g(2)] by metis
  obtain v where w: "writeChain (x # xs) d (hi_tag h) (s\<lparr>m_free := F, m_nblocks := N\<rparr>) = (Inr (), v)"
    and t: "m_bs t = m_bs v" "m_cap t = m_cap v" "m_nblocks t = m_nblocks v"
    using upd a h hs oldContinuations_wf [OF cw xD h]
    by (auto simp: updateLocked_def bind_def modify_def reads_def Let_def split: prod.splits sum.splits)
  from same_store_fields [OF writeChain_same_store [OF w]] show ?thesis using N t by (simp add: grows_def)
qed

lemma insert_grows:
  assumes sh: "views s U" and ft: "fits s d" and ins: "store_insert d tg s = (Inr x, t)"
  shows "grows (chunks (m_cap s) (length d)) s t"
proof -
  obtain ch rs where wf: "store_wf s ch rs" and op: "is_open s" using sh by (rule viewsE)
  then show ?thesis
    using insertLocked_grows [OF wf] ft ins by (simp add: store_insert_def fits_def split: if_splits)
qed

lemma update_grows:
  assumes sh: "views s U" and ft: "fits s d" and upd: "store_update x d s = (Inr b, t)"
  shows "grows (chunks (m_cap s) (length d)) s t"
proof (cases "x = m_dirId s \<or> m_head s x = None")
  case True
  then show ?thesis using upd by (auto simp: store_update_def)
next
  case False
  obtain ch rs where wf: "store_wf s ch rs" using sh by (rule viewsE)
  then have "rs x \<noteq> None" using False by (metis domIff store_wf_def)
  moreover have "\<exists>u. updateLocked x d s = (Inr u, t)"
    using upd False by (auto simp: store_update_def bind_def ret_def split: prod.splits sum.splits)
  ultimately show ?thesis using updateLocked_grows [OF wf] ft by (auto simp: fits_def)
qed

lemma setRoot_grows:
  assumes sh: "views s U" and ft: "fits s (encode_directory (put_root k x (m_roots s)))"
    and st: "setRoot k x s = (Inr u, t)"
  shows "grows (chunks (m_cap s) (length (encode_directory (put_root k x (m_roots s))))) s t"
proof -
  obtain ch rs where wf: "store_wf s ch rs" and dw: "dir_wf s rs" using sh by (rule viewsE)
  let ?s = "s\<lparr>m_roots := put_root k x (m_roots s)\<rparr>"
  let ?d = "encode_directory (m_roots ?s)"
  have w: "store_wf ?s ch rs" using wf by (simp add: store_wf_def chains_wf_def chain_wf_def room_def free_wf_def)
  have r: "room ?s (chunks (m_cap ?s) (length ?d))" using ft by (simp add: fits_def room_def)
  have sv: "saveDirectoryLocked ?s = (Inr u, t)" using st by (auto simp: setRoot_def split: if_splits)
  have "grows (chunks (m_cap ?s) (length ?d)) ?s t"
  proof (cases "m_dirId s = 0")
    case True
    then obtain y v where "insertLocked ?d kDirTag ?s = (Inr y, v)" "t = v\<lparr>m_dirId := y\<rparr>"
      using sv by (auto simp: saveDirectoryLocked_def bind_def modify_def split: prod.splits sum.splits)
    then show ?thesis using insertLocked_grows [OF w r] by (simp add: grows_def)
  next
    case False
    then have "rs (m_dirId s) \<noteq> None" using dw by (simp add: dir_wf_def)
    then show ?thesis using updateLocked_grows [OF w _ r] sv False by (simp add: saveDirectoryLocked_def)
  qed
  then show ?thesis by (simp add: grows_def)
qed

lemma sync_grows: "store_sync s = (r, t) \<Longrightarrow> grows k s t"
  using sync_same_store [of s r t] same_store_fields [of s t]
  by (auto simp: store_sync_def grows_def split: if_splits)

end
