(* ===== verification/File_Names.thy ===== *)
theory File_Names
  imports Prelude
begin

unbundle bit_operations_syntax

text \<open>
  Names of the files of the caches (core/storage/file_name_helper.cpp).  A \<open>QString\<close> is its
  list of UTF-16 code units, a \<open>QByteArray\<close> its bytes; HMAC-SHA256, the random generator and
  the UTF-8 encoding are parameters.
\<close>

type_synonym qstring = "16 word list"

datatype name_error = HexCharsRange | NameHmacFailed | NameRandFailed

text \<open>The bytes of the code units in memory, little-endian.\<close>

definition utf16le :: "qstring \<Rightarrow> bytes" where
  "utf16le s = concat (map (\<lambda>u. [ucast u, ucast (drop_bit 8 u)]) s)"

definition hex_digit :: "byte \<Rightarrow> byte" where
  "hex_digit d = (if d < 10 then 48 + d else 87 + d)"

text \<open>\<open>for (i = 0; out.size() < hex_chars; i++)\<close>: the loop that writes the digits.\<close>

fun hex_loop :: "nat \<Rightarrow> bytes \<Rightarrow> bytes \<Rightarrow> bytes" where
  "hex_loop n [] out = out"
| "hex_loop n (b # mac) out =
     (if length out < n then
        (let out = out @ [hex_digit (drop_bit 4 b)]
         in hex_loop n mac (if length out < n then out @ [hex_digit (b AND 15)] else out))
      else out)"

definition storage_cache_slash :: qstring where
  "storage_cache_slash = [115, 116, 111, 114, 97, 103, 101, 47, 99, 97, 99, 104, 101, 47]"

text \<open>
  \<open>hexName\<close> passes \<open>QString::data()\<close>, an array of 16-bit units, with \<open>QString::size()\<close>,
  the number of units, to a function that counts bytes.
\<close>

definition hexName :: "(bytes \<Rightarrow> bytes \<Rightarrow> bytes option) \<Rightarrow> qstring \<Rightarrow> qstring \<Rightarrow> nat \<Rightarrow> name_error + bytes" where
  "hexName hmac logical_name secret hex_chars =
     (if hex_chars < 8 \<or> 64 < hex_chars then Inl HexCharsRange
      else let key = storage_cache_slash @ secret
           in case hmac (take (length key) (utf16le key)) (take (length logical_name) (utf16le logical_name)) of
                None \<Rightarrow> Inl NameHmacFailed
              | Some mac \<Rightarrow> Inr (hex_loop hex_chars mac []))"

definition hexNameV2 ::
    "(qstring \<Rightarrow> bytes) \<Rightarrow> (bytes \<Rightarrow> bytes \<Rightarrow> bytes option) \<Rightarrow> qstring \<Rightarrow> qstring \<Rightarrow> nat \<Rightarrow> name_error + bytes" where
  "hexNameV2 utf8 hmac logical_name secret hex_chars =
     (if hex_chars < 8 \<or> 64 < hex_chars then Inl HexCharsRange
      else case hmac (utf8 (butlast storage_cache_slash @ secret)) (utf8 logical_name) of
             None \<Rightarrow> Inl NameHmacFailed
           | Some mac \<Rightarrow> Inr (take hex_chars (concat (map (\<lambda>b. [hex_digit (drop_bit 4 b), hex_digit (b AND 15)]) mac))))"

definition randomHexName :: "(nat \<Rightarrow> bytes option) \<Rightarrow> nat \<Rightarrow> name_error + bytes" where
  "randomHexName rnd hex_chars =
     (if hex_chars < 8 \<or> 64 < hex_chars then Inl HexCharsRange
      else case rnd 32 of None \<Rightarrow> Inl NameRandFailed | Some r \<Rightarrow> Inr (hex_loop hex_chars r []))"

section \<open>The digits\<close>

lemma hex_loop_take:
  "length out \<le> n \<Longrightarrow> hex_loop n mac out
     = take n (out @ concat (map (\<lambda>b. [hex_digit (drop_bit 4 b), hex_digit (b AND 15)]) mac))"
  by (induction n mac out rule: hex_loop.induct) (auto simp: Let_def take_Cons' not_less le_antisym)

definition hex_digits :: "byte set" where
  "hex_digits = {48..57} \<union> {97..102}"

lemma hex_digit_range: "d < 16 \<Longrightarrow> hex_digit d \<in> hex_digits"
proof -
  assume "d < 16"
  then have "unat d \<in> set [0..<16]" by (auto simp: word_less_nat_alt)
  moreover have "\<forall>k \<in> set [0..<16]. hex_digit (of_nat k) \<in> hex_digits"
    by (simp add: upt_conv_Cons hex_digit_def hex_digits_def)
  ultimately show ?thesis by fastforce
qed

lemma nibbles: "drop_bit 4 (b :: byte) < 16" "(b :: byte) AND 15 < 16"
proof -
  have "unat (drop_bit 4 b) < 16"
  proof -
    have "unat b < 2 ^ LENGTH(8)" by (rule unsigned_less)
    then show ?thesis by (simp add: drop_bit_eq_div unat_div)
  qed
  then show "drop_bit 4 b < 16" by (simp add: word_less_nat_alt)
  show "b AND 15 < 16" by (rule le_less_trans [OF word_and_le1]) simp
qed

lemma length_hex: "length (concat (map (\<lambda>b. [f b, g b]) bs)) = 2 * length bs"
  by (induction bs) simp_all

lemma hexName_spec:
  assumes "8 \<le> n" and "n \<le> 64" and "\<And>k m. \<exists>mac. hmac k m = Some mac \<and> length mac = 32"
  shows "\<exists>out. hexName hmac name secret n = Inr out \<and> length out = n \<and> set out \<subseteq> hex_digits"
proof -
  let ?key = "storage_cache_slash @ secret"
  obtain mac where m: "hmac (take (length ?key) (utf16le ?key)) (take (length name) (utf16le name)) = Some mac"
    "length mac = 32" using assms(3) by blast
  let ?d = "concat (map (\<lambda>b. [hex_digit (drop_bit 4 b), hex_digit (b AND 15)]) mac)"
  have "set ?d \<subseteq> hex_digits" using hex_digit_range nibbles by auto
  then have "set (take n ?d) \<subseteq> hex_digits" using set_take_subset by fastforce
  then show ?thesis
    using assms(1,2) m by (auto simp: hexName_def Let_def hex_loop_take length_hex)
qed

text \<open>
  For 8 to 64 characters and a 32-byte digest \<open>hexName\<close> returns exactly that many
  lower-case hexadecimal digits, so the name stays inside its directory.
\<close>

theorem hexName_digits:
  assumes "8 \<le> n" and "n \<le> 64" and "\<And>k m. \<exists>mac. hmac k m = Some mac \<and> length mac = 32"
  shows "\<exists>out. hexName hmac name secret n = Inr out \<and> length out = n \<and> set out \<subseteq> hex_digits"
  using assms by (rule hexName_spec)

theorem hexName_digits_witness:
  "\<exists>out. hexName (\<lambda>k m. Some (replicate 32 (of_nat (length m)))) [97, 98] [99] 30 = Inr out \<and> length out = 30
    \<and> set out \<subseteq> hex_digits"
  by (rule hexName_digits) simp_all

lemma take_utf16le:
  "take k (utf16le xs) = take k (utf16le (take ((k + 1) div 2) xs))"
proof (induction xs arbitrary: k)
  case (Cons u us)
  show ?case
  proof (cases "k < 2")
    case True
    then have "k = 0 \<or> k = 1" by auto
    then show ?thesis by (auto simp: utf16le_def)
  next
    case False
    then obtain j where j: "k = Suc (Suc j)" by (metis Suc_pred' less_2_cases_iff not_less_eq not_gr_zero One_nat_def)
    then show ?thesis using Cons.IH [of j] by (simp add: utf16le_def)
  qed
qed (simp add: utf16le_def)

text \<open>
  \<open>hexName\<close> reads only the first half of the logical name: two names of the same length
  that agree there get the same file, whatever the digest function is.
\<close>

theorem hexName_half:
  assumes "length a = length b" and "take ((length a + 1) div 2) a = take ((length b + 1) div 2) b"
  shows "hexName hmac a secret n = hexName hmac b secret n"
proof -
  have "take (length a) (utf16le a) = take (length b) (utf16le b)"
    using take_utf16le [of "length a" a] take_utf16le [of "length b" b] assms by simp
  then show ?thesis unfolding hexName_def by simp
qed

theorem hexName_half_witness:
  "[97, 108, 105, 99, 101, 45, 98, 111, 98] \<noteq> ([97, 108, 105, 99, 101, 45, 101, 118, 101] :: qstring)
   \<and> hexName (\<lambda>k d. Some (d @ replicate 32 0)) [97, 108, 105, 99, 101, 45, 98, 111, 98] [115] 30
     = hexName (\<lambda>k d. Some (d @ replicate 32 0)) [97, 108, 105, 99, 101, 45, 101, 118, 101] [115] 30"
  using hexName_half [of "[97, 108, 105, 99, 101, 45, 98, 111, 98]" "[97, 108, 105, 99, 101, 45, 101, 118, 101]"
      "\<lambda>k d. Some (d @ replicate 32 0)" "[115]" 30]
  by simp

end
