(* ===== verification/Caches.thy ===== *)
theory Caches
  imports Store_Growth File_Names
begin

text \<open>
  The clients of \<open>LocalStorage\<close>: the single-value cache (core/storage/cache_storage.cpp), the
  conversation cache with its list of open stores (core/storage/message_cache.cpp) and the media
  cache (core/storage/media_cache.cpp).  Whether a file exists and what opening it yields
  are arguments of each call; values are the UTF-8 bytes handed to the store.
\<close>

section \<open>\<open>CacheStorage\<close>\<close>

definition USER :: u32 where "USER = 1"

fun remove_others :: "u64 \<Rightarrow> u64 list \<Rightarrow> (store, storage_error, unit) op" where
  "remove_others keep [] = ret ()"
| "remove_others keep (x # xs) =
     (if x \<noteq> keep then bind (store_remove x) (\<lambda>_. remove_others keep xs) else remove_others keep xs)"

definition cache_put :: "bytes \<Rightarrow> (store, storage_error, bool) op" where
  "cache_put value s =
     (let records = ids s USER
      in if records = []
         then bind (store_insert value USER) (\<lambda>_. bind store_sync (\<lambda>_. ret True)) s
         else bind (store_update (last records) value) (\<lambda>b.
                if \<not> b then ret False
                else bind (remove_others (last records) records) (\<lambda>_.
                     bind store_sync (\<lambda>_. ret True))) s)"

text \<open>\<open>save\<close>: the same object is moved to the file of the name first.\<close>

definition cache_save ::
    "storage_error + bool \<Rightarrow> opened \<Rightarrow> bytes \<Rightarrow> bytes \<Rightarrow> (store, storage_error, bool) op" where
  "cache_save same_file target pw value = bind (setPath same_file target pw) (\<lambda>_. cache_put value)"

definition cache_latest :: "store \<Rightarrow> storage_error + bytes" where
  "cache_latest s =
     (let records = ids s USER
      in if records = [] then Inr []
         else case store_get s (last records) of
                Inl e \<Rightarrow> Inl e
              | Inr None \<Rightarrow> Inr []
              | Inr (Some v) \<Rightarrow> Inr v)"

definition cache_read ::
    "bool \<Rightarrow> storage_error + bool \<Rightarrow> opened \<Rightarrow> bytes \<Rightarrow> (store, storage_error, bytes) op" where
  "cache_read exists_file same_file target pw =
     (if \<not> exists_file then ret []
      else bind (setPath same_file target pw) (\<lambda>_. reads cache_latest))"

section \<open>\<open>MessageCache\<close>\<close>

definition kMessageTag :: u32 where "kMessageTag = 2"
definition kMaxOpenStores :: nat where "kMaxOpenStores = 8"

type_synonym open_stores = "(qstring \<times> store) list"

fun find_store :: "qstring \<Rightarrow> open_stores \<Rightarrow> (open_stores \<times> (qstring \<times> store) \<times> open_stores) option" where
  "find_store path [] = None"
| "find_store path (e # es) =
     (if fst e = path then Some ([], e, es)
      else case find_store path es of None \<Rightarrow> None | Some (xs, f, ys) \<Rightarrow> Some (e # xs, f, ys))"

definition open_new :: "qstring \<Rightarrow> storage_error + store \<Rightarrow> (open_stores, storage_error, unit) op" where
  "open_new path opened os =
     (case opened of
        Inl e \<Rightarrow> (Inl e, os)
      | Inr s \<Rightarrow> (Inr (), (path, s) # (if kMaxOpenStores \<le> length os then butlast os else os)))"

definition openStore :: "qstring \<Rightarrow> bool \<Rightarrow> storage_error + store \<Rightarrow> (open_stores, storage_error, unit) op" where
  "openStore path exists_file opened os =
     (case find_store path os of
        Some (xs, e, ys) \<Rightarrow>
          if exists_file then (Inr (), e # xs @ ys) else open_new path opened (xs @ ys)
      | None \<Rightarrow> open_new path opened os)"

text \<open>An operation on the store at the front of the list.\<close>

definition on_front :: "(store, storage_error, 'a) op \<Rightarrow> (open_stores, storage_error, 'a) op" where
  "on_front m os =
     (case os of [] \<Rightarrow> (Inl NotOpened, []) | (p, s) # es \<Rightarrow> (case m s of (r, s') \<Rightarrow> (r, (p, s') # es)))"

text \<open>The \<open>catch\<close> of every operation: all stores are closed and the failure value returned.\<close>

definition catching :: "'a \<Rightarrow> (open_stores, storage_error, 'a) op \<Rightarrow> open_stores \<Rightarrow> 'a \<times> open_stores" where
  "catching failed m os = (case m os of (Inl _, _) \<Rightarrow> (failed, []) | (Inr x, os') \<Rightarrow> (x, os'))"

record file_env =
  made_dir :: bool
  file_exists :: bool
  opened_store :: "storage_error + store"

definition mc_save :: "file_env \<Rightarrow> qstring \<Rightarrow> bytes \<Rightarrow> open_stores \<Rightarrow> bool \<times> open_stores" where
  "mc_save env file objects =
     catching False
       (if \<not> made_dir env then ret False
        else bind (openStore file (file_exists env) (opened_store env)) (\<lambda>_.
             on_front (bind (store_insert objects kMessageTag) (\<lambda>_. bind store_sync (\<lambda>_. ret True)))))"

text \<open>The loop of \<open>read\<close>: \<open>Inr None\<close> is a missing record.\<close>

fun read_batches :: "store \<Rightarrow> u64 list \<Rightarrow> storage_error + bytes list option" where
  "read_batches s [] = Inr (Some [])"
| "read_batches s (x # xs) =
     (case store_get s x of
        Inl e \<Rightarrow> Inl e
      | Inr None \<Rightarrow> Inr None
      | Inr (Some d) \<Rightarrow>
          (case read_batches s xs of
             Inl e \<Rightarrow> Inl e | Inr None \<Rightarrow> Inr None | Inr (Some ds) \<Rightarrow> Inr (Some (d # ds))))"

definition mc_read :: "file_env \<Rightarrow> qstring \<Rightarrow> open_stores \<Rightarrow> bytes list option \<times> open_stores" where
  "mc_read env file =
     catching None
       (if \<not> file_exists env then ret (Some [])
        else bind (openStore file (file_exists env) (opened_store env)) (\<lambda>_.
             on_front (reads (\<lambda>s. read_batches s (ids s kMessageTag)))))"

definition put_snapshot :: "bytes \<Rightarrow> bytes \<Rightarrow> (store, storage_error, bool) op" where
  "put_snapshot name objects s =
     (case root s name of
        None \<Rightarrow> bind (store_insert objects kMessageTag) (\<lambda>x. bind (setRoot name x) (\<lambda>_.
                bind store_sync (\<lambda>_. ret True))) s
      | Some x \<Rightarrow> bind (store_update x objects) (\<lambda>b.
                if \<not> b then ret False else bind store_sync (\<lambda>_. ret True)) s)"

definition saveSnapshot :: "file_env \<Rightarrow> qstring \<Rightarrow> bytes \<Rightarrow> bytes \<Rightarrow> open_stores \<Rightarrow> bool \<times> open_stores" where
  "saveSnapshot env file objects name =
     catching False
       (if \<not> made_dir env then ret False
        else bind (openStore file (file_exists env) (opened_store env)) (\<lambda>_. on_front (put_snapshot name objects)))"

definition get_snapshot :: "bytes \<Rightarrow> store \<Rightarrow> storage_error + bytes option" where
  "get_snapshot name s = (case root s name of None \<Rightarrow> Inr None | Some x \<Rightarrow> store_get s x)"

definition readSnapshot :: "file_env \<Rightarrow> qstring \<Rightarrow> bytes \<Rightarrow> open_stores \<Rightarrow> bytes option \<times> open_stores" where
  "readSnapshot env file name =
     catching None
       (if \<not> file_exists env then ret None
        else bind (openStore file (file_exists env) (opened_store env)) (\<lambda>_. on_front (reads (get_snapshot name))))"

text \<open>\<open>std::to_string\<close> of a positive page number.\<close>

fun decimal :: "nat \<Rightarrow> bytes" where
  "decimal n = (if n < 10 then [48 + of_nat n] else decimal (n div 10) @ [48 + of_nat (n mod 10)])"

definition pending_messages :: bytes where
  "pending_messages = [112, 101, 110, 100, 105, 110, 103, 45, 109, 101, 115, 115, 97, 103, 101, 115]"

definition mc_savePage :: "file_env \<Rightarrow> qstring \<Rightarrow> bytes \<Rightarrow> int \<Rightarrow> open_stores \<Rightarrow> bool \<times> open_stores" where
  "mc_savePage env file objects page os =
     (if page < 1 then (False, os) else saveSnapshot env file objects (decimal (nat page)) os)"

definition mc_readPage :: "file_env \<Rightarrow> qstring \<Rightarrow> int \<Rightarrow> open_stores \<Rightarrow> bytes option \<times> open_stores" where
  "mc_readPage env file page os =
     (if page < 1 then (None, os) else readSnapshot env file (decimal (nat page)) os)"

definition mc_savePending :: "file_env \<Rightarrow> qstring \<Rightarrow> bytes \<Rightarrow> open_stores \<Rightarrow> bool \<times> open_stores" where
  "mc_savePending env file objects os = saveSnapshot env file objects pending_messages os"

definition mc_readPending :: "file_env \<Rightarrow> qstring \<Rightarrow> open_stores \<Rightarrow> bytes option \<times> open_stores" where
  "mc_readPending env file os = readSnapshot env file pending_messages os"

fun remove_all :: "u64 list \<Rightarrow> (store, storage_error, bool) op" where
  "remove_all [] = bind store_sync (\<lambda>_. ret True)"
| "remove_all (x # xs) = bind (store_remove x) (\<lambda>b. if \<not> b then ret False else remove_all xs)"

definition mc_clear :: "file_env \<Rightarrow> qstring \<Rightarrow> open_stores \<Rightarrow> bool \<times> open_stores" where
  "mc_clear env file =
     catching False
       (if \<not> file_exists env then ret True
        else bind (openStore file (file_exists env) (opened_store env)) (\<lambda>_.
             on_front (\<lambda>s. remove_all (ids s kMessageTag) s)))"

definition closeAll :: "open_stores \<Rightarrow> open_stores" where
  "closeAll os = []"

section \<open>\<open>MediaCache\<close>\<close>

definition mediaTag :: u32 where "mediaTag = 3"

text \<open>\<open>isCachePath\<close> on the parts of the path it looks at.\<close>

definition media_suffix :: qstring where
  "media_suffix = [46, 109, 101, 100, 105, 97]"

definition hashed_name :: "qstring \<Rightarrow> bool" where
  "hashed_name name =
     (let name = (if drop (length name - 6) name = media_suffix then take (length name - 6) name else name)
      in length name = 64 \<and> list_all (\<lambda>c. 48 \<le> c \<and> c \<le> 57 \<or> 97 \<le> c \<and> c \<le> 102) name)"

definition isCachePath :: "qstring \<Rightarrow> qstring \<Rightarrow> bool \<Rightarrow> qstring \<Rightarrow> bool" where
  "isCachePath dir base is_link name \<longleftrightarrow> dir = base \<and> hashed_name name \<and> \<not> is_link"

text \<open>
  \<open>save\<close>: the new store is built beside the destination; \<open>file\<close> is what the destination
  holds before and after, \<open>temp\<close> what opening the temporary file gives, and \<open>renamed\<close> the
  outcome of \<open>rename\<close>.  An exception leaves the destination as it was.
\<close>

definition media_save ::
    "bool \<Rightarrow> bool \<Rightarrow> storage_error + store \<Rightarrow> bool \<Rightarrow> bytes \<Rightarrow> store option \<Rightarrow> bool \<times> store option" where
  "media_save cache_path made temp renamed bs file =
     (if bs = [] \<or> \<not> cache_path then (False, file)
      else if \<not> made then (False, file)
      else case temp of
             Inl e \<Rightarrow> (False, file)
           | Inr s \<Rightarrow>
               (case bind (store_insert bs mediaTag) (\<lambda>_. store_sync) s of
                  (Inl e, _) \<Rightarrow> (False, file)
                | (Inr _, t) \<Rightarrow> if renamed then (True, Some t) else (False, file)))"

definition media_read :: "bool \<Rightarrow> store option \<Rightarrow> bytes" where
  "media_read cache_path file =
     (if \<not> cache_path then []
      else case file of
             None \<Rightarrow> []
           | Some s \<Rightarrow>
               (let records = ids s mediaTag
                in if records = [] then []
                   else case store_get s (last records) of Inr (Some b) \<Rightarrow> b | _ \<Rightarrow> []))"

definition media_exists :: "bool \<Rightarrow> store option \<Rightarrow> bool" where
  "media_exists cache_path file \<longleftrightarrow> media_read cache_path file \<noteq> []"

definition media_saveFile ::
    "bool \<Rightarrow> bool \<Rightarrow> storage_error + store \<Rightarrow> bool \<Rightarrow> bytes option \<Rightarrow> store option \<Rightarrow> bool \<times> store option" where
  "media_saveFile cache_path made temp renamed source file =
     (case source of None \<Rightarrow> (False, file) | Some bs \<Rightarrow> media_save cache_path made temp renamed bs file)"

section \<open>Lemmas on the store operations the caches use\<close>

lemma sync_views:
  assumes sh: "views s U" and sy: "store_sync s = (r, t)"
  shows "views t U \<and> m_roots t = m_roots s"
proof -
  obtain ch rs where wf: "store_wf s ch rs" and dw: "dir_wf s rs" and U: "U = rs(m_dirId s := None)"
    and op: "is_open s" using sh by (rule viewsE)
  have y: "sync s = (r, t)" using sy op by (simp add: store_sync_def)
  have st: "same_store s t" using sync_same_store [OF y] by simp
  have cw: "chains_wf (dom (m_head s)) s ch rs" using wf by (simp add: store_wf_def)
  then have "good s" by (simp add: chains_wf_def)
  then have k: "bd.keeps s (addressable s) t" using y by (rule bd.fl_keeps)
  have "blocks (dom (m_head s)) ch \<subseteq> addressable s"
    using chains_wf_blocks [OF cw] chains_wf_addressable [OF cw] by auto
  from chains_wf_keeps [OF cw st k this] have "store_wf t ch rs"
    using wf by (simp add: store_wf_def same_store_fields [OF st])
  then show ?thesis
    using dir_wf_same [OF dw same_store_roots [OF st]] U op
    by (auto simp: views_def same_store_fields [OF st])
qed

lemma insert_roots:
  assumes "views s U" and "fits s d" and "store_insert d tg s = (r, t)"
  shows "m_roots t = m_roots s"
proof -
  obtain ch rs where wf: "store_wf s ch rs" and op: "is_open s" using assms(1) by (rule viewsE)
  show ?thesis
  proof (cases "tg = kDirTag")
    case False
    then have "insertLocked d tg s = (r, t)" using assms(3) op by (simp add: store_insert_def)
    then show ?thesis
      using insertLocked_wf [OF wf] assms(2) by (auto simp: fits_def same_roots_def)
  qed (use assms(3) in \<open>simp add: store_insert_def\<close>)
qed

lemma update_roots:
  assumes "views s U" and "fits s d" and "store_update x d s = (r, t)"
  shows "m_roots t = m_roots s"
proof -
  obtain ch rs where wf: "store_wf s ch rs" using assms(1) by (rule viewsE)
  show ?thesis
  proof (cases "x = m_dirId s \<or> m_head s x = None")
    case True
    then show ?thesis using assms(3) by (auto simp: store_update_def)
  next
    case False
    then have "\<exists>q. updateLocked x d s = (q, t)"
      using assms(3) by (cases "updateLocked x d s") (auto simp: store_update_def bind_def ret_def split: sum.splits)
    then obtain q where u: "updateLocked x d s = (q, t)" ..
    have "dom rs = dom (m_head s)" using wf by (simp add: store_wf_def)
    then have "rs x \<noteq> None" using False by (metis domIff)
    then obtain tg d' where "rs x = Some (tg, d')" by auto
    then show ?thesis
      using updateLocked_wf [OF wf _ _ u] assms(2) by (auto simp: fits_def same_roots_def)
  qed
qed

lemma roots_in_view: "views s U \<Longrightarrow> root s k = Some x \<Longrightarrow> U x \<noteq> None"
proof -
  assume sh: "views s U" and r: "root s k = Some x"
  obtain ch rs where dw: "dir_wf s rs" and U: "U = rs(m_dirId s := None)" using sh by (rule viewsE)
  have "x \<in> snd ` set (m_roots s)" using r by (auto simp: root_def dest!: map_of_SomeD intro: rev_image_eqI)
  then show ?thesis using dw U by (auto simp: dir_wf_def)
qed

section \<open>The single-value cache returns what was saved last\<close>

lemma remove_others_views:
  "views s U \<Longrightarrow> m_roots s = [] \<Longrightarrow> remove_others keep xs s = (Inr u, t) \<Longrightarrow>
     views t (U |` (- (set xs - {keep}))) \<and> m_roots t = []"
proof (induction xs arbitrary: s U)
  case Nil
  then show ?case by (simp add: ret_def)
next
  case (Cons x xs)
  show ?case
  proof (cases "x = keep")
    case True
    then show ?thesis using Cons by simp
  next
    case False
    with Cons.prems(3) obtain b v where r: "store_remove x s = (Inr b, v)" and rest: "remove_others keep xs v = (Inr u, t)"
      by (auto elim: bind_InrE)
    have v: "views v (U(x := None))" "m_roots v = []"
      using store_remove_views [OF Cons.prems(1) _ r] Cons.prems(2) by (simp_all split: if_splits)
    note Cons.IH [OF v rest]
    moreover have "(U(x := None)) |` (- (set xs - {keep})) = U |` (- (set (x # xs) - {keep}))"
      using False by (auto simp: restrict_map_def fun_eq_iff)
    ultimately show ?thesis by (simp only:)
  qed
qed

lemma sorted_distinct_singleton: "distinct xs \<Longrightarrow> set xs = {x} \<Longrightarrow> xs = [x]"
proof -
  assume d: "distinct xs" and x: "set xs = {x}"
  have "length xs = Suc 0" using distinct_card [OF d] x by simp
  then obtain y where "xs = [y]" by (auto simp: length_Suc_conv)
  with x show ?thesis by simp
qed

text \<open>
  A \<open>save\<close> that returns true leaves exactly one record of the cache's tag, and reading the
  cache back gives the saved value, whatever older snapshots the file held.
\<close>

theorem cache_put_then_latest:
  assumes "views s U" and "m_roots s = []" and "fits s v" and "cache_put v s = (Inr True, t)"
  shows "cache_latest t = Inr v \<and> length (ids t USER) = 1"
proof -
  have tag: "USER \<noteq> kDirTag" by (simp add: USER_def kDirTag_def)
  note idU = ids_views [OF assms(1) tag]
  have fin: "cache_latest t = Inr v \<and> length (ids t USER) = 1"
    if w: "views w W" "store_sync w = (Inr y, t)" "{x. \<exists>d. W x = Some (USER, d)} = {k}" "W k = Some (USER, v)" for w W y k
  proof -
    have vt: "views t W" using sync_views [OF w(1,2)] by simp
    have "distinct (ids t USER) \<and> set (ids t USER) = {k}" using ids_views [OF vt tag] w(3) by simp
    then have i: "ids t USER = [k]" by (simp add: sorted_distinct_singleton)
    show ?thesis using ls.get_law [OF vt w(4)] i by (simp add: cache_latest_def Let_def)
  qed
  show ?thesis
  proof (cases "ids s USER = []")
    case True
    with assms(4) obtain x w y where i: "store_insert v USER s = (Inr x, w)" and y: "store_sync w = (Inr y, t)"
      by (auto simp: cache_put_def Let_def ret_def elim!: bind_InrE)
    have "views w (U(x \<mapsto> (USER, v)))" using ls.ins_law [OF assms(1,3) i] by simp
    moreover have "{z. \<exists>d. (U(x \<mapsto> (USER, v))) z = Some (USER, d)} = {x}" using idU True by auto
    ultimately show ?thesis using fin [OF _ y] by simp
  next
    case False
    let ?k = "last (ids s USER)"
    from assms(4) False obtain w1 w2 y where u: "store_update ?k v s = (Inr True, w1)"
      and ro: "remove_others ?k (ids s USER) w1 = (Inr (), w2)" and y: "store_sync w2 = (Inr y, t)"
      by (auto simp: cache_put_def Let_def ret_def elim!: bind_InrE split: if_splits)
    have "?k \<in> set (ids s USER)" using False by simp
    then obtain d where k: "U ?k = Some (USER, d)" using idU by auto
    have v1: "views w1 (U(?k \<mapsto> (USER, v)))" using ls.upd_law [OF assms(1,3) u] k by simp
    have "m_roots w1 = []" using update_roots [OF assms(1,3) u] assms(2) by simp
    note v2 = remove_others_views [OF v1 this ro]
    let ?W = "(U(?k \<mapsto> (USER, v))) |` (- (set (ids s USER) - {?k}))"
    have "{z. \<exists>d. ?W z = Some (USER, d)} = {?k}" using idU by (auto simp: restrict_map_def split: if_splits)
    then show ?thesis using fin [OF conjunct1 [OF v2] y] by (simp add: restrict_map_def)
  qed
qed

theorem cache_put_then_latest_witness:
  "\<exists>t. cache_put [5, 6] demo_store = (Inr True, t) \<and> cache_latest t = Inr [5, 6] \<and> length (ids t USER) = 1"
proof -
  have "fst (cache_put [5, 6] demo_store) = Inr True" "m_roots demo_store = []" by code_simp+
  then have run: "cache_put [5, 6] demo_store = (Inr True, snd (cache_put [5, 6] demo_store))"
    and r: "m_roots demo_store = []"
    by (cases "cache_put [5, 6] demo_store"; simp)+
  have "fits demo_store [5, 6]" by (rule demo_fits) simp
  from cache_put_then_latest [OF demo_views r this run] run show ?thesis by blast
qed

section \<open>Conversation pages\<close>

text \<open>Room for a snapshot and, when its name is new, for the directory with the name added.\<close>

definition snapshot_fits :: "store \<Rightarrow> bytes \<Rightarrow> bytes \<Rightarrow> bool" where
  "snapshot_fits s name objects \<longleftrightarrow> fits s objects \<and>
     (case store_insert objects kMessageTag s of
        (Inl _, _) \<Rightarrow> True
      | (Inr x, t) \<Rightarrow> fits t (encode_directory (put_root name x (m_roots t))))"

lemma kMessageTag_user: "kMessageTag \<noteq> kDirTag"
  by (simp add: kMessageTag_def kDirTag_def)

lemma get_snapshot_views:
  assumes "views s U"
  shows "get_snapshot k s = Inr (case root s k of None \<Rightarrow> None | Some x \<Rightarrow> map_option snd (U x))"
    and "root s k = Some x \<Longrightarrow> \<exists>tg d. U x = Some (tg, d)"
proof -
  show u: "\<exists>tg d. U x = Some (tg, d)" if "root s k = Some x" for x k
    using roots_in_view [OF assms that] by auto
  show "get_snapshot k s = Inr (case root s k of None \<Rightarrow> None | Some x \<Rightarrow> map_option snd (U x))"
  proof (cases "root s k")
    case (Some x)
    obtain tg d where "U x = Some (tg, d)" using u [OF Some] by blast
    then show ?thesis using ls.get_law [OF assms] Some by (simp add: get_snapshot_def)
  qed (simp add: get_snapshot_def)
qed

lemma put_snapshot_spec:
  assumes v: "views s U" and f: "snapshot_fits s name objects" and p: "put_snapshot name objects s = (Inr True, t)"
    and i: "inj_on (root s) {k. root s k \<noteq> None}"
  shows "\<exists>V. views t V \<and> inj_on (root t) {k. root t k \<noteq> None}
    \<and> get_snapshot name t = Inr (Some objects) \<and> (\<forall>k. k \<noteq> name \<longrightarrow> get_snapshot k t = get_snapshot k s)"
proof (cases "root s name")
  case None
  with p obtain x w v' y where ins: "store_insert objects kMessageTag s = (Inr x, w)"
    and r: "setRoot name x w = (Inr (), v')" and y: "store_sync v' = (Inr y, t)"
    by (auto simp: put_snapshot_def ret_def elim!: bind_InrE)
  let ?W = "U(x \<mapsto> (kMessageTag, objects))"
  have fit: "fits s objects" using f by (simp add: snapshot_fits_def)
  note w = ls.ins_law [OF v fit ins]
  have rw: "root w = root s" using insert_roots [OF v fit ins] by (simp add: root_def fun_eq_iff)
  have "fits w (encode_directory (put_root name x (m_roots w)))" using f ins by (simp add: snapshot_fits_def)
  note sr = setRoot_views [OF conjunct2 [OF w] this r]
  note t = sync_views [OF conjunct1 [OF conjunct2 [OF sr]] y]
  have rt: "root t = (root s)(name \<mapsto> x)"
    using t sr rw by (auto simp: root_def fun_eq_iff map_of_put_root)
  have vt: "views t ?W" using t by blast
  have new: "U x = None" using w by blast
  have old: "root s k = Some z \<Longrightarrow> z \<noteq> x" for k z using get_snapshot_views(2) [OF v] new by fastforce
  have "inj_on (root t) {k. root t k \<noteq> None}"
    using i old unfolding rt inj_on_def by (metis (mono_tags, lifting) fun_upd_apply mem_Collect_eq option.sel option.exhaust)
  moreover have "get_snapshot name t = Inr (Some objects)" by (simp add: get_snapshot_views(1) [OF vt] rt)
  moreover have "get_snapshot k t = get_snapshot k s" if "k \<noteq> name" for k
    using that old by (auto simp: get_snapshot_views(1) [OF vt] get_snapshot_views(1) [OF v] rt split: option.splits)
  ultimately show ?thesis using vt by blast
next
  case (Some x)
  with p obtain w y where u: "store_update x objects s = (Inr True, w)" and y: "store_sync w = (Inr y, t)"
    by (auto simp: put_snapshot_def ret_def elim!: bind_InrE split: if_splits)
  have fit: "fits s objects" using f by (simp add: snapshot_fits_def)
  obtain tg d0 where x: "U x = Some (tg, d0)" using get_snapshot_views(2) [OF v Some] by blast
  have "views w (U(x \<mapsto> (tg, objects)))" using ls.upd_law [OF v fit u, unfolded x] by simp
  note t = sync_views [OF this y]
  have vt: "views t (U(x \<mapsto> (tg, objects)))" using t by blast
  have rt: "root t = root s" using t update_roots [OF v fit u] by (simp add: root_def fun_eq_iff)
  have other: "root s k = Some z \<Longrightarrow> k \<noteq> name \<Longrightarrow> z \<noteq> x" for k z using i Some by (auto simp: inj_on_def)
  have "get_snapshot name t = Inr (Some objects)" by (simp add: get_snapshot_views(1) [OF vt] rt Some)
  moreover have "get_snapshot k t = get_snapshot k s" if "k \<noteq> name" for k
    using that other by (auto simp: get_snapshot_views(1) [OF vt] get_snapshot_views(1) [OF v] rt split: option.splits)
  ultimately show ?thesis using vt i rt by auto
qed

lemma length_directory:
  assumes "map fst m = map fst n"
  shows "length (encode_directory m) = length (encode_directory n)"
proof -
  have l: "length (encode_root e) = 12 + length (fst e)" for e by (simp add: encode_root_def)
  have "length (encode_directory m) = 4 + sum_list (map (\<lambda>k. 12 + length k) (map fst m))" for m
    by (simp add: encode_directory_def length_concat l comp_def)
  then show ?thesis using assms by metis
qed

lemma put_root_names: "map fst m = map fst n \<Longrightarrow> map fst (put_root k x m) = map fst (put_root k y n)"
proof (induction m arbitrary: n)
  case (Cons e m)
  then obtain e' n' where n: "n = e' # n'" by (cases n) auto
  show ?case using Cons.prems Cons.IH [of n'] unfolding n by (cases e; cases e') simp
qed simp

lemma length_put_root: "length (encode_directory (put_root k x m)) = length (encode_directory (put_root k y m))"
  by (intro length_directory put_root_names refl)

text \<open>Free blocks for the snapshot and for the directory with its name are enough.\<close>

definition snapshot_cost :: "store \<Rightarrow> bytes \<Rightarrow> bytes \<Rightarrow> nat" where
  "snapshot_cost s name objects =
     chunks (m_cap s) (length objects) + chunks (m_cap s) (length (encode_directory (put_root name 0 (m_roots s))))"

lemma snapshot_fitsI:
  assumes sh: "views s U" and r: "room s (snapshot_cost s name objects)"
  shows "snapshot_fits s name objects"
proof -
  have ft: "fits s objects" using room_mono [OF r] by (simp add: fits_def snapshot_cost_def)
  have "fits t (encode_directory (put_root name x (m_roots t)))" if i: "store_insert objects kMessageTag s = (Inr x, t)" for x t
  proof -
    have l: "length (encode_directory (put_root name x (m_roots t))) = length (encode_directory (put_root name 0 (m_roots s)))"
      using insert_roots [OF sh ft i] length_put_root by metis
    show ?thesis
      using grows_fits [OF insert_grows [OF sh ft i], of "encode_directory (put_root name x (m_roots t))"] r
      by (simp add: l snapshot_cost_def)
  qed
  then show ?thesis using ft by (auto simp: snapshot_fits_def split: prod.splits sum.splits)
qed

lemma put_snapshot_grows:
  assumes sh: "views s U" and ft: "snapshot_fits s name objects" and put: "put_snapshot name objects s = (Inr True, t)"
  shows "grows (snapshot_cost s name objects) s t
    \<and> (\<exists>x. m_roots t = (if root s name = None then put_root name x (m_roots s) else m_roots s))"
proof (cases "root s name")
  case None
  have fit: "fits s objects" using ft by (simp add: snapshot_fits_def)
  obtain x w v y where i: "store_insert objects kMessageTag s = (Inr x, w)" and r: "setRoot name x w = (Inr (), v)"
    and y: "store_sync v = (Inr y, t)"
    using put None by (auto simp: put_snapshot_def ret_def elim!: bind_InrE)
  have w: "views w (U(x \<mapsto> (kMessageTag, objects)))" using ls.ins_law [OF sh fit i] by blast
  have f: "fits w (encode_directory (put_root name x (m_roots w)))" using ft i by (simp add: snapshot_fits_def)
  note sr = setRoot_views [OF w f r]
  have mw: "m_roots w = m_roots s" by (rule insert_roots [OF sh fit i])
  have l: "length (encode_directory (put_root name x (m_roots s))) = length (encode_directory (put_root name 0 (m_roots s)))"
    by (rule length_put_root)
  have cw: "m_cap w = m_cap s" using insert_grows [OF sh fit i] by (simp add: grows_def)
  have "grows (chunks (m_cap s) (length objects) + (chunks (m_cap w) (length (encode_directory (put_root name x (m_roots w)))) + 0)) s t"
    by (intro grows_trans [OF insert_grows [OF sh fit i]] grows_trans [OF setRoot_grows [OF w f r]] sync_grows [OF y])
  moreover have "m_roots t = put_root name x (m_roots s)"
    using sync_views [OF _ y] sr mw by auto
  ultimately show ?thesis using None by (auto simp: snapshot_cost_def mw l cw)
next
  case (Some x)
  have fit: "fits s objects" using ft by (simp add: snapshot_fits_def)
  obtain v y where u: "store_update x objects s = (Inr True, v)" and y: "store_sync v = (Inr y, t)"
    using put Some by (auto simp: put_snapshot_def ret_def elim!: bind_InrE split: if_splits)
  have "grows (chunks (m_cap s) (length objects) + 0) s t"
    by (intro grows_trans [OF update_grows [OF sh fit u]] sync_grows [OF y])
  moreover have "views v (case U x of None \<Rightarrow> U | Some (tg, _) \<Rightarrow> U(x \<mapsto> (tg, objects)))"
    using ls.upd_law [OF sh fit u] by blast
  ultimately show ?thesis
    using sync_views [OF _ y] update_roots [OF sh fit u] Some grows_mono by (fastforce simp: snapshot_cost_def)
qed

lemma put_snapshot_quiet:
  assumes sh: "views s U" and ft: "snapshot_fits s name objects" and q: "quiet s"
  shows "\<exists>t. put_snapshot name objects s = (Inr True, t) \<and> quiet t"
proof (cases "root s name")
  case None
  have fit: "fits s objects" using ft by (simp add: snapshot_fits_def)
  obtain x w where i: "store_insert objects kMessageTag s = (Inr x, w)" "quiet w"
    using insert_quiet [OF sh fit q kMessageTag_user] by blast
  then have w: "views w (U(x \<mapsto> (kMessageTag, objects)))" using ls.ins_law [OF sh fit] by blast
  have "fits w (encode_directory (put_root name x (m_roots w)))" using ft i by (simp add: snapshot_fits_def)
  then obtain v where v: "setRoot name x w = (Inr (), v)" "quiet v"
    using setRoot_quiet [OF w _ i(2), of name x] by auto
  have "is_open v"
  proof -
    have "views v (U(x \<mapsto> (kMessageTag, objects)))"
      using setRoot_views [OF w \<open>fits w _\<close> v(1)] by blast
    then show ?thesis by (simp add: views_def)
  qed
  then show ?thesis
    using None i v by (simp add: put_snapshot_def bind_def ret_def store_sync_def sync_quiet)
next
  case (Some x)
  have fit: "fits s objects" using ft by (simp add: snapshot_fits_def)
  obtain t where t: "store_update x objects s = (Inr True, t)" "quiet t"
    using update_quiet [OF sh fit q, of x] roots_in_view [OF sh Some] by auto
  then have "is_open t" using ls.upd_law [OF sh fit t(1)] by (simp add: views_def)
  then show ?thesis using Some t by (simp add: put_snapshot_def bind_def ret_def store_sync_def sync_quiet)
qed

text \<open>
  After a page or the pending messages were saved, the snapshot of that name is what was
  saved and the snapshots of all other names are what they were, absent ones included.
\<close>

theorem put_snapshot_then_get:
  assumes "views s U" and "snapshot_fits s name objects" and "put_snapshot name objects s = (Inr True, t)"
    and "inj_on (root s) {k. root s k \<noteq> None}"
  shows "get_snapshot name t = Inr (Some objects) \<and> (\<forall>k. k \<noteq> name \<longrightarrow> get_snapshot k t = get_snapshot k s)"
  using put_snapshot_spec [OF assms] by blast

theorem put_snapshot_then_get_witness:
  "\<exists>t. put_snapshot [49] [7, 8] demo_store = (Inr True, t) \<and> get_snapshot [49] t = Inr (Some [7, 8])"
proof -
  have "fst (put_snapshot [49] [7, 8] demo_store) = Inr True" "m_roots demo_store = []" by code_simp+
  then have run: "put_snapshot [49] [7, 8] demo_store = (Inr True, snd (put_snapshot [49] [7, 8] demo_store))"
    and r: "m_roots demo_store = []"
    by (cases "put_snapshot [49] [7, 8] demo_store"; simp)+
  have "case store_insert [7, 8] kMessageTag demo_store of
     (Inl _, _) \<Rightarrow> False | (Inr x, t) \<Rightarrow> (m_bs t, m_cap t, m_nblocks t, m_roots t) = (128, 71, 1, [])"
    by code_simp
  then have "snapshot_fits demo_store [49] [7, 8]"
    using demo_fits [of "[7, 8]"]
    by (auto simp: snapshot_fits_def fits_def room_def chunks_def encode_directory_def encode_root_def
        split: prod.splits sum.splits)
  moreover have "inj_on (root demo_store) {k. root demo_store k \<noteq> None}" using r by (simp add: root_def)
  ultimately show ?thesis using put_snapshot_then_get [OF demo_views _ run] run by blast
qed

text \<open>
  Batches saved after a \<open>clear\<close> are not read back in the order they were saved: the freed
  identifiers are handed out from the back of the free list and \<open>read\<close> goes by identifier.
\<close>

theorem mc_read_after_clear_reverses:
  "(let env = \<lparr>made_dir = True, file_exists = True, opened_store = Inl CannotOpen\<rparr>;
        os = [([102], demo_store)];
        os = snd (mc_save env [102] [1] os); os = snd (mc_save env [102] [2] os);
        (cleared, os) = mc_clear env [102] os;
        (saved3, os) = mc_save env [102] [3] os; (saved4, os) = mc_save env [102] [4] os
    in (cleared, saved3, saved4, fst (mc_read env [102] os))) = (True, True, True, Some [[4], [3]])"
  by code_simp

section \<open>The list of open stores\<close>

text \<open>Every call of \<open>MessageCache\<close>, as one step on the list of open stores.\<close>

datatype mc_call =
    Save file_env qstring bytes
  | Read file_env qstring
  | SavePage file_env qstring bytes int
  | ReadPage file_env qstring int
  | SavePending file_env qstring bytes
  | ReadPending file_env qstring
  | Clear file_env qstring
  | CloseAll

fun mc_step :: "mc_call \<Rightarrow> open_stores \<Rightarrow> open_stores" where
  "mc_step (Save env f d) os = snd (mc_save env f d os)"
| "mc_step (Read env f) os = snd (mc_read env f os)"
| "mc_step (SavePage env f d p) os = snd (mc_savePage env f d p os)"
| "mc_step (ReadPage env f p) os = snd (mc_readPage env f p os)"
| "mc_step (SavePending env f d) os = snd (mc_savePending env f d os)"
| "mc_step (ReadPending env f) os = snd (mc_readPending env f os)"
| "mc_step (Clear env f) os = snd (mc_clear env f os)"
| "mc_step CloseAll os = closeAll os"

definition lru_inv :: "open_stores \<Rightarrow> bool" where
  "lru_inv os \<longleftrightarrow> length os \<le> kMaxOpenStores \<and> distinct (map fst os)"

lemma find_store_Some: "find_store p os = Some (xs, e, ys) \<Longrightarrow> os = xs @ e # ys \<and> fst e = p"
  by (induction os arbitrary: xs) (auto split: if_splits option.splits)

lemma find_store_None: "find_store p os = None \<Longrightarrow> p \<notin> fst ` set os"
  by (induction os) (auto split: if_splits option.splits)

lemma open_new_inv:
  assumes "lru_inv os" and "p \<notin> fst ` set os" and "open_new p o1 os = (Inr u, os')"
  shows "lru_inv os' \<and> fst (hd os') = p \<and> os' \<noteq> []"
  using assms
  by (auto simp: open_new_def lru_inv_def kMaxOpenStores_def map_butlast distinct_butlast
      split: sum.splits dest!: in_set_butlastD intro: rev_image_eqI)

lemma openStore_inv:
  assumes "lru_inv os" and "openStore p ex o1 os = (Inr u, os')"
  shows "lru_inv os' \<and> fst (hd os') = p \<and> os' \<noteq> []"
proof (cases "find_store p os")
  case None
  then show ?thesis using assms open_new_inv [OF assms(1) find_store_None] by (simp add: openStore_def)
next
  case (Some r)
  then obtain xs e ys where r: "find_store p os = Some (xs, e, ys)" by (cases r) auto
  note os = find_store_Some [OF r]
  show ?thesis
  proof (cases ex)
    case True
    then show ?thesis using assms r os by (auto simp: openStore_def lru_inv_def)
  next
    case False
    have "lru_inv (xs @ ys)" "p \<notin> fst ` set (xs @ ys)" using assms(1) os by (auto simp: lru_inv_def)
    then show ?thesis using open_new_inv assms(2) r False by (simp add: openStore_def)
  qed
qed

lemma on_front_inv: "lru_inv os \<Longrightarrow> on_front m os = (r, os') \<Longrightarrow> lru_inv os'"
  by (auto simp: on_front_def lru_inv_def split: list.splits prod.splits)

lemma catching_inv:
  assumes "lru_inv os"
    and "\<And>x os'. m os = (Inr x, os') \<Longrightarrow> lru_inv os'"
  shows "lru_inv (snd (catching f m os))"
  using assms by (auto simp: catching_def lru_inv_def split: prod.splits sum.splits)

lemma guarded_inv:
  assumes "lru_inv os"
  shows "lru_inv (snd (catching f (if c then ret r else bind (openStore p ex o1) (\<lambda>_. on_front m)) os))"
proof (rule catching_inv [OF assms])
  fix x os'
  assume run: "(if c then ret r else bind (openStore p ex o1) (\<lambda>_. on_front m)) os = (Inr x, os')"
  show "lru_inv os'"
  proof (cases c)
    case True
    then show ?thesis using run assms by (simp add: ret_def)
  next
    case False
    then have "bind (openStore p ex o1) (\<lambda>_. on_front m) os = (Inr x, os')" using run by simp
    then obtain u os1 where "openStore p ex o1 os = (Inr u, os1)" "on_front m os1 = (Inr x, os')"
      by (rule bind_InrE)
    then show ?thesis using openStore_inv [OF assms] on_front_inv by blast
  qed
qed

text \<open>
  At most eight conversation stores are open at any time and no file is open twice,
  whatever sequence of calls is made and however they end.
\<close>

theorem open_stores_bounded:
  assumes "lru_inv os"
  shows "lru_inv (fold mc_step calls os)"
  using assms
proof (induction calls arbitrary: os)
  case (Cons c cs)
  have "lru_inv (mc_step c os)"
    using Cons.prems
    by (cases c)
      (simp_all add: mc_save_def mc_read_def mc_savePage_def mc_readPage_def mc_savePending_def mc_readPending_def
        saveSnapshot_def readSnapshot_def mc_clear_def closeAll_def guarded_inv, simp add: lru_inv_def)
  with Cons.IH show ?case by simp
qed simp

theorem open_stores_bounded_witness:
  "lru_inv (fold mc_step [Read \<lparr>made_dir = True, file_exists = True, opened_store = Inr demo_store\<rparr> [97]] [])"
  by (rule open_stores_bounded) (simp add: lru_inv_def)

section \<open>Media files\<close>

text \<open>
  A media file is replaced in one piece: a \<open>save\<close> that answers false leaves the file as
  it was, one that answers true makes \<open>read\<close> return exactly the saved bytes.
\<close>

theorem media_save_then_read:
  assumes "\<And>s. temp = Inr s \<Longrightarrow> views s Map.empty \<and> fits s bs"
    and "media_save True made temp renamed bs file = (b, file')"
  shows "if b then media_read True file' = bs \<and> bs \<noteq> [] else file' = file"
proof (cases b)
  case True
  with assms(2) obtain s x w y t where s: "temp = Inr s" and i: "store_insert bs mediaTag s = (Inr x, w)"
    and y: "store_sync w = (Inr y, t)" and f: "file' = Some t" and ne: "bs \<noteq> []"
    by (auto simp: media_save_def bind_def split: if_splits sum.splits prod.splits)
  note vf = assms(1) [OF s]
  have vw: "views w [x \<mapsto> (mediaTag, bs)]" using ls.ins_law [of s Map.empty bs] vf i by blast
  have vt: "views t [x \<mapsto> (mediaTag, bs)]" using sync_views [OF vw y] by simp
  have tg: "mediaTag \<noteq> kDirTag" by (simp add: mediaTag_def kDirTag_def)
  have "ids t mediaTag = [x]" using ids_views [OF vt tg] by (intro sorted_distinct_singleton) (auto split: if_splits)
  then show ?thesis using ls.get_law [OF vt] True ne by (simp add: f media_read_def)
next
  case False
  then show ?thesis using assms(2)
    by (auto simp: media_save_def split: if_splits sum.splits prod.splits)
qed

theorem media_save_then_read_witness:
  "case media_save True True (Inr demo_store) True [9, 9] None of
     (b, file') \<Rightarrow> b \<and> media_read True file' = [9, 9]"
proof -
  obtain b file' where r: "media_save True True (Inr demo_store) True [9, 9] None = (b, file')" by fastforce
  have "fst (media_save True True (Inr demo_store) True [9, 9] None)" by code_simp
  then have "b" using r by simp
  moreover have "if b then media_read True file' = [9, 9] \<and> [9, 9] \<noteq> ([] :: bytes) else file' = None"
    using demo_views demo_fits [of "[9, 9]"] by (intro media_save_then_read [OF _ r]) auto
  ultimately show ?thesis using r by simp
qed

end
