(* ===== verification/Message_History.thy ===== *)
theory Message_History
  imports Message_Order Caches
begin

text \<open>
  \<open>MessageHistoryCache\<close> (features/chat/data/repository/message_history_cache.hpp): the pages of a
  conversation as the server sent them, and beside them the live messages that no page has
  acknowledged yet. The operations run on \<open>MessageCache\<close>; what they need of it is the locale
  \<open>snapshot_cache\<close>, interpreted on the model of that class.
\<close>

section \<open>The code\<close>

datatype snapshot = Page int | Pending

text \<open>
  \<open>MessageCache::readPage\<close>, \<open>readPending\<close>, \<open>savePage\<close> and \<open>savePending\<close> on a logical name and a
  secret; and the text functions: \<open>QString::toLongLong\<close>, the JSON text, base 64.
\<close>

record 's message_cache =
  mc_rd :: "string \<Rightarrow> string \<Rightarrow> snapshot \<Rightarrow> 's \<Rightarrow> string option \<times> 's"
  mc_sv :: "string \<Rightarrow> string \<Rightarrow> snapshot \<Rightarrow> string \<Rightarrow> 's \<Rightarrow> bool \<times> 's"

record text_env =
  longlong :: "string \<Rightarrow> int"
  json_print :: "json \<Rightarrow> string"
  json_read :: "string \<Rightarrow> json option"
  base64 :: "string \<Rightarrow> string"

definition conversationId :: "string \<Rightarrow> string" where
  "conversationId x = filter (\<lambda>c. c \<noteq> CHR ''-'') (first_section CHR ''@'' (first_section CHR ''/'' x))"

definition sameMessage :: "MessageItemDto \<Rightarrow> MessageItemDto \<Rightarrow> bool" where
  "sameMessage l r \<longleftrightarrow>
     message_id (item_body l) \<noteq> [] \<and> message_id (item_body l) = message_id (item_body r)
   \<or> item_id l \<noteq> [] \<and> item_id l = item_id r"

definition hist_secret :: "text_env \<Rightarrow> string \<Rightarrow> string \<Rightarrow> string" where
  "hist_secret E account conversation =
     base64 E (json_print E (JArr [JStr (conversationId account), JStr (conversationId conversation)]))"

definition no_messages :: "int \<Rightarrow> MessageDto" where
  "no_messages pg = \<lparr>messages = [], page = pg, limit = 200, total = 0, total_pages = 0\<rparr>"

text \<open>The part of \<open>readSnapshot\<close> after the cache has answered.\<close>

definition decode_snapshot :: "text_env \<Rightarrow> int \<Rightarrow> string option \<Rightarrow> MessageDto" where
  "decode_snapshot E pg found =
     (case found of
        None \<Rightarrow> no_messages pg
      | Some t \<Rightarrow>
          (case json_read E t of
             Some (JObj kvs) \<Rightarrow>
               (case message_fromJson (longlong E) (json_print E) (json_read E) (JObj kvs) of
                  Some d \<Rightarrow> if page d = pg then d else no_messages pg
                | None \<Rightarrow> no_messages pg)
           | _ \<Rightarrow> no_messages pg))"

definition hist_readSnapshot ::
    "'s message_cache \<Rightarrow> text_env \<Rightarrow> string \<Rightarrow> string \<Rightarrow> int \<Rightarrow> bool \<Rightarrow> 's \<Rightarrow> MessageDto \<times> 's" where
  "hist_readSnapshot C E account conversation pg live s =
     (case mc_rd C (conversationId conversation) (hist_secret E account conversation)
             (if live then Pending else Page pg) s of
        (found, s') \<Rightarrow> (decode_snapshot E pg found, s'))"

definition hist_writeSnapshot ::
    "'s message_cache \<Rightarrow> text_env \<Rightarrow> string \<Rightarrow> string \<Rightarrow> MessageDto \<Rightarrow> bool \<Rightarrow> 's \<Rightarrow> bool \<times> 's" where
  "hist_writeSnapshot C E account conversation response live s =
     (if conversationId account = [] \<or> conversationId conversation = [] then (False, s)
      else mc_sv C (conversationId conversation) (hist_secret E account conversation)
             (if live then Pending else Page (page response)) (json_print E (message_toJson response)) s)"

text \<open>The loop of \<open>read\<close> over the live messages.\<close>

fun merge_live :: "MessageItemDto list \<Rightarrow> MessageDto \<Rightarrow> MessageDto" where
  "merge_live [] d = d"
| "merge_live (m # ms) d =
     merge_live ms
       (if \<exists>i \<in> set (messages d). sameMessage i m then d
        else d\<lparr>messages := messages d @ [m], total := total d + 1\<rparr>)"

definition hist_read :: "'s message_cache \<Rightarrow> text_env \<Rightarrow> string \<Rightarrow> string \<Rightarrow> int \<Rightarrow> 's \<Rightarrow> MessageDto \<times> 's" where
  "hist_read C E account conversation pg s =
     (let (result, s1) = hist_readSnapshot C E account conversation pg False s
      in if pg \<noteq> 1 then (result, s1)
         else
           (let (live, s2) = hist_readSnapshot C E account conversation 1 True s1;
                result = merge_live (messages live) result
            in (if messages result = [] then result else result\<lparr>total_pages := max 1 (total_pages result)\<rparr>, s2)))"

definition hist_savePage :: "'s message_cache \<Rightarrow> text_env \<Rightarrow> string \<Rightarrow> string \<Rightarrow> MessageDto \<Rightarrow> 's \<Rightarrow> bool \<times> 's" where
  "hist_savePage C E account conversation response s =
     (let (ok, s1) = hist_writeSnapshot C E account conversation response False s
      in if \<not> ok then (False, s1)
         else
           (let (live, s2) = hist_readSnapshot C E account conversation 1 True s1;
                rest = filter (\<lambda>m. \<not> (\<exists>i \<in> set (messages response). sameMessage i m)) (messages live)
            in if length rest = length (messages live) then (True, s2)
               else hist_writeSnapshot C E account conversation (live\<lparr>messages := rest\<rparr>) True s2))"

text \<open>\<open>find_if\<close>, then replace the message found or append.\<close>

fun upsert :: "MessageItemDto \<Rightarrow> MessageItemDto list \<Rightarrow> MessageItemDto list" where
  "upsert m [] = [m]"
| "upsert m (i # is) = (if sameMessage i m then m # is else i # upsert m is)"

definition hist_saveMessage ::
    "'s message_cache \<Rightarrow> text_env \<Rightarrow> string \<Rightarrow> string \<Rightarrow> MessageItemDto \<Rightarrow> 's \<Rightarrow> bool \<times> 's" where
  "hist_saveMessage C E account conversation m s =
     (let (live, s1) = hist_readSnapshot C E account conversation 1 True s
      in hist_writeSnapshot C E account conversation (live\<lparr>messages := upsert m (messages live)\<rparr>) True s1)"

section \<open>What it needs of the message cache\<close>

text \<open>
  For one name and secret: while the cache is in order, reading answers what the snapshot holds and
  changes nothing, and a save that succeeds leaves it in order with that snapshot replaced.
\<close>

locale snapshot_cache =
  fixes C :: "'s message_cache" and name secret :: string
    and ok :: "'s \<Rightarrow> bool" and room :: "'s \<Rightarrow> snapshot \<Rightarrow> string \<Rightarrow> bool" and held :: "'s \<Rightarrow> snapshot \<Rightarrow> string option"
  assumes rd_law: "ok s \<Longrightarrow> mc_rd C name secret k s = (held s k, s)"
    and sv_law: "ok s \<Longrightarrow> room s k d \<Longrightarrow> mc_sv C name secret k d s = (True, t) \<Longrightarrow> ok t \<and> held t = (held s)(k \<mapsto> d)"

text \<open>A page that reads back, and what a snapshot holds as messages.\<close>

definition storable :: "MessageDto \<Rightarrow> bool" where
  "storable m \<longleftrightarrow> list_all sendable (messages m) \<and> int32 (page m) \<and> int32 (limit m) \<and> int32 (total m) \<and> int32 (total_pages m)"

definition text_ok :: "text_env \<Rightarrow> bool" where
  "text_ok E \<longleftrightarrow> json_text (json_print E) (json_read E)"

lemma item_canonical: "sendable i \<Longrightarrow> canonical (item_toJson i)"
  unfolding item_toJson_def by (rule canonical_object) (simp add: sendable_def payload_canonical)

lemma message_canonical: "storable m \<Longrightarrow> canonical (message_toJson m)"
  unfolding message_toJson_def
  by (rule canonical_object) (auto simp: storable_def toArray_def list_all_iff item_canonical int32_def)

lemma message_object: "\<exists>kvs. message_toJson m = JObj kvs"
  by (simp add: message_toJson_def object_def)

lemma decode_written:
  assumes "text_ok E" and "storable m"
  shows "decode_snapshot E pg (Some (json_print E (message_toJson m))) = (if page m = pg then m else no_messages pg)"
proof -
  obtain kvs where k: "message_toJson m = JObj kvs" using message_object by blast
  have "json_read E (json_print E (message_toJson m)) = Some (JObj kvs)"
    using assms message_canonical [OF assms(2)] k by (simp add: text_ok_def json_text_def)
  moreover have "message_fromJson (longlong E) (json_print E) (json_read E) (JObj kvs) = Some m"
    using message_read [of "json_print E" "json_read E" m "longlong E"] assms k
    by (simp add: text_ok_def storable_def)
  ultimately show ?thesis by (simp add: decode_snapshot_def)
qed

lemma decode_page [simp]: "page (decode_snapshot E pg x) = pg"
  by (simp add: decode_snapshot_def no_messages_def split: option.splits json.splits)

lemma storable_upsert: "storable m \<Longrightarrow> sendable i \<Longrightarrow> storable (m\<lparr>messages := upsert i (messages m)\<rparr>)"
proof -
  have "list_all sendable ms \<Longrightarrow> sendable i \<Longrightarrow> list_all sendable (upsert i ms)" for ms
    by (induction ms) simp_all
  then show "storable m \<Longrightarrow> sendable i \<Longrightarrow> storable (m\<lparr>messages := upsert i (messages m)\<rparr>)"
    by (simp add: storable_def)
qed

lemma storable_filter: "storable m \<Longrightarrow> storable (m\<lparr>messages := filter P (messages m)\<rparr>)"
  by (simp add: storable_def list_all_iff)

lemma filter_same_length: "length (filter P xs) = length xs \<Longrightarrow> filter P xs = xs"
proof (induction xs)
  case (Cons x xs)
  show ?case using Cons length_filter_le [of P xs] by (cases "P x") simp_all
qed simp

lemma merge_live_messages:
  "\<exists>added. messages (merge_live ms d) = messages d @ added \<and> set added \<subseteq> set ms
    \<and> (\<forall>m \<in> set ms. \<exists>i \<in> set (messages d @ added). i = m \<or> sameMessage i m)
    \<and> total (merge_live ms d) = total d + int (length added)"
proof (induction ms arbitrary: d)
  case (Cons m ms)
  show ?case
  proof (cases "\<exists>i \<in> set (messages d). sameMessage i m")
    case True
    then show ?thesis using Cons.IH [of d] by auto
  next
    case False
    let ?d = "d\<lparr>messages := messages d @ [m], total := total d + 1\<rparr>"
    obtain added where a: "messages (merge_live ms ?d) = messages ?d @ added" "set added \<subseteq> set ms"
      "\<forall>m' \<in> set ms. \<exists>i \<in> set (messages ?d @ added). i = m' \<or> sameMessage i m'"
      "total (merge_live ms ?d) = total ?d + int (length added)"
      using Cons.IH [of ?d] by blast
    have "merge_live (m # ms) d = merge_live ms ?d" using False by simp
    then show ?thesis using a by (intro exI [of _ "m # added"]) auto
  qed
qed simp

lemma upsert_messages:
  "m \<in> set (upsert m ms) \<and> set (upsert m ms) \<subseteq> insert m (set ms)
    \<and> (\<forall>x \<in> set ms. x \<in> set (upsert m ms) \<or> sameMessage x m)"
  by (induction ms) auto

text \<open>What the user is shown of page one: the page, then the live messages it lacks.\<close>

definition shows_message :: "MessageItemDto \<Rightarrow> MessageDto \<Rightarrow> bool" where
  "shows_message m d \<longleftrightarrow> (\<exists>i \<in> set (messages d). i = m \<or> sameMessage i m)"

definition pending_messages_of :: "'s message_cache \<Rightarrow> text_env \<Rightarrow> string \<Rightarrow> string \<Rightarrow> 's \<Rightarrow> MessageItemDto list" where
  "pending_messages_of C E account conversation s = messages (fst (hist_readSnapshot C E account conversation 1 True s))"

context snapshot_cache
begin

text \<open>The messages of a snapshot.\<close>

lemma read_held:
  assumes "ok s" and "conversationId conversation = name" and "hist_secret E account conversation = secret"
  shows "hist_readSnapshot C E account conversation pg live s
    = (decode_snapshot E pg (held s (if live then Pending else Page pg)), s)"
  using rd_law [OF assms(1)] assms(2,3) by (simp add: hist_readSnapshot_def)

lemma write_held:
  assumes "ok s" and "conversationId conversation = name" and "hist_secret E account conversation = secret"
    and "room s (if live then Pending else Page (page m)) (json_print E (message_toJson m))"
    and "hist_writeSnapshot C E account conversation m live s = (True, t)"
  shows "ok t \<and> held t = (held s)((if live then Pending else Page (page m)) \<mapsto> json_print E (message_toJson m))"
proof -
  have "mc_sv C name secret (if live then Pending else Page (page m)) (json_print E (message_toJson m)) s = (True, t)"
    using assms(5) assms(2,3) by (simp add: hist_writeSnapshot_def split: if_splits)
  from sv_law [OF assms(1,4) this] show ?thesis .
qed

lemma save_message:
  assumes o: "ok s" "text_ok E" "conversationId conversation = name" "hist_secret E account conversation = secret"
    and st: "storable (decode_snapshot E 1 (held s Pending))" "sendable m"
    and rm: "room s Pending (json_print E (message_toJson
          ((decode_snapshot E 1 (held s Pending))\<lparr>messages := upsert m (messages (decode_snapshot E 1 (held s Pending)))\<rparr>)))"
    and sv: "hist_saveMessage C E account conversation m s = (True, t)"
  shows "ok t \<and> (\<forall>p. held t (Page p) = held s (Page p))
    \<and> decode_snapshot E 1 (held t Pending)
        = (decode_snapshot E 1 (held s Pending))\<lparr>messages := upsert m (messages (decode_snapshot E 1 (held s Pending)))\<rparr>"
proof -
  let ?live = "decode_snapshot E 1 (held s Pending)"
  let ?new = "?live\<lparr>messages := upsert m (messages ?live)\<rparr>"
  have "hist_writeSnapshot C E account conversation ?new True s = (True, t)"
    using sv by (simp add: hist_saveMessage_def read_held [OF o(1,3,4)])
  from write_held [OF o(1,3,4) _ this] rm
  have t: "ok t" "held t = (held s)(Pending \<mapsto> json_print E (message_toJson ?new))" by simp_all
  have "decode_snapshot E 1 (held t Pending) = ?new"
    using decode_written [OF o(2) storable_upsert [OF st], of 1] by (simp add: t(2))
  then show ?thesis using t by simp
qed

text \<open>The live messages a page does not acknowledge.\<close>

lemma save_page:
  assumes o: "ok s" "text_ok E" "conversationId conversation = name" "hist_secret E account conversation = secret"
    and st: "storable (decode_snapshot E 1 (held s Pending))" "storable response"
    and rest: "rest = filter (\<lambda>m. \<not> (\<exists>i \<in> set (messages response). sameMessage i m)) (messages (decode_snapshot E 1 (held s Pending)))"
    and rm: "room s (Page (page response)) (json_print E (message_toJson response))"
      "\<And>u. mc_sv C name secret (Page (page response)) (json_print E (message_toJson response)) s = (True, u) \<Longrightarrow>
         room u Pending (json_print E (message_toJson ((decode_snapshot E 1 (held s Pending))\<lparr>messages := rest\<rparr>)))"
    and sv: "hist_savePage C E account conversation response s = (True, t)"
  shows "ok t \<and> decode_snapshot E (page response) (held t (Page (page response))) = response
    \<and> (\<forall>p. p \<noteq> page response \<longrightarrow> held t (Page p) = held s (Page p))
    \<and> messages (decode_snapshot E 1 (held t Pending)) = rest"
proof -
  let ?live = "decode_snapshot E 1 (held s Pending)"
  from sv obtain u where w: "hist_writeSnapshot C E account conversation response False s = (True, u)"
    by (auto simp: hist_savePage_def split: prod.splits if_splits)
  from write_held [OF o(1,3,4) _ w] rm(1)
  have u: "ok u" "held u = (held s)(Page (page response) \<mapsto> json_print E (message_toJson response))" by simp_all
  have mu: "mc_sv C name secret (Page (page response)) (json_print E (message_toJson response)) s = (True, u)"
    using w o(3,4) by (auto simp: hist_writeSnapshot_def split: if_splits)
  have pg: "decode_snapshot E (page response) (held u (Page (page response))) = response"
    using decode_written [OF o(2) st(2), of "page response"] by (simp add: u(2))
  have lv: "hist_readSnapshot C E account conversation 1 True u = (?live, u)"
    using read_held [OF u(1) o(3,4), of 1 True] by (simp add: u(2))
  show ?thesis
  proof (cases "length rest = length (messages ?live)")
    case True
    then have "rest = messages ?live" by (simp add: rest filter_same_length)
    moreover have "t = u" using sv w lv True by (simp add: hist_savePage_def rest)
    ultimately show ?thesis using u pg by simp
  next
    case False
    then have "hist_writeSnapshot C E account conversation (?live\<lparr>messages := rest\<rparr>) True u = (True, t)"
      using sv w lv by (simp add: hist_savePage_def rest)
    from write_held [OF u(1) o(3,4) _ this] rm(2) [OF mu]
    have t: "ok t" "held t = (held u)(Pending \<mapsto> json_print E (message_toJson (?live\<lparr>messages := rest\<rparr>)))" by simp_all
    have "storable (?live\<lparr>messages := rest\<rparr>)" unfolding rest by (rule storable_filter [OF st(1)])
    from decode_written [OF o(2) this, of 1] have "decode_snapshot E 1 (held t Pending) = ?live\<lparr>messages := rest\<rparr>" by (simp add: t(2))
    then show ?thesis using t u pg by simp
  qed
qed

lemma read_page_one:
  assumes "ok s" and "conversationId conversation = name" and "hist_secret E account conversation = secret"
  shows "\<exists>d. hist_read C E account conversation 1 s = (d, s)
    \<and> messages d = messages (merge_live (messages (decode_snapshot E 1 (held s Pending))) (decode_snapshot E 1 (held s (Page 1))))"
  by (simp add: hist_read_def read_held [OF assms] Let_def)

lemma pending_held:
  "ok s \<Longrightarrow> conversationId conversation = name \<Longrightarrow> hist_secret E account conversation = secret \<Longrightarrow>
    pending_messages_of C E account conversation s = messages (decode_snapshot E 1 (held s Pending))"
  by (simp add: pending_messages_of_def read_held)

lemma pending_shown:
  assumes o: "ok s" "conversationId conversation = name" "hist_secret E account conversation = secret"
    and m: "m \<in> set (pending_messages_of C E account conversation s)"
  shows "shows_message m (fst (hist_read C E account conversation 1 s))"
proof -
  obtain d where d: "hist_read C E account conversation 1 s = (d, s)"
    "messages d = messages (merge_live (messages (decode_snapshot E 1 (held s Pending))) (decode_snapshot E 1 (held s (Page 1))))"
    using read_page_one [OF o] by blast
  show ?thesis
    using merge_live_messages [of "messages (decode_snapshot E 1 (held s Pending))" "decode_snapshot E 1 (held s (Page 1))"] m
    by (auto simp: d shows_message_def pending_held [OF o])
qed

lemma page_shown:
  assumes o: "ok s" "conversationId conversation = name" "hist_secret E account conversation = secret"
    and m: "m \<in> set (messages (decode_snapshot E p (held s (Page p))))"
  shows "m \<in> set (messages (fst (hist_read C E account conversation p s)))"
proof (cases "p = 1")
  case True
  obtain d where d: "hist_read C E account conversation 1 s = (d, s)"
    "messages d = messages (merge_live (messages (decode_snapshot E 1 (held s Pending))) (decode_snapshot E 1 (held s (Page 1))))"
    using read_page_one [OF o] by blast
  show ?thesis
    using merge_live_messages [of "messages (decode_snapshot E 1 (held s Pending))" "decode_snapshot E 1 (held s (Page 1))"] m True
    by (auto simp: d)
next
  case False
  then show ?thesis using m by (simp add: hist_read_def read_held [OF o])
qed

lemma saved_message_shown:
  assumes o: "ok s" "text_ok E" "conversationId conversation = name" "hist_secret E account conversation = secret"
    and st: "storable (decode_snapshot E 1 (held s Pending))" "sendable m"
    and rm: "room s Pending (json_print E (message_toJson
          ((decode_snapshot E 1 (held s Pending))\<lparr>messages := upsert m (messages (decode_snapshot E 1 (held s Pending)))\<rparr>)))"
    and sv: "hist_saveMessage C E account conversation m s = (True, t)"
  shows "shows_message m (fst (hist_read C E account conversation 1 t))
    \<and> (\<forall>x \<in> set (pending_messages_of C E account conversation s).
         x \<in> set (pending_messages_of C E account conversation t) \<or> sameMessage x m)
    \<and> (\<forall>p. p \<noteq> 1 \<longrightarrow> fst (hist_read C E account conversation p t) = fst (hist_read C E account conversation p s))"
proof -
  let ?live = "decode_snapshot E 1 (held s Pending)"
  from save_message [OF o st rm sv] have t: "ok t" "\<forall>p. held t (Page p) = held s (Page p)"
    "decode_snapshot E 1 (held t Pending) = ?live\<lparr>messages := upsert m (messages ?live)\<rparr>" by simp_all
  have pt: "pending_messages_of C E account conversation t = upsert m (pending_messages_of C E account conversation s)"
    using o t by (simp add: pending_held)
  then have "shows_message m (fst (hist_read C E account conversation 1 t))"
    using upsert_messages by (intro pending_shown [OF t(1) o(3,4)]) simp
  moreover have "fst (hist_read C E account conversation p t) = fst (hist_read C E account conversation p s)" if "p \<noteq> 1" for p
    using that t(2) by (simp add: hist_read_def read_held [OF o(1,3,4)] read_held [OF t(1) o(3,4)])
  ultimately show ?thesis using upsert_messages [of m "pending_messages_of C E account conversation s"] unfolding pt by blast
qed

lemma saved_page_shown:
  assumes o: "ok s" "text_ok E" "conversationId conversation = name" "hist_secret E account conversation = secret"
    and st: "storable (decode_snapshot E 1 (held s Pending))" "storable response"
    and rest: "rest = filter (\<lambda>m. \<not> (\<exists>i \<in> set (messages response). sameMessage i m)) (messages (decode_snapshot E 1 (held s Pending)))"
    and rm: "room s (Page (page response)) (json_print E (message_toJson response))"
      "\<And>u. mc_sv C name secret (Page (page response)) (json_print E (message_toJson response)) s = (True, u) \<Longrightarrow>
         room u Pending (json_print E (message_toJson ((decode_snapshot E 1 (held s Pending))\<lparr>messages := rest\<rparr>)))"
    and sv: "hist_savePage C E account conversation response s = (True, t)"
  shows "set (messages response) \<subseteq> set (messages (fst (hist_read C E account conversation (page response) t)))
    \<and> (\<forall>x \<in> set (pending_messages_of C E account conversation s).
         x \<in> set (pending_messages_of C E account conversation t) \<or> shows_message x response)
    \<and> (\<forall>p. p \<noteq> 1 \<longrightarrow> p \<noteq> page response \<longrightarrow>
         fst (hist_read C E account conversation p t) = fst (hist_read C E account conversation p s))"
proof -
  from save_page [OF o st rest rm sv] have t: "ok t"
    "decode_snapshot E (page response) (held t (Page (page response))) = response"
    "\<forall>p. p \<noteq> page response \<longrightarrow> held t (Page p) = held s (Page p)"
    "messages (decode_snapshot E 1 (held t Pending)) = rest" by simp_all
  have "set (messages response) \<subseteq> set (messages (fst (hist_read C E account conversation (page response) t)))"
    using page_shown [OF t(1) o(3,4)] t(2) by auto
  moreover have "pending_messages_of C E account conversation t = rest" using o t by (simp add: pending_held)
  moreover have "fst (hist_read C E account conversation p t) = fst (hist_read C E account conversation p s)"
    if "p \<noteq> 1" "p \<noteq> page response" for p
    using that t(3) by (simp add: hist_read_def read_held [OF o(1,3,4)] read_held [OF t(1) o(3,4)])
  ultimately show ?thesis using o rest by (auto simp: pending_held shows_message_def)
qed

end

section \<open>On the message cache of the program\<close>

text \<open>
  The operations of \<open>MessageCache\<close> on the open stores, for the file \<open>path name secret\<close>; text is
  stored as the bytes \<open>enc\<close> gives and \<open>dec\<close> reads.
\<close>

definition snapshot_root :: "snapshot \<Rightarrow> bytes" where
  "snapshot_root k = (case k of Page p \<Rightarrow> decimal (nat p) | Pending \<Rightarrow> pending_messages)"

definition file_cache ::
    "file_env \<Rightarrow> (string \<Rightarrow> string \<Rightarrow> qstring) \<Rightarrow> (string \<Rightarrow> bytes) \<Rightarrow> (bytes \<Rightarrow> string) \<Rightarrow> open_stores message_cache" where
  "file_cache env path enc dec =
     \<lparr>mc_rd = (\<lambda>name secret k os.
        (case (case k of Page p \<Rightarrow> mc_readPage env (path name secret) p os | Pending \<Rightarrow> mc_readPending env (path name secret) os) of
           (found, os') \<Rightarrow> (map_option dec found, os'))),
      mc_sv = (\<lambda>name secret k t os.
        (case k of Page p \<Rightarrow> mc_savePage env (path name secret) (enc t) p os
                 | Pending \<Rightarrow> mc_savePending env (path name secret) (enc t) os))\<rparr>"

text \<open>The conversation's store is open, most recently used, and of distinct roots.\<close>

definition conversation_open :: "file_env \<Rightarrow> qstring \<Rightarrow> open_stores \<Rightarrow> bool" where
  "conversation_open env file os \<longleftrightarrow> made_dir env \<and> file_exists env
     \<and> (\<exists>s rest U. os = (file, s) # rest \<and> views s U \<and> inj_on (root s) {k. root s k \<noteq> None})"

definition snapshot_room :: "(string \<Rightarrow> bytes) \<Rightarrow> open_stores \<Rightarrow> snapshot \<Rightarrow> string \<Rightarrow> bool" where
  "snapshot_room enc os k t \<longleftrightarrow> snapshot_fits (snd (hd os)) (snapshot_root k) (enc t)"

definition snapshot_held :: "(bytes \<Rightarrow> string) \<Rightarrow> open_stores \<Rightarrow> snapshot \<Rightarrow> string option" where
  "snapshot_held dec os k =
     (if (case k of Page p \<Rightarrow> p < 1 | Pending \<Rightarrow> False) then None
      else case get_snapshot (snapshot_root k) (snd (hd os)) of Inr r \<Rightarrow> map_option dec r | Inl _ \<Rightarrow> None)"

declare decimal.simps [simp del]

lemma decimal_digits: "\<exists>c cs. decimal n = c # cs \<and> c \<noteq> 112"
proof (induction n rule: decimal.induct)
  case (1 n)
  show ?case
  proof (cases "n < 10")
    case True
    then have "n \<in> set [0..<10]" by simp
    moreover have "\<forall>k \<in> set [0..<10]. (48 + of_nat k :: byte) \<noteq> 112" by code_simp
    ultimately show ?thesis using True by (subst decimal.simps) simp
  next
    case False
    then show ?thesis using 1 by (subst decimal.simps) auto
  qed
qed

lemma digit_inj:
  assumes "i < 10" and "j < 10" and "(48 + of_nat i :: byte) = 48 + of_nat j"
  shows "i = j"
proof -
  have "(of_nat i :: byte) = of_nat j" using assms(3) by simp
  then have "unat (of_nat i :: byte) = unat (of_nat j :: byte)" by simp
  then show ?thesis using assms(1,2) by (simp add: unat_of_nat)
qed

lemma decimal_inj: "decimal m = decimal n \<Longrightarrow> m = n"
proof (induction m arbitrary: n rule: decimal.induct)
  case (1 m)
  have len: "decimal k \<noteq> []" for k using decimal_digits [of k] by auto
  note dm = decimal.simps [of m] and dn = decimal.simps [of n]
  show ?case
  proof (cases "m < 10"; cases "n < 10")
    assume "m < 10" "n < 10"
    then show ?thesis using 1(2) dm dn digit_inj by simp
  next
    assume "m < 10" "\<not> n < 10"
    then show ?thesis using 1(2) dm dn len [of "n div 10"] by simp
  next
    assume "\<not> m < 10" "n < 10"
    then show ?thesis using 1(2) dm dn len [of "m div 10"] by simp
  next
    assume big: "\<not> m < 10" "\<not> n < 10"
    then have "decimal (m div 10) = decimal (n div 10)" "(48 + of_nat (m mod 10) :: byte) = 48 + of_nat (n mod 10)"
      using 1(2) dm dn by simp_all
    then have "m div 10 = n div 10" "m mod 10 = n mod 10"
      using 1(1) [OF big(1)] digit_inj [of "m mod 10" "n mod 10"] by simp_all
    then show ?thesis by (metis div_mult_mod_eq)
  qed
qed

lemma snapshot_root_inj:
  assumes "snapshot_root j = snapshot_root k" and "case j of Page p \<Rightarrow> 1 \<le> p | Pending \<Rightarrow> True" and "case k of Page p \<Rightarrow> 1 \<le> p | Pending \<Rightarrow> True"
  shows "j = k"
proof -
  have "decimal n \<noteq> pending_messages" for n using decimal_digits [of n] by (auto simp: pending_messages_def)
  then have "decimal n \<noteq> pending_messages" "pending_messages \<noteq> decimal n" for n by metis+
  then show ?thesis
    using assms by (cases j; cases k) (auto simp: snapshot_root_def dest: decimal_inj)
qed

lemma front_store:
  "openStore file True opened ((file, s) # rest) = (Inr (), (file, s) # rest)"
  by (simp add: openStore_def)

lemma snapshot_read_open:
  assumes "conversation_open env file os"
  shows "readSnapshot env file name os = ((case get_snapshot name (snd (hd os)) of Inr r \<Rightarrow> r | Inl _ \<Rightarrow> None), os)"
proof -
  obtain s rest U where o: "file_exists env" "os = (file, s) # rest" "views s U"
    using assms by (auto simp: conversation_open_def)
  obtain r where "get_snapshot name s = Inr r" using get_snapshot_views(1) [OF o(3)] by blast
  then show ?thesis
    using o by (simp add: readSnapshot_def catching_def bind_def front_store on_front_def reads_def)
qed

lemma snapshot_save_open:
  assumes "conversation_open env file os" and "snapshot_fits (snd (hd os)) name objects"
    and "saveSnapshot env file objects name os = (True, os')"
  shows "conversation_open env file os' \<and> get_snapshot name (snd (hd os')) = Inr (Some objects)
    \<and> (\<forall>k. k \<noteq> name \<longrightarrow> get_snapshot k (snd (hd os')) = get_snapshot k (snd (hd os)))"
proof -
  obtain s rest U where o: "made_dir env" "file_exists env" "os = (file, s) # rest" "views s U"
    "inj_on (root s) {k. root s k \<noteq> None}"
    using assms(1) by (auto simp: conversation_open_def)
  obtain r t where p: "put_snapshot name objects s = (r, t)" by fastforce
  have "r = Inr True" "os' = (file, t) # rest"
    using assms(3) o p
    by (auto simp: saveSnapshot_def catching_def bind_def front_store on_front_def split: sum.splits)
  with put_snapshot_spec [OF o(4) _ _ o(5), of name objects t] p assms(2) o
  show ?thesis by (auto simp: conversation_open_def)
qed

lemma snapshot_save_quiet:
  assumes "conversation_open env file os" and "snapshot_fits (snd (hd os)) name objects" and "quiet (snd (hd os))"
  shows "\<exists>os'. saveSnapshot env file objects name os = (True, os') \<and> quiet (snd (hd os'))"
proof -
  obtain s rest U where o: "made_dir env" "file_exists env" "os = (file, s) # rest" "views s U"
    using assms(1) by (auto simp: conversation_open_def)
  obtain t where "put_snapshot name objects s = (Inr True, t)" "quiet t"
    using put_snapshot_quiet [OF o(4)] assms(2,3) o(3) by fastforce
  then show ?thesis
    using o by (auto simp: saveSnapshot_def catching_def bind_def front_store on_front_def)
qed

text \<open>Room for one snapshot, and for a second one after it.\<close>

definition pending_cost :: "store \<Rightarrow> bytes \<Rightarrow> bytes \<Rightarrow> nat" where
  "pending_cost s first objects =
     chunks (m_cap s) (length objects) + chunks (m_cap s) (length (encode_directory (put_root pending_messages 0
       (if root s first = None then put_root first 0 (m_roots s) else m_roots s))))"

lemma snapshot_save_room:
  assumes o: "conversation_open env file os"
    and r: "room (snd (hd os)) (snapshot_cost (snd (hd os)) name objects + pending_cost (snd (hd os)) name later)"
    and sv: "saveSnapshot env file objects name os = (True, os')"
  shows "snapshot_fits (snd (hd os')) pending_messages later"
proof -
  obtain s rest U where e: "made_dir env" "file_exists env" "os = (file, s) # rest" "views s U" "inj_on (root s) {k. root s k \<noteq> None}"
    using o by (auto simp: conversation_open_def)
  have ft: "snapshot_fits s name objects"
    using snapshot_fitsI [OF e(4) room_mono [of s _ "snapshot_cost s name objects"]] r e(3) by simp
  have "conversation_open env file os'" using snapshot_save_open [OF o _ sv] ft e(3) by simp
  then obtain t rest' V where t: "os' = (file, t) # rest'" "views t V" by (auto simp: conversation_open_def)
  obtain q v where p: "put_snapshot name objects s = (q, v)" by fastforce
  then have "put_snapshot name objects s = (Inr True, t)"
    using sv t e by (auto simp: saveSnapshot_def catching_def bind_def front_store on_front_def split: sum.splits)
  from put_snapshot_grows [OF e(4) ft this] obtain x where g: "grows (snapshot_cost s name objects) s t"
    and m: "m_roots t = (if root s name = None then put_root name x (m_roots s) else m_roots s)" by blast
  have "length (encode_directory (put_root pending_messages 0 (m_roots t)))
      = length (encode_directory (put_root pending_messages 0 (if root s name = None then put_root name 0 (m_roots s) else m_roots s)))"
    unfolding m by (intro length_directory put_root_names) (simp add: put_root_names)
  then have "snapshot_cost t pending_messages later = pending_cost s name later"
    using g by (simp add: snapshot_cost_def pending_cost_def grows_def)
  then have "room t (snapshot_cost t pending_messages later)" using grows_room [OF g] r e(3) by simp
  then show ?thesis using snapshot_fitsI [OF t(2)] t(1) by simp
qed

lemma file_cache_contract:
  assumes "\<And>t. dec (enc t) = t"
  shows "snapshot_cache (file_cache env path enc dec) name secret
    (conversation_open env (path name secret)) (snapshot_room enc) (snapshot_held dec)"
proof
  fix s :: open_stores and k
  assume o: "conversation_open env (path name secret) s"
  show "mc_rd (file_cache env path enc dec) name secret k s = (snapshot_held dec s k, s)"
    using snapshot_read_open [OF o]
    by (cases k) (simp_all add: file_cache_def mc_readPage_def mc_readPending_def snapshot_held_def snapshot_root_def split: sum.split)
next
  fix s t :: open_stores and k d
  assume o: "conversation_open env (path name secret) s" and r: "snapshot_room enc s k d"
    and sv: "mc_sv (file_cache env path enc dec) name secret k d s = (True, t)"
  have k: "case k of Page p \<Rightarrow> 1 \<le> p | Pending \<Rightarrow> True"
    and sn: "saveSnapshot env (path name secret) (enc d) (snapshot_root k) s = (True, t)"
    using sv by (cases k; simp add: file_cache_def mc_savePage_def mc_savePending_def snapshot_root_def split: if_splits)+
  from snapshot_save_open [OF o _ sn] r
  have t: "conversation_open env (path name secret) t" "get_snapshot (snapshot_root k) (snd (hd t)) = Inr (Some (enc d))"
    "n \<noteq> snapshot_root k \<Longrightarrow> get_snapshot n (snd (hd t)) = get_snapshot n (snd (hd s))" for n
    by (simp_all add: snapshot_room_def)
  have "snapshot_held dec t j = ((snapshot_held dec s)(k \<mapsto> d)) j" for j
  proof (cases "j = k")
    case True
    then show ?thesis using k t(2) assms by (cases k) (simp_all add: snapshot_held_def)
  next
    case False
    show ?thesis
    proof (cases "case j of Page p \<Rightarrow> p < 1 | Pending \<Rightarrow> False")
      case True
      then show ?thesis using False by (simp add: snapshot_held_def)
    next
      case ok: False
      then have "snapshot_root j \<noteq> snapshot_root k"
        using snapshot_root_inj [of j k] k False by (cases j) auto
      then show ?thesis using False t(3) by (simp add: snapshot_held_def)
    qed
  qed
  then show "conversation_open env (path name secret) t \<and> snapshot_held dec t = (snapshot_held dec s)(k \<mapsto> d)"
    using t(1) by blast
qed

text \<open>Text is stored as its UTF-8 bytes; strings here are sequences of those bytes.\<close>

definition utf8 :: "string \<Rightarrow> bytes" where
  "utf8 = map (\<lambda>c. of_nat (of_char c))"

definition from_utf8 :: "bytes \<Rightarrow> string" where
  "from_utf8 = map (\<lambda>b. char_of (unat b))"

lemma from_utf8_utf8 [simp]: "from_utf8 (utf8 t) = t"
proof (induction t)
  case (Cons c t)
  have "(of_char c :: nat) < 256" by (rule nat_of_char_less_256)
  then have "unat (of_nat (of_char c) :: byte) = of_char c" by (simp add: unat_of_nat)
  then show ?case using Cons by (simp add: utf8_def from_utf8_def)
qed (simp add: utf8_def from_utf8_def)

abbreviation program_cache :: "file_env \<Rightarrow> (string \<Rightarrow> string \<Rightarrow> qstring) \<Rightarrow> open_stores message_cache" where
  "program_cache env path \<equiv> file_cache env path utf8 from_utf8"

interpretation mh: snapshot_cache "file_cache env path utf8 from_utf8" name secret
    "conversation_open env (path name secret)" "snapshot_room utf8" "snapshot_held from_utf8"
  for env path name secret
  by (rule file_cache_contract) simp

section \<open>What the history keeps\<close>

definition conversation_file :: "text_env \<Rightarrow> (string \<Rightarrow> string \<Rightarrow> qstring) \<Rightarrow> string \<Rightarrow> string \<Rightarrow> qstring" where
  "conversation_file E path account conversation =
     path (conversationId conversation) (hist_secret E account conversation)"

definition live_page :: "text_env \<Rightarrow> open_stores \<Rightarrow> MessageDto" where
  "live_page E os = decode_snapshot E 1 (snapshot_held from_utf8 os Pending)"

text \<open>The store has room for the snapshots an operation writes.\<close>

definition message_fits :: "text_env \<Rightarrow> MessageItemDto \<Rightarrow> open_stores \<Rightarrow> bool" where
  "message_fits E m os =
     room (snd (hd os)) (snapshot_cost (snd (hd os)) pending_messages
       (utf8 (json_print E (message_toJson ((live_page E os)\<lparr>messages := upsert m (messages (live_page E os))\<rparr>)))))"

definition unacknowledged :: "MessageDto \<Rightarrow> MessageItemDto list \<Rightarrow> MessageItemDto list" where
  "unacknowledged response = filter (\<lambda>m. \<not> (\<exists>i \<in> set (messages response). sameMessage i m))"

definition page_fits :: "text_env \<Rightarrow> MessageDto \<Rightarrow> open_stores \<Rightarrow> bool" where
  "page_fits E response os =
     (let s = snd (hd os); name = snapshot_root (Page (page response))
      in room s (snapshot_cost s name (utf8 (json_print E (message_toJson response)))
           + pending_cost s name (utf8 (json_print E (message_toJson
               ((live_page E os)\<lparr>messages := unacknowledged response (messages (live_page E os))\<rparr>))))))"

lemma conversation_views: "conversation_open env file os \<Longrightarrow> \<exists>U. views (snd (hd os)) U"
  by (auto simp: conversation_open_def)

lemma message_room:
  assumes "conversation_open env file os" and "message_fits E m os"
  shows "snapshot_room utf8 os Pending
    (json_print E (message_toJson ((live_page E os)\<lparr>messages := upsert m (messages (live_page E os))\<rparr>)))"
  using conversation_views [OF assms(1)] assms(2) snapshot_fitsI
  by (auto simp: snapshot_room_def message_fits_def snapshot_root_def)

lemma page_room:
  assumes o: "conversation_open env file os" and f: "page_fits E response os"
  shows "snapshot_room utf8 os (Page (page response)) (json_print E (message_toJson response))"
    and "mc_savePage env file (utf8 (json_print E (message_toJson response))) (page response) os = (True, u) \<Longrightarrow>
      snapshot_room utf8 u Pending (json_print E (message_toJson
        ((live_page E os)\<lparr>messages := unacknowledged response (messages (live_page E os))\<rparr>)))"
proof -
  let ?s = "snd (hd os)" and ?n = "snapshot_root (Page (page response))"
    and ?a = "utf8 (json_print E (message_toJson response))"
    and ?b = "utf8 (json_print E (message_toJson ((live_page E os)\<lparr>messages := unacknowledged response (messages (live_page E os))\<rparr>)))"
  have r: "room ?s (snapshot_cost ?s ?n ?a + pending_cost ?s ?n ?b)" using f by (simp add: page_fits_def Let_def)
  obtain U where "views ?s U" using conversation_views [OF o] by blast
  from snapshot_fitsI [OF this room_mono [OF r le_add1]]
  show "snapshot_room utf8 os (Page (page response)) (json_print E (message_toJson response))"
    by (simp add: snapshot_room_def)
  assume "mc_savePage env file ?a (page response) os = (True, u)"
  then have "saveSnapshot env file ?a ?n os = (True, u)" by (simp add: mc_savePage_def snapshot_root_def split: if_splits)
  from snapshot_save_room [OF o r this]
  show "snapshot_room utf8 u Pending (json_print E (message_toJson
        ((live_page E os)\<lparr>messages := unacknowledged response (messages (live_page E os))\<rparr>)))"
    by (simp add: snapshot_room_def snapshot_root_def)
qed

lemma saveMessage_quiet:
  assumes o: "conversation_open env (conversation_file E path account conversation) os" and q: "quiet (snd (hd os))"
    and f: "message_fits E m os" and i: "conversationId account \<noteq> []" "conversationId conversation \<noteq> []"
  shows "\<exists>os'. hist_saveMessage (program_cache env path) E account conversation m os = (True, os')"
proof -
  let ?new = "(live_page E os)\<lparr>messages := upsert m (messages (live_page E os))\<rparr>"
  have r: "hist_readSnapshot (program_cache env path) E account conversation 1 True os = (live_page E os, os)"
  proof -
    have "hist_readSnapshot (program_cache env path) E account conversation 1 True os
        = (decode_snapshot E 1 (snapshot_held from_utf8 os (if True then Pending else Page 1)), os)"
      using o unfolding conversation_file_def by (rule mh.read_held) (rule refl)+
    then show ?thesis by (simp add: live_page_def)
  qed
  obtain os' where "saveSnapshot env (conversation_file E path account conversation)
      (utf8 (json_print E (message_toJson ?new))) pending_messages os = (True, os')"
    using snapshot_save_quiet [OF o _ q] message_room [OF o f] by (fastforce simp: snapshot_room_def snapshot_root_def)
  then show ?thesis
    using i r by (simp add: hist_saveMessage_def hist_writeSnapshot_def file_cache_def mc_savePending_def conversation_file_def)
qed

section \<open>A conversation on a concrete store\<close>

definition demo_env :: file_env where
  "demo_env = \<lparr>made_dir = True, file_exists = True, opened_store = Inl CannotOpen\<rparr>"

definition sample_text :: text_env where
  "sample_text = \<lparr>longlong = \<lambda>s. 0, json_print = print_json, json_read = parse_json, base64 = \<lambda>s. s\<rparr>"

definition demo_path :: "string \<Rightarrow> string \<Rightarrow> qstring" where
  "demo_path name secret = [102]"

definition demo_os :: open_stores where
  "demo_os = [([102], demo_store)]"

definition demo_message :: MessageItemDto where
  "demo_message = sent_item (demo_item ''1'' ''you'' [] 0)"

definition demo_response :: MessageDto where
  "demo_response = \<lparr>messages = [demo_message], page = 2, limit = 200, total = 201, total_pages = 2\<rparr>"

lemma demo_roots: "m_roots demo_store = []"
  by code_simp

lemma demo_open: "conversation_open demo_env (conversation_file E demo_path a c) demo_os"
  using demo_views demo_roots
  by (auto simp: conversation_open_def conversation_file_def demo_env_def demo_os_def demo_path_def root_def)

lemma sample_text_ok: "text_ok sample_text"
  using compact_json_text by (simp add: text_ok_def sample_text_def)

lemma demo_sendable: "sendable demo_message"
  by code_simp

lemma demo_pending: "live_page sample_text demo_os = no_messages 1"
  by code_simp

lemma demo_storable: "storable (no_messages 1)" "storable demo_response"
  using demo_sendable by (simp_all add: storable_def no_messages_def int32_def demo_response_def)

lemma demo_room: "k \<le> 1000 \<Longrightarrow> room demo_store k"
  by (simp add: room_def demo_store_def setGeometry_def fresh_store_def)

lemma demo_chunks: "n \<le> 1000 \<Longrightarrow> chunks (m_cap demo_store) n \<le> 20"
proof -
  have "m_cap demo_store = 71" by code_simp
  then show "n \<le> 1000 \<Longrightarrow> ?thesis" by (simp add: chunks_def)
qed

lemma demo_sizes:
  "length (print_json (message_toJson ((no_messages 1)\<lparr>messages := [demo_message]\<rparr>))) \<le> 1000"
  "length (print_json (message_toJson (no_messages 1))) \<le> 1000"
  "length (print_json (message_toJson demo_response)) \<le> 1000"
  by code_simp+

lemma demo_parts [simp]:
  "json_print sample_text = print_json" "snd (hd demo_os) = demo_store" "messages (no_messages p) = []"
  by (simp_all add: sample_text_def demo_os_def no_messages_def)

lemma demo_message_fits: "message_fits sample_text demo_message demo_os"
proof -
  have "length (encode_directory (put_root pending_messages 0 [])) \<le> 1000" by code_simp
  then have "snapshot_cost demo_store pending_messages (utf8 (print_json (message_toJson ((no_messages 1)\<lparr>messages := [demo_message]\<rparr>)))) \<le> 20 + 20"
    unfolding snapshot_cost_def using demo_sizes(1) by (intro add_mono demo_chunks) (simp_all add: demo_roots utf8_def)
  then have "room demo_store (snapshot_cost demo_store pending_messages (utf8 (print_json (message_toJson ((no_messages 1)\<lparr>messages := [demo_message]\<rparr>)))))"
    by (intro demo_room) simp
  then show ?thesis
    by (simp add: message_fits_def demo_pending)
qed

lemma demo_page_fits: "page_fits sample_text demo_response demo_os"
proof -
  let ?n = "snapshot_root (Page (page demo_response))"
  have d: "length (encode_directory (put_root ?n 0 [])) \<le> 1000"
    "length (encode_directory (put_root pending_messages 0 (put_root ?n 0 []))) \<le> 1000" by code_simp+
  have "root demo_store ?n = None" using demo_roots by (simp add: root_def)
  then have "snapshot_cost demo_store ?n (utf8 (print_json (message_toJson demo_response)))
      + pending_cost demo_store ?n (utf8 (print_json (message_toJson (no_messages 1)))) \<le> (20 + 20) + (20 + 20)"
    unfolding snapshot_cost_def pending_cost_def using demo_sizes d
    by (intro add_mono demo_chunks) (simp_all add: demo_roots utf8_def)
  then have "room demo_store (snapshot_cost demo_store ?n (utf8 (print_json (message_toJson demo_response)))
      + pending_cost demo_store ?n (utf8 (print_json (message_toJson (no_messages 1)))))"
    by (intro demo_room) simp
  then show ?thesis
    by (simp add: page_fits_def demo_pending Let_def unacknowledged_def no_messages_def)
qed


section \<open>What the history keeps\<close>

text \<open>
  On a healthy device with room, saving a live message of a named conversation succeeds.
\<close>

theorem saveMessage_succeeds:
  assumes "conversation_open env (conversation_file E path account conversation) os" and "quiet (snd (hd os))"
    and "message_fits E m os" and "conversationId account \<noteq> []" and "conversationId conversation \<noteq> []"
  shows "fst (hist_saveMessage (program_cache env path) E account conversation m os)"
  using saveMessage_quiet [OF assms] by auto

theorem saveMessage_succeeds_witness:
  "fst (hist_saveMessage (program_cache demo_env demo_path) sample_text ''me'' ''you'' demo_message demo_os)"
proof (rule saveMessage_succeeds)
  show "quiet (snd (hd demo_os))" using demo_quiet by (simp add: demo_os_def)
qed (simp_all add: demo_open demo_message_fits conversationId_def first_section_def)



text \<open>
  C23: after a page from the server was saved, reading it shows every message of it, and a pending
  message is dropped only when the page holds it; the other pages read as before.
\<close>

theorem savePage_acknowledges:
  assumes "conversation_open env (conversation_file E path account conversation) os" and "text_ok E"
    and "storable (live_page E os)" and "storable response" and "page_fits E response os"
    and "hist_savePage (program_cache env path) E account conversation response os = (True, os')"
  shows "set (messages response)
      \<subseteq> set (messages (fst (hist_read (program_cache env path) E account conversation (page response) os')))
    \<and> (\<forall>x \<in> set (pending_messages_of (program_cache env path) E account conversation os).
         x \<in> set (pending_messages_of (program_cache env path) E account conversation os') \<or> shows_message x response)
    \<and> (\<forall>p. p \<noteq> 1 \<longrightarrow> p \<noteq> page response \<longrightarrow>
         fst (hist_read (program_cache env path) E account conversation p os')
         = fst (hist_read (program_cache env path) E account conversation p os))"
proof -
  let ?C = "program_cache env path" and ?n = "conversationId conversation" and ?k = "hist_secret E account conversation"
  have "snapshot_room utf8 u Pending (json_print E (message_toJson
      ((live_page E os)\<lparr>messages := unacknowledged response (messages (live_page E os))\<rparr>)))"
    if "mc_sv ?C ?n ?k (Page (page response)) (json_print E (message_toJson response)) os = (True, u)" for u
    using page_room(2) [OF assms(1,5)] that by (simp add: file_cache_def conversation_file_def)
  then show ?thesis
    using mh.saved_page_shown [where env = env and path = path and name = ?n and secret = ?k and s = os and t = os'
        and E = E and account = account and conversation = conversation and response = response
        and rest = "unacknowledged response (messages (live_page E os))"]
      assms page_room(1) [OF assms(1,5)]
    by (simp add: conversation_file_def live_page_def unacknowledged_def)
qed

theorem savePage_acknowledges_witness:
  "\<exists>os'. hist_savePage (program_cache demo_env demo_path) sample_text ''me'' ''you'' demo_response demo_os = (True, os')
    \<and> demo_message \<in> set (messages (fst (hist_read (program_cache demo_env demo_path) sample_text ''me'' ''you'' 2 os')))"
proof -
  let ?C = "program_cache demo_env demo_path" and ?f = "conversation_file sample_text demo_path ''me'' ''you''"
  have q: "quiet (snd (hd demo_os))" using demo_quiet by simp
  obtain os' where w: "saveSnapshot demo_env ?f (utf8 (print_json (message_toJson demo_response)))
      (snapshot_root (Page 2)) demo_os = (True, os')"
    using snapshot_save_quiet [OF demo_open _ q, of "snapshot_root (Page 2)"] page_room(1) [OF demo_open demo_page_fits]
    by (fastforce simp: snapshot_room_def demo_response_def)
  have i: "conversationId ''me'' \<noteq> []" "conversationId ''you'' \<noteq> []" by code_simp+
  have wr: "hist_writeSnapshot ?C sample_text ''me'' ''you'' demo_response False demo_os = (True, os')"
    using w i by (simp add: hist_writeSnapshot_def file_cache_def mc_savePage_def conversation_file_def snapshot_root_def demo_response_def)
  have o: "conversation_open demo_env ?f os'" "get_snapshot pending_messages (snd (hd os')) = get_snapshot pending_messages demo_store"
    using snapshot_save_open [OF demo_open _ w] page_room(1) [OF demo_open demo_page_fits] snapshot_root_inj [of Pending "Page 2"]
    by (auto simp: snapshot_room_def demo_response_def snapshot_root_def)
  have "hist_readSnapshot ?C sample_text ''me'' ''you'' 1 True os'
      = (decode_snapshot sample_text 1 (snapshot_held from_utf8 os' (if True then Pending else Page 1)), os')"
    using o(1) unfolding conversation_file_def by (rule mh.read_held) (rule refl)+
  moreover have "snapshot_held from_utf8 os' Pending = snapshot_held from_utf8 demo_os Pending"
    using o(2) by (simp add: snapshot_held_def snapshot_root_def)
  ultimately have "hist_readSnapshot ?C sample_text ''me'' ''you'' 1 True os' = (no_messages 1, os')"
    using demo_pending by (simp add: live_page_def)
  then have r: "hist_savePage ?C sample_text ''me'' ''you'' demo_response demo_os = (True, os')"
    using wr by (simp add: hist_savePage_def)
  have "storable (live_page sample_text demo_os)" using demo_storable by (simp add: demo_pending)
  from savePage_acknowledges [OF demo_open sample_text_ok this demo_storable(2) demo_page_fits r] r
  show ?thesis by (auto simp: demo_response_def)
qed

end
