(* ===== verification/Session_Dto.thy ===== *)
theory Session_Dto
  imports Json_Text "HOL-Library.Word"
begin

text \<open>
  The session as it is sent and stored (features/authentication/data/dto, data/local), and the
  expiry of its access token (core/utils/token_validator.cpp).
\<close>

section \<open>The login response\<close>

record UserDTO =
  user_id :: string
  username :: string
  display_name :: string

record XmppDTO =
  jid :: string
  xmpp_host :: string
  port :: "16 word"

record LoginResponseDTO =
  access_token :: string
  refresh_token :: string
  resp_user :: UserDTO
  resp_xmpp :: XmppDTO

record TokenResponseDto =
  new_access_token :: string
  new_refresh_token :: string

record LocalUser =
  lu_access_token :: string
  lu_refresh_token :: string
  lu_user_id :: string
  lu_username :: string
  lu_password :: string
  lu_display_name :: string
  lu_jid :: string
  lu_host :: string
  lu_port :: "16 word"

record LoginRequest =
  req_username :: string
  req_password :: string

definition user_toJson :: "UserDTO \<Rightarrow> json" where
  "user_toJson u =
     obj_insert ''display_name'' (JStr (display_name u)) (obj_insert ''username'' (JStr (username u))
       (obj_insert ''id'' (JStr (user_id u)) (JObj [])))"

definition user_fromJson :: "json \<Rightarrow> UserDTO option" where
  "user_fromJson j =
     Some \<lparr>user_id = to_string (obj_value j ''id''), username = to_string (obj_value j ''username''),
           display_name = to_string (obj_value j ''display_name'')\<rparr>"

definition xmpp_toJson :: "XmppDTO \<Rightarrow> json" where
  "xmpp_toJson x =
     obj_insert ''port'' (JNum (uint (port x))) (obj_insert ''host'' (JStr (xmpp_host x))
       (obj_insert ''jid'' (JStr (jid x)) (JObj [])))"

text \<open>\<open>toInt\<close> narrowed to \<open>quint16\<close>.\<close>

definition xmpp_fromJson :: "json \<Rightarrow> XmppDTO option" where
  "xmpp_fromJson j =
     Some \<lparr>jid = to_string (obj_value j ''jid''), xmpp_host = to_string (obj_value j ''host''),
           port = word_of_int (to_int 0 (obj_value j ''port''))\<rparr>"

definition login_toJson :: "LoginResponseDTO \<Rightarrow> json" where
  "login_toJson r = object
     [(''access_token'', JStr (access_token r)), (''refresh_token'', JStr (refresh_token r)),
      (''user'', user_toJson (resp_user r)), (''xmpp'', xmpp_toJson (resp_xmpp r))]"

definition login_fromJson :: "json \<Rightarrow> LoginResponseDTO option" where
  "login_fromJson j =
     (if \<not> (case obj_value j ''user'' of Some v \<Rightarrow> is_object v | None \<Rightarrow> False) then None
      else case user_fromJson (to_object (obj_value j ''user'')) of
             None \<Rightarrow> None
           | Some u \<Rightarrow>
               (if \<not> (case obj_value j ''xmpp'' of Some v \<Rightarrow> is_object v | None \<Rightarrow> False) then None
                else case xmpp_fromJson (to_object (obj_value j ''xmpp'')) of
                       None \<Rightarrow> None
                     | Some x \<Rightarrow>
                         Some \<lparr>access_token = to_string (obj_value j ''access_token''),
                               refresh_token = to_string (obj_value j ''refresh_token''),
                               resp_user = u, resp_xmpp = x\<rparr>))"

definition token_fromJson :: "json \<Rightarrow> TokenResponseDto" where
  "token_fromJson j =
     \<lparr>new_access_token = to_string (obj_value j ''access_token''),
      new_refresh_token = to_string (obj_value j ''refresh_token'')\<rparr>"

definition request_toJson :: "LoginRequest \<Rightarrow> json" where
  "request_toJson r =
     obj_insert ''password'' (JStr (req_password r)) (obj_insert ''username'' (JStr (req_username r)) (JObj []))"

section \<open>The stored session\<close>

definition decodeSession :: "json \<Rightarrow> LocalUser option" where
  "decodeSession j =
     (let user = to_object (obj_value j ''user''); xmpp = to_object (obj_value j ''xmpp'');
          prt = obj_value xmpp ''port''; portNumber = to_int (- 1) prt
      in if \<not> list_all (\<lambda>k. is_string (obj_value j k)) [''access_token'', ''refresh_token'', ''password''] then None
         else if \<not> list_all (\<lambda>k. is_string (obj_value user k)) [''id'', ''username'', ''display_name''] then None
         else if to_int 0 (obj_value j ''version'') \<noteq> 1 \<or> \<not> is_string (obj_value xmpp ''jid'')
               \<or> \<not> is_string (obj_value xmpp ''host'')
               \<or> \<not> (case prt of Some (JNum n) \<Rightarrow> n = portNumber | _ \<Rightarrow> False)
               \<or> portNumber < 0 \<or> portNumber > 65535 then None
         else case login_fromJson j of
                None \<Rightarrow> None
              | Some r \<Rightarrow>
                  Some \<lparr>lu_access_token = access_token r, lu_refresh_token = refresh_token r,
                        lu_user_id = user_id (resp_user r), lu_username = username (resp_user r),
                        lu_password = to_string (obj_value j ''password''),
                        lu_display_name = display_name (resp_user r), lu_jid = jid (resp_xmpp r),
                        lu_host = xmpp_host (resp_xmpp r), lu_port = port (resp_xmpp r)\<rparr>)"

text \<open>\<open>LoginResponseStore::save\<close> before and \<open>updateToken\<close> inside \<open>AuthStorage\<close>.\<close>

definition session_object :: "LoginResponseDTO \<Rightarrow> string \<Rightarrow> json" where
  "session_object r password =
     obj_insert ''password'' (JStr password) (obj_insert ''version'' (JNum 1) (login_toJson r))"

definition with_token :: "TokenResponseDto \<Rightarrow> json \<Rightarrow> json option" where
  "with_token t j =
     (if decodeSession j = None then None
      else Some (obj_insert ''refresh_token'' (JStr (new_refresh_token t))
                  (obj_insert ''access_token'' (JStr (new_access_token t)) j)))"

definition session_user :: "LoginResponseDTO \<Rightarrow> string \<Rightarrow> LocalUser" where
  "session_user r password =
     \<lparr>lu_access_token = access_token r, lu_refresh_token = refresh_token r, lu_user_id = user_id (resp_user r),
      lu_username = username (resp_user r), lu_password = password, lu_display_name = display_name (resp_user r),
      lu_jid = jid (resp_xmpp r), lu_host = xmpp_host (resp_xmpp r), lu_port = port (resp_xmpp r)\<rparr>"

section \<open>The expiry of a token\<close>

text \<open>
  The payload is the middle of three parts; \<open>unbase64\<close> decodes it and \<open>parse\<close> reads the JSON.
  The expiry is kept as \<open>qint64\<close> and compared, less 30 seconds, with an unsigned time.
\<close>

definition isTokenExpired :: "(string \<Rightarrow> string) \<Rightarrow> (string \<Rightarrow> json option) \<Rightarrow> 64 word \<Rightarrow> string \<Rightarrow> bool" where
  "isTokenExpired unbase64 parse now token =
     (let parts = split_at CHR ''.'' token
      in if length parts \<noteq> 3 then True
         else case parse (unbase64 (parts ! 1)) of
                Some (JObj kvs) \<Rightarrow>
                  (case obj_value (JObj kvs) ''exp'' of
                     Some (JNum e) \<Rightarrow> (word_of_int e :: 64 word) - 30 \<le> now
                   | _ \<Rightarrow> True)
              | _ \<Rightarrow> True)"

section \<open>Round trips\<close>

lemma obj_insert_object: "\<exists>kvs. obj_insert k v (JObj m) = JObj kvs"
  by (simp add: obj_insert_def)

lemma value_insert: "is_object j \<Longrightarrow> obj_value (obj_insert k v j) k' = (if k' = k then Some v else obj_value j k')"
  by (cases j) (simp_all add: is_object_def obj_value_insert)

lemma is_object_insert [simp]: "is_object (obj_insert k v j) = is_object j"
  by (cases j) (simp_all add: is_object_def obj_insert_def)

lemma to_object_Some [simp]: "is_object j \<Longrightarrow> to_object (Some j) = j"
  by (cases j) (simp_all add: is_object_def to_object_def)

lemma session_string_JStr [simp]: "to_string (Some (JStr s)) = s"
  by (simp add: to_string_def)

lemma is_string_JStr [simp]: "is_string (Some (JStr s))"
  by (simp add: is_string_def)

lemma port_range: "- 2147483648 \<le> uint (p :: 16 word)" "uint p < 65536"
  using order.trans [OF _ uint_ge_0, of "- 2147483648"] uint_lt2p [of p] by simp_all

lemma port_int: "to_int d (Some (JNum (uint (p :: 16 word)))) = uint p"
  using port_range [of p] by (simp add: to_int_def)

interpretation user: json_codec user_toJson user_fromJson "\<lambda>u. True"
  by unfold_locales (simp_all add: user_toJson_def user_fromJson_def value_insert)

interpretation xmpp: json_codec xmpp_toJson xmpp_fromJson "\<lambda>x. True"
  by unfold_locales (simp_all add: xmpp_toJson_def xmpp_fromJson_def value_insert port_int)

interpretation login: json_codec login_toJson login_fromJson "\<lambda>r. True"
  using user.roundtrip user.to_object xmpp.roundtrip xmpp.to_object
  by unfold_locales (simp_all add: login_toJson_def login_fromJson_def)

lemma canonical_insert: "canonical (JObj m) \<Longrightarrow> canonical v \<Longrightarrow> canonical (obj_insert k v (JObj m))"
  using canonical_inserts [of m "[(k, v)]"] by (simp add: obj_insert_def)

lemma login_canonical: "canonical (login_toJson r)"
proof -
  have "canonical (user_toJson u)" for u by (simp add: user_toJson_def obj_insert_def)
  moreover have "- (2 ^ 63) \<le> uint (p :: 16 word) \<and> uint p < 2 ^ 63" for p
    using order.trans [OF _ uint_ge_0, of "- (2 ^ 63)"] port_range [of p] by simp
  then have "canonical (xmpp_toJson x)" for x by (simp add: xmpp_toJson_def obj_insert_def)
  ultimately show ?thesis unfolding login_toJson_def by (intro canonical_object) simp
qed

lemma to_object_is_object [simp]: "is_object (to_object v)"
  by (simp add: to_object_def is_object_def split: option.splits json.splits)

lemma session_decodes: "decodeSession (session_object r pw) = Some (session_user r pw)"
proof -
  have o: "is_object (login_toJson r)" "is_object (user_toJson (resp_user r))" "is_object (xmpp_toJson (resp_xmpp r))"
    by (rule login.to_object user.to_object xmpp.to_object)+
  have v: "obj_value (session_object r pw) k =
      (if k = ''password'' then Some (JStr pw) else if k = ''version'' then Some (JNum 1) else obj_value (login_toJson r) k)" for k
    using o by (simp add: session_object_def value_insert)
  have l: "login_fromJson (session_object r pw) = login_fromJson (login_toJson r)"
    by (simp add: login_fromJson_def v user_fromJson_def xmpp_fromJson_def)
  have lv: "obj_value (login_toJson r) ''access_token'' = Some (JStr (access_token r))"
    "obj_value (login_toJson r) ''refresh_token'' = Some (JStr (refresh_token r))"
    "obj_value (login_toJson r) ''user'' = Some (user_toJson (resp_user r))"
    "obj_value (login_toJson r) ''xmpp'' = Some (xmpp_toJson (resp_xmpp r))"
    by (simp_all add: login_toJson_def)
  have "list_all (\<lambda>k. is_string (obj_value (user_toJson u) k)) [''id'', ''username'', ''display_name'']" for u
    by (simp add: user_toJson_def value_insert)
  moreover have "obj_value (xmpp_toJson x) ''port'' = Some (JNum (uint (port x)))"
    "is_string (obj_value (xmpp_toJson x) ''jid'')" "is_string (obj_value (xmpp_toJson x) ''host'')" for x
    by (simp_all add: xmpp_toJson_def value_insert)
  ultimately show ?thesis
    using port_range [of "port (resp_xmpp r)"] o lv
    by (simp add: decodeSession_def Let_def l login.roundtrip session_user_def v port_int)
      (simp add: to_int_def not_le)
qed

lemma with_token_spec:
  assumes "with_token t j = Some j'"
  shows "\<exists>u. decodeSession j = Some u
    \<and> decodeSession j' = Some (u\<lparr>lu_access_token := new_access_token t, lu_refresh_token := new_refresh_token t\<rparr>)"
proof -
  obtain u where u: "decodeSession j = Some u" using assms by (auto simp: with_token_def split: if_splits)
  then have "is_object j" by (cases j) (auto simp: decodeSession_def Let_def is_string_def is_object_def)
  moreover have "j' = obj_insert ''refresh_token'' (JStr (new_refresh_token t)) (obj_insert ''access_token'' (JStr (new_access_token t)) j)"
    using assms by (simp add: with_token_def split: if_splits)
  ultimately have v: "obj_value j' k = (if k = ''refresh_token'' then Some (JStr (new_refresh_token t))
      else if k = ''access_token'' then Some (JStr (new_access_token t)) else obj_value j k)" for k
    by (simp add: value_insert)
  show ?thesis
    using u by (simp add: decodeSession_def Let_def login_fromJson_def v user_fromJson_def xmpp_fromJson_def split: if_splits) auto
qed

lemma expiry_compare:
  assumes "0 \<le> e" and "e < 2 ^ 63" and "uint (now :: 64 word) < 2 ^ 63"
  shows "(word_of_int e :: 64 word) - 30 \<le> now \<longleftrightarrow> 30 \<le> e \<and> e \<le> uint now + 30"
proof -
  have w: "uint ((word_of_int e :: 64 word) - 30) = (e - 30) mod 2 ^ 64"
  proof -
    have "uint ((word_of_int e :: 64 word) - 30) = uint (word_of_int (e - 30) :: 64 word)" by simp
    also have "\<dots> = (e - 30) mod 2 ^ 64" by (subst uint_word_of_int) simp
    finally show ?thesis .
  qed
  show ?thesis
  proof (cases "30 \<le> e")
    case True
    note w
    also have "(e - 30) mod 2 ^ 64 = e - 30" using True assms(2) by (intro mod_pos_pos_trivial) auto
    finally show ?thesis using True by (auto simp: word_le_def)
  next
    case False
    note w
    also have "(e - 30) mod 2 ^ 64 = (e - 30 + 2 ^ 64) mod 2 ^ 64" by (rule mod_add_self2 [symmetric])
    also have "\<dots> = e - 30 + 2 ^ 64" using False assms(1) by (intro mod_pos_pos_trivial) auto
    finally show ?thesis using False assms(1,3) by (auto simp: word_le_def)
  qed
qed

section \<open>What the program relies on\<close>

text \<open>
  A token with an expiry is held expired from 30 seconds before it on; but an expiry within the
  first 30 seconds of the epoch wraps around to a time that never comes.
\<close>

theorem token_expiry:
  assumes "split_at CHR ''.'' token = [header, payload, signature]"
    and "parse (unbase64 payload) = Some (JObj kvs)" and "map_of kvs ''exp'' = Some (JNum e)"
    and "0 \<le> e" and "e < 2 ^ 63" and "uint now < 2 ^ 63"
  shows "isTokenExpired unbase64 parse now token \<longleftrightarrow> 30 \<le> e \<and> e \<le> uint now + 30"
  using assms expiry_compare [OF assms(4-6)] by (simp add: isTokenExpired_def)

theorem token_expiry_witness:
  "isTokenExpired (\<lambda>s. s) (\<lambda>s. Some (JObj [(''exp'', JNum 1000)])) 980 ''a.b.c''
   \<and> \<not> isTokenExpired (\<lambda>s. s) (\<lambda>s. Some (JObj [(''exp'', JNum 1000)])) 900 ''a.b.c''
   \<and> \<not> isTokenExpired (\<lambda>s. s) (\<lambda>s. Some (JObj [(''exp'', JNum 0)])) 980 ''a.b.c''"
  using token_expiry [of "''a.b.c''" "''a''" "''b''" "''c''" "\<lambda>s. Some (JObj [(''exp'', JNum 1000)])" "\<lambda>s. s" "[(''exp'', JNum 1000)]" 1000 980]
    token_expiry [of "''a.b.c''" "''a''" "''b''" "''c''" "\<lambda>s. Some (JObj [(''exp'', JNum 1000)])" "\<lambda>s. s" "[(''exp'', JNum 1000)]" 1000 900]
    token_expiry [of "''a.b.c''" "''a''" "''b''" "''c''" "\<lambda>s. Some (JObj [(''exp'', JNum 0)])" "\<lambda>s. s" "[(''exp'', JNum 0)]" 0 980]
  by simp

end
