(* ===== verification/Auth_Storage.thy ===== *)
theory Auth_Storage
  imports Session_Dto Caches
begin

text \<open>
  \<open>AuthStorage\<close> (core/storage/auth_storage.cpp): the signed-in session in a snapshot file named
  after the account, and an index file that names the active snapshot; an empty index is the mark
  of a logout. Every failing system call is an outcome of the environment.
\<close>

section \<open>Files and outcomes\<close>

datatype auth_error =
    CannotReadIndex | InvalidActiveName | MissingIdentity | InvalidRecordCount | MissingAuthRecord
  | InvalidAuthJson | IdentityMismatch | CannotMigrate | StoreError storage_error | NameError name_error

text \<open>A file of the directory: plain bytes (the index), or an encrypted store.\<close>

datatype auth_file = Plain string | Stored store

type_synonym auth_files = "string \<rightharpoonup> auth_file"

record auth_env =
  mkpath_ok :: bool
  temp_opens :: bool
  new_store :: "storage_error + store"
  source_opens :: bool
  dest_opens :: bool
  dest_perms :: bool
  copied :: bool
  dest_commits :: bool
  index_reads :: bool
  index_opens :: bool
  index_perms :: bool
  index_written :: bool
  index_commits :: bool
  removable :: "string \<Rightarrow> bool"
  unlocks :: "string \<Rightarrow> storage_error option"

text \<open>HMAC, UTF-16, base 64 and the JSON text.\<close>

record auth_lib =
  name_hmac :: "bytes \<Rightarrow> bytes \<Rightarrow> bytes option"
  utf16 :: "string \<Rightarrow> qstring"
  to_base64 :: "string \<Rightarrow> string"
  print_doc :: "json \<Rightarrow> string"
  parse_doc :: "string \<Rightarrow> json option"

definition kUserTag :: u32 where "kUserTag = 1"

section \<open>Names\<close>

definition ascii :: "bytes \<Rightarrow> string" where
  "ascii bs = map (\<lambda>b. char_of (unat b)) bs"

definition auth_hexName :: "auth_lib \<Rightarrow> string \<Rightarrow> string \<Rightarrow> auth_error + string" where
  "auth_hexName L name secret =
     (case hexName (name_hmac L) (utf16 L name) (utf16 L secret) 32 of
        Inl e \<Rightarrow> Inl (NameError e) | Inr bs \<Rightarrow> Inr (ascii bs))"

definition indexPath :: "auth_lib \<Rightarrow> auth_error + string" where
  "indexPath L = auth_hexName L ''active_auth'' []"

definition accountFileName :: "auth_lib \<Rightarrow> json \<Rightarrow> auth_error + string" where
  "accountFileName L j =
     (let u = to_object (obj_value j ''user'');
          name = to_string (obj_value u ''username''); uid = to_string (obj_value u ''id'')
      in if name = [] \<or> uid = [] then Inl MissingIdentity
         else auth_hexName L name (to_base64 L (uid @ name)))"

definition legacyPaths :: "auth_lib \<Rightarrow> auth_error + string list" where
  "legacyPaths L =
     (case auth_hexName L ''auth'' [] of Inl e \<Rightarrow> Inl e | Inr n \<Rightarrow> Inr [n, ''auth.store'', ''cache''])"

section \<open>The index\<close>

definition lower_hex :: "char \<Rightarrow> bool" where
  "lower_hex c \<longleftrightarrow> (let n = of_char c :: nat in 48 \<le> n \<and> n \<le> 57 \<or> 97 \<le> n \<and> n \<le> 102)"

text \<open>\<open>index.read(33)\<close>; an encrypted store is never a name of 32 digits.\<close>

definition readActiveName :: "auth_lib \<Rightarrow> auth_env \<Rightarrow> auth_files \<Rightarrow> auth_error + string option" where
  "readActiveName L env fs =
     (case indexPath L of
        Inl e \<Rightarrow> Inl e
      | Inr i \<Rightarrow>
          (case fs i of
             None \<Rightarrow> Inr None
           | Some f \<Rightarrow>
               (if \<not> index_reads env then Inl CannotReadIndex
                else case f of
                       Stored _ \<Rightarrow> Inl InvalidActiveName
                     | Plain t \<Rightarrow>
                         (let name = take 33 t
                          in if name \<noteq> [] \<and> (length name \<noteq> 32 \<or> \<not> list_all lower_hex name) then Inl InvalidActiveName
                             else Inr (Some name)))))"

definition writeActiveName :: "auth_lib \<Rightarrow> auth_env \<Rightarrow> string \<Rightarrow> (auth_files, auth_error, bool) op" where
  "writeActiveName L env name fs =
     (if \<not> mkpath_ok env then (Inr False, fs)
      else case indexPath L of
             Inl e \<Rightarrow> (Inl e, fs)
           | Inr i \<Rightarrow>
               (if index_opens env \<and> index_perms env \<and> index_written env \<and> index_commits env
                then (Inr True, fs(i \<mapsto> Plain name)) else (Inr False, fs)))"

section \<open>Snapshots\<close>

definition auth_readSnapshot :: "auth_lib \<Rightarrow> auth_env \<Rightarrow> auth_files \<Rightarrow> string \<Rightarrow> auth_error + json option" where
  "auth_readSnapshot L env fs path =
     (case fs path of
        None \<Rightarrow> Inr None
      | Some (Plain _) \<Rightarrow> Inl (StoreError NotALocalStorageFile)
      | Some (Stored s) \<Rightarrow>
          (case unlocks env path of
             Some e \<Rightarrow> Inl (StoreError e)
           | None \<Rightarrow>
               (case ids s kUserTag of
                  [x] \<Rightarrow>
                    (case store_get s x of
                       Inl e \<Rightarrow> Inl (StoreError e)
                     | Inr None \<Rightarrow> Inl MissingAuthRecord
                     | Inr (Some v) \<Rightarrow>
                         (case parse_doc L (ascii v) of
                            Some (JObj kvs) \<Rightarrow> Inr (Some (JObj kvs))
                          | _ \<Rightarrow> Inl InvalidAuthJson))
                | _ \<Rightarrow> Inl InvalidRecordCount)))"

definition to_utf8 :: "string \<Rightarrow> bytes" where
  "to_utf8 t = map (\<lambda>c. of_nat (of_char c)) t"

text \<open>The complete snapshot is built in a temporary store, then replaces the file in one step.\<close>

definition auth_writeSnapshot :: "auth_lib \<Rightarrow> auth_env \<Rightarrow> string \<Rightarrow> json \<Rightarrow> (auth_files, auth_error, bool) op" where
  "auth_writeSnapshot L env path j fs =
     (if \<not> mkpath_ok env \<or> \<not> temp_opens env then (Inr False, fs)
      else case new_store env of
             Inl e \<Rightarrow> (Inl (StoreError e), fs)
           | Inr s \<Rightarrow>
               (case bind (store_insert (to_utf8 (print_doc L j)) kUserTag) (\<lambda>_. store_sync) s of
                  (Inl e, _) \<Rightarrow> (Inl (StoreError e), fs)
                | (Inr _, t) \<Rightarrow>
                    (if source_opens env \<and> dest_opens env \<and> dest_perms env \<and> copied env \<and> dest_commits env
                     then (Inr True, fs(path \<mapsto> Stored t)) else (Inr False, fs))))"

definition remove_file :: "auth_env \<Rightarrow> string \<Rightarrow> auth_files \<Rightarrow> auth_files" where
  "remove_file env path fs = (if removable env path then fs(path := None) else fs)"

section \<open>Sessions\<close>

text \<open>Once the snapshot is written: the index, then the files no session uses any more.\<close>

definition activate :: "auth_lib \<Rightarrow> auth_env \<Rightarrow> string \<Rightarrow> string option \<Rightarrow> (auth_files, auth_error, bool) op" where
  "activate L env name previous =
     bind (if previous = Some name then ret True else writeActiveName L env name) (\<lambda>active.
       if \<not> active then bind (modify (remove_file env name)) (\<lambda>_. ret False)
       else bind (modify (case previous of
                            Some p \<Rightarrow> if p \<noteq> [] \<and> p \<noteq> name then remove_file env p else id
                          | None \<Rightarrow> id)) (\<lambda>_.
            bind (reads (\<lambda>_. legacyPaths L)) (\<lambda>legacy.
            bind (modify (fold (\<lambda>l. if l \<noteq> name then remove_file env l else id) legacy)) (\<lambda>_.
            ret True))))"

definition writeSession :: "auth_lib \<Rightarrow> auth_env \<Rightarrow> json \<Rightarrow> (auth_files, auth_error, bool) op" where
  "writeSession L env j =
     bind (reads (\<lambda>_. accountFileName L j)) (\<lambda>name.
     bind (reads (\<lambda>fs. Inr (case readActiveName L env fs of Inl _ \<Rightarrow> None | Inr p \<Rightarrow> p))) (\<lambda>previous.
     bind (auth_writeSnapshot L env name j) (\<lambda>ok.
       if \<not> ok then ret False else activate L env name previous)))"

text \<open>The loop of \<open>readSession\<close> over the earlier fixed names.\<close>

fun migrate :: "auth_lib \<Rightarrow> auth_env \<Rightarrow> string list \<Rightarrow> (auth_files, auth_error, json option) op" where
  "migrate L env [] = ret None"
| "migrate L env (l # ls) =
     bind (reads (\<lambda>fs. auth_readSnapshot L env fs l)) (\<lambda>found.
       case found of
         None \<Rightarrow> migrate L env ls
       | Some j \<Rightarrow> bind (writeSession L env j) (\<lambda>ok. if ok then ret (Some j) else throw CannotMigrate))"

definition readSession :: "auth_lib \<Rightarrow> auth_env \<Rightarrow> (auth_files, auth_error, json option) op" where
  "readSession L env =
     bind (reads (readActiveName L env)) (\<lambda>name.
       case name of
         Some n \<Rightarrow>
           (if n = [] then ret None
            else bind (reads (\<lambda>fs. auth_readSnapshot L env fs n)) (\<lambda>found.
                   case found of
                     None \<Rightarrow> ret None
                   | Some j \<Rightarrow>
                       bind (reads (\<lambda>_. accountFileName L j)) (\<lambda>own.
                         if own \<noteq> n then throw IdentityMismatch else ret (Some j))))
       | None \<Rightarrow> bind (reads (\<lambda>_. legacyPaths L)) (migrate L env))"

section \<open>Public operations\<close>

text \<open>Every exception is answered with the failure value.\<close>

definition answer :: "'a \<Rightarrow> (auth_files, auth_error, 'a) op \<Rightarrow> auth_files \<Rightarrow> 'a \<times> auth_files" where
  "answer d m fs = (case m fs of (Inl _, fs') \<Rightarrow> (d, fs') | (Inr x, fs') \<Rightarrow> (x, fs'))"

definition auth_save :: "auth_lib \<Rightarrow> auth_env \<Rightarrow> json \<Rightarrow> auth_files \<Rightarrow> bool \<times> auth_files" where
  "auth_save L env j = answer False (writeSession L env j)"

definition auth_read :: "auth_lib \<Rightarrow> auth_env \<Rightarrow> auth_files \<Rightarrow> json option \<times> auth_files" where
  "auth_read L env = answer None (readSession L env)"

definition auth_clear :: "auth_lib \<Rightarrow> auth_env \<Rightarrow> auth_files \<Rightarrow> bool \<times> auth_files" where
  "auth_clear L env =
     answer False
       (bind (reads (readActiveName L env)) (\<lambda>name.
        bind (writeActiveName L env []) (\<lambda>ok.
          if \<not> ok then ret False
          else bind (modify (case name of
                               Some n \<Rightarrow> if n \<noteq> [] then remove_file env n else id
                             | None \<Rightarrow> id)) (\<lambda>_.
               bind (reads (\<lambda>_. legacyPaths L)) (\<lambda>legacy.
               bind (modify (fold (remove_file env) legacy)) (\<lambda>_. ret True))))))"

text \<open>\<open>modify\<close> answers the changed object, or nothing when it refuses; it reads and writes apart.\<close>

definition auth_update ::
    "auth_lib \<Rightarrow> auth_env \<Rightarrow> auth_env \<Rightarrow> (json \<Rightarrow> json option) \<Rightarrow> auth_files \<Rightarrow> bool \<times> auth_files" where
  "auth_update L env env' change =
     answer False
       (bind (readSession L env) (\<lambda>found.
          case found of
            None \<Rightarrow> ret False
          | Some j \<Rightarrow> (case change j of None \<Rightarrow> ret False | Some j' \<Rightarrow> writeSession L env' j')))"

section \<open>\<open>LoginResponseStore\<close>\<close>

definition session_save :: "auth_lib \<Rightarrow> auth_env \<Rightarrow> LoginResponseDTO \<Rightarrow> string \<Rightarrow> auth_files \<Rightarrow> bool \<times> auth_files" where
  "session_save L env r password = auth_save L env (session_object r password)"

definition getLocalUser :: "auth_lib \<Rightarrow> auth_env \<Rightarrow> auth_files \<Rightarrow> LocalUser option \<times> auth_files" where
  "getLocalUser L env fs =
     (case auth_read L env fs of
        (None, fs') \<Rightarrow> (None, fs') | (Some j, fs') \<Rightarrow> (decodeSession j, fs'))"

definition store_logout :: "auth_lib \<Rightarrow> auth_env \<Rightarrow> auth_files \<Rightarrow> bool \<times> auth_files" where
  "store_logout L env = auth_clear L env"

definition updateToken ::
    "auth_lib \<Rightarrow> auth_env \<Rightarrow> auth_env \<Rightarrow> TokenResponseDto \<Rightarrow> auth_files \<Rightarrow> bool \<times> auth_files" where
  "updateToken L env env' t = auth_update L env env' (with_token t)"

section \<open>Names and removals\<close>

definition lib_ok :: "auth_lib \<Rightarrow> bool" where
  "lib_ok L \<longleftrightarrow> (\<forall>k m. \<exists>mac. name_hmac L k m = Some mac \<and> length mac = 32) \<and> json_text (print_doc L) (parse_doc L)"

lemma ascii_to_utf8 [simp]: "ascii (to_utf8 t) = t"
proof (induction t)
  case (Cons c t)
  have "(of_char c :: nat) < 256" by (rule nat_of_char_less_256)
  then have "unat (of_nat (of_char c) :: byte) = of_char c" by (simp add: unat_of_nat)
  then show ?case using Cons by (simp add: to_utf8_def ascii_def)
qed (simp add: to_utf8_def ascii_def)

lemma auth_hexName_ok:
  assumes "lib_ok L"
  obtains t where "auth_hexName L name secret = Inr t" and "length t = 32" and "list_all lower_hex t"
proof -
  obtain bs where bs: "hexName (name_hmac L) (utf16 L name) (utf16 L secret) 32 = Inr bs" "length bs = 32" "set bs \<subseteq> hex_digits"
    using hexName_spec [of 32 "name_hmac L" "utf16 L name" "utf16 L secret"] assms by (auto simp: lib_ok_def)
  have "lower_hex (char_of (unat b))" if "b \<in> set bs" for b
  proof -
    have "b \<in> {48..57} \<union> {97..102}" using that bs(3) by (auto simp: hex_digits_def)
    then have u: "48 \<le> unat b \<and> unat b \<le> 57 \<or> 97 \<le> unat b \<and> unat b \<le> 102" by (auto simp: word_le_nat_alt)
    then have "unat b < 256" by auto
    then show ?thesis using u by (simp add: lower_hex_def)
  qed
  then have "list_all lower_hex (ascii bs)" by (simp add: ascii_def list_all_iff)
  then show thesis using that bs by (simp add: auth_hexName_def ascii_def)
qed

lemma accountFileName_ok:
  assumes "lib_ok L" and "accountFileName L j = Inr name"
  shows "length name = 32 \<and> list_all lower_hex name"
proof -
  from assms(2) obtain n s where "auth_hexName L n s = Inr name" by (auto simp: accountFileName_def Let_def split: if_splits)
  then show ?thesis using auth_hexName_ok [OF assms(1), of n s] by auto
qed

lemma remove_other: "q \<noteq> p \<Longrightarrow> remove_file env p fs q = fs q"
  by (simp add: remove_file_def)

lemma fold_remove_other:
  "(q \<in> set ls \<Longrightarrow> q = keep) \<Longrightarrow> fold (\<lambda>l. if l \<noteq> keep then remove_file env l else id) ls fs q = fs q"
proof (induction ls arbitrary: fs)
  case (Cons a ls)
  then show ?case by (cases "a = keep") (auto simp: remove_file_def)
qed simp

lemma fold_remove_all_other: "q \<notin> set ls \<Longrightarrow> fold (remove_file env) ls fs q = fs q"
  by (induction ls arbitrary: fs) (auto simp: remove_other)

text \<open>The index, the account's file and the earlier names are different files.\<close>

definition index_apart :: "auth_lib \<Rightarrow> auth_files \<Rightarrow> bool" where
  "index_apart L fs \<longleftrightarrow>
     (case (indexPath L, legacyPaths L) of
        (Inr i, Inr ls) \<Rightarrow> i \<notin> set ls \<and> fs i \<noteq> Some (Plain i) | _ \<Rightarrow> False)"

definition names_apart :: "auth_lib \<Rightarrow> auth_files \<Rightarrow> string \<Rightarrow> bool" where
  "names_apart L fs name \<longleftrightarrow> index_apart L fs
     \<and> indexPath L \<noteq> Inr name \<and> (case legacyPaths L of Inr ls \<Rightarrow> name \<notin> set ls | Inl _ \<Rightarrow> False)"

lemma active_name:
  assumes "readActiveName L env fs = Inr (Some n)" and "indexPath L = Inr i"
  shows "(n = [] \<or> length n = 32 \<and> fs i = Some (Plain n)) \<and> index_reads env"
proof -
  obtain t where t: "fs i = Some (Plain t)" "n = take 33 t" "n \<noteq> [] \<Longrightarrow> length n = 32" "index_reads env"
    using assms by (auto simp: readActiveName_def Let_def split: option.splits if_splits auth_file.splits)
  then have "t = n" if "n \<noteq> []" using that by simp
  then show ?thesis using t by auto
qed


lemma read_active:
  assumes "indexPath L = Inr i" and "fs i = Some (Plain n)" and "length n = 32" and "list_all lower_hex n"
  shows "readActiveName L env fs = (if index_reads env then Inr (Some n) else Inl CannotReadIndex)"
  using assms by (simp add: readActiveName_def Let_def)

section \<open>Writing a session\<close>

text \<open>A snapshot that was written reads back.\<close>

lemma writeSnapshot_done:
  assumes "auth_writeSnapshot L env path j fs = (r, fs')"
    and "lib_ok L" and "canonical j" and "is_object j"
    and new: "\<And>s. new_store env = Inr s \<Longrightarrow> views s Map.empty \<and> fits s (to_utf8 (print_doc L j))"
  shows "if r = Inr True
    then \<exists>t. fs' = fs(path \<mapsto> Stored t)
      \<and> (\<forall>env' gs. gs path = Some (Stored t) \<longrightarrow> unlocks env' path = None \<longrightarrow> auth_readSnapshot L env' gs path = Inr (Some j))
    else fs' = fs"
proof (cases "r = Inr True")
  case False
  then show ?thesis
    using assms(1) by (auto simp: auth_writeSnapshot_def split: if_splits sum.splits prod.splits)
next
  case True
  then obtain s x w y t where s: "new_store env = Inr s"
    and i: "store_insert (to_utf8 (print_doc L j)) kUserTag s = (Inr x, w)" and y: "store_sync w = (Inr y, t)"
    and fs: "fs' = fs(path \<mapsto> Stored t)"
    using assms(1) by (auto simp: auth_writeSnapshot_def bind_def split: if_splits sum.splits prod.splits)
  note vf = new [OF s]
  have vw: "views w [x \<mapsto> (kUserTag, to_utf8 (print_doc L j))]" using ls.ins_law [of s Map.empty] vf i by blast
  have vt: "views t [x \<mapsto> (kUserTag, to_utf8 (print_doc L j))]" using sync_views [OF vw y] by simp
  have tg: "kUserTag \<noteq> kDirTag" by (simp add: kUserTag_def kDirTag_def)
  have "ids t kUserTag = [x]" using ids_views [OF vt tg] by (intro sorted_distinct_singleton) (auto split: if_splits)
  moreover have "store_get t x = Inr (Some (to_utf8 (print_doc L j)))" using ls.get_law [OF vt] by simp
  moreover have "parse_doc L (print_doc L j) = Some j" using assms(2-4) by (auto simp: lib_ok_def json_text_def)
  ultimately show ?thesis
    using fs True assms(4) by (cases j) (auto simp: auth_readSnapshot_def is_object_def)
qed

lemma writeSession_result:
  assumes w: "writeSession L env j fs = (r, fs')" and lib: "lib_ok L"
    and n: "accountFileName L j = Inr name" and ap: "names_apart L fs name" and i: "indexPath L = Inr i"
  obtains q gs where "auth_writeSnapshot L env name j fs = (q, gs)"
    and "q \<noteq> Inr True \<Longrightarrow> r \<noteq> Inr True \<and> fs' = gs"
    and "q = Inr True \<Longrightarrow> r = Inr True \<Longrightarrow> fs' name = gs name
      \<and> fs' i = (if (case readActiveName L env fs of Inr (Some p) \<Rightarrow> p = name | _ \<Rightarrow> False) then gs i else Some (Plain name))"
    and "q = Inr True \<Longrightarrow> r \<noteq> Inr True \<Longrightarrow> fs' = remove_file env name gs
      \<and> \<not> (case readActiveName L env fs of Inr (Some p) \<Rightarrow> p = name | _ \<Rightarrow> False)"
proof -
  define previous where "previous = (case readActiveName L env fs of Inl _ \<Rightarrow> None | Inr p \<Rightarrow> p)"
  obtain q gs where q: "auth_writeSnapshot L env name j fs = (q, gs)" by fastforce
  obtain ls where ls: "legacyPaths L = Inr ls" "i \<noteq> name" "i \<notin> set ls" "name \<notin> set ls" "fs i \<noteq> Some (Plain i)"
    using ap i by (auto simp: names_apart_def index_apart_def split: sum.splits)
  have pi: "p \<noteq> i" if "previous = Some p" "p \<noteq> []" for p
  proof -
    have "readActiveName L env fs = Inr (Some p)" using that(1) by (auto simp: previous_def split: sum.splits)
    then show ?thesis using active_name [OF _ i] that(2) ls(5) by blast
  qed
  have same: "(case readActiveName L env fs of Inr (Some p) \<Rightarrow> p = name | _ \<Rightarrow> False) \<longleftrightarrow> previous = Some name"
    by (auto simp: previous_def split: sum.splits option.splits)
  have run: "writeSession L env j fs = bind (\<lambda>fs. (q, gs)) (\<lambda>ok. if \<not> ok then ret False else activate L env name previous) fs"
    unfolding previous_def using n q by (simp add: writeSession_def bind_def reads_def)
  let ?rest = "\<lambda>hs. fold (\<lambda>l. if l \<noteq> name then remove_file env l else id) ls
      ((case previous of Some p \<Rightarrow> if p \<noteq> [] \<and> p \<noteq> name then remove_file env p else id | None \<Rightarrow> id) hs)"
  have "fold (\<lambda>l. if l \<noteq> name then remove_file env l else id) ls hs i = hs i" for hs
    using ls(3) by (intro fold_remove_other) simp
  then have rest: "?rest hs name = hs name" "?rest hs i = hs i" for hs
    using ls pi by (auto simp: fold_remove_other remove_other split: option.splits)
  show thesis
  proof (cases "q = Inr True")
    case False
    then have "r \<noteq> Inr True \<and> fs' = gs"
      using w run by (cases q) (auto simp: bind_def ret_def)
    with False q that show thesis by blast
  next
    case True
    obtain a hs where a: "(if previous = Some name then ret True else writeActiveName L env name) gs = (Inr a, hs)"
      using i by (fastforce simp: writeActiveName_def ret_def split: if_splits)
    have h: "if a then hs = (if previous = Some name then gs else gs(i \<mapsto> Plain name)) else hs = gs \<and> previous \<noteq> Some name"
      using a i by (auto simp: writeActiveName_def ret_def split: if_splits)
    have "activate L env name previous gs = (if a then (Inr True, ?rest hs) else (Inr False, remove_file env name hs))"
      unfolding activate_def bind_eq_Inr [where m = "if previous = Some name then ret True else writeActiveName L env name"
          and s = gs and x = a and u = hs, OF a]
      by (cases a) (simp_all add: bind_modify bind_reads ls(1) ret_def)
    then have fin: "(r, fs') = (if a then (Inr True, ?rest hs) else (Inr False, remove_file env name gs))"
      using w run True h by (simp split: if_splits)
    show thesis
    proof (rule that [OF q])
      assume "r = Inr True"
      then have "a" "fs' = ?rest hs" using fin by (auto split: if_splits)
      then show "fs' name = gs name
        \<and> fs' i = (if (case readActiveName L env fs of Inr (Some p) \<Rightarrow> p = name | _ \<Rightarrow> False) then gs i else Some (Plain name))"
        using rest [of hs] h ls(2) unfolding same by auto
    next
      assume "r \<noteq> Inr True"
      then show "fs' = remove_file env name gs
          \<and> \<not> (case readActiveName L env fs of Inr (Some p) \<Rightarrow> p = name | _ \<Rightarrow> False)"
        using fin h unfolding same by (auto split: if_splits)
    qed (use True in simp_all)
  qed
qed

lemma save_read:
  assumes lib: "lib_ok L" and c: "canonical j" "is_object j" and n: "accountFileName L j = Inr name" and ap: "names_apart L fs name"
    and new: "\<And>s. new_store env = Inr s \<Longrightarrow> views s Map.empty \<and> fits s (to_utf8 (print_doc L j))"
    and w: "writeSession L env j fs = (Inr True, fs')" and e: "index_reads env'" "unlocks env' name = None"
  shows "auth_read L env' fs' = (Some j, fs')"
proof -
  obtain i where i: "indexPath L = Inr i" "i \<noteq> name" using ap by (auto simp: names_apart_def index_apart_def split: sum.splits)
  obtain q gs where q: "auth_writeSnapshot L env name j fs = (q, gs)"
    and bad: "q \<noteq> Inr True \<Longrightarrow> Inr True \<noteq> (Inr True :: auth_error + bool) \<and> fs' = gs"
    and good: "q = Inr True \<Longrightarrow> fs' name = gs name
      \<and> fs' i = (if (case readActiveName L env fs of Inr (Some p) \<Rightarrow> p = name | _ \<Rightarrow> False) then gs i else Some (Plain name))"
    using writeSession_result [OF w lib n ap i(1)] by metis
  have qT: "q = Inr True" using bad by blast
  from writeSnapshot_done [OF q lib c new] qT obtain t where t: "gs = fs(name \<mapsto> Stored t)"
    and rd: "\<And>env' gs. gs name = Some (Stored t) \<Longrightarrow> unlocks env' name = None \<Longrightarrow> auth_readSnapshot L env' gs name = Inr (Some j)"
    by auto
  have len: "length name = 32 \<and> list_all lower_hex name" by (rule accountFileName_ok [OF lib n])
  then have ne: "name \<noteq> []" by auto
  have "fs i = Some (Plain name)" if "readActiveName L env fs = Inr (Some name)"
    using active_name [OF that i(1)] ne by blast
  then have fi: "fs' i = Some (Plain name)" using good [OF qT] t i(2) by (auto split: sum.splits option.splits)
  have "readActiveName L env' fs' = Inr (Some name)" using read_active [of L i fs' name env'] i(1) fi len e(1) by simp
  moreover have "auth_readSnapshot L env' fs' name = Inr (Some j)" using rd [of fs' env'] good [OF qT] t e(2) by simp
  ultimately show ?thesis
    using n ne by (simp add: auth_read_def answer_def readSession_def bind_def reads_def ret_def)
qed


lemma clear_read:
  assumes ap: "index_apart L fs" and c: "auth_clear L env fs = (True, fs')"
  shows "auth_read L env' fs' = (None, fs')"
proof -
  obtain i ls where i: "indexPath L = Inr i" "legacyPaths L = Inr ls" "i \<notin> set ls" "fs i \<noteq> Some (Plain i)"
    using ap by (auto simp: index_apart_def split: sum.splits)
  obtain name where n: "readActiveName L env fs = Inr name"
    using c by (auto simp: auth_clear_def answer_def bind_def reads_def split: sum.splits)
  have p: "p \<noteq> i" if "name = Some p" "p \<noteq> []" for p
    using active_name [OF n [unfolded that(1)] i(1)] that(2) i(4) by blast
  have "fs' = fold (remove_file env) ls
      ((case name of Some n \<Rightarrow> if n \<noteq> [] then remove_file env n else id | None \<Rightarrow> id) (fs(i \<mapsto> Plain [])))"
    using c n i(1,2)
    by (simp add: auth_clear_def answer_def bind_def reads_def modify_def ret_def writeActiveName_def split: if_splits)
  then have "fs' i = Some (Plain [])"
    using fold_remove_all_other [OF i(3)] p by (auto simp: remove_other split: option.splits)
  then have "readActiveName L env' fs' = (if index_reads env' then Inr (Some []) else Inl CannotReadIndex)"
    using i(1) by (simp add: readActiveName_def)
  then show ?thesis
    by (simp add: auth_read_def answer_def readSession_def bind_def reads_def ret_def)
qed

definition new_store_fits :: "auth_env \<Rightarrow> string \<Rightarrow> bool" where
  "new_store_fits env t \<longleftrightarrow>
     (case new_store env of Inr s \<Rightarrow> views s Map.empty \<and> fits s (to_utf8 t) | Inl _ \<Rightarrow> True)"

lemma new_store_fitsD: "new_store_fits env t \<Longrightarrow> new_store env = Inr s \<Longrightarrow> views s Map.empty \<and> fits s (to_utf8 t)"
  by (simp add: new_store_fits_def)

definition healthy :: "auth_env \<Rightarrow> bool" where
  "healthy env \<longleftrightarrow> mkpath_ok env \<and> temp_opens env \<and> source_opens env \<and> dest_opens env \<and> dest_perms env \<and> copied env
     \<and> dest_commits env \<and> index_opens env \<and> index_perms env \<and> index_written env \<and> index_commits env
     \<and> (case new_store env of Inr s \<Rightarrow> quiet s | Inl _ \<Rightarrow> False)"

lemma save_healthy:
  assumes h: "healthy env" and lib: "lib_ok L" and n: "accountFileName L j = Inr name"
    and f: "new_store_fits env (print_doc L j)"
  shows "\<exists>fs'. writeSession L env j fs = (Inr True, fs')"
proof -
  obtain s where s: "new_store env = Inr s" "quiet s" "views s Map.empty" "fits s (to_utf8 (print_doc L j))"
    using h f by (auto simp: healthy_def new_store_fits_def split: sum.splits)
  have tg: "kUserTag \<noteq> kDirTag" by (simp add: kUserTag_def kDirTag_def)
  obtain x w where i: "store_insert (to_utf8 (print_doc L j)) kUserTag s = (Inr x, w)" "quiet w"
    using insert_quiet [OF s(3,4,2) tg] by blast
  have "views w [x \<mapsto> (kUserTag, to_utf8 (print_doc L j))]" using ls.ins_law [OF s(3,4) i(1)] by simp
  then have "store_sync w = (Inr (), w)" using i(2) by (rule store_sync_quiet)
  then have sn: "auth_writeSnapshot L env name j fs = (Inr True, fs(name \<mapsto> Stored w))"
    using h s(1) i by (simp add: auth_writeSnapshot_def healthy_def bind_def)
  obtain ip where ip: "indexPath L = Inr ip" using auth_hexName_ok [OF lib, of "''active_auth''" "[]"] by (auto simp: indexPath_def)
  obtain l where "auth_hexName L ''auth'' [] = Inr l" using auth_hexName_ok [OF lib, of "''auth''" "[]"] by auto
  then have lp: "legacyPaths L = Inr [l, ''auth.store'', ''cache'']" by (simp add: legacyPaths_def)
  have "\<exists>hs. activate L env name previous gs = (Inr True, hs)" for previous gs
    using h ip lp by (simp add: activate_def writeActiveName_def healthy_def bind_def modify_def reads_def ret_def)
  then show ?thesis using n sn by (simp add: writeSession_def bind_def reads_def)
qed

lemma session_object_canonical: "canonical (session_object r pw) \<and> is_object (session_object r pw)"
proof -
  obtain m where m: "login_toJson r = JObj m" by (simp add: login_toJson_def object_def)
  then have "canonical (JObj m)" using login_canonical [of r] by simp
  moreover have "canonical (JNum 1)" "canonical (JStr pw)" by simp_all
  moreover obtain m' where m': "obj_insert ''version'' (JNum 1) (JObj m) = JObj m'" by (simp add: obj_insert_def)
  ultimately show ?thesis
    using canonical_insert [of m "JNum 1" "''version''"] canonical_insert [of m' "JStr pw" "''password''"] m
    by (simp add: session_object_def)
qed

lemma getLocalUser_read: "auth_read L env fs = (Some j, fs') \<Longrightarrow> getLocalUser L env fs = (decodeSession j, fs')"
  by (simp add: getLocalUser_def)

lemma save_True: "answer False m fs = (True, fs') \<Longrightarrow> m fs = (Inr True, fs')"
  by (auto simp: answer_def split: prod.splits sum.splits)

section \<open>A concrete account\<close>

definition sample_lib :: auth_lib where
  "sample_lib = \<lparr>name_hmac = \<lambda>k m. Some (take 32 (m @ replicate 32 0)), utf16 = map (\<lambda>c. of_nat (of_char c)),
     to_base64 = \<lambda>s. s, print_doc = print_json, parse_doc = parse_json\<rparr>"

definition sample_env :: auth_env where
  "sample_env = \<lparr>mkpath_ok = True, temp_opens = True, new_store = Inr demo_store, source_opens = True, dest_opens = True,
     dest_perms = True, copied = True, dest_commits = True, index_reads = True, index_opens = True, index_perms = True,
     index_written = True, index_commits = True, removable = \<lambda>p. True, unlocks = \<lambda>p. None\<rparr>"

definition sample_response :: LoginResponseDTO where
  "sample_response = \<lparr>access_token = ''a'', refresh_token = ''r'',
     resp_user = \<lparr>user_id = ''7'', username = ''bob'', display_name = ''Bob''\<rparr>,
     resp_xmpp = \<lparr>jid = ''bob@h'', xmpp_host = ''h'', port = 22\<rparr>\<rparr>"

lemma sample_lib_ok: "lib_ok sample_lib"
  using compact_json_text by (simp add: lib_ok_def sample_lib_def min_def)

lemma sample_healthy: "healthy sample_env"
  using demo_quiet by (simp add: healthy_def sample_env_def)

lemma sample_name: "accountFileName sample_lib (session_object sample_response pw) = Inr ''62006f00000000000000000000000000''"
proof -
  have u: "to_object (obj_value (session_object sample_response pw) ''user'') = user_toJson (resp_user sample_response)"
    by (simp add: session_object_def value_insert login_toJson_def user.to_object)
  have "to_string (obj_value (user_toJson (resp_user sample_response)) ''username'') = ''bob''"
    "to_string (obj_value (user_toJson (resp_user sample_response)) ''id'') = ''7''" by code_simp+
  moreover have "auth_hexName sample_lib ''bob'' (to_base64 sample_lib (''7'' @ ''bob'')) = Inr ''62006f00000000000000000000000000''"
    by code_simp
  ultimately show ?thesis unfolding accountFileName_def Let_def u by simp
qed

lemma sample_paths:
  "indexPath sample_lib = Inr ''61006300740069007600650000000000''"
  "legacyPaths sample_lib = Inr [''61007500000000000000000000000000'', ''auth.store'', ''cache'']"
  by code_simp+

lemma sample_apart: "names_apart sample_lib Map.empty ''62006f00000000000000000000000000''"
  by (simp add: names_apart_def index_apart_def sample_paths)

lemma sample_fits: "new_store_fits sample_env (print_doc sample_lib (session_object sample_response ''pw''))"
proof -
  have "length (print_json (session_object sample_response ''pw'')) \<le> 1000" by code_simp
  then have "fits demo_store (to_utf8 (print_json (session_object sample_response ''pw'')))"
    by (intro demo_fits) (simp only: to_utf8_def length_map)
  moreover have "print_doc sample_lib = print_json" "new_store sample_env = Inr demo_store"
    by (simp_all add: sample_lib_def sample_env_def)
  ultimately show ?thesis using demo_views by (simp only: new_store_fits_def sum.case)
qed

lemma sample_saved:
  obtains fs where "session_save sample_lib sample_env sample_response ''pw'' Map.empty = (True, fs)"
  using save_healthy [OF sample_healthy sample_lib_ok sample_name sample_fits, of Map.empty]
  by (auto simp: session_save_def auth_save_def answer_def)

section \<open>What the session storage promises\<close>





text \<open>
  C6: after a logout that answered true no start finds a session, even when the snapshots of the
  account or of earlier versions could not be removed.
\<close>

theorem logout_is_final:
  assumes "index_apart L fs" and "store_logout L env fs = (True, fs')"
  shows "getLocalUser L env' fs' = (None, fs')"
  using clear_read [OF assms(1)] assms(2) by (simp add: store_logout_def getLocalUser_def)

theorem logout_is_final_witness:
  "\<exists>fs. store_logout sample_lib (sample_env\<lparr>removable := \<lambda>p. False\<rparr>) [''auth.store'' \<mapsto> Stored demo_store] = (True, fs)
    \<and> fs ''auth.store'' = Some (Stored demo_store) \<and> getLocalUser sample_lib sample_env fs = (None, fs)"
proof -
  let ?fs = "[''auth.store'' \<mapsto> Stored demo_store]" and ?env = "sample_env\<lparr>removable := \<lambda>p. False\<rparr>"
  have a: "index_apart sample_lib ?fs" by (simp add: index_apart_def sample_paths)
  obtain fs where c: "store_logout sample_lib ?env ?fs = (True, fs)" "fs ''auth.store'' = Some (Stored demo_store)"
    by (simp add: store_logout_def auth_clear_def answer_def bind_def reads_def modify_def ret_def writeActiveName_def
        readActiveName_def sample_paths sample_env_def remove_file_def)
  from logout_is_final [OF a c(1)] c show ?thesis by blast
qed

lemma updateToken_spec:
  assumes "lib_ok L" and "readSession L env fs = (Inr (Some j), fs1)" and "canonical j"
    and "accountFileName L j = Inr name" and "names_apart L fs1 name"
    and "\<And>j'. with_token t j = Some j' \<Longrightarrow> new_store_fits env' (print_doc L j')"
    and "updateToken L env env' t fs = (True, fs')" and "index_reads env''" and "unlocks env'' name = None"
  shows "\<exists>u. decodeSession j = Some u
    \<and> getLocalUser L env'' fs' = (Some (u\<lparr>lu_access_token := new_access_token t, lu_refresh_token := new_refresh_token t\<rparr>), fs')"
proof -
  obtain j' where c: "with_token t j = Some j'" and w: "writeSession L env' j' fs1 = (Inr True, fs')"
    using assms(2,7) by (auto simp: updateToken_def auth_update_def bind_def ret_def dest!: save_True split: option.splits)
  obtain u where u: "decodeSession j = Some u"
    "decodeSession j' = Some (u\<lparr>lu_access_token := new_access_token t, lu_refresh_token := new_refresh_token t\<rparr>)"
    using with_token_spec [OF c] by blast
  obtain m where m: "j = JObj m" using u(1) by (cases j) (auto simp: decodeSession_def Let_def is_string_def)
  have j': "j' = obj_insert ''refresh_token'' (JStr (new_refresh_token t)) (obj_insert ''access_token'' (JStr (new_access_token t)) j)"
    using c by (simp add: with_token_def split: if_splits)
  obtain m' where m': "obj_insert ''access_token'' (JStr (new_access_token t)) (JObj m) = JObj m'" by (simp add: obj_insert_def)
  have "canonical (JObj m')" using canonical_insert [of m "JStr (new_access_token t)" "''access_token''"] assms(3) m m' by simp
  then have "canonical j'" using canonical_insert [of m' "JStr (new_refresh_token t)" "''refresh_token''"] j' m m' by simp
  moreover have "is_object j'" using j' m by simp
  moreover have "accountFileName L j' = Inr name" using assms(4) j' m by (simp add: accountFileName_def value_insert)
  ultimately have "auth_read L env'' fs' = (Some j', fs')"
    using save_read [OF assms(1) _ _ _ assms(5) new_store_fitsD [OF assms(6) [OF c]] w assms(8,9)] by blast
  then show ?thesis using u by (simp add: getLocalUser_read)
qed

lemma updateToken_healthy:
  assumes "readSession L env fs = (Inr (Some j), fs1)" and "with_token t j = Some j'" and "writeSession L env' j' fs1 = (Inr True, fs')"
  shows "updateToken L env env' t fs = (True, fs')"
  using assms by (simp add: updateToken_def auth_update_def answer_def bind_def)

definition sample_token :: TokenResponseDto where
  "sample_token = \<lparr>new_access_token = ''b'', new_refresh_token = ''s''\<rparr>"

lemma sample_updated:
  obtains fs fs' j' where "session_save sample_lib sample_env sample_response ''pw'' Map.empty = (True, fs)"
    and "readSession sample_lib sample_env fs = (Inr (Some (session_object sample_response ''pw'')), fs)"
    and "names_apart sample_lib fs ''62006f00000000000000000000000000''"
    and "with_token sample_token (session_object sample_response ''pw'') = Some j'"
    and "new_store_fits sample_env (print_doc sample_lib j')"
    and "updateToken sample_lib sample_env sample_env sample_token fs = (True, fs')"
proof -
  let ?j = "session_object sample_response ''pw''" and ?t = sample_token
  let ?n = "''62006f00000000000000000000000000''" and ?i = "''61006300740069007600650000000000''"
  obtain fs where s: "session_save sample_lib sample_env sample_response ''pw'' Map.empty = (True, fs)" by (rule sample_saved)
  have w: "writeSession sample_lib sample_env ?j Map.empty = (Inr True, fs)"
    using s by (auto simp: session_save_def auth_save_def dest: save_True)
  have e: "index_reads sample_env" "unlocks sample_env p = None" for p by (simp_all add: sample_env_def)
  have rd: "auth_read sample_lib sample_env fs = (Some ?j, fs)"
    using save_read [OF sample_lib_ok _ _ sample_name sample_apart new_store_fitsD [OF sample_fits] w e] session_object_canonical by blast
  then have rs: "readSession sample_lib sample_env fs = (Inr (Some ?j), fs)"
    by (auto simp: auth_read_def answer_def split: prod.splits sum.splits)
  have "fs ?i \<noteq> Some (Plain ?i)"
  proof
    assume "fs ?i = Some (Plain ?i)"
    moreover have "length ?i = 32" "list_all lower_hex ?i" by code_simp+
    ultimately have "readActiveName sample_lib sample_env fs = Inr (Some ?i)" using read_active [of sample_lib ?i fs ?i] sample_paths e by simp
    then show False using rs \<open>fs ?i = Some (Plain ?i)\<close> by (simp add: readSession_def bind_def reads_def auth_readSnapshot_def)
  qed
  then have ap: "names_apart sample_lib fs ?n" by (simp add: names_apart_def index_apart_def sample_paths)
  obtain j' where j': "with_token ?t ?j = Some j'" by (simp add: with_token_def session_decodes)
  have "length (print_json (the (with_token ?t ?j))) \<le> 1000" by code_simp
  then have "fits demo_store (to_utf8 (print_json j'))" using j' by (intro demo_fits) (simp only: to_utf8_def length_map option.sel)
  moreover have "print_doc sample_lib = print_json" "new_store sample_env = Inr demo_store"
    by (simp_all add: sample_lib_def sample_env_def)
  ultimately have f: "new_store_fits sample_env (print_doc sample_lib j')" using demo_views by (simp only: new_store_fits_def sum.case)
  have "accountFileName sample_lib j' = Inr ?n"
    using j' sample_name [of "''pw''"] session_object_canonical [of sample_response "''pw''"]
    by (auto simp: with_token_def accountFileName_def value_insert split: if_splits)
  then obtain fs' where "writeSession sample_lib sample_env j' fs = (Inr True, fs')"
    using save_healthy [OF sample_healthy sample_lib_ok _ f] by blast
  then have u: "updateToken sample_lib sample_env sample_env ?t fs = (True, fs')" by (rule updateToken_healthy [OF rs j'])
  show thesis by (rule that [OF s rs ap j' f u])
qed

text \<open>
  An update of the tokens that answered true leaves the session of the same user with the new
  tokens and everything else as it was.
\<close>

theorem updateToken_keeps_user:
  assumes "lib_ok L" and "readSession L env fs = (Inr (Some j), fs1)" and "canonical j"
    and "accountFileName L j = Inr name" and "names_apart L fs1 name"
    and "\<And>j'. with_token t j = Some j' \<Longrightarrow> new_store_fits env' (print_doc L j')"
    and "updateToken L env env' t fs = (True, fs')" and "index_reads env''" and "unlocks env'' name = None"
  shows "\<exists>u. decodeSession j = Some u
    \<and> getLocalUser L env'' fs' = (Some (u\<lparr>lu_access_token := new_access_token t, lu_refresh_token := new_refresh_token t\<rparr>), fs')"
  using assms by (rule updateToken_spec)

theorem updateToken_keeps_user_witness:
  "\<exists>fs fs'. session_save sample_lib sample_env sample_response ''pw'' Map.empty = (True, fs)
    \<and> updateToken sample_lib sample_env sample_env sample_token fs = (True, fs')
    \<and> getLocalUser sample_lib sample_env fs' = (Some ((session_user sample_response ''pw'')
        \<lparr>lu_access_token := ''b'', lu_refresh_token := ''s''\<rparr>), fs')"
proof -
  let ?j = "session_object sample_response ''pw''"
  obtain fs fs' j' where s: "session_save sample_lib sample_env sample_response ''pw'' Map.empty = (True, fs)"
    "readSession sample_lib sample_env fs = (Inr (Some ?j), fs)" "names_apart sample_lib fs ''62006f00000000000000000000000000''"
    "with_token sample_token ?j = Some j'" "new_store_fits sample_env (print_doc sample_lib j')"
    "updateToken sample_lib sample_env sample_env sample_token fs = (True, fs')" by (rule sample_updated)
  have e: "index_reads sample_env" "unlocks sample_env p = None" for p by (simp_all add: sample_env_def)
  have "new_store_fits sample_env (print_doc sample_lib k)" if "with_token sample_token ?j = Some k" for k using that s(4,5) by simp
  from updateToken_keeps_user [OF sample_lib_ok s(2) _ sample_name s(3) this s(6) e] session_object_canonical s(1,6)
  show ?thesis by (auto simp: session_decodes sample_token_def)
qed

end
