(* ===== verification/Http_Policy.thy ===== *)
theory Http_Policy
  imports Prelude Complex_Main
begin

text \<open>
  The vocabulary of the HTTP client: methods (core/network/http_method.hpp), errors
  (core/network/network_error.hpp) and the retry policy (core/network/retry_policy.hpp).
\<close>

datatype HttpMethod = Get | Post | Put | Patch | Delete | Head

text \<open>\<open>None\<close> of the C++ enumeration is \<open>NoNetworkError\<close> here.\<close>

datatype NetworkError =
    NoNetworkError | InvalideRequest | InvalideUrl | ConnectionRefused | RemoteHostClose
  | HostNotFound | OperationCancelled | Timeout | SslHandshakeFailed | NetworkSessionFailed
  | TemporaryNetworkFailure | BadRequest | Unauthorized | Forbidden | NotFound | Conflict
  | ValidationFailed | TooManyRequest | InternalServerError | BadGateway | ServiceUnavailable
  | GatewayTimeout | JsonParseError | EmptyResponse | UnknownNetworkError | UnknownHttpError

fun httpMethodToString :: "HttpMethod \<Rightarrow> string" where
  "httpMethodToString Get = ''GET''"
| "httpMethodToString Post = ''POST''"
| "httpMethodToString Put = ''PUT''"
| "httpMethodToString Patch = ''PATCH''"
| "httpMethodToString Delete = ''DELETE''"
| "httpMethodToString Head = ''HEAD''"

fun isIdempotentHttpMethod :: "HttpMethod \<Rightarrow> bool" where
  "isIdempotentHttpMethod Get = True"
| "isIdempotentHttpMethod Put = True"
| "isIdempotentHttpMethod Delete = True"
| "isIdempotentHttpMethod Head = True"
| "isIdempotentHttpMethod Post = False"
| "isIdempotentHttpMethod Patch = False"

fun networkErrorToString :: "NetworkError \<Rightarrow> string" where
  "networkErrorToString NoNetworkError = ''No error''"
| "networkErrorToString InvalideRequest = ''Invalid request''"
| "networkErrorToString InvalideUrl = ''Invalid URL''"
| "networkErrorToString ConnectionRefused = ''Connection refused''"
| "networkErrorToString RemoteHostClose = ''Remote host closed the connection''"
| "networkErrorToString HostNotFound = ''Host not found''"
| "networkErrorToString OperationCancelled = ''Request cancelled''"
| "networkErrorToString Timeout = ''Connection timeout''"
| "networkErrorToString SslHandshakeFailed = ''Ssl handshake failed''"
| "networkErrorToString NetworkSessionFailed = ''Network session failed''"
| "networkErrorToString TemporaryNetworkFailure = ''Temporary network failure''"
| "networkErrorToString BadRequest = ''Bad request''"
| "networkErrorToString Unauthorized = ''Unauthorized''"
| "networkErrorToString Forbidden = ''Forbidden''"
| "networkErrorToString NotFound = ''Not found''"
| "networkErrorToString Conflict = ''Conflict''"
| "networkErrorToString ValidationFailed = ''Validation failed''"
| "networkErrorToString TooManyRequest = ''Too many requests''"
| "networkErrorToString InternalServerError = ''Internal server error''"
| "networkErrorToString BadGateway = ''Bad Gateway''"
| "networkErrorToString ServiceUnavailable = ''Service unavailable''"
| "networkErrorToString GatewayTimeout = ''Gateway timeout''"
| "networkErrorToString JsonParseError = ''Invalid JSON response''"
| "networkErrorToString EmptyResponse = ''Empty response''"
| "networkErrorToString UnknownNetworkError = ''Unknown network error''"
| "networkErrorToString UnknownHttpError = ''Unknown HTTP error''"

section \<open>Retry policy\<close>

text \<open>The back-off multiplier, a \<open>double\<close>, is a rational; the default 2.0 is exact.\<close>

record RetryPolicy =
  maximum_retries :: int
  initial_delay_ms :: int
  maximum_delay_ms :: int
  back_off_mulitplier :: rat
  use_jitter :: bool
  retry_non_idempotent_reqeusts :: bool
  retryable_errors :: "NetworkError set"

definition default_policy :: RetryPolicy where
  "default_policy =
     \<lparr>maximum_retries = 2, initial_delay_ms = 500, maximum_delay_ms = 5000, back_off_mulitplier = 2,
      use_jitter = True, retry_non_idempotent_reqeusts = False,
      retryable_errors = {ConnectionRefused, RemoteHostClose, Timeout, TemporaryNetworkFailure,
        BadGateway, ServiceUnavailable, GatewayTimeout}\<rparr>"

definition shouldRetry :: "RetryPolicy \<Rightarrow> HttpMethod \<Rightarrow> NetworkError \<Rightarrow> int \<Rightarrow> bool" where
  "shouldRetry p meth err completed_retries =
     (if maximum_retries p \<le> completed_retries then False
      else if err \<notin> retryable_errors p then False
      else if \<not> retry_non_idempotent_reqeusts p \<and> \<not> isIdempotentHttpMethod meth then False
      else True)"

fun grow_delay :: "rat \<Rightarrow> nat \<Rightarrow> rat \<Rightarrow> rat" where
  "grow_delay m 0 d = d"
| "grow_delay m (Suc n) d = grow_delay m n (d * m)"

text \<open>
  \<open>static_cast<int>\<close> truncates towards zero; the cast of a value that does not fit an
  \<open>int\<close> is undefined behaviour, here \<open>None\<close>.
\<close>

definition cast_int :: "rat \<Rightarrow> int option" where
  "cast_int d =
     (let n = (if 0 \<le> d then \<lfloor>d\<rfloor> else \<lceil>d\<rceil>)
      in if - (2 ^ 31) \<le> n \<and> n < 2 ^ 31 then Some n else None)"

definition delayForRetry :: "RetryPolicy \<Rightarrow> int \<Rightarrow> int option" where
  "delayForRetry p retry_number =
     (case cast_int (grow_delay (back_off_mulitplier p) (nat retry_number) (of_int (initial_delay_ms p))) of
        None \<Rightarrow> None
      | Some d \<Rightarrow> Some (min d (maximum_delay_ms p)))"

text \<open>\<open>NetworkClient::retryDelay\<close>; \<open>draw\<close> is what \<open>bounded (maximumJitter)\<close> returns.\<close>

definition retryDelay :: "RetryPolicy \<Rightarrow> (int \<Rightarrow> int) \<Rightarrow> int \<Rightarrow> int option" where
  "retryDelay p draw retry_number =
     (case delayForRetry p retry_number of
        None \<Rightarrow> None
      | Some delayMs \<Rightarrow>
          if \<not> use_jitter p then Some delayMs
          else Some (delayMs + draw (max 1 (delayMs div 4))))"

section \<open>Lemmas\<close>

lemma grow_delay_power: "grow_delay m n d = d * m ^ n"
  by (induction n arbitrary: d) (simp_all add: power_commutes mult.assoc)

lemma floor_int_mult_pow: "\<lfloor>(of_int a :: rat) * 2 ^ n\<rfloor> = a * 2 ^ n"
proof -
  have "(of_int a :: rat) * 2 ^ n = of_int (a * 2 ^ n)" by simp
  then show ?thesis by (simp only: floor_of_int)
qed

lemma default_delay:
  assumes "n \<le> 22"
  shows "delayForRetry default_policy (int n) = Some (min (500 * 2 ^ n) 5000)"
proof -
  have "(500 :: int) * 2 ^ n \<le> 500 * 2 ^ 22" using assms by (intro mult_left_mono power_increasing) simp_all
  also have "\<dots> < (2 :: int) ^ 31" by simp
  finally have "(500 :: int) * 2 ^ n < 2 ^ 31" .
  moreover have "\<lfloor>(500 :: rat) * 2 ^ n\<rfloor> = 500 * 2 ^ n" using floor_int_mult_pow [of 500 n] by simp
  moreover have "0 \<le> (500 :: rat) * 2 ^ n" by simp
  moreover have "- (2 ^ 31) \<le> (500 :: int) * 2 ^ n" by (rule order_trans [of _ 0]) simp_all
  ultimately show ?thesis
    by (simp add: delayForRetry_def grow_delay_power default_policy_def cast_int_def Let_def)
qed

text \<open>
  The waiting times of the default policy double from half a second up to the cap, and the
  cast to \<open>int\<close> is defined for up to 22 retries.
\<close>

theorem default_delay_doubles:
  assumes "n \<le> 22"
  shows "delayForRetry default_policy (int n) = Some (min (500 * 2 ^ n) 5000)"
  using assms by (rule default_delay)

theorem default_delay_doubles_witness: "delayForRetry default_policy (int 3) = Some (min (500 * 2 ^ 3) 5000)"
  by (rule default_delay_doubles) simp

text \<open>
  With jitter the wait can exceed \<open>maximum_delay_ms\<close>, by less than a quarter of it (or by
  nothing when the cap is below 4 ms), and without jitter it never does.
\<close>

theorem retryDelay_bounds:
  assumes "0 \<le> maximum_delay_ms p" and "\<And>b. 0 < b \<Longrightarrow> 0 \<le> draw b \<and> draw b < b"
    and "retryDelay p draw n = Some d" and "0 \<le> initial_delay_ms p" and "0 \<le> back_off_mulitplier p"
  shows "0 \<le> d \<and> (if use_jitter p then d < maximum_delay_ms p + max 1 (maximum_delay_ms p div 4) else d \<le> maximum_delay_ms p)"
proof -
  obtain e where e: "delayForRetry p n = Some e" using assms(3) by (auto simp: retryDelay_def split: option.splits)
  let ?M = "max 1 (e div 4)"
  have e0: "0 \<le> e" "e \<le> maximum_delay_ms p"
    using e assms(1,4,5)
    by (auto simp: delayForRetry_def cast_int_def Let_def grow_delay_power split: option.splits if_splits)
  have m: "?M \<le> max 1 (maximum_delay_ms p div 4)"
    using zdiv_mono1 [OF e0(2), of 4] by (intro max.mono) simp_all
  have dr: "0 \<le> draw ?M" "draw ?M < ?M" using assms(2) [of ?M] by (simp_all add: less_max_iff_disj)
  show ?thesis
  proof (cases "use_jitter p")
    case True
    then have "d = e + draw ?M" using assms(3) e by (simp add: retryDelay_def)
    moreover from this have "d < maximum_delay_ms p + max 1 (maximum_delay_ms p div 4)"
      using e0(2) m dr(2) by (rule_tac le_less_trans [of _ "maximum_delay_ms p + draw ?M"]) linarith+
    ultimately show ?thesis using True e0 dr(1) by simp
  next
    case False
    then show ?thesis using assms(3) e e0 by (simp add: retryDelay_def)
  qed
qed

theorem retryDelay_bounds_witness:
  "retryDelay default_policy (\<lambda>b. b - 1) 4 = Some 6249
   \<and> (0 \<le> (6249 :: int) \<and> (if use_jitter default_policy then 6249 < maximum_delay_ms default_policy + max 1 (maximum_delay_ms default_policy div 4)
      else 6249 \<le> maximum_delay_ms default_policy))"
proof -
  have r: "retryDelay default_policy (\<lambda>b. b - 1) 4 = Some 6249"
    using default_delay [of 4] by (simp add: retryDelay_def default_policy_def)
  show ?thesis
    using retryDelay_bounds [of default_policy "\<lambda>b. b - 1" 4 6249] r by (simp add: default_policy_def)
qed

end
