(* ===== verification/Network_Client.thy ===== *)
theory Network_Client
  imports Http_Policy Json
begin

text \<open>
  The HTTP client (core/network/network_client.cpp, network_request.hpp, network_response.hpp,
  auth_interceptor.cpp, network_interceptor.hpp).  A request is sent by the recursion
  \<open>executeAttempt\<close> over a script of what the network does at each attempt; URLs, the parser of
  JSON text and the trimming of header values are parameters.
\<close>

section \<open>Requests and responses\<close>

type_synonym header_map = "string \<rightharpoonup> string"

record 'u url_ops =
  is_relative :: "'u \<Rightarrow> bool"
  resolved :: "'u \<Rightarrow> 'u \<Rightarrow> 'u"
  set_query :: "'u \<Rightarrow> (string \<times> string) list \<Rightarrow> 'u"
  url_ok :: "'u \<Rightarrow> bool"
  scheme :: "'u \<Rightarrow> string"
  host :: "'u \<Rightarrow> string"

record 'u NetworkRequest =
  url :: 'u
  meth :: HttpMethod
  body :: string
  headers :: header_map
  query :: "(string \<times> string) list"
  timeout_ms :: int
  parse_json_response :: bool
  requires_authentication :: bool
  retry_policy :: RetryPolicy
  request_id :: string
  operation_name :: string

definition new_request :: "'u \<Rightarrow> 'u NetworkRequest" where
  "new_request u =
     \<lparr>url = u, meth = Get, body = [], headers = Map.empty, query = [], timeout_ms = 30000,
      parse_json_response = True, requires_authentication = True, retry_policy = default_policy,
      request_id = [], operation_name = []\<rparr>"

definition setJsonBody :: "(json \<Rightarrow> string) \<Rightarrow> json \<Rightarrow> 'u NetworkRequest \<Rightarrow> 'u NetworkRequest" where
  "setJsonBody show_json j r =
     r\<lparr>body := show_json j, headers := (headers r)(''Content-Type'' \<mapsto> ''application/json'')\<rparr>"

definition addHeader :: "string \<Rightarrow> string \<Rightarrow> 'u NetworkRequest \<Rightarrow> 'u NetworkRequest" where
  "addHeader n v r = r\<lparr>headers := (headers r)(n \<mapsto> v)\<rparr>"

definition addQueryItem :: "string \<Rightarrow> string \<Rightarrow> 'u NetworkRequest \<Rightarrow> 'u NetworkRequest" where
  "addQueryItem n v r = r\<lparr>query := query r @ [(n, v)]\<rparr>"

definition resolvedUrl :: "'u url_ops \<Rightarrow> 'u NetworkRequest \<Rightarrow> 'u" where
  "resolvedUrl u r = (if query r \<noteq> [] then set_query u (url r) (query r) else url r)"

definition isValid :: "'u url_ops \<Rightarrow> 'u NetworkRequest \<Rightarrow> bool" where
  "isValid u r \<longleftrightarrow>
     url_ok u (resolvedUrl u r) \<and> scheme u (resolvedUrl u r) \<noteq> [] \<and> host u (resolvedUrl u r) \<noteq> []"

record 'u NetworkResponse =
  status_code :: int
  rbody :: string
  rjson :: "json option"
  rheaders :: header_map
  err :: NetworkError
  error_message :: string
  request_url :: 'u
  response_id :: string
  attempt_count :: int
  duration_ms :: int

definition new_response :: "'u \<Rightarrow> string \<Rightarrow> 'u NetworkResponse" where
  "new_response u i =
     \<lparr>status_code = 0, rbody = [], rjson = None, rheaders = Map.empty, err = NoNetworkError,
      error_message = [], request_url = u, response_id = i, attempt_count = 1, duration_ms = 0\<rparr>"

definition isSuccess :: "'u NetworkResponse \<Rightarrow> bool" where
  "isSuccess r \<longleftrightarrow> err r = NoNetworkError \<and> 200 \<le> status_code r \<and> status_code r < 300"

definition hasError :: "'u NetworkResponse \<Rightarrow> bool" where
  "hasError r \<longleftrightarrow> \<not> isSuccess r"

definition jsonObject :: "'u NetworkResponse \<Rightarrow> json" where
  "jsonObject r = (case rjson r of Some (JObj kvs) \<Rightarrow> JObj kvs | _ \<Rightarrow> JObj [])"

definition jsonArray :: "'u NetworkResponse \<Rightarrow> json" where
  "jsonArray r = (case rjson r of Some (JArr xs) \<Rightarrow> JArr xs | _ \<Rightarrow> JArr [])"

section \<open>Interceptors\<close>

record 'u interceptor =
  interceptRequest :: "'u NetworkRequest \<Rightarrow> 'u NetworkRequest"
  interceptorResponse :: "'u NetworkRequest \<Rightarrow> 'u NetworkResponse \<Rightarrow> 'u NetworkResponse"

text \<open>A null pointer is not added.\<close>

definition addInterceptor :: "'u interceptor option \<Rightarrow> 'u interceptor list \<Rightarrow> 'u interceptor list" where
  "addInterceptor i is = (case i of None \<Rightarrow> is | Some x \<Rightarrow> is @ [x])"

fun applyRequestInterceptors :: "'u interceptor list \<Rightarrow> 'u NetworkRequest \<Rightarrow> 'u NetworkRequest" where
  "applyRequestInterceptors [] r = r"
| "applyRequestInterceptors (i # is) r = applyRequestInterceptors is (interceptRequest i r)"

definition applyResponseInterceptors ::
    "'u interceptor list \<Rightarrow> 'u NetworkRequest \<Rightarrow> 'u NetworkResponse \<Rightarrow> 'u NetworkResponse" where
  "applyResponseInterceptors is q r = fold (\<lambda>i. interceptorResponse i q) (rev is) r"

text \<open>\<open>AuthInterceptor::interceptRequest\<close>; \<open>provider\<close> is the token provider if there is one.\<close>

definition auth_request ::
    "(string \<Rightarrow> string) \<Rightarrow> string option \<Rightarrow> 'u NetworkRequest \<Rightarrow> 'u NetworkRequest" where
  "auth_request trimmed provider r =
     (if \<not> requires_authentication r then r
      else case provider of
             None \<Rightarrow> r
           | Some tok \<Rightarrow>
               if trimmed tok = [] then r
               else r\<lparr>headers := (headers r)(''Authorization'' \<mapsto> ''Bearer '' @ trimmed tok)\<rparr>)"

text \<open>\<open>LoggingInterceptor::redactedHeaderValue\<close>.\<close>

definition redactedHeaderValue :: "(string \<Rightarrow> string) \<Rightarrow> string set \<Rightarrow> string \<Rightarrow> string \<Rightarrow> string" where
  "redactedHeaderValue lower sensitive n v = (if lower n \<in> sensitive then ''<redacted>'' else v)"

section \<open>Replies\<close>

text \<open>\<open>QNetworkReply::NetworkError\<close>; the values the program does not name are \<open>OtherReplyError\<close>.\<close>

datatype reply_error =
    NoReplyError | ConnectionRefusedError | RemoteHostClosedError | HostNotFoundError | TimeoutError
  | OperationCanceledError | SslHandshakeFailedError | TemporaryNetworkFailureError
  | NetworkSessionFailedError | OtherReplyError

record reply =
  r_error :: reply_error
  r_status :: "int option"
  r_headers :: "(string \<times> string) list"
  r_body :: string
  r_error_string :: string
  r_elapsed :: int
  r_timed_out :: bool

fun mapNetworkError :: "reply_error \<Rightarrow> int option \<Rightarrow> NetworkError" where
  "mapNetworkError NoReplyError st = NoNetworkError"
| "mapNetworkError ConnectionRefusedError st = ConnectionRefused"
| "mapNetworkError RemoteHostClosedError st = RemoteHostClose"
| "mapNetworkError HostNotFoundError st = HostNotFound"
| "mapNetworkError TimeoutError st = Timeout"
| "mapNetworkError OperationCanceledError st = OperationCancelled"
| "mapNetworkError SslHandshakeFailedError st = SslHandshakeFailed"
| "mapNetworkError TemporaryNetworkFailureError st = TemporaryNetworkFailure"
| "mapNetworkError NetworkSessionFailedError st = NetworkSessionFailed"
| "mapNetworkError OtherReplyError st = (if st \<noteq> None then NoNetworkError else UnknownNetworkError)"

definition mapHttpStatus :: "int \<Rightarrow> NetworkError" where
  "mapHttpStatus c =
     (if 200 \<le> c \<and> c < 300 then NoNetworkError
      else if c = 0 then UnknownNetworkError
      else if c = 400 then BadRequest
      else if c = 401 then Unauthorized
      else if c = 403 then Forbidden
      else if c = 404 then NotFound
      else if c = 409 then Conflict
      else if c = 422 then ValidationFailed
      else if c = 429 then TooManyRequest
      else if c = 500 then InternalServerError
      else if c = 502 then BadGateway
      else if c = 503 then ServiceUnavailable
      else if c = 504 then GatewayTimeout
      else if 500 \<le> c then InternalServerError
      else if 400 \<le> c then UnknownHttpError
      else NoNetworkError)"

text \<open>
  The text functions: \<open>parse_text\<close> is \<open>QJsonDocument::fromJson\<close> (with the parser's error
  message), \<open>trimmed\<close> is \<open>QByteArray::trimmed\<close>.
\<close>

record text_ops =
  parse_text :: "string \<Rightarrow> string + json"
  trimmed :: "string \<Rightarrow> string"

definition response_message :: "text_ops \<Rightarrow> NetworkError \<Rightarrow> reply \<Rightarrow> string" where
  "response_message tx e rep =
     (let backend = (case parse_text tx (r_body rep) of
                       Inr j \<Rightarrow> to_string (obj_value j ''message'') | Inl _ \<Rightarrow> []);
          m = (if backend \<noteq> [] then backend else r_error_string rep)
      in if m = [] then networkErrorToString e else m)"

definition createResponse ::
    "'u url_ops \<Rightarrow> text_ops \<Rightarrow> 'u NetworkRequest \<Rightarrow> reply \<Rightarrow> int \<Rightarrow> 'u NetworkResponse" where
  "createResponse u tx q rep attempts =
     (let status = (case r_status rep of Some c \<Rightarrow> c | None \<Rightarrow> 0);
          e0 = mapNetworkError (r_error rep) (r_status rep);
          e = (if e0 = NoNetworkError then mapHttpStatus status else e0);
          r = (new_response (resolvedUrl u q) (request_id q))
                \<lparr>rbody := r_body rep, duration_ms := r_elapsed rep, attempt_count := attempts,
                 status_code := status, rheaders := map_of (rev (r_headers rep)), err := e,
                 error_message := (if e \<noteq> NoNetworkError then response_message tx e rep else [])\<rparr>
      in if parse_json_response q \<and> trimmed tx (r_body rep) \<noteq> [] then
           (case parse_text tx (r_body rep) of
              Inr j \<Rightarrow> r\<lparr>rjson := Some j\<rparr>
            | Inl msg \<Rightarrow>
                if err r = NoNetworkError then r\<lparr>err := JsonParseError, error_message := msg\<rparr> else r)
         else r)"

section \<open>Sending\<close>

text \<open>The request handed to Qt: URL, the fixed headers and the request's own on top.\<close>

definition buildQtRequest :: "'u url_ops \<Rightarrow> 'u NetworkRequest \<Rightarrow> 'u \<times> header_map" where
  "buildQtRequest u q =
     (resolvedUrl u q, [''User-Agent'' \<mapsto> ''Qt-Desktop'', ''Accept'' \<mapsto> ''application/json''] ++ headers q)"

datatype verb = SendGet | SendPost string | SendPut string | SendCustom string string | SendDelete | SendHead

definition dispatch_verb :: "'u NetworkRequest \<Rightarrow> verb" where
  "dispatch_verb q =
     (case meth q of
        Get \<Rightarrow> SendGet
      | Post \<Rightarrow> SendPost (body q)
      | Put \<Rightarrow> SendPut (body q)
      | Patch \<Rightarrow> SendCustom ''PATCH'' (body q)
      | Delete \<Rightarrow> if body q = [] then SendDelete else SendCustom ''DELETE'' (body q)
      | Head \<Rightarrow> SendHead)"

record 'u request_context =
  request :: "'u NetworkRequest"
  complete_retries :: int
  attempts :: int

text \<open>
  What happens at one attempt: whether the future is cancelled when it starts, the reply (none
  when Qt gives no reply object), whether it is cancelled when the reply has finished, and the
  jitter drawn for the next wait.
\<close>

record attempt =
  a_cancelled :: bool
  a_reply :: "reply option"
  a_elapsed :: int
  a_cancelled_after :: bool
  a_draw :: "int \<Rightarrow> int"

datatype 'u event = Dispatch verb 'u header_map | Started string 'u | FinishedSignal string 'u int | Wait int

datatype 'u outcome =
    Delivered "'u NetworkResponse"
  | FinishedEmpty
  | InFlight "'u request_context"
  | Undefined

definition no_reply_response :: "'u url_ops \<Rightarrow> 'u request_context \<Rightarrow> int \<Rightarrow> 'u NetworkResponse" where
  "no_reply_response u c elapsed =
     (new_response (resolvedUrl u (request c)) (request_id (request c)))
       \<lparr>attempt_count := attempts c, duration_ms := elapsed, err := InvalideRequest,
        error_message := ''Unable to dispatch network request''\<rparr>"

definition finished_response :: "'u url_ops \<Rightarrow> text_ops \<Rightarrow> 'u request_context \<Rightarrow> reply \<Rightarrow> 'u NetworkResponse" where
  "finished_response u tx c rep =
     (let r = createResponse u tx (request c) rep (attempts c)
      in if r_timed_out rep then r\<lparr>err := Timeout, error_message := ''The request exceeded its timeout''\<rparr> else r)"

text \<open>
  The script ending while an attempt or a retry timer is pending is \<open>InFlight\<close>;
  \<open>Undefined\<close> is the undefined conversion in \<open>delayForRetry\<close>.
\<close>

fun executeAttempt ::
    "'u url_ops \<Rightarrow> text_ops \<Rightarrow> 'u interceptor list \<Rightarrow> 'u request_context \<Rightarrow> attempt list \<Rightarrow> 'u event list \<times> 'u outcome" where
  "executeAttempt u tx is c [] = ([], InFlight c)"
| "executeAttempt u tx is c (a # script) =
     (if a_cancelled a then ([], FinishedEmpty)
      else
        (let c = c\<lparr>attempts := attempts c + 1\<rparr>;
             q = request c;
             (qu, qh) = buildQtRequest u q;
             d = Dispatch (dispatch_verb q) qu qh
         in case a_reply a of
              None \<Rightarrow> ([d], Delivered (applyResponseInterceptors is q (no_reply_response u c (a_elapsed a))))
            | Some rep \<Rightarrow>
                (let r = finished_response u tx c rep;
                     evs = [d, Started (request_id q) (resolvedUrl u q),
                            FinishedSignal (response_id r) (request_url r) (status_code r)]
                 in if shouldRetry (retry_policy q) (meth q) (err r) (complete_retries c) \<and> \<not> a_cancelled_after a
                    then
                      (case retryDelay (retry_policy q) (a_draw a) (complete_retries c) of
                         None \<Rightarrow> (evs, Undefined)
                       | Some ms \<Rightarrow>
                           (let (evs', out) = executeAttempt u tx is (c\<lparr>complete_retries := complete_retries c + 1\<rparr>) script
                            in (evs @ Wait ms # evs', out)))
                    else (evs, Delivered (applyResponseInterceptors is q r)))))"

record 'u client =
  m_baseUrl :: 'u
  m_interceptor :: "'u interceptor list"

definition resolveUrl :: "'u url_ops \<Rightarrow> 'u client \<Rightarrow> 'u \<Rightarrow> 'u" where
  "resolveUrl u cl x = (if is_relative u x then resolved u (m_baseUrl cl) x else x)"

text \<open>\<open>send\<close>; \<open>new_id\<close> is the UUID \<open>createRequestId\<close> gives.\<close>

definition prepare :: "'u url_ops \<Rightarrow> 'u client \<Rightarrow> string \<Rightarrow> 'u NetworkRequest \<Rightarrow> 'u NetworkRequest" where
  "prepare u cl new_id q =
     (let q = q\<lparr>url := resolveUrl u cl (url q)\<rparr>;
          q = (if request_id q = [] then q\<lparr>request_id := new_id\<rparr> else q)
      in applyRequestInterceptors (m_interceptor cl) q)"

definition send ::
    "'u url_ops \<Rightarrow> text_ops \<Rightarrow> 'u client \<Rightarrow> string \<Rightarrow> 'u NetworkRequest \<Rightarrow> attempt list \<Rightarrow> 'u event list \<times> 'u outcome" where
  "send u tx cl new_id q script =
     (let q = prepare u cl new_id q
      in if \<not> isValid u q then
           ([], Delivered (applyResponseInterceptors (m_interceptor cl) q
                  ((new_response (url q) (request_id q))
                     \<lparr>err := InvalideUrl, error_message := ''The request URL is invalid''\<rparr>)))
         else executeAttempt u tx (m_interceptor cl) \<lparr>request = q, complete_retries = 0, attempts = 0\<rparr> script)"

definition client_get ::
    "('u \<Rightarrow> int \<Rightarrow> (string \<times> string) list \<Rightarrow> 'u NetworkRequest)" where
  "client_get path retry q =
     (let r = (new_request path)\<lparr>meth := Get, query := q\<rparr>
      in r\<lparr>retry_policy := (retry_policy r)\<lparr>maximum_retries := max 0 retry\<rparr>\<rparr>)"

definition client_post :: "(json \<Rightarrow> string) \<Rightarrow> 'u \<Rightarrow> json \<Rightarrow> 'u NetworkRequest" where
  "client_post sj path j = setJsonBody sj j ((new_request path)\<lparr>meth := Post\<rparr>)"

definition client_put :: "(json \<Rightarrow> string) \<Rightarrow> 'u \<Rightarrow> json \<Rightarrow> 'u NetworkRequest" where
  "client_put sj path j = setJsonBody sj j ((new_request path)\<lparr>meth := Put\<rparr>)"

definition client_patch :: "(json \<Rightarrow> string) \<Rightarrow> 'u \<Rightarrow> json \<Rightarrow> 'u NetworkRequest" where
  "client_patch sj path j = setJsonBody sj j ((new_request path)\<lparr>meth := Patch\<rparr>)"

definition client_delete :: "'u \<Rightarrow> 'u NetworkRequest" where
  "client_delete path = (new_request path)\<lparr>meth := Delete\<rparr>"

end
