(* ===== verification/Send_Queue.thy ===== *)
theory Send_Queue
  imports Message_Dto
begin

text \<open>
  Sending of \<open>MessageRepositoryImpl\<close> (features/chat/data/repository/message_repository_impl.cpp) and
  \<open>UploadCancellation\<close> (features/chat/domain/repository/upload_cancellation.hpp): messages and uploads
  wait in one queue, one at a time is under way, and an upload can be cancelled until its message is
  handed to the connection. A future of the program is a phase that ends by an input; a queue entry
  is known by the number of its promise.
\<close>

section \<open>Cancellation\<close>

record cancellation =
  canceled :: bool
  committed :: bool

definition new_cancellation :: cancellation where
  "new_cancellation = \<lparr>canceled = False, committed = False\<rparr>"

text \<open>The cancelers of tracked futures run in \<open>cancel\<close> only; here their effect is the caller's.\<close>

definition cancel_upload :: "cancellation \<Rightarrow> bool \<times> cancellation" where
  "cancel_upload c = (if committed c \<or> canceled c then (False, c) else (True, c\<lparr>canceled := True\<rparr>))"

definition tryCommit :: "cancellation \<Rightarrow> bool \<times> cancellation" where
  "tryCommit c = (if canceled c then (False, c) else (True, c\<lparr>committed := True\<rparr>))"

section \<open>State\<close>

text \<open>A payload of the domain has, beside the fields of the DTO, two that never leave the device.\<close>

record Payload = PayloadDto +
  is_mine :: bool
  localpath :: string

definition payload_toDto :: "Payload \<Rightarrow> PayloadDto" where
  "payload_toDto p = \<lparr>message_id = message_id p, payload_sender = payload_sender p, receiver_id = receiver_id p,
     reply_message_id = reply_message_id p, timestamp = timestamp p, payload_content = payload_content p,
     attachment_batch_id = attachment_batch_id p, attachment_index = attachment_index p\<rparr>"

definition pending_item :: "Payload \<Rightarrow> MessageItemDto" where
  "pending_item p = \<lparr>item_id = message_id p, sender_id = payload_sender p, recipient_id = receiver_id p,
     item_body = payload_toDto p, sent_at = []\<rparr>"

record upload_task =
  task_id :: string
  task_path :: string
  task_cancel :: nat

record entry =
  en_promise :: nat
  en_message :: Payload
  en_task :: "string option"
  en_cancel :: "nat option"

datatype send_outcome = Result string | Canceled | Exception

datatype phase = Preparing | Uploading Payload | Sending Payload | Ended send_outcome

datatype send_effect =
    MessageSent MessageItemDto
  | FileUploadStarted string string
  | CompressImage string string string
  | SaveVoice string string
  | Upload string string
  | MessageUpdated MessageItemDto string
  | SaveLocalPath string string
  | XmppSend nat string string string
  | SaveMessage string string
  | SendFinished string string
  | FileUploadCanceled string

text \<open>
  \<open>running\<close> is the entry for which \<open>m_processing\<close> is set; \<open>wakes\<close> counts the calls of
  \<open>nextProcess\<close> that are queued; \<open>cancels\<close> is the heap of cancellation objects, which the caller of
  \<open>sendFiles\<close> may share; \<open>results\<close> are the promises that were finished.
\<close>

record sender =
  uploadTasks :: "string \<Rightarrow> upload_task option"
  cancels :: "nat \<Rightarrow> cancellation"
  next_cancel :: nat
  queue :: "entry list"
  running :: "(entry \<times> phase) option"
  wakes :: nat
  is_online :: bool
  next_promise :: nat
  results :: "(nat \<times> send_outcome) list"

definition new_sender :: sender where
  "new_sender = \<lparr>uploadTasks = (\<lambda>_. None), cancels = (\<lambda>_. new_cancellation), next_cancel = 0, queue = [], running = None,
     wakes = 0, is_online = False, next_promise = 0, results = []\<rparr>"

text \<open>What the library and the file system answer.\<close>

record send_env =
  to_json :: "PayloadDto \<Rightarrow> string"
  local_file :: "string \<Rightarrow> string"
  is_cache :: "string \<Rightarrow> bool"
  cache_size :: "string \<Rightarrow> int"
  size_of :: "string \<Rightarrow> int"
  voice_path :: "string \<Rightarrow> string \<Rightarrow> string \<Rightarrow> string"
  suffix_of :: "string \<Rightarrow> string"
  voice_saved :: bool
  url_valid :: "string \<Rightarrow> bool"
  start_throws :: bool

section \<open>Steps of one entry\<close>

definition with_content :: "(ContentDto \<Rightarrow> ContentDto) \<Rightarrow> Payload \<Rightarrow> Payload" where
  "with_content f p = p\<lparr>payload_content := f (payload_content p)\<rparr>"

definition is_canceled :: "sender \<Rightarrow> entry \<Rightarrow> bool" where
  "is_canceled s e = (case en_cancel e of None \<Rightarrow> False | Some c \<Rightarrow> canceled (cancels s c))"

definition sendMessageNow :: "send_env \<Rightarrow> nat \<Rightarrow> Payload \<Rightarrow> send_effect list \<times> phase" where
  "sendMessageNow E n p = ([XmppSend n (receiver_id p) (to_json E (payload_toDto p)) (message_id p)], Sending p)"

text \<open>The continuation of the prepared path.\<close>

definition upload_prepared :: "send_env \<Rightarrow> string \<Rightarrow> entry \<Rightarrow> sender \<Rightarrow> send_effect list \<times> phase \<times> sender" where
  "upload_prepared E path e s =
     (case en_task e of
        None \<Rightarrow> ([], Ended Exception, s)
      | Some i \<Rightarrow>
          (if is_canceled s e then ([], Ended Canceled, s)
           else if path = [] then ([], Ended (Result ''Could not compress image. No message was sent.''), s)
           else
             (let s = s\<lparr>uploadTasks := (uploadTasks s)(i := map_option (\<lambda>t. t\<lparr>task_path := path\<rparr>) (uploadTasks s i))\<rparr>;
                  m = en_message e; l = local_file E path
              in if is_cache E l
                 then ([Upload i path], Uploading (with_content (\<lambda>c. c\<lparr>fileSize := cache_size E l\<rparr>) m), s)
                 else
                   (let m = with_content (\<lambda>c. c\<lparr>fileSize := size_of E l\<rparr>) m
                    in if c_type (payload_content m) = Voice
                       then
                         (let cached = voice_path E (message_id m) (suffix_of E l) (payload_sender m)
                          in if \<not> voice_saved E
                             then ([SaveVoice cached l], Ended (Result ''Unable to cache voice recording.''), s)
                             else ([SaveVoice cached l, Upload i path], Uploading (m\<lparr>localpath := cached\<rparr>), s))
                       else ([Upload i path], Uploading m, s)))))"

definition start_entry :: "send_env \<Rightarrow> entry \<Rightarrow> sender \<Rightarrow> send_effect list \<times> phase \<times> sender" where
  "start_entry E e s =
     (case en_task e of
        None \<Rightarrow> (case sendMessageNow E (en_promise e) (en_message e) of (es, ph) \<Rightarrow> (es, ph, s))
      | Some i \<Rightarrow>
          (let path = (case uploadTasks s i of None \<Rightarrow> [] | Some t \<Rightarrow> task_path t); m = en_message e
           in if c_type (payload_content m) = Image
              then ([CompressImage path (message_id m @ ''-0'') (payload_sender m)], Preparing, s)
              else upload_prepared E path e s))"

text \<open>The continuation of the upload: the message is committed and sent.\<close>

definition upload_finished ::
    "send_env \<Rightarrow> string \<Rightarrow> string \<Rightarrow> entry \<Rightarrow> Payload \<Rightarrow> sender \<Rightarrow> send_effect list \<times> phase \<times> sender" where
  "upload_finished E err url e m s =
     (if err \<noteq> [] then ([], Ended (Result err), s)
      else if \<not> url_valid E url \<or> url = [] then ([], Ended (Result ''File upload returned an invalid URL.''), s)
      else
        (let c = (case en_cancel e of None \<Rightarrow> 0 | Some c \<Rightarrow> c); (ok, x) = tryCommit (cancels s c)
         in if \<not> ok then ([], Ended Canceled, s)
            else
              (let s = s\<lparr>cancels := (cancels s)(c := x)\<rparr>;
                   path = (case en_task e of None \<Rightarrow> [] | Some i \<Rightarrow>
                            (case uploadTasks s i of None \<Rightarrow> [] | Some t \<Rightarrow> task_path t));
                   saved = (if c_type (payload_content m) = File then [SaveLocalPath url (local_file E path)] else []);
                   m = with_content (\<lambda>c. c\<lparr>media_url := url\<rparr>) m;
                   (es, ph) = sendMessageNow E (en_promise e) m
               in (saved @ [MessageUpdated (pending_item m) (localpath m)] @ es, ph, s))))"

section \<open>The queue\<close>

definition drop_task :: "entry \<Rightarrow> sender \<Rightarrow> sender" where
  "drop_task e s = (case en_task e of None \<Rightarrow> s | Some i \<Rightarrow> s\<lparr>uploadTasks := (uploadTasks s)(i := None)\<rparr>)"

definition finish_promise :: "entry \<Rightarrow> send_outcome \<Rightarrow> sender \<Rightarrow> sender" where
  "finish_promise e r s = s\<lparr>results := results s @ [(en_promise e, if is_canceled s e then Canceled else r)]\<rparr>"

text \<open>The loop that skips cancelled entries.\<close>

fun skip_canceled :: "entry list \<Rightarrow> sender \<Rightarrow> sender" where
  "skip_canceled [] s = s\<lparr>queue := []\<rparr>"
| "skip_canceled (e # es) s =
     (if is_canceled s e then skip_canceled es (finish_promise e Canceled (drop_task e s)) else s\<lparr>queue := e # es\<rparr>)"

definition nextProcess :: "send_env \<Rightarrow> sender \<Rightarrow> send_effect list \<times> sender" where
  "nextProcess E s =
     (if running s \<noteq> None \<or> queue s = [] then ([], s)
      else
        (let s = skip_canceled (queue s) s
         in case queue s of
              [] \<Rightarrow> ([], s)
            | e # es \<Rightarrow>
                (if \<not> is_online s then ([], s)
                 else if start_throws E
                 then ([], (drop_task e (finish_promise e Exception (s\<lparr>queue := es\<rparr>)))\<lparr>wakes := wakes s + 1\<rparr>)
                 else (let (fs, ph, t) = start_entry E e (s\<lparr>queue := es\<rparr>)
                       in (fs, t\<lparr>running := Some (e, ph)\<rparr>)))))"

definition enqueue ::
    "send_env \<Rightarrow> Payload \<Rightarrow> string option \<Rightarrow> nat option \<Rightarrow> sender \<Rightarrow> send_effect list \<times> sender" where
  "enqueue E m task c s =
     nextProcess E (s\<lparr>queue := queue s @ [\<lparr>en_promise = next_promise s, en_message = m, en_task = task, en_cancel = c\<rparr>],
                      next_promise := next_promise s + 1\<rparr>)"

text \<open>The watcher of the running entry.\<close>

definition watcher_finished :: "send_env \<Rightarrow> sender \<Rightarrow> send_effect list \<times> sender" where
  "watcher_finished E s =
     (case running s of
        Some (e, Ended r) \<Rightarrow> nextProcess E ((drop_task e (finish_promise e r s))\<lparr>running := None\<rparr>)
      | _ \<Rightarrow> ([], s))"

section \<open>Operations\<close>

record file_facts =
  readable_file :: bool
  plain_name :: string
  byte_size :: int

text \<open>The future of a call: an outcome that is there at once, or the promise of a queue entry.\<close>

definition sendMessage :: "send_env \<Rightarrow> Payload \<Rightarrow> sender \<Rightarrow> send_effect list \<times> (send_outcome + nat) \<times> sender" where
  "sendMessage E p s =
     (let (es, t) = enqueue E p None None s in (MessageSent (pending_item p) # es, Inr (next_promise s), t))"

definition sendSticker :: "send_env \<Rightarrow> Payload \<Rightarrow> sender \<Rightarrow> send_effect list \<times> (send_outcome + nat) \<times> sender" where
  "sendSticker E p s =
     (let (es, t) = enqueue E p None None s in (MessageSent (pending_item p) # es, Inr (next_promise s), t))"

definition sendFiles ::
    "send_env \<Rightarrow> file_facts \<Rightarrow> string \<Rightarrow> string \<Rightarrow> nat option \<Rightarrow> Payload \<Rightarrow> sender \<Rightarrow>
     send_effect list \<times> (send_outcome + nat) \<times> sender" where
  "sendFiles E info i url c p s =
     (if (case c of None \<Rightarrow> False | Some c \<Rightarrow> canceled (cancels s c)) then ([], Inl Canceled, s)
      else if uploadTasks s i \<noteq> None then ([], Inl (Result ''File upload is already queued or in progress.''), s)
      else if \<not> readable_file info then ([], Inl (Result ''File is missing, empty, or unreadable.''), s)
      else
        (let m = with_content (\<lambda>x. x\<lparr>file_name := plain_name info, fileSize := byte_size info\<rparr>) p;
             (c, s) = (case c of Some c \<Rightarrow> (c, s)
                       | None \<Rightarrow> (next_cancel s, s\<lparr>cancels := (cancels s)(next_cancel s := new_cancellation), next_cancel := next_cancel s + 1\<rparr>));
             s = s\<lparr>uploadTasks := (uploadTasks s)(i \<mapsto> \<lparr>task_id = i, task_path = url, task_cancel = c\<rparr>)\<rparr>;
             (es, t) = enqueue E m (Some i) (Some c) s
         in ([MessageSent (pending_item m), FileUploadStarted i url] @ es, Inr (next_promise s), t)))"

definition sendVoice ::
    "send_env \<Rightarrow> file_facts \<Rightarrow> string \<Rightarrow> Payload \<Rightarrow> sender \<Rightarrow> send_effect list \<times> (send_outcome + nat) \<times> sender" where
  "sendVoice E info url p s = sendFiles E info (message_id p) url None p s"

definition sendImage ::
    "send_env \<Rightarrow> (string \<times> string \<times> file_facts) list \<Rightarrow> nat option \<Rightarrow> Payload \<Rightarrow> sender \<Rightarrow>
     send_effect list \<times> (send_outcome + nat) \<times> sender" where
  "sendImage E atts c p s =
     (case atts of
        [(i, url, info)] \<Rightarrow> sendFiles E info i url c p s
      | _ \<Rightarrow> ([], Inl (Result ''Image files and message content do not match.''), s))"

text \<open>\<open>sendFile\<close> of a payload and a file does nothing and reports success.\<close>

definition sendFile :: "Payload \<Rightarrow> string \<Rightarrow> sender \<Rightarrow> send_effect list \<times> (send_outcome + nat) \<times> sender" where
  "sendFile p url s = ([], Inl (Result []), s)"

text \<open>
  A cancellation that succeeds cancels the futures tracked by it: the preparation or the upload
  that is running ends as cancelled, its continuations do not run.
\<close>

definition cancel_ref :: "nat \<Rightarrow> sender \<Rightarrow> bool \<times> sender" where
  "cancel_ref c s =
     (let (ok, x) = cancel_upload (cancels s c)
      in if \<not> ok then (False, s)
         else (True, s\<lparr>cancels := (cancels s)(c := x),
                  running := (case running s of
                     Some (e, ph) \<Rightarrow>
                       (if en_cancel e = Some c \<and> (ph = Preparing \<or> (case ph of Uploading _ \<Rightarrow> True | _ \<Rightarrow> False))
                        then Some (e, Ended Canceled) else Some (e, ph))
                   | None \<Rightarrow> None)\<rparr>))"

definition cancelFileUpload :: "string \<Rightarrow> sender \<Rightarrow> send_effect list \<times> bool \<times> sender" where
  "cancelFileUpload i s =
     (case uploadTasks s i of
        None \<Rightarrow> ([], False, s)
      | Some t \<Rightarrow> (let (ok, s) = cancel_ref (task_cancel t) s in (if ok then [FileUploadCanceled i] else [], ok, s)))"

section \<open>Inputs\<close>

datatype send_input =
    SendText Payload
  | SendUpload file_facts string string "nat option" Payload
  | NewCancellation
  | CancelRef nat
  | CancelUpload string
  | SetOnline bool
  | CompressDone string
  | UploadDone string string
  | SendDone string
  | FutureLost send_outcome
  | WatcherFires
  | WakeUp

definition on_compressed :: "send_env \<Rightarrow> string \<Rightarrow> sender \<Rightarrow> send_effect list \<times> sender" where
  "on_compressed E path s =
     (case running s of
        Some (e, Preparing) \<Rightarrow> (let (es, ph, t) = upload_prepared E path e s in (es, t\<lparr>running := Some (e, ph)\<rparr>))
      | _ \<Rightarrow> ([], s))"

definition on_uploaded :: "send_env \<Rightarrow> string \<Rightarrow> string \<Rightarrow> sender \<Rightarrow> send_effect list \<times> sender" where
  "on_uploaded E err url s =
     (case running s of
        Some (e, Uploading m) \<Rightarrow> (let (es, ph, t) = upload_finished E err url e m s in (es, t\<lparr>running := Some (e, ph)\<rparr>))
      | _ \<Rightarrow> ([], s))"

definition on_sent :: "send_env \<Rightarrow> string \<Rightarrow> sender \<Rightarrow> send_effect list \<times> sender" where
  "on_sent E err s =
     (case running s of
        Some (e, Sending m) \<Rightarrow>
          ((if err = [] then [SaveMessage (receiver_id m) (to_json E (payload_toDto m))] else []) @ [SendFinished (message_id m) err],
           s\<lparr>running := Some (e, Ended (Result err))\<rparr>)
      | _ \<Rightarrow> ([], s))"

text \<open>A future that is cancelled from outside or ends with an exception ends the entry.\<close>

definition on_lost :: "send_outcome \<Rightarrow> sender \<Rightarrow> send_effect list \<times> sender" where
  "on_lost r s =
     (case running s of
        Some (e, Ended q) \<Rightarrow> ([], s)
      | Some (e, ph) \<Rightarrow> ([], s\<lparr>running := Some (e, Ended (case r of Result _ \<Rightarrow> Exception | _ \<Rightarrow> r))\<rparr>)
      | None \<Rightarrow> ([], s))"

fun send_step :: "send_env \<Rightarrow> send_input \<Rightarrow> sender \<Rightarrow> send_effect list \<times> sender" where
  "send_step E (SendText p) s = (case sendMessage E p s of (es, _, t) \<Rightarrow> (es, t))"
| "send_step E (SendUpload info i url c p) s =
     (if (case c of None \<Rightarrow> True | Some c \<Rightarrow> c < next_cancel s)
      then (case sendFiles E info i url c p s of (es, _, t) \<Rightarrow> (es, t)) else ([], s))"
| "send_step E NewCancellation s =
     ([], s\<lparr>cancels := (cancels s)(next_cancel s := new_cancellation), next_cancel := next_cancel s + 1\<rparr>)"
| "send_step E (CancelRef c) s = (if c < next_cancel s then ([], snd (cancel_ref c s)) else ([], s))"
| "send_step E (CancelUpload i) s = (case cancelFileUpload i s of (es, _, t) \<Rightarrow> (es, t))"
| "send_step E (SetOnline b) s = nextProcess E (s\<lparr>is_online := b\<rparr>)"
| "send_step E (CompressDone path) s = on_compressed E path s"
| "send_step E (UploadDone err url) s = on_uploaded E err url s"
| "send_step E (SendDone err) s = on_sent E err s"
| "send_step E (FutureLost r) s = on_lost r s"
| "send_step E WatcherFires s = watcher_finished E s"
| "send_step E WakeUp s = (if wakes s = 0 then ([], s) else nextProcess E (s\<lparr>wakes := wakes s - 1\<rparr>))"

inductive send_run :: "send_effect list \<Rightarrow> sender \<Rightarrow> bool" where
  idle: "send_run [] new_sender"
| progress: "send_run es s \<Longrightarrow> send_step E i s = (fs, t) \<Longrightarrow> send_run (es @ fs) t"

end
