(* ===== verification/Send_Invariant.thy ===== *)
theory Send_Invariant
  imports Send_Queue
begin

text \<open>
  The invariant of the send queue: every promise is finished once, the table of uploads holds
  exactly the uploads that wait or run, nothing is both cancelled and committed, and no entry waits
  without something that will start it.
\<close>

definition entries :: "sender \<Rightarrow> entry list" where
  "entries s = (case running s of None \<Rightarrow> [] | Some (e, ph) \<Rightarrow> [e]) @ queue s"

text \<open>Promises: those of the entries are open, in the order of the queue; the others are finished.\<close>

definition accounts :: "entry list \<Rightarrow> sender \<Rightarrow> bool" where
  "accounts es s \<longleftrightarrow> sorted_wrt (<) (map en_promise es) \<and> distinct (map fst (results s))
     \<and> set (map fst (results s)) \<inter> set (map en_promise es) = {}
     \<and> set (map fst (results s)) \<union> set (map en_promise es) = {..<next_promise s}"

text \<open>Uploads: a table entry for each, with the cancellation the queue entry has.\<close>

definition own_task :: "(string \<Rightarrow> upload_task option) \<Rightarrow> entry \<Rightarrow> bool" where
  "own_task T e \<longleftrightarrow>
     (case en_task e of None \<Rightarrow> en_cancel e = None
      | Some i \<Rightarrow> (\<exists>t. T i = Some t \<and> task_id t = i \<and> en_cancel e = Some (task_cancel t)))"

definition tracked :: "entry list \<Rightarrow> sender \<Rightarrow> bool" where
  "tracked es s \<longleftrightarrow> (\<forall>e \<in> set es. own_task (uploadTasks s) e)
     \<and> distinct (List.map_filter en_task es)
     \<and> (\<forall>i. uploadTasks s i \<noteq> None \<longrightarrow> Some i \<in> en_task ` set es)"

definition exclusive :: "sender \<Rightarrow> bool" where
  "exclusive s \<longleftrightarrow> (\<forall>c. \<not> (canceled (cancels s c) \<and> committed (cancels s c)))"

text \<open>The running entry: an upload while its file is prepared or uploaded, committed once it is sent.\<close>

definition phase_ok :: "sender \<Rightarrow> entry \<Rightarrow> phase \<Rightarrow> bool" where
  "phase_ok s e ph \<longleftrightarrow>
     (case ph of
        Preparing \<Rightarrow> en_task e \<noteq> None
      | Uploading m \<Rightarrow> en_task e \<noteq> None
      | Sending m \<Rightarrow> (\<forall>c. en_cancel e = Some c \<longrightarrow> committed (cancels s c))
      | Ended r \<Rightarrow> True)"

definition stays_awake :: "sender \<Rightarrow> bool" where
  "stays_awake s \<longleftrightarrow> (is_online s \<and> queue s \<noteq> [] \<longrightarrow> running s \<noteq> None \<or> 0 < wakes s)"

definition send_ok :: "sender \<Rightarrow> bool" where
  "send_ok s \<longleftrightarrow> accounts (entries s) s \<and> tracked (entries s) s \<and> exclusive s
     \<and> (\<forall>e ph. running s = Some (e, ph) \<longrightarrow> phase_ok s e ph) \<and> stays_awake s"

section \<open>Finishing an entry\<close>

lemma accounts_finish: "accounts (e # es) s \<Longrightarrow> accounts es (finish_promise e r s)"
  by (auto simp: accounts_def finish_promise_def)

lemma accounts_same: "accounts es s \<Longrightarrow> results t = results s \<Longrightarrow> next_promise t = next_promise s \<Longrightarrow> accounts es t"
  by (simp add: accounts_def)

lemma map_filter_Cons: "List.map_filter f (x # xs) = (case f x of None \<Rightarrow> [] | Some y \<Rightarrow> [y]) @ List.map_filter f xs"
  by (simp add: List.map_filter_def split: option.splits)

lemma set_map_filter: "set (List.map_filter f xs) = {y. \<exists>x \<in> set xs. f x = Some y}"
  by (force simp: List.map_filter_def)

lemma tracked_drop: "tracked (e # es) s \<Longrightarrow> tracked es (drop_task e s)"
proof (cases "en_task e")
  case (Some i)
  assume t: "tracked (e # es) s"
  then have i: "\<forall>x \<in> set es. en_task x \<noteq> Some i" "distinct (List.map_filter en_task es)"
    using Some by (auto simp: tracked_def map_filter_Cons set_map_filter)
  have "own_task ((uploadTasks s)(i := None)) x" if "x \<in> set es" for x
    using t i(1) that unfolding tracked_def own_task_def by (cases "en_task x") auto
  moreover have "\<forall>j. ((uploadTasks s)(i := None)) j \<noteq> None \<longrightarrow> Some j \<in> en_task ` set es"
    using t Some by (auto simp: tracked_def image_iff)
  ultimately show ?thesis using i(2) Some by (simp add: tracked_def drop_task_def)
qed (auto simp: tracked_def drop_task_def map_filter_Cons)

lemma tracked_same: "tracked es s \<Longrightarrow> uploadTasks t = uploadTasks s \<Longrightarrow> tracked es t"
  by (simp add: tracked_def)

lemma drop_task_fields [simp]:
  "results (drop_task e s) = results s" "next_promise (drop_task e s) = next_promise s" "cancels (drop_task e s) = cancels s"
  "queue (drop_task e s) = queue s" "running (drop_task e s) = running s" "wakes (drop_task e s) = wakes s"
  "is_online (drop_task e s) = is_online s" "next_cancel (drop_task e s) = next_cancel s"
  by (simp_all add: drop_task_def split: option.splits)

lemma finish_fields [simp]:
  "uploadTasks (finish_promise e r s) = uploadTasks s" "next_promise (finish_promise e r s) = next_promise s"
  "cancels (finish_promise e r s) = cancels s" "queue (finish_promise e r s) = queue s"
  "running (finish_promise e r s) = running s" "wakes (finish_promise e r s) = wakes s"
  "is_online (finish_promise e r s) = is_online s" "next_cancel (finish_promise e r s) = next_cancel s"
  by (simp_all add: finish_promise_def)

lemma is_canceled_same: "cancels t = cancels s \<Longrightarrow> is_canceled t e = is_canceled s e"
  unfolding is_canceled_def by (cases "en_cancel e") simp_all

lemma retire:
  "accounts (e # es) s \<Longrightarrow> tracked (e # es) s \<Longrightarrow>
    accounts es (drop_task e (finish_promise e r s)) \<and> tracked es (drop_task e (finish_promise e r s))"
  using accounts_same [OF accounts_finish [of e es s r]] tracked_drop [OF tracked_same, of e es s "finish_promise e r s"] by auto

lemma retire':
  "accounts (e # es) s \<Longrightarrow> tracked (e # es) s \<Longrightarrow>
    accounts es (finish_promise e r (drop_task e s)) \<and> tracked es (finish_promise e r (drop_task e s))"
  using accounts_finish [OF accounts_same, of e es s "drop_task e s" r] tracked_same [OF tracked_drop, of e es s] by auto

lemma skip_ok:
  "accounts es s \<Longrightarrow> tracked es s \<Longrightarrow>
    accounts (queue (skip_canceled es s)) (skip_canceled es s) \<and> tracked (queue (skip_canceled es s)) (skip_canceled es s)"
proof (induction es arbitrary: s)
  case Nil
  then show ?case by (auto intro: accounts_same tracked_same)
next
  case (Cons e es)
  show ?case
  proof (cases "is_canceled s e")
    case True
    then show ?thesis using Cons.IH retire' [OF Cons.prems] by simp
  next
    case False
    then show ?thesis using Cons.prems by (auto intro: accounts_same tracked_same)
  qed
qed

lemma skip_fields:
  "cancels (skip_canceled es s) = cancels s \<and> running (skip_canceled es s) = running s \<and> wakes (skip_canceled es s) = wakes s
    \<and> is_online (skip_canceled es s) = is_online s \<and> next_promise (skip_canceled es s) = next_promise s
    \<and> next_cancel (skip_canceled es s) = next_cancel s \<and> queue (skip_canceled es s) = dropWhile (is_canceled s) es"
proof (induction es arbitrary: s)
  case (Cons e es)
  have "is_canceled (finish_promise e Canceled (drop_task e s)) = is_canceled s" by (rule ext, rule is_canceled_same) simp
  then show ?case using Cons.IH by simp
qed simp

section \<open>Starting an entry\<close>

text \<open>Only paths of tasks change.\<close>

definition same_tasks :: "sender \<Rightarrow> sender \<Rightarrow> bool" where
  "same_tasks s t \<longleftrightarrow> (\<forall>i. map_option (\<lambda>x. (task_id x, task_cancel x)) (uploadTasks t i)
     = map_option (\<lambda>x. (task_id x, task_cancel x)) (uploadTasks s i))"

lemma tracked_tasks: "tracked es s \<Longrightarrow> same_tasks s t \<Longrightarrow> tracked es t"
proof -
  assume tr: "tracked es s" and st: "same_tasks s t"
  have i: "map_option (\<lambda>x. (task_id x, task_cancel x)) (uploadTasks t i)
      = map_option (\<lambda>x. (task_id x, task_cancel x)) (uploadTasks s i)" for i
    using st by (simp add: same_tasks_def)
  have h: "\<exists>y. uploadTasks t j = Some y \<and> task_id y = task_id x \<and> task_cancel y = task_cancel x"
    if "uploadTasks s j = Some x" for j x
    using i [of j] that by (cases "uploadTasks t j") simp_all
  have "own_task (uploadTasks t) e" if "own_task (uploadTasks s) e" for e
    using that h unfolding own_task_def by (cases "en_task e") (fastforce dest: h)+
  moreover have "uploadTasks t j \<noteq> None \<longleftrightarrow> uploadTasks s j \<noteq> None" for j
    using i [of j] by (cases "uploadTasks t j"; cases "uploadTasks s j") simp_all
  ultimately show ?thesis using tr by (auto simp: tracked_def)
qed

definition same_rest :: "sender \<Rightarrow> sender \<Rightarrow> bool" where
  "same_rest s t \<longleftrightarrow> same_tasks s t \<and> t = s\<lparr>uploadTasks := uploadTasks t\<rparr>"

lemma same_rest_fields:
  "same_rest s t \<Longrightarrow> cancels t = cancels s \<and> queue t = queue s \<and> running t = running s \<and> wakes t = wakes s
    \<and> is_online t = is_online s \<and> next_promise t = next_promise s \<and> results t = results s \<and> next_cancel t = next_cancel s"
proof -
  assume "same_rest s t"
  then obtain T where "t = s\<lparr>uploadTasks := T\<rparr>" by (auto simp: same_rest_def)
  then show ?thesis by simp
qed

lemma prepared_rest:
  assumes "upload_prepared E path e s = (fs, ph, t)"
  shows "same_rest s t \<and> ((\<exists>m. ph = Uploading m) \<and> en_task e \<noteq> None \<or> (\<exists>r. ph = Ended r))"
proof (cases "en_task e")
  case (Some i)
  have "same_rest s (s\<lparr>uploadTasks := (uploadTasks s)(i := map_option (\<lambda>t. t\<lparr>task_path := path\<rparr>) (uploadTasks s i))\<rparr>)"
    by (simp add: same_rest_def same_tasks_def option.map_comp comp_def)
  moreover have "same_rest s s" by (simp add: same_rest_def same_tasks_def)
  ultimately show ?thesis using assms Some by (auto simp: upload_prepared_def Let_def split: if_splits)
qed (use assms in \<open>auto simp: upload_prepared_def same_rest_def same_tasks_def\<close>)

lemma start_rest:
  assumes "start_entry E e s = (fs, ph, t)" and "own_task (uploadTasks s) e"
  shows "same_rest s t \<and> phase_ok t e ph"
proof (cases "en_task e")
  case None
  then have "en_cancel e = None" using assms(2) by (simp add: own_task_def)
  then show ?thesis using assms(1) None
    by (auto simp: start_entry_def sendMessageNow_def phase_ok_def same_rest_def same_tasks_def)
next
  case (Some i)
  show ?thesis
  proof (cases "c_type (payload_content (en_message e)) = Image")
    case True
    then show ?thesis using assms(1) Some by (auto simp: start_entry_def Let_def phase_ok_def same_rest_def same_tasks_def)
  next
    case False
    then obtain path where "upload_prepared E path e s = (fs, ph, t)"
      using assms(1) Some by (auto simp: start_entry_def Let_def)
    from prepared_rest [OF this] show ?thesis by (auto simp: phase_ok_def)
  qed
qed

text \<open>Everything but the promise to wake up.\<close>

definition sound :: "sender \<Rightarrow> bool" where
  "sound s \<longleftrightarrow> accounts (entries s) s \<and> tracked (entries s) s \<and> exclusive s
     \<and> (\<forall>e ph. running s = Some (e, ph) \<longrightarrow> phase_ok s e ph)"

lemma send_ok_sound: "send_ok s \<longleftrightarrow> sound s \<and> stays_awake s"
  by (auto simp: send_ok_def sound_def)

lemma next_ok:
  assumes "sound s" and "nextProcess E s = (fs, t)"
  shows "send_ok t"
proof (cases "running s \<noteq> None \<or> queue s = []")
  case True
  then show ?thesis using assms by (auto simp: nextProcess_def send_ok_sound stays_awake_def)
next
  case False
  let ?k = "skip_canceled (queue s) s"
  have rn: "running s = None" using False by blast
  then have en: "entries s = queue s" by (simp add: entries_def)
  have k: "accounts (queue ?k) ?k" "tracked (queue ?k) ?k"
    using skip_ok [of "queue s" s] assms(1) en by (auto simp: sound_def)
  have kf: "cancels ?k = cancels s" "running ?k = None" "wakes ?k = wakes s" "is_online ?k = is_online s"
    using skip_fields [of "queue s" s] rn by auto
  have ex: "exclusive s" using assms(1) by (simp add: sound_def)
  have quiet: "sound ?k" using k kf ex by (simp add: sound_def entries_def exclusive_def)
  show ?thesis
  proof (cases "queue ?k")
    case Nil
    then have "t = ?k" using assms(2) False by (auto simp: nextProcess_def Let_def)
    then show ?thesis using quiet Nil by (simp add: send_ok_sound stays_awake_def)
  next
    case (Cons e es)
    let ?q = "?k\<lparr>queue := es\<rparr>"
    have q: "accounts (e # es) ?q" "tracked (e # es) ?q" using k Cons by (auto intro: accounts_same tracked_same)
    show ?thesis
    proof (cases "is_online ?k \<and> \<not> start_throws E")
      case True
      obtain ph u where st: "start_entry E e ?q = (fs, ph, u)" and t: "t = u\<lparr>running := Some (e, ph)\<rparr>"
        using assms(2) False Cons True by (auto simp: nextProcess_def Let_def split: prod.splits)
      have "own_task (uploadTasks ?q) e" using q(2) by (simp add: tracked_def)
      from start_rest [OF st this] have r: "same_rest ?q u" "phase_ok u e ph" by auto
      note f = same_rest_fields [OF r(1)]
      have "entries t = e # es" using t f by (simp add: entries_def)
      moreover have "accounts (e # es) t" using accounts_same [OF q(1), of t] f t by simp
      moreover have "tracked (e # es) t"
        using tracked_same [OF tracked_tasks [OF q(2), of u], of t] r(1) t by (simp add: same_rest_def)
      moreover have "phase_ok t e ph" using r(2) t by (auto simp: phase_ok_def split: phase.splits)
      ultimately show ?thesis using t f kf ex by (auto simp: send_ok_def exclusive_def stays_awake_def)
    next
      case False2: False
      show ?thesis
      proof (cases "is_online ?k")
        case False
        then have "t = ?k" using assms(2) False2 \<open>\<not> (running s \<noteq> None \<or> queue s = [])\<close> Cons
          by (auto simp: nextProcess_def Let_def)
        then show ?thesis using quiet False by (simp add: send_ok_sound stays_awake_def)
      next
        case True
        then have t: "t = (drop_task e (finish_promise e Exception ?q))\<lparr>wakes := wakes ?k + 1\<rparr>"
          using assms(2) False2 False Cons by (auto simp: nextProcess_def Let_def)
        from retire [OF q, of Exception] have "accounts es t" "tracked es t"
          using t by (auto intro: accounts_same tracked_same)
        then show ?thesis using t kf ex by (simp add: send_ok_def entries_def exclusive_def stays_awake_def)
      qed
    qed
  qed
qed

lemma watcher_ok:
  assumes "send_ok s" and "watcher_finished E s = (fs, t)"
  shows "send_ok t"
proof (cases "\<exists>e r. running s = Some (e, Ended r)")
  case True
  then obtain e r where r: "running s = Some (e, Ended r)" by blast
  let ?u = "(drop_task e (finish_promise e r s))\<lparr>running := None\<rparr>"
  have e: "entries s = e # queue s" "entries ?u = queue s" using r by (simp_all add: entries_def)
  from retire [of e "queue s" s r] assms(1) e have "accounts (queue s) ?u" "tracked (queue s) ?u"
    by (auto simp: send_ok_def intro: accounts_same tracked_same)
  then have "sound ?u" using assms(1) e by (simp add: sound_def send_ok_def exclusive_def)
  then show ?thesis using next_ok assms(2) r by (simp add: watcher_finished_def)
next
  case False
  then have "t = s" using assms(2) by (auto simp: watcher_finished_def split: option.splits prod.splits phase.splits)
  then show ?thesis using assms(1) by simp
qed

section \<open>Every input keeps the invariant\<close>

lemma phase_same: "phase_ok s e ph \<Longrightarrow> cancels t = cancels s \<Longrightarrow> phase_ok t e ph"
  by (cases ph) (simp_all add: phase_ok_def)

lemma enqueue_ok:
  assumes s: "send_ok s" and c: "own_task (uploadTasks t) \<lparr>en_promise = next_promise s, en_message = m, en_task = tk, en_cancel = cn\<rparr>"
    and t: "queue t = queue s" "running t = running s" "next_promise t = next_promise s" "results t = results s"
    and tr: "tracked (entries s @ [\<lparr>en_promise = next_promise s, en_message = m, en_task = tk, en_cancel = cn\<rparr>]) t"
    and ex: "exclusive t" and ph: "\<And>e ph. running s = Some (e, ph) \<Longrightarrow> phase_ok t e ph"
    and en: "enqueue E m tk cn t = (fs, u)"
  shows "send_ok u"
proof -
  let ?e = "\<lparr>en_promise = next_promise s, en_message = m, en_task = tk, en_cancel = cn\<rparr>"
  let ?t = "t\<lparr>queue := queue t @ [?e], next_promise := next_promise t + 1\<rparr>"
  have e: "entries ?t = entries s @ [?e]" using t by (simp add: entries_def)
  have a: "accounts (entries s) s" using s by (simp add: send_ok_def)
  have "accounts (entries s @ [?e]) ?t"
  proof -
    have "\<forall>x \<in> set (entries s). en_promise x < next_promise s" using a by (force simp: accounts_def)
    moreover have "next_promise s \<notin> set (map fst (results s))"
    proof
      assume "next_promise s \<in> set (map fst (results s))"
      then have "next_promise s \<in> {..<next_promise s}" using a unfolding accounts_def by blast
      then show False by simp
    qed
    ultimately show ?thesis using a t by (auto simp: accounts_def sorted_wrt_append lessThan_Suc)
  qed
  moreover have "tracked (entries s @ [?e]) ?t" using tracked_same [OF tr, of ?t] by simp
  moreover have "\<forall>e ph. running ?t = Some (e, ph) \<longrightarrow> phase_ok ?t e ph" using ph t phase_same [of t _ _ ?t] by simp
  ultimately have "sound ?t" using e t ex by (simp add: sound_def exclusive_def)
  then show ?thesis using next_ok en t by (simp add: enqueue_def)
qed

lemma text_ok:
  assumes "send_ok s" and "sendMessage E p s = (fs, r, t)"
  shows "send_ok t"
proof -
  obtain es where "enqueue E p None None s = (es, t)" using assms(2) by (auto simp: sendMessage_def split: prod.splits)
  moreover have "tracked (entries s @ [\<lparr>en_promise = next_promise s, en_message = p, en_task = None, en_cancel = None\<rparr>]) s"
    using assms(1) by (auto simp: send_ok_def tracked_def own_task_def List.map_filter_def)
  ultimately show ?thesis
    using enqueue_ok [OF assms(1), of s p None None E es t] assms(1) by (simp add: send_ok_def own_task_def)
qed

lemma upload_ok:
  assumes s: "send_ok s" and f: "sendFiles E info i url c p s = (fs, r, t)" and c: "case c of None \<Rightarrow> True | Some c \<Rightarrow> c < next_cancel s"
    and fresh: "\<And>e x. e \<in> set (entries s) \<Longrightarrow> en_cancel e = Some x \<Longrightarrow> x < next_cancel s"
  shows "send_ok t"
proof (cases "(case c of None \<Rightarrow> False | Some c \<Rightarrow> canceled (cancels s c)) \<or> uploadTasks s i \<noteq> None \<or> \<not> readable_file info")
  case True
  then have "t = s" using f by (auto simp: sendFiles_def split: if_splits)
  then show ?thesis using s by simp
next
  case False
  let ?m = "with_content (\<lambda>x. x\<lparr>file_name := plain_name info, fileSize := byte_size info\<rparr>) p"
  obtain x s1 where x: "(x, s1) = (case c of Some c \<Rightarrow> (c, s)
      | None \<Rightarrow> (next_cancel s, s\<lparr>cancels := (cancels s)(next_cancel s := new_cancellation), next_cancel := next_cancel s + 1\<rparr>))"
    by (cases c) auto
  let ?t = "s1\<lparr>uploadTasks := (uploadTasks s1)(i \<mapsto> \<lparr>task_id = i, task_path = url, task_cancel = x\<rparr>)\<rparr>"
  let ?e = "\<lparr>en_promise = next_promise s, en_message = ?m, en_task = Some i, en_cancel = Some x\<rparr>"
  obtain es where es: "enqueue E ?m (Some i) (Some x) ?t = (es, t)"
    using f False x by (cases c) (auto simp: sendFiles_def Let_def split: prod.splits if_splits)
  have s1: "queue s1 = queue s" "running s1 = running s" "next_promise s1 = next_promise s" "results s1 = results s"
    "uploadTasks s1 = uploadTasks s" using x by (cases c; simp)+
  have new: "cancels s1 = cancels s \<or> cancels s1 = (cancels s)(next_cancel s := new_cancellation)" using x by (cases c) auto
  have ex: "exclusive ?t" using s new by (auto simp: send_ok_def exclusive_def new_cancellation_def split: if_splits)
  have none: "uploadTasks s i = None" using False by simp
  have old: "own_task (uploadTasks s) e" if "e \<in> set (entries s)" for e using s that by (simp add: send_ok_def tracked_def)
  have away: "en_task e \<noteq> Some i" if "e \<in> set (entries s)" for e using old [OF that] none by (auto simp: own_task_def)
  have "own_task (uploadTasks ?t) e" if "e \<in> set (entries s)" for e
    using old [OF that] away [OF that] s1 unfolding own_task_def by (cases "en_task e") auto
  moreover have "distinct (List.map_filter en_task (entries s @ [?e]))"
  proof -
    have "List.map_filter en_task (entries s @ [?e]) = List.map_filter en_task (entries s) @ [i]"
      by (simp add: List.map_filter_def)
    then show ?thesis using s away by (auto simp: send_ok_def tracked_def set_map_filter)
  qed
  moreover have "own_task (uploadTasks ?t) ?e" by (simp add: own_task_def)
  moreover have "\<forall>j. uploadTasks ?t j \<noteq> None \<longrightarrow> Some j \<in> en_task ` set (entries s @ [?e])"
    using s s1 by (auto simp: send_ok_def tracked_def)
  ultimately have tr: "tracked (entries s @ [?e]) ?t" by (auto simp: tracked_def)
  have ph: "phase_ok ?t e ph" if "running s = Some (e, ph)" for e ph
  proof -
    have p: "phase_ok s e ph" "e \<in> set (entries s)" using s that by (auto simp: send_ok_def entries_def)
    show ?thesis
    proof (cases ph)
      case (Sending m)
      then show ?thesis using p new fresh [OF p(2)] by (auto simp: phase_ok_def)
    qed (use p in \<open>simp_all add: phase_ok_def\<close>)
  qed
  show ?thesis
    by (rule enqueue_ok [OF s _ _ _ _ _ tr ex ph es]) (use s1 in \<open>simp_all add: own_task_def\<close>)
qed

text \<open>Entries use cancellations that exist.\<close>

definition cancels_exist :: "sender \<Rightarrow> bool" where
  "cancels_exist s \<longleftrightarrow> (\<forall>e \<in> set (entries s). \<forall>x. en_cancel e = Some x \<longrightarrow> x < next_cancel s)"

lemma cancel_ok:
  assumes "send_ok s" and "cancel_ref c s = (ok, t)"
  shows "send_ok t \<and> map en_promise (entries t) = map en_promise (entries s) \<and> entries t = entries s"
proof (cases "fst (cancel_upload (cancels s c))")
  case True
  let ?r = "\<lambda>e ph. if en_cancel e = Some c \<and> (ph = Preparing \<or> (case ph of Uploading _ \<Rightarrow> True | _ \<Rightarrow> False)) then Ended Canceled else ph"
  have t: "cancels t = (cancels s)(c := (cancels s c)\<lparr>canceled := True\<rparr>)" "\<not> canceled (cancels s c)" "\<not> committed (cancels s c)"
    "uploadTasks t = uploadTasks s" "queue t = queue s" "results t = results s" "next_promise t = next_promise s"
    "running t = map_option (\<lambda>(e, ph). (e, ?r e ph)) (running s)" "wakes t = wakes s" "is_online t = is_online s"
    using assms(2) True by (auto simp: cancel_ref_def cancel_upload_def split: if_splits option.splits)
  have en: "entries t = entries s" using t by (cases "running s") (auto simp: entries_def)
  have ph: "phase_ok t e (?r e ph)" if "running s = Some (e, ph)" for e ph
  proof -
    have "phase_ok s e ph" using assms(1) that by (simp add: send_ok_def)
    then show ?thesis using t(1,3) by (cases ph) (auto simp: phase_ok_def)
  qed
  have "accounts (entries t) t" "tracked (entries t) t"
    using assms(1) en t by (auto simp: send_ok_def intro: accounts_same tracked_same)
  moreover have "exclusive t" using assms(1) t by (auto simp: send_ok_def exclusive_def)
  moreover have "stays_awake t" using assms(1) t by (cases "running s") (auto simp: send_ok_def stays_awake_def)
  moreover have "phase_ok t e q" if r: "running t = Some (e, q)" for e q
  proof -
    obtain p where "running s = Some (e, p)" "q = ?r e p" using r t(8) by (cases "running s") auto
    then show ?thesis using ph by blast
  qed
  ultimately show ?thesis using en by (simp add: send_ok_def)
next
  case False
  then have "t = s" using assms(2) by (auto simp: cancel_ref_def split: prod.splits)
  then show ?thesis using assms(1) by simp
qed

section \<open>Steps of the running entry\<close>

lemma rephase:
  assumes "send_ok s" and "running s = Some (e, q)" and "running t = Some (e, ph)"
    and "queue t = queue s" and "results t = results s" and "next_promise t = next_promise s"
    and "tracked (entries s) t" and "exclusive t" and "phase_ok t e ph"
  shows "send_ok t \<and> entries t = entries s"
proof -
  have en: "entries t = entries s" using assms(2-4) by (simp add: entries_def)
  then show ?thesis using assms accounts_same [of "entries s" s t] by (simp add: send_ok_def stays_awake_def)
qed

lemma finished_cases:
  assumes "upload_finished E err url e m s = (fs, ph, t)" and "en_cancel e = Some c"
  obtains (stop) r where "t = s" "ph = Ended r" "fs = []"
  | (go) x m' where "t = s\<lparr>cancels := (cancels s)(c := x)\<rparr>" "x = (cancels s c)\<lparr>committed := True\<rparr>" "\<not> canceled (cancels s c)"
      "ph = Sending m'" "\<exists>pre. fs = pre @ [XmppSend (en_promise e) (receiver_id m') (to_json E (payload_toDto m')) (message_id m')]
        \<and> (\<forall>n r j i. XmppSend n r j i \<notin> set pre)"
proof (cases "err \<noteq> [] \<or> \<not> url_valid E url \<or> url = [] \<or> canceled (cancels s c)")
  case True
  then show ?thesis using assms that(1) by (auto simp: upload_finished_def tryCommit_def Let_def split: if_splits)
next
  case False
  define m' where "m' = with_content (\<lambda>c. c\<lparr>media_url := url\<rparr>) m"
  have *: "t = s\<lparr>cancels := (cancels s)(c := (cancels s c)\<lparr>committed := True\<rparr>)\<rparr>" "ph = Sending m'"
    using assms False by (auto simp: upload_finished_def tryCommit_def Let_def sendMessageNow_def m'_def)
  have "\<exists>pre. fs = pre @ [XmppSend (en_promise e) (receiver_id m') (to_json E (payload_toDto m')) (message_id m')]
        \<and> (\<forall>n r j i. XmppSend n r j i \<notin> set pre)"
    using assms False by (auto simp: upload_finished_def tryCommit_def Let_def sendMessageNow_def m'_def)
  with * False show ?thesis using that(2) by blast
qed

fun sends :: "send_effect list \<Rightarrow> nat list" where
  "sends [] = []"
| "sends (XmppSend n r j i # fs) = n # sends fs"
| "sends (_ # fs) = sends fs"

lemma sends_append [simp]: "sends (fs @ gs) = sends fs @ sends gs"
  by (induction fs rule: sends.induct) simp_all

lemma sends_none: "\<forall>n r j i. XmppSend n r j i \<notin> set fs \<Longrightarrow> sends fs = []"
  by (induction fs rule: sends.induct) (auto simp: all_conj_distrib)

lemma set_sends: "n \<in> set (sends fs) \<longleftrightarrow> (\<exists>r j i. XmppSend n r j i \<in> set fs)"
  by (induction fs rule: sends.induct) auto

text \<open>What an input does to the running entry and the queue, as far as sending is concerned.\<close>

definition is_ended :: "phase \<Rightarrow> bool" where
  "is_ended ph \<longleftrightarrow> (case ph of Ended r \<Rightarrow> True | _ \<Rightarrow> False)"

definition before_send :: "phase \<Rightarrow> bool" where
  "before_send ph \<longleftrightarrow> (case ph of Preparing \<Rightarrow> True | Uploading m \<Rightarrow> True | _ \<Rightarrow> False)"

definition is_sending :: "phase \<Rightarrow> bool" where
  "is_sending ph \<longleftrightarrow> (case ph of Sending m \<Rightarrow> True | _ \<Rightarrow> False)"

definition runs_on :: "sender \<Rightarrow> send_effect list \<Rightarrow> sender \<Rightarrow> bool" where
  "runs_on s fs t \<longleftrightarrow> queue t = queue s \<and>
     (running t = running s \<and> sends fs = []
      \<or> (\<exists>e q ph. running s = Some (e, q) \<and> running t = Some (e, ph) \<and> sends fs = [] \<and> \<not> is_ended q
           \<and> (is_ended ph \<or> before_send q \<and> before_send ph))
      \<or> (\<exists>e q ph. running s = Some (e, q) \<and> running t = Some (e, ph) \<and> before_send q \<and> is_sending ph \<and> \<not> is_canceled s e
           \<and> sends fs = [en_promise e]))"

definition starts :: "sender \<Rightarrow> send_effect list \<Rightarrow> sender \<Rightarrow> bool" where
  "starts s fs t \<longleftrightarrow>
     (\<exists>k. queue t = drop k (queue s)) \<and>
     (running t = None \<longrightarrow> sends fs = []) \<and>
     (\<forall>e ph. running t = Some (e, ph) \<longrightarrow> (\<exists>skipped. queue s = skipped @ e # queue t) \<and> \<not> is_canceled s e
          \<and> (sends fs = [] \<and> (before_send ph \<or> is_ended ph) \<or> sends fs = [en_promise e] \<and> is_sending ph))"

lemma prepared_sends: "upload_prepared E path e s = (fs, ph, t) \<Longrightarrow> sends fs = [] \<and> (before_send ph \<or> is_ended ph)"
  by (auto simp: upload_prepared_def Let_def before_send_def is_ended_def split: option.splits if_splits)

lemma start_sends:
  "start_entry E e s = (fs, ph, t) \<Longrightarrow>
    sends fs = [] \<and> (before_send ph \<or> is_ended ph) \<or> sends fs = [en_promise e] \<and> is_sending ph"
  using prepared_sends
  by (fastforce simp: start_entry_def sendMessageNow_def Let_def before_send_def is_sending_def split: option.splits if_splits)

lemma start_fields:
  "start_entry E e s = (fs, ph, t) \<Longrightarrow>
    queue t = queue s \<and> cancels t = cancels s \<and> next_promise t = next_promise s \<and> next_cancel t = next_cancel s"
  by (auto simp: start_entry_def upload_prepared_def sendMessageNow_def Let_def split: option.splits if_splits)

lemma next_starts:
  assumes "running s = None" and "nextProcess E s = (fs, t)"
  shows "starts s fs t \<and> cancels t = cancels s \<and> next_promise t = next_promise s \<and> next_cancel t = next_cancel s"
proof (cases "queue s = []")
  case True
  then show ?thesis using assms by (auto simp: nextProcess_def starts_def)
next
  case False
  let ?k = "skip_canceled (queue s) s"
  note kf = skip_fields [of "queue s" s]
  have dk: "\<exists>k. queue ?k = drop k (queue s)" using kf by (metis dropWhile_eq_drop)
  have none: "starts s [] ?k" using dk kf assms(1) by (simp add: starts_def)
  show ?thesis
  proof (cases "queue ?k")
    case Nil
    then have "t = ?k" "fs = []" using assms False by (auto simp: nextProcess_def Let_def)
    then show ?thesis using none kf by simp
  next
    case (Cons e es)
    then have q: "queue s = takeWhile (is_canceled s) (queue s) @ e # es" "\<not> is_canceled s e"
      using kf by (metis takeWhile_dropWhile_id, metis hd_dropWhile list.distinct(1) list.sel(1))
    have de: "\<exists>k. es = drop k (queue s)" using q(1) by (metis append_Cons append_Nil append_assoc append_eq_conv_conj)
    show ?thesis
    proof (cases "is_online ?k \<and> \<not> start_throws E")
      case True
      obtain ph u where st: "start_entry E e (?k\<lparr>queue := es\<rparr>) = (fs, ph, u)" and t: "t = u\<lparr>running := Some (e, ph)\<rparr>"
        using assms False Cons True by (auto simp: nextProcess_def Let_def split: prod.splits)
      have u: "queue u = es \<and> cancels u = cancels ?k \<and> next_promise u = next_promise ?k \<and> next_cancel u = next_cancel ?k"
        using start_fields [OF st] by simp
      show ?thesis using start_sends [OF st] q de u t kf by (auto simp: starts_def)
    next
      case False2: False
      then have "t = ?k \<and> fs = [] \<or> t = (drop_task e (finish_promise e Exception (?k\<lparr>queue := es\<rparr>)))\<lparr>wakes := wakes ?k + 1\<rparr> \<and> fs = []"
        using assms False False2 Cons by (cases "is_online ?k") (auto simp add: nextProcess_def Let_def)
      then show ?thesis using none de kf assms(1) by (auto simp: starts_def)
    qed
  qed
qed

section \<open>Summary of a step\<close>

definition arrives :: "sender \<Rightarrow> sender \<Rightarrow> bool" where
  "arrives s u \<longleftrightarrow> running u = running s \<and> next_cancel s \<le> next_cancel u \<and> (\<forall>c < next_cancel s. cancels u c = cancels s c)
     \<and> (queue u = queue s \<and> next_promise u = next_promise s
        \<or> (\<exists>e. queue u = queue s @ [e] \<and> en_promise e = next_promise s \<and> next_promise u = Suc (next_promise s)
             \<and> (\<forall>c. en_cancel e = Some c \<longrightarrow> c < next_cancel u)))"

definition moves :: "sender \<Rightarrow> send_effect list \<Rightarrow> sender \<Rightarrow> bool" where
  "moves u fs t \<longleftrightarrow> next_promise t = next_promise u \<and> next_cancel t = next_cancel u
     \<and> (\<forall>c. (canceled (cancels u c) \<longrightarrow> canceled (cancels t c)) \<and> (committed (cancels u c) \<longrightarrow> committed (cancels t c)))
     \<and> (runs_on u fs t \<or> (\<forall>e ph. running u = Some (e, ph) \<longrightarrow> is_ended ph) \<and> starts u fs t)"

lemma arrives_refl: "arrives s s"
  by (simp add: arrives_def)

lemma next_moves:
  assumes "nextProcess E u = (fs, t)"
  shows "moves u fs t"
proof (cases "running u")
  case None
  then show ?thesis using next_starts [OF None assms] by (simp add: moves_def)
next
  case (Some x)
  then have "t = u \<and> fs = []" using assms by (simp add: nextProcess_def)
  then show ?thesis by (simp add: moves_def runs_on_def)
qed

lemma enqueue_moves:
  assumes "enqueue E m tk cn u = (fs, t)" and "running u = running s" and "next_cancel s \<le> next_cancel u"
    and "\<forall>c < next_cancel s. cancels u c = cancels s c" and "queue u = queue s" and "next_promise u = next_promise s"
    and "\<forall>c. cn = Some c \<longrightarrow> c < next_cancel u"
  shows "\<exists>v. arrives s v \<and> moves v fs t"
proof -
  let ?v = "u\<lparr>queue := queue u @ [\<lparr>en_promise = next_promise u, en_message = m, en_task = tk, en_cancel = cn\<rparr>],
      next_promise := next_promise u + 1\<rparr>"
  have "arrives s ?v" using assms(2-7) by (simp add: arrives_def)
  moreover have "moves ?v fs t" using next_moves assms(1) by (simp add: enqueue_def)
  ultimately show ?thesis by blast
qed

lemma moves_more: "moves u fs t \<Longrightarrow> sends gs = sends fs \<Longrightarrow> moves u gs t"
  by (simp add: moves_def runs_on_def starts_def)

lemma watcher_moves:
  assumes "watcher_finished E s = (fs, t)"
  shows "moves s fs t"
proof (cases "\<exists>e r. running s = Some (e, Ended r)")
  case True
  then obtain e r where r: "running s = Some (e, Ended r)" by blast
  let ?u = "(drop_task e (finish_promise e r s))\<lparr>running := None\<rparr>"
  have "starts ?u fs t \<and> cancels t = cancels s \<and> next_promise t = next_promise s \<and> next_cancel t = next_cancel s"
    using next_starts [of ?u E fs t] assms r by (simp add: watcher_finished_def)
  moreover have "starts s fs t" if "starts ?u fs t"
    using that is_canceled_same [of ?u s] by (simp add: starts_def)
  ultimately show ?thesis using r by (simp add: moves_def is_ended_def)
next
  case False
  then have "t = s \<and> fs = []" using assms by (auto simp: watcher_finished_def split: option.splits prod.splits phase.splits)
  then show ?thesis by (simp add: moves_def runs_on_def)
qed

lemma cancel_moves:
  assumes "cancel_ref c s = (ok, t)"
  shows "moves s [] t \<and> (ok \<longrightarrow> canceled (cancels t c))"
proof (cases "fst (cancel_upload (cancels s c))")
  case True
  then have t: "cancels t = (cancels s)(c := (cancels s c)\<lparr>canceled := True\<rparr>)" "ok" "queue t = queue s"
    "next_promise t = next_promise s" "next_cancel t = next_cancel s"
    "running t = map_option (\<lambda>(e, ph). (e, if en_cancel e = Some c \<and> before_send ph then Ended Canceled else ph)) (running s)"
    using assms by (auto simp: cancel_ref_def cancel_upload_def before_send_def split: if_splits option.splits phase.splits)
  have "runs_on s [] t"
  proof (cases "running s")
    case (Some x)
    obtain e ph where x: "x = (e, ph)" by fastforce
    show ?thesis using t Some x by (auto simp: runs_on_def is_ended_def before_send_def split: phase.splits if_splits)
  qed (use t in \<open>simp add: runs_on_def\<close>)
  then show ?thesis using t by (simp add: moves_def)
next
  case False
  then have "t = s \<and> \<not> ok" using assms by (auto simp: cancel_ref_def split: prod.splits)
  then show ?thesis by (simp add: moves_def runs_on_def)
qed

lemma none_moves: "moves s [] s"
  by (simp add: moves_def runs_on_def)

lemma compressed_step:
  assumes "send_ok s" and "on_compressed E path s = (fs, t)"
  shows "moves s fs t \<and> send_ok t \<and> entries t = entries s"
proof (cases "\<exists>e. running s = Some (e, Preparing)")
  case True
  then obtain e where r: "running s = Some (e, Preparing)" by blast
  obtain ph u where u: "upload_prepared E path e s = (fs, ph, u)" and t: "t = u\<lparr>running := Some (e, ph)\<rparr>"
    using assms(2) r by (auto simp: on_compressed_def split: prod.splits)
  from prepared_rest [OF u] have sr: "same_rest s u" and ph: "phase_ok t e ph" by (auto simp: phase_ok_def)
  note f = same_rest_fields [OF sr]
  have tr: "tracked (entries s) t"
    using tracked_same [OF tracked_tasks [of "entries s" s u]] sr t assms(1) by (simp add: same_rest_def send_ok_def)
  have "exclusive t" using assms(1) f t by (simp add: send_ok_def exclusive_def)
  then have "send_ok t \<and> entries t = entries s"
    using rephase [OF assms(1) r _ _ _ _ tr _ ph] f t by simp
  moreover have "moves s fs t"
    using prepared_sends [OF u] r f t by (auto simp: moves_def runs_on_def is_ended_def before_send_def split: phase.splits)
  ultimately show ?thesis by simp
next
  case False
  then have "t = s \<and> fs = []" using assms(2) by (auto simp: on_compressed_def split: option.splits prod.splits phase.splits)
  then show ?thesis using assms(1) none_moves by simp
qed

lemma uploaded_step:
  assumes "send_ok s" and "on_uploaded E err url s = (fs, t)"
  shows "moves s fs t \<and> send_ok t \<and> entries t = entries s"
proof (cases "\<exists>e m. running s = Some (e, Uploading m)")
  case True
  then obtain e m where r: "running s = Some (e, Uploading m)" by blast
  obtain ph u where u: "upload_finished E err url e m s = (fs, ph, u)" and t: "t = u\<lparr>running := Some (e, ph)\<rparr>"
    using assms(2) r by (auto simp: on_uploaded_def split: prod.splits)
  have "phase_ok s e (Uploading m)" "own_task (uploadTasks s) e"
    using assms(1) r by (auto simp: send_ok_def tracked_def entries_def)
  then obtain c where c: "en_cancel e = Some c" by (auto simp: phase_ok_def own_task_def)
  from u c show ?thesis
  proof (cases rule: finished_cases)
    case (stop q)
    have "send_ok t \<and> entries t = entries s"
      by (rule rephase [OF assms(1) r, of t ph]) (use stop t assms(1) in \<open>simp_all add: send_ok_def tracked_def exclusive_def phase_ok_def\<close>)
    then show ?thesis using stop r t by (auto simp: moves_def runs_on_def is_ended_def)
  next
    case (go x m')
    have "send_ok t \<and> entries t = entries s"
      by (rule rephase [OF assms(1) r, of t ph])
        (use go t c assms(1) in \<open>auto simp: send_ok_def tracked_def exclusive_def phase_ok_def\<close>)
    moreover have "sends fs = [en_promise e]" using go(5) sends_none by fastforce
    moreover have "\<not> is_canceled s e" using go(3) c by (simp add: is_canceled_def)
    ultimately show ?thesis using go r t by (auto simp: moves_def runs_on_def before_send_def is_sending_def)
  qed
next
  case False
  then have "t = s \<and> fs = []" using assms(2) by (auto simp: on_uploaded_def split: option.splits prod.splits phase.splits)
  then show ?thesis using assms(1) none_moves by simp
qed

lemma ended_step:
  assumes "send_ok s" and "running s = Some (e, q)" and "\<not> is_ended q" and "t = s\<lparr>running := Some (e, Ended r)\<rparr>" and "sends fs = []"
  shows "moves s fs t \<and> send_ok t \<and> entries t = entries s"
proof -
  have "send_ok t \<and> entries t = entries s"
    by (rule rephase [OF assms(1,2), of t "Ended r"])
      (use assms(1,4) in \<open>simp_all add: send_ok_def tracked_def exclusive_def phase_ok_def\<close>)
  then show ?thesis using assms(2-5) by (auto simp: moves_def runs_on_def is_ended_def)
qed

lemma sent_step:
  assumes "send_ok s" and "on_sent E err s = (fs, t)"
  shows "moves s fs t \<and> send_ok t \<and> entries t = entries s"
proof (cases "\<exists>e m. running s = Some (e, Sending m)")
  case True
  then obtain e m where r: "running s = Some (e, Sending m)" by blast
  have "t = s\<lparr>running := Some (e, Ended (Result err))\<rparr>" "sends fs = []" using assms(2) r by (auto simp: on_sent_def)
  then show ?thesis using ended_step [OF assms(1) r] by (simp add: is_ended_def)
next
  case False
  then have "t = s \<and> fs = []" using assms(2) by (auto simp: on_sent_def split: option.splits prod.splits phase.splits)
  then show ?thesis using assms(1) none_moves by simp
qed

lemma lost_step:
  assumes "send_ok s" and "on_lost q s = (fs, t)"
  shows "moves s fs t \<and> send_ok t \<and> entries t = entries s"
proof (cases "\<exists>e ph. running s = Some (e, ph) \<and> \<not> is_ended ph")
  case True
  then obtain e ph where r: "running s = Some (e, ph)" "\<not> is_ended ph" by blast
  then have "t = s\<lparr>running := Some (e, Ended (case q of Result _ \<Rightarrow> Exception | _ \<Rightarrow> q))\<rparr>" "fs = []"
    using assms(2) by (auto simp: on_lost_def is_ended_def split: phase.splits)
  from ended_step [OF assms(1) r this(1), of fs] this(2) show ?thesis by simp
next
  case False
  then have "t = s \<and> fs = []"
    using assms(2) by (auto simp: on_lost_def is_ended_def split: option.splits prod.splits phase.splits)
  then show ?thesis using assms(1) none_moves by simp
qed

section \<open>All inputs\<close>

lemma next_entries:
  assumes "nextProcess E s = (fs, t)"
  shows "set (entries t) \<subseteq> set (entries s)"
proof (cases "running s")
  case None
  from next_starts [OF None assms] have "starts s fs t" by simp
  then obtain k where k: "queue t = drop k (queue s)" and r: "\<And>e ph. running t = Some (e, ph) \<Longrightarrow> \<exists>sk. queue s = sk @ e # queue t"
    by (auto simp: starts_def)
  have "set (queue t) \<subseteq> set (queue s)" using k set_drop_subset by metis
  moreover have "e \<in> set (queue s)" if "running t = Some (e, ph)" for e ph using r [OF that] by auto
  ultimately show ?thesis by (cases "running t") (auto simp: entries_def)
next
  case (Some x)
  then show ?thesis using assms by (simp add: nextProcess_def)
qed

lemma exists_subset:
  "cancels_exist s \<Longrightarrow> set (entries t) \<subseteq> set (entries s) \<Longrightarrow> next_cancel s \<le> next_cancel t \<Longrightarrow> cancels_exist t"
  unfolding cancels_exist_def by (meson order_less_le_trans subsetD)

lemma watcher_entries:
  assumes "watcher_finished E s = (fs, t)"
  shows "set (entries t) \<subseteq> set (entries s) \<and> next_cancel t = next_cancel s"
proof (cases "\<exists>e r. running s = Some (e, Ended r)")
  case True
  then obtain e r where r: "running s = Some (e, Ended r)" by blast
  let ?u = "(drop_task e (finish_promise e r s))\<lparr>running := None\<rparr>"
  have "nextProcess E ?u = (fs, t)" using assms r by (simp add: watcher_finished_def)
  from next_entries [OF this] next_starts [OF _ this] show ?thesis using r by (auto simp: entries_def)
next
  case False
  then have "t = s" using assms by (auto simp: watcher_finished_def split: option.splits prod.splits phase.splits)
  then show ?thesis by simp
qed

definition send_inv :: "sender \<Rightarrow> bool" where
  "send_inv s \<longleftrightarrow> send_ok s \<and> cancels_exist s"

lemma enqueue_exists:
  assumes "cancels_exist s" and "enqueue E m tk cn u = (fs, t)" and "entries u = entries s" and "next_cancel s \<le> next_cancel u"
    and "\<forall>c. cn = Some c \<longrightarrow> c < next_cancel u"
  shows "cancels_exist t"
proof -
  let ?e = "\<lparr>en_promise = next_promise u, en_message = m, en_task = tk, en_cancel = cn\<rparr>"
  let ?v = "u\<lparr>queue := queue u @ [?e], next_promise := next_promise u + 1\<rparr>"
  have en: "entries ?v = entries s @ [?e]" using assms(3) by (simp add: entries_def)
  have "cancels_exist ?v" using assms(1,4,5) en by (force simp: cancels_exist_def)
  moreover have n: "nextProcess E ?v = (fs, t)" using assms(2) by (simp add: enqueue_def)
  moreover have "next_cancel t = next_cancel ?v"
    using next_moves [OF n] by (simp add: moves_def)
  ultimately show ?thesis using exists_subset next_entries [OF n] by (metis le_refl)
qed

lemma text_step:
  assumes "send_inv s" and "sendMessage E p s = (fs, r, t)"
  shows "send_inv t \<and> (\<exists>u. arrives s u \<and> moves u fs t)"
proof -
  obtain es where e: "enqueue E p None None s = (es, t)" and fs: "fs = MessageSent (pending_item p) # es"
    using assms(2) by (auto simp: sendMessage_def split: prod.splits)
  obtain u where "arrives s u" "moves u es t" using enqueue_moves [OF e, of s] by auto
  then have "\<exists>u. arrives s u \<and> moves u fs t" using moves_more [of u es t fs] fs by auto
  then show ?thesis
    using text_ok [OF _ assms(2)] enqueue_exists [OF _ e, of s] assms(1) by (simp add: send_inv_def)
qed

lemma upload_step:
  assumes inv: "send_inv s" and f: "sendFiles E info i url c p s = (fs, r, t)" and c: "case c of None \<Rightarrow> True | Some c \<Rightarrow> c < next_cancel s"
  shows "send_inv t \<and> (\<exists>u. arrives s u \<and> moves u fs t)"
proof -
  have ok: "send_ok t" using upload_ok [OF _ f c] inv by (simp add: send_inv_def cancels_exist_def)
  show ?thesis
  proof (cases "(case c of None \<Rightarrow> False | Some c \<Rightarrow> canceled (cancels s c)) \<or> uploadTasks s i \<noteq> None \<or> \<not> readable_file info")
    case True
    then have "t = s \<and> fs = []" using f by (auto simp: sendFiles_def split: if_splits)
    then show ?thesis using inv arrives_refl none_moves by metis
  next
    case False
    let ?m = "with_content (\<lambda>x. x\<lparr>file_name := plain_name info, fileSize := byte_size info\<rparr>) p"
    obtain x s1 where x: "(x, s1) = (case c of Some c \<Rightarrow> (c, s)
        | None \<Rightarrow> (next_cancel s, s\<lparr>cancels := (cancels s)(next_cancel s := new_cancellation), next_cancel := next_cancel s + 1\<rparr>))"
      by (cases c) auto
    let ?t = "s1\<lparr>uploadTasks := (uploadTasks s1)(i \<mapsto> \<lparr>task_id = i, task_path = url, task_cancel = x\<rparr>)\<rparr>"
    obtain es where es: "enqueue E ?m (Some i) (Some x) ?t = (es, t)"
      and fs: "fs = [MessageSent (pending_item ?m), FileUploadStarted i url] @ es"
      using f False x by (cases c) (auto simp: sendFiles_def Let_def split: prod.splits if_splits)
    have s1: "running ?t = running s" "next_cancel s \<le> next_cancel ?t" "\<forall>c < next_cancel s. cancels ?t c = cancels s c"
      "queue ?t = queue s" "next_promise ?t = next_promise s" "x < next_cancel ?t" "entries ?t = entries s"
      using x c by (cases c; simp add: entries_def)+
    obtain u where "arrives s u" "moves u es t" using enqueue_moves [OF es s1(1-5)] s1(6) by auto
    then have "\<exists>u. arrives s u \<and> moves u fs t" using moves_more [of u es t fs] fs by auto
    moreover have "cancels_exist t" using enqueue_exists [OF _ es s1(7,2)] s1(6) inv by (simp add: send_inv_def)
    ultimately show ?thesis using ok by (simp add: send_inv_def)
  qed
qed

lemma same_entries_inv:
  "send_inv s \<Longrightarrow> send_ok t \<Longrightarrow> set (entries t) \<subseteq> set (entries s) \<Longrightarrow> next_cancel s \<le> next_cancel t \<Longrightarrow> send_inv t"
  using exists_subset [of s t] by (simp add: send_inv_def)

lemma sound_same:
  assumes "send_ok s" and "queue t = queue s" and "running t = running s" and "results t = results s"
    and "next_promise t = next_promise s" and "uploadTasks t = uploadTasks s" and "cancels t = cancels s"
  shows "sound t"
proof -
  have en: "entries t = entries s" using assms(2,3) by (simp add: entries_def)
  have "phase_ok t e ph" if "running s = Some (e, ph)" for e ph
    using assms(1) that phase_same [of s e ph t] assms(7) by (simp add: send_ok_def)
  then show ?thesis
    using assms en accounts_same [of "entries s" s t] tracked_same [of "entries s" s t] by (simp add: sound_def send_ok_def exclusive_def)
qed

lemma send_step_inv:
  assumes inv: "send_inv s" and st: "send_step E i s = (fs, t)"
  shows "send_inv t \<and> (\<exists>u. arrives s u \<and> moves u fs t)"
proof -
  have ok: "send_ok s" using inv by (simp add: send_inv_def)
  have plain: ?thesis if "moves s fs t \<and> send_ok t \<and> entries t = entries s"
    using that same_entries_inv [OF inv, of t] arrives_refl by (auto simp: moves_def)
  show ?thesis
  proof (cases i)
    case (SendText p)
    then show ?thesis using text_step [OF inv] st by (auto split: prod.splits)
  next
    case (SendUpload info x url c p)
    then show ?thesis using upload_step [OF inv] st inv arrives_refl none_moves by (auto split: prod.splits if_splits)
  next
    case NewCancellation
    then have t: "t = s\<lparr>cancels := (cancels s)(next_cancel s := new_cancellation), next_cancel := next_cancel s + 1\<rparr>" "fs = []"
      using st by simp_all
    have en: "entries t = entries s" using t by (simp add: entries_def)
    have "send_ok t"
    proof -
      have "phase_ok t e ph" if r: "running s = Some (e, ph)" for e ph
      proof -
        have e: "e \<in> set (entries s)" using r by (simp add: entries_def)
        have "phase_ok s e ph" using r ok by (simp add: send_ok_def)
        then show ?thesis using inv e t by (cases ph) (auto simp: phase_ok_def send_inv_def cancels_exist_def)
      qed
      then show ?thesis
        using ok t en by (auto simp: send_ok_def accounts_def tracked_def exclusive_def new_cancellation_def stays_awake_def)
    qed
    moreover have "arrives s t" using t by (simp add: arrives_def)
    moreover have "next_cancel s \<le> next_cancel t" using t by simp
    ultimately show ?thesis using same_entries_inv [OF inv] en t(2) none_moves [of t] by auto
  next
    case (CancelRef c)
    obtain r u where u: "cancel_ref c s = (r, u)" by fastforce
    show ?thesis
    proof (cases "c < next_cancel s")
      case True
      then have "t = u" "fs = []" using st CancelRef u by simp_all
      then show ?thesis using plain cancel_moves [OF u] cancel_ok [OF ok u] by simp
    next
      case False
      then have "t = s" "fs = []" using st CancelRef by simp_all
      then show ?thesis using plain ok none_moves by simp
    qed
  next
    case (CancelUpload x)
    show ?thesis
    proof (cases "uploadTasks s x")
      case None
      then have "t = s" "fs = []" using st CancelUpload by (simp_all add: cancelFileUpload_def)
      then show ?thesis using plain ok none_moves by simp
    next
      case (Some k)
      obtain r u where u: "cancel_ref (task_cancel k) s = (r, u)" by fastforce
      then have "t = u" "sends fs = []" using st CancelUpload Some by (auto simp: cancelFileUpload_def)
      then show ?thesis using plain moves_more [OF conjunct1 [OF cancel_moves [OF u]]] cancel_ok [OF ok u] by simp
    qed
  next
    case (SetOnline b)
    let ?u = "s\<lparr>is_online := b\<rparr>"
    have n: "nextProcess E ?u = (fs, t)" using st SetOnline by simp
    have "sound ?u" by (rule sound_same [OF ok]) simp_all
    then have "send_ok t" using next_ok n by blast
    moreover have "arrives s ?u" by (simp add: arrives_def)
    moreover have "set (entries t) \<subseteq> set (entries s)" using next_entries [OF n] by (simp add: entries_def)
    moreover have "next_cancel s \<le> next_cancel t" using next_moves [OF n] by (simp add: moves_def)
    ultimately show ?thesis using same_entries_inv [OF inv] next_moves [OF n] by blast
  next
    case WatcherFires
    then have w: "watcher_finished E s = (fs, t)" using st by simp
    show ?thesis
      using watcher_ok [OF ok w] watcher_moves [OF w] watcher_entries [OF w] same_entries_inv [OF inv, of t] arrives_refl by auto
  next
    case WakeUp
    show ?thesis
    proof (cases "wakes s = 0")
      case True
      then have "t = s" "fs = []" using st WakeUp by simp_all
      then show ?thesis using plain ok none_moves by simp
    next
      case False
      let ?u = "s\<lparr>wakes := wakes s - 1\<rparr>"
      have n: "nextProcess E ?u = (fs, t)" using st WakeUp False by simp
      have "sound ?u" by (rule sound_same [OF ok]) simp_all
      then have "send_ok t" using next_ok n by blast
      moreover have "arrives s ?u" by (simp add: arrives_def)
      moreover have "set (entries t) \<subseteq> set (entries s)" using next_entries [OF n] by (simp add: entries_def)
      moreover have "next_cancel s \<le> next_cancel t" using next_moves [OF n] by (simp add: moves_def)
      ultimately show ?thesis using same_entries_inv [OF inv] next_moves [OF n] by blast
    qed
  qed (use st plain compressed_step [OF ok] uploaded_step [OF ok] sent_step [OF ok] lost_step [OF ok] in \<open>simp_all\<close>)
qed

lemma send_run_inv: "send_run es s \<Longrightarrow> send_inv s"
proof (induction rule: send_run.induct)
  case idle
  show ?case by (auto simp: send_inv_def send_ok_def new_sender_def entries_def accounts_def tracked_def exclusive_def
        new_cancellation_def stays_awake_def cancels_exist_def List.map_filter_def)
next
  case (progress es s E i fs t)
  then show ?case using send_step_inv by blast
qed

end
