(* ===== verification/Send_Properties.thy ===== *)
theory Send_Properties
  imports Send_Invariant
begin

text \<open>What holds of every history of the send queue: order, cancellation, accounts, progress.\<close>

section \<open>Order of sending\<close>

definition ordered :: "nat list \<Rightarrow> sender \<Rightarrow> bool" where
  "ordered ns s \<longleftrightarrow> sorted_wrt (<) ns
     \<and> (\<forall>n \<in> set ns. n < next_promise s \<and> (\<forall>e \<in> set (queue s). n < en_promise e)
          \<and> (\<forall>e ph. running s = Some (e, ph) \<longrightarrow> before_send ph \<longrightarrow> n < en_promise e))
     \<and> (\<forall>e \<in> set (entries s). \<forall>c. en_promise e \<in> set ns \<longrightarrow> en_cancel e = Some c \<longrightarrow> committed (cancels s c))"

lemma ordered_arrives:
  assumes "ordered ns s" and "arrives s u" and "send_inv s"
  shows "ordered ns u"
proof -
  have lt: "n < next_promise s" if "n \<in> set ns" for n using assms(1) that by (auto simp: ordered_def)
  have sub: "set (entries u) \<subseteq> set (entries s) \<union> {e. en_promise e = next_promise s}"
    using assms(2) by (auto simp: arrives_def entries_def)
  have com: "committed (cancels u c)" if "e \<in> set (entries s)" "en_cancel e = Some c" "committed (cancels s c)" for e c
    using assms(2,3) that by (auto simp: arrives_def send_inv_def cancels_exist_def)
  have "\<forall>e \<in> set (entries u). \<forall>c. en_promise e \<in> set ns \<longrightarrow> en_cancel e = Some c \<longrightarrow> committed (cancels u c)"
  proof (intro ballI allI impI)
    fix e c assume e: "e \<in> set (entries u)" "en_promise e \<in> set ns" "en_cancel e = Some c"
    then have "e \<in> set (entries s)" using sub lt by fastforce
    then show "committed (cancels u c)" using com e assms(1) by (auto simp: ordered_def)
  qed
  moreover have "\<forall>n \<in> set ns. n < next_promise u \<and> (\<forall>e \<in> set (queue u). n < en_promise e)"
    using assms(1,2) lt by (fastforce simp: ordered_def arrives_def)
  moreover have "running u = running s" using assms(2) by (simp add: arrives_def)
  ultimately show ?thesis using assms(1) by (simp add: ordered_def)
qed

text \<open>Sending one more: the entry that runs afterwards, with the queue behind it.\<close>

lemma ordered_send:
  assumes "ordered ns u" and "\<forall>n \<in> set ns. n < en_promise e" and "send_ok t" and "running t = Some (e, ph)"
    and "is_sending ph" and "next_promise t = next_promise u" and "set (entries t) \<subseteq> set (entries u)"
    and "\<And>c. committed (cancels u c) \<Longrightarrow> committed (cancels t c)" and "\<And>x. x \<in> set (queue t) \<Longrightarrow> x \<in> set (queue u)"
  shows "ordered (ns @ [en_promise e]) t"
proof -
  have a: "accounts (e # queue t) t" using assms(3,4) by (simp add: send_ok_def entries_def)
  have "en_promise e < next_promise t"
    using a by (auto simp: accounts_def)
  moreover have "\<forall>x \<in> set (queue t). en_promise e < en_promise x" using a by (simp add: accounts_def)
  moreover have "committed (cancels t c)" if "en_cancel e = Some c" for c
    using assms(3-5) that by (auto simp: send_ok_def phase_ok_def is_sending_def split: phase.splits)
  moreover have "\<forall>x \<in> set (queue t). en_promise x \<noteq> en_promise e" using a by (force simp: accounts_def)
  ultimately show ?thesis
    using assms by (auto simp: ordered_def sorted_wrt_append entries_def subset_iff is_sending_def before_send_def split: phase.splits)
qed

lemma starts_queue: "starts u fs t \<Longrightarrow> set (queue t) \<subseteq> set (queue u)"
  unfolding starts_def using set_drop_subset by metis

lemma starts_source:
  assumes "starts u fs t" and "running t = Some (e, ph)"
  shows "e \<in> set (queue u)" and "\<not> is_canceled u e"
    and "sends fs = [] \<and> (before_send ph \<or> is_ended ph) \<or> sends fs = [en_promise e] \<and> is_sending ph"
proof -
  obtain sk where "queue u = sk @ e # queue t" using assms unfolding starts_def by blast
  then show "e \<in> set (queue u)" by simp
  show "\<not> is_canceled u e"
    and "sends fs = [] \<and> (before_send ph \<or> is_ended ph) \<or> sends fs = [en_promise e] \<and> is_sending ph"
    using assms unfolding starts_def by blast+
qed

lemma moves_queue: "moves u fs t \<Longrightarrow> set (queue t) \<subseteq> set (queue u)"
  using starts_queue by (auto simp: moves_def runs_on_def)

lemma moves_entries: "moves u fs t \<Longrightarrow> set (entries t) \<subseteq> set (entries u)"
proof -
  assume m: "moves u fs t"
  have "e \<in> set (entries u)" if r: "running t = Some (e, ph)" for e ph
  proof (cases "runs_on u fs t")
    case True
    then obtain q where "running u = Some (e, q)" using r unfolding runs_on_def by fastforce
    then show ?thesis by (simp add: entries_def)
  next
    case False
    then have "starts u fs t" using m by (simp add: moves_def)
    from starts_source(1) [OF this r] have "e \<in> set (queue u)" .
    then show ?thesis by (simp add: entries_def)
  qed
  moreover have "set (queue t) \<subseteq> set (entries u)" using moves_queue [OF m] by (auto simp: entries_def)
  ultimately show ?thesis by (cases "running t") (auto simp: entries_def)
qed

text \<open>Any move.\<close>

lemma ordered_moves:
  assumes o: "ordered ns u" and m: "moves u fs t" and t: "send_ok t"
  shows "ordered (ns @ sends fs) t"
proof -
  note en = moves_entries [OF m]
  show ?thesis
  proof (cases "sends fs = []")
    case True
    show ?thesis
    proof -
      have q: "set (queue t) \<subseteq> set (queue u)"
        by (rule moves_queue [OF m])
      have r: "n < en_promise e" if n: "n \<in> set ns" and e: "running t = Some (e, ph)" "before_send ph" for n e ph
      proof (cases "e \<in> set (queue u)")
        case True
        then show ?thesis using o n by (simp add: ordered_def)
      next
        case False
        then have "runs_on u fs t" using m e starts_source(1) unfolding moves_def by blast
        moreover have "\<not> is_ended ph" "\<not> is_sending ph" using e(2) by (cases ph; simp add: is_ended_def is_sending_def before_send_def)+
        ultimately have "\<exists>q. running u = Some (e, q) \<and> before_send q" using e unfolding runs_on_def by fastforce
        then show ?thesis using o n by (auto simp: ordered_def)
      qed
      show ?thesis using o m en True q r by (auto simp: ordered_def moves_def subset_iff)
    qed
  next
    case False
    then obtain e ph where e: "running t = Some (e, ph)" "is_sending ph" "sends fs = [en_promise e]"
      and src: "(\<exists>q. running u = Some (e, q) \<and> before_send q) \<or> e \<in> set (queue u)"
    proof (cases "runs_on u fs t")
      case True
      with False show ?thesis using that by (auto simp: runs_on_def)
    next
      case st: False
      then have st: "starts u fs t" using m by (simp add: moves_def)
      then obtain e ph where "running t = Some (e, ph)" using False by (cases "running t") (auto simp: starts_def)
      with starts_source [OF st this] False show ?thesis using that by blast
    qed
    have "\<forall>n \<in> set ns. n < en_promise e" using o src by (auto simp: ordered_def)
    moreover have "\<And>x. x \<in> set (queue t) \<Longrightarrow> x \<in> set (queue u)"
      using moves_queue [OF m] by blast
    ultimately show ?thesis
      using ordered_send [OF o _ t e(1,2)] e(3) m en by (simp add: moves_def)
  qed
qed

lemma run_ordered: "send_run es s \<Longrightarrow> ordered (sends es) s"
proof (induction rule: send_run.induct)
  case idle
  show ?case by (simp add: ordered_def new_sender_def entries_def)
next
  case (progress es s E i fs t)
  from send_step_inv [OF send_run_inv [OF progress(1)] progress(2)] obtain u where
    u: "send_inv t" "arrives s u" "moves u fs t" by blast
  have "ordered (sends es) u" using ordered_arrives [OF progress.IH u(2) send_run_inv [OF progress(1)]] .
  then show ?case using ordered_moves [OF _ u(3)] u(1) by (simp add: send_inv_def)
qed

section \<open>Cancelled entries\<close>

text \<open>An entry that was cancelled: it does not run any more, or its run has ended.\<close>

definition stopped :: "nat \<Rightarrow> sender \<Rightarrow> bool" where
  "stopped p s \<longleftrightarrow> p < next_promise s \<and> (\<forall>e \<in> set (entries s). en_promise e = p \<longrightarrow> is_canceled s e)
     \<and> (\<forall>e ph. running s = Some (e, ph) \<longrightarrow> en_promise e = p \<longrightarrow> is_ended ph)"

lemma canceled_mono:
  "is_canceled s e \<Longrightarrow> (\<And>c. en_cancel e = Some c \<Longrightarrow> canceled (cancels s c) \<Longrightarrow> canceled (cancels t c)) \<Longrightarrow> is_canceled t e"
  by (cases "en_cancel e") (simp_all add: is_canceled_def)

lemma stopped_arrives:
  assumes "stopped p s" and "arrives s u" and "send_inv s"
  shows "stopped p u"
proof -
  have "is_canceled u e" if e: "e \<in> set (entries u)" "en_promise e = p" for e
  proof -
    have es: "e \<in> set (entries s)" using assms(1,2) e by (auto simp: arrives_def entries_def stopped_def)
    then have "is_canceled s e" using assms(1) e by (simp add: stopped_def)
    then show ?thesis
      by (rule canceled_mono) (use assms(2,3) es in \<open>auto simp: arrives_def send_inv_def cancels_exist_def\<close>)
  qed
  moreover have "p < next_promise u" using assms(1,2) by (auto simp: arrives_def stopped_def)
  moreover have "running u = running s" using assms(2) by (simp add: arrives_def)
  ultimately show ?thesis using assms(1) by (simp add: stopped_def)
qed

lemma stopped_moves:
  assumes p: "stopped p u" and m: "moves u fs t"
  shows "stopped p t \<and> p \<notin> set (sends fs)"
proof -
  have "is_canceled t e" if e: "e \<in> set (entries t)" "en_promise e = p" for e
  proof -
    have "is_canceled u e" using p moves_entries [OF m] e by (auto simp: stopped_def)
    then show ?thesis by (rule canceled_mono) (use m in \<open>simp add: moves_def\<close>)
  qed
  moreover have "p < next_promise t" using p m by (simp add: stopped_def moves_def)
  moreover have "(\<forall>e ph. running t = Some (e, ph) \<longrightarrow> en_promise e = p \<longrightarrow> is_ended ph) \<and> p \<notin> set (sends fs)"
  proof (cases "runs_on u fs t")
    case True
    have nb: "\<not> before_send q" if "running u = Some (e, q)" "en_promise e = p" for e q
    proof -
      have "is_ended q" using p that by (auto simp: stopped_def)
      then show ?thesis by (cases q) (simp_all add: is_ended_def before_send_def)
    qed
    then have "p \<notin> set (sends fs)" using True by (auto simp: runs_on_def)
    moreover have "is_ended ph" if r: "running t = Some (e, ph)" "en_promise e = p" for e ph
    proof -
      obtain q where q: "running u = Some (e, q)" using True r(1) unfolding runs_on_def by fastforce
      then have "is_ended q" using p r(2) by (simp add: stopped_def)
      then show ?thesis using True r q nb [OF q r(2)] unfolding runs_on_def by auto
    qed
    ultimately show ?thesis by blast
  next
    case False
    then have st: "starts u fs t" using m by (simp add: moves_def)
    have no: "en_promise e \<noteq> p" if "running t = Some (e, ph)" for e ph
    proof -
      have "e \<in> set (entries u)" using starts_source(1) [OF st that] by (simp add: entries_def)
      then show ?thesis using starts_source(2) [OF st that] p by (auto simp: stopped_def)
    qed
    have "p \<notin> set (sends fs)"
    proof (cases "running t")
      case None
      then show ?thesis using st by (simp add: starts_def)
    next
      case (Some x)
      obtain e ph where "x = (e, ph)" by fastforce
      then show ?thesis using starts_source(3) [OF st, of e ph] no [of e ph] Some by auto
    qed
    then show ?thesis using no by blast
  qed
  ultimately show ?thesis by (simp add: stopped_def)
qed

fun send_steps :: "(send_env \<times> send_input) list \<Rightarrow> sender \<Rightarrow> send_effect list \<times> sender" where
  "send_steps [] s = ([], s)"
| "send_steps ((E, i) # is) s = (let (es, t) = send_step E i s; (fs, u) = send_steps is t in (es @ fs, u))"

lemma steps_run: "send_run es s \<Longrightarrow> send_steps is s = (fs, t) \<Longrightarrow> send_run (es @ fs) t"
proof (induction "is" arbitrary: es s fs)
  case (Cons x "is")
  obtain E i where x: "x = (E, i)" by fastforce
  obtain e1 u where u: "send_step E i s = (e1, u)" by fastforce
  obtain e2 where v: "send_steps is u = (e2, t)" "fs = e1 @ e2" using Cons.prems(2) x u by (auto split: prod.splits)
  from Cons.IH [OF send_run.progress [OF Cons.prems(1) u] v(1)] v(2) show ?case by simp
qed simp

lemma stopped_steps:
  "send_inv s \<Longrightarrow> stopped p s \<Longrightarrow> send_steps is s = (fs, t) \<Longrightarrow> p \<notin> set (sends fs)"
proof (induction "is" arbitrary: s fs)
  case (Cons x "is")
  obtain E i where x: "x = (E, i)" by fastforce
  obtain e1 u where u: "send_step E i s = (e1, u)" by fastforce
  obtain e2 where v: "send_steps is u = (e2, t)" "fs = e1 @ e2" using Cons.prems(3) x u by (auto split: prod.splits)
  from send_step_inv [OF Cons.prems(1) u] obtain w where w: "send_inv u" "arrives s w" "moves w e1 u" by blast
  have "stopped p u \<and> p \<notin> set (sends e1)"
    using stopped_moves [OF stopped_arrives [OF Cons.prems(2) w(2) Cons.prems(1)] w(3)] .
  then show ?case using Cons.IH [OF w(1) _ v(1)] v(2) by simp
qed simp

lemma cancel_stops:
  assumes inv: "send_inv s" and t: "cancel_ref c s = (True, t)" and e: "e \<in> set (entries s)" "en_cancel e = Some c"
  shows "stopped (en_promise e) t"
proof -
  have ok: "send_ok s" using inv by (simp add: send_inv_def)
  have c: "canceled (cancels t c)" "moves s [] t" using cancel_moves [OF t] by auto
  have en: "send_ok t" "entries t = entries s" using cancel_ok [OF ok t] by auto
  have fresh: "\<not> committed (cancels s c)" using t by (auto simp: cancel_ref_def cancel_upload_def split: if_splits)
  have same: "x = e" if "x \<in> set (entries t)" "en_promise x = en_promise e" for x
  proof -
    have "sorted_wrt (<) (map en_promise (entries t))" using en(1) by (simp add: send_ok_def accounts_def)
    then have "distinct (map en_promise (entries t))" by (simp add: strict_sorted_iff)
    then show ?thesis using that e(1) en(2) by (metis distinct_map inj_on_def)
  qed
  have "is_ended ph" if r: "running t = Some (e, ph)" for ph
  proof -
    have "cancels t c = (cancels s c)\<lparr>canceled := True\<rparr>"
      using t by (auto simp: cancel_ref_def cancel_upload_def split: if_splits)
    then have nc: "\<not> committed (cancels t c)" using fresh by simp
    have p: "phase_ok t e ph" using en(1) r by (simp add: send_ok_def)
    have nb: "\<not> before_send ph"
      using t r e(2) by (auto simp: cancel_ref_def cancel_upload_def before_send_def split: if_splits option.splits phase.splits)
    show ?thesis using p nb nc e(2) by (cases ph) (auto simp: phase_ok_def before_send_def is_ended_def)
  qed
  moreover have "en_promise e < next_promise t"
    using en e(1) by (force simp: send_ok_def accounts_def)
  moreover have "is_canceled t e" using c(1) e(2) by (simp add: is_canceled_def)
  ultimately show ?thesis using same by (auto simp: stopped_def entries_def)
qed

section \<open>Progress\<close>

text \<open>
  What ends the phase of the running entry: the library's answer, the watcher, or the wake-up that
  is queued. An answer is an environment, an error text and a path or address.
\<close>

definition answer_for :: "string \<Rightarrow> string \<Rightarrow> sender \<Rightarrow> send_input" where
  "answer_for err path s =
     (case running s of
        None \<Rightarrow> WakeUp
      | Some (e, ph) \<Rightarrow>
          (case ph of Preparing \<Rightarrow> CompressDone path | Uploading m \<Rightarrow> UploadDone err path | Sending m \<Rightarrow> SendDone err
           | Ended r \<Rightarrow> WatcherFires))"

fun respond :: "(send_env \<times> string \<times> string) list \<Rightarrow> sender \<Rightarrow> sender" where
  "respond [] s = s"
| "respond ((E, err, path) # rs) s = respond rs (snd (send_step E (answer_for err path s) s))"

definition phases_left :: "phase \<Rightarrow> nat" where
  "phases_left ph = (case ph of Preparing \<Rightarrow> 4 | Uploading m \<Rightarrow> 3 | Sending m \<Rightarrow> 2 | Ended r \<Rightarrow> 1)"

definition work :: "sender \<Rightarrow> nat" where
  "work s = 5 * length (queue s) + (case running s of None \<Rightarrow> 0 | Some (e, ph) \<Rightarrow> phases_left ph)"

lemma work_bound: "work s \<le> 5 * length (entries s)"
  by (auto simp: work_def entries_def phases_left_def split: option.splits phase.splits)

lemma work_zero: "work s = 0 \<longleftrightarrow> entries s = []"
  by (auto simp: work_def entries_def phases_left_def split: option.splits phase.splits)

lemma start_online: "start_entry E e s = (fs, ph, t) \<Longrightarrow> is_online t = is_online s"
  by (auto simp: start_entry_def upload_prepared_def sendMessageNow_def Let_def split: option.splits if_splits)

lemma idle_step:
  assumes "entries s = []" and "send_step E (answer_for err path s) s = (fs, t)"
  shows "entries t = [] \<and> is_online t = is_online s"
proof -
  have s: "running s = None" "queue s = []" using assms(1) by (auto simp: entries_def split: option.splits)
  then have "t = s \<or> t = s\<lparr>wakes := wakes s - 1\<rparr>"
    using assms(2) by (auto simp: answer_for_def nextProcess_def split: if_splits)
  then show ?thesis using s by (auto simp: entries_def)
qed

lemma next_work:
  assumes "running u = None" and "is_online u" and "\<not> start_throws E" and "nextProcess E u = (fs, t)"
  shows "work t \<le> 5 * length (queue u) \<and> (queue u \<noteq> [] \<longrightarrow> work t < 5 * length (queue u)) \<and> is_online t"
proof (cases "queue u = []")
  case True
  then have "t = u" using assms(1,4) by (simp add: nextProcess_def)
  then show ?thesis using True assms(1,2) by (simp add: work_def)
next
  case False
  let ?k = "skip_canceled (queue u) u"
  note kf = skip_fields [of "queue u" u]
  show ?thesis
  proof (cases "queue ?k")
    case Nil
    then have "t = ?k" using assms False by (auto simp: nextProcess_def Let_def)
    moreover have "running ?k = None" "is_online ?k" using kf assms(1,2) by auto
    ultimately have "work t = 0 \<and> is_online t" using Nil unfolding work_def by simp
    then show ?thesis using False by simp
  next
    case (Cons e es)
    have le: "length (queue ?k) \<le> length (queue u)" using kf by (simp add: length_dropWhile_le)
    obtain ph v where st: "start_entry E e (?k\<lparr>queue := es\<rparr>) = (fs, ph, v)" and t: "t = v\<lparr>running := Some (e, ph)\<rparr>"
      using assms False Cons kf by (auto simp: nextProcess_def Let_def split: prod.splits)
    have "queue t = es" using start_fields [OF st] t by simp
    moreover have "phases_left ph \<le> 4" by (simp add: phases_left_def split: phase.splits)
    moreover have "is_online t" using start_online [OF st] t kf assms(2) by simp
    ultimately show ?thesis using le Cons t by (simp add: work_def)
  qed
qed

lemma answer_work:
  assumes inv: "send_inv s" and on: "is_online s" and E: "\<not> start_throws E" and left: "0 < work s"
    and st: "send_step E (answer_for err path s) s = (fs, t)"
  shows "work t < work s \<and> is_online t"
proof (cases "running s")
  case None
  then have q: "queue s \<noteq> []" using left by (simp add: work_def)
  then have "0 < wakes s" using inv on None by (simp add: send_inv_def send_ok_def stays_awake_def)
  then have "nextProcess E (s\<lparr>wakes := wakes s - 1\<rparr>) = (fs, t)" using st None by (simp add: answer_for_def)
  from next_work [OF _ _ E this] show ?thesis using None q on by (simp add: work_def)
next
  case (Some x)
  obtain e ph where x: "x = (e, ph)" by fastforce
  show ?thesis
  proof (cases ph)
    case Preparing
    then obtain ph' u where u: "upload_prepared E path e s = (fs, ph', u)" "t = u\<lparr>running := Some (e, ph')\<rparr>"
      using st Some x by (auto simp: answer_for_def on_compressed_def split: prod.splits)
    from prepared_rest [OF u(1)] same_rest_fields [of s u] u(2) Some x Preparing on show ?thesis
      by (auto simp: work_def phases_left_def)
  next
    case (Uploading m)
    then obtain ph' u where u: "upload_finished E err path e m s = (fs, ph', u)" "t = u\<lparr>running := Some (e, ph')\<rparr>"
      using st Some x by (auto simp: answer_for_def on_uploaded_def split: prod.splits)
    have "phase_ok s e (Uploading m)" "own_task (uploadTasks s) e"
      using inv Some x Uploading by (auto simp: send_inv_def send_ok_def tracked_def entries_def)
    then obtain c where c: "en_cancel e = Some c" by (auto simp: phase_ok_def own_task_def)
    from u(1) c show ?thesis
      by (cases rule: finished_cases) (use u(2) Some x Uploading on in \<open>simp_all add: work_def phases_left_def\<close>)
  next
    case (Sending m)
    then show ?thesis using st Some x on by (auto simp: answer_for_def on_sent_def work_def phases_left_def)
  next
    case (Ended r)
    let ?u = "(drop_task e (finish_promise e r s))\<lparr>running := None\<rparr>"
    have "nextProcess E ?u = (fs, t)" using st Some x Ended by (simp add: answer_for_def watcher_finished_def)
    from next_work [OF _ _ E this] show ?thesis using Some x Ended on by (simp add: work_def phases_left_def)
  qed
qed

lemma respond_drains:
  "send_inv s \<Longrightarrow> is_online s \<Longrightarrow> list_all (\<lambda>(E, err, path). \<not> start_throws E) rs \<Longrightarrow> work s \<le> length rs \<Longrightarrow>
    send_inv (respond rs s) \<and> entries (respond rs s) = []"
proof (induction rs arbitrary: s)
  case Nil
  then show ?case using work_zero by simp
next
  case (Cons r rs)
  obtain E err path where r: "r = (E, err, path)" by (cases r)
  obtain fs t where t: "send_step E (answer_for err path s) s = (fs, t)" by fastforce
  have i: "send_inv t" using send_step_inv [OF Cons.prems(1) t] by blast
  show ?case
  proof (cases "work s = 0")
    case True
    have idle: "entries s = []" using True work_zero by blast
    have "work t = 0 \<and> is_online t"
      using idle_step [OF idle t] Cons.prems(2) work_zero by simp
    then show ?thesis using Cons.IH [OF i] Cons.prems(3) r t by simp
  next
    case False
    then show ?thesis
      using answer_work [OF Cons.prems(1,2) _ _ t] Cons.IH [OF i] Cons.prems r t by simp
  qed
qed

section \<open>A concrete history\<close>

definition plain_env :: send_env where
  "plain_env = \<lparr>to_json = message_id, local_file = id, is_cache = (\<lambda>_. False), cache_size = (\<lambda>_. 0), size_of = (\<lambda>_. 7),
     voice_path = (\<lambda>_ _ _. ''v''), suffix_of = (\<lambda>_. ''m4a''), voice_saved = True, url_valid = (\<lambda>_. True), start_throws = False\<rparr>"

definition some_payload :: "string \<Rightarrow> MessageType \<Rightarrow> Payload" where
  "some_payload i k = \<lparr>message_id = i, payload_sender = ''me'', receiver_id = ''bob'', reply_message_id = [], timestamp = ''1'',
     payload_content = default_content\<lparr>c_type := k\<rparr>, attachment_batch_id = [], attachment_index = - 1, is_mine = True, localpath = []\<rparr>"

definition good_file :: file_facts where
  "good_file = \<lparr>readable_file = True, plain_name = ''f'', byte_size = 7\<rparr>"

text \<open>A text, a file and an image are queued; the text is sent and the file's upload begins.\<close>

definition busy_inputs :: "(send_env \<times> send_input) list" where
  "busy_inputs = map (Pair plain_env) [SetOnline True, SendText (some_payload ''t'' Text),
     SendUpload good_file ''a'' ''file:a'' None (some_payload ''f'' File),
     SendUpload good_file ''b'' ''file:b'' None (some_payload ''i'' Image), SendDone [], WatcherFires]"

definition busy_sender :: sender where
  "busy_sender = snd (send_steps busy_inputs new_sender)"

lemma busy_run: "send_run (fst (send_steps busy_inputs new_sender)) busy_sender"
  using steps_run [OF send_run.idle, of busy_inputs "fst (send_steps busy_inputs new_sender)" busy_sender]
  by (simp add: busy_sender_def)

section \<open>What holds of every history\<close>

text \<open>
  C7: messages are handed to the connection in the order in which they were queued, each at most
  once: the queue numbers of everything ever sent grow strictly.
\<close>

theorem sent_in_order:
  assumes "send_run es s"
  shows "sorted_wrt (<) (sends es) \<and> (\<forall>n \<in> set (sends es). n < next_promise s)"
  using run_ordered [OF assms] by (simp add: ordered_def)

theorem sent_in_order_witness:
  "sends (fst (send_steps (busy_inputs @ [(plain_env, UploadDone [] ''u'')]) new_sender)) = [0, 1] \<and> sorted_wrt (<) [0::nat, 1]"
proof -
  let ?is = "busy_inputs @ [(plain_env, UploadDone [] ''u'')]"
  have r: "send_run ([] @ fst (send_steps ?is new_sender)) (snd (send_steps ?is new_sender))"
    by (rule steps_run [OF send_run.idle]) simp
  have "sends (fst (send_steps ?is new_sender)) = [0, 1]" by code_simp
  with sent_in_order [OF r] show ?thesis by simp
qed

text \<open>
  C8: a cancellation that answers true means that the message of the upload is never handed to the
  connection: it was not before, and no continuation of the history does it.
\<close>

theorem canceled_never_sent:
  assumes "send_run es s" and "cancelFileUpload i s = (fs, True, t)" and "e \<in> set (entries s)" and "en_task e = Some i"
  shows "en_promise e \<notin> set (sends es) \<and> en_promise e \<notin> set (sends (fst (send_steps is t)))"
proof -
  have inv: "send_inv s" by (rule send_run_inv [OF assms(1)])
  have "own_task (uploadTasks s) e" using inv assms(3) by (simp add: send_inv_def send_ok_def tracked_def)
  then obtain k where k: "uploadTasks s i = Some k" "en_cancel e = Some (task_cancel k)"
    using assms(4) by (auto simp: own_task_def)
  then have c: "cancel_ref (task_cancel k) s = (True, t)" using assms(2) by (auto simp: cancelFileUpload_def split: prod.splits)
  have "send_inv t" using cancel_ok [OF _ c] cancel_moves [OF c] same_entries_inv [OF inv, of t] inv
    by (auto simp: send_inv_def moves_def)
  then have "en_promise e \<notin> set (sends (fst (send_steps is t)))"
    using stopped_steps [OF _ cancel_stops [OF inv c assms(3) k(2)], of "is"] by (metis prod.collapse)
  moreover have "\<not> committed (cancels s (task_cancel k))" using c by (auto simp: cancel_ref_def cancel_upload_def split: if_splits)
  then have "en_promise e \<notin> set (sends es)" using run_ordered [OF assms(1)] assms(3) k(2) by (auto simp: ordered_def)
  ultimately show ?thesis by blast
qed

theorem canceled_never_sent_witness:
  "case cancelFileUpload ''a'' busy_sender of (fs, ok, t) \<Rightarrow> ok \<and> 1 \<notin> set (sends (fst (send_steps (map (Pair plain_env)
     [UploadDone [] ''u'', WatcherFires, CompressDone ''p'', UploadDone [] ''w'', SendDone []]) t)))
     \<and> sends (fst (send_steps (map (Pair plain_env)
     [UploadDone [] ''u'', WatcherFires, CompressDone ''p'', UploadDone [] ''w'', SendDone []]) t)) = [2]"
proof -
  let ?is = "map (Pair plain_env) [UploadDone [] ''u'', WatcherFires, CompressDone ''p'', UploadDone [] ''w'', SendDone []]"
  obtain fs ok t where c: "cancelFileUpload ''a'' busy_sender = (fs, ok, t)" by (cases "cancelFileUpload ''a'' busy_sender")
  have "case cancelFileUpload ''a'' busy_sender of (fs, ok, t) \<Rightarrow> ok \<and> sends (fst (send_steps ?is t)) = [2]" by code_simp
  then have r: "ok" "sends (fst (send_steps ?is t)) = [2]" unfolding c prod.case by blast+
  have "list_ex (\<lambda>e. en_promise e = 1 \<and> en_task e = Some ''a'') (entries busy_sender)" by code_simp
  then obtain e where e: "e \<in> set (entries busy_sender)" "en_promise e = 1" "en_task e = Some ''a''" unfolding list_ex_iff by blast
  have "1 \<notin> set (sends (fst (send_steps ?is t)))"
    using canceled_never_sent [OF busy_run _ e(1,3), of fs t ?is] c r(1) e(2) by simp
  then show ?thesis unfolding c prod.case using r by blast
qed

text \<open>
  C26: the promise of every message is finished exactly once or still open in the queue or the
  running entry, and the table of uploads has exactly the uploads that are open.
\<close>

theorem promises_accounted:
  assumes "send_run es s"
  shows "distinct (map fst (results s) @ map en_promise (entries s))
    \<and> set (map fst (results s) @ map en_promise (entries s)) = {..<next_promise s}
    \<and> (\<forall>i. uploadTasks s i \<noteq> None \<longleftrightarrow> (\<exists>e \<in> set (entries s). en_task e = Some i))"
proof -
  have ok: "accounts (entries s) s" "tracked (entries s) s"
    using send_run_inv [OF assms] by (simp_all add: send_inv_def send_ok_def)
  have "distinct (map en_promise (entries s))" using ok(1) by (simp add: accounts_def strict_sorted_iff)
  moreover have "uploadTasks s i \<noteq> None \<longleftrightarrow> (\<exists>e \<in> set (entries s). en_task e = Some i)" for i
  proof
    assume "\<exists>e \<in> set (entries s). en_task e = Some i"
    then obtain e where "e \<in> set (entries s)" "en_task e = Some i" by blast
    moreover from this have "own_task (uploadTasks s) e" using ok(2) by (simp add: tracked_def)
    ultimately show "uploadTasks s i \<noteq> None" by (auto simp: own_task_def)
  next
    assume "uploadTasks s i \<noteq> None"
    then have "Some i \<in> en_task ` set (entries s)" using ok(2) by (simp add: tracked_def)
    then show "\<exists>e \<in> set (entries s). en_task e = Some i" by force
  qed
  ultimately show ?thesis using ok(1) by (auto simp: accounts_def)
qed

theorem promises_accounted_witness:
  "map fst (results busy_sender) = [0] \<and> map en_promise (entries busy_sender) = [1, 2] \<and> uploadTasks busy_sender ''a'' \<noteq> None
   \<and> set (map fst (results busy_sender) @ map en_promise (entries busy_sender)) = {..<next_promise busy_sender}"
proof -
  have "map fst (results busy_sender) = [0] \<and> map en_promise (entries busy_sender) = [1, 2] \<and> uploadTasks busy_sender ''a'' \<noteq> None"
    by code_simp
  with promises_accounted [OF busy_run] show ?thesis by blast
qed

text \<open>
  C27: while connected, nothing that was queued is forgotten: whatever the library answers, five
  answers for each open entry finish all of them, and then every promise is finished.
\<close>

theorem queue_drains:
  assumes "send_run es s" and "is_online s" and "list_all (\<lambda>(E, err, path). \<not> start_throws E) rs"
    and "5 * length (entries s) \<le> length rs"
  shows "entries (respond rs s) = [] \<and> set (map fst (results (respond rs s))) = {..<next_promise (respond rs s)}"
proof -
  have "send_inv (respond rs s) \<and> entries (respond rs s) = []"
    using respond_drains [OF send_run_inv [OF assms(1)] assms(2,3)] work_bound [of s] assms(4) by simp
  then show ?thesis by (auto simp: send_inv_def send_ok_def accounts_def)
qed

theorem queue_drains_witness:
  "entries (respond (replicate 10 (plain_env, [], ''p'')) busy_sender) = [] \<and> length (entries busy_sender) = 2"
proof -
  have "is_online busy_sender \<and> length (entries busy_sender) = 2" by code_simp
  with queue_drains [OF busy_run, of "replicate 10 (plain_env, [], ''p'')"] show ?thesis
    by (simp add: plain_env_def list_all_length)
qed

end
