(* ===== verification/Message_Repository.thy ===== *)
theory Message_Repository
  imports Message_History Auth_Storage Network_Client Send_Properties
begin

text \<open>
  Reading and receiving of \<open>MessageRepositoryImpl\<close>
  (features/chat/data/repository/message_repository_impl.cpp), the user it runs for
  (core/storage/user_data.cpp), and \<open>MessageUsecase\<close>
  (features/chat/domain/usecase/message_usecase.cpp), which marks and sorts what is shown. The
  history cache is the one of \<open>Message_History\<close>; the response of the server comes in as an argument;
  the results of a future are a list.
\<close>

section \<open>The current user\<close>

record CurrentUser =
  cu_username :: string
  cu_user_id :: string

text \<open>\<open>UserData::getCurrentUser\<close> on what \<open>AuthStorage::read\<close> answered.\<close>

definition current_user :: "json option \<Rightarrow> CurrentUser option" where
  "current_user session =
     (case session of
        None \<Rightarrow> None
      | Some j \<Rightarrow>
          (let user = to_object (obj_value j ''user''); name = obj_value user ''username''; i = obj_value user ''id''
           in if to_int 0 (obj_value j ''version'') \<noteq> 1 \<or> \<not> is_string name \<or> \<not> is_string i then None
              else Some \<lparr>cu_username = to_string name, cu_user_id = to_string i\<rparr>))"

definition getCurrentUser :: "auth_lib \<Rightarrow> auth_env \<Rightarrow> auth_files \<Rightarrow> CurrentUser option \<times> auth_files" where
  "getCurrentUser L env fs = (case auth_read L env fs of (j, fs') \<Rightarrow> (current_user j, fs'))"

definition currentUserId :: "string \<Rightarrow> CurrentUser option \<Rightarrow> string" where
  "currentUserId own_jid user =
     (let i = first_section CHR ''@'' own_jid
      in if i \<noteq> [] then i else case user of Some u \<Rightarrow> cu_user_id u | None \<Rightarrow> [])"

section \<open>Pages\<close>

text \<open>A domain response is a page in the order of \<open>toDomain\<close>; \<open>ord\<close> is the traversal of its hash tables.\<close>

definition domain_response :: "(MessageItemDto list \<Rightarrow> (string \<times> string) list) \<Rightarrow> MessageDto \<Rightarrow> MessageDto" where
  "domain_response ord d = d\<lparr>messages := toDomain (ord (messages d)) (messages d)\<rparr>"

definition empty_response :: MessageDto where
  "empty_response = \<lparr>messages = [], page = 0, limit = 0, total = 0, total_pages = 0\<rparr>"

definition localMessages ::
    "'s message_cache \<Rightarrow> text_env \<Rightarrow> (MessageItemDto list \<Rightarrow> (string \<times> string) list) \<Rightarrow> string \<Rightarrow> string \<Rightarrow> int \<Rightarrow> 's \<Rightarrow>
     MessageDto \<times> 's" where
  "localMessages C E ord account user pg s = (case hist_read C E account user pg s of (d, s') \<Rightarrow> (domain_response ord d, s'))"

text \<open>\<open>operator>\<close> of strings, by code units.\<close>

fun str_less :: "string \<Rightarrow> string \<Rightarrow> bool" where
  "str_less _ [] \<longleftrightarrow> False"
| "str_less [] (_ # _) \<longleftrightarrow> True"
| "str_less (c # cs) (d # ds) \<longleftrightarrow> (of_char c :: nat) < of_char d \<or> c = d \<and> str_less cs ds"

text \<open>\<open>fetchMessageById\<close> until the request is sent: the cached page and what is shown of it.\<close>

definition fetch_begin ::
    "'s message_cache \<Rightarrow> text_env \<Rightarrow> (MessageItemDto list \<Rightarrow> (string \<times> string) list) \<Rightarrow> string \<Rightarrow> string \<Rightarrow> int \<Rightarrow> 's \<Rightarrow>
     MessageDto list \<times> MessageDto \<times> 's" where
  "fetch_begin C E ord account user pg s =
     (if pg = 1
      then (let (cache, s') = localMessages C E ord account user pg s
            in (if messages cache \<noteq> [] then [cache] else [], cache, s'))
      else ([], empty_response, s))"

text \<open>What the server sent, if it can be used.\<close>

definition server_page :: "text_env \<Rightarrow> int \<Rightarrow> 'u NetworkResponse \<Rightarrow> MessageDto option" where
  "server_page E pg resp =
     (if \<not> isSuccess resp then None
      else case json_parse (json_read E) (rbody resp) of
             None \<Rightarrow> None
           | Some doc \<Rightarrow>
               (if \<not> is_object doc then None
                else case message_fromJson (longlong E) (json_print E) (json_read E) doc of
                       None \<Rightarrow> None
                     | Some d \<Rightarrow> if page d \<noteq> pg then None else Some d))"

definition fetch_answer ::
    "'s message_cache \<Rightarrow> text_env \<Rightarrow> (MessageItemDto list \<Rightarrow> (string \<times> string) list) \<Rightarrow> string \<Rightarrow> string \<Rightarrow> int \<Rightarrow>
     MessageDto \<Rightarrow> 'u NetworkResponse \<Rightarrow> 's \<Rightarrow> MessageDto list \<times> 's" where
  "fetch_answer C E ord account user pg cache resp s =
     (case server_page E pg resp of
        None \<Rightarrow> ([], s)
      | Some d \<Rightarrow>
          (if messages d = [] then (if messages cache = [] then [empty_response] else [], s)
           else
             (let server = domain_response ord d
              in if pg \<noteq> 1 then ([server], s)
                 else if messages cache = [] \<or> str_less (sent_at (last (messages cache))) (sent_at (last (messages server)))
                 then ([server], snd (hist_savePage C E account user d s))
                 else ([], s))))"

definition fetchMessageById ::
    "'s message_cache \<Rightarrow> text_env \<Rightarrow> (MessageItemDto list \<Rightarrow> (string \<times> string) list) \<Rightarrow> string \<Rightarrow> string \<Rightarrow> int \<Rightarrow>
     'u NetworkResponse \<Rightarrow> 's \<Rightarrow> MessageDto list \<times> 's" where
  "fetchMessageById C E ord account user pg resp s =
     (if pg < 1 then ([], s)
      else
        (let (shown, cache, s) = fetch_begin C E ord account user pg s;
             (more, s) = fetch_answer C E ord account user pg cache resp s
         in (shown @ more, s)))"

section \<open>Messages sent and received\<close>

definition item_of :: "PayloadDto \<Rightarrow> MessageItemDto" where
  "item_of p = \<lparr>item_id = message_id p, sender_id = payload_sender p, recipient_id = receiver_id p, item_body = p, sent_at = []\<rparr>"

definition persistMessage :: "'s message_cache \<Rightarrow> text_env \<Rightarrow> string \<Rightarrow> string \<Rightarrow> MessageItemDto \<Rightarrow> 's \<Rightarrow> 's" where
  "persistMessage C E account conversation m s = snd (hist_saveMessage C E account conversation m s)"

text \<open>The body that is posted to the server, \<open>MesssageStore\<close>, and what is kept here.\<close>

definition message_store_toJson :: "string \<Rightarrow> string \<Rightarrow> json" where
  "message_store_toJson recipient msg = object [(''recipient_id'', JStr recipient), (''body'', JStr msg)]"

definition repo_saveMessage :: "'s message_cache \<Rightarrow> text_env \<Rightarrow> string \<Rightarrow> string \<Rightarrow> string \<Rightarrow> 's \<Rightarrow> json \<times> 's" where
  "repo_saveMessage C E account receiver msg s =
     (message_store_toJson receiver msg,
      case payload_fromJsonString (longlong E) (json_read E) msg of
        None \<Rightarrow> s
      | Some p \<Rightarrow> persistMessage C E account receiver (item_of p) s)"



section \<open>\<open>MessageUsecase\<close>\<close>

definition without_dashes :: "string \<Rightarrow> string" where
  "without_dashes x = filter (\<lambda>c. c \<noteq> CHR ''-'') x"

text \<open>A message on show carries the mark \<open>is_mine\<close>; \<open>epoch\<close> is \<open>toLongLong\<close> with its success.\<close>

type_synonym shown_item = "bool \<times> MessageItemDto"

definition ts_before :: "(string \<Rightarrow> int option) \<Rightarrow> shown_item \<Rightarrow> shown_item \<Rightarrow> bool" where
  "ts_before epoch l r =
     (case (epoch (timestamp (item_body (snd l))), epoch (timestamp (item_body (snd r)))) of
        (Some a, Some b) \<Rightarrow> a < b
      | (Some a, None) \<Rightarrow> True
      | _ \<Rightarrow> False)"

text \<open>\<open>std::stable_sort\<close>: an element goes before those that are not less than it.\<close>

fun insert_by :: "('a \<Rightarrow> 'a \<Rightarrow> bool) \<Rightarrow> 'a \<Rightarrow> 'a list \<Rightarrow> 'a list" where
  "insert_by before x [] = [x]"
| "insert_by before x (y # ys) = (if before y x then y # insert_by before x ys else x # y # ys)"

definition stable_sort :: "('a \<Rightarrow> 'a \<Rightarrow> bool) \<Rightarrow> 'a list \<Rightarrow> 'a list" where
  "stable_sort before xs = foldr (insert_by before) xs []"

definition show_page :: "(string \<Rightarrow> int option) \<Rightarrow> string \<Rightarrow> MessageDto \<Rightarrow> shown_item list" where
  "show_page epoch me d =
     stable_sort (ts_before epoch) (map (\<lambda>m. (without_dashes (sender_id m) = without_dashes me, m)) (messages d))"

text \<open>\<open>execute\<close>: every result is marked and sorted; a future without results gives an empty one.\<close>

definition message_execute :: "(string \<Rightarrow> int option) \<Rightarrow> string \<Rightarrow> MessageDto list \<Rightarrow> shown_item list list" where
  "message_execute epoch me ds = (if ds = [] then [[]] else map (show_page epoch me) ds)"

definition show_received :: "string \<Rightarrow> string \<Rightarrow> MessageItemDto \<Rightarrow> shown_item option" where
  "show_received listener me m =
     (let i = without_dashes (sender_id m)
      in if i = listener then Some (i = without_dashes me, m) else None)"

definition show_sent :: "string \<Rightarrow> MessageItemDto \<Rightarrow> shown_item" where
  "show_sent me m = (sender_id m = me, m)"

section \<open>The order on show\<close>

lemma insert_by_pages:
  fixes k :: "'a \<Rightarrow> int option"
  defines "before \<equiv> \<lambda>l r. case (k l, k r) of (Some a, Some b) \<Rightarrow> a < b | (Some a, None) \<Rightarrow> True | _ \<Rightarrow> False"
  assumes a: "list_all (\<lambda>x. k x \<noteq> None) xs" and b: "list_all (\<lambda>x. k x = None) ys"
  shows "insert_by before x (xs @ ys) = (if k x = None then xs @ x # ys else insort_key (\<lambda>y. the (k y)) x xs @ ys)"
proof -
  have n: "before y z \<longleftrightarrow> k y \<noteq> None \<and> (k z = None \<or> the (k y) < the (k z))" for y z
    by (auto simp: before_def split: option.splits)
  have e: "insert_by before x ys = x # ys"
    using b by (cases ys) (auto simp: n)
  show ?thesis
    using a by (induction xs) (auto simp: e n)
qed

lemma stable_sort_key:
  fixes k :: "'a \<Rightarrow> int option"
  shows "stable_sort (\<lambda>l r. case (k l, k r) of (Some a, Some b) \<Rightarrow> a < b | (Some a, None) \<Rightarrow> True | _ \<Rightarrow> False) xs
    = sort_key (\<lambda>y. the (k y)) (filter (\<lambda>x. k x \<noteq> None) xs) @ filter (\<lambda>x. k x = None) xs"
proof (induction xs)
  case Nil
  show ?case by (simp add: stable_sort_def)
next
  case (Cons x xs)
  have "list_all (\<lambda>x. k x \<noteq> None) (sort_key (\<lambda>y. the (k y)) (filter (\<lambda>x. k x \<noteq> None) xs))"
    "list_all (\<lambda>x. k x = None) (filter (\<lambda>x. k x = None) xs)" by (auto simp: list_all_iff)
  from insert_by_pages [of k, OF this, of x] Cons show ?case
    by (simp add: stable_sort_def)
qed

lemma sort_key_map: "sort_key f (map g xs) = map g (sort_key (\<lambda>x. f (g x)) xs)"
proof (induction xs)
  case (Cons x xs)
  have "insort_key f (g x) (map g ys) = map g (insort_key (\<lambda>x. f (g x)) x ys)" for ys by (induction ys) auto
  with Cons show ?case by simp
qed simp

definition epoch_of :: "(string \<Rightarrow> int option) \<Rightarrow> MessageItemDto \<Rightarrow> int option" where
  "epoch_of epoch m = epoch (timestamp (item_body m))"

definition marked :: "string \<Rightarrow> MessageItemDto \<Rightarrow> shown_item" where
  "marked me m = (without_dashes (sender_id m) = without_dashes me, m)"

lemma show_page_sorted:
  "show_page epoch me d = map (marked me)
    (sort_key (\<lambda>m. the (epoch_of epoch m)) (filter (\<lambda>m. epoch_of epoch m \<noteq> None) (messages d))
     @ filter (\<lambda>m. epoch_of epoch m = None) (messages d))"
proof -
  have t: "ts_before epoch = (\<lambda>l r. case (epoch_of epoch (snd l), epoch_of epoch (snd r)) of
      (Some a, Some b) \<Rightarrow> a < b | (Some a, None) \<Rightarrow> True | _ \<Rightarrow> False)"
    by (intro ext) (simp add: ts_before_def epoch_of_def)
  have m: "(\<lambda>m. (without_dashes (sender_id m) = without_dashes me, m)) = marked me"
    by (simp add: fun_eq_iff marked_def)
  have s: "epoch_of epoch (snd (marked me x)) = epoch_of epoch x" for x by (simp add: marked_def)
  show ?thesis
    unfolding show_page_def m t stable_sort_key by (simp add: filter_map sort_key_map o_def s)
qed


section \<open>What is received and what is read\<close>







lemma merge_live_page: "page (merge_live ms d) = page d"
  by (induction ms d rule: merge_live.induct) auto

lemma hist_read_page: "page (fst (hist_read C E account user pg s)) = pg"
proof -
  have d: "page (decode_snapshot E n found) = n" for n found
    by (simp add: decode_snapshot_def no_messages_def split: option.splits json.splits)
  have r: "page (fst (hist_readSnapshot C E account user n live t)) = n" for n live t
    by (simp add: hist_readSnapshot_def d split: prod.splits)
  have m: "page (if messages e = [] then e else e\<lparr>total_pages := n\<rparr>) = page e" for e :: MessageDto and n by simp
  show ?thesis
    unfolding hist_read_def Let_def
    using r [of pg False s] by (auto simp: m merge_live_page split: prod.splits)
qed

lemma domain_response_page: "page (domain_response ord d) = page d"
  by (simp add: domain_response_def)

lemma server_page_number: "server_page E pg resp = Some d \<Longrightarrow> page d = pg"
  by (auto simp: server_page_def split: if_splits option.splits)

lemma fetch_answer_pages:
  "list_all (\<lambda>d. page d = pg \<or> d = empty_response) (fst (fetch_answer C E ord account user pg cache resp s))
   \<and> length (fst (fetch_answer C E ord account user pg cache resp s)) \<le> 1"
  by (auto simp: fetch_answer_def Let_def domain_response_page server_page_number split: option.splits)

lemma fetch_begin_pages:
  "list_all (\<lambda>d. page d = pg) (fst (fetch_begin C E ord account user pg s))
   \<and> length (fst (fetch_begin C E ord account user pg s)) \<le> 1"
  using hist_read_page [of C E account user 1 s]
  by (auto simp: fetch_begin_def localMessages_def Let_def domain_response_page split: prod.splits)

section \<open>A conversation without a server\<close>







section \<open>What a conversation shows\<close>

text \<open>
  Whatever order a page has, the use case shows its messages with a readable time stamp first,
  sorted by it and those of the same time in the order of the page, then the others in the order of the
  page, each marked as the user's own when its sender is the user.
\<close>

theorem shown_in_order:
  "show_page epoch me d = map (\<lambda>m. (without_dashes (sender_id m) = without_dashes me, m))
    (sort_key (\<lambda>m. the (epoch (timestamp (item_body m)))) (filter (\<lambda>m. epoch (timestamp (item_body m)) \<noteq> None) (messages d))
     @ filter (\<lambda>m. epoch (timestamp (item_body m)) = None) (messages d))"
  using show_page_sorted [of epoch me d] by (simp add: epoch_of_def marked_def)

text \<open>
  Fetching a page gives at most the cached one and one from the server, each with the
  number that was asked for or empty, nothing for a number below one, and the use case always shows a result.
\<close>

theorem fetch_pages:
  "list_all (\<lambda>d. page d = pg \<or> d = empty_response) (fst (fetchMessageById C E ord account user pg resp s))
   \<and> length (fst (fetchMessageById C E ord account user pg resp s)) \<le> (if pg < 1 then 0 else if pg = 1 then 2 else 1)
   \<and> message_execute epoch me (fst (fetchMessageById C E ord account user pg resp s)) \<noteq> []"
proof -
  have e: "message_execute epoch me ds \<noteq> []" for ds by (simp add: message_execute_def)
  show ?thesis
  proof (cases "pg < 1")
    case True
    then show ?thesis using e by (simp add: fetchMessageById_def)
  next
    case False
    obtain on_show cache s1 where b: "fetch_begin C E ord account user pg s = (on_show, cache, s1)"
      by (cases "fetch_begin C E ord account user pg s") auto
    have n: "pg \<noteq> 1 \<Longrightarrow> on_show = []" using b by (simp add: fetch_begin_def)
    show ?thesis
      using fetch_begin_pages [of pg C E ord account user s] fetch_answer_pages [of pg C E ord account user cache resp s1] False n e
      by (auto simp: fetchMessageById_def b list_all_iff split: prod.splits)
  qed
qed



end
