(* ===== verification/Send_Usecase.thy ===== *)
theory Send_Usecase
  imports Message_Repository
begin

text \<open>
  \<open>SendMessageUsecase\<close> (features/chat/domain/usecase/send_message_usecase.cpp): it fills in the payload
  of a text, a sticker, a voice message or the attachments of a batch, hands it to the repository of
  \<open>Send_Queue\<close>, and collects the outcomes of a batch. The user, the time and the UUIDs are arguments.
\<close>

section \<open>Single messages\<close>

definition new_payload :: Payload where
  "new_payload = \<lparr>message_id = [], payload_sender = [], receiver_id = [], reply_message_id = [], timestamp = [],
     payload_content = default_content, attachment_batch_id = [], attachment_index = - 1, is_mine = False, localpath = []\<rparr>"

definition send_execute ::
    "send_env \<Rightarrow> string \<Rightarrow> string \<Rightarrow> string \<Rightarrow> string \<Rightarrow> string \<Rightarrow> sender \<Rightarrow> send_effect list \<times> (send_outcome + nat) \<times> sender" where
  "send_execute E me now uuid receiver msg s =
     sendMessage E (new_payload\<lparr>payload_sender := me, receiver_id := receiver, message_id := uuid, timestamp := now,
       payload_content := default_content\<lparr>c_text := msg\<rparr>\<rparr>) s"

definition send_sticker ::
    "send_env \<Rightarrow> string \<Rightarrow> string \<Rightarrow> string \<Rightarrow> string \<Rightarrow> string \<Rightarrow> sender \<Rightarrow> send_effect list \<times> (send_outcome + nat) \<times> sender" where
  "send_sticker E me now uuid receiver sticker_path s =
     sendSticker E (new_payload\<lparr>payload_sender := me, receiver_id := receiver, message_id := uuid, timestamp := now,
       payload_content := default_content\<lparr>c_type := Sticker, media_url := sticker_path\<rparr>\<rparr>) s"

text \<open>\<open>file\<close> is the fully encoded URL and \<open>present\<close> says that it names a local file that is not empty.\<close>

definition send_voice ::
    "send_env \<Rightarrow> string \<Rightarrow> string \<Rightarrow> string \<Rightarrow> string \<Rightarrow> string \<Rightarrow> bool \<Rightarrow> file_facts \<Rightarrow> int \<Rightarrow> string \<Rightarrow> sender \<Rightarrow>
     send_effect list \<times> (send_outcome + nat) \<times> sender" where
  "send_voice E me now uuid receiver file present info dur messageId s =
     (if receiver = [] \<or> \<not> present \<or> dur \<le> 0
      then ([], Inl (Result ''Record audio before sending a voice message.''), s)
      else
        sendVoice E info file (new_payload\<lparr>is_mine := True, payload_sender := me, receiver_id := receiver,
          message_id := (if messageId = [] then uuid else messageId), timestamp := now,
          payload_content := default_content\<lparr>c_type := Voice, c_text := ''Voice message'', fileSize := byte_size info,
            file_name := plain_name info, duration := dur, media_url := file\<rparr>,
          localpath := local_file E file\<rparr>) s)"

section \<open>Batches\<close>








text \<open>The watcher of a child; \<open>remaining\<close> and \<open>error\<close> are shared by the children of a batch.\<close>

record batch =
  remaining :: int
  batch_error :: string
  batch_result :: "string option"

definition new_batch :: "nat \<Rightarrow> batch" where
  "new_batch n = \<lparr>remaining = int n, batch_error = [], batch_result = None\<rparr>"

definition failure_text :: "send_outcome \<Rightarrow> string" where
  "failure_text r =
     (case r of
        Canceled \<Rightarrow> ''Upload canceled.''
      | Result e \<Rightarrow> e
      | Exception \<Rightarrow> ''File upload failed. Please retry.'')"

definition settle :: "send_outcome \<Rightarrow> batch \<Rightarrow> bool \<times> batch" where
  "settle r b =
     (let ok = r = Result []; e = (if ok then batch_error b else failure_text r); n = remaining b - 1
      in (ok, b\<lparr>remaining := n, batch_error := e, batch_result := (if n = 0 then Some e else batch_result b)\<rparr>))"

definition settle_all :: "send_outcome list \<Rightarrow> batch \<Rightarrow> batch" where
  "settle_all rs b = foldl (\<lambda>b r. snd (settle r b)) b rs"

text \<open>
  The cancellation of the whole batch cancels the futures that are not finished, and so their own
  cancellations: the indices of those children are \<open>cs\<close>.
\<close>

fun cancel_batch :: "nat list \<Rightarrow> sender \<Rightarrow> sender" where
  "cancel_batch [] s = s"
| "cancel_batch (c # cs) s = cancel_batch cs (snd (cancel_ref c s))"

section \<open>What a batch announces\<close>

fun announced :: "send_effect list \<Rightarrow> MessageItemDto list" where
  "announced [] = []"
| "announced (MessageSent i # es) = i # announced es"
| "announced (_ # es) = announced es"

lemma announced_append [simp]: "announced (es @ fs) = announced es @ announced fs"
  by (induction es rule: announced.induct) auto








section \<open>The outcome of a batch\<close>

definition failures :: "send_outcome list \<Rightarrow> send_outcome list" where
  "failures rs = filter (\<lambda>r. r \<noteq> Result []) rs"

lemma settle_all_counts:
  "length rs \<le> k \<Longrightarrow> 0 < k \<Longrightarrow> remaining b = int k \<Longrightarrow> batch_result b = None \<Longrightarrow>
   batch_error (settle_all rs b) = (if failures rs = [] then batch_error b else failure_text (last (failures rs)))
   \<and> batch_result (settle_all rs b)
      = (if length rs < k then None
         else Some (if failures rs = [] then batch_error b else failure_text (last (failures rs))))"
proof (induction rs arbitrary: k b)
  case Nil
  then show ?case by (simp add: settle_all_def failures_def)
next
  case (Cons r rs)
  let ?b = "snd (settle r b)"
  have s: "settle_all (r # rs) b = settle_all rs ?b" by (simp add: settle_all_def)
  have e: "batch_error ?b = (if r = Result [] then batch_error b else failure_text r)" by (simp add: settle_def Let_def)
  have n: "remaining ?b = int k - 1" "batch_result ?b = (if k = 1 then Some (batch_error ?b) else None)"
    using Cons.prems by (auto simp: settle_def Let_def)
  show ?case
  proof (cases "k = 1")
    case True
    then have "rs = []" using Cons.prems by simp
    then show ?thesis unfolding s using n True by (simp add: settle_all_def e failures_def)
  next
    case False
    then have "remaining ?b = int (k - 1)" "batch_result ?b = None" using n Cons.prems by auto
    from Cons.IH [OF _ _ this] show ?thesis
      unfolding s e using Cons.prems False by (auto simp: failures_def)
  qed
qed

section \<open>Properties of a batch\<close>






text \<open>
  The result of a batch is there exactly when its last child has settled, in whatever order
  they do; it is empty when all succeeded and otherwise the text of the last failure.
\<close>

theorem batch_outcome:
  assumes "length rs \<le> n" and "0 < n"
  shows "batch_result (settle_all rs (new_batch n))
    = (if length rs < n then None
       else Some (case rev (filter (\<lambda>r. r \<noteq> Result []) rs) of [] \<Rightarrow> [] | r # _ \<Rightarrow> failure_text r))"
proof -
  have "last fs = hd (rev fs)" if "fs \<noteq> []" for fs :: "send_outcome list" using that by (simp add: hd_rev)
  then have e: "(if fs = [] then [] else failure_text (last fs)) = (case rev fs of [] \<Rightarrow> [] | r # _ \<Rightarrow> failure_text r)" for fs
    by (cases "rev fs") auto
  have "remaining (new_batch n) = int n" "batch_result (new_batch n) = None" "batch_error (new_batch n) = []"
    by (simp_all add: new_batch_def)
  with settle_all_counts [OF assms, of "new_batch n"] show ?thesis
    unfolding e [symmetric] failures_def [symmetric] by simp
qed

theorem batch_outcome_witness:
  "batch_result (settle_all [Result ''full'', Canceled] (new_batch 3)) = None
   \<and> batch_result (settle_all [Result ''full'', Canceled, Result []] (new_batch 3)) = Some ''Upload canceled.''"
  using batch_outcome [of "[Result ''full'', Canceled]" 3] batch_outcome [of "[Result ''full'', Canceled, Result []]" 3]
  by (simp add: failure_text_def)

end
