(* ===== verification/Message_View.thy ===== *)
theory Message_View
  imports Send_Usecase
begin

text \<open>
  \<open>MessagingViewModel\<close> (features/chat/presentation/viewmodel/messaging_vm.cpp): the rows of the
  conversation on show, how pages are reconciled with them, and the states of uploads and downloads.
  What it tells a view are lists of signals in the order of emission; the use cases below it, the file
  system and the calendar are arguments. The fractions it shows as progress are exact numbers.
\<close>

section \<open>Dates\<close>

text \<open>The calendar: \<open>toLongLong\<close>, the day and the texts of an epoch in local time, and the current day.\<close>

record calendar =
  epoch_value :: "string \<Rightarrow> int option"
  day_of :: "int \<Rightarrow> int"
  day_valid :: "int \<Rightarrow> bool"
  this_day :: int
  clock_text :: "int \<Rightarrow> string"
  weekday_text :: "int \<Rightarrow> string"
  date_text :: "int \<Rightarrow> string"

definition formateConversationDate :: "calendar \<Rightarrow> string \<Rightarrow> string" where
  "formateConversationDate K e =
     (case epoch_value K e of
        None \<Rightarrow> ''N/A''
      | Some t \<Rightarrow>
          (if day_of K t = this_day K then clock_text K t
           else if day_of K t = this_day K - 1 then ''Yesterday''
           else if this_day K - 7 < day_of K t then weekday_text K t
           else date_text K t))"

definition sectionForDate :: "calendar \<Rightarrow> string \<Rightarrow> string" where
  "sectionForDate K e =
     (case epoch_value K e of
        None \<Rightarrow> []
      | Some t \<Rightarrow>
          (if \<not> day_valid K t then []
           else if day_of K t = this_day K then ''Today''
           else if day_of K t = this_day K - 1 then ''Yesterday''
           else date_text K t))"

section \<open>State\<close>

text \<open>A message of the domain with what only the view model knows of it.\<close>

record view_item =
  vi_id :: string
  vi_sender :: string
  vi_recipient :: string
  vi_body :: Payload
  vi_sent_at :: string
  vi_mine :: bool
  vi_sending :: bool
  vi_success :: bool

record response =
  rs_messages :: "view_item list"
  rs_page :: int
  rs_limit :: int
  rs_total :: int
  rs_total_pages :: int

record upload_state =
  up_message :: string
  up_index :: int
  up_progress :: rat
  up_active :: bool
  up_canceled :: bool

record download_state =
  dn_message :: string
  dn_progress :: rat
  dn_active :: bool
  dn_file :: string
  dn_error :: string

record message_view =
  shown :: response
  displayDates :: "string list"
  sections :: "string list"
  activeConversation :: string
  displayedConversation :: string
  fetchRequest :: nat
  isLoading :: bool
  fileUploads :: "string \<Rightarrow> upload_state option"
  fileDownloads :: "string \<Rightarrow> download_state option"
  cachedFileUrls :: "string \<Rightarrow> string option"
  imageUrls :: "string list"
  sendSuccess :: bool
  attachmentWatcher :: "nat option"
  attachmentCancellation :: "nat option"
  cancelingAttachments :: bool
  attachmentError :: string
  next_watcher :: nat

definition no_response :: response where
  "no_response = \<lparr>rs_messages = [], rs_page = 0, rs_limit = 0, rs_total = 0, rs_total_pages = 0\<rparr>"

definition new_message_view :: message_view where
  "new_message_view = \<lparr>shown = no_response, displayDates = [], sections = [], activeConversation = [],
     displayedConversation = [], fetchRequest = 0, isLoading = False, fileUploads = (\<lambda>_. None), fileDownloads = (\<lambda>_. None),
     cachedFileUrls = (\<lambda>_. None), imageUrls = [], sendSuccess = False, attachmentWatcher = None,
     attachmentCancellation = None, cancelingAttachments = False, attachmentError = [], next_watcher = 0\<rparr>"

text \<open>A reset is told with the number of rows the view finds after it.\<close>

datatype view_signal =
    RowsInserted nat nat
  | RowsRemoved nat nat
  | RowMoved nat nat
  | ModelReset nat
  | DataChanged nat
  | LoadingChanged
  | MessageChanged
  | InitialMessagesLoaded
  | OlderMessagesLoaded nat
  | ImageUrlsChanged
  | SendSuccessChanged
  | AttachmentUploadChanged
  | AttachmentUploadFinished bool
  | FetchPage nat string int
  | StartDownload string string
  | CancelDownload string
  | CancelTransfer string
  | CancelBatch nat
  | SendBatch nat string
  | LookUpFile string string nat

text \<open>What the file system and the media cache answer; \<open>upload_order\<close> is the order of the hash table.\<close>

record view_env =
  calendar_of :: calendar
  is_file :: "string \<Rightarrow> bool"
  is_local_url :: "string \<Rightarrow> bool"
  url_path :: "string \<Rightarrow> string"
  path_url :: "string \<Rightarrow> string"
  same_url :: "string \<Rightarrow> string \<Rightarrow> bool"
  kept_file :: "string \<Rightarrow> string"
  cached_image :: "string \<Rightarrow> string \<Rightarrow> string"
  migrates_image :: "string \<Rightarrow> string \<Rightarrow> bool"
  migrated_image :: "string \<Rightarrow> string \<Rightarrow> string"
  media_service :: bool
  upload_order :: "(string \<Rightarrow> upload_state option) \<Rightarrow> string list"

abbreviation items :: "message_view \<Rightarrow> view_item list" where
  "items v \<equiv> rs_messages (shown v)"

section \<open>Rows\<close>

definition with_items :: "view_item list \<Rightarrow> message_view \<Rightarrow> message_view" where
  "with_items ms v = v\<lparr>shown := (shown v)\<lparr>rs_messages := ms\<rparr>\<rparr>"

definition insert_at :: "nat \<Rightarrow> 'a \<Rightarrow> 'a list \<Rightarrow> 'a list" where
  "insert_at n x xs = take n xs @ x # drop n xs"

definition remove_at :: "nat \<Rightarrow> 'a list \<Rightarrow> 'a list" where
  "remove_at n xs = take n xs @ drop (n + 1) xs"

text \<open>\<open>QList::move\<close> to a smaller index.\<close>

definition move_back :: "nat \<Rightarrow> nat \<Rightarrow> 'a list \<Rightarrow> 'a list" where
  "move_back from to xs = insert_at to (xs ! from) (remove_at from xs)"

definition insert_row :: "nat \<Rightarrow> view_item \<Rightarrow> string \<Rightarrow> string \<Rightarrow> message_view \<Rightarrow> message_view" where
  "insert_row n m d s v =
     (with_items (insert_at n m (items v)) v)\<lparr>displayDates := insert_at n d (displayDates v), sections := insert_at n s (sections v)\<rparr>"

definition move_row :: "nat \<Rightarrow> nat \<Rightarrow> message_view \<Rightarrow> message_view" where
  "move_row e n v =
     (with_items (move_back e n (items v)) v)\<lparr>displayDates := move_back e n (displayDates v), sections := move_back e n (sections v)\<rparr>"

definition set_row :: "nat \<Rightarrow> view_item \<Rightarrow> string \<Rightarrow> string \<Rightarrow> message_view \<Rightarrow> message_view" where
  "set_row n m d s v =
     (with_items ((items v)[n := m]) v)\<lparr>displayDates := (displayDates v)[n := d], sections := (sections v)[n := s]\<rparr>"

definition remove_row :: "nat \<Rightarrow> message_view \<Rightarrow> message_view" where
  "remove_row n v =
     (with_items (remove_at n (items v)) v)\<lparr>displayDates := remove_at n (displayDates v), sections := remove_at n (sections v)\<rparr>"

definition truncate_rows :: "nat \<Rightarrow> message_view \<Rightarrow> message_view" where
  "truncate_rows n v =
     (with_items (take n (items v)) v)\<lparr>displayDates := take n (displayDates v), sections := take n (sections v)\<rparr>"

text \<open>The first row with a property, as the loops over the rows find it.\<close>

definition find_row :: "(view_item \<Rightarrow> bool) \<Rightarrow> message_view \<Rightarrow> nat option" where
  "find_row P v = (let n = length (takeWhile (\<lambda>m. \<not> P m) (items v)) in if n < length (items v) then Some n else None)"

definition changed_row :: "(view_item \<Rightarrow> bool) \<Rightarrow> message_view \<Rightarrow> view_signal list" where
  "changed_row P v = (case find_row P v of None \<Rightarrow> [] | Some n \<Rightarrow> [DataChanged n])"

definition set_chat_loading :: "bool \<Rightarrow> message_view \<Rightarrow> view_signal list \<times> message_view" where
  "set_chat_loading b v = (if isLoading v = b then ([], v) else ([LoadingChanged], v\<lparr>isLoading := b\<rparr>))"

definition insertMessage :: "view_env \<Rightarrow> view_item \<Rightarrow> message_view \<Rightarrow> view_signal list \<times> message_view" where
  "insertMessage E m v =
     (let n = length (items v); t = timestamp (vi_body m)
      in ([RowsInserted n n, MessageChanged],
          (with_items (items v @ [m]) v)\<lparr>displayDates := displayDates v @ [formateConversationDate (calendar_of E) t],
             sections := sections v @ [sectionForDate (calendar_of E) t]\<rparr>))"

text \<open>\<open>std::sort\<close> with \<open>std::greater\<close> and \<open>std::unique\<close>, then the rows that exist are removed.\<close>

fun remove_rows :: "int list \<Rightarrow> message_view \<Rightarrow> view_signal list \<times> message_view" where
  "remove_rows [] v = ([], v)"
| "remove_rows (r # rs) v =
     (if r < 0 \<or> int (length (items v)) \<le> r then remove_rows rs v
      else (let (es, u) = remove_rows rs (remove_row (nat r) v) in (RowsRemoved (nat r) (nat r) # es, u)))"

definition deleteMessage :: "int list \<Rightarrow> message_view \<Rightarrow> view_signal list \<times> message_view" where
  "deleteMessage rs v = remove_rows (remdups_adj (rev (sort rs))) v"

definition updateMessageSeningStatus :: "string \<Rightarrow> bool \<Rightarrow> message_view \<Rightarrow> view_signal list \<times> message_view" where
  "updateMessageSeningStatus i b v =
     (case find_row (\<lambda>m. message_id (vi_body m) = i) v of
        None \<Rightarrow> ([], v)
      | Some n \<Rightarrow> ([DataChanged n], with_items ((items v)[n := (items v ! n)\<lparr>vi_sending := b\<rparr>]) v))"

definition on_message_updated :: "view_item \<Rightarrow> message_view \<Rightarrow> view_signal list \<times> message_view" where
  "on_message_updated m v =
     (case find_row (\<lambda>x. vi_id x = vi_id m \<and> vi_recipient x = vi_recipient m) v of
        None \<Rightarrow> ([], v)
      | Some n \<Rightarrow>
          (let x = items v ! n; b = (vi_body x)\<lparr>payload_content := payload_content (vi_body m), localpath := localpath (vi_body m)\<rparr>
           in ([DataChanged n], with_items ((items v)[n := x\<lparr>vi_body := b\<rparr>]) v)))"

definition on_message_received :: "view_env \<Rightarrow> view_item \<Rightarrow> message_view \<Rightarrow> view_signal list \<times> message_view" where
  "on_message_received E m v =
     (if without_dashes (vi_sender m) = activeConversation v then insertMessage E m v else ([], v))"

definition on_message_sent :: "view_env \<Rightarrow> view_item \<Rightarrow> message_view \<Rightarrow> view_signal list \<times> message_view" where
  "on_message_sent E m v =
     (let (es, v) = (if without_dashes (vi_recipient m) = activeConversation v then insertMessage E m v else ([], v));
          (fs, v) = updateMessageSeningStatus (vi_id m) True v
      in (es @ fs, v))"

section \<open>Pages\<close>

definition kept_path :: "view_item \<Rightarrow> view_item \<Rightarrow> view_item" where
  "kept_path old m =
     (if localpath (vi_body m) = [] \<and> media_url (payload_content (vi_body m)) = media_url (payload_content (vi_body old))
      then m\<lparr>vi_body := (vi_body m)\<lparr>localpath := localpath (vi_body old)\<rparr>\<rparr> else m)"

definition refresh_row :: "nat \<Rightarrow> view_item \<Rightarrow> string \<Rightarrow> string \<Rightarrow> message_view \<Rightarrow> view_signal list \<times> message_view" where
  "refresh_row n m d s v =
     (let e = n + length (takeWhile (\<lambda>x. vi_id x \<noteq> vi_id m) (drop n (items v)))
      in if length (items v) \<le> e then ([RowsInserted n n], insert_row n m d s v)
         else
           (let (es, v) = (if e \<noteq> n then ([RowMoved e n], move_row e n v) else ([], v))
            in (es @ [DataChanged n], set_row n (kept_path (items v ! n) m) d s v)))"

fun refresh_rows :: "view_env \<Rightarrow> nat \<Rightarrow> view_item list \<Rightarrow> message_view \<Rightarrow> view_signal list \<times> message_view" where
  "refresh_rows E n [] v = ([], v)"
| "refresh_rows E n (m # ms) v =
     (let t = timestamp (vi_body m);
          (es, v) = refresh_row n m (formateConversationDate (calendar_of E) t) (sectionForDate (calendar_of E) t) v;
          (fs, v) = refresh_rows E (n + 1) ms v
      in (es @ fs, v))"

definition with_numbers :: "response \<Rightarrow> message_view \<Rightarrow> message_view" where
  "with_numbers r v = v\<lparr>shown := (shown v)\<lparr>rs_page := rs_page r, rs_limit := rs_limit r, rs_total := rs_total r,
     rs_total_pages := rs_total_pages r\<rparr>\<rparr>"

definition dates_of :: "view_env \<Rightarrow> view_item list \<Rightarrow> string list" where
  "dates_of E ms = map (\<lambda>m. formateConversationDate (calendar_of E) (timestamp (vi_body m))) ms"

definition sections_of :: "view_env \<Rightarrow> view_item list \<Rightarrow> string list" where
  "sections_of E ms = map (\<lambda>m. sectionForDate (calendar_of E) (timestamp (vi_body m))) ms"

definition applyFetchedMessages :: "view_env \<Rightarrow> response \<Rightarrow> nat \<Rightarrow> message_view \<Rightarrow> view_signal list \<times> message_view" where
  "applyFetchedMessages E r k v =
     (if k \<noteq> fetchRequest v then ([], v)
      else if displayedConversation v = activeConversation v \<and> displayedConversation v \<noteq> []
      then
        (let n = length (rs_messages r);
             (es, v) = refresh_rows E 0 (rs_messages r) v;
             (fs, v) = (if n < length (items v) then ([RowsRemoved n (length (items v) - 1)], truncate_rows n v) else ([], v));
             (gs, v) = set_chat_loading False (with_numbers r v)
         in (es @ fs @ gs @ [MessageChanged], v))
      else
        (let (gs, v) = set_chat_loading False (v\<lparr>shown := r, displayDates := dates_of E (rs_messages r),
               sections := sections_of E (rs_messages r), displayedConversation := activeConversation v\<rparr>)
         in (ModelReset (length (rs_messages r)) # gs @ [InitialMessagesLoaded, MessageChanged], v)))"

definition cancelAttachmentUpload :: "bool \<Rightarrow> message_view \<Rightarrow> view_signal list \<times> message_view" where
  "cancelAttachmentUpload ok v =
     (case attachmentCancellation v of
        Some c \<Rightarrow> (if ok then ([CancelBatch c, AttachmentUploadChanged], v\<lparr>cancelingAttachments := True\<rparr>) else ([CancelBatch c], v))
      | None \<Rightarrow> ([], v))"

text \<open>\<open>ok\<close> says whether the cancellation of the running batch, if there is one, succeeds.\<close>

definition fetchMessage :: "bool \<Rightarrow> string \<Rightarrow> message_view \<Rightarrow> view_signal list \<times> message_view" where
  "fetchMessage ok user v =
     (let c = without_dashes user;
          v = v\<lparr>fetchRequest := fetchRequest v + 1, cachedFileUrls := (\<lambda>_. None)\<rparr>;
          (es, v) = (if c \<noteq> activeConversation v then cancelAttachmentUpload ok v else ([], v));
          (fs, v) = set_chat_loading True (v\<lparr>activeConversation := c\<rparr>)
      in (es @ fs @ [FetchPage (fetchRequest v) c 1], v))"

definition on_fetch_result :: "view_env \<Rightarrow> nat \<Rightarrow> response \<Rightarrow> message_view \<Rightarrow> view_signal list \<times> message_view" where
  "on_fetch_result E k r v =
     (if k \<noteq> fetchRequest v then ([], v)
      else (let (es, v) = set_chat_loading False v; (fs, v) = applyFetchedMessages E r k v in (es @ fs, v)))"

definition on_fetch_finished :: "nat \<Rightarrow> message_view \<Rightarrow> view_signal list \<times> message_view" where
  "on_fetch_finished k v = (if k = fetchRequest v then set_chat_loading False v else ([], v))"

definition fetchNextMessage :: "message_view \<Rightarrow> view_signal list \<times> message_view" where
  "fetchNextMessage v =
     (if isLoading v then ([], v)
      else if activeConversation v = [] \<or> rs_page (shown v) < 1 \<or> rs_total_pages (shown v) \<le> rs_page (shown v)
      then ([OlderMessagesLoaded 0], v)
      else (let (es, u) = set_chat_loading True v in (es @ [FetchPage (fetchRequest v) (activeConversation v) (rs_page (shown v) + 1)], u)))"

definition on_next_result :: "view_env \<Rightarrow> nat \<Rightarrow> int \<Rightarrow> response \<Rightarrow> message_view \<Rightarrow> view_signal list \<times> message_view" where
  "on_next_result E k next_page r v =
     (if k \<noteq> fetchRequest v then ([], v)
      else if rs_page r < 1 then (let (es, v) = set_chat_loading False v in (es @ [OlderMessagesLoaded 0], v))
      else
        (let n = length (rs_messages r);
             (es, v) = (if 0 < n
               then ([RowsInserted 0 (n - 1)],
                     (with_items (rs_messages r @ items v) v)\<lparr>displayDates := dates_of E (rs_messages r) @ displayDates v,
                        sections := sections_of E (rs_messages r) @ sections v\<rparr>)
               else ([], v));
             v = with_numbers (r\<lparr>rs_page := (if 0 < rs_page r then rs_page r else next_page)\<rparr>) v;
             (fs, v) = set_chat_loading False v
         in (es @ fs @ [OlderMessagesLoaded n], v)))"

definition resetModel :: "bool \<Rightarrow> message_view \<Rightarrow> view_signal list \<times> message_view" where
  "resetModel ok v =
     (let (es, v) = cancelAttachmentUpload ok v;
          v = v\<lparr>fetchRequest := fetchRequest v + 1, cachedFileUrls := (\<lambda>_. None), activeConversation := [], displayedConversation := []\<rparr>;
          (fs, v) = set_chat_loading True v;
          v = v\<lparr>shown := no_response, displayDates := [], sections := []\<rparr>;
          (gs, v) = set_chat_loading False v
      in (es @ fs @ ModelReset 0 # gs @ [ImageUrlsChanged, OlderMessagesLoaded 0], v\<lparr>imageUrls := []\<rparr>))"

section \<open>Uploads\<close>

definition upload_of :: "view_env \<Rightarrow> message_view \<Rightarrow> (upload_state \<Rightarrow> bool) \<Rightarrow> string option" where
  "upload_of E v P =
     List.find (\<lambda>i. case fileUploads v i of None \<Rightarrow> False | Some u \<Rightarrow> P u) (upload_order E (fileUploads v))"

definition clamp :: "rat \<Rightarrow> rat" where
  "clamp x = (if x < 0 then 0 else if 1 < x then 1 else x)"

definition setUploadProgress :: "string \<Rightarrow> rat \<Rightarrow> bool \<Rightarrow> message_view \<Rightarrow> view_signal list \<times> message_view" where
  "setUploadProgress i x b v =
     (case fileUploads v i of
        None \<Rightarrow> ([], v)
      | Some u \<Rightarrow>
          (if up_canceled u then ([], v)
           else (changed_row (\<lambda>m. vi_id m = up_message u) v,
                 v\<lparr>fileUploads := (fileUploads v)(i \<mapsto> u\<lparr>up_progress := clamp x, up_active := b\<rparr>)\<rparr>)))"

definition upload_progress :: "string \<Rightarrow> message_view \<Rightarrow> rat" where
  "upload_progress i v = (case fileUploads v i of None \<Rightarrow> 0 | Some u \<Rightarrow> up_progress u)"

definition on_upload_settled :: "string \<Rightarrow> bool \<Rightarrow> message_view \<Rightarrow> view_signal list \<times> message_view" where
  "on_upload_settled i ok v = setUploadProgress i (if ok then 1 else upload_progress i v) False v"

text \<open>The latest message that has the identifier of the upload or shows its file.\<close>

definition on_upload_started :: "view_env \<Rightarrow> string \<Rightarrow> string \<Rightarrow> message_view \<Rightarrow> view_signal list \<times> message_view" where
  "on_upload_started E i path v =
     (case List.find (\<lambda>m. vi_id m = i \<or> same_url E (media_url (payload_content (vi_body m))) path) (rev (items v)) of
        None \<Rightarrow> ([], v)
      | Some m \<Rightarrow>
          setUploadProgress i 0 True (v\<lparr>fileUploads := (fileUploads v)(i \<mapsto>
            \<lparr>up_message = vi_id m, up_index = 0, up_progress = 0, up_active = True, up_canceled = False\<rparr>)\<rparr>))"

definition on_upload_progress :: "string \<Rightarrow> rat \<Rightarrow> message_view \<Rightarrow> view_signal list \<times> message_view" where
  "on_upload_progress i x v =
     (if (case fileUploads v i of None \<Rightarrow> False | Some u \<Rightarrow> up_active u) then setUploadProgress i x True v else ([], v))"

definition on_upload_finished :: "string \<Rightarrow> message_view \<Rightarrow> view_signal list \<times> message_view" where
  "on_upload_finished i v = setUploadProgress i 1 False v"

definition cancelFileUpload_of :: "view_env \<Rightarrow> string \<Rightarrow> int \<Rightarrow> message_view \<Rightarrow> view_signal list" where
  "cancelFileUpload_of E m k v =
     (case upload_of E v (\<lambda>u. up_message u = m \<and> up_index u = k \<and> up_active u) of None \<Rightarrow> [] | Some i \<Rightarrow> [CancelTransfer i])"

section \<open>Files of messages\<close>

definition imageDisplayUrl :: "view_env \<Rightarrow> view_item \<Rightarrow> string" where
  "imageDisplayUrl E m =
     (let c = payload_content (vi_body m); l = localpath (vi_body m)
      in if c_type c = Voice \<and> is_file E l then path_url E l
         else if c_type c = Image \<and> is_file E l then path_url E l
         else if c_type c = Image \<and> vi_mine m
         then
           (let i = vi_id m @ ''-0''; source = cached_image E i (vi_sender m);
                source = (if source = [] \<and> migrates_image E i (vi_sender m) then migrated_image E i (vi_sender m) else source)
            in if source \<noteq> [] then source else media_url c)
         else media_url c)"

definition file_key :: "string \<Rightarrow> string \<Rightarrow> string" where
  "file_key local remote = local @ CHR 0x00 # remote"

definition cachedFileUrl :: "string \<Rightarrow> string \<Rightarrow> message_view \<Rightarrow> string \<times> view_signal list \<times> message_view" where
  "cachedFileUrl local remote v =
     (case cachedFileUrls v (file_key local remote) of
        Some u \<Rightarrow> (u, [], v)
      | None \<Rightarrow> ([], [LookUpFile local remote (fetchRequest v)],
                 v\<lparr>cachedFileUrls := (cachedFileUrls v)(file_key local remote \<mapsto> [])\<rparr>))"

text \<open>What the thread pool looks up, and its answer.\<close>

definition looked_up :: "view_env \<Rightarrow> string \<Rightarrow> string \<Rightarrow> string" where
  "looked_up E local remote =
     (if is_file E local then path_url E local
      else if kept_file E remote \<noteq> [] then path_url E (kept_file E remote) else [])"

definition on_looked_up :: "string \<Rightarrow> string \<Rightarrow> nat \<Rightarrow> string \<Rightarrow> message_view \<Rightarrow> view_signal list \<times> message_view" where
  "on_looked_up local remote k u v =
     (if k \<noteq> fetchRequest v then ([], v)
      else
        (if u = [] then []
         else map DataChanged (filter (\<lambda>n. let c = payload_content (vi_body (items v ! n)) in c_type c = File \<and> media_url c = remote)
                [0..<length (items v)]),
         v\<lparr>cachedFileUrls := (cachedFileUrls v)(file_key local remote \<mapsto> u)\<rparr>))"

definition getImageList :: "view_env \<Rightarrow> message_view \<Rightarrow> view_signal list \<times> message_view" where
  "getImageList E v =
     ([ImageUrlsChanged],
      v\<lparr>imageUrls := map (imageDisplayUrl E) (filter (\<lambda>m. c_type (payload_content (vi_body m)) = Image) (items v))\<rparr>)"

section \<open>Downloads\<close>

definition no_download :: download_state where
  "no_download = \<lparr>dn_message = [], dn_progress = 0, dn_active = False, dn_file = [], dn_error = []\<rparr>"

definition download_of :: "string \<Rightarrow> message_view \<Rightarrow> download_state" where
  "download_of i v = (case fileDownloads v i of None \<Rightarrow> no_download | Some d \<Rightarrow> d)"

definition notifyFileDownload :: "string \<Rightarrow> message_view \<Rightarrow> view_signal list" where
  "notifyFileDownload i v = changed_row (\<lambda>m. vi_id m = dn_message (download_of i v)) v"

definition put_download :: "string \<Rightarrow> download_state \<Rightarrow> message_view \<Rightarrow> view_signal list \<times> message_view" where
  "put_download i d v =
     (let v = v\<lparr>fileDownloads := (fileDownloads v)(i \<mapsto> d)\<rparr> in (notifyFileDownload i v, v))"

definition number_text :: "int \<Rightarrow> string" where
  "number_text k = (if k < 0 then CHR ''-'' # from_utf8 (decimal (nat (- k))) else from_utf8 (decimal (nat k)))"

definition transfer_id :: "string \<Rightarrow> int \<Rightarrow> string" where
  "transfer_id m k = (if k = 0 then m else m @ '':content:'' @ number_text k)"

definition downloadFile :: "view_env \<Rightarrow> string \<Rightarrow> int \<Rightarrow> message_view \<Rightarrow> view_signal list \<times> message_view" where
  "downloadFile E i k v =
     (let t = transfer_id i k
      in if dn_active (download_of t v) then ([], v)
         else
           case List.find (\<lambda>m. \<not> (vi_id m \<noteq> i \<or> k \<noteq> 0 \<or> c_type (payload_content (vi_body m)) \<noteq> File)) (items v) of
             None \<Rightarrow> ([], v)
           | Some m \<Rightarrow>
               (let source = media_url (payload_content (vi_body m)); d = no_download\<lparr>dn_message := i\<rparr>
                in if is_local_url E source \<and> is_file E (url_path E source)
                   then put_download t (d\<lparr>dn_file := source, dn_progress := 1\<rparr>) v
                   else if \<not> media_service E
                   then put_download t (d\<lparr>dn_error := ''File download service is unavailable.''\<rparr>) v
                   else (let (es, v) = put_download t d v in (es @ [StartDownload (''file:'' @ t) source], v))))"

definition cancelFileDownload :: "view_env \<Rightarrow> string \<Rightarrow> int \<Rightarrow> message_view \<Rightarrow> view_signal list \<times> message_view" where
  "cancelFileDownload E i k v =
     (let t = transfer_id i k
      in case fileDownloads v t of
           None \<Rightarrow> ([], v)
         | Some d \<Rightarrow>
             (if \<not> dn_active d then ([], v)
              else (let (es, v) = put_download t (d\<lparr>dn_active := False, dn_progress := 0\<rparr>) v
                    in ((if media_service E then [CancelDownload (''file:'' @ t)] else []) @ es, v))))"

datatype transfer_event =
    Started
  | Progressed int int
  | Completed string
  | Failed string

definition download_step :: "view_env \<Rightarrow> transfer_event \<Rightarrow> download_state \<Rightarrow> download_state option" where
  "download_step E e d =
     (case e of
        Started \<Rightarrow> Some (d\<lparr>dn_active := True\<rparr>)
      | Progressed received whole \<Rightarrow>
          (if \<not> dn_active d \<or> whole \<le> 0 \<or> received < 0 then None
           else (let x = clamp (of_int received / of_int whole)
                 in if x \<le> dn_progress d then None else Some (d\<lparr>dn_progress := x\<rparr>)))
      | Completed path \<Rightarrow>
          (if \<not> dn_active d then None
           else Some (if is_file E path then d\<lparr>dn_active := False, dn_file := path_url E path, dn_progress := 1\<rparr>
                      else d\<lparr>dn_active := False, dn_error := ''Downloaded file is missing.''\<rparr>))
      | Failed e \<Rightarrow> Some (d\<lparr>dn_active := False, dn_error := e\<rparr>))"

text \<open>The four signals of the media repository; it tells other requests than those of files too.\<close>

definition on_transfer :: "view_env \<Rightarrow> string \<Rightarrow> transfer_event \<Rightarrow> message_view \<Rightarrow> view_signal list \<times> message_view" where
  "on_transfer E rq e v =
     (if take 5 rq \<noteq> ''file:'' then ([], v)
      else
        case fileDownloads v (drop 5 rq) of
          None \<Rightarrow> ([], v)
        | Some d \<Rightarrow> (case download_step E e d of None \<Rightarrow> ([], v) | Some d' \<Rightarrow> put_download (drop 5 rq) d' v))"

section \<open>Batches of attachments\<close>

definition startAttachmentUpload :: "message_view \<Rightarrow> view_signal list \<times> message_view" where
  "startAttachmentUpload v =
     (let k = next_watcher v
      in ([AttachmentUploadChanged, SendBatch k (without_dashes (activeConversation v))],
          v\<lparr>attachmentCancellation := Some k, attachmentWatcher := Some k, cancelingAttachments := False, attachmentError := [],
            next_watcher := k + 1\<rparr>))"

fun settle_uploads :: "bool \<Rightarrow> string list \<Rightarrow> message_view \<Rightarrow> view_signal list \<times> message_view" where
  "settle_uploads ok [] v = ([], v)"
| "settle_uploads ok (i # is) v =
     (let (es, v) = (if (case fileUploads v i of None \<Rightarrow> False | Some u \<Rightarrow> up_active u)
                     then setUploadProgress i (if ok then 1 else upload_progress i v) False v else ([], v));
          (fs, v) = settle_uploads ok is v
      in (es @ fs, v))"

text \<open>The watcher of a batch; \<open>given\<close> is its result, or nothing when it was cancelled.\<close>

definition on_batch_finished :: "string list \<Rightarrow> string option \<Rightarrow> message_view \<Rightarrow> view_signal list \<times> message_view" where
  "on_batch_finished is given v =
     (let e = (case given of None \<Rightarrow> ''Upload canceled.'' | Some e \<Rightarrow> e);
          ok = (given = Some []);
          (es, v) = settle_uploads ok is (v\<lparr>attachmentError := e\<rparr>)
      in (es @ [AttachmentUploadChanged, AttachmentUploadFinished ok],
          v\<lparr>attachmentWatcher := None, attachmentCancellation := None, cancelingAttachments := False\<rparr>))"

definition setMessageSendSuccess :: "bool \<Rightarrow> message_view \<Rightarrow> view_signal list \<times> message_view" where
  "setMessageSendSuccess b v = (if sendSuccess v = b then ([], v) else ([SendSuccessChanged], v\<lparr>sendSuccess := b\<rparr>))"

section \<open>What a row shows\<close>

record contents =
  ct_type :: MessageType
  ct_text :: string
  ct_path :: string
  ct_name :: string
  ct_size :: int
  ct_duration :: int
  ct_download :: download_state
  ct_file :: string
  ct_progress :: rat
  ct_uploading :: bool

definition first_upload :: "view_env \<Rightarrow> string \<Rightarrow> message_view \<Rightarrow> upload_state option" where
  "first_upload E i v =
     (case upload_of E v (\<lambda>u. up_message u = i \<and> up_index u = 0) of None \<Rightarrow> None | Some k \<Rightarrow> fileUploads v k)"

text \<open>\<open>ContentsRole\<close>: nothing for a message whose upload was cancelled. It may start a look-up.\<close>

definition contents_role :: "view_env \<Rightarrow> view_item \<Rightarrow> message_view \<Rightarrow> contents list \<times> view_signal list \<times> message_view" where
  "contents_role E m v =
     (let c = payload_content (vi_body m); l = localpath (vi_body m); d = download_of (vi_id m) v;
          (file, es, u) =
            (if is_file E (url_path E (dn_file d)) then (dn_file d, [], v)
             else if c_type c = File then cachedFileUrl l (media_url c) v
             else (if is_file E l then path_url E l else [], [], v));
          up = (case first_upload E (vi_id m) v of
                  None \<Rightarrow> \<lparr>up_message = [], up_index = 0, up_progress = 0, up_active = False, up_canceled = False\<rparr>
                | Some x \<Rightarrow> x)
      in (if up_canceled up then []
          else [\<lparr>ct_type = c_type c, ct_text = c_text c, ct_path = imageDisplayUrl E m, ct_name = file_name c, ct_size = fileSize c,
                 ct_duration = duration c, ct_download = d, ct_file = file, ct_progress = up_progress up, ct_uploading = up_active up\<rparr>],
          es, u))"

definition removeCanceledUpload :: "view_env \<Rightarrow> string \<Rightarrow> message_view \<Rightarrow> view_signal list \<times> message_view" where
  "removeCanceledUpload E i v =
     (case fileUploads v i of
        None \<Rightarrow> ([], v)
      | Some u \<Rightarrow>
          (if up_canceled u then ([], v)
           else
             (let v = v\<lparr>fileUploads := (fileUploads v)(i \<mapsto> u\<lparr>up_active := False, up_canceled := True\<rparr>)\<rparr>
              in case find_row (\<lambda>m. vi_id m = up_message u) v of
                   None \<Rightarrow> ([], v)
                 | Some n \<Rightarrow>
                     (let (c, es, v) = contents_role E (items v ! n) v;
                          (fs, v) = (if c = [] then deleteMessage [int n] v else ([DataChanged n], v))
                      in (es @ fs, v)))))"

datatype role =
    IdRole | IsMineRole | SenderIdRole | RecipientIdRole | BodyRole | SentAtRole | MsgTypeRole | SectionRole | SeenRole
  | SendingRole | SendingSuccessRole | FilePathRole | DurationRole | FileSizeRole | ContentsRole | UploadProgressRole
  | IsUploadingRole | DownloadProgressRole | IsDownloadingRole | DownloadedFileRole | DownloadErrorRole

datatype variant =
    Invalid
  | VText string
  | VBool bool
  | VInt int
  | VFraction rat
  | VContents "contents list"

definition type_number :: "MessageType \<Rightarrow> int" where
  "type_number t =
     (case t of Text \<Rightarrow> 0 | Voice \<Rightarrow> 1 | Video \<Rightarrow> 2 | Location \<Rightarrow> 3 | Image \<Rightarrow> 4 | File \<Rightarrow> 5 | Sticker \<Rightarrow> 6)"

definition two_digits :: "int \<Rightarrow> string" where
  "two_digits n = (if 0 \<le> n \<and> n < 10 then CHR ''0'' # number_text n else number_text n)"

text \<open>The duration is converted to \<open>quint32\<close>.\<close>

definition voiceRecordingDurationStr :: "bool \<Rightarrow> int \<Rightarrow> string" where
  "voiceRecordingDurationStr tenths d =
     (let ms = d mod 2 ^ 32; m = ms div 60000; s = ms div 1000 mod 60
      in two_digits m @ '':'' @ two_digits s @ (if tenths then '':'' @ number_text (ms div 100 mod 10) else []))"

text \<open>\<open>data\<close>: the code answers for a duration of another kind of message what it answers for \<open>SendingRole\<close>.\<close>

definition row_data :: "view_env \<Rightarrow> nat \<Rightarrow> role \<Rightarrow> message_view \<Rightarrow> variant \<times> view_signal list \<times> message_view" where
  "row_data E n r v =
     (if length (items v) \<le> n then (Invalid, [], v)
      else
        (let m = items v ! n; c = payload_content (vi_body m); d = download_of (vi_id m) v; plain = (\<lambda>x. (x, [], v))
         in case r of
              DownloadProgressRole \<Rightarrow> plain (VFraction (dn_progress d))
            | IsDownloadingRole \<Rightarrow> plain (VBool (dn_active d))
            | DownloadedFileRole \<Rightarrow>
                (if is_file E (url_path E (dn_file d)) then plain (VText (dn_file d))
                 else if c_type c = File
                 then (case cachedFileUrl (localpath (vi_body m)) (media_url c) v of (u, es, w) \<Rightarrow> (VText u, es, w))
                 else plain (VText []))
            | DownloadErrorRole \<Rightarrow> plain (VText (dn_error d))
            | UploadProgressRole \<Rightarrow> plain (VFraction 0)
            | IsUploadingRole \<Rightarrow> plain (VBool (case first_upload E (vi_id m) v of None \<Rightarrow> False | Some u \<Rightarrow> up_active u))
            | IdRole \<Rightarrow> plain (VText (vi_id m))
            | IsMineRole \<Rightarrow> plain (VBool (vi_mine m))
            | SenderIdRole \<Rightarrow> plain (VText (vi_sender m))
            | RecipientIdRole \<Rightarrow> plain (VText (vi_recipient m))
            | ContentsRole \<Rightarrow> (case contents_role E m v of (cs, es, w) \<Rightarrow> (VContents cs, es, w))
            | BodyRole \<Rightarrow> plain (VText (c_text c))
            | SentAtRole \<Rightarrow> plain (VText (if n < length (displayDates v) then displayDates v ! n else []))
            | SectionRole \<Rightarrow> plain (VText (if n < length (sections v) then sections v ! n else []))
            | MsgTypeRole \<Rightarrow> plain (VInt (type_number (c_type c)))
            | SeenRole \<Rightarrow> plain (VBool False)
            | FilePathRole \<Rightarrow>
                plain (VText (if c_type c \<in> {Voice, Image, File, Sticker} then imageDisplayUrl E m else []))
            | FileSizeRole \<Rightarrow> plain (VInt (fileSize c))
            | DurationRole \<Rightarrow>
                plain (if c_type c = Voice then VText (voiceRecordingDurationStr True (duration c)) else VBool (vi_sending m))
            | SendingRole \<Rightarrow> plain (VBool (vi_sending m))
            | SendingSuccessRole \<Rightarrow> plain Invalid))"

section \<open>Inputs\<close>

datatype chat_input =
    OpenConversation bool string
  | FetchResult nat response
  | FetchFinished nat
  | LoadOlder
  | OlderResult nat int response
  | ClearModel bool
  | Arrived view_item
  | WasSent view_item
  | SendFinishedFor string
  | WasUpdated view_item
  | DeleteRows "int list"
  | UploadStarted string string
  | UploadAdvanced string rat
  | UploadEnded string
  | UploadSettled string bool
  | UploadCanceledFor string
  | DownloadOf string int
  | StopDownload string int
  | TransferEvent string transfer_event
  | FileLookedUp string string nat string
  | ReadRole nat role
  | ListImages
  | SendAttachments
  | BatchFinished "string list" "string option"
  | StopAttachments bool
  | SendAnswered string

fun chat_step :: "view_env \<Rightarrow> chat_input \<Rightarrow> message_view \<Rightarrow> view_signal list \<times> message_view" where
  "chat_step E (OpenConversation ok user) v = fetchMessage ok user v"
| "chat_step E (FetchResult k r) v = on_fetch_result E k r v"
| "chat_step E (FetchFinished k) v = on_fetch_finished k v"
| "chat_step E LoadOlder v = fetchNextMessage v"
| "chat_step E (OlderResult k pg r) v = on_next_result E k pg r v"
| "chat_step E (ClearModel ok) v = resetModel ok v"
| "chat_step E (Arrived m) v = on_message_received E m v"
| "chat_step E (WasSent m) v = on_message_sent E m v"
| "chat_step E (SendFinishedFor i) v = updateMessageSeningStatus i False v"
| "chat_step E (WasUpdated m) v = on_message_updated m v"
| "chat_step E (DeleteRows rs) v = deleteMessage rs v"
| "chat_step E (UploadStarted i path) v = on_upload_started E i path v"
| "chat_step E (UploadAdvanced i x) v = on_upload_progress i x v"
| "chat_step E (UploadEnded i) v = on_upload_finished i v"
| "chat_step E (UploadSettled i ok) v = on_upload_settled i ok v"
| "chat_step E (UploadCanceledFor i) v = removeCanceledUpload E i v"
| "chat_step E (DownloadOf i k) v = downloadFile E i k v"
| "chat_step E (StopDownload i k) v = cancelFileDownload E i k v"
| "chat_step E (TransferEvent rq e) v = on_transfer E rq e v"
| "chat_step E (FileLookedUp l r k u) v = on_looked_up l r k u v"
| "chat_step E (ReadRole n r) v = (case row_data E n r v of (_, es, u) \<Rightarrow> (es, u))"
| "chat_step E ListImages v = getImageList E v"
| "chat_step E SendAttachments v = startAttachmentUpload v"
| "chat_step E (BatchFinished is given) v = on_batch_finished is given v"
| "chat_step E (StopAttachments ok) v = cancelAttachmentUpload ok v"
| "chat_step E (SendAnswered e) v = setMessageSendSuccess (e = []) v"

end
