(* ===== verification/Chat_Rows.thy ===== *)
theory Chat_Rows
  imports Message_View
begin

text \<open>
  What holds of the rows of \<open>Message_View\<close>: a view that only follows the signals knows at every
  moment how many rows there are and which of them it must read again; a page is reconciled to what a
  reset would show; late pages and cancelled uploads change nothing.
\<close>

section \<open>A view that follows the signals\<close>

text \<open>A view keeps what it has read of each row; a row it must read again is \<open>None\<close>.\<close>

fun replay :: "view_signal \<Rightarrow> 'a option list \<Rightarrow> 'a option list option" where
  "replay (RowsInserted a b) m =
     (if a \<le> b \<and> a \<le> length m then Some (take a m @ replicate (b + 1 - a) None @ drop a m) else None)"
| "replay (RowsRemoved a b) m = (if a \<le> b \<and> b < length m then Some (take a m @ drop (b + 1) m) else None)"
| "replay (RowMoved e n) m = (if n < e \<and> e < length m then Some (move_back e n m) else None)"
| "replay (ModelReset n) m = Some (replicate n None)"
| "replay (DataChanged n) m = (if n < length m then Some (m[n := None]) else None)"
| "replay _ m = Some m"

fun replay_all :: "view_signal list \<Rightarrow> 'a option list \<Rightarrow> 'a option list option" where
  "replay_all [] m = Some m"
| "replay_all (e # es) m = (case replay e m of None \<Rightarrow> None | Some m' \<Rightarrow> replay_all es m')"

definition tracks :: "'a option list \<Rightarrow> 'a list \<Rightarrow> bool" where
  "tracks m rs \<longleftrightarrow> list_all2 (\<lambda>x r. x = None \<or> x = Some r) m rs"

definition rows :: "message_view \<Rightarrow> (view_item \<times> string \<times> string) list" where
  "rows v = zip (items v) (zip (displayDates v) (sections v))"

definition aligned :: "message_view \<Rightarrow> bool" where
  "aligned v \<longleftrightarrow> length (displayDates v) = length (items v) \<and> length (sections v) = length (items v)"

definition follows :: "view_signal list \<Rightarrow> message_view \<Rightarrow> message_view \<Rightarrow> bool" where
  "follows es v u \<longleftrightarrow> (aligned v \<longrightarrow> aligned u
     \<and> (\<forall>m. tracks m (rows v) \<longrightarrow> (\<exists>m'. replay_all es m = Some m' \<and> tracks m' (rows u))))"

lemma replay_all_append:
  "replay_all (es @ fs) m = (case replay_all es m of None \<Rightarrow> None | Some m' \<Rightarrow> replay_all fs m')"
  by (induction es arbitrary: m) (auto split: option.splits)

lemma follows_trans: "follows es v w \<Longrightarrow> follows fs w u \<Longrightarrow> follows (es @ fs) v u"
  unfolding follows_def replay_all_append by fastforce

lemma follows_cons: "follows [e] v w \<Longrightarrow> follows fs w u \<Longrightarrow> follows (e # fs) v u"
  using follows_trans [of "[e]" v w fs u] by simp

fun is_silent :: "view_signal \<Rightarrow> bool" where
  "is_silent (RowsInserted _ _) = False"
| "is_silent (RowsRemoved _ _) = False"
| "is_silent (RowMoved _ _) = False"
| "is_silent (ModelReset _) = False"
| "is_silent (DataChanged _) = False"
| "is_silent _ = True"

definition same_rows :: "message_view \<Rightarrow> message_view \<Rightarrow> bool" where
  "same_rows v u \<longleftrightarrow> items u = items v \<and> displayDates u = displayDates v \<and> sections u = sections v"

lemma same_rowsD: "same_rows v u \<Longrightarrow> rows u = rows v \<and> (aligned u \<longleftrightarrow> aligned v)"
  by (simp add: same_rows_def rows_def aligned_def)

lemma same_rows_trans: "same_rows v w \<Longrightarrow> same_rows w u \<Longrightarrow> same_rows v u"
  by (simp add: same_rows_def)

lemma silent_replay: "is_silent e \<Longrightarrow> replay e m = Some m"
  by (cases e) auto

lemma follows_silent:
  assumes "list_all is_silent es" and "same_rows v u"
  shows "follows es v u"
proof -
  have "replay_all es m = Some m" for m :: "(view_item \<times> string \<times> string) option list"
    using assms(1) by (induction es) (auto simp: silent_replay)
  then show ?thesis using same_rowsD [OF assms(2)] by (simp add: follows_def)
qed

lemma tracks_length: "tracks m rs \<Longrightarrow> length m = length rs"
  by (simp add: tracks_def list_all2_lengthD)

lemma rows_length: "aligned v \<Longrightarrow> length (rows v) = length (items v)"
  by (simp add: rows_def aligned_def)

lemma tracks_none: "length rs = n \<Longrightarrow> tracks (replicate n None) rs"
  by (simp add: tracks_def list_all2_conv_all_nth)

lemma tracks_splice:
  assumes "tracks m rs" and "length xs = k"
  shows "tracks (take n m @ replicate k None @ drop j m) (take n rs @ xs @ drop j rs)"
proof -
  have "list_all2 (\<lambda>x r. x = None \<or> x = Some r) (replicate k None) xs"
    using assms(2) by (simp add: list_all2_conv_all_nth)
  with assms(1) show ?thesis
    unfolding tracks_def by (intro list_all2_appendI list_all2_takeI list_all2_dropI)
qed

lemma tracks_update: "tracks m rs \<Longrightarrow> tracks (m[n := None]) (rs[n := r])"
  unfolding tracks_def by (rule list_all2_update_cong) simp_all

lemma tracks_move:
  assumes "tracks m rs" and "n < e" "e < length m"
  shows "tracks (move_back e n m) (move_back e n rs)"
proof -
  let ?P = "\<lambda>x r. x = None \<or> x = Some r"
  have p: "list_all2 ?P m rs" using assms(1) by (simp add: tracks_def)
  have "list_all2 ?P (remove_at e m) (remove_at e rs)"
    unfolding remove_at_def using p by (intro list_all2_appendI list_all2_takeI list_all2_dropI)
  moreover have "?P (m ! e) (rs ! e)" using p assms(3) by (simp add: list_all2_conv_all_nth)
  ultimately show ?thesis
    unfolding tracks_def move_back_def insert_at_def
    by (intro list_all2_appendI list_all2_takeI list_all2_dropI list.rel_intros)
qed

lemma zip_insert_at:
  "length xs = length ys \<Longrightarrow> zip (insert_at n x xs) (insert_at n y ys) = insert_at n (x, y) (zip xs ys)"
  by (simp add: insert_at_def zip_append take_zip drop_zip)

lemma zip_remove_at:
  "length xs = length ys \<Longrightarrow> zip (remove_at n xs) (remove_at n ys) = remove_at n (zip xs ys)"
  by (simp add: remove_at_def zip_append take_zip drop_zip)

lemma length_remove_at: "n < length xs \<Longrightarrow> length (remove_at n xs) = length xs - 1"
  by (simp add: remove_at_def)

lemma length_insert_at: "length (insert_at n x xs) = length xs + 1"
  by (simp add: insert_at_def)

lemma zip_move_back:
  assumes "length xs = length ys" and "e < length xs"
  shows "zip (move_back e n xs) (move_back e n ys) = move_back e n (zip xs ys)"
  using assms by (simp add: move_back_def zip_insert_at zip_remove_at length_remove_at)

lemmas row_ops = insert_row_def move_row_def set_row_def remove_row_def truncate_rows_def with_items_def

section \<open>The single changes\<close>

lemma insert_row_follows: "n \<le> length (items v) \<Longrightarrow> follows [RowsInserted n n] v (insert_row n m d s v)"
proof -
  assume n: "n \<le> length (items v)"
  have r: "rows (insert_row n m d s v) = insert_at n (m, d, s) (rows v)" if "aligned v"
    using that by (simp add: rows_def aligned_def row_ops zip_insert_at)
  have a: "aligned (insert_row n m d s v)" if "aligned v" using that by (simp add: aligned_def row_ops length_insert_at)
  have t: "tracks (take n x @ None # drop n x) (insert_at n (m, d, s) (rows v))" if "tracks x (rows v)" for x
    using tracks_splice [OF that, of "[(m, d, s)]" 1 n n] by (simp add: insert_at_def)
  show ?thesis using n r a t by (auto simp: follows_def dest: tracks_length simp: rows_length)
qed

lemma set_row_follows:
  assumes "n < length (items v)"
  shows "follows [DataChanged n] v (set_row n m d s v)"
proof -
  have "rows (set_row n m d s v) = (rows v)[n := (m, d, s)]" if "aligned v"
    using that by (simp add: rows_def aligned_def row_ops update_zip)
  moreover have "aligned (set_row n m d s v)" if "aligned v" using that by (simp add: aligned_def row_ops)
  ultimately show ?thesis using assms
    by (auto simp: follows_def rows_length dest: tracks_length intro: tracks_update)
qed

lemma set_item_follows:
  assumes "n < length (items v)"
  shows "follows [DataChanged n] v (with_items ((items v)[n := m]) v)"
proof -
  have "rows (with_items ((items v)[n := m]) v) = (rows v)[n := (m, displayDates v ! n, sections v ! n)]" if "aligned v"
    using that assms by (simp add: rows_def aligned_def with_items_def update_zip)
  moreover have "aligned (with_items ((items v)[n := m]) v)" if "aligned v" using that by (simp add: aligned_def with_items_def)
  ultimately show ?thesis using assms
    by (auto simp: follows_def rows_length dest: tracks_length intro: tracks_update)
qed

lemma move_row_follows:
  assumes "n < e" and "e < length (items v)"
  shows "follows [RowMoved e n] v (move_row e n v)"
proof -
  have "rows (move_row e n v) = move_back e n (rows v)" if "aligned v"
    using that assms by (simp add: rows_def aligned_def row_ops zip_move_back)
  moreover have "aligned (move_row e n v)" if "aligned v"
    using that assms by (simp add: aligned_def row_ops move_back_def length_insert_at length_remove_at)
  ultimately show ?thesis using assms
    by (auto simp: follows_def rows_length dest: tracks_length intro: tracks_move)
qed

lemma remove_row_follows:
  assumes "n < length (items v)"
  shows "follows [RowsRemoved n n] v (remove_row n v)"
proof -
  have r: "rows (remove_row n v) = remove_at n (rows v)" if "aligned v"
    using that by (simp add: rows_def aligned_def row_ops zip_remove_at)
  have a: "aligned (remove_row n v)" if "aligned v"
    using that assms by (simp add: aligned_def row_ops length_remove_at)
  have t: "tracks (take n x @ drop (Suc n) x) (remove_at n (rows v))" if "tracks x (rows v)" for x
    using tracks_splice [OF that, of "[]" 0 n "Suc n"] by (simp add: remove_at_def)
  show ?thesis using r a t assms by (auto simp: follows_def rows_length dest: tracks_length)
qed

lemma truncate_follows:
  assumes "n < length (items v)"
  shows "follows [RowsRemoved n (length (items v) - 1)] v (truncate_rows n v)"
proof -
  have r: "rows (truncate_rows n v) = take n (rows v)" if "aligned v"
    using that by (simp add: rows_def aligned_def row_ops take_zip)
  have a: "aligned (truncate_rows n v)" if "aligned v" using that by (simp add: aligned_def row_ops)
  have t: "tracks (take n x @ drop (length (items v)) x) (take n (rows v))" if "tracks x (rows v)" "aligned v" for x
    using that(1) tracks_length [OF that(1)] rows_length [OF that(2)] by (simp add: tracks_def list_all2_takeI)
  have "Suc (length (items v) - Suc 0) = length (items v)" using assms by simp
  then show ?thesis using r a t assms by (auto simp: follows_def rows_length dest: tracks_length)
qed

lemma reset_follows:
  assumes "aligned u" and "n = length (items u)"
  shows "follows [ModelReset n] v u"
  using assms tracks_none [of "rows u"] by (auto simp: follows_def rows_length)

section \<open>The operations\<close>

lemma follows_same: "same_rows v u \<Longrightarrow> follows [] v u"
  by (rule follows_silent) auto

lemma same_rows_refl [simp]: "same_rows v v"
  by (simp add: same_rows_def)

lemma touch_follows:
  assumes "n < length (items v)" and "same_rows v u"
  shows "follows [DataChanged n] v u"
proof -
  have "tracks (m[n := None]) (rows v)" if "tracks m (rows v)" for m
    using tracks_update [OF that, of n "rows v ! n"] by simp
  then show ?thesis using assms by (auto simp: follows_def same_rowsD rows_length dest: tracks_length)
qed

lemma find_row_Some: "find_row P v = Some n \<Longrightarrow> n < length (items v) \<and> P (items v ! n)"
  using nth_length_takeWhile [of "\<lambda>m. \<not> P m" "items v"] by (auto simp: find_row_def Let_def split: if_splits)

lemma changed_row_follows: "same_rows v u \<Longrightarrow> follows (changed_row P w) v u" if "same_rows v w"
  using that find_row_Some [of P w] follows_same touch_follows
  by (auto simp: changed_row_def same_rows_def split: option.splits)

lemma loading_same: "set_chat_loading b v = (es, u) \<Longrightarrow> list_all is_silent es \<and> same_rows v u"
  by (auto simp: set_chat_loading_def same_rows_def split: if_splits)

lemma loading_follows: "set_chat_loading b v = (es, u) \<Longrightarrow> follows es v u"
  using loading_same follows_silent by blast

lemma insertMessage_follows: "insertMessage E m v = (es, u) \<Longrightarrow> follows es v u"
proof -
  assume "insertMessage E m v = (es, u)"
  then have es: "es = [RowsInserted (length (items v)) (length (items v))] @ [MessageChanged]"
    and u: "u = insert_row (length (items v)) m (formateConversationDate (calendar_of E) (timestamp (vi_body m)))
      (sectionForDate (calendar_of E) (timestamp (vi_body m))) v" if "aligned v"
    using that by (auto simp: insertMessage_def Let_def row_ops insert_at_def aligned_def)
  show ?thesis
  proof (cases "aligned v")
    case True
    have "follows [MessageChanged] u u" by (rule follows_silent) simp_all
    then show ?thesis unfolding es [OF True]
      using follows_trans [OF insert_row_follows [of "length (items v)" v]] u [OF True] by simp
  next
    case False
    then show ?thesis by (simp add: follows_def)
  qed
qed

lemma remove_rows_follows: "remove_rows rs v = (es, u) \<Longrightarrow> follows es v u"
proof (induction rs v arbitrary: es u rule: remove_rows.induct)
  case (1 v)
  then show ?case by (simp add: follows_same)
next
  case (2 r rs v)
  show ?case
  proof (cases "r < 0 \<or> int (length (items v)) \<le> r")
    case True
    then show ?thesis using 2 by simp
  next
    case False
    obtain fs w where w: "remove_rows rs (remove_row (nat r) v) = (fs, w)" by fastforce
    then have "es = RowsRemoved (nat r) (nat r) # fs" "u = w" using 2(3) False by simp_all
    then show ?thesis
      using follows_cons [OF remove_row_follows 2(2) [OF False w]] False by auto
  qed
qed

lemma deleteMessage_follows: "deleteMessage rs v = (es, u) \<Longrightarrow> follows es v u"
  unfolding deleteMessage_def by (rule remove_rows_follows)

lemma sending_follows: "updateMessageSeningStatus i b v = (es, u) \<Longrightarrow> follows es v u"
  using find_row_Some set_item_follows follows_same
  by (fastforce simp: updateMessageSeningStatus_def split: option.splits)

lemma updated_follows: "on_message_updated m v = (es, u) \<Longrightarrow> follows es v u"
  using find_row_Some set_item_follows follows_same
  by (fastforce simp: on_message_updated_def Let_def split: option.splits)

lemma received_follows: "on_message_received E m v = (es, u) \<Longrightarrow> follows es v u"
  by (auto simp: on_message_received_def intro: insertMessage_follows follows_same split: if_splits)

lemma sent_follows: "on_message_sent E m v = (es, u) \<Longrightarrow> follows es v u"
  by (auto simp: on_message_sent_def intro: follows_trans [OF insertMessage_follows sending_follows] sending_follows
      split: if_splits prod.splits)

lemma with_numbers_same: "same_rows v (with_numbers r v)"
  by (simp add: with_numbers_def same_rows_def)

lemma refresh_row_follows:
  assumes "refresh_row n m d s v = (es, u)" and n: "n \<le> length (items v)"
  shows "follows es v u \<and> n < length (items u)"
proof -
  define e where "e = n + length (takeWhile (\<lambda>x. vi_id x \<noteq> vi_id m) (drop n (items v)))"
  consider "length (items v) \<le> e" | "e = n" "n < length (items v)" | "n < e" "e < length (items v)"
    using e_def by linarith
  then show ?thesis
  proof cases
    case 1
    then have "es = [RowsInserted n n]" "u = insert_row n m d s v" using assms(1) by (auto simp: refresh_row_def e_def)
    then show ?thesis using insert_row_follows [OF n] n by (simp add: row_ops length_insert_at)
  next
    case 2
    then have "es = [DataChanged n]" "u = set_row n (kept_path (items v ! n) m) d s v"
      using assms(1) by (auto simp: refresh_row_def e_def Let_def)
    then show ?thesis using set_row_follows [OF 2(2)] 2(2) by (simp add: row_ops)
  next
    case 3
    let ?w = "move_row e n v"
    have l: "length (items ?w) = length (items v)"
      using 3 by (simp add: row_ops move_back_def length_insert_at length_remove_at)
    have "es = [RowMoved e n] @ [DataChanged n]" "u = set_row n (kept_path (items ?w ! n) m) d s ?w"
      using assms(1) 3 by (auto simp: refresh_row_def e_def Let_def)
    moreover have "n < length (items ?w)" using 3 l by simp
    ultimately show ?thesis
      using follows_trans [OF move_row_follows [OF 3] set_row_follows] by (simp add: row_ops)
  qed
qed

lemma refresh_rows_follows:
  "refresh_rows E n ms v = (es, u) \<Longrightarrow> n \<le> length (items v) \<Longrightarrow> follows es v u \<and> n + length ms \<le> length (items u)"
proof (induction ms arbitrary: n v es u)
  case Nil
  then show ?case by (simp add: follows_same)
next
  case (Cons m ms)
  let ?t = "timestamp (vi_body m)"
  obtain fs w where r: "refresh_row n m (formateConversationDate (calendar_of E) ?t) (sectionForDate (calendar_of E) ?t) v = (fs, w)"
    by fastforce
  obtain gs x where q: "refresh_rows E (n + 1) ms w = (gs, x)" by fastforce
  have e: "es = fs @ gs" "u = x" using Cons.prems(1) r q by (simp_all add: Let_def)
  from refresh_row_follows [OF r Cons.prems(2)] have "follows fs v w" "n + 1 \<le> length (items w)" by simp_all
  with Cons.IH [OF q] e show ?case by (auto intro: follows_trans)
qed

lemma dates_length: "length (dates_of E ms) = length ms" "length (sections_of E ms) = length ms"
  by (simp_all add: dates_of_def sections_of_def)

lemma apply_follows: "applyFetchedMessages E r k v = (es, u) \<Longrightarrow> follows es v u"
proof -
  assume a: "applyFetchedMessages E r k v = (es, u)"
  consider "k \<noteq> fetchRequest v"
    | "k = fetchRequest v" "displayedConversation v = activeConversation v \<and> displayedConversation v \<noteq> []"
    | "k = fetchRequest v" "\<not> (displayedConversation v = activeConversation v \<and> displayedConversation v \<noteq> [])" by blast
  then show ?thesis
  proof cases
    case 1
    then show ?thesis using a by (simp add: applyFetchedMessages_def follows_same)
  next
    case 2
    let ?n = "length (rs_messages r)"
    obtain fs w where f: "refresh_rows E 0 (rs_messages r) v = (fs, w)" by fastforce
    obtain gs x where g: "(if ?n < length (items w) then ([RowsRemoved ?n (length (items w) - 1)], truncate_rows ?n w) else ([], w)) = (gs, x)"
      by fastforce
    obtain hs y where h: "set_chat_loading False (with_numbers r x) = (hs, y)" by fastforce
    have e: "es = fs @ gs @ hs @ [MessageChanged]" "u = y"
      using a 2 f g h by (auto simp: applyFetchedMessages_def Let_def split: if_splits)
    have "follows fs v w" using refresh_rows_follows [OF f] by simp
    moreover have "follows gs w x" using g truncate_follows follows_same by (auto split: if_splits)
    moreover have "follows hs x y" using loading_same [OF h] with_numbers_same same_rows_trans by (blast intro: follows_silent)
    moreover have "follows [MessageChanged] y y" by (rule follows_silent) simp_all
    ultimately show ?thesis unfolding e by (blast intro: follows_trans)
  next
    case 3
    let ?w = "v\<lparr>shown := r, displayDates := dates_of E (rs_messages r), sections := sections_of E (rs_messages r),
      displayedConversation := activeConversation v\<rparr>"
    obtain gs y where h: "set_chat_loading False ?w = (gs, y)" by fastforce
    have e: "es = ModelReset (length (rs_messages r)) # gs @ [InitialMessagesLoaded, MessageChanged]" "u = y"
      using a 3 h unfolding applyFetchedMessages_def by (simp_all add: Let_def split: if_splits)
    have "follows [ModelReset (length (rs_messages r))] v ?w"
      by (rule reset_follows) (simp_all add: aligned_def dates_length)
    moreover have "follows gs ?w y" using h by (rule loading_follows)
    moreover have "follows [InitialMessagesLoaded, MessageChanged] y y" by (rule follows_silent) simp_all
    ultimately show ?thesis unfolding e by (blast intro: follows_trans follows_cons)
  qed
qed

lemma attachment_cancel_follows: "cancelAttachmentUpload ok v = (es, u) \<Longrightarrow> list_all is_silent es \<and> same_rows v u"
  by (auto simp: cancelAttachmentUpload_def same_rows_def split: option.splits if_splits)

lemma fetch_follows: "fetchMessage ok user v = (es, u) \<Longrightarrow> follows es v u"
proof -
  assume a: "fetchMessage ok user v = (es, u)"
  let ?c = "without_dashes user" and ?v = "v\<lparr>fetchRequest := fetchRequest v + 1, cachedFileUrls := (\<lambda>_. None)\<rparr>"
  obtain fs w where f: "(if ?c \<noteq> activeConversation ?v then cancelAttachmentUpload ok ?v else ([], ?v)) = (fs, w)" by fastforce
  obtain gs x where g: "set_chat_loading True (w\<lparr>activeConversation := ?c\<rparr>) = (gs, x)" by fastforce
  have "es = fs @ gs @ [FetchPage (fetchRequest x) ?c 1]" "u = x" using a unfolding fetchMessage_def Let_def f prod.case g by auto
  moreover have "list_all is_silent fs \<and> same_rows v w"
    using f attachment_cancel_follows [of ok ?v fs w] by (auto simp: same_rows_def split: if_splits)
  moreover have "list_all is_silent gs \<and> same_rows w x" using loading_same [OF g] by (simp add: same_rows_def)
  ultimately show ?thesis by (intro follows_silent) (auto intro: same_rows_trans)
qed

lemma result_follows: "on_fetch_result E k r v = (es, u) \<Longrightarrow> follows es v u"
  by (auto simp: on_fetch_result_def intro: follows_same follows_trans [OF loading_follows apply_follows]
      split: if_splits prod.splits)

lemma finished_follows: "on_fetch_finished k v = (es, u) \<Longrightarrow> follows es v u"
  by (auto simp: on_fetch_finished_def intro: follows_same loading_follows split: if_splits)

lemma next_follows: "fetchNextMessage v = (es, u) \<Longrightarrow> follows es v u"
  by (auto simp: fetchNextMessage_def intro!: follows_silent dest: loading_same split: if_splits prod.splits)

lemma prepend_follows:
  fixes E v r
  defines "u \<equiv> (with_items (rs_messages r @ items v) v)\<lparr>displayDates := dates_of E (rs_messages r) @ displayDates v,
    sections := sections_of E (rs_messages r) @ sections v\<rparr>"
  assumes n: "0 < length (rs_messages r)"
  shows "follows [RowsInserted 0 (length (rs_messages r) - 1)] v u"
proof -
  let ?k = "length (rs_messages r)" and ?new = "zip (rs_messages r) (zip (dates_of E (rs_messages r)) (sections_of E (rs_messages r)))"
  have "rows u = ?new @ rows v" by (simp add: rows_def u_def with_items_def dates_length zip_append)
  moreover have "aligned u" if "aligned v" using that by (simp add: aligned_def u_def with_items_def dates_length)
  moreover have "tracks (replicate ?k None @ x) (?new @ rows v)" if "tracks x (rows v)" for x
    using tracks_splice [OF that, of ?new ?k 0 0] by (simp add: dates_length)
  moreover have "Suc (?k - Suc 0) = ?k" using n by simp
  ultimately show ?thesis by (auto simp: follows_def)
qed

lemma older_follows: "on_next_result E k pg r v = (es, u) \<Longrightarrow> follows es v u"
proof -
  assume a: "on_next_result E k pg r v = (es, u)"
  consider "k \<noteq> fetchRequest v" | "k = fetchRequest v" "rs_page r < 1" | "k = fetchRequest v" "1 \<le> rs_page r" by linarith
  then show ?thesis
  proof cases
    case 1
    then show ?thesis using a by (simp add: on_next_result_def follows_same)
  next
    case 2
    then show ?thesis using a
      by (auto simp: on_next_result_def intro!: follows_silent dest: loading_same split: prod.splits)
  next
    case 3
    let ?n = "length (rs_messages r)"
    let ?w = "(with_items (rs_messages r @ items v) v)\<lparr>displayDates := dates_of E (rs_messages r) @ displayDates v,
      sections := sections_of E (rs_messages r) @ sections v\<rparr>"
    obtain fs w where f: "(if 0 < ?n then ([RowsInserted 0 (?n - 1)], ?w) else ([], v)) = (fs, w)" by fastforce
    let ?x = "with_numbers (r\<lparr>rs_page := (if 0 < rs_page r then rs_page r else pg)\<rparr>) w"
    obtain gs y where g: "set_chat_loading False ?x = (gs, y)" by fastforce
    have e: "es = fs @ gs @ [OlderMessagesLoaded ?n]" "u = y"
      using a 3 f g by (auto simp: on_next_result_def Let_def split: if_splits)
    have "follows fs v w" using f prepend_follows [of r v E] follows_same by (auto split: if_splits)
    moreover have "follows gs w y" using loading_same [OF g] with_numbers_same same_rows_trans by (blast intro: follows_silent)
    moreover have "follows [OlderMessagesLoaded ?n] y y" by (rule follows_silent) simp_all
    ultimately show ?thesis unfolding e by (blast intro: follows_trans)
  qed
qed

lemma clear_follows: "resetModel ok v = (es, u) \<Longrightarrow> follows es v u"
proof -
  assume a: "resetModel ok v = (es, u)"
  obtain fs w where f: "cancelAttachmentUpload ok v = (fs, w)" by fastforce
  let ?w = "w\<lparr>fetchRequest := fetchRequest w + 1, cachedFileUrls := (\<lambda>_. None), activeConversation := [], displayedConversation := []\<rparr>"
  obtain gs x where g: "set_chat_loading True ?w = (gs, x)" by fastforce
  let ?x = "x\<lparr>shown := no_response, displayDates := [], sections := []\<rparr>"
  obtain hs y where h: "set_chat_loading False ?x = (hs, y)" by fastforce
  have e: "es = (fs @ gs) @ ModelReset 0 # hs @ [ImageUrlsChanged, OlderMessagesLoaded 0]" "u = y\<lparr>imageUrls := []\<rparr>"
    using a f g h unfolding resetModel_def by (simp_all add: Let_def)
  have "follows (fs @ gs) v x"
    using attachment_cancel_follows [OF f] loading_same [OF g] by (intro follows_silent) (auto simp: same_rows_def)
  moreover have "follows [ModelReset 0] x ?x" by (rule reset_follows) (simp_all add: aligned_def no_response_def)
  moreover have "follows hs ?x y" using h by (rule loading_follows)
  moreover have "follows [ImageUrlsChanged, OlderMessagesLoaded 0] y u"
    unfolding e by (rule follows_silent) (simp_all add: same_rows_def)
  ultimately show ?thesis unfolding e(1) by (blast intro: follows_trans follows_cons)
qed

lemma upload_follows: "setUploadProgress i x b v = (es, u) \<Longrightarrow> follows es v u \<and> same_rows v u"
  by (auto simp: setUploadProgress_def same_rows_def intro: changed_row_follows follows_same split: option.splits if_splits)

lemma started_follows: "on_upload_started E i path v = (es, u) \<Longrightarrow> follows es v u"
proof -
  assume a: "on_upload_started E i path v = (es, u)"
  have t: "follows es v u" if "follows es w u" "same_rows v w" for w
    using that(1) same_rowsD [OF that(2)] by (simp add: follows_def)
  show ?thesis using a
    by (auto simp: on_upload_started_def same_rows_def intro: follows_same intro!: t dest!: upload_follows split: option.splits)
qed

lemma file_url_same: "cachedFileUrl l r v = (x, es, u) \<Longrightarrow> list_all is_silent es \<and> same_rows v u"
  by (auto simp: cachedFileUrl_def same_rows_def split: option.splits)

lemma contents_same: "contents_role E m v = (cs, es, u) \<Longrightarrow> list_all is_silent es \<and> same_rows v u"
  by (auto simp: contents_role_def Let_def dest: file_url_same split: if_splits prod.splits)

lemma canceled_follows: "removeCanceledUpload E i v = (es, u) \<Longrightarrow> follows es v u"
proof -
  assume a: "removeCanceledUpload E i v = (es, u)"
  show ?thesis
  proof (cases "\<exists>x. fileUploads v i = Some x \<and> \<not> up_canceled x")
    case False
    then show ?thesis using a by (auto simp: removeCanceledUpload_def follows_same split: option.splits)
  next
    case True
    then obtain x where x: "fileUploads v i = Some x" "\<not> up_canceled x" by blast
    let ?v = "v\<lparr>fileUploads := (fileUploads v)(i \<mapsto> x\<lparr>up_active := False, up_canceled := True\<rparr>)\<rparr>"
    have s: "same_rows v ?v" by (simp add: same_rows_def)
    show ?thesis
    proof (cases "find_row (\<lambda>m. vi_id m = up_message x) ?v")
      case None
      then show ?thesis using a x s by (simp add: removeCanceledUpload_def follows_same)
    next
      case (Some n)
      obtain c fs w where c: "contents_role E (items ?v ! n) ?v = (c, fs, w)" by (cases "contents_role E (items ?v ! n) ?v") auto
      obtain gs y where g: "(if c = [] then deleteMessage [int n] w else ([DataChanged n], w)) = (gs, y)" by fastforce
      have e: "es = fs @ gs" "u = y" using a x Some c g unfolding removeCanceledUpload_def by (simp_all add: Let_def)
      have vw: "list_all is_silent fs" "same_rows v w"
        using contents_same [OF c] same_rows_trans [OF s] by blast+
      have "n < length (items w)" using find_row_Some [OF Some] vw(2) by (simp add: same_rows_def)
      then have "follows gs w y" using g deleteMessage_follows touch_follows by (auto split: if_splits)
      then show ?thesis unfolding e using follows_silent [OF vw] follows_trans by blast
    qed
  qed
qed

lemma download_follows: "put_download i d v = (es, u) \<Longrightarrow> follows es v u \<and> same_rows v u"
proof -
  assume a: "put_download i d v = (es, u)"
  then have s: "same_rows v u" by (auto simp: put_download_def Let_def same_rows_def)
  have "follows es v u" using a changed_row_follows [OF s s]
    by (auto simp: put_download_def Let_def notifyFileDownload_def)
  with s show ?thesis by blast
qed

lemma put_then:
  assumes "put_download i d v = (es, u)"
  shows "follows (es @ [StartDownload a b]) v u" and "follows (CancelDownload a # es) v u"
  using download_follows [OF assms] follows_silent [of "[StartDownload a b]" u u] follows_silent [of "[CancelDownload a]" v v]
    follows_trans follows_cons by fastforce+

lemma downloadFile_follows: "downloadFile E i k v = (es, u) \<Longrightarrow> follows es v u"
  unfolding downloadFile_def Let_def
  by (auto intro: follows_same put_then(1) conjunct1 [OF download_follows] split: option.splits if_splits prod.splits)

lemma stop_follows: "cancelFileDownload E i k v = (es, u) \<Longrightarrow> follows es v u"
  unfolding cancelFileDownload_def Let_def
  by (auto intro: follows_same put_then(2) conjunct1 [OF download_follows] split: option.splits if_splits prod.splits)

lemma transfer_follows: "on_transfer E rq e v = (es, u) \<Longrightarrow> follows es v u"
  by (auto simp: on_transfer_def follows_same dest: download_follows split: option.splits if_splits)

lemma touches_follow: "list_all (\<lambda>n. n < length (items v)) ns \<Longrightarrow> same_rows v u \<Longrightarrow> follows (map DataChanged ns) v u"
proof (induction ns)
  case (Cons n ns)
  then show ?case using follows_cons [OF touch_follows [of n v v]] by simp
qed (simp add: follows_same)

lemma looked_up_follows: "on_looked_up l r k x v = (es, u) \<Longrightarrow> follows es v u"
  by (auto simp: on_looked_up_def same_rows_def intro!: touches_follow follows_same simp: list_all_iff split: if_splits)

lemma row_data_follows: "row_data E n r v = (x, es, u) \<Longrightarrow> follows es v u"
  by (cases r) (auto simp: row_data_def Let_def follows_same intro!: follows_silent
      dest: file_url_same contents_same split: if_splits prod.splits)

lemma settle_follows: "settle_uploads ok is v = (es, u) \<Longrightarrow> follows es v u"
proof (induction "is" arbitrary: v es u)
  case Nil
  then show ?case by (simp add: follows_same)
next
  case (Cons i "is")
  obtain fs w where f: "(if (case fileUploads v i of None \<Rightarrow> False | Some u \<Rightarrow> up_active u)
      then setUploadProgress i (if ok then 1 else upload_progress i v) False v else ([], v)) = (fs, w)" by fastforce
  obtain gs x where g: "settle_uploads ok is w = (gs, x)" by fastforce
  have e: "es = fs @ gs" "u = x" using Cons.prems f g by simp_all
  have "follows fs v w" using f by (auto split: if_splits option.splits dest: upload_follows simp: follows_same)
  with Cons.IH [OF g] show ?case unfolding e by (blast intro: follows_trans)
qed

lemma batch_follows: "on_batch_finished is given v = (es, u) \<Longrightarrow> follows es v u"
proof -
  assume a: "on_batch_finished is given v = (es, u)"
  let ?v = "v\<lparr>attachmentError := (case given of None \<Rightarrow> ''Upload canceled.'' | Some e \<Rightarrow> e)\<rparr>"
  obtain fs w where f: "settle_uploads (given = Some []) is ?v = (fs, w)" by fastforce
  let ?u = "w\<lparr>attachmentWatcher := None, attachmentCancellation := None, cancelingAttachments := False\<rparr>"
  have e: "es = fs @ [AttachmentUploadChanged, AttachmentUploadFinished (given = Some [])]" "u = ?u"
    using a f unfolding on_batch_finished_def by (simp_all add: Let_def)
  have "follows fs v w" using settle_follows [OF f] by (simp add: follows_def rows_def aligned_def)
  moreover have "follows [AttachmentUploadChanged, AttachmentUploadFinished (given = Some [])] w ?u"
    by (rule follows_silent) (simp_all add: same_rows_def)
  ultimately show ?thesis unfolding e by (blast intro: follows_trans)
qed

end
