(* ===== verification/Chat_Properties.thy ===== *)
theory Chat_Properties
  imports Chat_Rows
begin

text \<open>
  The properties of the chat view model over every sequence of inputs, and the functional
  descriptions of reconciling a page and of deleting rows.
\<close>

section \<open>Sequences of inputs\<close>

fun chat_steps :: "(view_env \<times> chat_input) list \<Rightarrow> message_view \<Rightarrow> view_signal list \<times> message_view" where
  "chat_steps [] v = ([], v)"
| "chat_steps ((E, i) # is) v = (let (es, w) = chat_step E i v; (fs, u) = chat_steps is w in (es @ fs, u))"

lemma chat_steps_append:
  "chat_steps (is @ js) v = (let (es, w) = chat_steps is v; (fs, u) = chat_steps js w in (es @ fs, u))"
  by (induction "is" v rule: chat_steps.induct) (auto simp: Let_def split: prod.splits)






lemma chat_steps_keep:
  assumes "\<And>E i v es u. P v \<Longrightarrow> Q i \<Longrightarrow> chat_step E i v = (es, u) \<Longrightarrow> P u"
    and "chat_steps is v = (es, u)" and "P v" and "list_all (\<lambda>(E, i). Q i) is"
  shows "P u"
  using assms(2-4)
proof (induction "is" v arbitrary: es u rule: chat_steps.induct)
  case (2 E i "is" v)
  obtain fs w where w: "chat_step E i v = (fs, w)" by fastforce
  obtain gs x where x: "chat_steps is w = (gs, x)" by fastforce
  have "P w" using assms(1) [OF 2(3) _ w] 2(4) by simp
  then show ?case using 2(1) [OF w [symmetric] refl x] 2(2,4) w x by (simp add: Let_def)
qed simp

section \<open>Reconciling a page\<close>

definition forget_path :: "view_item \<Rightarrow> view_item" where
  "forget_path m = m\<lparr>vi_body := (vi_body m)\<lparr>localpath := []\<rparr>\<rparr>"

lemma forget_kept: "forget_path (kept_path old m) = forget_path m"
  by (simp add: kept_path_def forget_path_def)

lemma take_move_back: "n < e \<Longrightarrow> e < length xs \<Longrightarrow> take n (move_back e n xs) = take n xs"
  by (simp add: move_back_def insert_at_def remove_at_def)

lemma take_set: "n < length xs \<Longrightarrow> take (Suc n) (xs[n := x]) = take n xs @ [x]"
  by (simp add: take_Suc_conv_app_nth)

lemma move_back_length: "e < length xs \<Longrightarrow> length (move_back e n xs) = length xs"
  by (simp add: move_back_def length_insert_at length_remove_at)

lemma refresh_row_shows:
  assumes "refresh_row n m d s v = (es, u)" and a: "aligned v" and n: "n \<le> length (items v)"
  shows "map forget_path (take (Suc n) (items u)) = map forget_path (take n (items v)) @ [forget_path m]
    \<and> take (Suc n) (displayDates u) = take n (displayDates v) @ [d] \<and> take (Suc n) (sections u) = take n (sections v) @ [s]
    \<and> aligned u"
proof -
  define e where "e = n + length (takeWhile (\<lambda>x. vi_id x \<noteq> vi_id m) (drop n (items v)))"
  have l: "length (displayDates v) = length (items v)" "length (sections v) = length (items v)" using a by (simp_all add: aligned_def)
  have al: "aligned u" using refresh_row_follows [OF assms(1) n] a by (simp add: follows_def)
  consider "length (items v) \<le> e" | "e = n" "n < length (items v)" | "n < e" "e < length (items v)"
    using e_def by linarith
  then show ?thesis
  proof cases
    case 1
    then have "u = insert_row n m d s v" using assms(1) by (auto simp: refresh_row_def e_def)
    then show ?thesis using n l al by (simp add: row_ops insert_at_def)
  next
    case 2
    then have "u = set_row n (kept_path (items v ! n) m) d s v" using assms(1) by (auto simp: refresh_row_def e_def Let_def)
    then show ?thesis using 2(2) l al by (simp add: row_ops take_set forget_kept)
  next
    case 3
    let ?w = "move_row e n v"
    have w: "items ?w = move_back e n (items v)" "displayDates ?w = move_back e n (displayDates v)" "sections ?w = move_back e n (sections v)"
      by (simp_all add: row_ops)
    have u: "u = set_row n (kept_path (items ?w ! n) m) d s ?w" using assms(1) 3 by (auto simp: refresh_row_def e_def Let_def)
    have k: "items u = (items ?w)[n := kept_path (items ?w ! n) m]" "displayDates u = (displayDates ?w)[n := d]"
      "sections u = (sections ?w)[n := s]" unfolding u by (simp_all add: set_row_def with_items_def)
    show ?thesis unfolding k w using 3 l al by (simp add: take_set take_move_back move_back_length forget_kept)
  qed
qed

lemma refresh_rows_show:
  "refresh_rows E n ms v = (es, u) \<Longrightarrow> aligned v \<Longrightarrow> n \<le> length (items v) \<Longrightarrow>
   map forget_path (take (n + length ms) (items u)) = map forget_path (take n (items v)) @ map forget_path ms
   \<and> take (n + length ms) (displayDates u) = take n (displayDates v) @ dates_of E ms
   \<and> take (n + length ms) (sections u) = take n (sections v) @ sections_of E ms \<and> aligned u"
proof (induction ms arbitrary: n v es u)
  case Nil
  then show ?case by (simp add: dates_of_def sections_of_def)
next
  case (Cons m ms)
  let ?t = "timestamp (vi_body m)"
  obtain fs w where r: "refresh_row n m (formateConversationDate (calendar_of E) ?t) (sectionForDate (calendar_of E) ?t) v = (fs, w)"
    by fastforce
  obtain gs x where q: "refresh_rows E (n + 1) ms w = (gs, x)" by fastforce
  have e: "u = x" using Cons.prems(1) r q by (simp add: Let_def)
  note s = refresh_row_shows [OF r Cons.prems(2,3)]
  have "n + 1 \<le> length (items w)" using refresh_row_follows [OF r Cons.prems(3)] by simp
  from Cons.IH [OF q _ this] s show ?case unfolding e by (simp add: dates_of_def sections_of_def)
qed

section \<open>Deleting rows\<close>

lemma nths_agree: "(\<And>i. i < length xs \<Longrightarrow> i \<in> A \<longleftrightarrow> i \<in> B) \<Longrightarrow> nths xs A = nths xs B"
  unfolding nths_def by (rule arg_cong [where f = "map fst"], rule filter_cong) (auto dest: set_zip_rightD)

lemma remove_at_nths:
  assumes "n < length xs" and "\<And>a. a \<in> A \<Longrightarrow> a < n"
  shows "nths (remove_at n xs) (- A) = nths xs (- insert n A)"
proof -
  have x: "xs = take n xs @ xs ! n # drop (Suc n) xs" using assms(1) by (simp add: id_take_nth_drop)
  have l: "length (take n xs) = n" using assms(1) by simp
  have u: "{j. j + n \<in> - A} = UNIV" "{j. Suc j + n \<in> - insert n A} = UNIV" using assms(2) by fastforce+
  have "nths xs (- insert n A) = nths (take n xs) (- insert n A) @ nths (xs ! n # drop (Suc n) xs) {j. j + n \<in> - insert n A}"
    using nths_append [of "take n xs" "xs ! n # drop (Suc n) xs" "- insert n A"] unfolding l x [symmetric] .
  also have "nths (xs ! n # drop (Suc n) xs) {j. j + n \<in> - insert n A} = drop (Suc n) xs"
    unfolding nths_Cons using u(2) by (simp add: nths_all)
  also have "nths (take n xs) (- insert n A) = nths (take n xs) (- A)"
    by (rule nths_agree) (use assms(1) in auto)
  also have "nths (take n xs) (- A) @ drop (Suc n) xs = nths (remove_at n xs) (- A)"
    using u(1) l by (simp add: remove_at_def nths_append nths_all)
  finally show ?thesis ..
qed

lemma remove_rows_nths:
  "remove_rows rs v = (es, u) \<Longrightarrow> sorted_wrt (>) rs \<Longrightarrow> items u = nths (items v) (- {n. int n \<in> set rs})"
proof (induction rs v arbitrary: es u rule: remove_rows.induct)
  case (1 v)
  then show ?case by (simp add: nths_all)
next
  case (2 r rs v)
  show ?case
  proof (cases "r < 0 \<or> int (length (items v)) \<le> r")
    case True
    have "int i \<noteq> r" if "i < length (items v)" for i using True that by linarith
    then have "nths (items v) (- {n. int n \<in> set rs}) = nths (items v) (- {n. int n \<in> set (r # rs)})"
      by (intro nths_agree) simp
    moreover have "items u = nths (items v) (- {n. int n \<in> set rs})"
      using 2(1) [OF True] 2(3,4) True by (simp del: set_simps)
    ultimately show ?thesis by (simp only:)
  next
    case False
    obtain fs w where w: "remove_rows rs (remove_row (nat r) v) = (fs, w)" by fastforce
    then have u: "u = w" using 2(3) False by simp
    have "items w = nths (remove_at (nat r) (items v)) (- {n. int n \<in> set rs})"
      using 2(2) [OF False w] 2(4) by (simp add: row_ops)
    also have "\<dots> = nths (items v) (- insert (nat r) {n. int n \<in> set rs})"
      using 2(4) False by (intro remove_at_nths) auto
    also have "insert (nat r) {n. int n \<in> set rs} = {n. int n \<in> set (r # rs)}" using False by auto
    finally show ?thesis unfolding u .
  qed
qed

lemma strictly_descending: "sorted_wrt (\<ge>) xs \<Longrightarrow> sorted_wrt (>) (remdups_adj xs)" for xs :: "int list"
  by (induction xs rule: remdups_adj.induct) (auto simp: less_le)

lemma descending: "sorted_wrt (>) (remdups_adj (rev (sort rs)))" for rs :: "int list"
  by (rule strictly_descending) (simp add: sorted_wrt_rev)

section \<open>Requests and transfers\<close>

definition core :: "message_view \<Rightarrow> nat \<times> (string \<Rightarrow> upload_state option) \<times> (string \<Rightarrow> download_state option)" where
  "core v = (fetchRequest v, fileUploads v, fileDownloads v)"

lemma row_ops_core [simp]:
  "core (with_items ms v) = core v" "core (insert_row n m d s v) = core v" "core (move_row e n v) = core v"
  "core (set_row n m d s v) = core v" "core (remove_row n v) = core v" "core (truncate_rows n v) = core v"
  "core (with_numbers r v) = core v" "core (displayDates_update f v) = core v" "core (sections_update f v) = core v"
  by (simp_all add: core_def row_ops with_numbers_def)

lemma loading_core: "set_chat_loading b v = (es, u) \<Longrightarrow> core u = core v"
  by (auto simp: set_chat_loading_def core_def split: if_splits)

lemma insert_core: "insertMessage E m v = (es, u) \<Longrightarrow> core u = core v"
  by (auto simp: insertMessage_def Let_def)

lemma remove_rows_core: "remove_rows rs v = (es, u) \<Longrightarrow> core u = core v"
  by (induction rs v arbitrary: es u rule: remove_rows.induct) (auto simp: Let_def split: if_splits prod.splits)

lemma delete_core: "deleteMessage rs v = (es, u) \<Longrightarrow> core u = core v"
  unfolding deleteMessage_def by (rule remove_rows_core)

lemma refresh_row_core: "refresh_row n m d s v = (es, u) \<Longrightarrow> core u = core v"
  by (auto simp: refresh_row_def Let_def split: if_splits)

lemma refresh_rows_core: "refresh_rows E n ms v = (es, u) \<Longrightarrow> core u = core v"
proof (induction ms arbitrary: n v es u)
  case (Cons m ms)
  then show ?case by (auto simp: Let_def split: prod.splits dest!: refresh_row_core)
qed simp

lemma item_core:
  "updateMessageSeningStatus i b v = (es, u) \<Longrightarrow> core u = core v"
  "on_message_updated m v = (es, u) \<Longrightarrow> core u = core v"
  by (auto simp: updateMessageSeningStatus_def on_message_updated_def Let_def split: option.splits)

lemma message_core:
  "on_message_received E m v = (es, u) \<Longrightarrow> core u = core v"
  "on_message_sent E m v = (es, u) \<Longrightarrow> core u = core v"
  by (auto simp: on_message_received_def on_message_sent_def dest!: insert_core item_core split: if_splits prod.splits)

lemma apply_core: "applyFetchedMessages E r k v = (es, u) \<Longrightarrow> core u = core v"
  unfolding applyFetchedMessages_def Let_def
  by (auto split: if_splits prod.splits dest!: refresh_rows_core loading_core) (auto simp: core_def)

lemma page_core:
  "on_fetch_result E k r v = (es, u) \<Longrightarrow> core u = core v"
  "on_fetch_finished k v = (es, u) \<Longrightarrow> core u = core v"
  "fetchNextMessage v = (es, u) \<Longrightarrow> core u = core v"
  "on_next_result E k pg r v = (es, u) \<Longrightarrow> core u = core v"
  by (auto simp: on_fetch_result_def on_fetch_finished_def fetchNextMessage_def on_next_result_def Let_def
      dest!: loading_core apply_core split: if_splits prod.splits)

lemma file_core:
  "cachedFileUrl l r v = (x, es, u) \<Longrightarrow> core u = core v"
  "on_looked_up l r k y v = (es, u) \<Longrightarrow> core u = core v"
  by (auto simp: cachedFileUrl_def on_looked_up_def core_def split: option.splits if_splits)

lemma contents_core: "contents_role E m v = (cs, es, u) \<Longrightarrow> core u = core v"
  by (auto simp: contents_role_def Let_def dest: file_core split: if_splits prod.splits)

lemma data_core: "row_data E n r v = (x, es, u) \<Longrightarrow> core u = core v"
  by (cases r) (auto simp: row_data_def Let_def dest: file_core contents_core split: if_splits prod.splits)

lemma quiet_core:
  "getImageList E v = (es, u) \<Longrightarrow> core u = core v"
  "startAttachmentUpload v = (es, u) \<Longrightarrow> core u = core v"
  "setMessageSendSuccess b v = (es, u) \<Longrightarrow> core u = core v"
  "cancelAttachmentUpload b v = (es, u) \<Longrightarrow> core u = core v"
  by (auto simp: getImageList_def startAttachmentUpload_def setMessageSendSuccess_def cancelAttachmentUpload_def core_def Let_def
      split: option.splits if_splits)

lemmas operations_core = delete_core item_core message_core page_core file_core data_core quiet_core

text \<open>The inputs after which earlier requests are out of date.\<close>

fun leaves :: "chat_input \<Rightarrow> bool" where
  "leaves (OpenConversation _ _) = True"
| "leaves (ClearModel _) = True"
| "leaves _ = False"

lemma leaving_core:
  "fetchMessage ok user v = (es, u) \<Longrightarrow> core u = (fetchRequest v + 1, fileUploads v, fileDownloads v)"
  "resetModel ok v = (es, u) \<Longrightarrow> core u = (fetchRequest v + 1, fileUploads v, fileDownloads v)"
  unfolding fetchMessage_def resetModel_def Let_def
  by (auto split: if_splits prod.splits dest!: loading_core quiet_core(4) simp: core_def)

text \<open>What the transfers of one step may turn into.\<close>

definition upload_moves :: "upload_state option \<Rightarrow> upload_state option \<Rightarrow> bool" where
  "upload_moves x y \<longleftrightarrow> y = x \<or>
     (\<exists>u w. x = Some u \<and> y = Some w \<and> \<not> up_canceled u \<and> (0 \<le> up_progress w \<and> up_progress w \<le> 1 \<or> up_progress w = up_progress u)
       \<and> (up_canceled w \<longrightarrow> \<not> up_active w))"

lemma upload_moves_refl [simp]: "upload_moves x x"
  by (simp add: upload_moves_def)

lemma upload_moves_trans: "upload_moves x y \<Longrightarrow> upload_moves y z \<Longrightarrow> upload_moves x z"
  unfolding upload_moves_def by fastforce

lemma clamp_range: "0 \<le> clamp x \<and> clamp x \<le> 1"
  by (simp add: clamp_def)

lemma view_upload_step:
  assumes "setUploadProgress i x b v = (es, u)"
  shows "fetchRequest u = fetchRequest v \<and> fileDownloads u = fileDownloads v \<and> (\<forall>j. upload_moves (fileUploads v j) (fileUploads u j))"
  using assms clamp_range [of x]
  by (auto simp: setUploadProgress_def upload_moves_def split: option.splits if_splits)

lemma settle_step:
  "settle_uploads ok is v = (es, u) \<Longrightarrow>
   fetchRequest u = fetchRequest v \<and> fileDownloads u = fileDownloads v \<and> (\<forall>j. upload_moves (fileUploads v j) (fileUploads u j))"
proof (induction "is" arbitrary: v es u)
  case (Cons i "is")
  obtain fs w where f: "(if (case fileUploads v i of None \<Rightarrow> False | Some u \<Rightarrow> up_active u)
      then setUploadProgress i (if ok then 1 else upload_progress i v) False v else ([], v)) = (fs, w)" by fastforce
  obtain gs x where g: "settle_uploads ok is w = (gs, x)" by fastforce
  have "u = x" using Cons.prems f g by simp
  moreover have "fetchRequest w = fetchRequest v \<and> fileDownloads w = fileDownloads v \<and> (\<forall>j. upload_moves (fileUploads v j) (fileUploads w j))"
    using f view_upload_step by (auto split: if_splits)
  ultimately show ?case using Cons.IH [OF g] by (metis upload_moves_trans)
qed simp

lemma cancel_step:
  assumes "removeCanceledUpload E i v = (es, u)"
  shows "fetchRequest u = fetchRequest v \<and> fileDownloads u = fileDownloads v \<and> (\<forall>j. upload_moves (fileUploads v j) (fileUploads u j))
    \<and> (\<forall>x. fileUploads v i = Some x \<longrightarrow> \<not> up_canceled x \<longrightarrow> fileUploads u i = Some (x\<lparr>up_active := False, up_canceled := True\<rparr>))"
proof (cases "\<exists>x. fileUploads v i = Some x \<and> \<not> up_canceled x")
  case False
  then show ?thesis using assms by (auto simp: removeCanceledUpload_def split: option.splits)
next
  case True
  then obtain x where x: "fileUploads v i = Some x" "\<not> up_canceled x" by blast
  let ?v = "v\<lparr>fileUploads := (fileUploads v)(i \<mapsto> x\<lparr>up_active := False, up_canceled := True\<rparr>)\<rparr>"
  have "core u = core ?v" using assms x unfolding removeCanceledUpload_def Let_def
    by (auto split: option.splits prod.splits if_splits dest!: contents_core delete_core)
  then have "fetchRequest u = fetchRequest v" "fileDownloads u = fileDownloads v" "fileUploads u = fileUploads ?v"
    by (simp_all add: core_def)
  then show ?thesis using x by (simp add: upload_moves_def)
qed

lemma start_step:
  assumes "on_upload_started E i path v = (es, u)"
  shows "fetchRequest u = fetchRequest v \<and> fileDownloads u = fileDownloads v \<and> (\<forall>j. j \<noteq> i \<longrightarrow> upload_moves (fileUploads v j) (fileUploads u j))
    \<and> (upload_moves (fileUploads v i) (fileUploads u i) \<or> (\<exists>w. fileUploads u i = Some w \<and> up_progress w = 0))"
proof (cases "List.find (\<lambda>m. vi_id m = i \<or> same_url E (media_url (payload_content (vi_body m))) path) (rev (items v))")
  case None
  then show ?thesis using assms by (simp add: on_upload_started_def)
next
  case (Some m)
  then show ?thesis using assms by (auto simp: on_upload_started_def setUploadProgress_def clamp_def)
qed

definition fraction :: "rat \<Rightarrow> bool" where
  "fraction x \<longleftrightarrow> 0 \<le> x \<and> x \<le> 1"

definition fractions_ok :: "message_view \<Rightarrow> bool" where
  "fractions_ok v \<longleftrightarrow> (\<forall>i x. fileUploads v i = Some x \<longrightarrow> fraction (up_progress x))
     \<and> (\<forall>i x. fileDownloads v i = Some x \<longrightarrow> fraction (dn_progress x))"

lemma put_step: "put_download i d v = (es, u) \<Longrightarrow>
   fetchRequest u = fetchRequest v \<and> fileUploads u = fileUploads v \<and> fileDownloads u = (fileDownloads v)(i \<mapsto> d)"
  by (auto simp: put_download_def Let_def)

lemma download_fractions:
  "downloadFile E i k v = (es, u) \<Longrightarrow> fetchRequest u = fetchRequest v \<and> fileUploads u = fileUploads v
     \<and> (\<forall>j y. fileDownloads u j = Some y \<longrightarrow> fileDownloads v j = Some y \<or> fraction (dn_progress y))"
  "cancelFileDownload E i k v = (es, u) \<Longrightarrow> fetchRequest u = fetchRequest v \<and> fileUploads u = fileUploads v
     \<and> (\<forall>j y. fileDownloads u j = Some y \<longrightarrow> fileDownloads v j = Some y \<or> fraction (dn_progress y))"
  unfolding downloadFile_def cancelFileDownload_def Let_def
  by (auto dest!: put_step simp: no_download_def fraction_def split: option.splits if_splits prod.splits)

lemma transfer_fractions:
  assumes "on_transfer E rq e v = (es, u)" and "fractions_ok v"
  shows "fetchRequest u = fetchRequest v \<and> fileUploads u = fileUploads v \<and> fractions_ok u"
proof -
  have s: "fraction (dn_progress y)" if "download_step E e x = Some y" "fraction (dn_progress x)" for x y
    using that clamp_range by (auto simp: download_step_def fraction_def Let_def split: transfer_event.splits if_splits)
  have d: "fraction (dn_progress y)" if "fileDownloads v i = Some x" "download_step E e x = Some y" for i x y
    using that s assms(2) by (simp add: fractions_ok_def)
  show ?thesis
    using assms d by (auto simp: on_transfer_def fractions_ok_def dest!: put_step split: option.splits if_splits)
qed

lemma moves_fractions:
  assumes "fractions_ok v" and "fileDownloads u = fileDownloads v" and "\<And>j. upload_moves (fileUploads v j) (fileUploads u j)"
  shows "fractions_ok u"
proof -
  have "fraction (up_progress y)" if "fileUploads u j = Some y" for j y
    using assms(1) assms(3) [of j] that by (auto simp: fractions_ok_def upload_moves_def fraction_def)
  then show ?thesis using assms(1,2) by (simp add: fractions_ok_def)
qed

fun begins :: "string \<Rightarrow> chat_input \<Rightarrow> bool" where
  "begins j (UploadStarted i _) = (i = j)"
| "begins _ _ = False"

lemma core_moves:
  "core u = core v \<Longrightarrow> fetchRequest u = fetchRequest v \<and> fileDownloads u = fileDownloads v \<and> (\<forall>j. upload_moves (fileUploads v j) (fileUploads u j))"
  by (simp add: core_def)

lemma progress_step:
  "on_upload_progress k x v = (es, u) \<Longrightarrow>
     fetchRequest u = fetchRequest v \<and> fileDownloads u = fileDownloads v \<and> (\<forall>j. upload_moves (fileUploads v j) (fileUploads u j))"
  "on_upload_finished k v = (es, u) \<Longrightarrow>
     fetchRequest u = fetchRequest v \<and> fileDownloads u = fileDownloads v \<and> (\<forall>j. upload_moves (fileUploads v j) (fileUploads u j))"
  "on_upload_settled k ok v = (es, u) \<Longrightarrow>
     fetchRequest u = fetchRequest v \<and> fileDownloads u = fileDownloads v \<and> (\<forall>j. upload_moves (fileUploads v j) (fileUploads u j))"
  by (auto simp: on_upload_progress_def on_upload_finished_def on_upload_settled_def dest!: view_upload_step split: if_splits)

lemma batch_step:
  assumes "on_batch_finished is given v = (es, u)"
  shows "fetchRequest u = fetchRequest v \<and> fileDownloads u = fileDownloads v \<and> (\<forall>j. upload_moves (fileUploads v j) (fileUploads u j))"
proof -
  obtain fs w where f: "settle_uploads (given = Some []) is
      (v\<lparr>attachmentError := (case given of None \<Rightarrow> ''Upload canceled.'' | Some e \<Rightarrow> e)\<rparr>) = (fs, w)" by fastforce
  have "u = w\<lparr>attachmentWatcher := None, attachmentCancellation := None, cancelingAttachments := False\<rparr>"
    using assms f unfolding on_batch_finished_def Let_def by auto
  then show ?thesis using settle_step [OF f] by simp
qed

text \<open>Every input that has to do with uploads, and every other one.\<close>

lemma upload_side:
  assumes "chat_step E i v = (es, u)"
  shows "fetchRequest u = fetchRequest v + (if leaves i then 1 else 0)
    \<and> (\<forall>j. \<not> begins j i \<longrightarrow> upload_moves (fileUploads v j) (fileUploads u j))"
proof (cases i)
  case (OpenConversation ok user)
  then show ?thesis using leaving_core(1) [of ok user v es u] assms by (simp add: core_def)
next
  case (ClearModel ok)
  then show ?thesis using leaving_core(2) [of ok v es u] assms by (simp add: core_def)
next
  case (UploadStarted k path)
  then show ?thesis using start_step [of E k path v es u] assms by simp
next
  case (DownloadOf k n)
  then show ?thesis using download_fractions(1) [of E k n v es u] assms by simp
next
  case (StopDownload k n)
  then show ?thesis using download_fractions(2) [of E k n v es u] assms by simp
next
  case (TransferEvent rq e)
  then show ?thesis using assms by (auto simp: on_transfer_def dest: put_step split: option.splits if_splits)
next
  case (UploadCanceledFor k)
  then show ?thesis using cancel_step [of E k v es u] assms by simp
next
  case (BatchFinished k given)
  then show ?thesis using batch_step [of k given v es u] assms by simp
qed (use assms in \<open>auto dest!: operations_core [THEN core_moves] progress_step split: prod.splits\<close>)

lemma step_fractions:
  assumes "fractions_ok v" and "chat_step E i v = (es, u)"
  shows "fractions_ok u"
proof -
  note side = upload_side [OF assms(2)]
  have same: "fractions_ok u" if "fileDownloads u = fileDownloads v" "\<And>j. \<not> begins j i"
    using moves_fractions [OF assms(1) that(1)] side that(2) by blast
  have down: "fractions_ok u"
    if "fileUploads u = fileUploads v" "\<forall>j y. fileDownloads u j = Some y \<longrightarrow> fileDownloads v j = Some y \<or> fraction (dn_progress y)"
    using that assms(1) unfolding fractions_ok_def by metis
  show ?thesis
  proof (cases i)
    case (OpenConversation ok user)
    then show ?thesis using leaving_core(1) [of ok user v es u] assms by (auto simp: core_def fractions_ok_def)
  next
    case (ClearModel ok)
    then show ?thesis using leaving_core(2) [of ok v es u] assms by (auto simp: core_def fractions_ok_def)
  next
    case (UploadStarted k path)
    then have s: "on_upload_started E k path v = (es, u)" using assms(2) by simp
    have "fraction (up_progress y)" if "fileUploads u j = Some y" for j y
    proof (cases "upload_moves (fileUploads v j) (fileUploads u j)")
      case True
      then show ?thesis using that assms(1) by (auto simp: fractions_ok_def upload_moves_def fraction_def)
    next
      case False
      then show ?thesis using start_step [OF s] that by (cases "j = k") (auto simp: fraction_def)
    qed
    then show ?thesis using start_step [OF s] assms(1) by (simp add: fractions_ok_def)
  next
    case (DownloadOf k n)
    then show ?thesis using download_fractions(1) [of E k n v es u] assms(2) by (intro down) auto
  next
    case (StopDownload k n)
    then show ?thesis using download_fractions(2) [of E k n v es u] assms(2) by (intro down) auto
  next
    case (TransferEvent rq e)
    then show ?thesis using transfer_fractions [of E rq e v es u] assms by simp
  next
    case (UploadCanceledFor k)
    then show ?thesis using cancel_step [of E k v es u] assms(2) by (intro same) simp_all
  next
    case (BatchFinished k given)
    then show ?thesis using batch_step [of k given v es u] assms(2) by (intro same) simp_all
  qed (use assms(2) in \<open>auto intro!: same dest!: operations_core [THEN core_moves] progress_step split: prod.splits\<close>)
qed

section \<open>Properties of the chat view\<close>

definition demo_calendar :: calendar where
  "demo_calendar = \<lparr>epoch_value = (\<lambda>t. if t = [] then None else Some (int (length t))), day_of = (\<lambda>t. t), day_valid = (\<lambda>t. True),
     this_day = 3, clock_text = (\<lambda>t. ''noon''), weekday_text = (\<lambda>t. ''Mon''), date_text = (\<lambda>t. ''1 Jan'')\<rparr>"

definition demo_view_env :: view_env where
  "demo_view_env = \<lparr>calendar_of = demo_calendar, is_file = (\<lambda>p. p \<noteq> []), is_local_url = (\<lambda>u. False), url_path = (\<lambda>u. u), path_url = (\<lambda>p. p),
     same_url = (=), kept_file = (\<lambda>u. []), cached_image = (\<lambda>i s. []), migrates_image = (\<lambda>i s. False), migrated_image = (\<lambda>i s. []),
     media_service = True, upload_order = (\<lambda>f. [''u''])\<rparr>"

definition shown_as :: "string \<Rightarrow> string \<Rightarrow> view_item" where
  "shown_as i l = \<lparr>vi_id = i, vi_sender = ''you'', vi_recipient = ''me'',
     vi_body = new_payload\<lparr>message_id := i, timestamp := ''aa'', localpath := l\<rparr>, vi_sent_at = [], vi_mine = False, vi_sending = False,
     vi_success = False\<rparr>"

definition demo_answer :: "view_item list \<Rightarrow> response" where
  "demo_answer ms = \<lparr>rs_messages = ms, rs_page = 1, rs_limit = 200, rs_total = 3, rs_total_pages = 2\<rparr>"

definition demo_inputs :: "(view_env \<times> chat_input) list" where
  "demo_inputs = map (Pair demo_view_env) [OpenConversation True ''y-ou'',
     FetchResult 1 (demo_answer [shown_as ''a'' ''/p'', shown_as ''b'' []]), Arrived (shown_as ''c'' []),
     UploadStarted ''u'' ''x'', UploadStarted ''b'' ''y'', UploadAdvanced ''b'' (3 / 2), DeleteRows [0, 7]]"

definition demo_view :: message_view where
  "demo_view = snd (chat_steps demo_inputs new_message_view)"



text \<open>
  C32: reconciling a fetched page with the rows on show gives what a reset would give: the messages of
  the page in its order, but for the paths of local files that are kept, with their dates, sections and numbers.
\<close>

theorem refresh_shows_page:
  assumes "applyFetchedMessages E r (fetchRequest v) v = (es, u)" and "aligned v"
  shows "map forget_path (items u) = map forget_path (rs_messages r)
    \<and> displayDates u = dates_of E (rs_messages r) \<and> sections u = sections_of E (rs_messages r)
    \<and> (shown u)\<lparr>rs_messages := []\<rparr> = r\<lparr>rs_messages := []\<rparr> \<and> \<not> isLoading u"
proof (cases "displayedConversation v = activeConversation v \<and> displayedConversation v \<noteq> []")
  case True
  let ?n = "length (rs_messages r)"
  obtain fs w where f: "refresh_rows E 0 (rs_messages r) v = (fs, w)" by fastforce
  obtain gs x where g: "(if ?n < length (items w) then ([RowsRemoved ?n (length (items w) - 1)], truncate_rows ?n w) else ([], w)) = (gs, x)"
    by fastforce
  obtain hs y where h: "set_chat_loading False (with_numbers r x) = (hs, y)" by fastforce
  have u: "u = y" using assms(1) True f g h by (auto simp: applyFetchedMessages_def Let_def split: if_splits)
  note s = refresh_rows_show [OF f assms(2), simplified]
  have l: "?n \<le> length (items w)" using refresh_rows_follows [OF f] by simp
  have t: "items x = take ?n (items w)" "displayDates x = take ?n (displayDates w)" "sections x = take ?n (sections w)"
    using g l s by (auto simp: row_ops aligned_def split: if_splits)
  have "items y = items x \<and> displayDates y = displayDates x \<and> sections y = sections x \<and> \<not> isLoading y
      \<and> (shown y)\<lparr>rs_messages := []\<rparr> = r\<lparr>rs_messages := []\<rparr>"
    using h by (cases r) (auto simp: set_chat_loading_def with_numbers_def split: if_splits)
  then show ?thesis unfolding u using s t by simp
next
  case False
  then show ?thesis using assms(1) unfolding applyFetchedMessages_def
    by (auto simp: set_chat_loading_def split: if_splits)
qed

theorem refresh_shows_page_witness:
  "map vi_id (items demo_view) = [''b'', ''c'']
   \<and> map vi_id (items (snd (applyFetchedMessages demo_view_env (demo_answer [shown_as ''c'' [], shown_as ''b'' [], shown_as ''d'' []])
       (fetchRequest demo_view) demo_view))) = [''c'', ''b'', ''d'']"
proof
  let ?r = "demo_answer [shown_as ''c'' [], shown_as ''b'' [], shown_as ''d'' []]"
  let ?a = "applyFetchedMessages demo_view_env ?r (fetchRequest demo_view) demo_view"
  have a: "aligned demo_view" by code_simp
  show "map vi_id (items demo_view) = [''b'', ''c'']" by code_simp
  have "?a = (fst ?a, snd ?a)" by simp
  from refresh_shows_page [OF this a] have "map forget_path (items (snd ?a)) = map forget_path (rs_messages ?r)" by blast
  then have "map vi_id (map forget_path (items (snd ?a))) = map vi_id (map forget_path (rs_messages ?r))" by simp
  then show "map vi_id (items (snd ?a)) = [''c'', ''b'', ''d'']"
    by (simp add: o_def forget_path_def demo_answer_def shown_as_def)
qed

text \<open>
  Deleting rows removes exactly the rows that are named and exist, whatever the order and the
  repetitions of the numbers.
\<close>

theorem deleted_rows:
  "items (snd (deleteMessage rs v)) = nths (items v) (- {n. int n \<in> set rs})"
proof -
  obtain es u where r: "remove_rows (remdups_adj (rev (sort rs))) v = (es, u)" by fastforce
  then show ?thesis using remove_rows_nths [OF r descending] by (simp add: deleteMessage_def)
qed

text \<open>
  Once another conversation was opened or the model was cleared, no answer to an earlier request
  changes anything, whatever happened in between.
\<close>

theorem late_pages_ignored:
  assumes "k \<le> fetchRequest v" and "chat_steps is v = (es, u)" and "list_ex (\<lambda>(E, i). leaves i) is"
  shows "chat_step E (FetchResult k r) u = ([], u) \<and> chat_step E (OlderResult k pg r) u = ([], u)
    \<and> chat_step E (FetchFinished k) u = ([], u) \<and> chat_step E (FileLookedUp l q k f) u = ([], u)"
proof -
  have m: "fetchRequest v \<le> fetchRequest w" if "chat_steps js v = (fs, w)" for js fs v w
    using chat_steps_keep [where P = "\<lambda>w. fetchRequest v \<le> fetchRequest w" and Q = "\<lambda>_. True", OF _ that]
    by (fastforce dest: upload_side simp: list_all_iff)
  obtain js E' i ls where j: "is = js @ (E', i) # ls" "leaves i"
    using assms(3) by (auto simp: list_ex_iff dest: split_list)
  obtain fs w where w: "chat_steps js v = (fs, w)" by fastforce
  obtain gs x where x: "chat_step E' i w = (gs, x)" by fastforce
  obtain hs y where y: "chat_steps ls x = (hs, y)" by fastforce
  have "u = y" using assms(2) w x y unfolding j(1) by (simp add: chat_steps_append Let_def)
  then have "k < fetchRequest u" using m [OF w] m [OF y] upload_side [OF x] j(2) assms(1) by simp
  then show ?thesis by (simp add: on_fetch_result_def on_next_result_def on_fetch_finished_def on_looked_up_def)
qed

theorem late_pages_ignored_witness:
  "chat_step demo_view_env (FetchResult 0 (demo_answer [shown_as ''z'' []])) demo_view = ([], demo_view)
   \<and> fst (chat_step demo_view_env (FetchResult 1 (demo_answer [shown_as ''z'' []])) demo_view) \<noteq> []"
proof
  have s: "chat_steps demo_inputs new_message_view = (fst (chat_steps demo_inputs new_message_view), demo_view)"
    by (simp add: demo_view_def)
  have "list_ex (\<lambda>(E, i). leaves i) demo_inputs" "0 \<le> fetchRequest new_message_view" by (simp_all add: demo_inputs_def)
  from late_pages_ignored [OF this(2) s this(1)]
  show "chat_step demo_view_env (FetchResult 0 (demo_answer [shown_as ''z'' []])) demo_view = ([], demo_view)" by blast
  show "fst (chat_step demo_view_env (FetchResult 1 (demo_answer [shown_as ''z'' []])) demo_view) \<noteq> []" by code_simp
qed

text \<open>
  C15: a cancelled upload stays cancelled and idle: no progress or outcome that arrives later
  revives it, only a new start of the same upload does.
\<close>

theorem canceled_upload_stays:
  assumes "removeCanceledUpload E i v = (es, w)" and "fileUploads v i = Some x" and "\<not> up_canceled x"
    and "chat_steps is w = (fs, u)" and "list_all (\<lambda>(E, j). \<not> begins i j) is"
  shows "fileUploads u i = Some (x\<lparr>up_active := False, up_canceled := True\<rparr>)"
proof -
  let ?y = "x\<lparr>up_active := False, up_canceled := True\<rparr>"
  have "fileUploads w i = Some ?y" using cancel_step [OF assms(1)] assms(2,3) by blast
  then show ?thesis
    using chat_steps_keep [where P = "\<lambda>w. fileUploads w i = Some ?y" and Q = "\<lambda>j. \<not> begins i j", OF _ assms(4)] assms(5)
    by (fastforce dest: upload_side simp: upload_moves_def)
qed

theorem canceled_upload_stays_witness:
  "up_active (the (fileUploads demo_view ''b''))
   \<and> fileUploads (snd (chat_steps [(demo_view_env, UploadAdvanced ''b'' (1 / 2)), (demo_view_env, UploadSettled ''b'' True)]
       (snd (removeCanceledUpload demo_view_env ''b'' demo_view)))) ''b''
     = Some \<lparr>up_message = ''b'', up_index = 0, up_progress = 1, up_active = False, up_canceled = True\<rparr>"
proof -
  let ?c = "removeCanceledUpload demo_view_env ''b'' demo_view"
    and ?is = "[(demo_view_env, UploadAdvanced ''b'' (1 / 2)), (demo_view_env, UploadSettled ''b'' True)]"
  have f: "fileUploads demo_view ''b'' = Some \<lparr>up_message = ''b'', up_index = 0, up_progress = 1, up_active = True, up_canceled = False\<rparr>"
    by code_simp
  have "?c = (fst ?c, snd ?c)" "chat_steps ?is (snd ?c) = (fst (chat_steps ?is (snd ?c)), snd (chat_steps ?is (snd ?c)))" by simp_all
  from canceled_upload_stays [OF this(1) f _ this(2)] show ?thesis using f by simp
qed

text \<open>
  Whatever a transfer reports, the progress on show is a fraction between nothing and all.
\<close>

theorem progress_is_fraction:
  assumes "chat_steps is new_message_view = (es, u)"
  shows "(case fileUploads u i of None \<Rightarrow> True | Some x \<Rightarrow> fraction (up_progress x))
    \<and> fraction (dn_progress (download_of i u))"
proof -
  have "fractions_ok new_message_view" by (simp add: fractions_ok_def new_message_view_def)
  then have "fractions_ok u"
    using chat_steps_keep [where P = fractions_ok and Q = "\<lambda>_. True", OF _ assms] step_fractions by (simp add: list_all_iff)
  then show ?thesis by (auto simp: fractions_ok_def download_of_def no_download_def fraction_def split: option.splits)
qed

theorem progress_is_fraction_witness:
  "fileUploads demo_view ''b'' \<noteq> None
   \<and> (case fileUploads demo_view ''b'' of None \<Rightarrow> True | Some x \<Rightarrow> fraction (up_progress x))"
proof -
  have s: "chat_steps demo_inputs new_message_view = (fst (chat_steps demo_inputs new_message_view), demo_view)"
    by (simp add: demo_view_def)
  have "fileUploads demo_view ''b'' \<noteq> None" by code_simp
  then show ?thesis using progress_is_fraction [OF s, of "''b''"] by blast
qed

text \<open>A batch that ends takes the cancellation of a batch started after it: that one can no longer be cancelled.\<close>

lemma older_batch_releases_newer:
  "chat_steps [(E, SendAttachments), (F, SendAttachments), (G, BatchFinished [] given), (H, StopAttachments True)] v = (es, u)
   \<Longrightarrow> attachmentCancellation u = None \<and> \<not> cancelingAttachments u \<and> CancelBatch (next_watcher v + 1) \<notin> set es"
  by (auto simp: startAttachmentUpload_def on_batch_finished_def cancelAttachmentUpload_def Let_def)

end
