(* ===== verification/Session_Flow.thy ===== *)
theory Session_Flow
  imports Auth_Storage Network_Client
begin

text \<open>
  Signing in, the check of the session at the start, the refresh of its tokens and signing out:
  \<open>LoginRepositoryImpl\<close>, \<open>SessionRepositoryImpl\<close>, the use cases on them and \<open>LoginVM\<close>
  (features/authentication). A request is what the HTTP client is given; its response comes in as
  an argument. What an operation tells other parts is the list of its effects, in order.
\<close>

section \<open>State and effects\<close>

datatype ConnectionState = Disconnected | Connecting | Connected

datatype auth_effect =
    ConnectToServer string string string "16 word"
  | CloseConnection
  | CloseStores
  | RepoSessionChanged bool
  | SessionChanged bool
  | LoginSucceeded
  | LoginFailed
  | ConnectingSignal
  | ConnectedSignal
  | DisconnectedSignal
  | IsLoggedInChanged
  | IsLoadingChanged

record session_repository =
  has_xmpp :: bool
  m_user :: "LocalUser option"
  auth_dir :: auth_files

text \<open>The base 64 of tokens and the clock.\<close>

record token_env =
  unbase64_url :: "string \<Rightarrow> string"
  clock :: "64 word"

section \<open>\<open>SessionRepositoryImpl\<close>\<close>

text \<open>The constructor reads the stored session.\<close>

definition new_session :: "auth_lib \<Rightarrow> auth_env \<Rightarrow> bool \<Rightarrow> auth_files \<Rightarrow> session_repository" where
  "new_session L env xmpp fs =
     (case getLocalUser L env fs of (u, fs') \<Rightarrow> \<lparr>has_xmpp = xmpp, m_user = u, auth_dir = fs'\<rparr>)"

definition connectToXmpp :: "session_repository \<Rightarrow> auth_effect list" where
  "connectToXmpp s =
     (case m_user s of
        None \<Rightarrow> []
      | Some u \<Rightarrow> [ConnectToServer (lu_jid u) (lu_password u) (lu_host u) (lu_port u)])"

definition refresh_request :: "auth_lib \<Rightarrow> 'u \<Rightarrow> LocalUser \<Rightarrow> 'u NetworkRequest" where
  "refresh_request L refresh_url u =
     setJsonBody (print_doc L) (obj_insert ''refresh_token'' (JStr (lu_refresh_token u)) (JObj []))
       ((new_request refresh_url)\<lparr>meth := Post, requires_authentication := False\<rparr>)"

text \<open>The continuation of \<open>refreshToken\<close> on the response.\<close>

definition document_object :: "json \<Rightarrow> json" where
  "document_object j = (if is_object j then j else JObj [])"

definition response_token :: "auth_lib \<Rightarrow> 'u NetworkResponse \<Rightarrow> TokenResponseDto option" where
  "response_token L resp =
     (if \<not> isSuccess resp then None
      else case json_parse (parse_doc L) (rbody resp) of
             None \<Rightarrow> None
           | Some doc \<Rightarrow> Some (token_fromJson (document_object doc)))"

definition refreshToken ::
    "auth_lib \<Rightarrow> auth_env \<Rightarrow> auth_env \<Rightarrow> LocalUser \<Rightarrow> 'u NetworkResponse \<Rightarrow> session_repository \<Rightarrow>
     bool \<times> auth_effect list \<times> session_repository" where
  "refreshToken L env env' u resp s =
     (case response_token L resp of
        None \<Rightarrow> (False, [], s)
      | Some t \<Rightarrow>
          (let (ok, fs') = updateToken L env env' t (auth_dir s)
           in if \<not> ok then (False, [], s\<lparr>auth_dir := fs'\<rparr>)
              else (let u' = u\<lparr>lu_access_token := new_access_token t, lu_refresh_token := new_refresh_token t\<rparr>
                    in (True, [ConnectToServer (lu_jid u') (lu_password u') (lu_host u') (lu_port u')],
                        s\<lparr>m_user := Some u', auth_dir := fs'\<rparr>))))"

definition sessionChecked ::
    "auth_lib \<Rightarrow> token_env \<Rightarrow> auth_env \<Rightarrow> auth_env \<Rightarrow> 'u NetworkResponse \<Rightarrow> session_repository \<Rightarrow>
     bool \<times> auth_effect list \<times> session_repository" where
  "sessionChecked L T env env' resp s =
     (case m_user s of
        None \<Rightarrow> (False, [], s)
      | Some u \<Rightarrow>
          (if \<not> has_xmpp s then (False, [], s)
           else if isTokenExpired (unbase64_url T) (parse_doc L) (clock T) (lu_access_token u)
           then refreshToken L env env' u resp s
           else (True, [], s)))"

definition session_logout :: "auth_lib \<Rightarrow> auth_env \<Rightarrow> session_repository \<Rightarrow> bool \<times> auth_effect list \<times> session_repository" where
  "session_logout L env s =
     (let (ok, fs') = store_logout L env (auth_dir s)
      in if ok
         then (True, [CloseStores] @ (if has_xmpp s then [CloseConnection] else []) @ [RepoSessionChanged False],
               s\<lparr>m_user := None, auth_dir := fs'\<rparr>)
         else (False, [], s\<lparr>auth_dir := fs'\<rparr>))"

definition isSession :: "session_repository \<Rightarrow> bool" where
  "isSession s \<longleftrightarrow> m_user s \<noteq> None"

section \<open>\<open>SessionUsecase\<close> and \<open>LogoutUsecase\<close>\<close>

definition session_execute ::
    "auth_lib \<Rightarrow> token_env \<Rightarrow> auth_env \<Rightarrow> auth_env \<Rightarrow> 'u NetworkResponse \<Rightarrow> session_repository \<Rightarrow>
     auth_effect list \<times> session_repository" where
  "session_execute L T env env' resp s =
     (let (isSession, effects, s') = sessionChecked L T env env' resp s
      in (effects @ connectToXmpp s' @ [SessionChanged isSession], s'))"

definition logout_execute :: "auth_lib \<Rightarrow> auth_env \<Rightarrow> session_repository \<Rightarrow> auth_effect list \<times> session_repository" where
  "logout_execute L env s =
     (let (ok, effects, s') = session_logout L env s in (effects @ [SessionChanged (\<not> ok)], s'))"

section \<open>\<open>LoginRepositoryImpl\<close>\<close>

record login_repository =
  m_request :: LoginRequest
  m_response :: "LoginResponseDTO option"
  m_currentState :: ConnectionState
  login_files :: auth_files

text \<open>\<open>login\<close> posts the credentials; the password the response is saved with is the one of this call.\<close>

definition login_start :: "auth_lib \<Rightarrow> 'u \<Rightarrow> LoginRequest \<Rightarrow> login_repository \<Rightarrow> 'u NetworkRequest \<times> login_repository" where
  "login_start L login_url creds s =
     (client_post (print_doc L) login_url (request_toJson creds), s\<lparr>m_request := creds\<rparr>)"

definition login_connect :: "login_repository \<Rightarrow> auth_effect list" where
  "login_connect s =
     (case m_response s of
        None \<Rightarrow> []
      | Some r \<Rightarrow> [ConnectToServer (jid (resp_xmpp r)) (req_password (m_request s)) (xmpp_host (resp_xmpp r)) (port (resp_xmpp r))])"

definition login_response ::
    "auth_lib \<Rightarrow> auth_env \<Rightarrow> LoginRequest \<Rightarrow> 'u NetworkResponse \<Rightarrow> login_repository \<Rightarrow> auth_effect list \<times> login_repository" where
  "login_response L env creds resp s =
     (if \<not> isSuccess resp then ([], s)
      else case json_parse (parse_doc L) (rbody resp) of
             None \<Rightarrow> ([], s)
           | Some doc \<Rightarrow>
               (let s1 = s\<lparr>m_response := login_fromJson (document_object doc)\<rparr>
                in case m_response s1 of
                     None \<Rightarrow> ([], s1)
                   | Some r \<Rightarrow>
                       (let s2 = s1\<lparr>login_files := snd (session_save L env r (req_password creds) (login_files s1))\<rparr>
                        in (LoginSucceeded # login_connect s2, s2))))"

definition connectionStateChanged :: "ConnectionState \<Rightarrow> login_repository \<Rightarrow> auth_effect list \<times> login_repository" where
  "connectionStateChanged c s =
     (if m_currentState s = c then ([], s)
      else (case c of Connecting \<Rightarrow> [ConnectingSignal] | Connected \<Rightarrow> [ConnectedSignal] | Disconnected \<Rightarrow> [DisconnectedSignal],
            s\<lparr>m_currentState := c\<rparr>))"

text \<open>\<open>LoginUseCase::execute\<close> goes on after it has reported an empty user name.\<close>

definition login_execute :: "auth_lib \<Rightarrow> 'u \<Rightarrow> LoginRequest \<Rightarrow> login_repository \<Rightarrow>
    auth_effect list \<times> 'u NetworkRequest \<times> login_repository" where
  "login_execute L login_url creds s =
     ((if req_username creds = [] then [LoginFailed] else []), login_start L login_url creds s)"

section \<open>\<open>LoginVM\<close>\<close>

record login_vm =
  m_loading :: bool
  m_loggedIn :: bool
  m_userName :: string
  m_userJid :: string

definition vm_login :: "string \<Rightarrow> string \<Rightarrow> login_vm \<Rightarrow> LoginRequest \<times> login_vm" where
  "vm_login name password v = (\<lparr>req_username = name, req_password = password\<rparr>, v\<lparr>m_userName := name\<rparr>)"

definition setIsLoading :: "bool \<Rightarrow> login_vm \<Rightarrow> auth_effect list \<times> login_vm" where
  "setIsLoading b v = (if m_loading v = b then ([], v) else ([IsLoadingChanged], v\<lparr>m_loading := b\<rparr>))"

definition setIsLoggedIn :: "bool \<Rightarrow> login_vm \<Rightarrow> auth_effect list \<times> login_vm" where
  "setIsLoggedIn b v = (if m_loggedIn v = b then ([], v) else ([IsLoggedInChanged], v\<lparr>m_loggedIn := b\<rparr>))"

text \<open>The slot connected to \<open>loginSucceded\<close>; the other signals are passed on as they are.\<close>

definition vm_signal :: "auth_effect \<Rightarrow> login_vm \<Rightarrow> auth_effect list \<times> login_vm" where
  "vm_signal e v =
     (case e of
        LoginSucceeded \<Rightarrow> (case setIsLoggedIn True v of (es, v') \<Rightarrow> (es @ [LoginSucceeded], v'))
      | LoginFailed \<Rightarrow> ([LoginFailed], v)
      | ConnectingSignal \<Rightarrow> ([ConnectingSignal], v)
      | ConnectedSignal \<Rightarrow> ([ConnectedSignal], v)
      | _ \<Rightarrow> ([], v))"

section \<open>What holds of a session\<close>

text \<open>The session in memory is the stored one.\<close>

definition in_sync :: "auth_lib \<Rightarrow> auth_env \<Rightarrow> session_repository \<Rightarrow> bool" where
  "in_sync L env s \<longleftrightarrow> getLocalUser L env (auth_dir s) = (m_user s, auth_dir s)"

lemma refresh_cases:
  assumes "refreshToken L env env' u resp s = (ok, es, s')"
  shows "if ok
    then \<exists>t fs'. response_token L resp = Some t \<and> updateToken L env env' t (auth_dir s) = (True, fs')
      \<and> s' = s\<lparr>m_user := Some (u\<lparr>lu_access_token := new_access_token t, lu_refresh_token := new_refresh_token t\<rparr>), auth_dir := fs'\<rparr>
      \<and> es = connectToXmpp s'
    else es = [] \<and> m_user s' = m_user s"
  using assms by (auto simp: refreshToken_def connectToXmpp_def Let_def split: if_splits option.splits prod.splits)

text \<open>The update needs names that do not collide and room for the session with the new tokens.\<close>

definition refresh_room :: "auth_lib \<Rightarrow> auth_env \<Rightarrow> auth_env \<Rightarrow> 'u NetworkResponse \<Rightarrow> auth_files \<Rightarrow> bool" where
  "refresh_room L env env' resp fs \<longleftrightarrow> lib_ok L
     \<and> (\<forall>j fs1. readSession L env fs = (Inr (Some j), fs1) \<longrightarrow> canonical j
          \<and> (\<exists>name. accountFileName L j = Inr name \<and> names_apart L fs1 name)
          \<and> (\<forall>t j'. response_token L resp = Some t \<longrightarrow> with_token t j = Some j' \<longrightarrow> new_store_fits env' (print_doc L j')))"

lemma updateToken_local:
  assumes r: "refresh_room L env env' resp fs" and tok: "response_token L resp = Some t" and u: "updateToken L env env' t fs = (True, fs')"
    and l: "getLocalUser L env fs = (Some u, fs)" and e: "index_reads env''" "\<And>p. unlocks env'' p = None"
  shows "getLocalUser L env'' fs' = (Some (u\<lparr>lu_access_token := new_access_token t, lu_refresh_token := new_refresh_token t\<rparr>), fs')"
proof -
  have "auth_update L env env' (with_token t) fs = (True, fs')" using u by (simp add: updateToken_def)
  then obtain j fs1 where rd: "readSession L env fs = (Inr (Some j), fs1)"
    unfolding auth_update_def by (auto simp: ret_def dest!: save_True elim!: bind_InrE split: option.splits)
  have dj: "decodeSession j = Some u" using l rd by (simp add: getLocalUser_def auth_read_def answer_def)
  from r rd obtain name where n: "canonical j" "accountFileName L j = Inr name" "names_apart L fs1 name" "lib_ok L"
    and f: "\<And>j'. with_token t j = Some j' \<Longrightarrow> new_store_fits env' (print_doc L j')"
    using tok unfolding refresh_room_def by blast
  from updateToken_spec [OF n(4) rd n(1-3) f u e] dj show ?thesis by simp
qed

lemma refresh_sync:
  assumes "in_sync L env s" and "m_user s = Some u" and "refresh_room L env env' resp (auth_dir s)"
    and "refreshToken L env env' u resp s = (True, es, s')" and "index_reads env''" and "\<And>p. unlocks env'' p = None"
  shows "in_sync L env'' s'"
proof -
  obtain t fs' where tok: "response_token L resp = Some t" and t: "updateToken L env env' t (auth_dir s) = (True, fs')"
    "s' = s\<lparr>m_user := Some (u\<lparr>lu_access_token := new_access_token t, lu_refresh_token := new_refresh_token t\<rparr>), auth_dir := fs'\<rparr>"
    using refresh_cases [OF assms(4)] by auto
  have "getLocalUser L env (auth_dir s) = (Some u, auth_dir s)" using assms(1,2) by (simp add: in_sync_def)
  from updateToken_local [OF assms(3) tok t(1) this assms(5,6)] t(2) show ?thesis by (simp add: in_sync_def)
qed

section \<open>What the session flow promises\<close>

text \<open>
  The check at the start answers true only for a stored user whose token has not expired or was
  refreshed, and then the session in memory, tokens included, is the stored one.
\<close>

theorem session_start_sync:
  assumes "in_sync L env s" and "refresh_room L env env' resp (auth_dir s)"
    and "index_reads env" and "\<And>p. unlocks env p = None"
    and "session_execute L T env env' resp s = (es, s')" and "SessionChanged True \<in> set es"
  shows "isSession s' \<and> in_sync L env s'
    \<and> (s' = s \<or> isTokenExpired (unbase64_url T) (parse_doc L) (clock T) (lu_access_token (the (m_user s))))"
proof -
  obtain ok fx where c: "sessionChecked L T env env' resp s = (ok, fx, s')" and es: "es = fx @ connectToXmpp s' @ [SessionChanged ok]"
    using assms(5) by (auto simp: session_execute_def Let_def split: prod.splits)
  have "SessionChanged b \<notin> set (connectToXmpp s')" for b by (simp add: connectToXmpp_def split: option.splits)
  moreover have "SessionChanged b \<notin> set fx" for b
    using c refresh_cases [of L env env' _ resp s ok fx s']
    by (fastforce simp: sessionChecked_def connectToXmpp_def split: option.splits if_splits)
  ultimately have ok: "ok" using assms(6) es by auto
  obtain u where u: "m_user s = Some u" using c ok by (auto simp: sessionChecked_def split: option.splits)
  show ?thesis
  proof (cases "isTokenExpired (unbase64_url T) (parse_doc L) (clock T) (lu_access_token u)")
    case False
    then have "s' = s" using c u by (auto simp: sessionChecked_def split: if_splits)
    then show ?thesis using assms(1) u by (simp add: isSession_def)
  next
    case True
    then have r: "refreshToken L env env' u resp s = (True, fx, s')" using c u ok by (auto simp: sessionChecked_def split: if_splits)
    then have "in_sync L env s'" by (rule refresh_sync [OF assms(1) u assms(2) _ assms(3,4)])
    moreover have "isSession s'" using refresh_cases [OF r] by (auto simp: isSession_def)
    ultimately show ?thesis using True u by simp
  qed
qed

text \<open>
  The start connects to the chat server whatever the check said: with an expired token whose
  refresh failed it still connects once, with the stored password, and after a refresh twice.
\<close>

theorem session_start_connects:
  assumes "m_user s = Some u" and "has_xmpp s" and "session_execute L T env env' resp s = (es, s')"
  shows "\<exists>ok. es = (if ok \<and> isTokenExpired (unbase64_url T) (parse_doc L) (clock T) (lu_access_token u)
                    then connectToXmpp s else [])
                 @ [ConnectToServer (lu_jid u) (lu_password u) (lu_host u) (lu_port u), SessionChanged ok]"
proof -
  obtain ok fx where c: "sessionChecked L T env env' resp s = (ok, fx, s')" and es: "es = fx @ connectToXmpp s' @ [SessionChanged ok]"
    using assms(3) by (auto simp: session_execute_def Let_def split: prod.splits)
  show ?thesis
  proof (cases "isTokenExpired (unbase64_url T) (parse_doc L) (clock T) (lu_access_token u)")
    case True
    then have "refreshToken L env env' u resp s = (ok, fx, s')" using c assms(1,2) by (simp add: sessionChecked_def)
    from refresh_cases [OF this] show ?thesis
      using True es assms(1) by (intro exI [of _ ok]) (auto simp: connectToXmpp_def)
  next
    case False
    then show ?thesis using c es assms(1,2) by (intro exI [of _ ok]) (simp add: sessionChecked_def connectToXmpp_def)
  qed
qed

text \<open>
  After a logout that succeeded there is no session, in this run and after a restart: the
  check answers false, nothing connects, and the stores and the connection were closed.
\<close>

theorem logout_ends_session:
  assumes "index_apart L (auth_dir s)" and "logout_execute L env s = (es, s')" and "SessionChanged False \<in> set es"
  shows "es = [CloseStores] @ (if has_xmpp s then [CloseConnection] else []) @ [RepoSessionChanged False, SessionChanged False]
    \<and> session_execute L T env1 env2 resp s' = ([SessionChanged False], s')
    \<and> \<not> isSession (new_session L env3 x (auth_dir s'))"
proof -
  obtain ok fs' where l: "store_logout L env (auth_dir s) = (ok, fs')" by fastforce
  then have ok: "ok" and s': "s' = s\<lparr>m_user := None, auth_dir := fs'\<rparr>"
    and es: "es = [CloseStores] @ (if has_xmpp s then [CloseConnection] else []) @ [RepoSessionChanged False, SessionChanged False]"
    using assms(2,3) by (auto simp: logout_execute_def session_logout_def Let_def split: if_splits)
  have "getLocalUser L env3 fs' = (None, fs')"
    using clear_read [OF assms(1), of env fs' env3] l ok by (simp add: store_logout_def getLocalUser_def)
  then show ?thesis
    using es s' by (simp add: session_execute_def sessionChecked_def connectToXmpp_def new_session_def isSession_def)
qed

section \<open>Witnesses\<close>

definition sample_session :: session_repository where
  "sample_session = \<lparr>has_xmpp = True, m_user = Some (session_user sample_response ''pw''), auth_dir = Map.empty\<rparr>"

definition sample_token_env :: token_env where
  "sample_token_env = \<lparr>unbase64_url = \<lambda>s. s, clock = 1000\<rparr>"

theorem session_start_connects_witness:
  "session_execute sample_lib sample_token_env sample_env sample_env ((new_response () [])\<lparr>status_code := 401\<rparr>) sample_session
     = ([ConnectToServer ''bob@h'' ''pw'' ''h'' 22, SessionChanged False], sample_session)"
proof -
  let ?resp = "(new_response () [])\<lparr>status_code := 401\<rparr>"
  obtain es s' where r: "session_execute sample_lib sample_token_env sample_env sample_env ?resp sample_session = (es, s')" by fastforce
  have u: "m_user sample_session = Some (session_user sample_response ''pw'')" "has_xmpp sample_session"
    by (simp_all add: sample_session_def)
  have x: "isTokenExpired b p c ''a''" for b p c by (simp add: isTokenExpired_def)
  have t: "lu_access_token (session_user sample_response ''pw'') = ''a''" by (simp add: session_user_def sample_response_def)
  have n: "response_token sample_lib ?resp = None" by (simp add: response_token_def isSuccess_def new_response_def)
  have f: "es = [ConnectToServer ''bob@h'' ''pw'' ''h'' 22, SessionChanged False] \<and> s' = sample_session"
    using r u x n t by (auto simp: session_execute_def sessionChecked_def refreshToken_def connectToXmpp_def session_user_def sample_response_def)
  from session_start_connects [OF u r] show ?thesis using r f by simp
qed

theorem logout_ends_session_witness:
  "\<exists>es s'. logout_execute sample_lib sample_env sample_session = (es, s')
    \<and> es = [CloseStores, CloseConnection, RepoSessionChanged False, SessionChanged False]
    \<and> \<not> isSession (new_session sample_lib sample_env True (auth_dir s'))"
proof -
  have a: "index_apart sample_lib (auth_dir sample_session)" using sample_apart by (simp add: names_apart_def sample_session_def)
  obtain fs where l: "store_logout sample_lib sample_env (auth_dir sample_session) = (True, fs)"
    by (simp add: store_logout_def auth_clear_def answer_def bind_def reads_def modify_def ret_def writeActiveName_def
        readActiveName_def sample_paths sample_env_def sample_session_def)
  then obtain es s' where e: "logout_execute sample_lib sample_env sample_session = (es, s')" "SessionChanged False \<in> set es"
    by (simp add: logout_execute_def session_logout_def)
  from logout_ends_session [OF a e, of sample_token_env sample_env sample_env "new_response () []" sample_env True] e show ?thesis
    by (simp add: sample_session_def)
qed

definition sample_refreshed :: "unit NetworkResponse" where
  "sample_refreshed = (new_response () [])\<lparr>status_code := 200,
     rbody := print_json (object [(''access_token'', JStr ''b''), (''refresh_token'', JStr ''s'')])\<rparr>"

lemma sample_refreshed_token: "response_token sample_lib sample_refreshed = Some sample_token"
proof -
  let ?j = "object [(''access_token'', JStr ''b''), (''refresh_token'', JStr ''s'')]"
  have "parse_json (print_json ?j) = Some ?j"
    using compact_json_text canonical_object [of "[(''access_token'', JStr ''b''), (''refresh_token'', JStr ''s'')]"]
    by (simp add: json_text_def)
  then have "json_parse (parse_doc sample_lib) (rbody sample_refreshed) = Some ?j"
    by (simp add: json_parse_def sample_lib_def sample_refreshed_def)
  then show ?thesis
    by (simp add: response_token_def sample_refreshed_def isSuccess_def new_response_def token_fromJson_def
        document_object_def sample_token_def)
qed

theorem session_start_sync_witness:
  "\<exists>fs es s'. session_save sample_lib sample_env sample_response ''pw'' Map.empty = (True, fs)
    \<and> session_execute sample_lib sample_token_env sample_env sample_env sample_refreshed
        \<lparr>has_xmpp = True, m_user = Some (session_user sample_response ''pw''), auth_dir = fs\<rparr> = (es, s')
    \<and> SessionChanged True \<in> set es \<and> in_sync sample_lib sample_env s'"
proof -
  let ?j = "session_object sample_response ''pw''" and ?u = "session_user sample_response ''pw''"
  obtain fs fs' j' where s: "session_save sample_lib sample_env sample_response ''pw'' Map.empty = (True, fs)"
    "readSession sample_lib sample_env fs = (Inr (Some ?j), fs)" "names_apart sample_lib fs ''62006f00000000000000000000000000''"
    "with_token sample_token ?j = Some j'" "new_store_fits sample_env (print_doc sample_lib j')"
    "updateToken sample_lib sample_env sample_env sample_token fs = (True, fs')" by (rule sample_updated)
  let ?s = "\<lparr>has_xmpp = True, m_user = Some ?u, auth_dir = fs\<rparr>"
  have e: "index_reads sample_env" "unlocks sample_env p = None" for p by (simp_all add: sample_env_def)
  have sync: "in_sync sample_lib sample_env ?s"
    using s(2) by (simp add: in_sync_def getLocalUser_def auth_read_def answer_def session_decodes)
  have room: "refresh_room sample_lib sample_env sample_env sample_refreshed (auth_dir ?s)"
    using s(2-5) sample_lib_ok sample_name [of "''pw''"] session_object_canonical
    by (auto simp: refresh_room_def sample_refreshed_token)
  obtain es s' where r: "session_execute sample_lib sample_token_env sample_env sample_env sample_refreshed ?s = (es, s')" by fastforce
  have "isTokenExpired b p c (lu_access_token ?u)" for b p c
    by (simp add: isTokenExpired_def session_user_def sample_response_def)
  then have "SessionChanged True \<in> set es"
    using r s(6) by (auto simp: session_execute_def sessionChecked_def refreshToken_def sample_refreshed_token Let_def)
  from session_start_sync [OF sync room e r this] this r s(1) show ?thesis by blast
qed

end
