(* ===== verification/Network_Properties.thy ===== *)
theory Network_Properties
  imports Network_Client
begin

text \<open>
  What the HTTP client guarantees about attempts, retries, the delivered response and the
  interceptors, for every script of network behaviour.
\<close>

fun is_dispatch :: "'u event \<Rightarrow> bool" where
  "is_dispatch (Dispatch v u h) = True"
| "is_dispatch _ = False"

definition dispatches :: "'u event list \<Rightarrow> nat" where
  "dispatches evs = length (filter is_dispatch evs)"

lemma dispatches_simps [simp]:
  "dispatches [] = 0" "dispatches (e # es) = (if is_dispatch e then 1 else 0) + dispatches es"
  "dispatches (es @ fs) = dispatches es + dispatches fs"
  by (auto simp: dispatches_def)

fun dispatched_headers :: "'u event list \<Rightarrow> header_map list" where
  "dispatched_headers [] = []"
| "dispatched_headers (Dispatch v u h # es) = h # dispatched_headers es"
| "dispatched_headers (Started i u # es) = dispatched_headers es"
| "dispatched_headers (FinishedSignal i u s # es) = dispatched_headers es"
| "dispatched_headers (Wait n # es) = dispatched_headers es"

lemma dispatched_headers_append: "dispatched_headers (es @ fs) = dispatched_headers es @ dispatched_headers fs"
  by (induction es rule: dispatched_headers.induct) simp_all

text \<open>A small network for the examples: one address, a text format with the value null, a refused connection.\<close>

definition demo_url :: "unit url_ops" where
  "demo_url = \<lparr>is_relative = \<lambda>_. False, resolved = \<lambda>a b. b, set_query = \<lambda>a b. a, url_ok = \<lambda>_. True,
     scheme = \<lambda>_. ''https'', host = \<lambda>_. ''h''\<rparr>"

definition demo_text :: text_ops where
  "demo_text = \<lparr>parse_text = \<lambda>s. Inr JNull, trimmed = \<lambda>s. s\<rparr>"

definition demo_reply :: "reply_error \<Rightarrow> int option \<Rightarrow> reply" where
  "demo_reply e st = \<lparr>r_error = e, r_status = st, r_headers = [], r_body = [], r_error_string = [], r_elapsed = 3, r_timed_out = False\<rparr>"

definition demo_attempt :: "reply option \<Rightarrow> attempt" where
  "demo_attempt rep = \<lparr>a_cancelled = False, a_reply = rep, a_elapsed = 5, a_cancelled_after = False, a_draw = \<lambda>b. 0\<rparr>"

definition demo_request :: "unit NetworkRequest \<Rightarrow> unit request_context" where
  "demo_request q = \<lparr>request = q, complete_retries = 0, attempts = 0\<rparr>"

text \<open>The events of an attempt that got a reply.\<close>

definition attempt_events :: "'u url_ops \<Rightarrow> 'u NetworkRequest \<Rightarrow> 'u NetworkResponse \<Rightarrow> 'u event list" where
  "attempt_events u q r =
     [Dispatch (dispatch_verb q) (fst (buildQtRequest u q)) (snd (buildQtRequest u q)),
      Started (request_id q) (resolvedUrl u q),
      FinishedSignal (response_id r) (request_url r) (status_code r)]"

lemma attempt_events_simps [simp]:
  "dispatches (attempt_events u q r) = 1"
  "dispatched_headers (attempt_events u q r) = [snd (buildQtRequest u q)]"
  by (simp_all add: attempt_events_def)

abbreviation started :: "'u request_context \<Rightarrow> 'u request_context" where
  "started c \<equiv> c\<lparr>attempts := attempts c + 1\<rparr>"

text \<open>One attempt, by cases.\<close>

lemma executeAttempt_cases:
  assumes run: "executeAttempt u tx is c (a # script) = (evs, out)"
  obtains (cancelled) "a_cancelled a" "evs = []" "out = FinishedEmpty"
    | (no_reply) "\<not> a_cancelled a" "a_reply a = None"
        "evs = [Dispatch (dispatch_verb (request c)) (fst (buildQtRequest u (request c))) (snd (buildQtRequest u (request c)))]"
        "out = Delivered (applyResponseInterceptors is (request c) (no_reply_response u (started c) (a_elapsed a)))"
    | (undef) rep where "\<not> a_cancelled a" "a_reply a = Some rep" "out = Undefined"
        "evs = attempt_events u (request c) (finished_response u tx (started c) rep)"
        "shouldRetry (retry_policy (request c)) (meth (request c)) (err (finished_response u tx (started c) rep)) (complete_retries c)"
        "retryDelay (retry_policy (request c)) (a_draw a) (complete_retries c) = None"
    | (retry) rep ms evs' where "\<not> a_cancelled a" "a_reply a = Some rep"
        "evs = attempt_events u (request c) (finished_response u tx (started c) rep) @ Wait ms # evs'"
        "shouldRetry (retry_policy (request c)) (meth (request c)) (err (finished_response u tx (started c) rep)) (complete_retries c)"
        "executeAttempt u tx is (c\<lparr>attempts := attempts c + 1, complete_retries := complete_retries c + 1\<rparr>) script = (evs', out)"
    | (final) rep where "\<not> a_cancelled a" "a_reply a = Some rep"
        "evs = attempt_events u (request c) (finished_response u tx (started c) rep)"
        "out = Delivered (applyResponseInterceptors is (request c) (finished_response u tx (started c) rep))"
proof (cases "a_cancelled a")
  case True
  then show thesis using run cancelled by auto
next
  case nc: False
  show thesis
  proof (cases "a_reply a")
    case None
    then show thesis using run nc by (intro no_reply) (auto simp: Let_def split: prod.splits)
  next
    case rep: (Some rep)
    let ?s = "shouldRetry (retry_policy (request c)) (meth (request c)) (err (finished_response u tx (started c) rep)) (complete_retries c)"
    let ?d = "retryDelay (retry_policy (request c)) (a_draw a) (complete_retries c)"
    let ?c = "c\<lparr>attempts := attempts c + 1, complete_retries := complete_retries c + 1\<rparr>"
    let ?e = "attempt_events u (request c) (finished_response u tx (started c) rep)"
    have eq: "executeAttempt u tx is c (a # script) =
      (if ?s \<and> \<not> a_cancelled_after a
       then (case ?d of None \<Rightarrow> (?e, Undefined)
             | Some ms \<Rightarrow> (?e @ Wait ms # fst (executeAttempt u tx is ?c script), snd (executeAttempt u tx is ?c script)))
       else (?e, Delivered (applyResponseInterceptors is (request c) (finished_response u tx (started c) rep))))"
      using nc rep by (auto simp: Let_def attempt_events_def split: prod.splits option.splits)
    show thesis
    proof (cases "?s \<and> \<not> a_cancelled_after a")
      case False
      then show thesis using run nc rep unfolding eq by (intro final) auto
    next
      case sr: True
      show thesis
      proof (cases ?d)
        case None
        then show thesis using run nc rep sr unfolding eq by (intro undef) auto
      next
        case (Some ms)
        then show thesis
          using run nc rep sr unfolding eq
          by (intro retry [of rep ms "fst (executeAttempt u tx is ?c script)"]) auto
      qed
    qed
  qed
qed

text \<open>
  C38: a request is dispatched at most \<open>maximum_retries\<close> times after the first attempt.
\<close>

theorem attempts_bounded:
  "executeAttempt u tx is c script = (evs, out) \<Longrightarrow>
     int (dispatches evs) \<le> max 0 (maximum_retries (retry_policy (request c)) - complete_retries c) + 1"
proof (induction script arbitrary: c evs)
  case (Cons a script)
  from Cons.prems show ?case
  proof (cases rule: executeAttempt_cases)
    case (retry rep ms evs')
    have "complete_retries c < maximum_retries (retry_policy (request c))"
      using retry(4) by (auto simp: shouldRetry_def split: if_splits)
    with Cons.IH [OF retry(5)] retry(3) show ?thesis by simp
  qed simp_all
qed simp

theorem attempts_bounded_witness:
  "int (dispatches (fst (executeAttempt demo_url demo_text [] (demo_request (new_request ()))
     (replicate 9 (demo_attempt (Some (demo_reply ConnectionRefusedError None))))))) \<le> 3"
  (is "int (dispatches (fst ?r)) \<le> 3")
  using attempts_bounded [of demo_url demo_text "[]" "demo_request (new_request ())"
      "replicate 9 (demo_attempt (Some (demo_reply ConnectionRefusedError None)))" "fst ?r" "snd ?r"]
  by (simp add: demo_request_def new_request_def default_policy_def)

text \<open>
  C37: a POST or PATCH under a policy that does not opt into retrying them is dispatched at most
  once, whatever the network does.
\<close>

theorem non_idempotent_once:
  assumes "\<not> isIdempotentHttpMethod (meth (request c))"
    and "\<not> retry_non_idempotent_reqeusts (retry_policy (request c))"
    and "executeAttempt u tx is c script = (evs, out)"
  shows "dispatches evs \<le> 1"
proof (cases script)
  case (Cons a rest)
  from assms(3) [unfolded Cons] show ?thesis
  proof (cases rule: executeAttempt_cases)
    case (retry rep ms evs')
    then show ?thesis using assms(1,2) by (simp add: shouldRetry_def split: if_splits)
  qed simp_all
qed (use assms(3) in simp)

theorem non_idempotent_once_witness:
  "dispatches (fst (executeAttempt demo_url demo_text [] (demo_request (client_post (\<lambda>j. ''{}'') () (JObj [])))
     (replicate 3 (demo_attempt (Some (demo_reply ConnectionRefusedError None)))))) \<le> 1"
  (is "dispatches (fst ?r) \<le> 1")
  by (rule non_idempotent_once [where out = "snd ?r" and c = "demo_request (client_post (\<lambda>j. ''{}'') () (JObj []))"])
    (simp_all add: demo_request_def client_post_def setJsonBody_def new_request_def default_policy_def)

text \<open>
  The response that is delivered went through the response interceptors exactly once, in the
  reverse of the order they were added, and reports how many attempts were dispatched.
\<close>

theorem delivered_once:
  "executeAttempt u tx is c script = (evs, Delivered r) \<Longrightarrow>
     \<exists>r0. r = foldr (\<lambda>i. interceptorResponse i (request c)) is r0
       \<and> attempt_count r0 = attempts c + int (dispatches evs)"
proof (induction script arbitrary: c evs)
  case (Cons a script)
  have ap: "applyResponseInterceptors is q x = foldr (\<lambda>i. interceptorResponse i q) is x" for q x
    by (simp add: applyResponseInterceptors_def foldr_conv_fold)
  have cnt: "attempt_count (finished_response u tx k rep) = attempts k" for k rep
    by (simp add: finished_response_def createResponse_def new_response_def Let_def split: sum.split)
  from Cons.prems show ?case
  proof (cases rule: executeAttempt_cases)
    case no_reply
    then show ?thesis unfolding ap by (auto intro!: exI simp: no_reply_response_def)
  next
    case (retry rep ms evs')
    then show ?thesis using Cons.IH [OF retry(5)] by (simp add: algebra_simps)
  next
    case (final rep)
    then show ?thesis unfolding ap by (auto intro!: exI simp: cnt)
  qed simp_all
qed simp

theorem delivered_once_witness:
  "\<exists>r0 r. executeAttempt demo_url demo_text [\<lparr>interceptRequest = \<lambda>q. q, interceptorResponse = \<lambda>q r. r\<lparr>status_code := 1\<rparr>\<rparr>]
       (demo_request (new_request ())) [demo_attempt None] = ([Dispatch (dispatch_verb (new_request ())) () (snd (buildQtRequest demo_url (new_request ())))], Delivered r)
     \<and> r = r0\<lparr>status_code := 1\<rparr> \<and> attempt_count r0 = 1"
proof -
  let ?is = "[\<lparr>interceptRequest = \<lambda>q. q, interceptorResponse = \<lambda>q r. r\<lparr>status_code := 1\<rparr>\<rparr>]"
  let ?c = "demo_request (new_request ())"
  let ?evs = "[Dispatch (dispatch_verb (new_request ())) () (snd (buildQtRequest demo_url (new_request ())))]"
  obtain r where run: "executeAttempt demo_url demo_text ?is ?c [demo_attempt None] = (?evs, Delivered r)"
    by (cases "buildQtRequest demo_url (new_request ())") (simp add: demo_request_def demo_attempt_def Let_def)
  from delivered_once [OF this] show ?thesis using run by (auto simp: demo_request_def)
qed



text \<open>
  A response counts as a success exactly when the transfer reported no error (or only an HTTP
  error Qt has no own code for), the status is 2xx, and a body that is to be parsed parses.
\<close>

theorem createResponse_success:
  "isSuccess (createResponse u tx q rep n) \<longleftrightarrow>
     (r_error rep = NoReplyError \<or> r_error rep = OtherReplyError)
   \<and> (\<exists>s. r_status rep = Some s \<and> 200 \<le> s \<and> s < 300)
   \<and> (parse_json_response q \<and> trimmed tx (r_body rep) \<noteq> [] \<longrightarrow> (\<exists>j. parse_text tx (r_body rep) = Inr j))"
proof -
  define st where "st = (case r_status rep of Some c \<Rightarrow> c | None \<Rightarrow> 0)"
  define e0 where "e0 = mapNetworkError (r_error rep) (r_status rep)"
  define e where "e = (if e0 = NoNetworkError then mapHttpStatus st else e0)"
  have ne: "e0 = NoNetworkError \<longleftrightarrow> r_error rep = NoReplyError \<or> r_error rep = OtherReplyError \<and> r_status rep \<noteq> None"
    unfolding e0_def by (cases "r_error rep") simp_all
  have ok: "200 \<le> st \<Longrightarrow> st < 300 \<Longrightarrow> mapHttpStatus st = NoNetworkError" by (simp add: mapHttpStatus_def)
  have some: "200 \<le> st \<longleftrightarrow> (\<exists>s. r_status rep = Some s \<and> 200 \<le> s)" by (cases "r_status rep") (simp_all add: st_def)
  have st: "r_status rep = Some s \<Longrightarrow> st = s" for s by (simp add: st_def)
  have base: "e = NoNetworkError \<and> 200 \<le> st \<and> st < 300 \<longleftrightarrow>
      (r_error rep = NoReplyError \<or> r_error rep = OtherReplyError) \<and> (\<exists>s. r_status rep = Some s \<and> 200 \<le> s \<and> s < 300)"
    unfolding e_def using ne ok some st by auto
  let ?p = "parse_json_response q \<and> trimmed tx (r_body rep) \<noteq> []"
  have r: "status_code (createResponse u tx q rep n) = st"
    "err (createResponse u tx q rep n) =
       (if ?p \<and> e = NoNetworkError \<and> (\<forall>j. parse_text tx (r_body rep) \<noteq> Inr j) then JsonParseError else e)"
    by (cases "parse_text tx (r_body rep)";
        simp add: createResponse_def Let_def new_response_def e_def [symmetric] e0_def [symmetric] st_def [symmetric])+
  show ?thesis unfolding isSuccess_def r using base by auto
qed

theorem createResponse_success_witness:
  "isSuccess (createResponse demo_url demo_text (new_request ()) (demo_reply NoReplyError (Some 204)) 1)"
  by (subst createResponse_success) (simp add: demo_reply_def demo_text_def)

text \<open>
  A redirect or informational status is given no error at all, although the response is not a
  success.
\<close>

theorem redirect_has_no_error:
  assumes "0 < s" and "s < 200 \<or> 300 \<le> s \<and> s < 400"
    and "r_status rep = Some s" and "r_error rep = NoReplyError" and "\<not> parse_json_response q"
  shows "err (createResponse u tx q rep n) = NoNetworkError \<and> hasError (createResponse u tx q rep n)"
  using assms by (auto simp: createResponse_def Let_def mapHttpStatus_def new_response_def hasError_def isSuccess_def)

theorem redirect_has_no_error_witness:
  "err (createResponse demo_url demo_text ((new_request ())\<lparr>parse_json_response := False\<rparr>) (demo_reply NoReplyError (Some 304)) 1)
     = NoNetworkError"
  using redirect_has_no_error [of 304 "demo_reply NoReplyError (Some 304)" "(new_request ())\<lparr>parse_json_response := False\<rparr>" demo_url demo_text 1]
  by (simp add: demo_reply_def)

section \<open>Authentication\<close>

lemma executeAttempt_headers:
  "executeAttempt u tx is c script = (evs, out) \<Longrightarrow> h \<in> set (dispatched_headers evs) \<Longrightarrow> h = snd (buildQtRequest u (request c))"
proof (induction script arbitrary: c evs)
  case (Cons a script)
  from Cons.prems(1) show ?case
  proof (cases rule: executeAttempt_cases)
    case (retry rep ms evs')
    then show ?thesis using Cons.IH [OF retry(5)] Cons.prems(2) by (auto simp: dispatched_headers_append)
  qed (use Cons.prems(2) in auto)
qed simp

text \<open>
  When the client has the authentication interceptor last and a token is available, every
  dispatched attempt of a request that requires authentication, retries included, carries it;
  a request that does not require it is sent as it is.
\<close>

theorem token_on_every_attempt:
  assumes "m_interceptor cl = is @ [\<lparr>interceptRequest = auth_request trim_fn (Some tok), interceptorResponse = \<lambda>q r. r\<rparr>]"
    and "requires_authentication (applyRequestInterceptors is (prepare u (cl\<lparr>m_interceptor := []\<rparr>) i q))"
    and "trim_fn tok \<noteq> []"
    and "h \<in> set (dispatched_headers (fst (send u tx cl i q script)))"
  shows "h ''Authorization'' = Some (''Bearer '' @ trim_fn tok)"
proof -
  have app: "applyRequestInterceptors (xs @ ys) r = applyRequestInterceptors ys (applyRequestInterceptors xs r)" for xs ys r
    by (induction xs arbitrary: r) simp_all
  let ?q = "prepare u cl i q"
  let ?b = "applyRequestInterceptors is (prepare u (cl\<lparr>m_interceptor := []\<rparr>) i q)"
  have "?q = auth_request trim_fn (Some tok) ?b"
    using assms(1) by (simp add: prepare_def Let_def app resolveUrl_def)
  then have "headers ?q ''Authorization'' = Some (''Bearer '' @ trim_fn tok)"
    using assms(2,3) by (simp add: auth_request_def)
  moreover have "h = snd (buildQtRequest u ?q)"
    using assms(4) executeAttempt_headers [OF surjective_pairing, of h u tx "m_interceptor cl" "\<lparr>request = ?q, complete_retries = 0, attempts = 0\<rparr>" script]
    by (simp add: send_def Let_def split: if_splits)
  ultimately show ?thesis by (simp add: buildQtRequest_def map_add_def)
qed

theorem token_on_every_attempt_witness:
  "\<exists>h. h \<in> set (dispatched_headers (fst (send
        demo_url demo_text \<lparr>m_baseUrl = (), m_interceptor = [\<lparr>interceptRequest = auth_request (\<lambda>x. x) (Some ''t1''), interceptorResponse = \<lambda>q r. r\<rparr>]\<rparr>
        ''id'' (new_request ()) [demo_attempt None])))
     \<and> h ''Authorization'' = Some ''Bearer t1''"
  (is "\<exists>h. h \<in> set (dispatched_headers (fst (send ?u ?t ?cl ?i ?q ?s))) \<and> _")
proof -
  have a: "m_interceptor ?cl = [] @ [\<lparr>interceptRequest = auth_request (\<lambda>x. x) (Some ''t1''), interceptorResponse = \<lambda>q r. r\<rparr>]"
    by simp
  have b: "requires_authentication (applyRequestInterceptors [] (prepare ?u (?cl\<lparr>m_interceptor := []\<rparr>) ?i ?q))"
    by (simp add: prepare_def new_request_def Let_def demo_url_def)
  have "dispatched_headers (fst (send ?u ?t ?cl ?i ?q ?s)) \<noteq> []"
    by (simp add: send_def isValid_def demo_url_def demo_attempt_def Let_def split: prod.splits)
  then obtain h where "h \<in> set (dispatched_headers (fst (send ?u ?t ?cl ?i ?q ?s)))"
    by (cases "dispatched_headers (fst (send ?u ?t ?cl ?i ?q ?s))") auto
  with token_on_every_attempt [OF a b _ this] show ?thesis by auto
qed

end
