(* ===== verification/Certificates.thy ===== *)
theory Certificates
  imports Prelude
begin

text \<open>
  The check of the peer's certificate chain (core/network/certificate/certificate_utils.cpp and
  certificate_chain_validator.cpp).  What OpenSSL answers about a certificate is a parameter:
  its BasicConstraints, its names, and the result of a signature check.
\<close>

datatype ValidatorError =
    ValidChain | EmptyChain | ServerCertificateNotFound | IntermediateCertificateNotFound
  | RootCerttificateNotFound | ServerIssuerMismatch | IntermediateIssuerMismath
  | ServerSignatureInvalid | IntermediateSignatureInvalid

text \<open>
  \<open>decode\<close> is \<open>d2i_X509\<close> on the DER form (\<open>None\<close> for a null or undecodable
  certificate), \<open>constraints\<close> the BasicConstraints extension as the CA flag and the path length,
  \<open>names_ok\<close> whether \<open>X509_NAME_oneline\<close> could allocate both texts, \<open>verify\<close> is
  \<open>X509_verify\<close> of the first certificate under the public key of the second: 1 for a valid
  signature, 0 for an invalid one, negative for an error.
\<close>

record ('q, 'x) x509_ops =
  decode :: "'q \<Rightarrow> 'x option"
  constraints :: "'x \<Rightarrow> (bool \<times> int option) option"
  subject_name :: "'x \<Rightarrow> string"
  issuer_name :: "'x \<Rightarrow> string"
  names_ok :: "'x \<Rightarrow> bool"
  verify :: "'x \<Rightarrow> 'x \<Rightarrow> int"

definition INT_MAX :: int where "INT_MAX = 2 ^ 31 - 1"

definition getBasicConstraints :: "('q, 'x) x509_ops \<Rightarrow> 'x \<Rightarrow> int" where
  "getBasicConstraints X c =
     (case constraints X c of
        None \<Rightarrow> -1
      | Some (ca, pathlen) \<Rightarrow>
          if \<not> ca then -1 else case pathlen of Some n \<Rightarrow> n | None \<Rightarrow> INT_MAX)"

fun getRootCA :: "('q, 'x) x509_ops \<Rightarrow> 'q list \<Rightarrow> 'x option" where
  "getRootCA X [] = None"
| "getRootCA X (q # qs) =
     (case decode X q of
        None \<Rightarrow> getRootCA X qs
      | Some c \<Rightarrow> if 0 < getBasicConstraints X c then Some c else getRootCA X qs)"

text \<open>
  The condition \<open>subject != issuer\<close> compares the two freshly allocated \<open>char *\<close>, which
  always differ; the texts are not compared.
\<close>

definition names_differ :: "('q, 'x) x509_ops \<Rightarrow> 'x \<Rightarrow> bool" where
  "names_differ X c \<longleftrightarrow> names_ok X c"

fun getIntermediateCA :: "('q, 'x) x509_ops \<Rightarrow> 'q list \<Rightarrow> 'x option" where
  "getIntermediateCA X [] = None"
| "getIntermediateCA X (q # qs) =
     (case decode X q of
        None \<Rightarrow> getIntermediateCA X qs
      | Some c \<Rightarrow>
          if getBasicConstraints X c = 0 \<and> names_differ X c then Some c else getIntermediateCA X qs)"

fun getServerCertificate :: "('q, 'x) x509_ops \<Rightarrow> 'q list \<Rightarrow> 'x option" where
  "getServerCertificate X [] = None"
| "getServerCertificate X (q # qs) =
     (case decode X q of
        None \<Rightarrow> getServerCertificate X qs
      | Some c \<Rightarrow>
          if getBasicConstraints X c = -1 \<and> names_differ X c then Some c else getServerCertificate X qs)"

definition compareIntermediateCAWithRootCA :: "('q, 'x) x509_ops \<Rightarrow> 'x \<Rightarrow> 'x \<Rightarrow> bool" where
  "compareIntermediateCAWithRootCA X intermediate root \<longleftrightarrow> issuer_name X intermediate = subject_name X root"

definition compareServerWithIntermediate :: "('q, 'x) x509_ops \<Rightarrow> 'x \<Rightarrow> 'x \<Rightarrow> bool" where
  "compareServerWithIntermediate X server intermediate \<longleftrightarrow> issuer_name X server = subject_name X intermediate"

definition intermedaiteAndRootSignautreVerify :: "('q, 'x) x509_ops \<Rightarrow> 'x \<Rightarrow> 'x \<Rightarrow> bool" where
  "intermedaiteAndRootSignautreVerify X intermediate root \<longleftrightarrow> verify X intermediate root \<noteq> 0"

definition intermediateAndServerSignatureVerify :: "('q, 'x) x509_ops \<Rightarrow> 'x \<Rightarrow> 'x \<Rightarrow> bool" where
  "intermediateAndServerSignatureVerify X intermediate server \<longleftrightarrow> verify X server intermediate \<noteq> 0"

definition validate :: "('q, 'x) x509_ops \<Rightarrow> 'q list \<Rightarrow> ValidatorError" where
  "validate X chain =
     (if chain = [] then EmptyChain
      else case getRootCA X chain of
        None \<Rightarrow> RootCerttificateNotFound
      | Some root \<Rightarrow>
          (case getIntermediateCA X chain of
             None \<Rightarrow> IntermediateCertificateNotFound
           | Some intermediate \<Rightarrow>
               (case getServerCertificate X chain of
                  None \<Rightarrow> ServerCertificateNotFound
                | Some server \<Rightarrow>
                    if \<not> compareIntermediateCAWithRootCA X intermediate root then IntermediateIssuerMismath
                    else if \<not> compareServerWithIntermediate X server intermediate then ServerIssuerMismatch
                    else if \<not> intermedaiteAndRootSignautreVerify X intermediate root then IntermediateSignatureInvalid
                    else if \<not> intermediateAndServerSignatureVerify X intermediate server then ServerSignatureInvalid
                    else ValidChain)))"

lemma getRootCA_Some:
  "getRootCA X qs = Some c \<Longrightarrow> \<exists>q \<in> set qs. decode X q = Some c \<and> 0 < getBasicConstraints X c"
  by (induction qs) (auto split: option.splits if_splits)

lemma getIntermediateCA_Some:
  "getIntermediateCA X qs = Some c \<Longrightarrow> \<exists>q \<in> set qs. decode X q = Some c \<and> getBasicConstraints X c = 0"
  by (induction qs) (auto split: option.splits if_splits)

lemma getServerCertificate_Some:
  "getServerCertificate X qs = Some c \<Longrightarrow> \<exists>q \<in> set qs. decode X q = Some c \<and> getBasicConstraints X c = -1"
  by (induction qs) (auto split: option.splits if_splits)

text \<open>
  An accepted chain contains a non-CA certificate, an intermediate CA of path length 0 and a
  CA above it, linked by issuer names, and both signature checks came back different from 0.
\<close>

theorem validate_accepts:
  assumes "validate X chain = ValidChain"
  shows "\<exists>server intermediate root.
      (\<exists>q \<in> set chain. decode X q = Some server) \<and> getBasicConstraints X server = -1
    \<and> (\<exists>q \<in> set chain. decode X q = Some intermediate) \<and> getBasicConstraints X intermediate = 0
    \<and> (\<exists>q \<in> set chain. decode X q = Some root) \<and> 0 < getBasicConstraints X root
    \<and> issuer_name X server = subject_name X intermediate \<and> issuer_name X intermediate = subject_name X root
    \<and> verify X server intermediate \<noteq> 0 \<and> verify X intermediate root \<noteq> 0"
proof -
  obtain root intermediate server where
    f: "getRootCA X chain = Some root" "getIntermediateCA X chain = Some intermediate" "getServerCertificate X chain = Some server"
    and c: "compareIntermediateCAWithRootCA X intermediate root" "compareServerWithIntermediate X server intermediate"
      "intermedaiteAndRootSignautreVerify X intermediate root" "intermediateAndServerSignatureVerify X intermediate server"
    using assms by (auto simp: validate_def split: if_splits option.splits)
  show ?thesis
    using getRootCA_Some [OF f(1)] getIntermediateCA_Some [OF f(2)] getServerCertificate_Some [OF f(3)] c
    unfolding compareIntermediateCAWithRootCA_def compareServerWithIntermediate_def
      intermedaiteAndRootSignautreVerify_def intermediateAndServerSignatureVerify_def by blast
qed

definition demo_x509 :: "int \<Rightarrow> (nat, nat) x509_ops" where
  "demo_x509 v = \<lparr>decode = Some, constraints = \<lambda>c. if c = 0 then None else Some (True, if c = 1 then Some 0 else None),
     subject_name = \<lambda>c. if c = 0 then ''s'' else if c = 1 then ''i'' else ''r'',
     issuer_name = \<lambda>c. if c = 0 then ''i'' else ''r'', names_ok = \<lambda>c. True, verify = \<lambda>a b. v\<rparr>"

lemma demo_validates: "validate (demo_x509 1) [0, 1, 2] = ValidChain"
  by (simp add: validate_def demo_x509_def getBasicConstraints_def names_differ_def INT_MAX_def
      compareIntermediateCAWithRootCA_def compareServerWithIntermediate_def
      intermedaiteAndRootSignautreVerify_def intermediateAndServerSignatureVerify_def)

theorem validate_accepts_witness:
  "\<exists>server intermediate root. issuer_name (demo_x509 1) server = subject_name (demo_x509 1) intermediate
    \<and> issuer_name (demo_x509 1) intermediate = subject_name (demo_x509 1) root \<and> 0 < getBasicConstraints (demo_x509 1) root"
  using validate_accepts [OF demo_validates] by blast

text \<open>
  A signature check that ends in an error (a negative result) is taken for a valid signature.
\<close>

theorem failed_signature_check_accepted: "validate (demo_x509 (-1)) [0, 1, 2] = ValidChain"
  by (simp add: validate_def demo_x509_def getBasicConstraints_def names_differ_def INT_MAX_def
      compareIntermediateCAWithRootCA_def compareServerWithIntermediate_def
      intermedaiteAndRootSignautreVerify_def intermediateAndServerSignatureVerify_def)

end
