(* ===== verification/Downloads.thy ===== *)
theory Downloads
  imports Prelude
begin

text \<open>
  The download service (core/network/http_download_service.cpp) and the reachability monitor
  (core/network/network_monitor.cpp).  The file system is a map from paths to contents; what a
  write, a flush or a removal achieves is an argument of the step that calls it.
\<close>

section \<open>One download\<close>

type_synonym files = "string \<rightharpoonup> string"

record DownloadTask =
  task_id :: string
  destination_path :: string
  temporary_path :: string
  overwrite :: bool
  cancelled :: bool
  writeFailed :: bool
  writeError :: string

datatype download_event =
    Completed string string
  | Failed string string
  | Cancelled string

text \<open>
  \<open>readAll\<close> gives \<open>dat\<close>; \<open>written\<close> of its bytes reach the temporary file.
\<close>

definition handleReadyRead :: "string \<Rightarrow> nat \<Rightarrow> string \<Rightarrow> DownloadTask \<Rightarrow> files \<Rightarrow> DownloadTask \<times> files" where
  "handleReadyRead dat written io_error task fs =
     (if cancelled task \<or> writeFailed task \<or> dat = [] then (task, fs)
      else
        (let old = (case fs (temporary_path task) of Some c \<Rightarrow> c | None \<Rightarrow> []);
             fs = fs(temporary_path task \<mapsto> old @ take written dat)
         in if written \<noteq> length dat then (task\<lparr>writeFailed := True, writeError := io_error\<rparr>, fs)
            else (task, fs)))"

definition file_remove :: "bool \<Rightarrow> string \<Rightarrow> files \<Rightarrow> bool \<times> files" where
  "file_remove ok p fs = (if fs p \<noteq> None \<and> ok then (True, fs(p := None)) else (False, fs))"

text \<open>\<open>QFile::rename\<close> does not replace an existing file.\<close>

definition file_rename :: "bool \<Rightarrow> string \<Rightarrow> string \<Rightarrow> files \<Rightarrow> bool \<times> files" where
  "file_rename ok p p' fs =
     (case fs p of
        None \<Rightarrow> (False, fs)
      | Some c \<Rightarrow> if ok \<and> fs p' = None then (True, fs(p := None, p' \<mapsto> c)) else (False, fs))"

text \<open>
  What the operating system and the reply answer when the reply has finished: the buffered data
  left, how the flush, the removal of the old file and the rename go, the reply's error and its
  HTTP status.  Removing the temporary file is taken to succeed.
\<close>

record finish_env =
  f_data :: string
  f_written :: nat
  f_io_error :: string
  f_flush :: bool
  f_reply_error :: "string option"
  f_status :: "int option"
  f_remove :: bool
  f_rename :: bool

definition after_flush :: "finish_env \<Rightarrow> DownloadTask \<Rightarrow> files \<Rightarrow> DownloadTask" where
  "after_flush env task fs =
     (let task = (if \<not> f_flush env then task\<lparr>writeFailed := True, writeError := f_io_error env\<rparr> else task)
      in if (case fs (temporary_path task) of Some c \<Rightarrow> c = [] | None \<Rightarrow> True) \<and> \<not> writeFailed task
         then task\<lparr>writeFailed := True, writeError := ''Downloaded file is empty.''\<rparr> else task)"

definition handleFinished :: "finish_env \<Rightarrow> DownloadTask \<Rightarrow> files \<Rightarrow> download_event \<times> files" where
  "handleFinished env task fs =
     (let (task, fs) = handleReadyRead (f_data env) (f_written env) (f_io_error env) task fs;
          task = after_flush env task fs;
          i = task_id task; tmp = temporary_path task; dst = destination_path task;
          fs0 = fs(tmp := None)
      in if cancelled task then (Cancelled i, fs0)
         else if writeFailed task then
           (Failed i (if writeError task = [] then ''Unable to write downloaded file'' else writeError task), fs0)
         else case f_reply_error env of
           Some e \<Rightarrow> (Failed i e, fs0)
         | None \<Rightarrow>
             if (case f_status env of Some c \<Rightarrow> c < 200 \<or> 300 \<le> c | None \<Rightarrow> False)
             then (Failed i ''HTTP error'', fs0)
             else
               (let (gone, fs) = (if overwrite task \<and> fs dst \<noteq> None then file_remove (f_remove env) dst fs else (True, fs))
                in if \<not> gone then (Failed i ''Unable to replace existing file'', fs(tmp := None))
                   else
                     (let (moved, fs) = file_rename (f_rename env) tmp dst fs
                      in if \<not> moved then (Failed i ''Unable to finalize downloaded file'', fs(tmp := None))
                         else (Completed i dst, fs))))"

definition cancel :: "DownloadTask \<Rightarrow> DownloadTask" where
  "cancel task = (if cancelled task then task else task\<lparr>cancelled := True\<rparr>)"

datatype input = Data string nat string | CancelIt

fun download_run :: "input list \<Rightarrow> DownloadTask \<Rightarrow> files \<Rightarrow> DownloadTask \<times> files" where
  "download_run [] task fs = (task, fs)"
| "download_run (Data d w e # is) task fs = (let (task, fs) = handleReadyRead d w e task fs in download_run is task fs)"
| "download_run (CancelIt # is) task fs = download_run is (cancel task) fs"

fun received :: "input list \<Rightarrow> string" where
  "received [] = []"
| "received (Data d w e # is) = d @ received is"
| "received (CancelIt # is) = received is"

lemma ready_read_frame:
  "handleReadyRead d w e task fs = (task', fs') \<Longrightarrow>
     task_id task' = task_id task \<and> destination_path task' = destination_path task
   \<and> temporary_path task' = temporary_path task \<and> overwrite task' = overwrite task \<and> cancelled task' = cancelled task
   \<and> (\<forall>p. p \<noteq> temporary_path task \<longrightarrow> fs' p = fs p)"
  by (auto simp: handleReadyRead_def Let_def split: if_splits)

lemma ready_read_data:
  assumes "handleReadyRead d w e task fs = (task', fs')" and "fs (temporary_path task) = Some c"
  shows "\<exists>c'. fs' (temporary_path task) = Some c' \<and> (writeFailed task \<longrightarrow> writeFailed task')
    \<and> (\<not> writeFailed task' \<and> \<not> cancelled task' \<longrightarrow> c' = c @ d)"
  using assms by (auto simp: handleReadyRead_def Let_def split: if_splits)

lemma after_flush_frame:
  "task_id (after_flush env task fs) = task_id task" "destination_path (after_flush env task fs) = destination_path task"
  "temporary_path (after_flush env task fs) = temporary_path task" "overwrite (after_flush env task fs) = overwrite task"
  "cancelled (after_flush env task fs) = cancelled task" "writeFailed task \<Longrightarrow> writeFailed (after_flush env task fs)"
  by (auto simp: after_flush_def Let_def)

lemma download_run_frame:
  "download_run is task fs = (task', fs') \<Longrightarrow> fs (temporary_path task) = Some c \<Longrightarrow>
     task_id task' = task_id task \<and> destination_path task' = destination_path task
   \<and> temporary_path task' = temporary_path task \<and> overwrite task' = overwrite task
   \<and> (\<forall>p. p \<noteq> temporary_path task \<longrightarrow> fs' p = fs p) \<and> (cancelled task \<longrightarrow> cancelled task') \<and> (writeFailed task \<longrightarrow> writeFailed task')
   \<and> (\<exists>c'. fs' (temporary_path task) = Some c' \<and> (\<not> writeFailed task' \<and> \<not> cancelled task' \<longrightarrow> c' = c @ received is))"
proof (induction "is" task fs arbitrary: c rule: download_run.induct)
  case (2 d w e "is" task fs)
  obtain t1 f1 where r: "handleReadyRead d w e task fs = (t1, f1)" by fastforce
  note fr = ready_read_frame [OF r]
  obtain c1 where c1: "f1 (temporary_path task) = Some c1" "writeFailed task \<longrightarrow> writeFailed t1"
    "\<not> writeFailed t1 \<and> \<not> cancelled t1 \<longrightarrow> c1 = c @ d"
    using ready_read_data [OF r "2.prems"(2)] by blast
  have "download_run is t1 f1 = (task', fs')" using "2.prems"(1) r by simp
  from "2.IH" [OF r [symmetric] refl this, of c1] c1 fr show ?case by auto
next
  case (3 "is" task fs)
  have "temporary_path (cancel task) = temporary_path task" by (simp add: cancel_def)
  with 3 show ?case by (fastforce simp: cancel_def split: if_splits)
qed simp

text \<open>
  A download that is reported as completed put exactly the bytes received at its
  destination; the temporary file is gone in every case, and no other file is touched.
\<close>

theorem download_completes:
  assumes "fs (temporary_path task) = Some []" and "temporary_path task \<noteq> destination_path task"
    and "download_run is task fs = (task1, fs1)" and "handleFinished env task1 fs1 = (ev, fs2)"
  shows "(ev = Completed (task_id task) (destination_path task) \<longrightarrow>
        fs2 (destination_path task) = Some (received is @ f_data env))
    \<and> fs2 (temporary_path task) = None
    \<and> (\<forall>p. p \<noteq> temporary_path task \<longrightarrow> p \<noteq> destination_path task \<longrightarrow> fs2 p = fs p)"
proof -
  note run = download_run_frame [OF assms(3,1)]
  then obtain c1 where c1: "fs1 (temporary_path task1) = Some c1"
    "\<not> writeFailed task1 \<and> \<not> cancelled task1 \<longrightarrow> c1 = received is" by auto
  obtain t2 f2 where r: "handleReadyRead (f_data env) (f_written env) (f_io_error env) task1 fs1 = (t2, f2)" by fastforce
  note fr = ready_read_frame [OF r]
  obtain c2 where c2: "f2 (temporary_path task1) = Some c2" "writeFailed task1 \<longrightarrow> writeFailed t2"
    "\<not> writeFailed t2 \<and> \<not> cancelled t2 \<longrightarrow> c2 = c1 @ f_data env"
    using ready_read_data [OF r c1(1)] by blast
  let ?t = "after_flush env t2 f2"
  have fields: "task_id ?t = task_id task" "temporary_path ?t = temporary_path task" "destination_path ?t = destination_path task"
    "overwrite ?t = overwrite task" "cancelled ?t = cancelled t2"
    using fr run by (simp_all add: after_flush_frame)
  have ok: "c2 = received is @ f_data env" if "\<not> cancelled ?t" "\<not> writeFailed ?t"
    using that c1 c2 fr after_flush_frame(5) [of env t2 f2] after_flush_frame(6) [of t2 env f2] by auto
  have f2: "f2 (temporary_path task) = Some c2" "\<And>p. p \<noteq> temporary_path task \<Longrightarrow> f2 p = fs p"
    using c2 fr run by auto
  from assms(4) show ?thesis
    unfolding handleFinished_def r Let_def split_conv fields
    using ok f2 assms(2) fields
    by (auto simp: file_remove_def file_rename_def split: if_splits option.splits)
qed

theorem download_completes_witness:
  "fst (handleFinished \<lparr>f_data = ''c'', f_written = 1, f_io_error = [], f_flush = True, f_reply_error = None,
      f_status = Some 200, f_remove = True, f_rename = True\<rparr>
     \<lparr>task_id = ''1'', destination_path = ''d'', temporary_path = ''t'', overwrite = True, cancelled = False, writeFailed = False, writeError = []\<rparr>
     [''t'' \<mapsto> ''ab'', ''d'' \<mapsto> ''old'']) = Completed ''1'' ''d''
   \<and> snd (handleFinished \<lparr>f_data = ''c'', f_written = 1, f_io_error = [], f_flush = True, f_reply_error = None,
      f_status = Some 200, f_remove = True, f_rename = True\<rparr>
     \<lparr>task_id = ''1'', destination_path = ''d'', temporary_path = ''t'', overwrite = True, cancelled = False, writeFailed = False, writeError = []\<rparr>
     [''t'' \<mapsto> ''ab'', ''d'' \<mapsto> ''old'']) ''d'' = Some ''abc''"
  (is "fst (handleFinished ?env ?task ?fs) = _ \<and> _")
proof -
  let ?start = "[''t'' \<mapsto> [], ''d'' \<mapsto> ''old'']"
  have run: "download_run [Data ''ab'' 2 []] ?task ?start = (?task, ?fs)"
    by (auto simp: handleReadyRead_def)
  obtain ev fs2 where fin: "handleFinished ?env ?task ?fs = (ev, fs2)" by fastforce
  have "ev = Completed ''1'' ''d''"
    using fin by (auto simp: handleFinished_def handleReadyRead_def after_flush_def file_remove_def file_rename_def Let_def split: if_splits)
  moreover have "ev = Completed ''1'' ''d'' \<longrightarrow> fs2 ''d'' = Some ''abc''"
    using download_completes [of ?start ?task "[Data ''ab'' 2 []]" ?task ?fs ?env ev fs2] run fin by simp
  ultimately show ?thesis using fin by simp
qed

text \<open>
  A download that is cancelled, or fails for any reason but its last step, leaves the file at
  the destination as it was; when the final rename fails an existing file is already gone.
\<close>

theorem download_failure_keeps:
  assumes "handleFinished env task fs = (ev, fs2)" and "temporary_path task \<noteq> destination_path task"
    and "ev \<noteq> Completed (task_id task) (destination_path task)"
  shows "fs2 (destination_path task) = fs (destination_path task)
    \<or> ev = Failed (task_id task) ''Unable to finalize downloaded file'' \<and> overwrite task \<and> fs2 (destination_path task) = None"
proof -
  obtain t2 f2 where r: "handleReadyRead (f_data env) (f_written env) (f_io_error env) task fs = (t2, f2)" by fastforce
  note fr = ready_read_frame [OF r]
  let ?t = "after_flush env t2 f2"
  have fields: "task_id ?t = task_id task" "temporary_path ?t = temporary_path task" "destination_path ?t = destination_path task"
    "overwrite ?t = overwrite task" "cancelled ?t = cancelled t2"
    using fr by (simp_all add: after_flush_frame)
  have d: "f2 (destination_path task) = fs (destination_path task)" using fr assms(2) by auto
  from assms(1,3) show ?thesis
    unfolding handleFinished_def r Let_def split_conv fields
    using d assms(2)
    by (auto simp: file_remove_def file_rename_def split: if_splits option.splits)
qed

theorem download_failure_keeps_witness:
  "snd (handleFinished \<lparr>f_data = [], f_written = 0, f_io_error = [], f_flush = True, f_reply_error = None,
      f_status = Some 404, f_remove = True, f_rename = True\<rparr>
     \<lparr>task_id = ''1'', destination_path = ''d'', temporary_path = ''t'', overwrite = True, cancelled = False, writeFailed = False, writeError = []\<rparr>
     [''t'' \<mapsto> ''ab'', ''d'' \<mapsto> ''old'']) ''d'' = Some ''old''"
  (is "snd (handleFinished ?env ?task ?fs) _ = _")
proof -
  have fin: "handleFinished ?env ?task ?fs = (Failed ''1'' ''HTTP error'', ?fs(''t'' := None))"
    by (simp add: handleFinished_def handleReadyRead_def after_flush_def Let_def)
  show ?thesis using download_failure_keeps [OF fin] fin by auto
qed

section \<open>Reachability and the retry countdown\<close>

datatype Reachability = Unknown | Disconnected | Local | Site | Online

datatype monitor_signal =
    networkChanged bool | networkConnected | networkDisconnected | retryNowInteract
  | retryCountDownChanged int | retryTimerChanged | isRetryChanged

record monitor =
  m_isOnline :: bool
  m_retry_count_down :: int
  m_current_delay :: int
  m_initial_delay :: int
  m_maximum_retry :: int
  m_isRetry :: bool
  m_running :: bool

definition stopRetryCountDown :: "monitor \<Rightarrow> monitor" where
  "stopRetryCountDown m = m\<lparr>m_running := False, m_current_delay := m_initial_delay m\<rparr>"

text \<open>The comparison with \<open>m_isOnline\<close> at the end has no effect.\<close>

definition updateStatus :: "Reachability \<Rightarrow> monitor \<Rightarrow> monitor_signal list \<times> monitor" where
  "updateStatus r m =
     (case r of
        Unknown \<Rightarrow> ([networkChanged False, networkDisconnected], m)
      | Disconnected \<Rightarrow> ([networkChanged False, networkDisconnected], m)
      | Local \<Rightarrow> ([], m)
      | Site \<Rightarrow> ([], m)
      | Online \<Rightarrow> ([networkChanged True, networkConnected], stopRetryCountDown m))"

definition startRetryCountDown :: "monitor \<Rightarrow> monitor_signal list \<times> monitor" where
  "startRetryCountDown m =
     (let m = m\<lparr>m_running := False, m_retry_count_down := max 0 (m_current_delay m)\<rparr>;
          s = [retryCountDownChanged (m_retry_count_down m)]
      in if m_retry_count_down m = 0 \<and> m_maximum_retry m = 0 then (s, m) else (s, m\<lparr>m_running := True\<rparr>))"

definition retry_now :: "monitor \<Rightarrow> monitor_signal list \<times> monitor" where
  "retry_now m =
     ([isRetryChanged, retryNowInteract],
      m\<lparr>m_isRetry := False, m_retry_count_down := max 0 (m_initial_delay m),
        m_current_delay := m_initial_delay m, m_running := True\<rparr>)"

definition setInializeDelay :: "int \<Rightarrow> monitor \<Rightarrow> monitor" where
  "setInializeDelay d m = m\<lparr>m_initial_delay := d, m_current_delay := d\<rparr>"

text \<open>One timeout of the one-second timer.\<close>

definition timer_tick :: "monitor \<Rightarrow> monitor_signal list \<times> monitor" where
  "timer_tick m =
     (let (s1, m) = (if 0 < m_retry_count_down m
                     then ([retryCountDownChanged (m_retry_count_down m - 1)], m\<lparr>m_retry_count_down := m_retry_count_down m - 1\<rparr>)
                     else ([], m));
          (s2, m) = (if m_retry_count_down m = m_current_delay m - 1 then ([isRetryChanged], m\<lparr>m_isRetry := True\<rparr>) else ([], m));
          (s3, m) = (if m_retry_count_down m = 0 \<and> 0 < m_maximum_retry m
                     then (let m = m\<lparr>m_maximum_retry := m_maximum_retry m - 1, m_current_delay := m_current_delay m * 2\<rparr>;
                               m = m\<lparr>m_retry_count_down := max 0 (m_current_delay m)\<rparr>
                           in ([retryCountDownChanged (m_retry_count_down m), retryTimerChanged], m))
                     else ([], m));
          m = (if m_retry_count_down m = 0 \<and> m_maximum_retry m = 0 then m\<lparr>m_running := False\<rparr> else m)
      in (s1 @ s2 @ s3, m))"

datatype monitor_call = Update Reachability | StartCountDown | StopCountDown | RetryNow | Tick | SetDelay int | SetMaximum int

fun monitor_step :: "monitor_call \<Rightarrow> monitor \<Rightarrow> monitor" where
  "monitor_step (Update r) m = snd (updateStatus r m)"
| "monitor_step StartCountDown m = snd (startRetryCountDown m)"
| "monitor_step StopCountDown m = stopRetryCountDown m"
| "monitor_step RetryNow m = snd (retry_now m)"
| "monitor_step Tick m = snd (timer_tick m)"
| "monitor_step (SetDelay d) m = setInializeDelay d m"
| "monitor_step (SetMaximum n) m = m\<lparr>m_maximum_retry := n\<rparr>"

text \<open>
  Whatever the reachability reports, \<open>isOnline\<close> keeps answering the value the monitor was
  created with: no operation assigns \<open>m_isOnline\<close>.
\<close>

theorem isOnline_never_changes: "m_isOnline (fold monitor_step calls m) = m_isOnline m"
proof (induction calls arbitrary: m)
  case (Cons c cs)
  have "m_isOnline (monitor_step c m) = m_isOnline m"
    by (cases c) (auto simp: updateStatus_def stopRetryCountDown_def startRetryCountDown_def retry_now_def timer_tick_def
        setInializeDelay_def Let_def split: Reachability.splits)
  with Cons show ?case by simp
qed simp

text \<open>The countdown never gets stuck above its end: each tick counts down or starts the next round.\<close>

lemma tick_measure:
  assumes "0 < m_current_delay m" and "0 \<le> m_maximum_retry m" and "0 < m_retry_count_down m"
  shows "m_maximum_retry (snd (timer_tick m)) < m_maximum_retry m
    \<or> m_maximum_retry (snd (timer_tick m)) = m_maximum_retry m \<and> m_retry_count_down (snd (timer_tick m)) = m_retry_count_down m - 1"
  using assms by (auto simp: timer_tick_def Let_def)

end
