(* ===== verification/App_Strings.thy ===== *)
theory App_Strings
  imports Disk Qt_Text
begin

text \<open>
  The tool that puts the strings of a configuration into a generated header
  (tools/string_encryptor/main.cpp) and \<open>AppConstants\<close>, which reads them back at run time
  (core/constants/app_constants.cpp). OpenSSL is the record of \<open>Disk\<close>; the compiler of the generated
  header is the pair of readers of an array and of a string literal below.
\<close>

section \<open>The configuration\<close>

datatype tool_error =
    CannotOpenConfig
  | InvalidConfigLine nat
  | EmptyKeyAtLine nat
  | InvalidCppName
  | RandomFailed
  | SealFailed
  | CannotCreate
  | InvalidMode

definition conf_space :: "char \<Rightarrow> bool" where
  "conf_space c \<longleftrightarrow> c \<in> {CHR '' '', CHR 0x09, CHR 0x0D, CHR 0x0A}"

definition conf_trim :: "string \<Rightarrow> string" where
  "conf_trim s = rev (dropWhile conf_space (rev (dropWhile conf_space s)))"

text \<open>\<open>std::getline\<close>; a last line without a line break counts.\<close>

definition conf_lines :: "string \<Rightarrow> string list" where
  "conf_lines s = (let ls = split_at CHR 0x0A s in if last ls = [] then butlast ls else ls)"

text \<open>The order of \<open>std::map\<close>.\<close>

fun key_less :: "string \<Rightarrow> string \<Rightarrow> bool" where
  "key_less _ [] \<longleftrightarrow> False"
| "key_less [] (_ # _) \<longleftrightarrow> True"
| "key_less (c # cs) (d # ds) \<longleftrightarrow> (of_char c :: nat) < of_char d \<or> c = d \<and> key_less cs ds"

fun put_value :: "string \<Rightarrow> string \<Rightarrow> (string \<times> string) list \<Rightarrow> (string \<times> string) list" where
  "put_value k v [] = [(k, v)]"
| "put_value k v ((l, w) # ls) =
     (if k = l then (k, v) # ls else if key_less k l then (k, v) # (l, w) # ls else (l, w) # put_value k v ls)"

fun read_lines :: "nat \<Rightarrow> string list \<Rightarrow> (string \<times> string) list \<Rightarrow> tool_error + (string \<times> string) list" where
  "read_lines n [] kvs = Inr kvs"
| "read_lines n (l # ls) kvs =
     (let line = conf_trim l
      in if line = [] \<or> startsWith line ''#'' then read_lines (n + 1) ls kvs
         else if CHR ''='' \<notin> set line then Inl (InvalidConfigLine n)
         else
           (let k = conf_trim (takeWhile (\<lambda>c. c \<noteq> CHR ''='') line); v = conf_trim (tl (dropWhile (\<lambda>c. c \<noteq> CHR ''='') line))
            in if k = [] then Inl (EmptyKeyAtLine n) else read_lines (n + 1) ls (put_value k v kvs)))"

definition readConfig :: "string option \<Rightarrow> tool_error + (string \<times> string) list" where
  "readConfig file = (case file of None \<Rightarrow> Inl CannotOpenConfig | Some s \<Rightarrow> read_lines 1 (conf_lines s) [])"

section \<open>Names, bytes and literals\<close>

definition upper_char :: "char \<Rightarrow> char" where
  "upper_char c = (let n = (of_char c :: nat) in if 97 \<le> n \<and> n \<le> 122 then char_of (n - 32) else c)"

fun cpp_name_loop :: "bool \<Rightarrow> string \<Rightarrow> string" where
  "cpp_name_loop up [] = []"
| "cpp_name_loop up (c # cs) =
     (if c \<in> {CHR ''_'', CHR ''-'', CHR '' ''} then cpp_name_loop True cs
      else (if up then upper_char c else lower_char c) # cpp_name_loop False cs)"

definition toCppName :: "string \<Rightarrow> tool_error + string" where
  "toCppName s = (let n = cpp_name_loop True s in if n = [] then Inl InvalidCppName else Inr n)"

definition hex_upper :: "nat \<Rightarrow> char" where
  "hex_upper n = ''0123456789ABCDEF'' ! n"

definition hex_byte :: "byte \<Rightarrow> string" where
  "hex_byte b = ''0x'' @ [hex_upper (unat b div 16), hex_upper (unat b mod 16)]"

definition line_indent :: string where
  "line_indent = CHR 0x0A # ''        ''"

fun write_items :: "nat \<Rightarrow> bytes \<Rightarrow> string" where
  "write_items i [] = []"
| "write_items i (b # bs) =
     hex_byte b @ (if bs = [] then [] else '', '' @ (if (i + 1) mod 12 = 0 then line_indent else [])) @ write_items (i + 1) bs"

definition writeBytes :: "bytes \<Rightarrow> string" where
  "writeBytes bs = ''{'' @ line_indent @ write_items 0 bs @ [CHR 0x0A] @ ''    }''"

definition escape_char :: "char \<Rightarrow> string" where
  "escape_char c =
     (if c = CHR 0x5C then [CHR 0x5C, CHR 0x5C]
      else if c = CHR 0x22 then [CHR 0x5C, CHR 0x22]
      else if c = CHR 0x0A then [CHR 0x5C, CHR ''n'']
      else if c = CHR 0x0D then [CHR 0x5C, CHR ''r'']
      else if c = CHR 0x09 then [CHR 0x5C, CHR ''t'']
      else [c])"

definition escapeCppString :: "string \<Rightarrow> string" where
  "escapeCppString s = concat (map escape_char s)"

section \<open>Sealing\<close>

record sealed_string =
  ss_ciphertext :: bytes
  ss_iv :: bytes
  ss_tag :: bytes

definition to_bytes :: "string \<Rightarrow> bytes" where
  "to_bytes = map of_char"

text \<open>\<open>n\<close> is the number of the draw of random bytes.\<close>

definition draw_bytes :: "crypto \<Rightarrow> nat \<Rightarrow> nat \<Rightarrow> tool_error + bytes" where
  "draw_bytes c n k = (case rand c n k of None \<Rightarrow> Inl RandomFailed | Some bs \<Rightarrow> Inr bs)"

definition encryptAes256Gcm :: "crypto \<Rightarrow> nat \<Rightarrow> string \<Rightarrow> bytes \<Rightarrow> tool_error + sealed_string" where
  "encryptAes256Gcm c n plaintext key =
     (case draw_bytes c n 12 of
        Inl e \<Rightarrow> Inl e
      | Inr iv \<Rightarrow>
          (case gcm_seal c key iv [] (to_bytes plaintext) of
             None \<Rightarrow> Inl SealFailed
           | Some (ct, tag) \<Rightarrow> Inr \<lparr>ss_ciphertext = ct, ss_iv = iv, ss_tag = tag\<rparr>))"

fun seal_values :: "crypto \<Rightarrow> nat \<Rightarrow> bytes \<Rightarrow> (string \<times> string) list \<Rightarrow> tool_error + (string \<times> sealed_string) list" where
  "seal_values c n key [] = Inr []"
| "seal_values c n key ((k, v) # kvs) =
     (case toCppName k of
        Inl e \<Rightarrow> Inl e
      | Inr name \<Rightarrow>
          (case encryptAes256Gcm c n v key of
             Inl e \<Rightarrow> Inl e
           | Inr s \<Rightarrow> (case seal_values c (n + 1) key kvs of Inl e \<Rightarrow> Inl e | Inr ss \<Rightarrow> Inr ((name, s) # ss))))"

record encrypted_header =
  keyMask :: bytes
  maskedKey :: bytes
  sealed :: "(string \<times> sealed_string) list"

definition xor_bytes :: "bytes \<Rightarrow> bytes \<Rightarrow> bytes" where
  "xor_bytes xs ys = map2 (\<lambda>x y. xor x y) xs ys"

definition generateEncryptedHeader :: "crypto \<Rightarrow> nat \<Rightarrow> bool \<Rightarrow> (string \<times> string) list \<Rightarrow> tool_error + encrypted_header" where
  "generateEncryptedHeader c n creatable values =
     (case draw_bytes c n 32 of
        Inl e \<Rightarrow> Inl e
      | Inr key \<Rightarrow>
          (case draw_bytes c (n + 1) 32 of
             Inl e \<Rightarrow> Inl e
           | Inr masked \<Rightarrow>
               (if \<not> creatable then Inl CannotCreate
                else case seal_values c (n + 2) key values of
                       Inl e \<Rightarrow> Inl e
                     | Inr ss \<Rightarrow> Inr \<lparr>keyMask = masked, maskedKey = xor_bytes key masked, sealed = ss\<rparr>)))"

section \<open>The text of the headers\<close>

definition nl :: string where
  "nl = [CHR 0x0A]"

definition text_lines :: "string list \<Rightarrow> string" where
  "text_lines ls = concat (map (\<lambda>l. l @ nl) ls)"

fun digits_of :: "nat \<Rightarrow> string" where
  "digits_of n = (if n < 10 then [char_of (48 + n)] else digits_of (n div 10) @ [char_of (48 + n mod 10)])"

definition array_text :: "string \<Rightarrow> string \<Rightarrow> bytes \<Rightarrow> string" where
  "array_text num name bs =
     ''inline constexpr std::array<std::uint8_t, '' @ num @ ''> '' @ name @ '' = '' @ writeBytes bs @ '';'' @ nl @ nl"

definition sealed_text :: "string \<times> sealed_string \<Rightarrow> string" where
  "sealed_text = (\<lambda>(name, s).
     array_text (digits_of (length (ss_ciphertext s))) (CHR ''k'' # name @ ''Ciphertext'') (ss_ciphertext s)
     @ array_text (digits_of (length (ss_iv s))) (CHR ''k'' # name @ ''Iv'') (ss_iv s)
     @ array_text (digits_of (length (ss_tag s))) (CHR ''k'' # name @ ''Tag'') (ss_tag s)
     @ text_lines [''inline constexpr EncryptedString k'' @ name @ ''{'',
         ''    k'' @ name @ ''Ciphertext.data(),'', ''    k'' @ name @ ''Ciphertext.size(),'',
         ''    k'' @ name @ ''Iv.data(),'', ''    k'' @ name @ ''Iv.size(),'',
         ''    k'' @ name @ ''Tag.data(),'', ''    k'' @ name @ ''Tag.size()'', ''};'', []])"

definition encrypted_text :: "encrypted_header \<Rightarrow> string" where
  "encrypted_text h =
     text_lines [''#pragma once'', [], ''#include <array>'', ''#include <cstddef>'', ''#include <cstdint>'', [],
       ''namespace generated::app_constants {'', [], ''inline constexpr bool kEncrypted = true;'', [],
       ''struct EncryptedString'', ''{'', ''    const std::uint8_t* ciphertext;'', ''    std::size_t ciphertextSize;'',
       ''    const std::uint8_t* iv;'', ''    std::size_t ivSize;'', ''    const std::uint8_t* tag;'',
       ''    std::size_t tagSize;'', ''};'', []]
     @ array_text ''32'' ''kKeyMask'' (keyMask h) @ array_text ''32'' ''kMaskedKey'' (maskedKey h)
     @ concat (map sealed_text (sealed h)) @ text_lines [''} // namespace generated::app_constants'']"

fun plain_constants :: "(string \<times> string) list \<Rightarrow> tool_error + (string \<times> string) list" where
  "plain_constants [] = Inr []"
| "plain_constants ((k, v) # kvs) =
     (case toCppName k of
        Inl e \<Rightarrow> Inl e
      | Inr name \<Rightarrow> (case plain_constants kvs of Inl e \<Rightarrow> Inl e | Inr cs \<Rightarrow> Inr ((name, v) # cs)))"

definition plain_text :: "(string \<times> string) list \<Rightarrow> string" where
  "plain_text cs =
     text_lines [''#pragma once'', [], ''#include <string_view>'', [], ''namespace generated::app_constants {'', [],
       ''inline constexpr bool kEncrypted = false;'', []]
     @ concat (map (\<lambda>(name, v). ''inline constexpr std::string_view k'' @ name @ '' = '' @ CHR 0x22 # escapeCppString v @ CHR 0x22 # '';'' @ nl) cs)
     @ text_lines [[], ''} // namespace generated::app_constants'']"

definition generatePlainHeader :: "bool \<Rightarrow> (string \<times> string) list \<Rightarrow> tool_error + string" where
  "generatePlainHeader creatable values =
     (if \<not> creatable then Inl CannotCreate
      else case plain_constants values of Inl e \<Rightarrow> Inl e | Inr cs \<Rightarrow> Inr (plain_text cs))"

text \<open>\<open>main\<close>: the header that is written, or the error that is reported with exit code 1.\<close>

definition tool_main :: "crypto \<Rightarrow> nat \<Rightarrow> string \<Rightarrow> string option \<Rightarrow> bool \<Rightarrow> tool_error + string" where
  "tool_main c n mode config creatable =
     (case readConfig config of
        Inl e \<Rightarrow> Inl e
      | Inr values \<Rightarrow>
          (if mode = ''plain'' then generatePlainHeader creatable values
           else if mode = ''encrypted''
           then (case generateEncryptedHeader c n creatable values of Inl e \<Rightarrow> Inl e | Inr h \<Rightarrow> Inr (encrypted_text h))
           else Inl InvalidMode))"

section \<open>\<open>AppConstants\<close>\<close>

datatype constant_error = InvalidTagSize | VerificationFailed

definition createKey :: "encrypted_header \<Rightarrow> bytes" where
  "createKey h = xor_bytes (maskedKey h) (keyMask h)"

definition decrypt :: "crypto \<Rightarrow> encrypted_header \<Rightarrow> sealed_string \<Rightarrow> constant_error + bytes" where
  "decrypt c h s =
     (if length (ss_tag s) \<noteq> 16 then Inl InvalidTagSize
      else case gcm_open c (createKey h) (ss_iv s) [] (ss_ciphertext s) (ss_tag s) of
             None \<Rightarrow> Inl VerificationFailed
           | Some p \<Rightarrow> Inr p)"

text \<open>\<open>QString::replace\<close> of every occurrence, from the left.\<close>

function replace_all :: "string \<Rightarrow> string \<Rightarrow> string \<Rightarrow> string" where
  "replace_all p r s =
     (if s = [] \<or> p = [] then s
      else if startsWith s p then r @ replace_all p r (drop (length p) s)
      else hd s # replace_all p r (tl s))"
  by pat_completeness auto
termination by (relation "measure (\<lambda>(p, r, s). length s)") auto

declare replace_all.simps [simp del]

definition messages_path :: "(string \<Rightarrow> string) \<Rightarrow> string \<Rightarrow> string \<Rightarrow> string" where
  "messages_path percent path user = replace_all ''{userId}'' (percent (trim_text user)) path"

definition group_path :: "(string \<Rightarrow> string) \<Rightarrow> string \<Rightarrow> string \<Rightarrow> string" where
  "group_path percent path grp = replace_all ''{groupId}'' (percent (trim_text grp)) path"

section \<open>What a compiler reads\<close>

text \<open>An initializer of bytes without its white space, and a string literal after its opening quote.\<close>

definition hex_value :: "char \<Rightarrow> nat option" where
  "hex_value c = (let n = length (takeWhile (\<lambda>d. d \<noteq> c) ''0123456789ABCDEF'') in if n < 16 then Some n else None)"

fun read_items :: "string \<Rightarrow> bytes option" where
  "read_items (z # x # h # l # e # rest) =
     (if z = CHR ''0'' \<and> x = CHR ''x''
      then (case (hex_value h, hex_value l) of
              (Some a, Some b) \<Rightarrow>
                (if e = CHR '','' then map_option ((#) (of_nat (16 * a + b))) (read_items rest)
                 else if e = CHR ''}'' \<and> rest = [] then Some [of_nat (16 * a + b)] else None)
            | _ \<Rightarrow> None)
      else None)"
| "read_items s = (if s = ''}'' then Some [] else None)"

definition read_array :: "string \<Rightarrow> bytes option" where
  "read_array s =
     (case filter (\<lambda>c. \<not> conf_space c) s of [] \<Rightarrow> None | c # cs \<Rightarrow> if c = CHR ''{'' then read_items cs else None)"

definition unescape_char :: "char \<Rightarrow> char option" where
  "unescape_char c =
     (if c = CHR 0x5C \<or> c = CHR 0x22 then Some c
      else if c = CHR ''n'' then Some CHR 0x0A
      else if c = CHR ''r'' then Some CHR 0x0D
      else if c = CHR ''t'' then Some CHR 0x09
      else None)"

fun read_literal :: "string \<Rightarrow> (string \<times> string) option" where
  "read_literal [] = None"
| "read_literal (c # cs) =
     (if c = CHR 0x22 then Some ([], cs)
      else if c = CHR 0x0A then None
      else if c = CHR 0x5C
      then (case cs of
              [] \<Rightarrow> None
            | e # es \<Rightarrow>
                (case unescape_char e of
                   None \<Rightarrow> None
                 | Some d \<Rightarrow> (case read_literal es of None \<Rightarrow> None | Some (s, r) \<Rightarrow> Some (d # s, r))))
      else (case read_literal cs of None \<Rightarrow> None | Some (s, r) \<Rightarrow> Some (c # s, r)))"

section \<open>The configuration is a map in the order of its keys\<close>

lemma key_less_irrefl [simp]: "\<not> key_less k k"
  by (induction k) auto

lemma of_char_eq: "(of_char c :: nat) = of_char d \<longleftrightarrow> c = d"
  by simp

lemma key_less_trans: "key_less a b \<Longrightarrow> key_less b c \<Longrightarrow> key_less a c"
proof (induction a b arbitrary: c rule: key_less.induct)
  case (3 x xs y ys)
  show ?case
  proof (cases c)
    case Nil
    with 3 show ?thesis by simp
  next
    case (Cons z zs)
    with 3 show ?thesis by auto
  qed
next
  case (2 x xs)
  then show ?case by (cases c) auto
qed simp

lemma key_less_total: "key_less a b \<or> a = b \<or> key_less b a"
proof (induction a b rule: key_less.induct)
  case (1 a)
  then show ?case by (cases a) auto
next
  case (3 x xs y ys)
  show ?case
  proof (cases "(of_char x :: nat) = of_char y")
    case True
    then have "x = y" by simp
    with 3 show ?thesis by auto
  next
    case False
    then have "(of_char x :: nat) < of_char y \<or> (of_char y :: nat) < of_char x" by linarith
    then show ?thesis by auto
  qed
qed auto

definition in_order :: "(string \<times> string) list \<Rightarrow> bool" where
  "in_order kvs = sorted_wrt key_less (map fst kvs)"

lemma put_value_keys: "set (map fst (put_value k v kvs)) = insert k (set (map fst kvs))"
  by (induction k v kvs rule: put_value.induct) auto

lemma put_value_order: "in_order kvs \<Longrightarrow> in_order (put_value k v kvs)"
proof (induction k v kvs rule: put_value.induct)
  case (2 k v l w ls)
  have keys: "set (map fst (put_value k v ls)) = insert k (set (map fst ls))" by (rule put_value_keys)
  from 2 keys key_less_total [of k l] show ?case
    by (auto simp: in_order_def intro: key_less_trans)
qed (simp add: in_order_def)

lemma put_value_map: "in_order kvs \<Longrightarrow> map_of (put_value k v kvs) = (map_of kvs)(k \<mapsto> v)"
proof (induction k v kvs rule: put_value.induct)
  case (2 k v l w ls)
  then have "k = l \<or> key_less k l \<or> in_order ls \<and> map_of (put_value k v ls) = (map_of ls)(k \<mapsto> v)"
    by (auto simp: in_order_def)
  then show ?case using 2 by (auto simp: fun_eq_iff in_order_def)
qed simp

text \<open>What a line assigns: nothing for an empty line or a comment.\<close>

definition line_value :: "string \<Rightarrow> (string \<times> string) option" where
  "line_value l =
     (let line = conf_trim l
      in if line = [] \<or> startsWith line ''#'' then None
         else Some (conf_trim (takeWhile (\<lambda>c. c \<noteq> CHR ''='') line), conf_trim (tl (dropWhile (\<lambda>c. c \<noteq> CHR ''='') line))))"

definition assignments :: "string \<Rightarrow> (string \<times> string) list" where
  "assignments s = List.map_filter line_value (conf_lines s)"

lemma read_lines_map:
  "read_lines n ls kvs = Inr r \<Longrightarrow> in_order kvs
   \<Longrightarrow> in_order r \<and> map_of r = map_of kvs ++ map_of (rev (List.map_filter line_value ls))"
proof (induction n ls kvs rule: read_lines.induct)
  case (2 n l ls kvs)
  let ?line = "conf_trim l"
  let ?k = "conf_trim (takeWhile (\<lambda>c. c \<noteq> CHR ''='') ?line)"
  let ?v = "conf_trim (tl (dropWhile (\<lambda>c. c \<noteq> CHR ''='') ?line))"
  show ?case
  proof (cases "?line = [] \<or> startsWith ?line ''#''")
    case True
    then have "line_value l = None" by (simp add: line_value_def Let_def)
    with True 2 show ?thesis by (auto simp: Let_def List.map_filter_simps)
  next
    case False
    with "2.prems" have ok: "CHR ''='' \<in> set ?line" "?k \<noteq> []" "read_lines (n + 1) ls (put_value ?k ?v kvs) = Inr r"
      by (auto simp: Let_def split: if_splits)
    have lv: "line_value l = Some (?k, ?v)" using False by (simp add: line_value_def Let_def)
    have "in_order r \<and> map_of r = map_of (put_value ?k ?v kvs) ++ map_of (rev (List.map_filter line_value ls))"
      by (rule "2.IH"(2)) (use False ok "2.prems" in \<open>auto simp: put_value_order\<close>)
    with lv "2.prems" put_value_map [OF "2.prems"(2), of ?k ?v] show ?thesis
      by (auto simp: List.map_filter_simps map_add_def fun_eq_iff map_of_append split: option.splits)
  qed
qed (simp add: List.map_filter_simps)

text \<open>
  A configuration that is read gives each key the value of the last line that assigns it, and the
  keys come in strictly ascending order, so no key is generated twice.
\<close>

theorem config_last_wins:
  assumes "readConfig (Some s) = Inr kvs"
  shows "map_of kvs = map_of (rev (assignments s)) \<and> sorted_wrt key_less (map fst kvs)"
  using assms read_lines_map [of 1 "conf_lines s" "[]" kvs]
  by (auto simp: readConfig_def assignments_def in_order_def)

lemma config_last_wins_witness:
  "map_of [(''A'', ''3''), (''B'', ''2'')] = map_of (rev (assignments (''B=2'' @ CHR 0x0A # ''A = 1'' @ CHR 0x0A # ''#c'' @ CHR 0x0A # ''A=3'')))
   \<and> sorted_wrt key_less (map fst [(''A'', ''3''), (''B'', ''2'')])"
proof -
  have "readConfig (Some (''B=2'' @ CHR 0x0A # ''A = 1'' @ CHR 0x0A # ''#c'' @ CHR 0x0A # ''A=3'')) = Inr [(''A'', ''3''), (''B'', ''2'')]"
    by code_simp
  then show ?thesis by (rule config_last_wins)
qed

section \<open>Literals and arrays\<close>

lemma read_escaped: "read_literal (escape_char c @ r) = map_option (\<lambda>(s, t). (c # s, t)) (read_literal r)"
  by (auto simp: escape_char_def unescape_char_def split: option.splits)

text \<open>
  The literal of the plain header is the value: what a compiler reads from the escaped text up to
  the closing quote is the string that was escaped, whatever characters it has.
\<close>

theorem literal_reads_back: "read_literal (escapeCppString s @ CHR 0x22 # rest) = Some (s, rest)"
proof (induction s)
  case (Cons c s)
  have "escapeCppString (c # s) @ CHR 0x22 # rest = escape_char c @ (escapeCppString s @ CHR 0x22 # rest)"
    by (simp add: escapeCppString_def)
  with Cons show ?case by (simp add: read_escaped)
qed (simp add: escapeCppString_def)

lemma hex_digit:
  assumes "n < 16"
  shows "hex_value (hex_upper n) = Some n \<and> \<not> conf_space (hex_upper n)"
proof -
  have "\<forall>n \<in> set [0..<16]. hex_value (hex_upper n) = Some n \<and> \<not> conf_space (hex_upper n)"
    by (simp add: upt_rec [of _ 16] hex_value_def hex_upper_def conf_space_def)
  with assms show ?thesis by simp
qed

lemma byte_halves:
  fixes b :: byte
  shows "unat b div 16 < 16" "unat b mod 16 < 16" "(of_nat (16 * (unat b div 16) + unat b mod 16) :: byte) = b"
proof -
  have "unat b < 256" using unsigned_less [of b] by simp
  then show "unat b div 16 < 16" by (simp add: less_mult_imp_div_less)
  show "unat b mod 16 < 16" by simp
  have "16 * (unat b div 16) + unat b mod 16 = unat b" by simp
  then show "(of_nat (16 * (unat b div 16) + unat b mod 16) :: byte) = b" by (simp only: of_nat_unat word_of_int_uint unsigned_of_nat) (simp add: of_nat_unat)
qed

lemma read_item:
  "read_items (hex_byte b @ CHR '','' # r) = map_option ((#) b) (read_items r)"
  "read_items (hex_byte b @ ''}'') = Some [b]"
  using hex_digit byte_halves [of b] by (simp_all add: hex_byte_def)

lemma solid_byte: "filter (\<lambda>c. \<not> conf_space c) (hex_byte b) = hex_byte b"
  using hex_digit byte_halves [of b] by (simp add: hex_byte_def) (simp add: conf_space_def)

lemma read_written:
  "read_items (filter (\<lambda>c. \<not> conf_space c) (write_items i bs @ [CHR 0x0A] @ ''    }'')) = Some bs"
proof (induction bs arbitrary: i)
  case Nil
  show ?case by (simp add: conf_space_def)
next
  case (Cons b bs)
  show ?case
  proof (cases "bs = []")
    case True
    then have e: "filter (\<lambda>c. \<not> conf_space c) (write_items i (b # bs) @ [CHR 0x0A] @ ''    }'') = hex_byte b @ ''}''"
      using solid_byte [of b] by (simp add: conf_space_def)
    show ?thesis unfolding e using True by (simp only: read_item)
  next
    case False
    then have e: "filter (\<lambda>c. \<not> conf_space c) (write_items i (b # bs) @ [CHR 0x0A] @ ''    }'')
      = hex_byte b @ CHR '','' # filter (\<lambda>c. \<not> conf_space c) (write_items (i + 1) bs @ [CHR 0x0A] @ ''    }'')"
      using solid_byte [of b] by (simp add: conf_space_def line_indent_def)
    show ?thesis unfolding e read_item Cons.IH by simp
  qed
qed

text \<open>
  The initializer written for an array of bytes denotes these bytes: line breaks, indentation,
  separators and the two hexadecimal digits read back to the array, also when it is empty.
\<close>

theorem array_reads_back: "read_array (writeBytes bs) = Some bs"
proof -
  have "filter (\<lambda>c. \<not> conf_space c) (writeBytes bs)
    = CHR ''{'' # filter (\<lambda>c. \<not> conf_space c) (write_items 0 bs @ [CHR 0x0A] @ ''    }'')"
    by (simp add: writeBytes_def line_indent_def conf_space_def)
  then show ?thesis by (simp only: read_array_def list.case if_True simp_thms read_written)
qed

section \<open>What is generated is what is read\<close>

lemma xor_bytes_cancel: "length xs = length ys \<Longrightarrow> xor_bytes (xor_bytes xs ys) ys = xs"
  by (induction xs ys rule: list_induct2) (simp_all add: xor_bytes_def xor.assoc)

lemma draw_length: "crypto_ok c \<Longrightarrow> draw_bytes c n k = Inr bs \<Longrightarrow> length bs = k"
  by (auto simp: draw_bytes_def crypto_ok_def split: option.splits)

lemma sealed_opens:
  assumes "crypto_ok c" "encryptAes256Gcm c n v key = Inr s"
  shows "length (ss_tag s) = 16 \<and> gcm_open c key (ss_iv s) [] (ss_ciphertext s) (ss_tag s) = Some (to_bytes v)"
  using assms by (auto simp: encryptAes256Gcm_def crypto_ok_def split: sum.splits option.splits)

lemma seal_values_each:
  assumes "crypto_ok c" "createKey h = key" "seal_values c n key kvs = Inr ss"
  shows "list_all2 (\<lambda>(k, v) (name, s). toCppName k = Inr name \<and> decrypt c h s = Inr (to_bytes v)) kvs ss"
  using assms
proof (induction c n key kvs arbitrary: ss rule: seal_values.induct)
  case (2 c n key k v kvs)
  then obtain name s rest where run: "toCppName k = Inr name" "encryptAes256Gcm c n v key = Inr s"
      "seal_values c (n + 1) key kvs = Inr rest" "ss = (name, s) # rest"
    by (auto split: sum.splits)
  have "list_all2 (\<lambda>(k, v) (name, s). toCppName k = Inr name \<and> decrypt c h s = Inr (to_bytes v)) kvs rest"
    by (rule "2.IH" [OF run(1) run(2) "2.prems"(1,2) run(3)])
  moreover have "decrypt c h s = Inr (to_bytes v)"
    using sealed_opens [OF "2.prems"(1) run(2)] "2.prems"(2) by (simp add: decrypt_def)
  ultimately show ?case using run by simp
qed simp

lemma header_key:
  assumes "crypto_ok c" "generateEncryptedHeader c n True values = Inr h"
  shows "\<exists>key. createKey h = key \<and> seal_values c (n + 2) key values = Inr (sealed h)"
proof -
  obtain key masked ss where run: "draw_bytes c n 32 = Inr key" "draw_bytes c (n + 1) 32 = Inr masked"
      "seal_values c (n + 2) key values = Inr ss" "h = \<lparr>keyMask = masked, maskedKey = xor_bytes key masked, sealed = ss\<rparr>"
    using assms(2) by (auto simp: generateEncryptedHeader_def split: sum.splits if_splits)
  have "length key = length masked" using run(1,2) draw_length [OF assms(1)] by metis
  then show ?thesis using run by (simp add: createKey_def xor_bytes_cancel)
qed

text \<open>
  C16: With the documented OpenSSL calls, every configuration value comes back at run time: in an
  encrypted header the constant at each position has the C++ name of its key, and \<open>decrypt\<close> with the
  unmasked key returns the bytes of the value.
\<close>

theorem config_strings_recovered:
  assumes "crypto_ok c" "generateEncryptedHeader c n creatable values = Inr h"
  shows "list_all2 (\<lambda>(k, v) (name, s). toCppName k = Inr name \<and> decrypt c h s = Inr (to_bytes v)) values (sealed h)"
proof -
  have "creatable" using assms(2) by (auto simp: generateEncryptedHeader_def split: sum.splits if_splits)
  with assms obtain key where "createKey h = key" "seal_values c (n + 2) key values = Inr (sealed h)"
    using header_key [of c n "values" h] by auto
  with assms(1) show ?thesis by (intro seal_values_each)
qed

definition demo_crypto :: crypto where
  "demo_crypto = \<lparr>hmac = \<lambda>k m. Some [], gcm_seal = \<lambda>k iv ad p. Some (map (xor (hd k)) p, replicate 16 0),
     gcm_open = \<lambda>k iv ad ct tag. Some (map (xor (hd k)) ct), scrypt = \<lambda>p s. Some [],
     rand = \<lambda>i n. Some (replicate n (of_nat i + 1))\<rparr>"

lemma demo_crypto_ok: "crypto_ok demo_crypto"
  by (auto simp: crypto_ok_def demo_crypto_def comp_def xor.assoc [symmetric])

definition demo_header :: encrypted_header where
  "demo_header = \<lparr>keyMask = replicate 32 2, maskedKey = replicate 32 3,
     sealed = [(''ApiUrl'', \<lparr>ss_ciphertext = [105, 115], ss_iv = replicate 12 3, ss_tag = replicate 16 0\<rparr>)]\<rparr>"

lemma config_strings_recovered_witness:
  "generateEncryptedHeader demo_crypto 0 True [(''api_url'', ''hr'')] = Inr demo_header
   \<and> decrypt demo_crypto demo_header (snd (hd (sealed demo_header))) = Inr (to_bytes ''hr'')"
proof -
  have run: "generateEncryptedHeader demo_crypto 0 True [(''api_url'', ''hr'')] = Inr demo_header" by code_simp
  from config_strings_recovered [OF demo_crypto_ok run] run show ?thesis by (simp add: demo_header_def)
qed

lemma plain_agrees:
  assumes "list_all2 (\<lambda>(k, v) (name, s). toCppName k = Inr name \<and> decrypt c h s = Inr (to_bytes v)) kvs ss"
  shows "\<exists>cs. plain_constants kvs = Inr cs
    \<and> list_all2 (\<lambda>(name, v) (name', s). name = name' \<and> decrypt c h s = Inr (to_bytes v)) cs ss"
  using assms
proof (induction rule: list_all2_induct)
  case (Cons kv kvs ns ss)
  then show ?case by (cases kv, cases ns) auto
qed simp

text \<open>
  The two kinds of header agree: whenever both can be generated from the same values they define the
  same names in the same order, and each sealed string opens to the bytes of the plain constant.
\<close>

theorem modes_agree:
  assumes "crypto_ok c" "generateEncryptedHeader c n True values = Inr h"
  shows "\<exists>cs. generatePlainHeader True values = Inr (plain_text cs)
    \<and> list_all2 (\<lambda>(name, v) (name', s). name = name' \<and> decrypt c h s = Inr (to_bytes v)) cs (sealed h)"
proof -
  have each: "list_all2 (\<lambda>(k, v) (name, s). toCppName k = Inr name \<and> decrypt c h s = Inr (to_bytes v)) values (sealed h)"
    using header_key [OF assms] assms(1) by (auto intro: seal_values_each)
  show ?thesis using plain_agrees [OF each] by (auto simp: generatePlainHeader_def)
qed

lemma modes_agree_witness:
  "\<exists>cs. generatePlainHeader True [(''api_url'', ''hr'')] = Inr (plain_text cs)
    \<and> list_all2 (\<lambda>(name, v) (name', s). name = name' \<and> decrypt demo_crypto demo_header s = Inr (to_bytes v)) cs (sealed demo_header)"
proof -
  have run: "generateEncryptedHeader demo_crypto 0 True [(''api_url'', ''hr'')] = Inr demo_header" by code_simp
  show ?thesis by (rule modes_agree [OF demo_crypto_ok run])
qed

section \<open>Paths\<close>

definition count_of :: "char \<Rightarrow> string \<Rightarrow> nat" where
  "count_of c s = length (filter (\<lambda>d. d = c) s)"

lemma replace_keeps_count:
  assumes "c \<notin> set p" "c \<notin> set r"
  shows "count_of c (replace_all p r s) = count_of c s"
  using assms
proof (induction p r s rule: replace_all.induct)
  case (1 p r s)
  have none: "count_of c p = 0" "count_of c r = 0" using 1(3,4) by (auto simp: count_of_def filter_empty_conv)
  have add: "count_of c (xs @ ys) = count_of c xs + count_of c ys" for xs ys by (simp add: count_of_def)
  consider "s = [] \<or> p = []" | "s \<noteq> []" "p \<noteq> []" "startsWith s p" | "s \<noteq> []" "p \<noteq> []" "\<not> startsWith s p" by blast
  then show ?case
  proof cases
    case 1
    then show ?thesis by (auto simp: replace_all.simps [of p r s])
  next
    case 2
    then have "s = p @ drop (length p) s" by (metis append_take_drop_id startsWith_def)
    then have "count_of c s = count_of c (drop (length p) s)" using add none by (metis add_0)
    with 2 1 show ?thesis by (simp add: replace_all.simps [of p r s] add none)
  next
    case 3
    then obtain d ds where "s = d # ds" by (cases s) auto
    with 3 1 show ?thesis by (simp add: replace_all.simps [of p r "d # ds"] count_of_def)
  qed
qed

text \<open>
  No identifier can leave its place in a path: with an encoding that leaves no separator
  (as \<open>QUrl::toPercentEncoding\<close> does), the paths of a user's and of a group's messages have the same
  slashes, question and number signs as the configured path, whatever the identifier holds.
\<close>

theorem identifiers_stay_in_segment:
  assumes "\<And>s. set (percent s) \<inter> {CHR ''/'', CHR ''?'', CHR ''#''} = {}" "c \<in> {CHR ''/'', CHR ''?'', CHR ''#''}"
  shows "count_of c (messages_path percent path x) = count_of c path \<and> count_of c (group_path percent path x) = count_of c path"
proof -
  have "c \<notin> set (percent (trim_text x))" using assms by blast
  moreover have "c \<notin> set ''{userId}''" "c \<notin> set ''{groupId}''" using assms(2) by auto
  ultimately show ?thesis by (simp add: messages_path_def group_path_def replace_keeps_count)
qed

definition demo_percent :: "string \<Rightarrow> string" where
  "demo_percent s = concat (map (\<lambda>c. if c \<in> {CHR ''/'', CHR ''?'', CHR ''#''} then ''%2F'' else [c]) s)"

lemma identifiers_stay_in_segment_witness:
  "count_of CHR ''/'' (messages_path demo_percent ''/messages/{userId}'' '' ../x'') = count_of CHR ''/'' ''/messages/{userId}''
   \<and> count_of CHR ''/'' (group_path demo_percent ''/messages/{userId}'' '' ../x'') = count_of CHR ''/'' ''/messages/{userId}''"
  by (rule identifiers_stay_in_segment) (auto simp: demo_percent_def)

end
