(* ===== verification/Xmpp_Manager.thy ===== *)
theory Xmpp_Manager
  imports Session_Flow Qt_Text
begin

text \<open>
  The connection of \<open>XmppManager\<close> (core/xmpp/xmpp_manager.cpp). The XMPP client is a library: its
  state, its signals and the answers to what is sent come in as events; what the manager asks of it
  and what it signals are the effects of a step, in order. Every call from another thread is queued to
  the manager's thread, so a call is an event as well.
\<close>

section \<open>State, effects and events\<close>

record connection_parameters =
  cp_jid :: string
  cp_password :: string
  cp_host :: string
  cp_port :: "16 word"

record configuration =
  conf_jid :: string
  conf_password :: string
  conf_resource :: string
  conf_host :: "string option"
  conf_port :: "16 word option"
  conf_reconnect :: bool
  conf_tls_required :: bool
  conf_ignore_ssl_errors :: bool

text \<open>The kinds of messages and presences of the XMPP library.\<close>

datatype message_kind = ErrorMessage | NormalMessage | ChatMessage | GroupChatMessage | HeadlineMessage

datatype presence_kind =
    PresenceError | PresenceAvailable | PresenceUnavailable | PresenceSubscribe | PresenceSubscribed | PresenceUnsubscribe
  | PresenceUnsubscribed | PresenceProbe

record xmpp_message =
  msg_from :: string
  msg_to :: string
  msg_kind :: message_kind
  msg_body :: string

record xmpp_presence =
  pres_from :: string
  pres_to :: string
  pres_kind :: presence_kind
  pres_status :: string

record stanza =
  stanza_to :: string
  stanza_body :: string
  stanza_kind :: message_kind
  stanza_id :: string

datatype manager_effect =
    ClientInitialized
  | ConnectionStateChanged
  | ConnectionFailed
  | ConnectedChanged
  | LastErrorChanged
  | MessageReceived xmpp_message
  | PresenceReceived xmpp_presence
  | ClientConnect configuration
  | ClientDisconnect
  | ClientOffline
  | AcceptSubscription string
  | QueueReconnect connection_parameters

text \<open>
  \<open>m_client\<close> is the state the client reports, once there is one; \<open>m_timers\<close> are the parameters of the
  zero timers that have not fired.
\<close>

record xmpp_manager =
  m_client :: "ConnectionState option"
  m_rosterFound :: bool
  m_connectionState :: ConnectionState
  m_pendingConnection :: "connection_parameters option"
  m_timers :: "connection_parameters list"
  m_lastError :: string
  m_currentJid :: string

definition new_manager :: xmpp_manager where
  "new_manager = \<lparr>m_client = None, m_rosterFound = False, m_connectionState = Disconnected, m_pendingConnection = None,
     m_timers = [], m_lastError = [], m_currentJid = []\<rparr>"

section \<open>Small steps\<close>

definition updateState :: "ConnectionState \<Rightarrow> xmpp_manager \<Rightarrow> manager_effect list \<times> xmpp_manager" where
  "updateState c m = (if m_connectionState m = c then ([], m) else ([ConnectionStateChanged], m\<lparr>m_connectionState := c\<rparr>))"

definition setLastError :: "string \<Rightarrow> xmpp_manager \<Rightarrow> manager_effect list \<times> xmpp_manager" where
  "setLastError s m = (if m_lastError m = s then ([], m) else ([LastErrorChanged], m\<lparr>m_lastError := s\<rparr>))"

definition connection_refused :: "string \<Rightarrow> xmpp_manager \<Rightarrow> manager_effect list \<times> xmpp_manager" where
  "connection_refused s m = (case setLastError s m of (es, m') \<Rightarrow> (es @ [ConnectionFailed], m'))"

definition configuration_of :: "string \<Rightarrow> connection_parameters \<Rightarrow> configuration" where
  "configuration_of uuid p =
     \<lparr>conf_jid = cp_jid p, conf_password = cp_password p, conf_resource = ''desktop-'' @ uuid,
      conf_host = (if cp_host p = [] then None else Some (cp_host p)),
      conf_port = (if cp_port p = 0 then None else Some (cp_port p)),
      conf_reconnect = True, conf_tls_required = True, conf_ignore_ssl_errors = True\<rparr>"

definition startConnection :: "string \<Rightarrow> connection_parameters \<Rightarrow> xmpp_manager \<Rightarrow> manager_effect list \<times> xmpp_manager" where
  "startConnection uuid p m =
     (case updateState Connecting m of (es, m1) \<Rightarrow>
       (case setLastError [] m1 of (fs, m2) \<Rightarrow> (es @ fs @ [ClientConnect (configuration_of uuid p)], m2)))"

text \<open>The source asserts that there is a client; without one this does nothing.\<close>

definition connectToServer ::
    "string \<Rightarrow> string \<Rightarrow> string \<Rightarrow> string \<Rightarrow> 16 word \<Rightarrow> xmpp_manager \<Rightarrow> manager_effect list \<times> xmpp_manager" where
  "connectToServer uuid jd password hst prt m =
     (let normalized_jid = trim_text jd
      in if normalized_jid = [] then connection_refused ''XMPP JID cannot be empty.'' m
         else if password = [] then connection_refused ''XMPP password cannot be empty.'' m
         else if CHR 0x40 \<notin> set normalized_jid then connection_refused ''Invalid XMPP JID. Expected user@domain.'' m
         else
           (let p = \<lparr>cp_jid = normalized_jid, cp_password = password, cp_host = trim_text hst, cp_port = prt\<rparr>
            in case m_client m of
                 None \<Rightarrow> ([], m)
               | Some c \<Rightarrow>
                   if c \<noteq> Disconnected then ([ClientDisconnect], m\<lparr>m_pendingConnection := Some p\<rparr>)
                   else startConnection uuid p m))"

definition closeConnection :: "xmpp_manager \<Rightarrow> manager_effect list \<times> xmpp_manager" where
  "closeConnection m =
     (case m_client m of
        None \<Rightarrow> ([], m)
      | Some c \<Rightarrow>
          (let m1 = m\<lparr>m_pendingConnection := None\<rparr>
           in if c = Disconnected then updateState Disconnected m1 else ([ClientOffline, ClientDisconnect], m1)))"

definition manager_initialize :: "bool \<Rightarrow> xmpp_manager \<Rightarrow> manager_effect list \<times> xmpp_manager" where
  "manager_initialize roster m =
     (if m_client m \<noteq> None then ([], m)
      else ([ClientInitialized], m\<lparr>m_client := Some Disconnected, m_rosterFound := roster\<rparr>))"

definition isConnected_client :: "xmpp_manager \<Rightarrow> bool" where
  "isConnected_client m \<longleftrightarrow> m_client m = Some Connected"

section \<open>The slots on the client's signals\<close>

definition on_state_changed :: "ConnectionState \<Rightarrow> xmpp_manager \<Rightarrow> manager_effect list \<times> xmpp_manager" where
  "on_state_changed c m = updateState c (m\<lparr>m_client := Some c\<rparr>)"

definition on_connected :: "string \<Rightarrow> xmpp_manager \<Rightarrow> manager_effect list \<times> xmpp_manager" where
  "on_connected configured_jid m =
     (case setLastError [] m of (es, m1) \<Rightarrow> (es @ [ConnectedChanged], m1\<lparr>m_currentJid := configured_jid\<rparr>))"

definition on_disconnected :: "xmpp_manager \<Rightarrow> manager_effect list \<times> xmpp_manager" where
  "on_disconnected m =
     (case setLastError [] m of (es, m1) \<Rightarrow>
       (case updateState Disconnected m1 of (fs, m2) \<Rightarrow>
         (case m_pendingConnection m2 of
            None \<Rightarrow> (es @ fs, m2)
          | Some p \<Rightarrow> (es @ fs @ [QueueReconnect p], m2\<lparr>m_pendingConnection := None, m_timers := m_timers m2 @ [p]\<rparr>))))"

definition on_timer :: "string \<Rightarrow> connection_parameters \<Rightarrow> xmpp_manager \<Rightarrow> manager_effect list \<times> xmpp_manager" where
  "on_timer uuid p m =
     (if m_client m = Some Disconnected then startConnection uuid p m else ([], m\<lparr>m_pendingConnection := Some p\<rparr>))"

definition timer_fired :: "string \<Rightarrow> xmpp_manager \<Rightarrow> manager_effect list \<times> xmpp_manager" where
  "timer_fired uuid m =
     (case m_timers m of [] \<Rightarrow> ([], m) | p # ps \<Rightarrow> on_timer uuid p (m\<lparr>m_timers := ps\<rparr>))"

definition on_subscription :: "string \<Rightarrow> xmpp_manager \<Rightarrow> manager_effect list \<times> xmpp_manager" where
  "on_subscription from_jid m = ((if m_rosterFound m then [AcceptSubscription from_jid] else []), m)"

definition xmpp_onMessageReceived :: "xmpp_message \<Rightarrow> xmpp_manager \<Rightarrow> manager_effect list \<times> xmpp_manager" where
  "xmpp_onMessageReceived x m = ((if msg_body x = [] then [] else [MessageReceived x]), m)"

definition onPresenceReceived :: "xmpp_presence \<Rightarrow> xmpp_manager \<Rightarrow> manager_effect list \<times> xmpp_manager" where
  "onPresenceReceived x m = ((if pres_from x = m_currentJid m then [] else [PresenceReceived x]), m)"

text \<open>
  \<open>sendMessage\<close>: what is handed to the client, or the text the future resolves with at once; the
  answer of the client resolves it otherwise.
\<close>

definition manager_sendMessage :: "string \<Rightarrow> string \<Rightarrow> string \<Rightarrow> string \<Rightarrow> xmpp_manager \<Rightarrow> string + stanza" where
  "manager_sendMessage configured_jid receiver_id message message_id m =
     (if \<not> isConnected_client m \<or> receiver_id = [] \<or> message = []
      then Inl ''The message could not be sent. Reconnect and retry''
      else
        (let domain = first_section CHR ''/'' (drop 1 (dropWhile (\<lambda>c. c \<noteq> CHR 0x40) configured_jid))
         in Inr \<lparr>stanza_to = receiver_id @ CHR 0x40 # domain, stanza_body = trim_text message, stanza_kind = ChatMessage, stanza_id = message_id\<rparr>))"

definition send_answer :: "string option \<Rightarrow> string" where
  "send_answer failure = (case failure of None \<Rightarrow> [] | Some description \<Rightarrow> description)"

section \<open>Runs\<close>

datatype manager_event =
    Initialize bool
  | ConnectCall string string string string "16 word"
  | CloseCall
  | ClientState ConnectionState
  | ClientConnected string
  | ClientDisconnected
  | TimerFired string
  | SubscriptionRequest string
  | MessageArrived xmpp_message
  | PresenceArrived xmpp_presence

fun manager_step :: "manager_event \<Rightarrow> xmpp_manager \<Rightarrow> manager_effect list \<times> xmpp_manager" where
  "manager_step (Initialize roster) m = manager_initialize roster m"
| "manager_step (ConnectCall uuid jd password hst prt) m = connectToServer uuid jd password hst prt m"
| "manager_step CloseCall m = closeConnection m"
| "manager_step (ClientState c) m = on_state_changed c m"
| "manager_step (ClientConnected configured_jid) m = on_connected configured_jid m"
| "manager_step ClientDisconnected m = on_disconnected m"
| "manager_step (TimerFired uuid) m = timer_fired uuid m"
| "manager_step (SubscriptionRequest from_jid) m = on_subscription from_jid m"
| "manager_step (MessageArrived x) m = xmpp_onMessageReceived x m"
| "manager_step (PresenceArrived x) m = onPresenceReceived x m"

fun manager_run :: "manager_event list \<Rightarrow> xmpp_manager \<Rightarrow> manager_effect list \<times> xmpp_manager" where
  "manager_run [] m = ([], m)"
| "manager_run (e # es) m =
     (case manager_step e m of (fs, m1) \<Rightarrow> (case manager_run es m1 of (gs, m2) \<Rightarrow> (fs @ gs, m2)))"

section \<open>Where a connection can come from\<close>

lemmas manager_defs = updateState_def setLastError_def connection_refused_def startConnection_def connectToServer_def
  closeConnection_def manager_initialize_def on_state_changed_def on_connected_def on_disconnected_def on_timer_def timer_fired_def
  on_subscription_def xmpp_onMessageReceived_def onPresenceReceived_def

text \<open>The parameters that still may be connected with, and those a call asks for.\<close>

definition waiting :: "xmpp_manager \<Rightarrow> connection_parameters set" where
  "waiting m = set_option (m_pendingConnection m) \<union> set (m_timers m)"

definition parameters_of :: "string \<Rightarrow> string \<Rightarrow> string \<Rightarrow> 16 word \<Rightarrow> connection_parameters" where
  "parameters_of jd password hst prt = \<lparr>cp_jid = trim_text jd, cp_password = password, cp_host = trim_text hst, cp_port = prt\<rparr>"

definition usable :: "connection_parameters \<Rightarrow> bool" where
  "usable p \<longleftrightarrow> CHR 0x40 \<in> set (cp_jid p) \<and> cp_password p \<noteq> []"

fun asked_by :: "manager_event \<Rightarrow> connection_parameters set" where
  "asked_by (ConnectCall uuid jd password hst prt) =
     (let p = parameters_of jd password hst prt in if usable p then {p} else {})"
| "asked_by _ = {}"

definition connects :: "manager_effect list \<Rightarrow> configuration list" where
  "connects fs = List.map_filter (\<lambda>f. case f of ClientConnect g \<Rightarrow> Some g | _ \<Rightarrow> None) fs"

lemma connects_simps [simp]:
  "connects [] = []"
  "connects (fs @ gs) = connects fs @ connects gs"
  "connects (f # fs) = (case f of ClientConnect g \<Rightarrow> [g] | _ \<Rightarrow> []) @ connects fs"
  by (simp_all add: connects_def List.map_filter_def split: manager_effect.splits)

lemma start_spec:
  assumes "startConnection uuid p m = (fs, m')"
  shows "connects fs = [configuration_of uuid p] \<and> m_pendingConnection m' = m_pendingConnection m \<and> m_timers m' = m_timers m
    \<and> m_client m' = m_client m \<and> m_connectionState m' = Connecting \<and> ClientDisconnect \<notin> set fs"
  using assms by (auto simp: startConnection_def updateState_def setLastError_def split: if_splits)

lemma call_spec:
  assumes "connectToServer uuid jd password hst prt m = (fs, m')" and p: "p = parameters_of jd password hst prt"
  shows "m_timers m' = m_timers m \<and> m_client m' = m_client m \<and>
    (if usable p \<and> m_client m \<noteq> None
     then if m_client m = Some Disconnected then connects fs = [configuration_of uuid p] \<and> m_pendingConnection m' = m_pendingConnection m
          else connects fs = [] \<and> fs = [ClientDisconnect] \<and> m_pendingConnection m' = Some p
     else connects fs = [] \<and> m_pendingConnection m' = m_pendingConnection m)"
proof (cases "usable p \<and> m_client m = Some Disconnected")
  case True
  then have "connectToServer uuid jd password hst prt m = startConnection uuid p m"
    by (auto simp: connectToServer_def p parameters_of_def usable_def Let_def)
  with assms(1) True start_spec [of uuid p m fs m'] show ?thesis by simp
next
  case False
  with assms(1) show ?thesis
    by (auto simp: connectToServer_def connection_refused_def setLastError_def p parameters_of_def usable_def Let_def
        split: if_splits option.splits)
qed

lemma timer_spec:
  assumes "timer_fired uuid m = (fs, m')"
  shows "case m_timers m of
      [] \<Rightarrow> fs = [] \<and> m' = m
    | p # ps \<Rightarrow> m_timers m' = ps \<and> m_client m' = m_client m \<and>
        (if m_client m = Some Disconnected then connects fs = [configuration_of uuid p] \<and> m_pendingConnection m' = m_pendingConnection m
         else connects fs = [] \<and> m_pendingConnection m' = Some p)"
  using assms start_spec
  by (auto simp: timer_fired_def on_timer_def split: list.splits if_splits dest!: start_spec)

lemma quiet_spec:
  "manager_initialize b m = (fs, m') \<Longrightarrow> connects fs = [] \<and> waiting m' = waiting m"
  "closeConnection m = (fs, m') \<Longrightarrow> connects fs = [] \<and> waiting m' \<subseteq> waiting m \<and> m_timers m' = m_timers m
     \<and> (m_client m \<noteq> None \<longrightarrow> m_pendingConnection m' = None)"
  "on_state_changed c m = (fs, m') \<Longrightarrow> connects fs = [] \<and> m_pendingConnection m' = m_pendingConnection m \<and> m_timers m' = m_timers m \<and> m_client m' = Some c"
  "on_connected j m = (fs, m') \<Longrightarrow> connects fs = [] \<and> m_pendingConnection m' = m_pendingConnection m \<and> m_timers m' = m_timers m \<and> m_client m' = m_client m"
  "on_disconnected m = (fs, m') \<Longrightarrow> connects fs = [] \<and> m_client m' = m_client m \<and> m_pendingConnection m' = None
     \<and> m_timers m' = m_timers m @ (case m_pendingConnection m of None \<Rightarrow> [] | Some p \<Rightarrow> [p])"
  by (auto simp: manager_initialize_def closeConnection_def on_state_changed_def on_connected_def on_disconnected_def updateState_def
      setLastError_def waiting_def Let_def split: if_splits option.splits)

lemma step_waiting:
  assumes "manager_step e m = (fs, m')"
  shows "waiting m' \<subseteq> waiting m \<union> asked_by e
    \<and> (\<forall>g \<in> set (connects fs). m_client m = Some Disconnected \<and> connects fs = [g] \<and> (\<exists>uuid. \<exists>p \<in> waiting m \<union> asked_by e. g = configuration_of uuid p))"
proof (cases e)
  case (ConnectCall uuid jd password hst prt)
  with assms call_spec [OF _ refl, of uuid jd password hst prt m fs m'] show ?thesis
    by (auto simp: waiting_def Let_def split: if_splits)
next
  case (TimerFired uuid)
  with assms timer_spec [of uuid m fs m'] show ?thesis
    by (cases "m_timers m") (auto simp: waiting_def split: if_splits)
next
  case ClientDisconnected
  with assms quiet_spec(5) [of m fs m'] show ?thesis by (auto simp: waiting_def split: option.splits)
next
  case (ClientState c)
  with assms quiet_spec(3) [of c m fs m'] show ?thesis by (auto simp: waiting_def)
next
  case (ClientConnected c)
  with assms quiet_spec(4) [of c m fs m'] show ?thesis by (auto simp: waiting_def)
next
  case (Initialize b)
  with assms quiet_spec(1) [of b m fs m'] show ?thesis by auto
next
  case CloseCall
  with assms quiet_spec(2) [of m fs m'] show ?thesis by auto
qed (use assms in \<open>auto simp: on_subscription_def xmpp_onMessageReceived_def onPresenceReceived_def split: if_splits\<close>)

lemma run_waiting:
  assumes "manager_run es m = (fs, m')" and "g \<in> set (connects fs)"
  shows "\<exists>uuid. \<exists>p \<in> waiting m \<union> (\<Union>e \<in> set es. asked_by e). g = configuration_of uuid p"
  using assms
proof (induction es arbitrary: m fs)
  case (Cons e es)
  obtain hs m1 where s: "manager_step e m = (hs, m1)" by fastforce
  obtain gs m2 where r: "manager_run es m1 = (gs, m2)" by fastforce
  from Cons.prems s r have fs: "fs = hs @ gs" "m2 = m'" by auto
  note w = step_waiting [OF s]
  show ?case
  proof (cases "g \<in> set (connects hs)")
    case True
    with w have "\<exists>uuid. \<exists>p \<in> waiting m \<union> asked_by e. g = configuration_of uuid p" by blast
    then show ?thesis by auto
  next
    case False
    with Cons.prems(2) fs have "g \<in> set (connects gs)" by simp
    from Cons.IH [OF r [unfolded fs] this] w show ?thesis by auto
  qed
qed simp



definition demo_configuration :: configuration where
  "demo_configuration = configuration_of ''1'' \<lparr>cp_jid = ''a@x'', cp_password = ''p'', cp_host = [], cp_port = 0\<rparr>"


text \<open>
  The manager never opens a second connection: a step asks the client to connect at most once, only
  while the client reports that it is disconnected, and it reports the state as connecting.
\<close>

theorem one_connection:
  assumes "manager_step e m = (fs, m')" and "ClientConnect g \<in> set fs"
  shows "m_client m = Some Disconnected \<and> connects fs = [g] \<and> ClientDisconnect \<notin> set fs \<and> m_connectionState m' = Connecting"
proof -
  have g: "g \<in> set (connects fs)" using assms(2) by (force simp: connects_def List.map_filter_def)
  have d: "m_client m = Some Disconnected" "connects fs = [g]" using step_waiting [OF assms(1)] g by blast+
  consider uuid jd password hst prt where "e = ConnectCall uuid jd password hst prt" | uuid where "e = TimerFired uuid"
    using g assms(1) quiet_spec
    by (cases e) (auto simp: on_subscription_def xmpp_onMessageReceived_def onPresenceReceived_def split: if_splits dest!: quiet_spec)
  then have "\<exists>uuid p m1. startConnection uuid p m1 = (fs, m')"
  proof cases
    case 1
    with assms g d show ?thesis
      by (auto simp: connectToServer_def connection_refused_def setLastError_def Let_def split: if_splits option.splits)
  next
    case 2
    with assms g d show ?thesis by (auto simp: timer_fired_def on_timer_def split: list.splits)
  qed
  then show ?thesis using d start_spec by blast
qed

lemma one_connection_witness:
  "m_client (new_manager\<lparr>m_client := Some Disconnected\<rparr>) = Some Disconnected
   \<and> connects (fst (manager_step (ConnectCall ''1'' ''a@x'' ''p'' [] 0) (new_manager\<lparr>m_client := Some Disconnected\<rparr>))) = [demo_configuration]
   \<and> ClientDisconnect \<notin> set (fst (manager_step (ConnectCall ''1'' ''a@x'' ''p'' [] 0) (new_manager\<lparr>m_client := Some Disconnected\<rparr>)))
   \<and> m_connectionState (snd (manager_step (ConnectCall ''1'' ''a@x'' ''p'' [] 0) (new_manager\<lparr>m_client := Some Disconnected\<rparr>))) = Connecting"
proof -
  have "list_ex (\<lambda>f. f = ClientConnect demo_configuration)
      (fst (manager_step (ConnectCall ''1'' ''a@x'' ''p'' [] 0) (new_manager\<lparr>m_client := Some Disconnected\<rparr>)))" by code_simp
  then have "ClientConnect demo_configuration \<in> set
      (fst (manager_step (ConnectCall ''1'' ''a@x'' ''p'' [] 0) (new_manager\<lparr>m_client := Some Disconnected\<rparr>)))" by (auto simp: list_ex_iff)
  then show ?thesis by (rule one_connection [OF prod.collapse [symmetric]])
qed

section \<open>Changing accounts and closing\<close>

fun is_call :: "manager_event \<Rightarrow> bool" where
  "is_call (ConnectCall _ _ _ _ _) \<longleftrightarrow> True"
| "is_call _ \<longleftrightarrow> False"

lemma calls_only_wait:
  assumes "manager_run es m = (fs, m')" and "\<forall>e \<in> set es. is_call e" and "m_client m = Some c" "c \<noteq> Disconnected"
  shows "connects fs = [] \<and> m_client m' = Some c \<and> m_timers m' = m_timers m"
  using assms
proof (induction es arbitrary: m fs)
  case (Cons e es)
  from Cons.prems(2) obtain uuid jd password hst prt where e: "e = ConnectCall uuid jd password hst prt" by (cases e) auto
  obtain hs m1 where s: "connectToServer uuid jd password hst prt m = (hs, m1)" by fastforce
  obtain gs m2 where r: "manager_run es m1 = (gs, m2)" by fastforce
  from Cons.prems s r e have fs: "fs = hs @ gs" "m2 = m'" by auto
  from call_spec [OF s refl] Cons.prems(3,4) have h: "connects hs = []" "m_client m1 = Some c" "m_timers m1 = m_timers m"
    by (auto split: if_splits)
  from Cons.IH [OF r [unfolded fs]] Cons.prems(2,4) h fs show ?case by auto
qed simp

lemma manager_run_append:
  "manager_run (es @ ds) m = (case manager_run es m of (fs, m1) \<Rightarrow> (case manager_run ds m1 of (gs, m2) \<Rightarrow> (fs @ gs, m2)))"
  by (induction es arbitrary: m) (auto split: prod.splits)

text \<open>
  The last account wins: with a connection up and any number of \<open>connectToServer\<close> calls, of which
  the last is usable, nothing is connected until the client reports that it is disconnected; then the
  zero timer opens exactly one connection, with the last parameters, and none is left waiting.
\<close>

theorem last_account_wins:
  assumes "m_client m = Some c" "c \<noteq> Disconnected" "m_timers m = []"
    and "\<forall>e \<in> set es. is_call e" "usable (parameters_of jd password hst prt)"
    and "manager_run (es @ [ConnectCall u jd password hst prt, ClientState Disconnected, ClientDisconnected, TimerFired uuid]) m = (fs, m')"
  shows "connects fs = [configuration_of uuid (parameters_of jd password hst prt)] \<and> waiting m' = {}
    \<and> (\<exists>gs. manager_run (es @ [ConnectCall u jd password hst prt]) m = gs \<and> connects (fst gs) = [])"
proof -
  let ?p = "parameters_of jd password hst prt"
  obtain f0 m0 where r0: "manager_run es m = (f0, m0)" by fastforce
  obtain f1 m1 where r1: "connectToServer u jd password hst prt m0 = (f1, m1)" by fastforce
  obtain f2 m2 where r2: "on_state_changed Disconnected m1 = (f2, m2)" by fastforce
  obtain f3 m3 where r3: "on_disconnected m2 = (f3, m3)" by fastforce
  obtain f4 m4 where r4: "timer_fired uuid m3 = (f4, m4)" by fastforce
  have fs: "fs = f0 @ f1 @ f2 @ f3 @ f4" "m4 = m'" using assms(6) r0 r1 r2 r3 r4 by (auto simp: manager_run_append)
  have a: "connects f0 = []" "m_client m0 = Some c" "m_timers m0 = []" using calls_only_wait [OF r0 assms(4,1,2)] assms(3) by auto
  have b: "connects f1 = []" "m_pendingConnection m1 = Some ?p" "m_timers m1 = []"
    using call_spec [OF r1 refl] a assms(2,5) by auto
  have d: "connects f2 = []" "m_pendingConnection m2 = Some ?p" "m_timers m2 = []" "m_client m2 = Some Disconnected"
    using quiet_spec(3) [OF r2] b by auto
  have e: "connects f3 = []" "m_pendingConnection m3 = None" "m_timers m3 = [?p]" "m_client m3 = Some Disconnected"
    using quiet_spec(5) [OF r3] d by auto
  have "connects f4 = [configuration_of uuid ?p]" "m_pendingConnection m4 = None" "m_timers m4 = []"
    using timer_spec [OF r4] e by auto
  with fs a b d e r0 r1 show ?thesis by (simp add: waiting_def manager_run_append)
qed

definition online_manager :: xmpp_manager where
  "online_manager = new_manager\<lparr>m_client := Some Connected, m_connectionState := Connected\<rparr>"

lemma last_account_wins_witness:
  "\<exists>fs m'. connects fs = [configuration_of ''9'' (parameters_of ''c@x'' ''r'' [] 5222)] \<and> waiting m' = {}
    \<and> manager_run ([ConnectCall ''1'' ''b@x'' ''q'' [] 0] @ [ConnectCall ''2'' ''c@x'' ''r'' [] 5222, ClientState Disconnected,
        ClientDisconnected, TimerFired ''9'']) online_manager = (fs, m')"
proof -
  obtain fs m' where r: "manager_run ([ConnectCall ''1'' ''b@x'' ''q'' [] 0] @ [ConnectCall ''2'' ''c@x'' ''r'' [] 5222,
      ClientState Disconnected, ClientDisconnected, TimerFired ''9'']) online_manager = (fs, m')" by fastforce
  have o: "m_client online_manager = Some Connected" "m_timers online_manager = []" by (simp_all add: online_manager_def new_manager_def)
  have u: "usable (parameters_of ''c@x'' ''r'' [] 5222)" by code_simp
  have "\<forall>e \<in> set [ConnectCall ''1'' ''b@x'' ''q'' [] 0]. is_call e" by simp
  from last_account_wins [OF o(1) _ o(2) this u r] r show ?thesis by blast
qed

lemma close_stays_closed_facts:
  assumes "manager_run (CloseCall # es) m = (fs, m')" and "m_client m \<noteq> None" and "\<not> list_ex is_call es"
  shows "(\<forall>g \<in> set (connects fs). \<exists>uuid. \<exists>p \<in> set (m_timers m). g = configuration_of uuid p)
    \<and> (m_timers m = [] \<longrightarrow> connects fs = [])"
proof -
  obtain hs m1 where s: "closeConnection m = (hs, m1)" by fastforce
  obtain gs m2 where r: "manager_run es m1 = (gs, m2)" by fastforce
  from assms(1) s r have fs: "fs = hs @ gs" "m2 = m'" by auto
  have h: "connects hs = []" "waiting m1 = set (m_timers m)" using quiet_spec(2) [OF s] assms(2) by (auto simp: waiting_def)
  have none: "asked_by e = {}" if "e \<in> set es" for e using assms(3) that by (cases e) (auto simp: list_ex_iff)
  have each: "\<exists>uuid. \<exists>p \<in> set (m_timers m). g = configuration_of uuid p" if "g \<in> set (connects fs)" for g
  proof -
    have "g \<in> set (connects gs)" using that fs h by simp
    from run_waiting [OF r [unfolded fs] this] none h show ?thesis by auto
  qed
  then have "m_timers m = [] \<Longrightarrow> set (connects fs) = {}" by fastforce
  with each show ?thesis by blast
qed

text \<open>
  After \<open>closeConnection\<close> the only connections that can be opened without a new call are the
  reconnects whose timers were already running; with none running the manager stays offline.
\<close>

theorem close_stays_closed:
  assumes "manager_run (CloseCall # es) m = (fs, m')" and "m_client m \<noteq> None" and "\<not> list_ex is_call es"
  shows "(\<forall>g \<in> set (connects fs). \<exists>uuid. \<exists>p \<in> set (m_timers m). g = configuration_of uuid p)
    \<and> (m_timers m = [] \<longrightarrow> connects fs = [])"
  by (rule close_stays_closed_facts [OF assms])

lemma close_stays_closed_witness:
  "connects (fst (manager_run (CloseCall # [ClientState Disconnected, ClientDisconnected, TimerFired ''1'']) online_manager)) = []"
proof -
  have "m_client online_manager \<noteq> None" "m_timers online_manager = []" by (simp_all add: online_manager_def new_manager_def)
  with close_stays_closed [OF prod.collapse [symmetric], of online_manager "[ClientState Disconnected, ClientDisconnected, TimerFired ''1'']"]
  show ?thesis by simp
qed

text \<open>
  A reconnect whose timer is running is not stopped by \<open>closeConnection\<close>, and a newer account that is
  already connecting leaves its parameters waiting: the next loss of the connection signs the old
  account in again.
\<close>

definition signed_in :: xmpp_manager where
  "signed_in = snd (manager_run [Initialize True, ConnectCall ''1'' ''a@x'' ''p'' [] 0, ClientState Connecting, ClientState Connected,
     ClientConnected ''a@x''] new_manager)"

lemma closed_connection_reopens:
  "map conf_jid (connects (fst (manager_run [ConnectCall ''2'' ''b@x'' ''q'' [] 0, ClientState Disconnected, ClientDisconnected,
     CloseCall, TimerFired ''3''] signed_in))) = [''b@x'']"
  by code_simp

lemma stale_account_returns:
  "map conf_jid (connects (fst (manager_run [ConnectCall ''2'' ''b@x'' ''q'' [] 0, ClientState Disconnected, ClientDisconnected,
     ConnectCall ''3'' ''c@x'' ''r'' [] 0, ClientState Connecting, TimerFired ''4'', ClientState Connected, ClientConnected ''c@x'',
     ClientState Disconnected, ClientDisconnected, TimerFired ''5''] signed_in))) = [''c@x'', ''b@x'']"
  by code_simp

section \<open>Signing out\<close>

text \<open>What the session asks of the manager.\<close>

fun manager_call :: "string \<Rightarrow> auth_effect \<Rightarrow> manager_event list" where
  "manager_call uuid (ConnectToServer jd password hst prt) = [ConnectCall uuid jd password hst prt]"
| "manager_call uuid CloseConnection = [CloseCall]"
| "manager_call uuid _ = []"

definition manager_calls :: "string \<Rightarrow> auth_effect list \<Rightarrow> manager_event list" where
  "manager_calls uuid es = concat (map (manager_call uuid) es)"

text \<open>
  Signing out ends the XMPP session for good: the calls of a successful sign-out leave the manager with
  nothing waiting, it asks the client to go offline and disconnect when it is not, and without another
  sign-in no connection is opened afterwards.
\<close>

theorem logout_disconnects:
  assumes "session_logout L env s = (True, es, s')" "has_xmpp s" and "m_client m = Some c" "m_timers m = []"
    and "\<not> list_ex is_call later" and "manager_run (manager_calls uuid es @ later) m = (fs, m')"
  shows "connects fs = [] \<and> m_user s' = None
    \<and> (c \<noteq> Disconnected \<longrightarrow> (\<exists>gs. fs = [ClientOffline, ClientDisconnect] @ gs))"
proof -
  have es: "es = [CloseStores, CloseConnection, RepoSessionChanged False]" "m_user s' = None"
    using assms(1,2) by (auto simp: session_logout_def split: prod.splits if_splits)
  have run: "manager_run (CloseCall # later) m = (fs, m')" using assms(6) es by (simp add: manager_calls_def)
  have "c \<noteq> Disconnected \<Longrightarrow> \<exists>gs. fs = [ClientOffline, ClientDisconnect] @ gs"
    using run assms(3) by (auto simp: closeConnection_def Let_def split: prod.splits)
  with close_stays_closed_facts [OF run] assms(3,4,5) es show ?thesis by auto
qed

lemma logout_disconnects_witness:
  "\<exists>es s' fs m'. session_logout sample_lib sample_env sample_session = (True, es, s')
    \<and> manager_run (manager_calls ''1'' es @ [ClientState Disconnected, ClientDisconnected]) online_manager = (fs, m') \<and> connects fs = []"
proof -
  obtain ds where l: "store_logout sample_lib sample_env (auth_dir sample_session) = (True, ds)"
    by (simp add: store_logout_def auth_clear_def answer_def bind_def reads_def modify_def ret_def writeActiveName_def
        readActiveName_def sample_paths sample_env_def sample_session_def)
  then obtain es s' where e: "session_logout sample_lib sample_env sample_session = (True, es, s')"
    by (simp add: session_logout_def)
  obtain fs m' where r: "manager_run (manager_calls ''1'' es @ [ClientState Disconnected, ClientDisconnected]) online_manager = (fs, m')"
    by fastforce
  have o: "m_client online_manager = Some Connected" "m_timers online_manager = []" by (simp_all add: online_manager_def new_manager_def)
  have x: "has_xmpp sample_session" by (simp add: sample_session_def)
  have n: "\<not> list_ex is_call [ClientState Disconnected, ClientDisconnected]" by simp
  from logout_disconnects [OF e x o n r] e r show ?thesis by blast
qed

section \<open>Messages\<close>

text \<open>
  A text is handed to the client exactly when it is connected and the receiver and the text are not
  empty; it then goes to the receiver's address in the domain of the signed-in user, without the white
  space at its ends, and comes out of the other side's manager exactly when something is left of it.
\<close>

theorem text_delivery:
  "case manager_sendMessage (user @ CHR 0x40 # domain @ CHR ''/'' # resource) receiver typed i m of
     Inl e \<Rightarrow> \<not> isConnected_client m \<or> receiver = [] \<or> typed = []
   | Inr x \<Rightarrow> isConnected_client m \<and> receiver \<noteq> [] \<and> stanza_id x = i
       \<and> (CHR 0x40 \<notin> set user \<and> CHR ''/'' \<notin> set domain \<longrightarrow> stanza_to x = receiver @ CHR 0x40 # domain)
       \<and> (\<forall>m2. fst (xmpp_onMessageReceived \<lparr>msg_from = f, msg_to = stanza_to x, msg_kind = stanza_kind x, msg_body = stanza_body x\<rparr> m2)
             = (if blank typed then [] else [MessageReceived \<lparr>msg_from = f, msg_to = stanza_to x, msg_kind = stanza_kind x, msg_body = trim_text typed\<rparr>]))"
proof -
  have "CHR 0x40 \<notin> set user \<Longrightarrow> CHR ''/'' \<notin> set domain \<Longrightarrow>
      first_section CHR ''/'' (drop 1 (dropWhile (\<lambda>c. c \<noteq> CHR 0x40) (user @ CHR 0x40 # domain @ CHR ''/'' # resource))) = domain"
    by (auto simp: first_section_def dropWhile_append takeWhile_append)
  then show ?thesis
    by (auto simp: manager_sendMessage_def xmpp_onMessageReceived_def blank_trim Let_def)
qed


lemma text_delivery_witness:
  "stanza_to (projr (manager_sendMessage (''a'' @ CHR 0x40 # ''x'' @ CHR ''/'' # ''r'') ''b'' '' hi '' ''1'' online_manager)) = ''b'' @ CHR 0x40 # ''x''"
  using text_delivery [where user = "''a''" and domain = "''x''" and resource = "''r''" and receiver = "''b''" and typed = "'' hi ''" and i = "''1''"
      and m = online_manager]
  by (cases "manager_sendMessage (''a'' @ CHR 0x40 # ''x'' @ CHR ''/'' # ''r'') ''b'' '' hi '' ''1'' online_manager")
    (auto simp: manager_sendMessage_def isConnected_client_def online_manager_def)

end
