(* ===== verification/File_Upload.thy ===== *)
theory File_Upload
  imports Xmpp_Manager
begin

text \<open>
  Uploads over XMPP (\<open>XmppManager::fileUpload\<close>, \<open>XmppManager::fileUploads\<close> in
  core/xmpp/xmpp_manager.cpp, \<open>FileUploadOperation\<close> and \<open>watchFileUploads\<close> in
  core/xmpp/file_upload_operation.cpp). The file system, the upload service and the network are
  parameters and events. Everything runs on the manager's thread; a future is cancelled from any thread,
  which sets its flag at once, and the watcher on the manager's thread sees it later.
\<close>

section \<open>The operation\<close>

record uploaded_file =
  uf_url :: string
  uf_error :: string

datatype upload_effect =
    RequestSlot string nat string string
  | PutFile string string "(string \<times> string) list"
  | UploadProgress string rat
  | AbortTransport
  | DeleteOperation

text \<open>\<open>op_reply\<close>: the download URL the running or finished transfer was started with.\<close>

record upload_op =
  op_done :: bool
  op_canceled :: bool
  op_results :: "uploaded_file list"
  op_finishes :: nat
  op_reply :: "(string \<times> bool) option"
  op_open :: bool
  op_size :: nat

definition new_promise :: "bool \<Rightarrow> upload_op" where
  "new_promise canceled = \<lparr>op_done = False, op_canceled = canceled, op_results = [], op_finishes = 0, op_reply = None,
     op_open = False, op_size = 0\<rparr>"

definition isStopped :: "upload_op \<Rightarrow> bool" where
  "isStopped u \<longleftrightarrow> op_done u \<or> op_canceled u"

text \<open>The abort emits \<open>finished\<close> at once; its slot finds \<open>m_done\<close> set and returns.\<close>

definition stopTransport :: "upload_op \<Rightarrow> upload_effect list \<times> upload_op" where
  "stopTransport u =
     ((case op_reply u of Some (_, True) \<Rightarrow> [AbortTransport] | _ \<Rightarrow> []),
      u\<lparr>op_reply := map_option (\<lambda>(d, _). (d, False)) (op_reply u), op_open := False\<rparr>)"

definition op_cancel :: "upload_op \<Rightarrow> upload_effect list \<times> upload_op" where
  "op_cancel u =
     (if op_done u then ([], u)
      else case stopTransport (u\<lparr>op_done := True\<rparr>) of
             (es, u1) \<Rightarrow> (es @ [DeleteOperation], u1\<lparr>op_finishes := op_finishes u1 + 1\<rparr>))"

definition op_finish :: "uploaded_file \<Rightarrow> upload_op \<Rightarrow> upload_effect list \<times> upload_op" where
  "op_finish r u =
     (if op_done u then ([], u)
      else case stopTransport (u\<lparr>op_done := True\<rparr>) of
             (es, u1) \<Rightarrow>
               (let u2 = (if op_canceled u1 then u1 else u1\<lparr>op_results := op_results u1 @ [r]\<rparr>)
                in (es @ [DeleteOperation], u2\<lparr>op_finishes := op_finishes u2 + 1\<rparr>)))"

definition op_failed :: "string \<Rightarrow> uploaded_file" where
  "op_failed e = \<lparr>uf_url = [], uf_error = e\<rparr>"

definition op_destroy :: "upload_op \<Rightarrow> upload_effect list \<times> upload_op" where
  "op_destroy u =
     (if op_done u then ([], u)
      else case stopTransport (u\<lparr>op_done := True, op_canceled := True\<rparr>) of
             (es, u1) \<Rightarrow> (es, u1\<lparr>op_finishes := op_finishes u1 + 1\<rparr>))"

text \<open>The constructor; \<open>offline\<close> is what the network information says, if there is any.\<close>

definition new_operation :: "bool \<Rightarrow> upload_op \<Rightarrow> upload_effect list \<times> upload_op" where
  "new_operation offline u =
     (if offline then op_finish (op_failed ''No network connection. Reconnect and retry.'') u else ([], u))"

definition op_openFile :: "string option \<Rightarrow> nat \<Rightarrow> upload_op \<Rightarrow> bool \<times> upload_effect list \<times> upload_op" where
  "op_openFile failure n u =
     (if isStopped u then (False, [], u)
      else case failure of
             Some e \<Rightarrow> (case op_finish (op_failed e) u of (es, u1) \<Rightarrow> (False, es, u1))
           | None \<Rightarrow> (True, [], u\<lparr>op_open := True, op_size := n\<rparr>))"

definition openData :: "string \<Rightarrow> upload_op \<Rightarrow> bool \<times> upload_effect list \<times> upload_op" where
  "openData bs u =
     (if isStopped u then (False, [], u)
      else if bs = [] then (case op_finish (op_failed ''Cached upload is missing or unreadable.'') u of (es, u1) \<Rightarrow> (False, es, u1))
      else (True, [], u\<lparr>op_open := True, op_size := length bs\<rparr>))"

definition upload_progress_of :: "string \<Rightarrow> int \<Rightarrow> int \<Rightarrow> upload_effect list" where
  "upload_progress_of i sent total_bytes = (if total_bytes \<le> 0 then [] else [UploadProgress i (of_int sent / of_int total_bytes)])"

text \<open>\<open>reentered\<close>: a slot on the first progress signal cancels the future.\<close>

definition op_put :: "string \<Rightarrow> string \<Rightarrow> string \<Rightarrow> (string \<times> string) list \<Rightarrow> string \<Rightarrow> bool \<Rightarrow> upload_op \<Rightarrow> upload_effect list \<times> upload_op" where
  "op_put i put_url mime extra download_url reentered u =
     (if isStopped u then ([], u)
      else
        (let es = upload_progress_of i 0 (int (op_size u)); u1 = (if reentered then u\<lparr>op_canceled := True\<rparr> else u)
         in if isStopped u1 then (es, u1)
            else (es @ [PutFile put_url mime extra], u1\<lparr>op_reply := Some (download_url, True)\<rparr>)))"

definition reply_progress :: "string \<Rightarrow> int \<Rightarrow> int \<Rightarrow> upload_op \<Rightarrow> upload_effect list \<times> upload_op" where
  "reply_progress i sent total_bytes u = ((if isStopped u then [] else upload_progress_of i sent total_bytes), u)"

definition reply_finished :: "(int \<Rightarrow> string) \<Rightarrow> string option \<Rightarrow> int \<Rightarrow> upload_op \<Rightarrow> upload_effect list \<times> upload_op" where
  "reply_finished num failure code u =
     (if isStopped u then ([], u)
      else case op_reply u of
             None \<Rightarrow> ([], u)
           | Some (download_url, _) \<Rightarrow>
               (let u1 = u\<lparr>op_reply := Some (download_url, False)\<rparr>
                in case failure of
                     Some e \<Rightarrow> op_finish (op_failed e) u1
                   | None \<Rightarrow>
                       if code < 200 \<or> 300 \<le> code then op_finish (op_failed (''File upload failed (HTTP '' @ num code @ '').'')) u1
                       else op_finish \<lparr>uf_url = download_url, uf_error = []\<rparr> u1))"

section \<open>\<open>fileUpload\<close>\<close>

record url_parts =
  url_text :: string
  url_valid :: bool
  url_scheme :: string
  url_host :: string
  url_user_info :: string

definition allow_url :: "(string \<Rightarrow> bool) \<Rightarrow> url_parts \<Rightarrow> bool" where
  "allow_url loopback x =
     (if \<not> url_valid x \<or> url_host x = [] \<or> url_user_info x \<noteq> [] then False
      else if url_scheme x = ''https'' then True
      else url_scheme x = ''http'' \<and> (toLower (url_host x) = ''localhost'' \<or> loopback (url_host x)))"

record upload_slot =
  slot_put :: url_parts
  slot_get :: url_parts
  slot_headers :: "(string \<times> string) list"

datatype slot_support = Supported | UnknownSupport | Unsupported

record upload_env =
  ue_http :: bool
  ue_local :: bool
  ue_file :: bool
  ue_size :: nat
  ue_support :: slot_support
  ue_request :: bool
  ue_services :: "string list"
  ue_offline :: bool
  ue_cached :: bool
  ue_data :: string
  ue_open_error :: "string option"
  ue_mime :: string
  ue_name :: string
  ue_base_name :: string

definition upload_reject :: "string \<Rightarrow> upload_op \<Rightarrow> upload_effect list \<times> upload_op" where
  "upload_reject e u = ([], u\<lparr>op_done := True, op_results := op_results u @ [op_failed e], op_finishes := op_finishes u + 1\<rparr>)"

text \<open>Why an upload is refused, if it is.\<close>

definition upload_refusal :: "upload_env \<Rightarrow> xmpp_manager \<Rightarrow> string option" where
  "upload_refusal E m =
     (if \<not> isConnected_client m \<or> \<not> ue_http E then Some ''Connect to XMPP before uploading a file.''
      else if \<not> ue_local E \<or> \<not> ue_file E \<or> ue_size E = 0 then Some ''File missing or empty''
      else if ue_support E = UnknownSupport then Some ''Upload service discovery is still running. Please retry.''
      else if ue_support E \<noteq> Supported then Some ''Enable the HTTP File upload plugin''
      else if \<not> ue_request E \<or> ue_services E = [] then Some ''File upload service is not available''
      else None)"

text \<open>The call up to the request for a slot; \<open>canceled\<close> is the flag of the future when the call runs.\<close>

definition fileUpload :: "upload_env \<Rightarrow> bool \<Rightarrow> xmpp_manager \<Rightarrow> upload_effect list \<times> upload_op" where
  "fileUpload E canceled m =
     (let u = new_promise canceled
      in if canceled then ([], u\<lparr>op_done := True, op_finishes := 1\<rparr>)
         else case upload_refusal E m of
                Some e \<Rightarrow> upload_reject e u
              | None \<Rightarrow>
                  (case new_operation (ue_offline E) u of
                     (es, u1) \<Rightarrow>
                       (case (if ue_cached E then openData (ue_data E) u1 else op_openFile (ue_open_error E) (ue_size E) u1) of
                          (ok, fs, u2) \<Rightarrow>
                            if \<not> ok then (es @ fs, u2)
                            else (es @ fs @ [RequestSlot (if ue_cached E then ue_base_name E @ ''.jpg'' else ue_name E) (op_size u2) (ue_mime E)
                                               (hd (ue_services E))], u2))))"

definition slot_answered :: "(string \<Rightarrow> bool) \<Rightarrow> string \<Rightarrow> string \<Rightarrow> string + upload_slot \<Rightarrow> bool \<Rightarrow> upload_op \<Rightarrow> upload_effect list \<times> upload_op" where
  "slot_answered loopback i mime answered reentered u =
     (if isStopped u then ([], u)
      else case answered of
             Inl e \<Rightarrow> op_finish (op_failed e) u
           | Inr s \<Rightarrow>
               if \<not> allow_url loopback (slot_put s) \<or> \<not> allow_url loopback (slot_get s)
               then op_finish (op_failed ''Upload URLs must use HTTPS or HTTP on localhost.'') u
               else op_put i (url_text (slot_put s)) mime (slot_headers s) (url_text (slot_get s)) reentered u)"

section \<open>Runs of an upload\<close>

text \<open>\<open>UploadCanceled\<close> is the cancelled flag of the future, \<open>CancelSeen\<close> the signal of the watcher on it.\<close>

datatype upload_event =
    UploadCanceled
  | CancelSeen
  | NetworkLost
  | UploadTimedOut
  | ClientGone
  | SlotAnswered "string + upload_slot" bool
  | ReplyProgress int int
  | ReplyFinished "string option" int
  | OperationDestroyed

record upload_lib =
  is_loopback :: "string \<Rightarrow> bool"
  number_text :: "int \<Rightarrow> string"

fun upload_step :: "upload_lib \<Rightarrow> string \<Rightarrow> string \<Rightarrow> upload_event \<Rightarrow> upload_op \<Rightarrow> upload_effect list \<times> upload_op" where
  "upload_step L i mime UploadCanceled u = ([], u\<lparr>op_canceled := True\<rparr>)"
| "upload_step L i mime CancelSeen u = (if op_canceled u then op_cancel u else ([], u))"
| "upload_step L i mime NetworkLost u = op_finish (op_failed ''Connection lost during upload. Reconnect and retry.'') u"
| "upload_step L i mime UploadTimedOut u = op_finish (op_failed ''File upload timed out. Please retry.'') u"
| "upload_step L i mime ClientGone u = op_finish (op_failed ''Disconnected during file upload. Reconnect and retry.'') u"
| "upload_step L i mime (SlotAnswered a reentered) u = slot_answered (is_loopback L) i mime a reentered u"
| "upload_step L i mime (ReplyProgress sent n) u = (if op_reply u = None then ([], u) else reply_progress i sent n u)"
| "upload_step L i mime (ReplyFinished failure code) u = reply_finished (number_text L) failure code u"
| "upload_step L i mime OperationDestroyed u = op_destroy u"

fun upload_run :: "upload_lib \<Rightarrow> string \<Rightarrow> string \<Rightarrow> upload_event list \<Rightarrow> upload_op \<Rightarrow> upload_effect list \<times> upload_op" where
  "upload_run L i mime [] u = ([], u)"
| "upload_run L i mime (e # es) u =
     (case upload_step L i mime e u of (fs, u1) \<Rightarrow> (case upload_run L i mime es u1 of (gs, u2) \<Rightarrow> (fs @ gs, u2)))"

section \<open>\<open>watchFileUploads\<close>\<close>

text \<open>
  The batch: the flag of its future, what was added to it, which children have finished, the results in the
  order of the files and the count of the missing ones.
\<close>

record upload_batch =
  ub_canceled :: bool
  ub_added :: "uploaded_file list list"
  ub_finishes :: nat
  ub_seen :: "bool list"
  ub_results :: "uploaded_file list"
  ub_remaining :: nat

datatype batch_effect = CancelChild nat | DeleteBatch

definition cancelChildren :: "upload_batch \<Rightarrow> batch_effect list" where
  "cancelChildren b = map CancelChild (filter (\<lambda>i. \<not> ub_seen b ! i) [0..<length (ub_seen b)])"

definition watchFileUploads :: "nat \<Rightarrow> bool \<Rightarrow> batch_effect list \<times> upload_batch" where
  "watchFileUploads n canceled =
     (let b = \<lparr>ub_canceled = canceled, ub_added = [], ub_finishes = 0, ub_seen = replicate n False,
                ub_results = replicate n (op_failed []), ub_remaining = n\<rparr>;
          es = (if canceled then cancelChildren b else [])
      in if n = 0 then (es @ [DeleteBatch], b\<lparr>ub_added := (if canceled then [] else [[]]), ub_finishes := 1\<rparr>) else (es, b))"

text \<open>A child's future finishes once; \<open>None\<close> is a cancelled one.\<close>

definition child_finished :: "nat \<Rightarrow> uploaded_file option \<Rightarrow> upload_batch \<Rightarrow> batch_effect list \<times> upload_batch" where
  "child_finished i r b =
     (if length (ub_seen b) \<le> i \<or> ub_seen b ! i then ([], b)
      else
        (let x = (case r of None \<Rightarrow> op_failed ''File upload canceled.'' | Some f \<Rightarrow> f);
             b1 = b\<lparr>ub_seen := (ub_seen b)[i := True], ub_results := (ub_results b)[i := x], ub_remaining := ub_remaining b - 1\<rparr>
         in if ub_remaining b1 = 0
            then ([DeleteBatch], b1\<lparr>ub_added := ub_added b1 @ (if ub_canceled b1 then [] else [ub_results b1]), ub_finishes := ub_finishes b1 + 1\<rparr>)
            else ([], b1)))"

definition batch_destroyed :: "upload_batch \<Rightarrow> batch_effect list \<times> upload_batch" where
  "batch_destroyed b =
     (if ub_finishes b = 0
      then (cancelChildren b, b\<lparr>ub_canceled := True, ub_finishes := 1\<rparr>) else ([], b))"

datatype batch_event = ChildFinished nat "uploaded_file option" | BatchCanceled | BatchCancelSeen | BatchDestroyed

fun batch_step :: "batch_event \<Rightarrow> upload_batch \<Rightarrow> batch_effect list \<times> upload_batch" where
  "batch_step (ChildFinished i r) b = child_finished i r b"
| "batch_step BatchCanceled b = ([], b\<lparr>ub_canceled := True\<rparr>)"
| "batch_step BatchCancelSeen b = ((if ub_canceled b then cancelChildren b else []), b)"
| "batch_step BatchDestroyed b = batch_destroyed b"

fun batch_run :: "batch_event list \<Rightarrow> upload_batch \<Rightarrow> batch_effect list \<times> upload_batch" where
  "batch_run [] b = ([], b)"
| "batch_run (e # es) b = (case batch_step e b of (fs, b1) \<Rightarrow> (case batch_run es b1 of (gs, b2) \<Rightarrow> (fs @ gs, b2)))"

text \<open>\<open>fileUploads\<close>: \<open>canceled k\<close> is the flag when it is looked at for the \<open>k\<close>-th time.\<close>

definition fileUploads_started :: "(nat \<Rightarrow> bool) \<Rightarrow> nat \<Rightarrow> nat" where
  "fileUploads_started canceled n = length (takeWhile (\<lambda>k. \<not> canceled (k + 1)) [0..<n])"

definition manager_fileUploads :: "(nat \<Rightarrow> bool) \<Rightarrow> nat \<Rightarrow> batch_effect list \<times> upload_batch" where
  "manager_fileUploads canceled n =
     (if canceled 0
      then ([], \<lparr>ub_canceled = True, ub_added = [], ub_finishes = 1, ub_seen = [], ub_results = [], ub_remaining = 0\<rparr>)
      else watchFileUploads (fileUploads_started canceled n) (canceled (n + 1)))"

section \<open>An upload settles once\<close>

definition upload_ok :: "upload_op \<Rightarrow> bool" where
  "upload_ok u \<longleftrightarrow>
     (if op_done u
      then op_finishes u = 1 \<and> length (op_results u) \<le> 1 \<and> (op_results u = [] \<longrightarrow> op_canceled u)
        \<and> \<not> op_open u \<and> (\<forall>d. op_reply u \<noteq> Some (d, True))
      else op_finishes u = 0 \<and> op_results u = [])"

lemma stop_spec:
  assumes "stopTransport u = (es, v)"
  shows "op_done v = op_done u \<and> op_canceled v = op_canceled u \<and> op_results v = op_results u \<and> op_finishes v = op_finishes u
    \<and> \<not> op_open v \<and> (\<forall>d. op_reply v \<noteq> Some (d, True)) \<and> set es \<subseteq> {AbortTransport}"
  using assms by (auto simp: stopTransport_def split: option.splits prod.splits bool.splits)

lemma finish_spec:
  assumes "op_finish r u = (es, v)"
  shows "set es \<subseteq> {AbortTransport, DeleteOperation} \<and> (op_done u \<longrightarrow> v = u)
    \<and> (\<not> op_done u \<longrightarrow> op_done v \<and> op_finishes v = op_finishes u + 1 \<and> op_canceled v = op_canceled u \<and> \<not> op_open v
        \<and> (\<forall>d. op_reply v \<noteq> Some (d, True)) \<and> op_results v = op_results u @ (if op_canceled u then [] else [r]))"
  using assms by (auto simp: op_finish_def Let_def split: if_splits prod.splits dest!: stop_spec)

lemma cancel_spec:
  assumes "op_cancel u = (es, v)"
  shows "set es \<subseteq> {AbortTransport, DeleteOperation} \<and> (op_done u \<longrightarrow> v = u)
    \<and> (\<not> op_done u \<longrightarrow> op_done v \<and> op_finishes v = op_finishes u + 1 \<and> op_canceled v = op_canceled u \<and> \<not> op_open v
        \<and> (\<forall>d. op_reply v \<noteq> Some (d, True)) \<and> op_results v = op_results u)"
  using assms by (auto simp: op_cancel_def split: if_splits prod.splits dest!: stop_spec)

lemma destroy_spec:
  assumes "op_destroy u = (es, v)"
  shows "set es \<subseteq> {AbortTransport} \<and> (op_done u \<longrightarrow> v = u)
    \<and> (\<not> op_done u \<longrightarrow> op_done v \<and> op_finishes v = op_finishes u + 1 \<and> op_canceled v \<and> \<not> op_open v
        \<and> (\<forall>d. op_reply v \<noteq> Some (d, True)) \<and> op_results v = op_results u)"
  using assms by (auto simp: op_destroy_def split: if_splits prod.splits dest!: stop_spec)

lemma finish_ok: "op_finish r u = (es, v) \<Longrightarrow> upload_ok u \<Longrightarrow> upload_ok v \<and> op_done v"
  using finish_spec [of r u es v] by (cases "op_done u") (auto simp: upload_ok_def split: if_splits)

lemma op_cancel_ok: "op_cancel u = (es, v) \<Longrightarrow> op_canceled u \<Longrightarrow> upload_ok u \<Longrightarrow> upload_ok v \<and> op_done v"
  using cancel_spec [of u es v] by (cases "op_done u") (auto simp: upload_ok_def split: if_splits)

lemma destroy_ok: "op_destroy u = (es, v) \<Longrightarrow> upload_ok u \<Longrightarrow> upload_ok v \<and> op_done v"
  using destroy_spec [of u es v] by (cases "op_done u") (auto simp: upload_ok_def split: if_splits)

lemma put_ok: "op_put i p mime hs d r u = (es, v) \<Longrightarrow> upload_ok u \<Longrightarrow> upload_ok v"
  by (auto simp: op_put_def isStopped_def upload_ok_def Let_def split: if_splits)

lemma reply_ok: "reply_finished num f c u = (es, v) \<Longrightarrow> upload_ok u \<Longrightarrow> upload_ok v"
  by (auto simp: reply_finished_def isStopped_def Let_def upload_ok_def split: if_splits option.splits dest!: finish_spec)

lemma step_ok:
  assumes "upload_step L i mime e u = (es, v)" and "upload_ok u"
  shows "upload_ok v"
proof (cases e)
  case (SlotAnswered a r)
  with assms show ?thesis
    by (auto simp: slot_answered_def split: if_splits sum.splits dest: finish_ok put_ok)
next
  case UploadCanceled
  with assms show ?thesis by (auto simp: upload_ok_def split: if_splits)
qed (use assms in \<open>auto simp: reply_progress_def split: if_splits dest: finish_ok op_cancel_ok destroy_ok reply_ok\<close>)

text \<open>A settled upload only has its flag left to change, and does nothing.\<close>

lemma step_done:
  assumes "upload_step L i mime e u = (es, v)" and "op_done u"
  shows "es = [] \<and> op_done v \<and> op_results v = op_results u \<and> op_finishes v = op_finishes u"
  using assms
  by (cases e) (auto simp: op_finish_def op_cancel_def op_destroy_def slot_answered_def reply_progress_def reply_finished_def isStopped_def split: if_splits)

lemma run_ok: "upload_run L i mime es u = (fs, v) \<Longrightarrow> upload_ok u \<Longrightarrow> upload_ok v"
proof (induction es arbitrary: u fs)
  case (Cons e es)
  then show ?case by (auto split: prod.splits dest: step_ok)
qed simp

lemma run_done: "upload_run L i mime es u = (fs, v) \<Longrightarrow> op_done u
    \<Longrightarrow> fs = [] \<and> op_done v \<and> op_results v = op_results u \<and> op_finishes v = op_finishes u"
proof (induction es arbitrary: u fs)
  case (Cons e es)
  obtain gs w where s: "upload_step L i mime e u = (gs, w)" by fastforce
  obtain hs x where r: "upload_run L i mime es w = (hs, x)" by fastforce
  from Cons.prems(1) s r have "fs = gs @ hs" "x = v" by auto
  with Cons.IH [of w hs] r step_done [OF s Cons.prems(2)] show ?case by auto
qed simp

lemma new_operation_ok: "new_operation b u = (es, v) \<Longrightarrow> upload_ok u \<Longrightarrow> upload_ok v \<and> set es \<subseteq> {AbortTransport, DeleteOperation}"
  by (auto simp: new_operation_def split: if_splits dest: finish_ok finish_spec)

lemma open_ok:
  "op_openFile f n u = (ok, es, v) \<Longrightarrow> upload_ok u \<Longrightarrow> upload_ok v \<and> set es \<subseteq> {AbortTransport, DeleteOperation}"
  "openData bs u = (ok, es, v) \<Longrightarrow> upload_ok u \<Longrightarrow> upload_ok v \<and> set es \<subseteq> {AbortTransport, DeleteOperation}"
  by (auto simp: op_openFile_def openData_def isStopped_def split: if_splits option.splits prod.splits dest: finish_ok finish_spec)
    (auto simp: upload_ok_def)

lemma fileUpload_ok:
  assumes "fileUpload E canceled m = (es, u)"
  shows "upload_ok u"
proof -
  have n: "upload_ok (new_promise canceled)" by (simp add: upload_ok_def new_promise_def)
  show ?thesis
    using assms n open_ok new_operation_ok [of "ue_offline E" "new_promise canceled"]
    by (auto simp: fileUpload_def Let_def upload_reject_def split: if_splits option.splits prod.splits)
      (auto simp: upload_ok_def new_promise_def)
qed

text \<open>
  C14: Every upload is settled at most once: whatever happens and in whatever order, its future is finished
  exactly when the operation is done, with one result unless it was cancelled, and then the file is
  closed, no transfer runs, and nothing that comes later has an effect.
\<close>

theorem upload_settles_once:
  assumes "fileUpload E canceled m = (es0, u0)" and "upload_run L i mime es u0 = (fs, u)"
  shows "op_finishes u = (if op_done u then 1 else 0) \<and> length (op_results u) \<le> 1
    \<and> (op_done u \<longrightarrow> (op_results u = [] \<longrightarrow> op_canceled u) \<and> \<not> op_open u \<and> (\<forall>d. op_reply u \<noteq> Some (d, True))
        \<and> (\<forall>ds. fst (upload_run L i mime ds u) = [] \<and> op_results (snd (upload_run L i mime ds u)) = op_results u))"
proof -
  have ok: "upload_ok u" by (rule run_ok [OF assms(2) fileUpload_ok [OF assms(1)]])
  have "op_done u \<Longrightarrow> fst (upload_run L i mime ds u) = [] \<and> op_results (snd (upload_run L i mime ds u)) = op_results u" for ds
    using run_done [OF prod.collapse [symmetric]] by blast
  with ok show ?thesis by (auto simp: upload_ok_def split: if_splits)
qed

definition demo_upload :: upload_env where
  "demo_upload = \<lparr>ue_http = True, ue_local = True, ue_file = True, ue_size = 4, ue_support = Supported, ue_request = True,
     ue_services = [''up.x''], ue_offline = False, ue_cached = False, ue_data = [], ue_open_error = None, ue_mime = ''text/plain'',
     ue_name = ''a.txt'', ue_base_name = ''a''\<rparr>"

definition demo_upload_url :: "string \<Rightarrow> string \<Rightarrow> url_parts" where
  "demo_upload_url sch path = \<lparr>url_text = sch @ path, url_valid = True, url_scheme = sch, url_host = ''up.x'', url_user_info = []\<rparr>"

definition demo_slot :: upload_slot where
  "demo_slot = \<lparr>slot_put = demo_upload_url ''https'' ''://up.x/p'', slot_get = demo_upload_url ''https'' ''://up.x/g'', slot_headers = []\<rparr>"

definition demo_upload_lib :: upload_lib where
  "demo_upload_lib = \<lparr>is_loopback = \<lambda>h. h = ''127.0.0.1'', number_text = \<lambda>n. []\<rparr>"

definition demo_events :: "upload_event list" where
  "demo_events = [SlotAnswered (Inr demo_slot) False, ReplyProgress 2 4, ReplyFinished None 201, UploadTimedOut]"

definition demo_start :: upload_op where
  "demo_start = snd (fileUpload demo_upload False online_manager)"

definition demo_ended :: upload_op where
  "demo_ended = snd (upload_run demo_upload_lib ''7'' ''text/plain'' demo_events demo_start)"

lemma demo_upload_run:
  "fileUpload demo_upload False online_manager = ([RequestSlot ''a.txt'' 4 ''text/plain'' ''up.x''], demo_start)"
  "upload_run demo_upload_lib ''7'' ''text/plain'' demo_events demo_start
     = ([UploadProgress ''7'' 0, PutFile ''https://up.x/p'' ''text/plain'' [], UploadProgress ''7'' (1 / 2), DeleteOperation], demo_ended)"
  by (simp_all add: demo_ended_def demo_start_def fileUpload_def upload_refusal_def demo_upload_def isConnected_client_def online_manager_def new_operation_def
      op_openFile_def isStopped_def new_promise_def demo_events_def slot_answered_def allow_url_def demo_slot_def demo_upload_url_def op_put_def
      upload_progress_of_def reply_progress_def reply_finished_def op_finish_def stopTransport_def Let_def)

lemma upload_settles_once_witness: "op_finishes demo_ended = (if op_done demo_ended then 1 else 0)"
  using upload_settles_once [OF demo_upload_run] by blast

lemma timeout_settles:
  assumes "upload_run L i mime es u = (fs, v)" and "op_done u \<or> UploadTimedOut \<in> set es \<or> (op_canceled u \<and> CancelSeen \<in> set es)"
  shows "op_done v"
  using assms
proof (induction es arbitrary: u fs)
  case (Cons e es)
  obtain gs w where s: "upload_step L i mime e u = (gs, w)" by fastforce
  obtain hs x where r: "upload_run L i mime es w = (hs, x)" by fastforce
  from Cons.prems(1) s r have x: "x = v" by auto
  have "op_done w \<or> UploadTimedOut \<in> set es \<or> (op_canceled w \<and> CancelSeen \<in> set es)"
  proof (cases "op_done u \<or> e = UploadTimedOut \<or> (op_canceled u \<and> e = CancelSeen)")
    case True
    with s step_done [OF s] finish_spec [of _ u gs w] cancel_spec [of u gs w] show ?thesis by auto
  next
    case False
    have "op_canceled u \<Longrightarrow> op_canceled w"
      using s by (cases e) (auto simp: slot_answered_def op_put_def reply_progress_def reply_finished_def Let_def isStopped_def
          op_finish_def op_cancel_def op_destroy_def stopTransport_def split: if_splits sum.splits option.splits prod.splits)
    with Cons.prems(2) False show ?thesis by auto
  qed
  from Cons.IH [OF r [unfolded x] this] show ?case .
qed simp

text \<open>
  C36: No upload stays open: once the timer of 120 seconds has fired, or the manager's watcher has seen a
  cancellation, its future is finished, exactly once, whatever else happened before or after.
\<close>

theorem upload_always_settles:
  assumes "fileUpload E canceled m = (es0, u0)" and "upload_run L i mime es u0 = (fs, u)"
    and "UploadTimedOut \<in> set es \<or> (\<exists>xs ys. es = xs @ UploadCanceled # ys \<and> CancelSeen \<in> set ys)"
  shows "op_done u \<and> op_finishes u = 1"
proof -
  have "op_done u"
  proof (cases "UploadTimedOut \<in> set es")
    case True
    with timeout_settles [OF assms(2)] show ?thesis by simp
  next
    case False
    with assms(3) obtain xs ys where x: "es = xs @ UploadCanceled # ys" "CancelSeen \<in> set ys" by blast
    have app: "upload_run L i mime (xs @ zs) w = (case upload_run L i mime xs w of (a, b) \<Rightarrow> (case upload_run L i mime zs b of (c, d) \<Rightarrow> (a @ c, d)))" for xs zs w
      by (induction xs arbitrary: w) (auto split: prod.splits)
    obtain f1 u1 where r1: "upload_run L i mime xs u0 = (f1, u1)" by fastforce
    obtain f2 u2 where r2: "upload_run L i mime ys (u1\<lparr>op_canceled := True\<rparr>) = (f2, u2)" by fastforce
    have u: "u2 = u" using assms(2) x(1) r1 r2 by (simp add: app)
    with timeout_settles [OF r2] x(2) show ?thesis by simp
  qed
  with run_ok [OF assms(2) fileUpload_ok [OF assms(1)]] show ?thesis by (auto simp: upload_ok_def)
qed

section \<open>What is transferred\<close>

text \<open>What the events so far allow: a running transfer and a result with an address.\<close>

definition slot_given :: "upload_lib \<Rightarrow> upload_event set \<Rightarrow> upload_slot \<Rightarrow> bool" where
  "slot_given L H s \<longleftrightarrow> (\<exists>r. SlotAnswered (Inr s) r \<in> H) \<and> allow_url (is_loopback L) (slot_put s) \<and> allow_url (is_loopback L) (slot_get s)"

definition answered_well :: "upload_lib \<Rightarrow> upload_event set \<Rightarrow> uploaded_file \<Rightarrow> bool" where
  "answered_well L H r \<longleftrightarrow>
     (\<exists>s code. slot_given L H s \<and> uf_url r = url_text (slot_get s) \<and> uf_error r = [] \<and> ReplyFinished None code \<in> H \<and> 200 \<le> code \<and> code < 300)"

definition genuine :: "upload_lib \<Rightarrow> upload_event set \<Rightarrow> upload_op \<Rightarrow> bool" where
  "genuine L H u \<longleftrightarrow>
     (\<forall>d x. op_reply u = Some (d, x) \<longrightarrow> (\<exists>s. slot_given L H s \<and> d = url_text (slot_get s)))
   \<and> (\<forall>r \<in> set (op_results u). uf_url r \<noteq> [] \<longrightarrow> answered_well L H r)"

lemma finish_genuine:
  assumes "op_finish r u = (es, v)" and "genuine L H u"
    and "uf_url r \<noteq> [] \<longrightarrow> answered_well L H r"
  shows "genuine L H v"
  using assms by (auto simp: op_finish_def genuine_def stopTransport_def Let_def split: if_splits)

lemma failed_genuine: "op_finish (op_failed e) u = (es, v) \<Longrightarrow> genuine L H u \<Longrightarrow> genuine L H v"
  by (erule finish_genuine) (simp_all add: op_failed_def)

lemma step_genuine:
  assumes "upload_step L i mime e u = (es, v)" and "genuine L H u" and "e \<in> H"
  shows "genuine L H v \<and> (\<forall>p t hs. PutFile p t hs \<in> set es \<longrightarrow>
    (\<exists>s. slot_given L H s \<and> p = url_text (slot_put s) \<and> hs = slot_headers s \<and> t = mime))"
proof (cases e)
  case (SlotAnswered a r)
  show ?thesis
  proof (cases "isStopped u")
    case True
    with assms SlotAnswered show ?thesis by (auto simp: slot_answered_def)
  next
    case False
    show ?thesis
    proof (cases "\<exists>s. a = Inr s \<and> allow_url (is_loopback L) (slot_put s) \<and> allow_url (is_loopback L) (slot_get s)")
      case True
      then obtain s where s: "a = Inr s" "slot_given L H s" using assms(3) SlotAnswered by (auto simp: slot_given_def)
      then have "upload_step L i mime e u = op_put i (url_text (slot_put s)) mime (slot_headers s) (url_text (slot_get s)) r u"
        using SlotAnswered False by (simp add: slot_answered_def slot_given_def)
      with assms(1,2) s False show ?thesis
        by (auto simp: op_put_def genuine_def Let_def upload_progress_of_def split: if_splits)
    next
      case c: False
      have "\<exists>t. upload_step L i mime e u = op_finish (op_failed t) u"
        using SlotAnswered False c by (cases a) (auto simp: slot_answered_def)
      then obtain t where "upload_step L i mime e u = op_finish (op_failed t) u" by blast
      with assms(1,2) failed_genuine [of t u es v L H] finish_spec [of "op_failed t" u es v] show ?thesis by auto
    qed
  qed
next
  case (ReplyFinished f c)
  show ?thesis
  proof (cases "isStopped u \<or> op_reply u = None")
    case True
    with assms ReplyFinished show ?thesis by (auto simp: reply_finished_def split: if_splits option.splits)
  next
    case False
    then obtain d x where d: "op_reply u = Some (d, x)" by auto
    let ?u = "u\<lparr>op_reply := Some (d, False)\<rparr>"
    have g: "genuine L H ?u" using assms(2) d by (auto simp: genuine_def)
    show ?thesis
    proof (cases "f = None \<and> 200 \<le> c \<and> c < 300")
      case True
      then have "op_finish \<lparr>uf_url = d, uf_error = []\<rparr> ?u = (es, v)"
        using assms(1) ReplyFinished False d by (auto simp: reply_finished_def Let_def)
      note this [THEN finish_spec] finish_genuine [OF this g]
      moreover have "answered_well L H \<lparr>uf_url = d, uf_error = []\<rparr>"
        using assms(2,3) ReplyFinished True d by (auto simp: answered_well_def genuine_def)
      ultimately show ?thesis by auto
    next
      case c: False
      then obtain t where "op_finish (op_failed t) ?u = (es, v)"
        using assms(1) ReplyFinished False d by (auto simp: reply_finished_def Let_def split: option.splits if_splits)
      with failed_genuine [of t ?u es v L H] finish_spec [of "op_failed t" ?u es v] g show ?thesis by auto
    qed
  qed
next
  case CancelSeen
  with assms cancel_spec [of u es v] show ?thesis by (auto simp: genuine_def op_cancel_def stopTransport_def split: if_splits)
next
  case OperationDestroyed
  with assms destroy_spec [of u es v] show ?thesis by (auto simp: genuine_def op_destroy_def stopTransport_def split: if_splits)
next
  case UploadCanceled
  with assms show ?thesis by (auto simp: genuine_def)
next
  case (ReplyProgress s n)
  with assms show ?thesis by (auto simp: reply_progress_def upload_progress_of_def split: if_splits)
qed (use assms in \<open>auto dest: failed_genuine finish_spec\<close>)

lemma run_genuine:
  assumes "upload_run L i mime es u = (fs, v)" and "genuine L H u" and "set es \<subseteq> H"
  shows "genuine L H v \<and> (\<forall>p t hs. PutFile p t hs \<in> set fs \<longrightarrow>
    (\<exists>s. slot_given L H s \<and> p = url_text (slot_put s) \<and> hs = slot_headers s \<and> t = mime))"
  using assms
proof (induction es arbitrary: u fs)
  case (Cons e es)
  obtain gs w where s: "upload_step L i mime e u = (gs, w)" by fastforce
  obtain ks x where r: "upload_run L i mime es w = (ks, x)" by fastforce
  from Cons.prems(1) s r have f: "fs = gs @ ks" "x = v" by auto
  from step_genuine [OF s Cons.prems(2)] Cons.prems(3)
  have g: "genuine L H w" and ps: "\<forall>p t hs. PutFile p t hs \<in> set gs \<longrightarrow>
    (\<exists>s. slot_given L H s \<and> p = url_text (slot_put s) \<and> hs = slot_headers s \<and> t = mime)" by auto
  from Cons.IH [OF r [unfolded f] g] Cons.prems(3) ps f show ?case by auto
qed simp


lemma start_genuine:
  assumes "fileUpload E canceled m = (es, u)"
  shows "genuine L H u \<and> (\<forall>p t hs. PutFile p t hs \<notin> set es)"
proof -
  have n: "genuine L H (new_promise canceled)" "upload_ok (new_promise canceled)" by (simp_all add: genuine_def new_promise_def upload_ok_def)
  have a: "new_operation b w = (fs, x) \<Longrightarrow> genuine L H w \<Longrightarrow> genuine L H x" for b w fs x
    by (auto simp: new_operation_def split: if_splits dest: failed_genuine)
  have b: "op_openFile f k w = (ok, fs, x) \<Longrightarrow> genuine L H w \<Longrightarrow> genuine L H x" "openData d w = (ok, fs, x) \<Longrightarrow> genuine L H w \<Longrightarrow> genuine L H x"
    for f k d w ok fs x
    by (auto simp: op_openFile_def openData_def split: if_splits option.splits prod.splits dest: failed_genuine) (auto simp: genuine_def)
  have r: "upload_reject e (new_promise canceled) = (fs, x) \<Longrightarrow> genuine L H x \<and> fs = []" for e fs x
    by (auto simp: upload_reject_def genuine_def new_promise_def op_failed_def)
  show ?thesis
  proof (cases "canceled \<or> upload_refusal E m \<noteq> None")
    case True
    show ?thesis
    proof (cases canceled)
      case True
      with assms n show ?thesis by (auto simp: fileUpload_def Let_def genuine_def)
    next
      case False
      with True assms obtain e where "upload_reject e (new_promise canceled) = (es, u)" by (auto simp: fileUpload_def)
      from r [OF this] show ?thesis by simp
    qed
  next
    case False
    obtain fs w where o: "new_operation (ue_offline E) (new_promise canceled) = (fs, w)" by fastforce
    obtain ok gs x where p: "(if ue_cached E then openData (ue_data E) w else op_openFile (ue_open_error E) (ue_size E) w) = (ok, gs, x)"
      by (metis prod_cases3)
    have e: "u = x" "set es \<subseteq> set fs \<union> set gs \<union> {RequestSlot (if ue_cached E then ue_base_name E @ ''.jpg'' else ue_name E) (op_size x) (ue_mime E) (hd (ue_services E))}"
      using assms False o p by (auto simp: fileUpload_def Let_def split: if_splits)
    have w: "genuine L H w" "upload_ok w" "set fs \<subseteq> {AbortTransport, DeleteOperation}" using a [OF o n(1)] new_operation_ok [OF o n(2)] by auto
    have "genuine L H x" "set gs \<subseteq> {AbortTransport, DeleteOperation}"
      using p b w open_ok by (auto split: if_splits)
    with e w(3) show ?thesis by auto
  qed
qed



text \<open>
  A result with an address is genuine: it is the download address of the slot whose transfer ended
  without an error and with a status of 200 to 299.
\<close>

theorem upload_result_genuine:
  assumes "fileUpload E canceled m = (es0, u0)" and "upload_run L i mime es u0 = (fs, u)" and "r \<in> set (op_results u)" "uf_url r \<noteq> []"
  shows "\<exists>s x code. SlotAnswered (Inr s) x \<in> set es \<and> uf_url r = url_text (slot_get s) \<and> uf_error r = []
    \<and> ReplyFinished None code \<in> set es \<and> 200 \<le> code \<and> code < 300"
proof -
  have "genuine L (set es) u" using run_genuine [OF assms(2)] start_genuine [OF assms(1)] by blast
  with assms(3,4) have "answered_well L (set es) r" by (simp add: genuine_def)
  then show ?thesis by (auto simp: answered_well_def slot_given_def)
qed

lemma upload_result_genuine_witness:
  "\<exists>s x code. SlotAnswered (Inr s) x \<in> set demo_events \<and> ''https://up.x/g'' = url_text (slot_get s) \<and> ReplyFinished None code \<in> set demo_events
    \<and> 200 \<le> code \<and> code < 300"
proof -
  have "\<lparr>uf_url = ''https://up.x/g'', uf_error = []\<rparr> \<in> set (op_results demo_ended)"
    by (simp add: demo_ended_def demo_start_def fileUpload_def upload_refusal_def demo_upload_def isConnected_client_def online_manager_def new_operation_def
      op_openFile_def isStopped_def new_promise_def demo_events_def slot_answered_def allow_url_def demo_slot_def demo_upload_url_def op_put_def
      upload_progress_of_def reply_progress_def reply_finished_def op_finish_def stopTransport_def Let_def)
  from upload_result_genuine [OF demo_upload_run this] show ?thesis by auto
qed

lemma upload_always_settles_witness:
  "op_done (snd (upload_run demo_upload_lib ''7'' ''text/plain'' [SlotAnswered (Inr demo_slot) False, UploadCanceled, CancelSeen] demo_start))"
proof -
  let ?es = "[SlotAnswered (Inr demo_slot) False, UploadCanceled, CancelSeen]"
  obtain fs u where r: "upload_run demo_upload_lib ''7'' ''text/plain'' ?es demo_start = (fs, u)" by fastforce
  have "\<exists>xs ys. ?es = xs @ UploadCanceled # ys \<and> CancelSeen \<in> set ys"
    by (rule exI [of _ "[SlotAnswered (Inr demo_slot) False]"], rule exI [of _ "[CancelSeen]"]) simp
  from upload_always_settles [OF demo_upload_run(1) r disjI2 [OF this]] r show ?thesis by simp
qed

section \<open>The results of a batch come in the order of the files\<close>

definition outcome_of :: "uploaded_file option \<Rightarrow> uploaded_file" where
  "outcome_of r = (case r of None \<Rightarrow> op_failed ''File upload canceled.'' | Some f \<Rightarrow> f)"

definition batch_ok :: "nat \<Rightarrow> (nat \<Rightarrow> uploaded_file option) \<Rightarrow> nat set \<Rightarrow> upload_batch \<Rightarrow> bool" where
  "batch_ok n out D b \<longleftrightarrow> length (ub_seen b) = n \<and> length (ub_results b) = n \<and> D \<subseteq> {..<n}
     \<and> (\<forall>i < n. ub_seen b ! i = (i \<in> D) \<and> (i \<in> D \<longrightarrow> ub_results b ! i = outcome_of (out i)))
     \<and> ub_remaining b = n - card D \<and> \<not> ub_canceled b
     \<and> (if card D = n then ub_finishes b = 1 \<and> ub_added b = [ub_results b] else ub_finishes b = 0 \<and> ub_added b = [])"

lemma child_ok:
  assumes "batch_ok n out D b" and "i < n" "i \<notin> D" and "child_finished i (out i) b = (es, c)"
  shows "batch_ok n out (insert i D) c \<and> (\<forall>k. CancelChild k \<notin> set es)"
proof -
  have fin: "finite D" using assms(1) by (auto simp: batch_ok_def intro: finite_subset)
  have sub: "insert i D \<subseteq> {..<n}" using assms(1,2) by (auto simp: batch_ok_def)
  have lt: "card D < n" using sub assms(3) card_mono [of "{..<n}" "insert i D"] fin by simp
  have c: "card (insert i D) = card D + 1" using fin assms(3) by simp
  have g: "\<not> (length (ub_seen b) \<le> i \<or> ub_seen b ! i)" using assms by (auto simp: batch_ok_def)
  have z: "ub_remaining b - 1 = 0 \<longleftrightarrow> card (insert i D) = n" using assms(1) lt c by (auto simp: batch_ok_def)
  show ?thesis
    using assms g sub lt c z
    by (auto simp: child_finished_def batch_ok_def Let_def nth_list_update outcome_of_def split: if_splits)
qed

lemma children_ok:
  assumes "batch_ok n out D b" and "distinct order" "set order \<subseteq> {..<n}" "set order \<inter> D = {}"
    and "batch_run (map (\<lambda>i. ChildFinished i (out i)) order) b = (es, c)"
  shows "batch_ok n out (set order \<union> D) c"
  using assms
proof (induction order arbitrary: b D es)
  case (Cons i order)
  obtain fs b1 where s: "child_finished i (out i) b = (fs, b1)" by fastforce
  obtain gs b2 where r: "batch_run (map (\<lambda>i. ChildFinished i (out i)) order) b1 = (gs, b2)" by fastforce
  have e: "b2 = c" using Cons.prems(5) s r by simp
  have "batch_ok n out (insert i D) b1" using child_ok [OF Cons.prems(1) _ _ s] Cons.prems(3,4) by auto
  from Cons.IH [OF this _ _ _ r [unfolded e]] Cons.prems(2,3,4) show ?case by auto
qed simp

text \<open>
  The results of several uploads come in the order of the files, whatever order they finish in: when
  every child of an uncancelled batch has finished, its future is finished once with one list, whose
  \<open>i\<close>-th element is the outcome of the \<open>i\<close>-th file; a cancelled child is reported as such.
\<close>

theorem uploads_in_order:
  assumes "distinct order" and "set order = {..<n}" and "watchFileUploads n False = (es0, b)"
    and "batch_run (map (\<lambda>i. ChildFinished i (out i)) order) b = (es, c)"
  shows "ub_added c = [map (\<lambda>i. outcome_of (out i)) [0..<n]] \<and> ub_finishes c = 1"
proof (cases "n = 0")
  case True
  with assms show ?thesis by (auto simp: watchFileUploads_def Let_def)
next
  case False
  have "batch_ok n out {} b" using assms(3) False by (auto simp: watchFileUploads_def batch_ok_def Let_def)
  from children_ok [OF this assms(1) _ _ assms(4)] assms(2) have ok: "batch_ok n out {..<n} c" by auto
  then have "ub_results c = map (\<lambda>i. outcome_of (out i)) [0..<n]" by (intro nth_equalityI) (auto simp: batch_ok_def)
  with ok show ?thesis by (simp add: batch_ok_def)
qed

lemma uploads_in_order_witness:
  "ub_added (snd (batch_run (map (\<lambda>i. ChildFinished i (if i = 1 then None else Some (op_failed ''x''))) [2, 0, 1]) (snd (watchFileUploads 3 False))))
   = [[op_failed ''x'', op_failed ''File upload canceled.'', op_failed ''x'']]"
proof -
  have d: "distinct [2, 0, 1 :: nat]" by simp
  have r: "set [2, 0, 1 :: nat] = {..<3}" by auto
  from uploads_in_order [OF d r prod.collapse [symmetric] prod.collapse [symmetric],
      of "\<lambda>i. if i = 1 then None else Some (op_failed ''x'')"]
  show ?thesis by (simp add: outcome_of_def upt_rec)
qed

end
