(* ===== verification/M4a_Encoder.thy ===== *)
theory M4a_Encoder
  imports Prelude
begin

text \<open>
  \<open>M4aEncoder\<close> (core/media/m4a_encoder.cpp): captured PCM goes to a temporary file, and a job feeds a
  snapshot of it to the encoder of the multimedia library. The temporary file's bytes are part of the
  state; what the library accepts, reports and writes comes in with the calls.
\<close>

section \<open>State\<close>

record enc_job =
  job_path :: string
  job_limit :: nat
  job_pos :: nat
  job_ended :: bool
  job_completed :: bool
  job_answer :: "string option"

record m4a_encoder =
  enc_path :: string
  enc_open :: bool
  enc_failed :: bool
  enc_pcm :: bytes
  enc_frame :: nat
  enc_error :: string
  enc_job :: "enc_job option"

definition new_encoder :: m4a_encoder where
  "new_encoder = \<lparr>enc_path = [], enc_open = False, enc_failed = False, enc_pcm = [], enc_frame = 0, enc_error = [], enc_job = None\<rparr>"

section \<open>Operations\<close>

text \<open>A frame is one 16-bit sample per channel; \<open>supported\<close> and \<open>file_error\<close> are the library's and the file system's.\<close>

definition enc_start :: "string \<Rightarrow> int \<Rightarrow> int \<Rightarrow> bool \<Rightarrow> string option \<Rightarrow> m4a_encoder \<Rightarrow> bool \<times> m4a_encoder" where
  "enc_start path sample_rate channels supported file_error c =
     (if enc_open c \<or> enc_path c \<noteq> [] \<or> sample_rate \<le> 0 \<or> (channels \<noteq> 1 \<and> channels \<noteq> 2)
      then (False, c\<lparr>enc_error := ''Invalid M4A capture format.''\<rparr>)
      else if \<not> supported
      then (False, c\<lparr>enc_error := ''AAC/M4A recording is unavailable in this Qt Multimedia backend.''\<rparr>)
      else
        (let c1 = c\<lparr>enc_path := path, enc_frame := 2 * nat channels\<rparr>
         in case file_error of
              Some e \<Rightarrow> (False, c1\<lparr>enc_error := e\<rparr>)
            | None \<Rightarrow> (True, c1\<lparr>enc_open := True\<rparr>)))"

definition enc_write :: "bytes \<Rightarrow> bool \<Rightarrow> m4a_encoder \<Rightarrow> int \<times> m4a_encoder" where
  "enc_write bs stored c =
     (if enc_failed c \<or> \<not> stored then (-1, c\<lparr>enc_failed := True, enc_error := ''Cannot store voice recording audio.''\<rparr>)
      else (int (length bs), c\<lparr>enc_pcm := enc_pcm c @ bs\<rparr>))"

definition enc_encode :: "string \<Rightarrow> bool \<Rightarrow> string option \<Rightarrow> m4a_encoder \<Rightarrow> bool \<times> m4a_encoder" where
  "enc_encode path flushed file_error c =
     (if \<not> enc_open c \<or> enc_failed c \<or> length (enc_pcm c) = 0 \<or> \<not> flushed \<or> length (enc_pcm c) mod enc_frame c \<noteq> 0
      then (False, c\<lparr>enc_error := ''The recording contains no complete audio or could not be encoded.''\<rparr>)
      else case file_error of
             Some e \<Rightarrow> (False, c\<lparr>enc_job := None, enc_error := e\<rparr>)
           | None \<Rightarrow> (True, c\<lparr>enc_job := Some \<lparr>job_path = path, job_limit = length (enc_pcm c), job_pos = 0, job_ended = False,
                                 job_completed = False, job_answer = None\<rparr>\<rparr>))"

definition enc_finish :: "bool \<Rightarrow> string option \<Rightarrow> m4a_encoder \<Rightarrow> bool \<times> m4a_encoder" where
  "enc_finish flushed file_error c =
     (case enc_encode (enc_path c) flushed file_error c of
        (ok, c1) \<Rightarrow> if ok then (True, c1\<lparr>enc_open := False\<rparr>) else (False, c1))"

definition enc_complete :: "string \<Rightarrow> m4a_encoder \<Rightarrow> m4a_encoder" where
  "enc_complete e c =
     (case enc_job c of
        None \<Rightarrow> c
      | Some j \<Rightarrow> if job_completed j then c else c\<lparr>enc_job := Some (j\<lparr>job_completed := True, job_answer := Some e\<rparr>)\<rparr>)"

text \<open>
  The encoder is ready: buffers go out until one is refused. \<open>accepts\<close> are its answers in order, with a
  refusal after the last; \<open>readable k\<close> says whether reading at position \<open>k\<close> yields the bytes asked for.
\<close>

datatype audio_buffer = Audio bytes | EndOfAudio

fun enc_feed :: "bool list \<Rightarrow> (nat \<Rightarrow> bool) \<Rightarrow> m4a_encoder \<Rightarrow> audio_buffer list \<times> m4a_encoder" where
  "enc_feed [] readable c =
     (case enc_job c of
        None \<Rightarrow> ([], c)
      | Some j \<Rightarrow>
          if job_ended j \<or> job_completed j \<or> job_pos j = job_limit j \<or> readable (job_pos j) then ([], c)
          else ([], enc_complete ''Cannot read captured audio.'' c))"
| "enc_feed (a # accepts) readable c =
     (case enc_job c of
        None \<Rightarrow> ([], c)
      | Some j \<Rightarrow>
          if job_ended j \<or> job_completed j then ([], c)
          else if job_pos j = job_limit j
          then ((if a then [EndOfAudio] else []), c\<lparr>enc_job := Some (j\<lparr>job_ended := a\<rparr>)\<rparr>)
          else if \<not> readable (job_pos j) then ([], enc_complete ''Cannot read captured audio.'' c)
          else
            (let n = min (job_limit j - job_pos j) (4096 * enc_frame c)
             in if \<not> a then ([], c)
                else (case enc_feed accepts readable (c\<lparr>enc_job := Some (j\<lparr>job_pos := job_pos j + n\<rparr>)\<rparr>) of
                        (bs, c1) \<Rightarrow> (Audio (take n (drop (job_pos j) (enc_pcm c))) # bs, c1))))"

text \<open>The recorder of the library has stopped, has failed, or the time is up.\<close>

definition recorder_stopped :: "bool \<Rightarrow> m4a_encoder \<Rightarrow> m4a_encoder" where
  "recorder_stopped produced c =
     (case enc_job c of
        None \<Rightarrow> c
      | Some j \<Rightarrow> if job_ended j then enc_complete (if produced then [] else ''The M4A encoder produced no audio.'') c else c)"

definition recorder_failed :: "string \<Rightarrow> m4a_encoder \<Rightarrow> m4a_encoder" where
  "recorder_failed e c = enc_complete e c"

definition encoding_timed_out :: "m4a_encoder \<Rightarrow> m4a_encoder" where
  "encoding_timed_out c = enc_complete ''M4A encoding timed out.'' c"

text \<open>The queued delivery of the job in place: \<open>encodingFinished\<close> with its path and its success.\<close>

definition deliver_encoding :: "m4a_encoder \<Rightarrow> (string \<times> bool) option \<times> m4a_encoder" where
  "deliver_encoding c =
     (case enc_job c of
        None \<Rightarrow> (None, c)
      | Some j \<Rightarrow>
          (case job_answer j of
             None \<Rightarrow> (None, c)
           | Some e \<Rightarrow>
               (Some (job_path j, e = []),
                c\<lparr>enc_job := Some (j\<lparr>job_answer := None\<rparr>), enc_error := (if e = [] then enc_error c else e)\<rparr>)))"

section \<open>Runs of a job\<close>

datatype enc_event =
    EncFeed "bool list" "nat \<Rightarrow> bool"
  | EncWrite bytes bool
  | EncStopped bool
  | EncError string
  | EncTimeout
  | EncDeliver

fun enc_step :: "enc_event \<Rightarrow> m4a_encoder \<Rightarrow> audio_buffer list \<times> (string \<times> bool) list \<times> m4a_encoder" where
  "enc_step (EncFeed accepts readable) c = (case enc_feed accepts readable c of (bs, c1) \<Rightarrow> (bs, [], c1))"
| "enc_step (EncWrite bs stored) c = ([], [], snd (enc_write bs stored c))"
| "enc_step (EncStopped produced) c = ([], [], recorder_stopped produced c)"
| "enc_step (EncError e) c = ([], [], recorder_failed e c)"
| "enc_step EncTimeout c = ([], [], encoding_timed_out c)"
| "enc_step EncDeliver c = (case deliver_encoding c of (r, c1) \<Rightarrow> ([], (case r of None \<Rightarrow> [] | Some x \<Rightarrow> [x]), c1))"

fun enc_run :: "enc_event list \<Rightarrow> m4a_encoder \<Rightarrow> audio_buffer list \<times> (string \<times> bool) list \<times> m4a_encoder" where
  "enc_run [] c = ([], [], c)"
| "enc_run (e # es) c =
     (case enc_step e c of (bs, rs, c1) \<Rightarrow> (case enc_run es c1 of (cs, qs, c2) \<Rightarrow> (bs @ cs, rs @ qs, c2)))"

section \<open>What a job sends\<close>

text \<open>A job reads the bytes that were there when it started; later writes only append.\<close>

definition job_ok :: "m4a_encoder \<Rightarrow> bool" where
  "job_ok c \<longleftrightarrow>
     (case enc_job c of
        None \<Rightarrow> True
      | Some j \<Rightarrow> job_pos j \<le> job_limit j \<and> job_limit j \<le> length (enc_pcm c) \<and> 0 < enc_frame c
          \<and> (job_ended j \<longrightarrow> job_pos j = job_limit j) \<and> (job_answer j \<noteq> None \<longrightarrow> job_completed j))"

definition sent_bytes :: "audio_buffer list \<Rightarrow> bytes" where
  "sent_bytes bs = concat (map (\<lambda>b. case b of Audio x \<Rightarrow> x | EndOfAudio \<Rightarrow> []) bs)"

text \<open>How a step moves the job: bytes \<open>job_pos c .. job_pos d\<close> were sent.\<close>

definition job_moves :: "m4a_encoder \<Rightarrow> bytes \<Rightarrow> m4a_encoder \<Rightarrow> bool" where
  "job_moves c xs d \<longleftrightarrow>
     (\<exists>ys. enc_pcm d = enc_pcm c @ ys) \<and> enc_frame d = enc_frame c \<and> (enc_job c = None \<longleftrightarrow> enc_job d = None)
   \<and> (\<forall>j. enc_job c = Some j \<longrightarrow>
        (\<exists>k. enc_job d = Some k \<and> job_limit k = job_limit j \<and> job_path k = job_path j \<and> job_pos j \<le> job_pos k
           \<and> xs = take (job_pos k - job_pos j) (drop (job_pos j) (take (job_limit j) (enc_pcm c)))
           \<and> (job_completed j \<longrightarrow> job_completed k) \<and> (job_ended j \<longrightarrow> job_ended k)))
   \<and> (enc_job c = None \<longrightarrow> xs = [])"

lemma sent_bytes_simps [simp]:
  "sent_bytes [] = []" "sent_bytes (Audio x # bs) = x @ sent_bytes bs" "sent_bytes (EndOfAudio # bs) = sent_bytes bs"
  "sent_bytes (as @ bs) = sent_bytes as @ sent_bytes bs"
  by (simp_all add: sent_bytes_def)

lemma job_moves_refl: "job_ok c \<Longrightarrow> job_moves c [] c"
  by (auto simp: job_moves_def)

lemma job_moves_pcm: "job_moves c xs d \<Longrightarrow> (\<exists>ys. enc_pcm d = enc_pcm c @ ys) \<and> enc_frame d = enc_frame c"
  unfolding job_moves_def by blast

lemma job_moves_trans:
  assumes "job_moves c xs d" "job_moves d ys e" "job_ok c" "job_ok d" "job_ok e"
  shows "job_moves c (xs @ ys) e"
proof (cases "enc_job c")
  case None
  with assms show ?thesis by (auto simp: job_moves_def)
next
  case (Some j)
  with assms(1) obtain k where k: "enc_job d = Some k" "job_limit k = job_limit j" "job_path k = job_path j" "job_pos j \<le> job_pos k"
    "xs = take (job_pos k - job_pos j) (drop (job_pos j) (take (job_limit j) (enc_pcm c)))"
    "job_completed j \<longrightarrow> job_completed k" "job_ended j \<longrightarrow> job_ended k" by (auto simp: job_moves_def)
  with assms(2) obtain l where l: "enc_job e = Some l" "job_limit l = job_limit k" "job_path l = job_path k" "job_pos k \<le> job_pos l"
    "ys = take (job_pos l - job_pos k) (drop (job_pos k) (take (job_limit k) (enc_pcm d)))"
    "job_completed k \<longrightarrow> job_completed l" "job_ended k \<longrightarrow> job_ended l" by (auto simp: job_moves_def)
  obtain zs where zs: "enc_pcm d = enc_pcm c @ zs" using assms(1) by (auto simp: job_moves_def)
  have same: "take (job_limit j) (enc_pcm d) = take (job_limit j) (enc_pcm c)"
    using assms(3) Some zs by (simp add: job_ok_def)
  let ?p = "take (job_limit j) (enc_pcm c)"
  have "xs @ ys = take (job_pos k - job_pos j) (drop (job_pos j) ?p) @ take (job_pos l - job_pos k) (drop (job_pos k - job_pos j) (drop (job_pos j) ?p))"
    using k l same by simp
  also have "\<dots> = take (job_pos l - job_pos j) (drop (job_pos j) ?p)"
    using k(4) l(4) take_add [of "job_pos k - job_pos j" "job_pos l - job_pos k" "drop (job_pos j) ?p"] by simp
  finally have "xs @ ys = take (job_pos l - job_pos j) (drop (job_pos j) ?p)" .
  moreover have "\<exists>us. enc_pcm e = enc_pcm c @ us" "enc_frame e = enc_frame c"
    using job_moves_pcm [OF assms(1)] job_moves_pcm [OF assms(2)] by auto
  ultimately show ?thesis using Some k l by (simp add: job_moves_def)
qed
lemma complete_moves:
  assumes "job_ok c"
  shows "job_ok (enc_complete e c) \<and> job_moves c [] (enc_complete e c)"
  using assms by (auto simp: enc_complete_def job_ok_def job_moves_def split: option.splits)

lemma feed_moves:
  assumes "enc_feed accepts readable c = (bs, d)" and "job_ok c"
  shows "job_ok d \<and> job_moves c (sent_bytes bs) d \<and> enc_pcm d = enc_pcm c"
  using assms
proof (induction accepts readable c arbitrary: bs rule: enc_feed.induct)
  case (1 readable c)
  then show ?case
    using complete_moves [OF "1.prems"(2), of "''Cannot read captured audio.''"] job_moves_refl [OF "1.prems"(2)]
    by (auto simp: enc_complete_def split: option.splits if_splits)
next
  case (2 a accepts readable c)
  note ok = "2.prems"(2)
  show ?case
  proof (cases "enc_job c")
    case None
    with 2 job_moves_refl [OF ok] show ?thesis by auto
  next
    case (Some j)
    show ?thesis
    proof (cases "job_ended j \<or> job_completed j")
      case True
      with 2 Some job_moves_refl [OF ok] show ?thesis by auto
    next
      case live: False
      show ?thesis
      proof (cases "job_pos j = job_limit j")
        case True
        with 2 Some live have "bs = (if a then [EndOfAudio] else [])" "d = c\<lparr>enc_job := Some (j\<lparr>job_ended := a\<rparr>)\<rparr>" by auto
        with ok Some live True show ?thesis by (auto simp: job_ok_def job_moves_def)
      next
        case more: False
        show ?thesis
        proof (cases "readable (job_pos j) \<and> a")
          case False
          with 2 Some live more complete_moves [OF ok, of "''Cannot read captured audio.''"] job_moves_refl [OF ok] show ?thesis
            by (auto simp: enc_complete_def Let_def split: if_splits)
        next
          case True
          define n where "n = min (job_limit j - job_pos j) (4096 * enc_frame c)"
          define c1 where "c1 = c\<lparr>enc_job := Some (j\<lparr>job_pos := job_pos j + n\<rparr>)\<rparr>"
          obtain cs where rec: "enc_feed accepts readable c1 = (cs, d)" "bs = Audio (take n (drop (job_pos j) (enc_pcm c))) # cs"
            using "2.prems"(1) Some live more True by (auto simp: n_def c1_def Let_def split: prod.splits)
          have n: "job_pos j + n \<le> job_limit j" using ok Some by (auto simp: job_ok_def n_def)
          have ok1: "job_ok c1" using ok Some n live by (auto simp: job_ok_def c1_def)
          have "take n (drop (job_pos j) (take (job_limit j) (enc_pcm c))) = take n (drop (job_pos j) (enc_pcm c))"
            using n by (simp add: drop_take min_def)
          then have m: "job_moves c (take n (drop (job_pos j) (enc_pcm c))) c1"
            using Some by (auto simp: job_moves_def c1_def)
          have ih: "job_ok d \<and> job_moves c1 (sent_bytes cs) d \<and> enc_pcm d = enc_pcm c1"
            using "2.IH" [OF Some] live more True rec(1) ok1 unfolding n_def c1_def by simp
          with job_moves_trans [OF m _ ok ok1] rec(2) show ?thesis by (simp add: c1_def)
        qed
      qed
    qed
  qed
qed

lemma step_moves:
  assumes "enc_step e c = (bs, rs, d)" and "job_ok c"
  shows "job_ok d \<and> job_moves c (sent_bytes bs) d"
proof (cases e)
  case (EncFeed accepts readable)
  with assms feed_moves show ?thesis by (auto split: prod.splits)
next
  case (EncWrite xs stored)
  with assms show ?thesis by (auto simp: enc_write_def job_ok_def job_moves_def split: if_splits option.splits)
next
  case (EncStopped produced)
  with assms complete_moves [OF assms(2)] job_moves_refl [OF assms(2)] show ?thesis
    by (auto simp: recorder_stopped_def split: option.splits if_splits)
next
  case EncDeliver
  with assms show ?thesis by (auto simp: deliver_encoding_def job_ok_def job_moves_def split: option.splits)
qed (use assms complete_moves [OF assms(2)] in \<open>auto simp: recorder_failed_def encoding_timed_out_def\<close>)

text \<open>The announcement of a success waits for the end of the audio, and comes once.\<close>

definition answer_ok :: "m4a_encoder \<Rightarrow> bool" where
  "answer_ok c \<longleftrightarrow> (\<forall>j. enc_job c = Some j \<longrightarrow> job_answer j = Some [] \<longrightarrow> job_ended j)"

lemma feed_keeps_answer:
  assumes "enc_feed accepts readable c = (bs, d)" and "enc_job c = Some j" "enc_job d = Some k" "job_answer k = Some []"
  shows "job_answer j = Some []"
  using assms
proof (induction accepts arbitrary: c j bs)
  case Nil
  then show ?case by (auto simp: enc_complete_def split: if_splits)
next
  case (Cons a accepts)
  show ?case
  proof (cases "\<not> (job_ended j \<or> job_completed j) \<and> job_pos j \<noteq> job_limit j \<and> readable (job_pos j) \<and> a")
    case True
    define i where "i = j\<lparr>job_pos := job_pos j + min (job_limit j - job_pos j) (4096 * enc_frame c)\<rparr>"
    obtain cs where rec: "enc_feed accepts readable (c\<lparr>enc_job := Some i\<rparr>) = (cs, d)"
      using Cons.prems(1,2) True by (auto simp: i_def Let_def split: prod.splits)
    have "job_answer i = Some []" by (rule Cons.IH [OF rec _ Cons.prems(3,4)]) simp
    then show ?thesis by (simp add: i_def)
  next
    case False
    with Cons.prems consider "d = c" | "d = enc_complete ''Cannot read captured audio.'' c" | "d = c\<lparr>enc_job := Some (j\<lparr>job_ended := a\<rparr>)\<rparr>"
      by (auto simp: Let_def split: if_splits)
    then show ?thesis using Cons.prems(2-4) by cases (auto simp: enc_complete_def split: if_splits)
  qed
qed

lemma feed_answer:
  assumes "enc_feed accepts readable c = (bs, d)" and "answer_ok c" "job_ok c"
  shows "answer_ok d"
proof -
  have m: "job_moves c (sent_bytes bs) d" using feed_moves [OF assms(1,3)] by simp
  show ?thesis
    unfolding answer_ok_def
  proof (intro allI impI)
    fix k assume k: "enc_job d = Some k" "job_answer k = Some []"
    then obtain j where j: "enc_job c = Some j" using m by (cases "enc_job c") (auto simp: job_moves_def)
    with feed_keeps_answer [OF assms(1) j k] assms(2) have "job_ended j" by (simp add: answer_ok_def)
    with m j k(1) show "job_ended k" by (auto simp: job_moves_def)
  qed
qed

lemma step_answer:
  assumes "enc_step e c = (bs, rs, d)" and "answer_ok c" "job_ok c" "e \<noteq> EncError []"
  shows "answer_ok d \<and> (\<forall>q. (q, True) \<in> set rs \<longrightarrow> (\<exists>j. enc_job d = Some j \<and> job_path j = q \<and> job_ended j))
    \<and> (rs \<noteq> [] \<longrightarrow> length rs = 1 \<and> (\<exists>j k. enc_job c = Some j \<and> job_answer j \<noteq> None \<and> enc_job d = Some k \<and> job_answer k = None))"
proof (cases e)
  case (EncFeed accepts readable)
  with assms feed_answer show ?thesis by (auto split: prod.splits)
next
  case (EncWrite xs stored)
  with assms show ?thesis by (auto simp: enc_write_def answer_ok_def split: if_splits)
next
  case (EncStopped produced)
  with assms show ?thesis by (auto simp: recorder_stopped_def enc_complete_def answer_ok_def split: option.splits if_splits)
next
  case (EncError t)
  with assms show ?thesis by (auto simp: recorder_failed_def enc_complete_def answer_ok_def split: option.splits if_splits)
next
  case EncTimeout
  with assms show ?thesis by (auto simp: encoding_timed_out_def enc_complete_def answer_ok_def split: option.splits if_splits)
next
  case EncDeliver
  with assms show ?thesis by (auto simp: deliver_encoding_def answer_ok_def split: option.splits)
qed

definition job_announced :: "m4a_encoder \<Rightarrow> bool" where
  "job_announced c \<longleftrightarrow> (\<exists>j. enc_job c = Some j \<and> job_completed j \<and> job_answer j = None)"

lemma step_announced:
  assumes "enc_step e c = (bs, rs, d)" and "job_announced c"
  shows "rs = [] \<and> job_announced d"
proof (cases e)
  case (EncFeed accepts readable)
  with assms show ?thesis by (cases accepts) (auto simp: job_announced_def)
qed (use assms in \<open>auto simp: job_announced_def enc_write_def recorder_stopped_def recorder_failed_def encoding_timed_out_def
      deliver_encoding_def enc_complete_def split: if_splits\<close>)

lemma run_announced: "enc_run es c = (bs, rs, d) \<Longrightarrow> job_announced c \<Longrightarrow> rs = []"
proof (induction es arbitrary: c bs rs)
  case (Cons e es)
  then show ?case by (auto split: prod.splits dest!: step_announced)
qed simp

lemma run_moves:
  assumes "enc_run es c = (bs, rs, d)" and "job_ok c" "answer_ok c" "EncError [] \<notin> set es"
  shows "job_ok d \<and> job_moves c (sent_bytes bs) d \<and> length rs \<le> 1
    \<and> (\<forall>q. (q, True) \<in> set rs \<longrightarrow> (\<exists>j. enc_job d = Some j \<and> job_path j = q \<and> job_ended j))"
  using assms
proof (induction es arbitrary: c bs rs)
  case Nil
  then show ?case using job_moves_refl by simp
next
  case (Cons e es)
  obtain xs qs m where s: "enc_step e c = (xs, qs, m)" by (metis prod_cases3)
  obtain ys ps n where r: "enc_run es m = (ys, ps, n)" by (metis prod_cases3)
  have f: "bs = xs @ ys" "rs = qs @ ps" "n = d" using Cons.prems(1) s r by auto
  have m: "job_ok m" "job_moves c (sent_bytes xs) m" using step_moves [OF s Cons.prems(2)] by auto
  have a: "answer_ok m" and q: "\<forall>q. (q, True) \<in> set qs \<longrightarrow> (\<exists>j. enc_job m = Some j \<and> job_path j = q \<and> job_ended j)"
    and k: "qs \<noteq> [] \<longrightarrow> length qs = 1 \<and> (\<exists>j k. enc_job c = Some j \<and> job_answer j \<noteq> None \<and> enc_job m = Some k \<and> job_answer k = None)"
    using step_answer [OF s Cons.prems(3,2)] Cons.prems(4) by auto
  note ih = Cons.IH [OF r [unfolded f(3)] m(1) a]
  have t: "job_moves c (sent_bytes bs) d" using job_moves_trans [OF m(2) _ Cons.prems(2) m(1)] ih Cons.prems(4) f by auto
  have one: "qs \<noteq> [] \<Longrightarrow> ps = []"
  proof -
    assume "qs \<noteq> []"
    with k obtain j l where jl: "enc_job c = Some j" "job_answer j \<noteq> None" "enc_job m = Some l" "job_answer l = None" by auto
    then have "job_completed j" using Cons.prems(2) by (auto simp: job_ok_def)
    with m(2) jl have "job_announced m" by (auto simp: job_announced_def job_moves_def)
    then show "ps = []" by (rule run_announced [OF r])
  qed
  have late: "\<exists>j. enc_job d = Some j \<and> job_path j = q \<and> job_ended j" if h: "(q, True) \<in> set qs" for q
  proof -
    obtain j where "enc_job m = Some j" "job_path j = q" "job_ended j" using q h by blast
    moreover have "job_moves m (sent_bytes ys) d" using ih Cons.prems(4) by auto
    ultimately show ?thesis by (auto simp: job_moves_def)
  qed
  have "length rs \<le> 1" using one k ih Cons.prems(4) f by (cases qs) auto
  with t late ih Cons.prems(4) f show ?case by auto
qed

text \<open>
  C28: An encoding sends the captured audio: whenever the library asks and however often it refuses, the
  buffers sent are the first bytes of the recording as it was when the encoding began, in order and each
  once, whatever is captured meanwhile. Success is announced at most once, for the file asked for, and
  only after every byte was sent.
\<close>

theorem encoder_sends_recording:
  assumes "enc_encode p fl None c = (True, c0)" and "enc_run es c0 = (bs, rs, d)" and "EncError [] \<notin> set es"
  shows "(\<exists>n. sent_bytes bs = take n (enc_pcm c)) \<and> length rs \<le> 1
    \<and> (\<forall>q. (q, True) \<in> set rs \<longrightarrow> q = p \<and> sent_bytes bs = enc_pcm c \<and> enc_pcm c \<noteq> [])"
proof -
  let ?j = "\<lparr>job_path = p, job_limit = length (enc_pcm c), job_pos = 0, job_ended = False, job_completed = False, job_answer = None\<rparr>"
  have c0: "c0 = c\<lparr>enc_job := Some ?j\<rparr>" "enc_pcm c \<noteq> []" "0 < enc_frame c"
    using assms(1) by (auto simp: enc_encode_def split: if_splits intro: gr0I)
  then have "job_ok c0" "answer_ok c0" by (auto simp: job_ok_def answer_ok_def)
  from run_moves [OF assms(2) this assms(3)]
  have r: "job_ok d" "job_moves c0 (sent_bytes bs) d" "length rs \<le> 1"
    "\<forall>q. (q, True) \<in> set rs \<longrightarrow> (\<exists>j. enc_job d = Some j \<and> job_path j = q \<and> job_ended j)" by auto
  obtain k where k: "enc_job d = Some k" "job_path k = p" "job_limit k = length (enc_pcm c)" "sent_bytes bs = take (job_pos k) (enc_pcm c)"
    using r(2) c0(1) by (auto simp: job_moves_def)
  have "q = p \<and> sent_bytes bs = enc_pcm c \<and> enc_pcm c \<noteq> []" if "(q, True) \<in> set rs" for q
  proof -
    have "job_path k = q" "job_ended k" using r(4) that k(1) by auto
    with r(1) k c0(2) show ?thesis by (auto simp: job_ok_def)
  qed
  with k r(3) show ?thesis by auto
qed

definition demo_encoder :: m4a_encoder where
  "demo_encoder = new_encoder\<lparr>enc_path := ''v.m4a'', enc_open := True, enc_frame := 2, enc_pcm := [1, 2, 3, 4]\<rparr>"

lemma encoder_sends_recording_witness:
  "\<exists>bs rs d. enc_run [EncWrite [5, 6] True, EncFeed [False] (\<lambda>_. True), EncFeed [True, True] (\<lambda>_. True), EncStopped True, EncDeliver]
      (snd (enc_encode ''v.m4a'' True None demo_encoder)) = (bs, rs, d)
    \<and> rs = [(''v.m4a'', True)] \<and> sent_bytes bs = enc_pcm demo_encoder"
proof -
  let ?c0 = "snd (enc_encode ''v.m4a'' True None demo_encoder)"
  let ?es = "[EncWrite [5, 6] True, EncFeed [False] (\<lambda>_. True), EncFeed [True, True] (\<lambda>_. True), EncStopped True, EncDeliver]"
  have s: "enc_encode ''v.m4a'' True None demo_encoder = (True, ?c0)" by (simp add: enc_encode_def demo_encoder_def new_encoder_def)
  obtain bs rs d where r: "enc_run ?es ?c0 = (bs, rs, d)" by (metis prod_cases3)
  have a: "rs = [(''v.m4a'', True)]"
    using r by (simp add: enc_encode_def demo_encoder_def new_encoder_def enc_write_def recorder_stopped_def enc_complete_def deliver_encoding_def Let_def)
  have "EncError [] \<notin> set ?es" by simp
  from encoder_sends_recording [OF s r this] r a show ?thesis by auto
qed

section \<open>What a step of the job leaves alone\<close>

lemma feed_keeps:
  "enc_feed accepts readable c = (bs, d) \<Longrightarrow> enc_path d = enc_path c \<and> enc_open d = enc_open c \<and> enc_pcm d = enc_pcm c \<and> enc_frame d = enc_frame c"
proof (induction accepts arbitrary: c bs)
  case Nil
  then show ?case by (auto simp: enc_complete_def split: option.splits if_splits)
next
  case (Cons a accepts)
  show ?case
  proof (cases "\<exists>j. enc_job c = Some j \<and> \<not> (job_ended j \<or> job_completed j) \<and> job_pos j \<noteq> job_limit j \<and> readable (job_pos j) \<and> a")
    case True
    then obtain j where j: "enc_job c = Some j" "\<not> (job_ended j \<or> job_completed j)" "job_pos j \<noteq> job_limit j" "readable (job_pos j)" a by blast
    then obtain i cs where "enc_feed accepts readable (c\<lparr>enc_job := Some i\<rparr>) = (cs, d)"
      using Cons.prems by (auto simp: Let_def split: prod.splits)
    from Cons.IH [OF this] show ?thesis by simp
  next
    case False
    with Cons.prems show ?thesis by (auto simp: enc_complete_def Let_def split: option.splits if_splits)
  qed
qed

lemma enc_step_keeps:
  assumes "enc_step e c = (bs, rs, d)"
  shows "enc_path d = enc_path c \<and> enc_open d = enc_open c \<and> ((\<forall>xs b. e \<noteq> EncWrite xs b) \<longrightarrow> enc_pcm d = enc_pcm c)"
  using assms
  by (cases e) (auto simp: enc_write_def recorder_stopped_def recorder_failed_def encoding_timed_out_def deliver_encoding_def
      enc_complete_def split: prod.splits option.splits if_splits dest: feed_keeps)

lemma complete_answers: "\<not> job_announced c \<Longrightarrow> \<not> job_announced (enc_complete e c)"
  by (auto simp: job_announced_def enc_complete_def split: option.splits if_splits)

lemma feed_answers: "enc_feed accepts readable c = (bs, d) \<Longrightarrow> \<not> job_announced c \<Longrightarrow> \<not> job_announced d"
proof (induction accepts arbitrary: c bs)
  case Nil
  then show ?case by (auto simp: complete_answers split: option.splits if_splits)
next
  case (Cons a accepts)
  show ?case
  proof (cases "\<exists>j. enc_job c = Some j \<and> \<not> (job_ended j \<or> job_completed j) \<and> job_pos j \<noteq> job_limit j \<and> readable (job_pos j) \<and> a")
    case True
    then obtain j where j: "enc_job c = Some j" "\<not> (job_ended j \<or> job_completed j)" "job_pos j \<noteq> job_limit j" "readable (job_pos j)" a by blast
    define i where "i = j\<lparr>job_pos := job_pos j + min (job_limit j - job_pos j) (4096 * enc_frame c)\<rparr>"
    obtain cs where r: "enc_feed accepts readable (c\<lparr>enc_job := Some i\<rparr>) = (cs, d)"
      using Cons.prems(1) j by (auto simp: i_def Let_def split: prod.splits)
    have "\<not> job_announced (c\<lparr>enc_job := Some i\<rparr>)" using j by (simp add: job_announced_def i_def)
    from Cons.IH [OF r this] show ?thesis .
  next
    case False
    then have "d = c \<or> d = enc_complete ''Cannot read captured audio.'' c
        \<or> (\<exists>j. enc_job c = Some j \<and> \<not> job_completed j \<and> d = c\<lparr>enc_job := Some (j\<lparr>job_ended := a\<rparr>)\<rparr>)"
      using Cons.prems(1) by (auto simp: Let_def split: option.splits if_splits)
    then show ?thesis using Cons.prems(2) complete_answers by (auto simp: job_announced_def)
  qed
qed

lemma step_answers:
  assumes "enc_step e c = (bs, [], d)" and "\<not> job_announced c"
  shows "\<not> job_announced d"
proof (cases e)
  case (EncFeed accepts readable)
  with assms feed_answers show ?thesis by (auto split: prod.splits)
qed (use assms in \<open>auto simp: recorder_stopped_def recorder_failed_def encoding_timed_out_def deliver_encoding_def enc_write_def job_announced_def
      enc_complete_def split: option.splits if_splits\<close>)

lemma step_success:
  assumes "enc_step e c = (bs, x # xs, d)"
  shows "e = EncDeliver \<and> (\<exists>j. enc_job c = Some j \<and> job_answer j \<noteq> None \<and> x = (job_path j, job_answer j = Some []))"
  using assms
  by (cases e) (auto simp: deliver_encoding_def split: prod.splits option.splits)

end
