(* ===== verification/Voice_Recorder.thy ===== *)
theory Voice_Recorder
  imports M4a_Encoder
begin

text \<open>
  \<open>VoiceRecorder\<close> (core/media/voice_recorder.cpp). The microphone, the permission dialogue and the file
  system are the arguments of the events; a slot that runs while a call is made is an argument of the
  call. What the recorder signals is the list of a step, in order. The zero timers that finish a
  recording wait in the state with the number of the recording they were set for.
\<close>

section \<open>State\<close>

datatype rec_state = RecIdle | RecStarting | RecRecording | RecPaused | RecStopping

record voice_session =
  vs_encoder :: m4a_encoder
  vs_ms :: "nat \<Rightarrow> int"
  vs_preview_path :: "nat \<Rightarrow> string"
  vs_previews :: nat
  vs_final :: bool
  vs_timer :: bool

datatype rec_signal =
    VStateChanged
  | VDurationChanged
  | VOutputChanged
  | VErrorChanged
  | VError string
  | VPreview string int
  | VReady string int
  | VFile string
  | VCanceled

record voice_recorder =
  vr_state :: rec_state
  vr_session :: "voice_session option"
  vr_duration :: int
  vr_output :: string
  vr_error :: string
  vr_request :: "64 word"
  vr_discard :: bool
  vr_finishes :: "64 word list"

definition new_recorder :: voice_recorder where
  "new_recorder = \<lparr>vr_state = RecIdle, vr_session = None, vr_duration = 0, vr_output = [], vr_error = [], vr_request = 0,
     vr_discard = False, vr_finishes = []\<rparr>"

datatype mic_permission = MicGranted | MicDenied | MicUndetermined

record begin_env =
  be_device :: bool
  be_format :: bool
  be_rate :: int
  be_channels :: int
  be_supported :: bool
  be_file_error :: "string option"
  be_path :: string
  be_preview :: "nat \<Rightarrow> string"
  be_ms :: "nat \<Rightarrow> int"
  be_source_fails :: bool
  be_source_error :: bool

record start_env =
  se_local :: bool
  se_writable :: bool
  se_canceled :: bool
  se_permission :: mic_permission

section \<open>Operations\<close>

definition setRecState :: "rec_state \<Rightarrow> voice_recorder \<Rightarrow> rec_signal list \<times> voice_recorder" where
  "setRecState st r = (if vr_state r = st then ([], r) else ([VStateChanged], r\<lparr>vr_state := st\<rparr>))"

definition scheduleFinish :: "voice_recorder \<Rightarrow> voice_recorder" where
  "scheduleFinish r = r\<lparr>vr_finishes := vr_finishes r @ [vr_request r]\<rparr>"

definition rec_fail :: "string \<Rightarrow> voice_recorder \<Rightarrow> rec_signal list \<times> voice_recorder" where
  "rec_fail msg r =
     (let r1 = r\<lparr>vr_error := msg, vr_discard := True\<rparr>
      in case (case vr_session r1 of
                 Some s \<Rightarrow>
                   (case setRecState RecStopping r1 of
                      (es, r2) \<Rightarrow> (es, scheduleFinish (r2\<lparr>vr_session := Some (s\<lparr>vs_timer := False\<rparr>)\<rparr>)))
               | None \<Rightarrow> setRecState RecIdle r1) of
           (es, r3) \<Rightarrow> (es @ [VErrorChanged, VError msg], r3))"

definition beginRecording :: "begin_env \<Rightarrow> voice_recorder \<Rightarrow> rec_signal list \<times> voice_recorder" where
  "beginRecording B r =
     (if \<not> be_device B then rec_fail ''The selected microphone is unavailable.'' r
      else
        (let s = \<lparr>vs_encoder = new_encoder, vs_ms = be_ms B, vs_preview_path = be_preview B, vs_previews = 0, vs_final = False, vs_timer = False\<rparr>;
             r1 = r\<lparr>vr_session := Some s\<rparr>
         in if \<not> be_format B \<or> 2 < be_channels B then rec_fail ''The microphone does not support PCM voice recording.'' r1
            else
              (case enc_start (be_path B) (be_rate B) (be_channels B) (be_supported B) (be_file_error B) (vs_encoder s) of
                 (ok, c) \<Rightarrow>
                   (let r2 = r1\<lparr>vr_session := Some (s\<lparr>vs_encoder := c\<rparr>)\<rparr>
                    in if \<not> ok then rec_fail (enc_error c) r2
                       else if be_source_fails B then rec_fail ''The microphone stopped capturing audio.'' r2
                       else if be_source_error B then rec_fail ''Cannot start the microphone.'' r2
                       else (case setRecState RecRecording (r2\<lparr>vr_session := Some (s\<lparr>vs_encoder := c, vs_timer := True\<rparr>)\<rparr>) of
                               (es, r3) \<Rightarrow> (es @ [VFile (be_path B)], r3))))))"

text \<open>Shared by \<open>stop\<close> and \<open>cancel\<close>: the end of a session that is running.\<close>

definition stop_session :: "voice_session \<Rightarrow> voice_recorder \<Rightarrow> rec_signal list \<times> voice_recorder" where
  "stop_session s r =
     (case setRecState RecStopping r of
        (es, r1) \<Rightarrow> (es, scheduleFinish (r1\<lparr>vr_session := Some (s\<lparr>vs_timer := False\<rparr>)\<rparr>)))"

definition rec_cancel :: "voice_recorder \<Rightarrow> rec_signal list \<times> voice_recorder" where
  "rec_cancel r =
     (if vr_state r = RecIdle then ([], r)
      else
        (let r1 = r\<lparr>vr_discard := True\<rparr>
         in case vr_session r1 of
              Some s \<Rightarrow> if vr_state r1 = RecStopping then ([], scheduleFinish r1) else stop_session s r1
            | None \<Rightarrow>
                (case setRecState RecIdle (r1\<lparr>vr_request := vr_request r1 + 1\<rparr>) of (es, r2) \<Rightarrow> (es @ [VCanceled], r2))))"

definition rec_stop :: "voice_recorder \<Rightarrow> rec_signal list \<times> voice_recorder" where
  "rec_stop r =
     (if vr_state r = RecIdle \<or> vr_state r = RecStopping then ([], r)
      else case vr_session r of None \<Rightarrow> rec_cancel r | Some s \<Rightarrow> stop_session s r)"

text \<open>\<open>se_canceled\<close>: a slot on the change to \<open>Starting\<close> cancels.\<close>

definition rec_start :: "start_env \<Rightarrow> begin_env \<Rightarrow> voice_recorder \<Rightarrow> rec_signal list \<times> voice_recorder" where
  "rec_start S B r =
     (if vr_state r \<noteq> RecIdle then ([], r)
      else
        (let es = [VErrorChanged, VOutputChanged, VDurationChanged];
             r1 = r\<lparr>vr_error := [], vr_output := [], vr_duration := 0, vr_discard := False\<rparr>
         in if \<not> se_local S then (case rec_fail ''The recording directory must be a local folder.'' r1 of (fs, r2) \<Rightarrow> (es @ fs, r2))
            else if \<not> se_writable S then (case rec_fail ''The recording directory is not writable.'' r1 of (fs, r2) \<Rightarrow> (es @ fs, r2))
            else
              (case setRecState RecStarting (r1\<lparr>vr_request := vr_request r1 + 1\<rparr>) of
                 (fs, r2) \<Rightarrow>
                   if se_canceled S then (case rec_cancel r2 of (gs, r3) \<Rightarrow> (es @ fs @ gs, r3))
                   else
                     (case (case se_permission S of
                              MicGranted \<Rightarrow> beginRecording B r2
                            | MicDenied \<Rightarrow> rec_fail ''Microphone access is denied. Enable it in system settings.'' r2
                            | MicUndetermined \<Rightarrow> ([], r2)) of
                        (gs, r3) \<Rightarrow> (es @ fs @ gs, r3)))))"

definition rec_permission :: "64 word \<Rightarrow> bool \<Rightarrow> begin_env \<Rightarrow> voice_recorder \<Rightarrow> rec_signal list \<times> voice_recorder" where
  "rec_permission req granted B r =
     (if req \<noteq> vr_request r \<or> vr_state r \<noteq> RecStarting then ([], r)
      else if granted then beginRecording B r
      else rec_fail ''Microphone access is required to record voice.'' r)"

definition measured :: "voice_session \<Rightarrow> int" where
  "measured s = vs_ms s (length (enc_pcm (vs_encoder s)))"

definition rec_pause :: "bool \<Rightarrow> bool \<Rightarrow> string option \<Rightarrow> voice_recorder \<Rightarrow> rec_signal list \<times> voice_recorder" where
  "rec_pause source_fails flushed file_error r =
     (case vr_session r of
        None \<Rightarrow> ([], r)
      | Some s \<Rightarrow>
          if vr_state r \<noteq> RecRecording then ([], r)
          else if source_fails then rec_fail ''The microphone stopped capturing audio.'' r
          else
            (case setRecState RecPaused r of
               (es, r1) \<Rightarrow>
                 (case enc_encode (vs_preview_path s (vs_previews s + 1)) flushed file_error (vs_encoder s) of
                    (ok, c) \<Rightarrow>
                      (let r2 = r1\<lparr>vr_duration := measured s,
                                   vr_session := Some (s\<lparr>vs_timer := False, vs_previews := vs_previews s + 1, vs_encoder := c\<rparr>)\<rparr>
                       in if ok then (es @ [VDurationChanged], r2)
                          else (es @ [VDurationChanged, VErrorChanged, VError (enc_error c)], r2\<lparr>vr_error := enc_error c\<rparr>)))))"

definition rec_resume :: "bool \<Rightarrow> voice_recorder \<Rightarrow> rec_signal list \<times> voice_recorder" where
  "rec_resume source_fails r =
     (case vr_session r of
        None \<Rightarrow> ([], r)
      | Some s \<Rightarrow>
          if vr_state r \<noteq> RecPaused then ([], r)
          else if source_fails then rec_fail ''The microphone stopped capturing audio.'' r
          else setRecState RecRecording (r\<lparr>vr_session := Some (s\<lparr>vs_timer := True\<rparr>)\<rparr>))"

definition completeRecording :: "bool \<Rightarrow> voice_recorder \<Rightarrow> rec_signal list \<times> voice_recorder" where
  "completeRecording saved r =
     (case vr_session r of
        None \<Rightarrow> ([], r)
      | Some s \<Rightarrow>
          (let location = enc_path (vs_encoder s);
               missing = (\<not> saved \<and> \<not> vr_discard r \<and> vr_error r = []);
               r1 = (if saved then r\<lparr>vr_output := location\<rparr> else if missing then r\<lparr>vr_error := enc_error (vs_encoder s)\<rparr> else r);
               e = vr_error r1
           in case setRecState RecIdle (r1\<lparr>vr_session := None\<rparr>) of
                (es, r2) \<Rightarrow>
                  (VOutputChanged # es
                   @ (if saved then [VReady location (vr_duration r1)]
                      else if e = [] then [VCanceled]
                      else VErrorChanged # (if missing then [VError e] else [])), r2)))"

definition finishRecording :: "bool \<Rightarrow> string option \<Rightarrow> voice_recorder \<Rightarrow> rec_signal list \<times> voice_recorder" where
  "finishRecording flushed file_error r =
     (case vr_session r of
        None \<Rightarrow> ([], r)
      | Some s \<Rightarrow>
          if vr_state r \<noteq> RecStopping then ([], r)
          else
            (let r1 = r\<lparr>vr_duration := measured s\<rparr>
             in if vr_discard r1 then (case completeRecording False r1 of (es, r2) \<Rightarrow> (VDurationChanged # es, r2))
                else
                  (case enc_finish flushed file_error (vs_encoder s) of
                     (ok, c) \<Rightarrow>
                       (let r2 = r1\<lparr>vr_session := Some (s\<lparr>vs_final := True, vs_encoder := c\<rparr>)\<rparr>
                        in if ok then ([VDurationChanged], r2)
                           else (case completeRecording False r2 of (es, r3) \<Rightarrow> (VDurationChanged # es, r3))))))"

definition finish_timer :: "bool \<Rightarrow> string option \<Rightarrow> voice_recorder \<Rightarrow> rec_signal list \<times> voice_recorder" where
  "finish_timer flushed file_error r =
     (case vr_finishes r of
        [] \<Rightarrow> ([], r)
      | req # rest \<Rightarrow>
          (let r1 = r\<lparr>vr_finishes := rest\<rparr> in if req = vr_request r1 then finishRecording flushed file_error r1 else ([], r1)))"

definition duration_tick :: "voice_recorder \<Rightarrow> rec_signal list \<times> voice_recorder" where
  "duration_tick r =
     (case vr_session r of
        Some s \<Rightarrow> if vs_timer s then ([VDurationChanged], r\<lparr>vr_duration := measured s\<rparr>) else ([], r)
      | None \<Rightarrow> ([], r))"

definition source_failed :: "voice_recorder \<Rightarrow> rec_signal list \<times> voice_recorder" where
  "source_failed r =
     (if vr_state r \<noteq> RecStopping \<and> vr_session r \<noteq> None then rec_fail ''The microphone stopped capturing audio.'' r else ([], r))"

text \<open>The slot on \<open>encodingFinished\<close>.\<close>

definition on_encoded :: "string \<Rightarrow> bool \<Rightarrow> voice_recorder \<Rightarrow> rec_signal list \<times> voice_recorder" where
  "on_encoded path success r =
     (case vr_session r of
        None \<Rightarrow> ([], r)
      | Some s \<Rightarrow>
          if vs_final s then completeRecording (success \<and> \<not> vr_discard r) r
          else if vr_state r = RecPaused
          then (if success then ([VPreview path (vr_duration r)], r)
                else (let e = enc_error (vs_encoder s) in ([VErrorChanged, VError e], r\<lparr>vr_error := e\<rparr>)))
          else ([], r))"

text \<open>What happens in the encoder; a closed device takes no audio.\<close>

definition encoder_event :: "enc_event \<Rightarrow> voice_recorder \<Rightarrow> rec_signal list \<times> voice_recorder" where
  "encoder_event e r =
     (case vr_session r of
        None \<Rightarrow> ([], r)
      | Some s \<Rightarrow>
          if (case e of EncWrite _ _ \<Rightarrow> \<not> enc_open (vs_encoder s) | _ \<Rightarrow> False) then ([], r)
          else
            (case enc_step e (vs_encoder s) of
               (_, rs, c) \<Rightarrow>
                 (let r1 = r\<lparr>vr_session := Some (s\<lparr>vs_encoder := c\<rparr>)\<rparr>
                  in case rs of [] \<Rightarrow> ([], r1) | (path, success) # _ \<Rightarrow> on_encoded path success r1)))"

datatype rec_event =
    RecStart start_env begin_env
  | RecPermission "64 word" bool begin_env
  | RecPause bool bool "string option"
  | RecResume bool
  | RecStop
  | RecCancel
  | RecFinish bool "string option"
  | RecTick
  | RecSourceFailed
  | RecEncoder enc_event

fun rec_step :: "rec_event \<Rightarrow> voice_recorder \<Rightarrow> rec_signal list \<times> voice_recorder" where
  "rec_step (RecStart S B) r = rec_start S B r"
| "rec_step (RecPermission req granted B) r = rec_permission req granted B r"
| "rec_step (RecPause source_fails flushed file_error) r = rec_pause source_fails flushed file_error r"
| "rec_step (RecResume source_fails) r = rec_resume source_fails r"
| "rec_step RecStop r = rec_stop r"
| "rec_step RecCancel r = rec_cancel r"
| "rec_step (RecFinish flushed file_error) r = finish_timer flushed file_error r"
| "rec_step RecTick r = duration_tick r"
| "rec_step RecSourceFailed r = source_failed r"
| "rec_step (RecEncoder e) r = encoder_event e r"

fun rec_run :: "rec_event list \<Rightarrow> voice_recorder \<Rightarrow> rec_signal list \<times> voice_recorder" where
  "rec_run [] r = ([], r)"
| "rec_run (e # es) r = (case rec_step e r of (fs, r1) \<Rightarrow> (case rec_run es r1 of (gs, r2) \<Rightarrow> (fs @ gs, r2)))"

section \<open>The invariant\<close>

definition final_ok :: "voice_recorder \<Rightarrow> voice_session \<Rightarrow> bool" where
  "final_ok r s \<longleftrightarrow> vr_state r = RecStopping \<and> \<not> enc_open (vs_encoder s) \<and> vr_duration r = measured s \<and> \<not> job_announced (vs_encoder s)
     \<and> (\<exists>j. enc_job (vs_encoder s) = Some j \<and> job_path j = enc_path (vs_encoder s))"

text \<open>
  There is a session exactly while a recording runs or ends; an ending one waits for a timer of its own
  or for the encoder, and is only left to the encoder with its device closed and its duration measured.
\<close>

definition rec_ok :: "voice_recorder \<Rightarrow> bool" where
  "rec_ok r \<longleftrightarrow>
     (vr_session r = None \<longleftrightarrow> vr_state r = RecIdle \<or> vr_state r = RecStarting)
   \<and> (vr_state r = RecStarting \<longrightarrow> \<not> vr_discard r)
   \<and> (\<forall>s. vr_session r = Some s \<longrightarrow> job_ok (vs_encoder s) \<and> (vs_final s \<longrightarrow> final_ok r s)
        \<and> (vr_state r = RecStopping \<longrightarrow> \<not> vs_timer s \<and> (vr_request r \<in> set (vr_finishes r) \<or> vs_final s)))"

definition never_ready :: "rec_signal list \<Rightarrow> bool" where
  "never_ready fs \<longleftrightarrow> (\<forall>p d. VReady p d \<notin> set fs)"

lemma never_ready_simps [simp]:
  "never_ready []" "never_ready (f # fs) \<longleftrightarrow> (\<forall>p d. f \<noteq> VReady p d) \<and> never_ready fs"
  "never_ready (fs @ gs) \<longleftrightarrow> never_ready fs \<and> never_ready gs"
  by (auto simp: never_ready_def)

lemma new_encoder_ok: "job_ok new_encoder"
  by (simp add: job_ok_def new_encoder_def)

lemma enc_start_ok: "enc_start p a b sp fe c = (ok, d) \<Longrightarrow> job_ok c \<Longrightarrow> enc_job c = None \<Longrightarrow> job_ok d"
  by (auto simp: enc_start_def job_ok_def Let_def split: if_splits option.splits)

lemma encode_ok:
  assumes "enc_encode p fl fe c = (ok, d)" and "job_ok c"
  shows "job_ok d \<and> enc_path d = enc_path c \<and> enc_pcm d = enc_pcm c \<and> enc_open d = enc_open c
    \<and> (ok \<longrightarrow> \<not> job_announced d \<and> (\<exists>j. enc_job d = Some j \<and> job_path j = p))"
proof (cases ok)
  case True
  with assms(1) have "d = c\<lparr>enc_job := Some \<lparr>job_path = p, job_limit = length (enc_pcm c), job_pos = 0, job_ended = False, job_completed = False,
      job_answer = None\<rparr>\<rparr>" "0 < enc_frame c"
    by (auto simp: enc_encode_def split: if_splits option.splits intro: gr0I)
  then show ?thesis by (simp add: job_ok_def job_announced_def)
next
  case False
  with assms(1) obtain x where "d = c\<lparr>enc_error := x\<rparr> \<or> d = c\<lparr>enc_job := None, enc_error := x\<rparr>"
    by (auto simp: enc_encode_def split: if_splits option.splits)
  moreover have "job_ok (c\<lparr>enc_error := x\<rparr>)" "job_ok (c\<lparr>enc_job := None, enc_error := x\<rparr>)"
    using assms(2) by (simp_all add: job_ok_def split: option.splits)
  ultimately show ?thesis using False by auto
qed

lemma enc_finish_ok:
  assumes "enc_finish fl fe c = (ok, d)" and "job_ok c"
  shows "job_ok d \<and> enc_path d = enc_path c \<and> enc_pcm d = enc_pcm c
    \<and> (ok \<longrightarrow> \<not> job_announced d \<and> \<not> enc_open d \<and> (\<exists>j. enc_job d = Some j \<and> job_path j = enc_path c))"
proof -
  obtain k c1 where e: "enc_encode (enc_path c) fl fe c = (k, c1)" by fastforce
  with assms(1) have "ok = k" "d = (if k then c1\<lparr>enc_open := False\<rparr> else c1)" by (auto simp: enc_finish_def split: if_splits)
  moreover have "job_ok (c1\<lparr>enc_open := False\<rparr>) = job_ok c1" "job_announced (c1\<lparr>enc_open := False\<rparr>) = job_announced c1"
    by (simp_all add: job_ok_def job_announced_def split: option.splits)
  ultimately show ?thesis using encode_ok [OF e assms(2)] by (cases k) auto
qed

lemma fail_ok:
  assumes "rec_fail msg r = (fs, r')" and "\<And>s. vr_session r = Some s \<Longrightarrow> job_ok (vs_encoder s) \<and> \<not> vs_final s"
  shows "rec_ok r' \<and> never_ready fs \<and> vr_discard r' \<and> vr_request r' = vr_request r \<and> vr_state r' \<in> {RecIdle, RecStopping}"
  using assms
  by (cases "vr_session r")
    (auto simp: rec_fail_def setRecState_def scheduleFinish_def rec_ok_def final_ok_def Let_def split: if_splits)

lemma begin_ok:
  assumes "beginRecording B r = (fs, r')" and "vr_session r = None"
  shows "rec_ok r' \<and> never_ready fs"
proof (cases "be_device B \<and> be_format B \<and> be_channels B \<le> 2")
  case False
  let ?s0 = "\<lparr>vs_encoder = new_encoder, vs_ms = be_ms B, vs_preview_path = be_preview B, vs_previews = 0, vs_final = False, vs_timer = False\<rparr>"
  show ?thesis
  proof (cases "be_device B")
    case True
    with False assms(1) have "rec_fail ''The microphone does not support PCM voice recording.'' (r\<lparr>vr_session := Some ?s0\<rparr>) = (fs, r')"
      by (simp add: beginRecording_def Let_def not_le)
    from fail_ok [OF this] new_encoder_ok show ?thesis by simp
  next
    case False
    with assms(1) have "rec_fail ''The selected microphone is unavailable.'' r = (fs, r')" by (simp add: beginRecording_def)
    from fail_ok [OF this] assms(2) show ?thesis by simp
  qed
next
  case True
  obtain ok c where st: "enc_start (be_path B) (be_rate B) (be_channels B) (be_supported B) (be_file_error B) new_encoder = (ok, c)" by fastforce
  have c: "job_ok c" by (rule enc_start_ok [OF st new_encoder_ok]) (simp add: new_encoder_def)
  let ?s = "\<lparr>vs_encoder = c, vs_ms = be_ms B, vs_preview_path = be_preview B, vs_previews = 0, vs_final = False, vs_timer = False\<rparr>"
  show ?thesis
  proof (cases "ok \<and> \<not> be_source_fails B \<and> \<not> be_source_error B")
    case False
    then have "\<exists>msg. rec_fail msg (r\<lparr>vr_session := Some ?s\<rparr>) = (fs, r')"
      using assms(1) True st by (auto simp: beginRecording_def Let_def split: if_splits)
    then show ?thesis using fail_ok [of _ "r\<lparr>vr_session := Some ?s\<rparr>" fs r'] c by auto
  next
    case g: True
    then have "fs = fst (setRecState RecRecording (r\<lparr>vr_session := Some (?s\<lparr>vs_timer := True\<rparr>)\<rparr>)) @ [VFile (be_path B)]"
      "r' = snd (setRecState RecRecording (r\<lparr>vr_session := Some (?s\<lparr>vs_timer := True\<rparr>)\<rparr>))"
      using assms(1) True st by (auto simp: beginRecording_def Let_def split: prod.splits)
    with c show ?thesis by (auto simp: setRecState_def rec_ok_def)
  qed
qed

lemma stop_session_ok:
  assumes "stop_session s r = (fs, r')" and "rec_ok r" "vr_session r = Some s" "vr_state r \<noteq> RecStopping"
  shows "rec_ok r' \<and> never_ready fs \<and> vr_discard r' = vr_discard r"
  using assms by (auto simp: stop_session_def setRecState_def scheduleFinish_def rec_ok_def final_ok_def split: if_splits)

lemma discard_ok: "rec_ok r \<Longrightarrow> vr_session r = Some s \<Longrightarrow> rec_ok (r\<lparr>vr_discard := True\<rparr>)"
  by (auto simp: rec_ok_def final_ok_def measured_def)

lemma final_ok_finishes [simp]: "final_ok (r\<lparr>vr_finishes := xs\<rparr>) s = final_ok r s"
  by (simp add: final_ok_def)

lemma finishes_ok:
  assumes "rec_ok r" and "vr_state r = RecStopping \<Longrightarrow> vr_request r \<in> set (vr_finishes r) \<Longrightarrow> vr_request r \<in> set xs"
  shows "rec_ok (r\<lparr>vr_finishes := xs\<rparr>)"
  using assms unfolding rec_ok_def by simp blast

lemma cancel_rec_ok:
  assumes "rec_cancel r = (fs, r')" and "rec_ok r"
  shows "rec_ok r' \<and> never_ready fs \<and> (vr_discard r' \<or> vr_state r' = RecIdle)"
proof (cases "vr_session r")
  case None
  with assms show ?thesis by (auto simp: rec_cancel_def setRecState_def rec_ok_def Let_def split: if_splits)
next
  case (Some s)
  note d = discard_ok [OF assms(2) Some]
  show ?thesis
  proof (cases "vr_state r = RecStopping")
    case True
    with assms Some have "fs = []" "r' = scheduleFinish (r\<lparr>vr_discard := True\<rparr>)" by (auto simp: rec_cancel_def Let_def)
    moreover have "rec_ok r'" unfolding calculation(2) scheduleFinish_def by (rule finishes_ok [OF d]) simp
    ultimately show ?thesis by (simp add: scheduleFinish_def)
  next
    case False
    then have "vr_state r \<noteq> RecIdle" using assms(2) Some by (auto simp: rec_ok_def)
    with False assms(1) Some have "stop_session s (r\<lparr>vr_discard := True\<rparr>) = (fs, r')" by (auto simp: rec_cancel_def Let_def)
    from stop_session_ok [OF this d] Some False show ?thesis by simp
  qed
qed

lemma stop_ok:
  assumes "rec_stop r = (fs, r')" and "rec_ok r"
  shows "rec_ok r' \<and> never_ready fs"
  using assms cancel_rec_ok [of r fs r'] stop_session_ok [of _ r fs r']
  by (auto simp: rec_stop_def split: if_splits option.splits)

lemma rec_start_ok:
  assumes "rec_start S B r = (fs, r')" and "rec_ok r"
  shows "rec_ok r' \<and> never_ready fs"
proof (cases "vr_state r = RecIdle")
  case False
  with assms show ?thesis by (simp add: rec_start_def)
next
  case idle: True
  let ?r1 = "r\<lparr>vr_error := [], vr_output := [], vr_duration := 0, vr_discard := False\<rparr>"
  let ?r2 = "?r1\<lparr>vr_request := vr_request r + 1, vr_state := RecStarting\<rparr>"
  have none: "vr_session r = None" using assms(2) idle by (simp add: rec_ok_def)
  have ok2: "rec_ok ?r2" using none by (simp add: rec_ok_def)
  consider gs msg where "rec_fail msg ?r1 = (gs, r')" "fs = [VErrorChanged, VOutputChanged, VDurationChanged] @ gs"
    | gs where "fs = [VErrorChanged, VOutputChanged, VDurationChanged, VStateChanged] @ gs"
        "rec_cancel ?r2 = (gs, r') \<or> beginRecording B ?r2 = (gs, r') \<or> (\<exists>msg. rec_fail msg ?r2 = (gs, r')) \<or> (gs, r') = ([], ?r2)"
    using assms(1) idle by (auto simp: rec_start_def setRecState_def Let_def split: if_splits prod.splits mic_permission.splits)
  then show ?thesis
  proof cases
    case 1
    with fail_ok [OF 1(1)] none show ?thesis by auto
  next
    case 2
    with cancel_rec_ok [OF _ ok2, of gs r'] begin_ok [of B ?r2 gs r'] fail_ok [of _ ?r2 gs r'] ok2 none show ?thesis by auto
  qed
qed

lemma permission_ok:
  assumes "rec_permission req granted B r = (fs, r')" and "rec_ok r"
  shows "rec_ok r' \<and> never_ready fs"
proof (cases "req \<noteq> vr_request r \<or> vr_state r \<noteq> RecStarting")
  case True
  with assms show ?thesis by (auto simp: rec_permission_def)
next
  case False
  then have none: "vr_session r = None" using assms(2) by (simp add: rec_ok_def)
  show ?thesis
  proof (cases granted)
    case True
    with False assms(1) have "beginRecording B r = (fs, r')" by (simp add: rec_permission_def)
    from begin_ok [OF this none] show ?thesis .
  next
    case c: False
    with False assms(1) have "rec_fail ''Microphone access is required to record voice.'' r = (fs, r')" by (simp add: rec_permission_def)
    from fail_ok [OF this] none show ?thesis by simp
  qed
qed

lemma session_facts:
  assumes "rec_ok r" and "vr_session r = Some s"
  shows "job_ok (vs_encoder s)" "vr_state r \<noteq> RecStopping \<Longrightarrow> \<not> vs_final s" "vr_state r \<noteq> RecIdle" "vr_state r \<noteq> RecStarting"
  using assms by (auto simp: rec_ok_def final_ok_def)

lemma pause_ok:
  assumes "rec_pause sf fl fe r = (fs, r')" and "rec_ok r"
  shows "rec_ok r' \<and> never_ready fs"
proof (cases "vr_session r")
  case None
  with assms show ?thesis by (simp add: rec_pause_def)
next
  case (Some s)
  note f = session_facts [OF assms(2) Some]
  show ?thesis
  proof (cases "vr_state r = RecRecording \<and> \<not> sf")
    case False
    show ?thesis
    proof (cases "vr_state r = RecRecording")
      case True
      with False Some assms(1) have "rec_fail ''The microphone stopped capturing audio.'' r = (fs, r')" by (simp add: rec_pause_def)
      from fail_ok [OF this] Some f True show ?thesis by auto
    next
      case False
      with Some assms show ?thesis by (simp add: rec_pause_def)
    qed
  next
    case True
    obtain ok c where e: "enc_encode (vs_preview_path s (vs_previews s + 1)) fl fe (vs_encoder s) = (ok, c)" by fastforce
    let ?r = "r\<lparr>vr_state := RecPaused, vr_duration := measured s,
        vr_session := Some (s\<lparr>vs_timer := False, vs_previews := vs_previews s + 1, vs_encoder := c\<rparr>)\<rparr>"
    have "fs = (if ok then [VStateChanged, VDurationChanged] else [VStateChanged, VDurationChanged, VErrorChanged, VError (enc_error c)])"
      "r' = (if ok then ?r else ?r\<lparr>vr_error := enc_error c\<rparr>)"
      using assms(1) True Some e by (auto simp: rec_pause_def setRecState_def Let_def split: if_splits)
    moreover have "\<not> vs_final s" "job_ok c" using f True encode_ok [OF e f(1)] by auto
    ultimately show ?thesis by (simp add: rec_ok_def)
  qed
qed

lemma resume_ok:
  assumes "rec_resume sf r = (fs, r')" and "rec_ok r"
  shows "rec_ok r' \<and> never_ready fs"
proof (cases "vr_session r")
  case None
  with assms show ?thesis by (simp add: rec_resume_def)
next
  case (Some s)
  note f = session_facts [OF assms(2) Some]
  show ?thesis
  proof (cases "vr_state r = RecPaused")
    case False
    with Some assms show ?thesis by (simp add: rec_resume_def)
  next
    case True
    with f have nf: "\<not> vs_final s" by simp
    show ?thesis
    proof (cases sf)
      case True
      with \<open>vr_state r = RecPaused\<close> Some assms(1) have "rec_fail ''The microphone stopped capturing audio.'' r = (fs, r')"
        by (simp add: rec_resume_def)
      from fail_ok [OF this] Some f nf show ?thesis by auto
    next
      case False
      with True Some assms(1) have "fs = [VStateChanged]" "r' = r\<lparr>vr_session := Some (s\<lparr>vs_timer := True\<rparr>), vr_state := RecRecording\<rparr>"
        by (auto simp: rec_resume_def setRecState_def)
      with nf f(1) show ?thesis by (simp add: rec_ok_def)
    qed
  qed
qed

lemma complete_ok:
  assumes "completeRecording saved r = (fs, r')" and "vr_session r = Some s" "vr_state r = RecStopping"
  shows "rec_ok r' \<and> vr_state r' = RecIdle \<and> vr_session r' = None \<and> vr_discard r' = vr_discard r
    \<and> (if saved then VReady (enc_path (vs_encoder s)) (vr_duration r) \<in> set fs \<and> vr_output r' = enc_path (vs_encoder s)
          \<and> (\<forall>p d. VReady p d \<in> set fs \<longrightarrow> p = enc_path (vs_encoder s) \<and> d = vr_duration r)
       else never_ready fs)"
  using assms by (auto simp: completeRecording_def setRecState_def rec_ok_def Let_def split: if_splits)

lemma finishRecording_ok:
  assumes "finishRecording fl fe r = (fs, r')" and "\<And>s. vr_session r = Some s \<Longrightarrow> job_ok (vs_encoder s)"
    and "vr_session r = Some s" "vr_state r = RecStopping" "\<not> vs_timer s"
  shows "rec_ok r' \<and> never_ready fs \<and> (vr_state r' = RecIdle \<or> vr_discard r' = vr_discard r
    \<and> (\<exists>t. vr_session r' = Some t \<and> vs_final t))"
proof (cases "vr_discard r")
  case True
  obtain gs where c: "completeRecording False (r\<lparr>vr_duration := measured s\<rparr>) = (gs, r')" "fs = VDurationChanged # gs"
    using assms True by (auto simp: finishRecording_def Let_def split: prod.splits)
  from complete_ok [OF c(1), of s] assms(3,4) c(2) show ?thesis by simp
next
  case False
  obtain ok c where e: "enc_finish fl fe (vs_encoder s) = (ok, c)" by fastforce
  let ?r = "r\<lparr>vr_duration := measured s, vr_session := Some (s\<lparr>vs_final := True, vs_encoder := c\<rparr>)\<rparr>"
  have j: "job_ok (vs_encoder s)" using assms(2,3) by blast
  note f = enc_finish_ok [OF e j]
  show ?thesis
  proof (cases ok)
    case True
    with assms False e have "fs = [VDurationChanged]" "r' = ?r" by (auto simp: finishRecording_def Let_def)
    with f True assms(4,5) show ?thesis by (auto simp: rec_ok_def final_ok_def measured_def)
  next
    case c: False
    obtain gs where c: "completeRecording False ?r = (gs, r')" "fs = VDurationChanged # gs"
      using assms False e c by (auto simp: finishRecording_def Let_def split: prod.splits)
    from complete_ok [OF c(1), of "s\<lparr>vs_final := True, vs_encoder := c\<rparr>"] assms(4) c(2) show ?thesis by simp
  qed
qed

lemma finish_timer_ok:
  assumes "finish_timer fl fe r = (fs, r')" and "rec_ok r"
  shows "rec_ok r' \<and> never_ready fs"
proof (cases "vr_finishes r")
  case Nil
  with assms show ?thesis by (simp add: finish_timer_def)
next
  case (Cons q qs)
  let ?r = "r\<lparr>vr_finishes := qs\<rparr>"
  show ?thesis
  proof (cases "q = vr_request r \<and> vr_state r = RecStopping")
    case True
    then obtain s where s: "vr_session r = Some s" using assms(2) by (auto simp: rec_ok_def)
    have "\<not> vs_timer s" "job_ok (vs_encoder s)" using assms(2) s True by (auto simp: rec_ok_def)
    moreover have "finishRecording fl fe ?r = (fs, r')" using assms(1) Cons True by (simp add: finish_timer_def)
    ultimately show ?thesis using finishRecording_ok [of fl fe ?r fs r' s] s True by simp
  next
    case False
    then have "fs = [] \<and> r' = ?r"
      using assms(1) Cons by (auto simp: finish_timer_def finishRecording_def Let_def split: if_splits option.splits)
    moreover have "rec_ok ?r" by (rule finishes_ok [OF assms(2)]) (use Cons False in auto)
    ultimately show ?thesis by simp
  qed
qed

text \<open>What is behind a finished recording.\<close>

definition ready_from :: "rec_event \<Rightarrow> voice_recorder \<Rightarrow> string \<Rightarrow> int \<Rightarrow> voice_recorder \<Rightarrow> bool" where
  "ready_from e r p d r' \<longleftrightarrow> e = RecEncoder EncDeliver \<and> \<not> vr_discard r \<and> vr_state r' = RecIdle \<and> vr_session r' = None \<and> vr_output r' = p
     \<and> (\<exists>s j. vr_session r = Some s \<and> vs_final s \<and> p = enc_path (vs_encoder s) \<and> d = measured s
          \<and> enc_job (vs_encoder s) = Some j \<and> job_path j = p \<and> job_answer j = Some [])"

lemma encoder_ok:
  assumes "encoder_event e r = (fs, r')" and "rec_ok r"
  shows "rec_ok r' \<and> (\<forall>p d. VReady p d \<in> set fs \<longrightarrow> ready_from (RecEncoder e) r p d r')"
proof (cases "vr_session r")
  case None
  with assms show ?thesis by (simp add: encoder_event_def)
next
  case (Some s)
  note f = session_facts [OF assms(2) Some]
  obtain bs rs c where st: "enc_step e (vs_encoder s) = (bs, rs, c)" by (metis prod_cases3)
  let ?s = "s\<lparr>vs_encoder := c\<rparr>" and ?r = "r\<lparr>vr_session := Some (s\<lparr>vs_encoder := c\<rparr>)\<rparr>"
  have j: "job_ok c" "job_moves (vs_encoder s) (sent_bytes bs) c" using step_moves [OF st f(1)] by auto
  show ?thesis
  proof (cases "\<exists>xs b. e = EncWrite xs b \<and> \<not> enc_open (vs_encoder s)")
    case True
    with assms Some have "fs = []" "r' = r" by (auto simp: encoder_event_def)
    with assms(2) show ?thesis by simp
  next
    case False
    have "\<not> (case e of EncWrite _ _ \<Rightarrow> \<not> enc_open (vs_encoder s) | _ \<Rightarrow> False)" by (cases e) (use False in simp_all)
    with assms(1) Some st have run: "(fs, r') = (case rs of [] \<Rightarrow> ([], ?r) | (path, success) # _ \<Rightarrow> on_encoded path success ?r)"
      by (simp add: encoder_event_def Let_def)
    have final: "enc_path c = enc_path (vs_encoder s) \<and> enc_pcm c = enc_pcm (vs_encoder s) \<and> \<not> enc_open c
        \<and> (\<exists>k. enc_job c = Some k \<and> job_path k = enc_path c) \<and> vr_state r = RecStopping \<and> vr_duration r = measured s" if "vs_final s"
    proof -
      from assms(2) Some that have o: "final_ok r s" by (auto simp: rec_ok_def)
      with False have w: "\<forall>xs b. e \<noteq> EncWrite xs b" by (auto simp: final_ok_def)
      from o j(2) have "\<exists>k. enc_job c = Some k \<and> job_path k = enc_path (vs_encoder s)" by (auto simp: final_ok_def job_moves_def)
      with enc_step_keeps [OF st] w o show ?thesis by (auto simp: final_ok_def)
    qed
    show ?thesis
    proof (cases rs)
      case Nil
      have "final_ok ?r ?s" if v: "vs_final s"
      proof -
        from assms(2) Some v have "\<not> job_announced (vs_encoder s)" by (auto simp: rec_ok_def final_ok_def)
        with step_answers st Nil have "\<not> job_announced c" by auto
        with final [OF v] show ?thesis by (auto simp: final_ok_def measured_def)
      qed
      then have "rec_ok ?r" using assms(2) Some j(1) by (auto simp: rec_ok_def)
      with run Nil show ?thesis by simp
    next
      case (Cons x xs)
      obtain k where d: "e = EncDeliver" "enc_job (vs_encoder s) = Some k" "x = (job_path k, job_answer k = Some [])"
        using step_success [of e "vs_encoder s" bs x xs c] st Cons by auto
      have go: "on_encoded (job_path k) (job_answer k = Some []) ?r = (fs, r')" using run Cons d(3) by simp
      show ?thesis
      proof (cases "vs_final s")
        case True
        note fin = final [OF True]
        let ?saved = "job_answer k = Some [] \<and> \<not> vr_discard r"
        have c: "completeRecording ?saved ?r = (fs, r')" using go True by (simp add: on_encoded_def)
        have "measured ?s = measured s" using fin by (simp add: measured_def)
        moreover have "job_path k = enc_path (vs_encoder s)"
          using assms(2) Some True d(2) by (auto simp: rec_ok_def final_ok_def)
        ultimately show ?thesis
          using complete_ok [OF c, of ?s] fin d True Some by (auto simp: ready_from_def never_ready_def split: if_splits)
      next
        case False
        then have keep: "rec_ok ?r" using assms(2) Some j(1) by (auto simp: rec_ok_def)
        from False go have "never_ready fs \<and> (\<exists>e. r' = ?r \<or> r' = ?r\<lparr>vr_error := e\<rparr>)"
          by (auto simp: on_encoded_def Let_def split: if_splits)
        moreover have "rec_ok (?r\<lparr>vr_error := e\<rparr>)" for e using keep by (simp add: rec_ok_def final_ok_def)
        ultimately show ?thesis using keep by (auto simp: never_ready_def)
      qed
    qed
  qed
qed

lemma rec_step_ok:
  assumes "rec_step e r = (fs, r')" and "rec_ok r"
  shows "rec_ok r' \<and> (\<forall>p d. VReady p d \<in> set fs \<longrightarrow> ready_from e r p d r')"
proof (cases e)
  case (RecEncoder x)
  with assms encoder_ok show ?thesis by auto
next
  case RecTick
  then consider "fs = []" "r' = r" | s where "vr_session r = Some s" "vs_timer s" "fs = [VDurationChanged]" "r' = r\<lparr>vr_duration := measured s\<rparr>"
    using assms(1) by (auto simp: duration_tick_def split: option.splits if_splits)
  then show ?thesis
  proof cases
    case 1
    with assms(2) show ?thesis by simp
  next
    case (2 s)
    with assms(2) have "vr_state r \<noteq> RecStopping" "\<not> vs_final s" by (auto simp: rec_ok_def final_ok_def)
    with 2 assms(2) show ?thesis by (simp add: rec_ok_def)
  qed
next
  case RecSourceFailed
  show ?thesis
  proof (cases "vr_state r \<noteq> RecStopping \<and> vr_session r \<noteq> None")
    case True
    with assms RecSourceFailed have "rec_fail ''The microphone stopped capturing audio.'' r = (fs, r')" by (simp add: source_failed_def)
    from fail_ok [OF this] session_facts [OF assms(2)] True show ?thesis by (auto simp: never_ready_def)
  next
    case False
    with assms RecSourceFailed show ?thesis by (auto simp: source_failed_def)
  qed
qed (use assms rec_start_ok permission_ok pause_ok resume_ok stop_ok cancel_rec_ok finish_timer_ok in \<open>auto simp: never_ready_def\<close>)

lemma rec_run_ok: "rec_run es r = (fs, r') \<Longrightarrow> rec_ok r \<Longrightarrow> rec_ok r'"
proof (induction es arbitrary: r fs)
  case (Cons e es)
  then show ?case by (auto split: prod.splits dest: rec_step_ok)
qed simp

lemma new_recorder_ok: "rec_ok new_recorder"
  by (simp add: rec_ok_def new_recorder_def)

section \<open>What a recording ends with\<close>

fun is_start :: "rec_event \<Rightarrow> bool" where
  "is_start (RecStart _ _) \<longleftrightarrow> True"
| "is_start _ \<longleftrightarrow> False"

definition given_up :: "voice_recorder \<Rightarrow> bool" where
  "given_up r \<longleftrightarrow> vr_state r \<noteq> RecStarting \<and> (vr_discard r \<or> vr_state r = RecIdle)"

lemma fail_gives_up: "rec_fail msg r = (fs, r') \<Longrightarrow> given_up r'"
  by (auto simp: rec_fail_def setRecState_def scheduleFinish_def given_up_def Let_def split: option.splits if_splits)

lemma complete_gives_up: "completeRecording b r = (fs, r') \<Longrightarrow> vr_session r \<noteq> None \<Longrightarrow> given_up r'"
  by (auto simp: completeRecording_def setRecState_def given_up_def Let_def split: option.splits if_splits)

lemma stop_session_gives_up: "stop_session s r = (fs, r') \<Longrightarrow> vr_discard r \<Longrightarrow> given_up r'"
  by (auto simp: stop_session_def setRecState_def scheduleFinish_def given_up_def split: if_splits)

lemma finish_gives_up:
  assumes "finishRecording fl fe r = (fs, r')" and "given_up r"
  shows "given_up r'"
proof (cases "\<exists>s. vr_session r = Some s \<and> vr_state r = RecStopping")
  case True
  then obtain s where s: "vr_session r = Some s" "vr_state r = RecStopping" by blast
  then have "vr_discard r" using assms(2) by (simp add: given_up_def)
  then obtain gs where "completeRecording False (r\<lparr>vr_duration := measured s\<rparr>) = (gs, r')"
    using assms(1) s by (auto simp: finishRecording_def Let_def split: prod.splits)
  then show ?thesis by (rule complete_gives_up) (simp add: s)
next
  case False
  with assms show ?thesis by (auto simp: finishRecording_def split: option.splits if_splits)
qed

lemma encoder_gives_up:
  assumes "encoder_event e r = (fs, r')" and "given_up r" "rec_ok r"
  shows "given_up r'"
proof -
  have "given_up (r\<lparr>vr_session := x\<rparr>) = given_up r" "given_up (r\<lparr>vr_session := x, vr_error := y\<rparr>) = given_up r" for x y by (simp_all add: given_up_def)
  with assms(1,2) show ?thesis
    by (auto simp: encoder_event_def on_encoded_def Let_def split: option.splits prod.splits list.splits if_splits
        dest!: complete_gives_up)
qed

lemma step_gives_up:
  assumes "rec_step e r = (fs, r')" and "given_up r" "rec_ok r" "\<not> is_start e"
  shows "given_up r'"
proof (cases e)
  case (RecEncoder x)
  with assms encoder_gives_up show ?thesis by auto
next
  case (RecFinish fl fe)
  have "given_up (r\<lparr>vr_finishes := x\<rparr>) = given_up r" for x by (simp add: given_up_def)
  with RecFinish assms(1,2) finish_gives_up [of fl fe "r\<lparr>vr_finishes := _\<rparr>" fs r'] show ?thesis
    by (auto simp: finish_timer_def Let_def split: list.splits if_splits)
next
  case (RecPause sf fl fe)
  with assms(1,2) show ?thesis
    by (auto simp: rec_pause_def setRecState_def Let_def split: option.splits if_splits prod.splits dest: fail_gives_up)
      (auto simp: given_up_def)
next
  case (RecResume sf)
  with assms(1,2) show ?thesis
    by (auto simp: rec_resume_def setRecState_def split: option.splits if_splits dest: fail_gives_up) (auto simp: given_up_def)
next
  case RecCancel
  with assms cancel_rec_ok [of r fs r'] show ?thesis by (auto simp: given_up_def rec_ok_def)
next
  case RecStop
  show ?thesis
  proof (cases "vr_state r = RecIdle \<or> vr_state r = RecStopping")
    case True
    with assms(1,2) RecStop show ?thesis by (simp add: rec_stop_def)
  next
    case False
    with assms(2,3) obtain s where "vr_session r = Some s" "vr_discard r" by (cases "vr_state r") (auto simp: given_up_def rec_ok_def)
    with False assms(1) RecStop stop_session_gives_up show ?thesis by (auto simp: rec_stop_def)
  qed
next
  case (RecStart S B)
  with assms(4) show ?thesis by simp
next
  case (RecPermission q g B)
  with assms(1,2) show ?thesis by (auto simp: rec_permission_def given_up_def)
next
  case RecTick
  with assms(1,2) show ?thesis by (auto simp: duration_tick_def given_up_def split: option.splits if_splits)
next
  case RecSourceFailed
  with assms(1,2) show ?thesis by (auto simp: source_failed_def split: if_splits dest: fail_gives_up)
qed

lemma run_gives_up:
  assumes "rec_run es r = (fs, r')" and "given_up r" "rec_ok r" "\<not> list_ex is_start es"
  shows "never_ready fs"
  using assms
proof (induction es arbitrary: r fs)
  case (Cons e es)
  obtain gs m where s: "rec_step e r = (gs, m)" by fastforce
  obtain hs n where t: "rec_run es m = (hs, n)" by fastforce
  have "never_ready gs"
  proof -
    have "\<not> ready_from e r p d m" for p d
    proof
      assume g: "ready_from e r p d m"
      then obtain q where "vr_session r = Some q" "vs_final q" "\<not> vr_discard r" by (auto simp: ready_from_def)
      with Cons.prems(2,3) show False by (auto simp: given_up_def rec_ok_def final_ok_def)
    qed
    with rec_step_ok [OF s Cons.prems(3)] show ?thesis by (auto simp: never_ready_def)
  qed
  moreover have "never_ready hs"
    using Cons.IH [of m hs] Cons.prems step_gives_up [OF s Cons.prems(2,3)] rec_step_ok [OF s Cons.prems(3)] s t by auto
  ultimately show ?case using Cons.prems(1) s t by auto
qed simp

text \<open>
  C29: A cancelled recording is never delivered: after \<open>cancel\<close>, in whatever state and whatever the encoder,
  the microphone, the timers and the permission dialogue still report, no recording is ready until a new
  one is started.
\<close>

theorem canceled_never_ready:
  assumes "rec_run es0 new_recorder = (fs0, r)" and "rec_run (RecCancel # es) r = (fs, r')" and "\<not> list_ex is_start es"
  shows "VReady p d \<notin> set fs"
proof -
  have ok: "rec_ok r" by (rule rec_run_ok [OF assms(1) new_recorder_ok])
  obtain gs m where c: "rec_cancel r = (gs, m)" by fastforce
  obtain hs n where t: "rec_run es m = (hs, n)" by fastforce
  have m: "rec_ok m" "never_ready gs" "vr_discard m \<or> vr_state m = RecIdle" using cancel_rec_ok [OF c ok] by auto
  then have "given_up m" by (auto simp: given_up_def rec_ok_def)
  from run_gives_up [OF t this m(1) assms(3)] m(2) c t assms(2) show ?thesis by (auto simp: never_ready_def)
qed

text \<open>
  A recording is ready only when it is saved: the signal comes when the encoder has announced the
  success of the final file, which is then the output location, of a recording that was not discarded; the
  recorder is idle with no session, and the duration is that of all the audio captured.
\<close>

theorem ready_is_saved:
  assumes "rec_run es new_recorder = (fs0, r)" and "rec_step e r = (fs, r')" and "VReady p d \<in> set fs"
  shows "e = RecEncoder EncDeliver \<and> \<not> vr_discard r \<and> vr_state r' = RecIdle \<and> vr_session r' = None \<and> vr_output r' = p
    \<and> (\<exists>s j. vr_session r = Some s \<and> vs_final s \<and> p = enc_path (vs_encoder s) \<and> d = measured s
         \<and> enc_job (vs_encoder s) = Some j \<and> job_path j = p \<and> job_answer j = Some [])"
  using rec_step_ok [OF assms(2) rec_run_ok [OF assms(1) new_recorder_ok]] assms(3) by (auto simp: ready_from_def)

section \<open>A stopped recording ends\<close>

lemma finish_timer_pops:
  assumes "finish_timer fl fe r = (fs, r')" and "vr_state r \<in> {RecIdle, RecStopping}"
  shows "vr_finishes r' = tl (vr_finishes r) \<and> vr_state r' \<in> {RecIdle, RecStopping}"
proof -
  have c: "completeRecording b x = (gs, y) \<Longrightarrow> vr_state x \<in> {RecIdle, RecStopping} \<Longrightarrow> vr_finishes y = vr_finishes x \<and> vr_state y \<in> {RecIdle, RecStopping}"
    for b x gs y
    by (auto simp: completeRecording_def setRecState_def Let_def split: option.splits if_splits)
  have "finishRecording fl fe x = (gs, y) \<Longrightarrow> vr_state x \<in> {RecIdle, RecStopping} \<Longrightarrow> vr_finishes y = vr_finishes x \<and> vr_state y \<in> {RecIdle, RecStopping}"
    for x gs y
    by (auto simp: finishRecording_def Let_def split: option.splits if_splits prod.splits dest!: c)
  with assms show ?thesis by (fastforce simp: finish_timer_def Let_def split: list.splits if_splits)
qed

lemma rec_run_append:
  "rec_run (es @ ds) r = (case rec_run es r of (fs, r1) \<Rightarrow> (case rec_run ds r1 of (gs, r2) \<Rightarrow> (fs @ gs, r2)))"
  by (induction es arbitrary: r) (auto split: prod.splits)

lemma timers_drain:
  assumes "rec_run (replicate (length (vr_finishes r)) (RecFinish fl fe)) r = (fs, r')" and "rec_ok r" "vr_state r \<in> {RecIdle, RecStopping}"
  shows "rec_ok r' \<and> vr_finishes r' = [] \<and> vr_state r' \<in> {RecIdle, RecStopping}"
  using assms
proof (induction "length (vr_finishes r)" arbitrary: r fs)
  case (Suc n)
  obtain gs m where s: "finish_timer fl fe r = (gs, m)" by fastforce
  have m: "rec_ok m" "length (vr_finishes m) = n" "vr_state m \<in> {RecIdle, RecStopping}"
    using finish_timer_ok [OF s Suc.prems(2)] finish_timer_pops [OF s Suc.prems(3)] Suc.hyps(2) by auto
  obtain hs k where t: "rec_run (replicate n (RecFinish fl fe)) m = (hs, k)" by fastforce
  have "k = r'" using Suc.prems(1) Suc.hyps(2) [symmetric] s t by simp
  with Suc.hyps(1) [of m hs] m t show ?case by simp
qed simp

lemma final_ends:
  assumes "rec_ok r" and "vr_session r = Some s" "vs_final s"
    and "rec_run [RecEncoder EncTimeout, RecEncoder EncDeliver] r = (fs, r')"
  shows "vr_state r' = RecIdle"
proof -
  obtain j where j: "enc_job (vs_encoder s) = Some j" "\<not> job_announced (vs_encoder s)" "job_ok (vs_encoder s)"
    using assms(1-3) by (auto simp: rec_ok_def final_ok_def)
  let ?c = "encoding_timed_out (vs_encoder s)"
  obtain k e where k: "enc_job ?c = Some k" "job_answer k = Some e"
    using j by (cases "job_completed j") (auto simp: encoding_timed_out_def enc_complete_def job_announced_def)
  let ?r = "r\<lparr>vr_session := Some (s\<lparr>vs_encoder := ?c\<rparr>)\<rparr>"
  have one: "encoder_event EncTimeout r = ([], ?r)" using assms(2) by (simp add: encoder_event_def Let_def)
  obtain c b where d: "encoder_event EncDeliver ?r = completeRecording b (r\<lparr>vr_session := Some (s\<lparr>vs_encoder := c\<rparr>)\<rparr>)"
    using k assms(3) by (simp add: encoder_event_def deliver_encoding_def on_encoded_def Let_def)
  have st: "vr_state r = RecStopping" using assms(1-3) by (auto simp: rec_ok_def final_ok_def)
  obtain gs where "completeRecording b (r\<lparr>vr_session := Some (s\<lparr>vs_encoder := c\<rparr>)\<rparr>) = (gs, r')"
    using assms(4) one d by (auto split: prod.splits)
  from complete_ok [OF this] st show ?thesis by simp
qed

text \<open>
  C30: A recording that was stopped, cancelled or has failed always ends: once the timers that are waiting
  have fired and the encoding, if one was needed, has run into its time limit at the latest, the recorder
  is idle and can start again.
\<close>

theorem recording_ends:
  assumes "rec_run es new_recorder = (fs0, r)" and "vr_state r = RecStopping"
    and "rec_run (replicate (length (vr_finishes r)) (RecFinish fl fe) @ [RecEncoder EncTimeout, RecEncoder EncDeliver]) r = (fs, r')"
  shows "vr_state r' = RecIdle \<and> vr_session r' = None"
proof -
  have ok: "rec_ok r" by (rule rec_run_ok [OF assms(1) new_recorder_ok])
  obtain gs m where t: "rec_run (replicate (length (vr_finishes r)) (RecFinish fl fe)) r = (gs, m)" by fastforce
  obtain hs where f: "rec_run [RecEncoder EncTimeout, RecEncoder EncDeliver] m = (hs, r')"
    using assms(3) t by (auto simp: rec_run_append split: prod.splits)
  have m: "rec_ok m" "vr_finishes m = []" "vr_state m \<in> {RecIdle, RecStopping}" using timers_drain [OF t ok] assms(2) by auto
  have "vr_state r' = RecIdle"
  proof (cases "vr_state m = RecIdle")
    case True
    then have "vr_session m = None" using m(1) by (simp add: rec_ok_def)
    with f True show ?thesis by (auto simp: encoder_event_def)
  next
    case False
    with m obtain s where "vr_session m = Some s" "vs_final s" by (auto simp: rec_ok_def)
    from final_ends [OF m(1) this f] show ?thesis .
  qed
  with rec_run_ok [OF f m(1)] show ?thesis by (simp add: rec_ok_def)
qed

text \<open>
  C13: The recorder is well formed in every state it can reach: it has a session exactly while a recording
  runs or ends, a session left to the encoder is ending with its device closed, and an ending session
  either waits for its timer or is left to the encoder.
\<close>

theorem recorder_well_formed:
  assumes "rec_run es new_recorder = (fs, r)"
  shows "case vr_session r of
      None \<Rightarrow> vr_state r = RecIdle \<or> vr_state r = RecStarting
    | Some s \<Rightarrow> vr_state r \<noteq> RecIdle \<and> vr_state r \<noteq> RecStarting
        \<and> (if vs_final s then vr_state r = RecStopping \<and> \<not> enc_open (vs_encoder s) \<and> \<not> vs_timer s
           else vr_state r = RecStopping \<longrightarrow> vr_request r \<in> set (vr_finishes r))"
proof -
  have "rec_ok r" by (rule rec_run_ok [OF assms new_recorder_ok])
  note ok = this
  show ?thesis
  proof (cases "vr_session r")
    case None
    with ok show ?thesis by (simp add: rec_ok_def)
  next
    case (Some s)
    then have "vs_final s \<longrightarrow> final_ok r s" "vr_state r = RecStopping \<longrightarrow> \<not> vs_timer s \<and> (vr_request r \<in> set (vr_finishes r) \<or> vs_final s)"
      using ok by (simp_all add: rec_ok_def)
    with Some session_facts(3,4) [OF ok Some] show ?thesis by (cases "vs_final s") (auto simp: final_ok_def)
  qed
qed

section \<open>Witnesses\<close>

definition demo_begin :: begin_env where
  "demo_begin = \<lparr>be_device = True, be_format = True, be_rate = 48000, be_channels = 1, be_supported = True, be_file_error = None,
     be_path = ''v.m4a'', be_preview = \<lambda>n. ''p.m4a'', be_ms = \<lambda>n. int n, be_source_fails = False, be_source_error = False\<rparr>"

definition demo_begin_events :: "rec_event list" where
  "demo_begin_events = [RecStart \<lparr>se_local = True, se_writable = True, se_canceled = False, se_permission = MicUndetermined\<rparr> demo_begin,
     RecPermission 1 True demo_begin, RecEncoder (EncWrite [1, 2, 3, 4] True), RecStop]"

definition demo_encode_events :: "rec_event list" where
  "demo_encode_events = [RecFinish True None, RecEncoder (EncFeed [True, True] (\<lambda>_. True)), RecEncoder (EncStopped True)]"

definition demo_stopping :: voice_recorder where
  "demo_stopping = snd (rec_run demo_begin_events new_recorder)"

definition demo_encoded :: voice_recorder where
  "demo_encoded = snd (rec_run (demo_begin_events @ demo_encode_events) new_recorder)"

lemmas recorder_defs = new_recorder_def demo_begin_events_def demo_encode_events_def demo_begin_def rec_start_def setRecState_def
  rec_permission_def beginRecording_def enc_start_def new_encoder_def encoder_event_def enc_write_def rec_stop_def stop_session_def scheduleFinish_def
  finish_timer_def finishRecording_def enc_finish_def enc_encode_def recorder_stopped_def enc_complete_def deliver_encoding_def on_encoded_def
  completeRecording_def measured_def rec_cancel_def

lemma demo_started: "rec_run demo_begin_events new_recorder = (fst (rec_run demo_begin_events new_recorder), demo_stopping)"
  by (simp only: demo_stopping_def prod.collapse)

lemma demo_stopping_state: "vr_state demo_stopping = RecStopping" "vr_finishes demo_stopping = [1]"
  by (simp_all add: demo_stopping_def recorder_defs Let_def)

lemma canceled_never_ready_witness:
  "VReady ''v.m4a'' 4 \<notin> set (fst (rec_run (RecCancel # demo_encode_events @ [RecEncoder EncDeliver]) demo_stopping))"
proof -
  have "\<not> list_ex is_start (demo_encode_events @ [RecEncoder EncDeliver])" by (simp add: demo_encode_events_def)
  note n = this
  obtain fs r' where t: "rec_run (RecCancel # demo_encode_events @ [RecEncoder EncDeliver]) demo_stopping = (fs, r')" by fastforce
  show ?thesis unfolding t fst_conv by (rule canceled_never_ready [OF demo_started t n])
qed

lemma ready_is_saved_witness:
  "\<not> vr_discard demo_encoded \<and> vr_output (snd (rec_step (RecEncoder EncDeliver) demo_encoded)) = ''v.m4a''
   \<and> vr_state (snd (rec_step (RecEncoder EncDeliver) demo_encoded)) = RecIdle"
proof -
  have "VReady ''v.m4a'' 4 \<in> set (fst (rec_step (RecEncoder EncDeliver) demo_encoded))"
    by (simp add: demo_encoded_def recorder_defs Let_def)
  from ready_is_saved [of "demo_begin_events @ demo_encode_events" _ demo_encoded "RecEncoder EncDeliver" _ _ "''v.m4a''" 4, OF _ _ this]
  show ?thesis by (metis demo_encoded_def prod.collapse)
qed

lemma recording_ends_witness:
  "vr_state (snd (rec_run (replicate (length (vr_finishes demo_stopping)) (RecFinish True None)
     @ [RecEncoder EncTimeout, RecEncoder EncDeliver]) demo_stopping)) = RecIdle"
proof -
  obtain fs r' where t: "rec_run (replicate (length (vr_finishes demo_stopping)) (RecFinish True None)
      @ [RecEncoder EncTimeout, RecEncoder EncDeliver]) demo_stopping = (fs, r')" by fastforce
  show ?thesis unfolding t snd_conv using recording_ends [OF demo_started demo_stopping_state(1) t] by (rule conjunct1)
qed

lemma recorder_well_formed_witness:
  "case vr_session demo_stopping of
     None \<Rightarrow> vr_state demo_stopping = RecIdle \<or> vr_state demo_stopping = RecStarting
   | Some s \<Rightarrow> vr_state demo_stopping \<noteq> RecIdle \<and> vr_state demo_stopping \<noteq> RecStarting
       \<and> (if vs_final s then vr_state demo_stopping = RecStopping \<and> \<not> enc_open (vs_encoder s) \<and> \<not> vs_timer s
          else vr_state demo_stopping = RecStopping \<longrightarrow> vr_request demo_stopping \<in> set (vr_finishes demo_stopping))"
  by (rule recorder_well_formed [OF demo_started])

end
