(* ===== verification/Voice_Message.thy ===== *)
theory Voice_Message
  imports Voice_Recorder Message_View
begin

text \<open>
  Voice messages: \<open>VoiceMessageController\<close> (presentation/viewmodel/voice_message_controller.cpp) with
  its recorder and its two players (core/media/audio_player.cpp), and what \<open>MessagingViewModel\<close> does
  with a recording (\<open>sendVoice\<close>, presentation/viewmodel/messaging_vm.cpp). Signals are handled in the
  order they are emitted; the recorder emits those that are answered with a call last. The media
  library, the downloads and the queue of messages are reached through the effects.
\<close>

section \<open>State\<close>

datatype voice_effect =
    RecordingStateChanged
  | RecordingDurationChanged
  | RecordingFileChanged
  | RecordingErrorChanged
  | RecordingFailed string
  | RecordingCanceled
  | RecordingReady string string int
  | VoiceSendErrorChanged
  | SendingVoiceChanged
  | SendVoice string string int string
  | VoiceQueued
  | VoiceSendFailed string
  | VoiceMessageSent
  | RemoveCanceledUpload string
  | UploadEnded string bool
  | PlaybackChanged
  | InPlayChanged
  | PlayerSource string
  | PlayerPlay
  | PlayerPause
  | PlayerStop
  | PlayerToggle
  | PreviewSource string
  | PreviewStop
  | PreviewToggle
  | DownloadVoice string string
  | CancelVoiceDownload string

record voice_chat =
  vc_recorder :: voice_recorder
  vc_active :: string
  vc_recording :: string
  vc_file :: string
  vc_final :: int
  vc_revision :: "64 word"
  vc_error :: string
  vp_source :: string
  vp_message :: string
  vp_pending :: string
  vp_error :: string
  vp_progress :: rat
  vp_player :: string
  vp_inPlay :: bool
  vm_active :: string
  vm_sendWhenReady :: bool
  vm_sendingVoice :: bool
  vm_sendError :: string

definition new_voice_chat :: voice_chat where
  "new_voice_chat = \<lparr>vc_recorder = new_recorder, vc_active = [], vc_recording = [], vc_file = [], vc_final = 0, vc_revision = 0,
     vc_error = [], vp_source = [], vp_message = [], vp_pending = [], vp_error = [], vp_progress = 0, vp_player = [], vp_inPlay = False,
     vm_active = [], vm_sendWhenReady = False, vm_sendingVoice = False, vm_sendError = []\<rparr>"

text \<open>
  Whether there is a media repository, whether a file of the cache can be read, which paths are such files,
  the message a source belongs to and the hash that names a download without one.
\<close>

record voice_lib =
  vl_media :: bool
  vl_is_cache :: "string \<Rightarrow> bool"
  vl_readable :: "string \<Rightarrow> bool"
  vl_local :: "string \<Rightarrow> bool"
  vl_id_for :: "string \<Rightarrow> string"
  vl_hash :: "string \<Rightarrow> string"

section \<open>Playback\<close>

text \<open>\<open>AudioPlayer::setSource\<close>: a file of the cache that cannot be read leaves the player without a source.\<close>

definition player_setSource :: "voice_lib \<Rightarrow> string \<Rightarrow> voice_chat \<Rightarrow> voice_effect list \<times> voice_chat" where
  "player_setSource L x v =
     (if x = vp_player v then ([], v)
      else (let y = (if vl_local L x \<and> vl_is_cache L x \<and> \<not> vl_readable L x then [] else x)
            in ([PlayerStop, PlayerSource y], v\<lparr>vp_player := y\<rparr>)))"

definition player_play :: "voice_chat \<Rightarrow> voice_effect list" where
  "player_play v = (if vp_player v = [] then [] else [PlayerPlay])"

definition setIsInPlay :: "bool \<Rightarrow> voice_chat \<Rightarrow> voice_effect list \<times> voice_chat" where
  "setIsInPlay b v = (if vp_inPlay v = b then ([], v) else ([InPlayChanged], v\<lparr>vp_inPlay := b\<rparr>))"

definition stopCurrentAudio :: "voice_lib \<Rightarrow> voice_chat \<Rightarrow> voice_effect list \<times> voice_chat" where
  "stopCurrentAudio L v =
     ((if vl_media L \<and> vp_pending v \<noteq> [] then [CancelVoiceDownload (vp_pending v)] else []) @ [PlayerStop, PlaybackChanged],
      v\<lparr>vp_pending := []\<rparr>)"

definition stopVoicePlayback :: "voice_lib \<Rightarrow> voice_chat \<Rightarrow> voice_effect list \<times> voice_chat" where
  "stopVoicePlayback L v = (case stopCurrentAudio L v of (es, v1) \<Rightarrow> (case setIsInPlay False v1 of (fs, v2) \<Rightarrow> (es @ fs, v2)))"

text \<open>\<open>player_ok\<close>: the player has no error and its media is valid.\<close>

definition playVoice :: "voice_lib \<Rightarrow> bool \<Rightarrow> string \<Rightarrow> string \<Rightarrow> voice_chat \<Rightarrow> voice_effect list \<times> voice_chat" where
  "playVoice L player_ok src i v =
     (if src = [] then ([], v)
      else
        (let same = (if i \<noteq> [] then i = vp_message v else src = vp_source v)
         in if same \<and> vp_pending v \<noteq> [] then ([PreviewStop], v)
            else if same \<and> vp_player v \<noteq> [] \<and> player_ok
            then (case setIsInPlay True v of (es, v1) \<Rightarrow> (PreviewStop # es @ [PlayerToggle], v1))
            else
              (case stopCurrentAudio L v of (es, v1) \<Rightarrow>
                (case player_setSource L [] v1 of (fs, v2) \<Rightarrow>
                  (let v3 = v2\<lparr>vp_source := src, vp_message := i, vp_error := [], vp_progress := 0\<rparr>
                   in case (if vl_local L src
                            then (case player_setSource L src v3 of (gs, v4) \<Rightarrow> (gs @ player_play v4, v4))
                            else if vl_media L
                            then (let m = (if vl_id_for L src = [] then vl_hash L src else vl_id_for L src)
                                  in ([PlaybackChanged, DownloadVoice m src], v3\<lparr>vp_pending := m\<rparr>))
                            else ([], v3\<lparr>vp_error := ''Audio download service is unavailable.''\<rparr>)) of
                        (gs, v4) \<Rightarrow>
                          (case setIsInPlay True v4 of (hs, v5) \<Rightarrow> (PreviewStop # es @ fs @ gs @ [PlaybackChanged] @ hs, v5)))))))"

definition voice_download_progress :: "string \<Rightarrow> int \<Rightarrow> int \<Rightarrow> voice_chat \<Rightarrow> voice_effect list \<times> voice_chat" where
  "voice_download_progress m received n v =
     (if m = vp_pending v
      then ([PlaybackChanged], v\<lparr>vp_progress := (if 0 < n then clamp (of_int received / of_int n) else 0)\<rparr>)
      else ([], v))"

text \<open>\<open>usable_file\<close>: the downloaded file is there and not empty.\<close>

definition voice_download_completed :: "voice_lib \<Rightarrow> string \<Rightarrow> string \<Rightarrow> bool \<Rightarrow> voice_chat \<Rightarrow> voice_effect list \<times> voice_chat" where
  "voice_download_completed L m path usable_file v =
     (if m \<noteq> vp_pending v then ([], v)
      else
        (let v1 = v\<lparr>vp_pending := [], vp_progress := 1\<rparr>
         in if \<not> usable_file then ([PlaybackChanged], v1\<lparr>vp_error := ''Downloaded audio is missing or empty.''\<rparr>)
            else (case player_setSource L path v1 of (es, v2) \<Rightarrow> (es @ player_play v2 @ [PlaybackChanged], v2))))"

definition voice_download_failed :: "string \<Rightarrow> string \<Rightarrow> voice_chat \<Rightarrow> voice_effect list \<times> voice_chat" where
  "voice_download_failed m e v =
     (if m = vp_pending v then ([PlaybackChanged], v\<lparr>vp_pending := [], vp_error := e\<rparr>) else ([], v))"

definition pauseVoice :: "voice_chat \<Rightarrow> voice_effect list \<times> voice_chat" where
  "pauseVoice v = ((if vp_player v = [] then [] else [PlayerPause]), v)"

definition resumeVoice :: "voice_chat \<Rightarrow> voice_effect list \<times> voice_chat" where
  "resumeVoice v = ((if vp_player v = [] then [] else [PlayerToggle]), v)"

definition cancelVoicePlayback :: "voice_chat \<Rightarrow> voice_effect list \<times> voice_chat" where
  "cancelVoicePlayback v = (case setIsInPlay False v of (es, v1) \<Rightarrow> (PlayerStop # es, v1))"

definition playVoicePreview :: "voice_lib \<Rightarrow> voice_chat \<Rightarrow> voice_effect list \<times> voice_chat" where
  "playVoicePreview L v = (case stopVoicePlayback L v of (es, v1) \<Rightarrow> (es @ [PreviewToggle], v1))"

definition player_status :: "bool \<Rightarrow> voice_chat \<Rightarrow> voice_effect list \<times> voice_chat" where
  "player_status playing v = (case setIsInPlay playing v of (es, v1) \<Rightarrow> (es @ [PlaybackChanged], v1))"

section \<open>Recording\<close>

definition setVoiceRecordingError :: "string \<Rightarrow> voice_chat \<Rightarrow> voice_effect list \<times> voice_chat" where
  "setVoiceRecordingError e v = (if vc_error v = e then ([], v) else ([RecordingErrorChanged], v\<lparr>vc_error := e\<rparr>))"

text \<open>\<open>voiceRecordingFileChanged\<close> and \<open>voiceRecordingFailed\<close> with the slots connected to them.\<close>

definition file_changed :: "voice_chat \<Rightarrow> voice_effect list \<times> voice_chat" where
  "file_changed v =
     ([RecordingFileChanged, PreviewSource (vc_file v)] @ (if vm_sendError v = [] then [] else [VoiceSendErrorChanged]),
      v\<lparr>vm_sendError := []\<rparr>)"

definition recording_failed :: "string \<Rightarrow> voice_chat \<Rightarrow> voice_effect list \<times> voice_chat" where
  "recording_failed e v =
     (case setVoiceRecordingError e v of (es, v1) \<Rightarrow> (es @ [RecordingFailed e], v1\<lparr>vm_sendWhenReady := False\<rparr>))"

text \<open>\<open>cancelVoiceRecording\<close> before and after the call of the recorder.\<close>

definition draft_dropped :: "voice_chat \<Rightarrow> voice_chat" where
  "draft_dropped v = v\<lparr>vc_revision := vc_revision v + 1, vc_recording := [], vc_final := 0\<rparr>"

definition draft_cleared :: "voice_chat \<Rightarrow> voice_effect list \<times> voice_chat" where
  "draft_cleared v =
     (case file_changed (v\<lparr>vc_file := []\<rparr>) of (es, v1) \<Rightarrow> (case setVoiceRecordingError [] v1 of (fs, v2) \<Rightarrow> (es @ fs, v2)))"

text \<open>\<open>sendVoice\<close> with an idle recorder, whose \<open>cancel\<close> does nothing.\<close>

definition voice_duration :: "int \<Rightarrow> voice_chat \<Rightarrow> int" where
  "voice_duration given v =
     (if 0 < vc_final v then vc_final v else if 0 < vr_duration (vc_recorder v) then vr_duration (vc_recorder v) else given)"

definition send_idle :: "string \<Rightarrow> int \<Rightarrow> voice_chat \<Rightarrow> voice_effect list \<times> voice_chat" where
  "send_idle uuid given v =
     (let dur = voice_duration given v; file = vc_file v; receiver = vc_recording v
      in if dur \<le> 0 \<or> file = [] \<or> receiver = [] \<or> receiver \<noteq> vm_active v then ([], v)
         else
           (case draft_cleared (draft_dropped (v\<lparr>vm_sendError := [], vm_sendingVoice := True\<rparr>)) of
              (es, v1) \<Rightarrow>
                ([VoiceSendErrorChanged, SendingVoiceChanged, SendVoice receiver file dur uuid] @ es @ [SendingVoiceChanged, VoiceQueued],
                 v1\<lparr>vm_sendingVoice := False\<rparr>)))"

text \<open>The slots on the recorder's signals; \<open>uuid\<close> is for a message that is sent when it is ready.\<close>

definition for_this_chat :: "voice_chat \<Rightarrow> bool" where
  "for_this_chat v \<longleftrightarrow> vc_recording v \<noteq> [] \<and> vc_recording v = vc_active v"

fun on_recorder_signal :: "string \<Rightarrow> rec_signal \<Rightarrow> voice_chat \<Rightarrow> voice_effect list \<times> voice_chat" where
  "on_recorder_signal uuid VStateChanged v = ([RecordingStateChanged], v)"
| "on_recorder_signal uuid VDurationChanged v = ([RecordingDurationChanged], v)"
| "on_recorder_signal uuid VOutputChanged v = ([], v)"
| "on_recorder_signal uuid VErrorChanged v = ([], v)"
| "on_recorder_signal uuid VCanceled v = ([RecordingCanceled], v\<lparr>vm_sendWhenReady := False\<rparr>)"
| "on_recorder_signal uuid (VError e) v = recording_failed e v"
| "on_recorder_signal uuid (VFile x) v = ([], v\<lparr>vc_file := x\<rparr>)"
| "on_recorder_signal uuid (VPreview x d) v = (if for_this_chat v then file_changed (v\<lparr>vc_file := x\<rparr>) else ([], v))"
| "on_recorder_signal uuid (VReady x d) v =
     (if for_this_chat v
      then (case file_changed (v\<lparr>vc_file := x\<rparr>) of (es, v1) \<Rightarrow>
             (let v2 = v1\<lparr>vc_final := d\<rparr>
              in if vm_sendWhenReady v2
                 then (if vm_sendingVoice v2 then (es @ [RecordingReady (vc_recording v) x d], v2\<lparr>vm_sendWhenReady := False\<rparr>)
                       else case send_idle uuid d (v2\<lparr>vm_sendWhenReady := False\<rparr>) of
                              (fs, v3) \<Rightarrow> (es @ [RecordingReady (vc_recording v) x d] @ fs, v3))
                 else (es @ [RecordingReady (vc_recording v) x d], v2)))
      else ([], v))"

fun on_signals :: "string \<Rightarrow> rec_signal list \<Rightarrow> voice_chat \<Rightarrow> voice_effect list \<times> voice_chat" where
  "on_signals uuid [] v = ([], v)"
| "on_signals uuid (s # ss) v = (case on_recorder_signal uuid s v of (es, v1) \<Rightarrow> (case on_signals uuid ss v1 of (fs, v2) \<Rightarrow> (es @ fs, v2)))"

definition with_recorder :: "string \<Rightarrow> (voice_recorder \<Rightarrow> rec_signal list \<times> voice_recorder) \<Rightarrow> voice_chat \<Rightarrow> voice_effect list \<times> voice_chat" where
  "with_recorder uuid f v = (case f (vc_recorder v) of (ss, r) \<Rightarrow> on_signals uuid ss (v\<lparr>vc_recorder := r\<rparr>))"

definition isVoiceRecordingBusy :: "voice_chat \<Rightarrow> bool" where
  "isVoiceRecordingBusy v \<longleftrightarrow> vr_state (vc_recorder v) \<noteq> RecIdle"

definition startVoiceRecording :: "voice_lib \<Rightarrow> start_env \<Rightarrow> begin_env \<Rightarrow> voice_chat \<Rightarrow> voice_effect list \<times> voice_chat" where
  "startVoiceRecording L S B v =
     (if isVoiceRecordingBusy v then ([], v)
      else if vc_active v = [] then recording_failed ''Select a conversation before recording a voice message.'' v
      else
        (case stopVoicePlayback L (v\<lparr>vc_revision := vc_revision v + 1\<rparr>) of (es, v1) \<Rightarrow>
          (case file_changed (v1\<lparr>vc_recording := vc_active v1, vc_final := 0, vc_file := []\<rparr>) of (fs, v2) \<Rightarrow>
            (case setVoiceRecordingError [] v2 of (gs, v3) \<Rightarrow>
              (case with_recorder [] (rec_start S B) v3 of (hs, v4) \<Rightarrow> (es @ fs @ gs @ hs, v4))))))"

definition resumeVoiceRecording :: "bool \<Rightarrow> voice_chat \<Rightarrow> voice_effect list \<times> voice_chat" where
  "resumeVoiceRecording source_fails v =
     (case (if vr_state (vc_recorder v) = RecPaused then file_changed (v\<lparr>vc_file := []\<rparr>) else ([], v)) of
        (es, v1) \<Rightarrow> (case with_recorder [] (rec_resume source_fails) v1 of (fs, v2) \<Rightarrow> (es @ fs, v2)))"

definition cancelVoiceRecording :: "voice_chat \<Rightarrow> voice_effect list \<times> voice_chat" where
  "cancelVoiceRecording v =
     (case with_recorder [] rec_cancel (draft_dropped v) of (es, v1) \<Rightarrow> (case draft_cleared v1 of (fs, v2) \<Rightarrow> (es @ fs, v2)))"

definition voice_setConversation :: "string \<Rightarrow> voice_chat \<Rightarrow> voice_effect list \<times> voice_chat" where
  "voice_setConversation c v =
     (if c = vc_active v then ([], v) else (case cancelVoiceRecording v of (es, v1) \<Rightarrow> (es, v1\<lparr>vc_active := c\<rparr>)))"

definition voice_reset :: "voice_lib \<Rightarrow> voice_chat \<Rightarrow> voice_effect list \<times> voice_chat" where
  "voice_reset L v =
     (case stopVoicePlayback L v of (es, v1) \<Rightarrow>
       (case player_setSource L [] (v1\<lparr>vp_source := [], vp_message := []\<rparr>) of (fs, v2) \<Rightarrow>
         (case cancelVoiceRecording v2 of (gs, v3) \<Rightarrow> (es @ fs @ gs @ [PlaybackChanged], v3\<lparr>vc_active := []\<rparr>))))"

section \<open>Sending and switching conversations\<close>

definition vm_sendVoice :: "string \<Rightarrow> int \<Rightarrow> voice_chat \<Rightarrow> voice_effect list \<times> voice_chat" where
  "vm_sendVoice uuid given v =
     (if vm_sendingVoice v then ([], v)
      else if isVoiceRecordingBusy v then with_recorder uuid rec_stop (v\<lparr>vm_sendWhenReady := True\<rparr>)
      else send_idle uuid given v)"

text \<open>The outcome of a queued voice message; \<open>revision\<close> is the one at the time it was queued.\<close>

definition voice_send_ended :: "string \<Rightarrow> 64 word \<Rightarrow> string option \<Rightarrow> voice_chat \<Rightarrow> voice_effect list \<times> voice_chat" where
  "voice_send_ended upload revision outcome v =
     (case outcome of
        None \<Rightarrow> ([RemoveCanceledUpload upload], v)
      | Some e \<Rightarrow>
          if e = [] then ([UploadEnded upload True, VoiceMessageSent], v)
          else if revision = vc_revision v then ([UploadEnded upload False, VoiceSendErrorChanged, VoiceSendFailed e], v\<lparr>vm_sendError := e\<rparr>)
          else ([UploadEnded upload False], v))"

text \<open>What \<open>fetchMessage\<close> and \<open>resetModel\<close> do about voice messages.\<close>

definition open_conversation :: "string \<Rightarrow> voice_chat \<Rightarrow> voice_effect list \<times> voice_chat" where
  "open_conversation c v =
     (let v1 = (if c = vm_active v then v else v\<lparr>vm_sendWhenReady := False\<rparr>)
      in case voice_setConversation c v1 of (es, v2) \<Rightarrow> (es, v2\<lparr>vm_active := c\<rparr>))"

definition reset_conversation :: "voice_lib \<Rightarrow> voice_chat \<Rightarrow> voice_effect list \<times> voice_chat" where
  "reset_conversation L v =
     (case voice_reset L (v\<lparr>vm_sendWhenReady := False\<rparr>) of (es, v1) \<Rightarrow> (es, v1\<lparr>vm_active := []\<rparr>))"

section \<open>Runs\<close>

datatype voice_event =
    VoiceStart start_env begin_env
  | VoicePause bool bool "string option"
  | VoiceResume bool
  | VoiceStop
  | VoiceCancel
  | VoiceRecorder string rec_event
  | VoiceSend string int
  | VoiceSendEnded string "64 word" "string option"
  | OpenConversation string
  | ResetConversation
  | VoicePlay bool string string
  | VoicePauseVoice
  | VoiceResumeVoice
  | VoiceStopPlayback
  | VoiceCancelPlayback
  | VoicePlayPreview
  | PlayerStatus bool
  | VoiceProgress string int int
  | VoiceDownloaded string string bool
  | VoiceDownloadFailed string string

text \<open>Only what the recorder waits for comes from outside; its own calls go through the controller.\<close>

fun outside_event :: "rec_event \<Rightarrow> bool" where
  "outside_event (RecPermission _ _ _) \<longleftrightarrow> True"
| "outside_event (RecFinish _ _) \<longleftrightarrow> True"
| "outside_event RecTick \<longleftrightarrow> True"
| "outside_event RecSourceFailed \<longleftrightarrow> True"
| "outside_event (RecEncoder _) \<longleftrightarrow> True"
| "outside_event _ \<longleftrightarrow> False"

fun voice_step :: "voice_lib \<Rightarrow> voice_event \<Rightarrow> voice_chat \<Rightarrow> voice_effect list \<times> voice_chat" where
  "voice_step L (VoiceStart S B) v = startVoiceRecording L S B v"
| "voice_step L (VoicePause sf fl fe) v = with_recorder [] (rec_pause sf fl fe) v"
| "voice_step L (VoiceResume sf) v = resumeVoiceRecording sf v"
| "voice_step L VoiceStop v = with_recorder [] rec_stop v"
| "voice_step L VoiceCancel v = cancelVoiceRecording v"
| "voice_step L (VoiceRecorder uuid e) v = (if outside_event e then with_recorder uuid (rec_step e) v else ([], v))"
| "voice_step L (VoiceSend uuid given) v = vm_sendVoice uuid given v"
| "voice_step L (VoiceSendEnded upload revision outcome) v = voice_send_ended upload revision outcome v"
| "voice_step L (OpenConversation c) v = open_conversation c v"
| "voice_step L ResetConversation v = reset_conversation L v"
| "voice_step L (VoicePlay ok src i) v = playVoice L ok src i v"
| "voice_step L VoicePauseVoice v = pauseVoice v"
| "voice_step L VoiceResumeVoice v = resumeVoice v"
| "voice_step L VoiceStopPlayback v = stopVoicePlayback L v"
| "voice_step L VoiceCancelPlayback v = cancelVoicePlayback v"
| "voice_step L VoicePlayPreview v = playVoicePreview L v"
| "voice_step L (PlayerStatus playing) v = player_status playing v"
| "voice_step L (VoiceProgress m received n) v = voice_download_progress m received n v"
| "voice_step L (VoiceDownloaded m path ok) v = voice_download_completed L m path ok v"
| "voice_step L (VoiceDownloadFailed m e) v = voice_download_failed m e v"

fun voice_run :: "voice_lib \<Rightarrow> voice_event list \<Rightarrow> voice_chat \<Rightarrow> voice_effect list \<times> voice_chat" where
  "voice_run L [] v = ([], v)"
| "voice_run L (e # es) v = (case voice_step L e v of (fs, v1) \<Rightarrow> (case voice_run L es v1 of (gs, v2) \<Rightarrow> (fs @ gs, v2)))"

section \<open>What can be sent\<close>

definition voices_sent :: "voice_effect list \<Rightarrow> nat" where
  "voices_sent es = length (filter (\<lambda>e. case e of SendVoice _ _ _ _ \<Rightarrow> True | _ \<Rightarrow> False) es)"

lemma voices_simps [simp]:
  "voices_sent [] = 0" "voices_sent (es @ fs) = voices_sent es + voices_sent fs"
  "voices_sent (e # es) = (case e of SendVoice _ _ _ _ \<Rightarrow> 1 | _ \<Rightarrow> 0) + voices_sent es"
  by (auto simp: voices_sent_def split: voice_effect.splits)

lemma voices_none: "voices_sent es = 0 \<Longrightarrow> SendVoice a b c d \<notin> set es"
  by (force simp: voices_sent_def filter_empty_conv)

text \<open>A draft is there while it has a receiver. What a step may send is the draft it had.\<close>

definition drafts :: "voice_chat \<Rightarrow> nat" where
  "drafts v = (if vc_recording v = [] then 0 else 1)"

definition sends_draft :: "voice_chat \<Rightarrow> voice_effect list \<Rightarrow> voice_chat \<Rightarrow> bool" where
  "sends_draft v es v' \<longleftrightarrow> voices_sent es + drafts v' \<le> drafts v \<and> vc_recording v' \<in> {vc_recording v, []}
     \<and> vc_active v' = vc_active v \<and> vm_active v' = vm_active v
     \<and> (\<forall>c x d u. SendVoice c x d u \<in> set es \<longrightarrow> c = vc_recording v \<and> c = vm_active v \<and> c \<noteq> [] \<and> 0 < d \<and> x \<noteq> [])"

lemma sends_draft_same:
  "voices_sent es = 0 \<Longrightarrow> vc_recording v' = vc_recording v \<Longrightarrow> vc_active v' = vc_active v \<Longrightarrow> vm_active v' = vm_active v \<Longrightarrow> sends_draft v es v'"
  by (simp add: sends_draft_def drafts_def voices_none)

lemma sends_draft_trans:
  assumes "sends_draft v es w" and "sends_draft w fs x"
  shows "sends_draft v (es @ fs) x"
proof -
  have "c = vc_recording v \<and> c = vm_active v \<and> c \<noteq> [] \<and> 0 < d \<and> y \<noteq> []" if "SendVoice c y d u \<in> set fs" for c y d u
  proof -
    from assms(2) that have "c = vc_recording w \<and> c = vm_active w \<and> c \<noteq> [] \<and> 0 < d \<and> y \<noteq> []" by (auto simp: sends_draft_def)
    with assms(1) show ?thesis by (auto simp: sends_draft_def)
  qed
  with assms show ?thesis by (auto simp: sends_draft_def)
qed

lemma file_changed_quiet:
  "file_changed v = (es, w) \<Longrightarrow> voices_sent es = 0 \<and> (\<exists>e. w = v\<lparr>vm_sendError := e\<rparr>)"
  by (auto simp: file_changed_def)

lemma error_quiet: "setVoiceRecordingError e v = (es, w) \<Longrightarrow> voices_sent es = 0 \<and> (\<exists>e. w = v\<lparr>vc_error := e\<rparr>)"
  by (auto simp: setVoiceRecordingError_def split: if_splits intro: exI [of _ "vc_error v"])

lemma failed_quiet: "recording_failed e v = (es, w) \<Longrightarrow> sends_draft v es w"
  by (auto simp: recording_failed_def split: prod.splits intro!: sends_draft_same dest!: error_quiet)

lemma cleared_quiet:
  assumes "draft_cleared v = (es, w)"
  shows "voices_sent es = 0 \<and> vc_recording w = vc_recording v \<and> vc_active w = vc_active v \<and> vm_active w = vm_active v \<and> vc_file w = []
    \<and> vc_recorder w = vc_recorder v"
  using assms by (auto simp: draft_cleared_def split: prod.splits dest!: file_changed_quiet error_quiet)

lemma send_idle_draft:
  assumes "send_idle uuid given v = (es, w)"
  shows "sends_draft v es w"
proof -
  define dur where "dur = voice_duration given v"
  show ?thesis
  proof (cases "dur \<le> 0 \<or> vc_file v = [] \<or> vc_recording v = [] \<or> vc_recording v \<noteq> vm_active v")
    case True
    with assms have "es = []" "w = v" by (simp_all add: send_idle_def dur_def Let_def)
    then show ?thesis by (simp add: sends_draft_same)
  next
    case False
    obtain fs x where c: "draft_cleared (draft_dropped (v\<lparr>vm_sendError := [], vm_sendingVoice := True\<rparr>)) = (fs, x)" by fastforce
    have "send_idle uuid given v =
        ([VoiceSendErrorChanged, SendingVoiceChanged, SendVoice (vc_recording v) (vc_file v) dur uuid] @ fs @ [SendingVoiceChanged, VoiceQueued],
         x\<lparr>vm_sendingVoice := False\<rparr>)"
      unfolding send_idle_def Let_def dur_def [symmetric] by (simp only: False if_False c prod.case)
    with assms have "es = [VoiceSendErrorChanged, SendingVoiceChanged, SendVoice (vc_recording v) (vc_file v) dur uuid] @ fs @ [SendingVoiceChanged, VoiceQueued]"
      "w = x\<lparr>vm_sendingVoice := False\<rparr>" by simp_all
    with False cleared_quiet [OF c] voices_none show ?thesis
      by (auto simp: sends_draft_def drafts_def draft_dropped_def)
  qed
qed

lemma on_recorder_signal_draft:
  assumes "on_recorder_signal uuid s v = (es, w)"
  shows "sends_draft v es w"
proof (cases s)
  case (VReady x d)
  show ?thesis
  proof (cases "for_this_chat v")
    case False
    with assms VReady show ?thesis by (auto intro: sends_draft_same)
  next
    case True
    obtain fs v1 where f: "file_changed (v\<lparr>vc_file := x\<rparr>) = (fs, v1)" by fastforce
    let ?v2 = "v1\<lparr>vc_final := d\<rparr>" and ?es = "fs @ [RecordingReady (vc_recording v) x d]"
    have q: "sends_draft v ?es ?v2" "sends_draft v ?es (?v2\<lparr>vm_sendWhenReady := False\<rparr>)"
      using file_changed_quiet [OF f] by (auto intro!: sends_draft_same)
    obtain gs v3 where g: "send_idle uuid d (?v2\<lparr>vm_sendWhenReady := False\<rparr>) = (gs, v3)" by fastforce
    have "(es, w) \<in> {(?es, ?v2), (?es, ?v2\<lparr>vm_sendWhenReady := False\<rparr>), (?es @ gs, v3)}"
      using assms VReady True f g by (auto simp: Let_def split: if_splits)
    with q sends_draft_trans [OF q(2) send_idle_draft [OF g]] show ?thesis by auto
  qed
next
  case (VPreview x d)
  with assms show ?thesis by (auto intro!: sends_draft_same split: if_splits dest!: file_changed_quiet)
next
  case (VError e)
  with assms failed_quiet show ?thesis by auto
qed (use assms in \<open>auto intro!: sends_draft_same\<close>)

lemma on_signals_draft: "on_signals uuid ss v = (es, w) \<Longrightarrow> sends_draft v es w"
proof (induction ss arbitrary: v es)
  case Nil
  then show ?case by (auto intro: sends_draft_same)
next
  case (Cons s ss)
  obtain fs x where s: "on_recorder_signal uuid s v = (fs, x)" by fastforce
  obtain gs y where r: "on_signals uuid ss x = (gs, y)" by fastforce
  from Cons.prems s r have e: "es = fs @ gs" "y = w" by auto
  from sends_draft_trans [OF on_recorder_signal_draft [OF s] Cons.IH [OF r [unfolded e]]] e show ?case by simp
qed

lemma recorder_draft:
  assumes "with_recorder uuid f v = (es, w)"
  shows "sends_draft v es w"
proof -
  obtain ss r where "f (vc_recorder v) = (ss, r)" by fastforce
  then have "on_signals uuid ss (v\<lparr>vc_recorder := r\<rparr>) = (es, w)" using assms by (simp add: with_recorder_def)
  from on_signals_draft [OF this] show ?thesis by (simp add: sends_draft_def drafts_def)
qed

lemma cancel_draft:
  assumes "cancelVoiceRecording v = (es, w)"
  shows "voices_sent es = 0 \<and> vc_recording w = [] \<and> vc_active w = vc_active v \<and> vm_active w = vm_active v"
proof -
  obtain fs x where r: "with_recorder [] rec_cancel (draft_dropped v) = (fs, x)" by fastforce
  obtain gs y where c: "draft_cleared x = (gs, y)" by fastforce
  have e: "es = fs @ gs" "w = y" using assms r c by (auto simp: cancelVoiceRecording_def)
  from recorder_draft [OF r] have "voices_sent fs = 0" "vc_recording x = []" "vc_active x = vc_active v" "vm_active x = vm_active v"
    by (auto simp: sends_draft_def drafts_def draft_dropped_def)
  with cleared_quiet [OF c] e show ?thesis by simp
qed

lemma inPlay_quiet: "setIsInPlay b v = (es, w) \<Longrightarrow> voices_sent es = 0 \<and> (\<exists>b. w = v\<lparr>vp_inPlay := b\<rparr>)"
  by (auto simp: setIsInPlay_def split: if_splits intro: exI [of _ "vp_inPlay v"])

lemma stop_playback_quiet:
  assumes "stopVoicePlayback L v = (es, w)"
  shows "voices_sent es = 0 \<and> (\<exists>b. w = v\<lparr>vp_pending := [], vp_inPlay := b\<rparr>)"
  using assms by (auto simp: stopVoicePlayback_def stopCurrentAudio_def split: prod.splits dest!: inPlay_quiet)

lemma source_quiet: "player_setSource L x v = (es, w) \<Longrightarrow> voices_sent es = 0 \<and> (\<exists>y. w = v\<lparr>vp_player := y\<rparr>)"
  by (auto simp: player_setSource_def Let_def split: if_splits intro: exI [of _ "vp_player v"])

text \<open>Playback leaves the draft alone.\<close>

definition same_draft :: "voice_chat \<Rightarrow> voice_chat \<Rightarrow> bool" where
  "same_draft v w \<longleftrightarrow> vc_recording w = vc_recording v \<and> vc_active w = vc_active v \<and> vm_active w = vm_active v \<and> vc_recorder w = vc_recorder v"

lemma play_quiet:
  assumes "playVoice L ok src i v = (es, w)"
  shows "voices_sent es = 0 \<and> same_draft v w"
proof -
  obtain es1 v1 where a: "stopCurrentAudio L v = (es1, v1)" by fastforce
  obtain es2 v2 where b: "player_setSource L [] v1 = (es2, v2)" by fastforce
  let ?v3 = "v2\<lparr>vp_source := src, vp_message := i, vp_error := [], vp_progress := 0\<rparr>"
  obtain es4 v4 where c: "player_setSource L src ?v3 = (es4, v4)" by fastforce
  have q: "voices_sent es1 = 0" "same_draft v v1" using a by (auto simp: stopCurrentAudio_def same_draft_def)
  have q2: "voices_sent es2 = 0" "same_draft v v2" "voices_sent es4 = 0" "same_draft v v4"
    using source_quiet [OF b] source_quiet [OF c] q(2) by (auto simp: same_draft_def)
  have p: "voices_sent (player_play x) = 0" for x by (simp add: player_play_def)
  define same where "same = (if i \<noteq> [] then i = vp_message v else src = vp_source v)"
  show ?thesis
  proof (cases "src = [] \<or> (same \<and> vp_pending v \<noteq> []) \<or> (same \<and> vp_player v \<noteq> [] \<and> ok)")
    case True
    with assms show ?thesis
      by (auto simp: playVoice_def same_def [symmetric] same_draft_def split: if_splits prod.splits dest!: inPlay_quiet)
  next
    case False
    define x where "x = (if vl_local L src then (es4 @ player_play v4, v4)
      else if vl_media L then (let m = (if vl_id_for L src = [] then vl_hash L src else vl_id_for L src)
        in ([PlaybackChanged, DownloadVoice m src], ?v3\<lparr>vp_pending := m\<rparr>))
      else ([], ?v3\<lparr>vp_error := ''Audio download service is unavailable.''\<rparr>))"
    obtain gs v5 where x': "x = (gs, v5)" by fastforce
    obtain hs v6 where h: "setIsInPlay True v5 = (hs, v6)" by fastforce
    have "voices_sent gs = 0 \<and> same_draft v v5"
      using x' q2 p unfolding x_def by (auto simp: same_draft_def Let_def split: if_splits)
    moreover have "es = PreviewStop # es1 @ es2 @ gs @ [PlaybackChanged] @ hs \<and> w = v6"
      using assms False a b c h x' unfolding x_def playVoice_def same_def [symmetric] by (simp add: Let_def split: if_splits)
    ultimately show ?thesis using q(1) q2(1) inPlay_quiet [OF h] by (auto simp: same_draft_def)
  qed
qed

lemma voice_quiet:
  assumes "e \<in> {VoicePauseVoice, VoiceResumeVoice, VoiceStopPlayback, VoiceCancelPlayback, VoicePlayPreview} \<or> (\<exists>b. e = PlayerStatus b)
      \<or> (\<exists>m r n. e = VoiceProgress m r n) \<or> (\<exists>m p b. e = VoiceDownloaded m p b) \<or> (\<exists>m x. e = VoiceDownloadFailed m x)
      \<or> (\<exists>ok src i. e = VoicePlay ok src i) \<or> (\<exists>u r c. e = VoiceSendEnded u r c)"
    and "voice_step L e v = (es, w)"
  shows "voices_sent es = 0 \<and> same_draft v w"
  using assms play_quiet
  by (auto simp: same_draft_def pauseVoice_def resumeVoice_def cancelVoicePlayback_def playVoicePreview_def player_status_def
      voice_download_progress_def voice_download_completed_def voice_download_failed_def voice_send_ended_def player_play_def Let_def
      split: if_splits prod.splits option.splits dest!: inPlay_quiet stop_playback_quiet source_quiet)

fun is_voice_start :: "voice_event \<Rightarrow> bool" where
  "is_voice_start (VoiceStart _ _) \<longleftrightarrow> True"
| "is_voice_start _ \<longleftrightarrow> False"

lemma start_draft:
  assumes "startVoiceRecording L S B v = (es, w)"
  shows "voices_sent es + drafts w \<le> 1 \<or> sends_draft v es w"
    and "SendVoice c x d u \<in> set es \<Longrightarrow> c = vm_active v \<and> c \<noteq> [] \<and> 0 < d \<and> x \<noteq> []"
proof -
  have both: "(voices_sent es + drafts w \<le> 1 \<or> sends_draft v es w)
      \<and> (\<forall>c x d u. SendVoice c x d u \<in> set es \<longrightarrow> c = vm_active v \<and> c \<noteq> [] \<and> 0 < d \<and> x \<noteq> [])"
  proof (cases "isVoiceRecordingBusy v \<or> vc_active v = []")
    case True
    with assms have "sends_draft v es w"
      by (auto simp: startVoiceRecording_def intro: sends_draft_same failed_quiet split: if_splits)
    then show ?thesis by (auto simp: sends_draft_def)
  next
    case False
    obtain es1 v1 where a: "stopVoicePlayback L (v\<lparr>vc_revision := vc_revision v + 1\<rparr>) = (es1, v1)" by fastforce
    obtain es2 v2 where b: "file_changed (v1\<lparr>vc_recording := vc_active v1, vc_final := 0, vc_file := []\<rparr>) = (es2, v2)" by fastforce
    obtain es3 v3 where c: "setVoiceRecordingError [] v2 = (es3, v3)" by fastforce
    obtain es4 v4 where d: "with_recorder [] (rec_start S B) v3 = (es4, v4)" by fastforce
    have e: "es = es1 @ es2 @ es3 @ es4" "w = v4" using assms False a b c d by (auto simp: startVoiceRecording_def)
    have q: "voices_sent es1 = 0" "voices_sent es2 = 0" "voices_sent es3 = 0" "vm_active v3 = vm_active v" "vc_recording v3 = vc_active v"
      using stop_playback_quiet [OF a] file_changed_quiet [OF b] error_quiet [OF c] by auto
    from recorder_draft [OF d] have r: "voices_sent es4 + drafts v4 \<le> drafts v3"
      "\<forall>c x d u. SendVoice c x d u \<in> set es4 \<longrightarrow> c = vm_active v3 \<and> c \<noteq> [] \<and> 0 < d \<and> x \<noteq> []" by (auto simp: sends_draft_def)
    have "drafts v3 \<le> 1" by (simp add: drafts_def)
    with r q e voices_none show ?thesis by fastforce
  qed
  then show "voices_sent es + drafts w \<le> 1 \<or> sends_draft v es w" by blast
  show "SendVoice c x d u \<in> set es \<Longrightarrow> c = vm_active v \<and> c \<noteq> [] \<and> 0 < d \<and> x \<noteq> []" using both by blast
qed

lemma step_draft:
  assumes "voice_step L e v = (es, w)" and "\<not> is_voice_start e"
  shows "voices_sent es + drafts w \<le> drafts v \<and> (\<forall>c x d u. SendVoice c x d u \<in> set es \<longrightarrow> c = vm_active v \<and> c \<noteq> [] \<and> 0 < d \<and> x \<noteq> [])"
proof -
  have of_draft: ?thesis if "sends_draft v es w" using that by (auto simp: sends_draft_def)
  have of_none: ?thesis if "voices_sent es = 0" "vc_recording w = [] \<or> vc_recording w = vc_recording v"
    using that voices_none [OF that(1)] by (auto simp: drafts_def)
  have quiet: ?thesis if "e \<in> {VoicePauseVoice, VoiceResumeVoice, VoiceStopPlayback, VoiceCancelPlayback, VoicePlayPreview} \<or> (\<exists>b. e = PlayerStatus b)
      \<or> (\<exists>m r n. e = VoiceProgress m r n) \<or> (\<exists>m p b. e = VoiceDownloaded m p b) \<or> (\<exists>m x. e = VoiceDownloadFailed m x)
      \<or> (\<exists>ok src i. e = VoicePlay ok src i) \<or> (\<exists>u r c. e = VoiceSendEnded u r c)"
    using voice_quiet [OF that assms(1)] by (intro of_none) (auto simp: same_draft_def)
  show ?thesis
  proof (cases e)
    case (VoiceSend uuid given)
    obtain x y where "with_recorder uuid rec_stop (v\<lparr>vm_sendWhenReady := True\<rparr>) = (x, y)" by fastforce
    moreover have "sends_draft (v\<lparr>vm_sendWhenReady := True\<rparr>) x y \<Longrightarrow> sends_draft v x y" for x y by (simp add: sends_draft_def drafts_def)
    ultimately have "sends_draft v es w"
      using assms VoiceSend recorder_draft send_idle_draft sends_draft_same [of "[]" v v]
      by (auto simp: vm_sendVoice_def split: if_splits)
    then show ?thesis by (rule of_draft)
  next
    case (VoiceResume sf)
    obtain x y where f: "(if vr_state (vc_recorder v) = RecPaused then file_changed (v\<lparr>vc_file := []\<rparr>) else ([], v)) = (x, y)" by fastforce
    obtain p q where r: "with_recorder [] (rec_resume sf) y = (p, q)" by fastforce
    have "sends_draft v x y" using f by (auto split: if_splits intro!: sends_draft_same dest!: file_changed_quiet)
    from sends_draft_trans [OF this recorder_draft [OF r]] assms VoiceResume f r have "sends_draft v es w"
      by (auto simp: resumeVoiceRecording_def)
    then show ?thesis by (rule of_draft)
  next
    case VoiceCancel
    with assms cancel_draft of_none show ?thesis by auto
  next
    case (OpenConversation c)
    with assms show ?thesis
      by (intro of_none) (auto simp: open_conversation_def voice_setConversation_def Let_def split: if_splits prod.splits dest: cancel_draft)
  next
    case ResetConversation
    obtain e1 v1 where a: "stopVoicePlayback L (v\<lparr>vm_sendWhenReady := False\<rparr>) = (e1, v1)" by fastforce
    obtain e2 v2 where b: "player_setSource L [] (v1\<lparr>vp_source := [], vp_message := []\<rparr>) = (e2, v2)" by fastforce
    obtain e3 v3 where c: "cancelVoiceRecording v2 = (e3, v3)" by fastforce
    have "es = e1 @ e2 @ e3 @ [PlaybackChanged]" "vc_recording w = vc_recording v3"
      using assms ResetConversation a b c by (auto simp: reset_conversation_def voice_reset_def)
    with stop_playback_quiet [OF a] source_quiet [OF b] cancel_draft [OF c] show ?thesis by (intro of_none) auto
  next
    case (VoiceStart S B)
    with assms(2) show ?thesis by simp
  next
    case (VoicePause sf fl fe)
    with assms recorder_draft of_draft show ?thesis by auto
  next
    case VoiceStop
    with assms recorder_draft of_draft show ?thesis by auto
  next
    case (VoiceRecorder u x)
    with assms recorder_draft sends_draft_same [of "[]" v v] of_draft show ?thesis by (auto split: if_splits)
  qed (rule quiet, simp)+
qed

lemma run_draft:
  "voice_run L es v = (fs, w) \<Longrightarrow> voices_sent fs + drafts w \<le> drafts v + length (filter is_voice_start es)"
proof (induction es arbitrary: v fs)
  case (Cons e es)
  obtain gs x where s: "voice_step L e v = (gs, x)" by fastforce
  obtain hs y where r: "voice_run L es x = (hs, y)" by fastforce
  from Cons.prems s r have f: "fs = gs @ hs" "y = w" by auto
  have "voices_sent gs + drafts x \<le> drafts v + (if is_voice_start e then 1 else 0)"
  proof (cases "is_voice_start e")
    case True
    then obtain S B where "e = VoiceStart S B" by (cases e) auto
    with start_draft(1) [of L S B v gs x] s True show ?thesis by (auto simp: sends_draft_def)
  next
    case False
    with step_draft [OF s] show ?thesis by simp
  qed
  with Cons.IH [OF r [unfolded f(2)]] f show ?case by (cases "is_voice_start e") auto
qed simp


text \<open>
  A voice message goes to the conversation that is open when it is sent, has a file and a positive
  duration.
\<close>

theorem voice_send_target:
  assumes "voice_step L e v = (fs, w)" and "SendVoice c file dur u \<in> set fs"
  shows "c = vm_active v \<and> c \<noteq> [] \<and> file \<noteq> [] \<and> 0 < dur"
proof (cases "is_voice_start e")
  case True
  then obtain S B where "e = VoiceStart S B" by (cases e) auto
  with assms start_draft(2) [of L S B v fs w] show ?thesis by auto
next
  case False
  with step_draft [OF assms(1)] assms(2) show ?thesis by auto
qed

text \<open>
  A draft never follows into another conversation: after another conversation is opened, the view is
  reset or the recording is cancelled, nothing is sent until a new recording is started, whatever the
  encoder of the old one still delivers.
\<close>

theorem draft_stays_in_chat:
  assumes "voice_run L (e # es) v = (fs, w)" and "e = VoiceCancel \<or> e = ResetConversation \<or> (\<exists>c. e = OpenConversation c \<and> c \<noteq> vc_active v)"
    and "\<not> list_ex is_voice_start es"
  shows "voices_sent fs = 0"
proof -
  obtain gs x where s: "voice_step L e v = (gs, x)" by fastforce
  obtain hs y where r: "voice_run L es x = (hs, y)" by fastforce
  from assms(1) s r have f: "fs = gs @ hs" "y = w" by auto
  have "voices_sent gs = 0 \<and> vc_recording x = []"
  proof -
    consider "e = VoiceCancel" | c where "e = OpenConversation c" "c \<noteq> vc_active v" | "e = ResetConversation" using assms(2) by blast
    then show ?thesis
    proof cases
      case 1
      with s cancel_draft show ?thesis by auto
    next
      case 2
      with s show ?thesis
        by (auto simp: open_conversation_def voice_setConversation_def Let_def split: if_splits prod.splits dest: cancel_draft)
    next
      case 3
      obtain e1 v1 where a: "stopVoicePlayback L (v\<lparr>vm_sendWhenReady := False\<rparr>) = (e1, v1)" by fastforce
      obtain e2 v2 where b: "player_setSource L [] (v1\<lparr>vp_source := [], vp_message := []\<rparr>) = (e2, v2)" by fastforce
      obtain e3 v3 where c: "cancelVoiceRecording v2 = (e3, v3)" by fastforce
      have "gs = e1 @ e2 @ e3 @ [PlaybackChanged]" "vc_recording x = vc_recording v3"
        using s 3 a b c by (auto simp: reset_conversation_def voice_reset_def)
      with stop_playback_quiet [OF a] source_quiet [OF b] cancel_draft [OF c] show ?thesis by auto
    qed
  qed
  moreover have "filter is_voice_start es = []" using assms(3) by (auto simp: list_ex_iff filter_empty_conv)
  ultimately show ?thesis using run_draft [OF r] f by (simp add: drafts_def)
qed

section \<open>Runs on examples\<close>

definition demo_voice_lib :: voice_lib where
  "demo_voice_lib = \<lparr>vl_media = True, vl_is_cache = \<lambda>_. False, vl_readable = \<lambda>_. True, vl_local = \<lambda>_. True, vl_id_for = \<lambda>_. [], vl_hash = \<lambda>s. s\<rparr>"

definition demo_voice_start :: voice_event where
  "demo_voice_start = VoiceStart \<lparr>se_local = True, se_writable = True, se_canceled = False, se_permission = MicGranted\<rparr> demo_begin"

definition demo_encoding :: "voice_event list" where
  "demo_encoding = [VoiceRecorder ''u'' (RecFinish True None), VoiceRecorder ''u'' (RecEncoder (EncFeed [True, True] (\<lambda>_. True))),
     VoiceRecorder ''u'' (RecEncoder (EncStopped True))]"

definition demo_voice_send :: "voice_event list" where
  "demo_voice_send = [OpenConversation ''bob'', demo_voice_start, VoiceRecorder [] (RecEncoder (EncWrite [1, 2, 3, 4] True)), VoiceSend ''u'' 0] @ demo_encoding"

definition demo_unsent :: voice_chat where
  "demo_unsent = snd (voice_run demo_voice_lib demo_voice_send new_voice_chat)"

lemma voice_send_target_witness:
  "''bob'' = vm_active demo_unsent \<and> ''bob'' \<noteq> [] \<and> ''v.m4a'' \<noteq> [] \<and> 0 < (4 :: int)"
proof -
  have "list_ex (\<lambda>e. e = SendVoice ''bob'' ''v.m4a'' 4 ''u'') (fst (voice_step demo_voice_lib (VoiceRecorder ''u'' (RecEncoder EncDeliver)) demo_unsent))"
    by code_simp
  then have "SendVoice ''bob'' ''v.m4a'' 4 ''u'' \<in> set (fst (voice_step demo_voice_lib (VoiceRecorder ''u'' (RecEncoder EncDeliver)) demo_unsent))"
    by (auto simp: list_ex_iff)
  from voice_send_target [OF prod.collapse [symmetric] this] show ?thesis .
qed

lemma draft_stays_in_chat_witness:
  "voices_sent (fst (voice_run demo_voice_lib (OpenConversation ''eve'' # [VoiceRecorder ''u'' (RecEncoder EncDeliver), VoiceSend ''w'' 9]) demo_unsent)) = 0"
proof -
  have "list_all (\<lambda>c. c \<noteq> ''eve'') [vc_active demo_unsent]" by code_simp
  then have "''eve'' \<noteq> vc_active demo_unsent" by auto
  then show ?thesis
    by (intro draft_stays_in_chat [OF prod.collapse [symmetric]]) auto
qed

text \<open>
  A recording that failed can still be sent: the receiver, the file name and the duration are kept, the
  file is not. And a recording is sent that nobody asked to send: when the final encoding fails after a
  failed preview, neither the failure nor a cancellation is signalled, so the wish to send outlives the
  recording and is met by the next one, which the user has only stopped.
\<close>

lemma failed_recording_sent:
  "list_ex (\<lambda>e. e = SendVoice ''bob'' ''v.m4a'' 4 ''w'')
     (fst (voice_run demo_voice_lib [OpenConversation ''bob'', demo_voice_start, VoiceRecorder [] (RecEncoder (EncWrite [1, 2, 3, 4] True)),
        VoiceRecorder [] RecSourceFailed, VoiceRecorder [] (RecFinish True None), VoiceSend ''w'' 0] new_voice_chat))"
  by code_simp

lemma unwanted_recording_sent:
  "list_ex (\<lambda>e. e = SendVoice ''bob'' ''v.m4a'' 4 ''u'')
     (fst (voice_run demo_voice_lib ([OpenConversation ''bob'', demo_voice_start, VoicePause False True None, VoiceSend ''w'' 0,
        VoiceRecorder [] (RecFinish True None), demo_voice_start, VoiceRecorder [] (RecEncoder (EncWrite [1, 2, 3, 4] True)), VoiceStop]
        @ demo_encoding @ [VoiceRecorder ''u'' (RecEncoder EncDeliver)]) new_voice_chat))"
  by code_simp

end
