(* ===== verification/Webrtc_Client.thy ===== *)
theory Webrtc_Client
  imports Call_Service
begin

text \<open>
  \<open>WebrtcClient\<close> (core/webrtc/webrtc_client.cpp) with the camera that runs on a thread of its own
  (core/webrtc/qt_camera_capture.cpp). The WebRTC library, the camera and the audio devices are
  parameters: what they answer comes with the operations. A call to the capture thread waits in a queue; a
  callback of the library carries the number of the connection it belongs to, which is what the guarded
  pointer to the observer stands for.
\<close>

section \<open>The camera on its thread\<close>

datatype capture_call = CaptureDevice string | CapturePrepare string | CaptureStart | CaptureStop

datatype capture_signal = FrameReady bool | CaptureError string | CameraStarted | CameraStopped

text \<open>The empty name is no device; \<open>cam_ready\<close>: there is a camera with its session and sink.\<close>

record camera_capture =
  cam_requested :: bool
  cam_ready :: bool
  cam_selected :: bool
  cam_device :: string
  cam_latest :: bool

definition new_capture :: camera_capture where
  "new_capture = \<lparr>cam_requested = False, cam_ready = False, cam_selected = False, cam_device = [], cam_latest = False\<rparr>"

text \<open>The default device and the devices with a supported format.\<close>

record camera_env =
  cam_default :: string
  cam_usable :: "string \<Rightarrow> bool"

definition capture_prepare :: "camera_env \<Rightarrow> camera_capture \<Rightarrow> capture_signal list \<times> camera_capture" where
  "capture_prepare E c =
     (if cam_ready c then ([], c)
      else
        (let d = (if cam_selected c then cam_device c else cam_default E)
         in if d = [] then ([CaptureError ''No usable local camera is available''], c)
            else if \<not> cam_usable E d then ([CaptureError ''Camera has no supported video format''], c)
            else ([], c\<lparr>cam_ready := True\<rparr>)))"

definition capture_start :: "camera_env \<Rightarrow> camera_capture \<Rightarrow> capture_signal list \<times> camera_capture" where
  "capture_start E c =
     (if cam_requested c then ([], c)
      else
        (case capture_prepare E c of
           (es, c1) \<Rightarrow> if \<not> cam_ready c1 then (es, c1) else (es @ [CameraStarted], c1\<lparr>cam_requested := True\<rparr>)))"

definition capture_stop :: "camera_capture \<Rightarrow> capture_signal list \<times> camera_capture" where
  "capture_stop c = ((if cam_ready c then [CameraStopped] else []) @ [FrameReady False], c\<lparr>cam_requested := False, cam_latest := False\<rparr>)"

definition capture_setDevice :: "camera_env \<Rightarrow> string \<Rightarrow> camera_capture \<Rightarrow> capture_signal list \<times> camera_capture" where
  "capture_setDevice E d c =
     (if cam_selected c \<and> cam_device c = d then ([], c)
      else
        (case capture_stop c of
           (es, c1) \<Rightarrow>
             (let c2 = c1\<lparr>cam_ready := False, cam_device := d, cam_selected := True\<rparr>
              in if \<not> cam_requested c then (es, c2)
                 else (case capture_start E c2 of
                         (fs, c3) \<Rightarrow> (es @ fs, if d = [] then c3\<lparr>cam_requested := True\<rparr> else c3)))))"

fun capture_exec :: "camera_env \<Rightarrow> capture_call \<Rightarrow> camera_capture \<Rightarrow> capture_signal list \<times> camera_capture" where
  "capture_exec E (CaptureDevice d) c = capture_setDevice E d c"
| "capture_exec E (CapturePrepare d) c =
     (case capture_setDevice E d c of (es, c1) \<Rightarrow> (case capture_prepare E c1 of (fs, c2) \<Rightarrow> (es @ fs, c2)))"
| "capture_exec E CaptureStart c = capture_start E c"
| "capture_exec E CaptureStop c = capture_stop c"

definition capture_failed :: "string \<Rightarrow> camera_capture \<Rightarrow> capture_signal list \<times> camera_capture" where
  "capture_failed e c = (if \<not> cam_ready c then ([], c) else ([CaptureError e], c\<lparr>cam_requested := False\<rparr>))"

definition capture_frame :: "bool \<Rightarrow> camera_capture \<Rightarrow> capture_signal list \<times> camera_capture" where
  "capture_frame copied c =
     (if \<not> cam_requested c \<or> \<not> cam_ready c \<or> \<not> copied then ([], c) else ([FrameReady True], c\<lparr>cam_latest := True\<rparr>))"

definition capture_takeFrame :: "camera_capture \<Rightarrow> bool \<times> camera_capture" where
  "capture_takeFrame c = (cam_latest c, c\<lparr>cam_latest := False\<rparr>)"

section \<open>Audio devices\<close>

text \<open>
  One direction of the audio device module: whether it runs, and the flag that it has to be resumed. The
  listed devices have an identifier and a name; a failed query is \<open>None\<close>.
\<close>

record audio_path =
  ap_active :: bool
  ap_resume :: bool
  ap_device :: nat

record audio_device =
  ad_id :: string
  ad_description :: string
  ad_null :: bool

record audio_calls =
  ac_devices :: "(string \<times> string) option list"
  ac_stop :: bool
  ac_set :: bool
  ac_init :: bool
  ac_start :: bool

fun find_device :: "audio_device \<Rightarrow> nat \<Rightarrow> (string \<times> string) option list \<Rightarrow> nat option" where
  "find_device d i [] = None"
| "find_device d i (x # xs) =
     (case x of
        Some (nam, guid) \<Rightarrow>
          if ad_id d \<noteq> [] \<and> ad_id d = guid \<or> ad_description d = nam then Some i else find_device d (i + 1) xs
      | None \<Rightarrow> find_device d (i + 1) xs)"

definition applyAudioDevice :: "audio_calls \<Rightarrow> audio_device \<Rightarrow> audio_path \<Rightarrow> bool \<times> audio_path" where
  "applyAudioDevice A d p =
     (let active = (ap_active p \<or> ap_resume p); stopped = (if ac_stop A then p\<lparr>ap_active := False\<rparr> else p)
      in if ad_null d then (ac_stop A, stopped\<lparr>ap_resume := active\<rparr>)
         else case find_device d 0 (ac_devices A) of
                None \<Rightarrow> (False, p)
              | Some i \<Rightarrow>
                  if \<not> ac_stop A then (False, stopped)
                  else if \<not> ac_set A then (False, stopped)
                  else
                    (let q = stopped\<lparr>ap_device := i\<rparr>
                     in if \<not> active then (True, q)
                        else if \<not> ac_init A then (False, q)
                        else (ac_start A, q\<lparr>ap_active := ac_start A, ap_resume := \<not> ac_start A\<rparr>)))"

section \<open>The client\<close>

datatype rtc_signal =
    RtcError string
  | CameraEnabledChanged bool
  | LocalVideoFrame bool
  | RemoteVideoFrame bool
  | RtcStateChanged rtc_state
  | RtcIsConnected
  | RtcIsDisconnected
  | LocalCandidate string string int
  | LocalSdpCreated string string
  | SdpDone string
  | RemoteSdpDone
  | PeerCreated "(string \<times> string \<times> string) list"
  | PeerClosed
  | PushedFrame

record webrtc =
  wc_factory :: bool
  wc_audioTrack :: "bool option"
  wc_videoTrack :: "bool option"
  wc_cameraSource :: bool
  wc_peer :: bool
  wc_videoSent :: bool
  wc_observer :: "nat option"
  wc_connections :: nat
  wc_peerConnected :: bool
  wc_cameraRequested :: bool
  wc_cameraDevice :: string
  wc_capture :: "camera_capture option"
  wc_queue :: "capture_call list"
  wc_input :: audio_path
  wc_output :: audio_path
  wc_audioInput :: audio_device
  wc_audioOutput :: audio_device

definition no_audio :: audio_device where
  "no_audio = \<lparr>ad_id = [], ad_description = [], ad_null = True\<rparr>"

definition silent_path :: audio_path where
  "silent_path = \<lparr>ap_active = False, ap_resume = False, ap_device = 0\<rparr>"

definition new_webrtc :: webrtc where
  "new_webrtc = \<lparr>wc_factory = False, wc_audioTrack = None, wc_videoTrack = None, wc_cameraSource = False, wc_peer = False, wc_videoSent = False,
     wc_observer = None, wc_connections = 0, wc_peerConnected = False, wc_cameraRequested = False, wc_cameraDevice = [], wc_capture = None,
     wc_queue = [], wc_input = silent_path, wc_output = silent_path, wc_audioInput = no_audio, wc_audioOutput = no_audio\<rparr>"

definition rtc_prepare :: "webrtc \<Rightarrow> webrtc" where
  "rtc_prepare w =
     w\<lparr>wc_capture := Some (case wc_capture w of None \<Rightarrow> new_capture | Some c \<Rightarrow> c),
       wc_queue := wc_queue w @ [CapturePrepare (wc_cameraDevice w)]\<rparr>"

definition updateCameraCapture :: "webrtc \<Rightarrow> webrtc" where
  "updateCameraCapture w =
     (let w1 = w\<lparr>wc_videoTrack := map_option (\<lambda>_. wc_cameraRequested w) (wc_videoTrack w)\<rparr>;
          w2 = (if wc_cameraRequested w1 \<and> wc_capture w1 = None then rtc_prepare w1 else w1)
      in if wc_capture w2 = None then w2
         else w2\<lparr>wc_queue := wc_queue w2 @ [if wc_cameraRequested w2 then CaptureStart else CaptureStop]\<rparr>)"

definition setCameraEnabled :: "bool \<Rightarrow> webrtc \<Rightarrow> webrtc" where
  "setCameraEnabled enable w = updateCameraCapture (w\<lparr>wc_cameraRequested := enable\<rparr>)"

definition rtc_setCameraDevice :: "string \<Rightarrow> webrtc \<Rightarrow> webrtc" where
  "rtc_setCameraDevice d w =
     (let w1 = w\<lparr>wc_cameraDevice := d\<rparr>
      in if wc_capture w1 = None then w1 else w1\<lparr>wc_queue := wc_queue w1 @ [CaptureDevice d]\<rparr>)"

text \<open>An audio device is only switched once there is a factory.\<close>

definition rtc_applyInput :: "audio_calls \<Rightarrow> audio_device \<Rightarrow> webrtc \<Rightarrow> rtc_signal list \<times> webrtc" where
  "rtc_applyInput A d w =
     (if \<not> wc_factory w then ([], w)
      else case applyAudioDevice A d (wc_input w) of
             (ok, p) \<Rightarrow> ((if ok then [] else [RtcError (''Cannot switch audio input to '' @ ad_description d)]), w\<lparr>wc_input := p\<rparr>))"

definition rtc_applyOutput :: "audio_calls \<Rightarrow> audio_device \<Rightarrow> webrtc \<Rightarrow> rtc_signal list \<times> webrtc" where
  "rtc_applyOutput A d w =
     (if \<not> wc_factory w then ([], w)
      else case applyAudioDevice A d (wc_output w) of
             (ok, p) \<Rightarrow> ((if ok then [] else [RtcError (''Cannot switch audio output to '' @ ad_description d)]), w\<lparr>wc_output := p\<rparr>))"

definition rtc_setAudioInput :: "audio_calls \<Rightarrow> audio_device \<Rightarrow> webrtc \<Rightarrow> rtc_signal list \<times> webrtc" where
  "rtc_setAudioInput A d w = rtc_applyInput A d (w\<lparr>wc_audioInput := d\<rparr>)"

definition rtc_setAudioOutput :: "audio_calls \<Rightarrow> audio_device \<Rightarrow> webrtc \<Rightarrow> rtc_signal list \<times> webrtc" where
  "rtc_setAudioOutput A d w = rtc_applyOutput A d (w\<lparr>wc_audioOutput := d\<rparr>)"

text \<open>\<open>track\<close>: the library creates the audio source and the track.\<close>

definition createLocalAudioTrack :: "bool \<Rightarrow> webrtc \<Rightarrow> webrtc" where
  "createLocalAudioTrack track w = (if \<not> wc_factory w \<or> \<not> track then w else w\<lparr>wc_audioTrack := Some True\<rparr>)"

record rtc_start =
  rs_threads :: bool
  rs_audio :: bool
  rs_factory :: bool
  rs_track :: bool
  rs_input :: audio_calls
  rs_output :: audio_calls

definition rtc_initialize :: "rtc_start \<Rightarrow> webrtc \<Rightarrow> bool \<times> rtc_signal list \<times> webrtc" where
  "rtc_initialize S w =
     (if \<not> rs_threads S then (False, [], w)
      else if \<not> rs_audio S then (False, [RtcError ''Cannot initialize audio devices''], w)
      else if \<not> rs_factory S then (False, [], w\<lparr>wc_factory := False\<rparr>)
      else
        (case rtc_applyInput (rs_input S) (wc_audioInput w) (w\<lparr>wc_factory := True\<rparr>) of
           (es, w1) \<Rightarrow>
             (case rtc_applyOutput (rs_output S) (wc_audioOutput w1) w1 of
                (fs, w2) \<Rightarrow> (True, es @ fs, createLocalAudioTrack (rs_track S) w2))))"

definition setMuteMicrophone :: "bool \<Rightarrow> webrtc \<Rightarrow> webrtc" where
  "setMuteMicrophone mute w = w\<lparr>wc_audioTrack := map_option (\<lambda>_. \<not> mute) (wc_audioTrack w)\<rparr>"

definition ice_url :: "IceServer \<Rightarrow> string" where
  "ice_url s =
     (let a = trim_text (ice_host s);
          b = (if CHR '':'' \<in> set a \<and> \<not> startsWith a ''['' then ''['' @ a @ '']'' else a);
          r = ice_toString (ice_type s) @ '':'' @ b
      in if ice_port s = [] then r else r @ '':'' @ ice_port s)"

definition createPeerConnection :: "bool \<Rightarrow> IceServer list \<Rightarrow> webrtc \<Rightarrow> bool \<times> rtc_signal list \<times> webrtc" where
  "createPeerConnection created servers w =
     (if \<not> wc_factory w then (False, [], w)
      else if wc_peer w then (False, [], w)
      else if list_ex (\<lambda>s. blank (ice_host s)) servers then (False, [], w)
      else
        (let w1 = w\<lparr>wc_observer := Some (wc_connections w), wc_connections := wc_connections w + 1\<rparr>
         in if \<not> created then (False, [], w1)
            else (True, [PeerCreated (map (\<lambda>s. (ice_url s, ice_username s, ice_credential s)) servers)], w1\<lparr>wc_peer := True, wc_videoSent := False\<rparr>)))"

text \<open>\<open>track\<close>: the video track can be created; \<open>added\<close>: it can be added to the connection.\<close>

definition createLocalCameraTrack :: "bool \<Rightarrow> bool \<Rightarrow> webrtc \<Rightarrow> rtc_signal list \<times> webrtc" where
  "createLocalCameraTrack track added w =
     (if \<not> wc_cameraRequested w \<or> \<not> wc_factory w then ([], w)
      else if wc_videoTrack w = None \<and> \<not> track then ([], w\<lparr>wc_cameraSource := False\<rparr>)
      else
        (let w1 = (if wc_videoTrack w = None then w\<lparr>wc_videoTrack := Some True, wc_cameraSource := True\<rparr> else w);
             w2 = updateCameraCapture w1
         in if \<not> wc_peer w2 \<or> wc_videoSent w2 then ([], w2)
            else if added then ([], w2\<lparr>wc_videoSent := True\<rparr>)
            else ([RtcError ''Unable to add the local video track''], w2)))"

text \<open>\<open>createOffer\<close> and \<open>createAnswer\<close> up to the request to the library: the connection it was made for.\<close>

definition rtc_createSdp :: "bool \<Rightarrow> bool \<Rightarrow> bool \<Rightarrow> webrtc \<Rightarrow> nat option \<times> rtc_signal list \<times> webrtc" where
  "rtc_createSdp audio_added track added w =
     (if \<not> wc_factory w \<or> \<not> wc_peer w then (None, [], w)
      else if \<not> audio_added then (None, [], w)
      else (case createLocalCameraTrack track added w of (es, w1) \<Rightarrow> (wc_observer w1, es, w1)))"

text \<open>The description is created; the local description is set and the completion is queued; it is delivered.\<close>

definition sdp_created :: "nat \<Rightarrow> bool \<Rightarrow> webrtc \<Rightarrow> bool" where
  "sdp_created n serialized w \<longleftrightarrow> wc_observer w = Some n \<and> wc_peer w \<and> serialized"

definition local_sdp_set :: "nat \<Rightarrow> bool \<Rightarrow> webrtc \<Rightarrow> bool" where
  "local_sdp_set n ok w \<longleftrightarrow> wc_observer w = Some n \<and> ok"

definition sdp_delivered :: "nat \<Rightarrow> string \<Rightarrow> string \<Rightarrow> webrtc \<Rightarrow> rtc_signal list" where
  "sdp_delivered n kind sdp w = (if wc_observer w = Some n then [LocalSdpCreated kind sdp, SdpDone sdp] else [])"

definition setRemoteSdp :: "bool \<Rightarrow> webrtc \<Rightarrow> nat option \<times> bool" where
  "setRemoteSdp parsed w = (if \<not> wc_peer w \<or> \<not> parsed then (None, False) else (wc_observer w, True))"

definition remote_sdp_delivered :: "nat \<Rightarrow> webrtc \<Rightarrow> rtc_signal list" where
  "remote_sdp_delivered n w = (if wc_observer w = Some n then [RemoteSdpDone] else [])"

text \<open>The states of a peer connection, and what the client makes of them.\<close>

datatype peer_state = PeerNew | PeerConnecting | PeerConnected | PeerDisconnected | PeerFailed | PeerClosedState

definition peer_state_changed :: "nat \<Rightarrow> peer_state \<Rightarrow> webrtc \<Rightarrow> rtc_signal list \<times> webrtc" where
  "peer_state_changed n st w =
     (if wc_observer w \<noteq> Some n then ([], w)
      else
        (let w1 = updateCameraCapture (w\<lparr>wc_peerConnected := (st = PeerConnected)\<rparr>);
             es = (if st = PeerConnected then [] else [RemoteVideoFrame False])
         in if st = PeerConnected then (es @ [RtcStateChanged RtcConnected, RtcIsConnected], setMuteMicrophone False w1)
            else if st = PeerConnecting then (es @ [RtcStateChanged RtcConnecting], w1)
            else if st = PeerNew then (es @ [RtcStateChanged Checking], w1)
            else (es @ [RtcStateChanged RtcDisconnect, RtcIsDisconnected], w1)))"

definition candidate_found :: "nat \<Rightarrow> string \<Rightarrow> string \<Rightarrow> int \<Rightarrow> webrtc \<Rightarrow> rtc_signal list" where
  "candidate_found n candidate mid line w = (if wc_observer w = Some n then [LocalCandidate candidate mid line] else [])"

definition rtc_close :: "webrtc \<Rightarrow> rtc_signal list \<times> webrtc" where
  "rtc_close w =
     (let w1 = updateCameraCapture (w\<lparr>wc_peerConnected := False, wc_cameraRequested := False\<rparr>)
      in ((if wc_peer w then [PeerClosed] else []) @ [LocalVideoFrame False, RemoteVideoFrame False]
          @ (if wc_peer w then [RtcStateChanged RtcDisconnect, RtcIsDisconnected] else []),
          w1\<lparr>wc_peer := False, wc_observer := None, wc_videoTrack := None, wc_cameraSource := False, wc_videoSent := False\<rparr>))"

text \<open>The timer of the video; \<open>remote\<close>: a new frame of the remote side is waiting.\<close>

definition video_tick :: "bool \<Rightarrow> bool \<Rightarrow> webrtc \<Rightarrow> rtc_signal list \<times> webrtc" where
  "video_tick remote converted w =
     (let es = (if wc_peerConnected w \<and> wc_observer w \<noteq> None \<and> remote then [RemoteVideoFrame True] else [])
      in if wc_cameraRequested w \<and> wc_cameraSource w \<and> wc_videoTrack w = Some True
         then (case wc_capture w of
                 None \<Rightarrow> (es, w)
               | Some c \<Rightarrow>
                   (case capture_takeFrame c of
                      (taken, c1) \<Rightarrow> (es @ (if taken \<and> converted then [PushedFrame] else []), w\<lparr>wc_capture := Some c1\<rparr>)))
         else (es, w))"

section \<open>Runs\<close>

definition forward_capture :: "capture_signal list \<Rightarrow> rtc_signal list" where
  "forward_capture cs = List.map_filter (\<lambda>s. case s of FrameReady b \<Rightarrow> Some (LocalVideoFrame b) | CaptureError e \<Rightarrow> Some (RtcError e)
     | _ \<Rightarrow> None) cs"

datatype rtc_event =
    RtcInit rtc_start
  | RtcPrepareCall
  | RtcCreatePeer bool "IceServer list"
  | RtcCreateSdp bool bool bool
  | RtcCameraTrackCall bool bool
  | RtcSetCamera bool
  | RtcMute bool
  | RtcCameraChosen string
  | RtcInput audio_calls audio_device
  | RtcOutput audio_calls audio_device
  | RtcSdpDelivered nat string string
  | RtcRemoteDelivered nat
  | RtcPeerState nat peer_state
  | RtcCandidate nat string string int
  | RtcClose
  | RtcVideoTick bool bool
  | CameraTakes camera_env
  | CameraFails string
  | CameraFrame bool
  | CameraActive bool

text \<open>Starting and stopping are calls on the camera; that it is active is what it reports.\<close>

definition on_capture :: "(camera_capture \<Rightarrow> capture_signal list \<times> camera_capture) \<Rightarrow> webrtc \<Rightarrow> rtc_signal list \<times> webrtc" where
  "on_capture f w =
     (case wc_capture w of
        None \<Rightarrow> ([], w)
      | Some c \<Rightarrow> (case f c of (cs, c1) \<Rightarrow> (forward_capture cs, w\<lparr>wc_capture := Some c1\<rparr>)))"

definition camera_takes :: "camera_env \<Rightarrow> webrtc \<Rightarrow> rtc_signal list \<times> webrtc" where
  "camera_takes E w =
     (case wc_queue w of [] \<Rightarrow> ([], w) | q # qs \<Rightarrow> on_capture (capture_exec E q) (w\<lparr>wc_queue := qs\<rparr>))"

fun rtc_step :: "rtc_event \<Rightarrow> webrtc \<Rightarrow> rtc_signal list \<times> webrtc" where
  "rtc_step (RtcInit S) w = snd (rtc_initialize S w)"
| "rtc_step RtcPrepareCall w = ([], rtc_prepare w)"
| "rtc_step (RtcCreatePeer created servers) w = snd (createPeerConnection created servers w)"
| "rtc_step (RtcCreateSdp audio_added track added) w = snd (rtc_createSdp audio_added track added w)"
| "rtc_step (RtcCameraTrackCall track added) w = createLocalCameraTrack track added w"
| "rtc_step (RtcSetCamera enable) w = ([], setCameraEnabled enable w)"
| "rtc_step (RtcMute mute) w = ([], setMuteMicrophone mute w)"
| "rtc_step (RtcCameraChosen d) w = ([], rtc_setCameraDevice d w)"
| "rtc_step (RtcInput A d) w = rtc_setAudioInput A d w"
| "rtc_step (RtcOutput A d) w = rtc_setAudioOutput A d w"
| "rtc_step (RtcSdpDelivered n kind sdp) w = (sdp_delivered n kind sdp w, w)"
| "rtc_step (RtcRemoteDelivered n) w = (remote_sdp_delivered n w, w)"
| "rtc_step (RtcPeerState n st) w = peer_state_changed n st w"
| "rtc_step (RtcCandidate n candidate mid line) w = (candidate_found n candidate mid line w, w)"
| "rtc_step RtcClose w = rtc_close w"
| "rtc_step (RtcVideoTick remote converted) w = video_tick remote converted w"
| "rtc_step (CameraTakes E) w = camera_takes E w"
| "rtc_step (CameraFails e) w = on_capture (capture_failed e) w"
| "rtc_step (CameraFrame copied) w = on_capture (capture_frame copied) w"
| "rtc_step (CameraActive b) w = ((if wc_capture w = None then [] else [CameraEnabledChanged b]), w)"

fun rtc_run :: "rtc_event list \<Rightarrow> webrtc \<Rightarrow> rtc_signal list \<times> webrtc" where
  "rtc_run [] w = ([], w)"
| "rtc_run (e # es) w = (case rtc_step e w of (fs, w1) \<Rightarrow> (case rtc_run es w1 of (gs, w2) \<Rightarrow> (fs @ gs, w2)))"

section \<open>The camera is off when it is not wanted\<close>

text \<open>What the calls in the queue leave of the wish to capture, at most.\<close>

fun wanted_after :: "capture_call list \<Rightarrow> bool \<Rightarrow> bool" where
  "wanted_after [] b = b"
| "wanted_after (CaptureStart # qs) b = wanted_after qs True"
| "wanted_after (CaptureStop # qs) b = wanted_after qs False"
| "wanted_after (CaptureDevice d # qs) b = wanted_after qs b"
| "wanted_after (CapturePrepare d # qs) b = wanted_after qs b"

lemma wanted_after_append: "wanted_after (qs @ rs) b = wanted_after rs (wanted_after qs b)"
  by (induction qs b rule: wanted_after.induct) auto

lemma wanted_after_mono: "wanted_after qs b \<Longrightarrow> (b \<longrightarrow> c) \<Longrightarrow> wanted_after qs c"
  by (induction qs b arbitrary: c rule: wanted_after.induct) auto

lemma prepare_wants: "capture_prepare E c = (es, d) \<Longrightarrow> cam_requested d = cam_requested c"
  by (auto simp: capture_prepare_def Let_def split: if_splits)

lemma setDevice_wants: "capture_setDevice E d c = (es, c1) \<Longrightarrow> cam_requested c1 \<Longrightarrow> cam_requested c"
  by (auto simp: capture_setDevice_def capture_stop_def Let_def split: if_splits prod.splits)

lemma exec_wants:
  assumes "capture_exec E q c = (es, d)" and "cam_requested d"
  shows "q = CaptureStart \<or> (cam_requested c \<and> q \<noteq> CaptureStop)"
proof (cases q)
  case (CaptureDevice x)
  with assms setDevice_wants show ?thesis by auto
next
  case (CapturePrepare x)
  with assms show ?thesis by (auto split: prod.splits dest: setDevice_wants prepare_wants)
next
  case CaptureStop
  with assms show ?thesis by (auto simp: capture_stop_def)
qed simp

definition camera_ok :: "webrtc \<Rightarrow> bool" where
  "camera_ok w \<longleftrightarrow> (case wc_capture w of None \<Rightarrow> wc_queue w = []
     | Some c \<Rightarrow> wanted_after (wc_queue w) (cam_requested c) \<longrightarrow> wc_cameraRequested w)"

lemma prepare_camera:
  assumes "camera_ok w"
  shows "camera_ok (rtc_prepare w)"
  using assms by (auto simp: camera_ok_def rtc_prepare_def wanted_after_append new_capture_def split: option.splits)

lemma update_camera:
  assumes "wc_capture w = None \<longrightarrow> wc_queue w = []"
  shows "camera_ok (updateCameraCapture w)"
  using assms by (auto simp: camera_ok_def updateCameraCapture_def rtc_prepare_def wanted_after_append Let_def split: option.splits)

lemma update_keeps:
  "wc_cameraRequested (updateCameraCapture w) = wc_cameraRequested w" "wc_observer (updateCameraCapture w) = wc_observer w"
  "wc_connections (updateCameraCapture w) = wc_connections w" "wc_peer (updateCameraCapture w) = wc_peer w"
  by (simp_all add: updateCameraCapture_def rtc_prepare_def Let_def)

lemma camera_ok_queue: "camera_ok w \<Longrightarrow> wc_capture w = None \<longrightarrow> wc_queue w = []"
  by (simp add: camera_ok_def split: option.splits)

lemma camera_ok_cong:
  "camera_ok w \<Longrightarrow> wc_capture v = wc_capture w \<Longrightarrow> wc_queue v = wc_queue w \<Longrightarrow> wc_cameraRequested v = wc_cameraRequested w \<Longrightarrow> camera_ok v"
  by (simp add: camera_ok_def split: option.splits)

text \<open>What an operation that is not about the camera leaves alone.\<close>

definition same_camera :: "webrtc \<Rightarrow> webrtc \<Rightarrow> bool" where
  "same_camera w v \<longleftrightarrow> wc_capture v = wc_capture w \<and> wc_queue v = wc_queue w \<and> wc_cameraRequested v = wc_cameraRequested w"

lemma same_ok: "same_camera w v \<Longrightarrow> camera_ok w \<Longrightarrow> camera_ok v \<and> wc_cameraRequested v = wc_cameraRequested w"
  by (auto simp: same_camera_def intro: camera_ok_cong [of w v])

lemma input_same: "rtc_applyInput A d w = (es, v) \<Longrightarrow> same_camera w v \<and> wc_observer v = wc_observer w \<and> wc_connections v = wc_connections w \<and> wc_peer v = wc_peer w"
  by (auto simp: rtc_applyInput_def same_camera_def split: if_splits prod.splits)

lemma output_same: "rtc_applyOutput A d w = (es, v) \<Longrightarrow> same_camera w v \<and> wc_observer v = wc_observer w \<and> wc_connections v = wc_connections w \<and> wc_peer v = wc_peer w"
  by (auto simp: rtc_applyOutput_def same_camera_def split: if_splits prod.splits)

lemma init_same:
  assumes "rtc_initialize S w = (ok, es, v)"
  shows "same_camera w v \<and> wc_observer v = wc_observer w \<and> wc_connections v = wc_connections w"
proof (cases "rs_threads S \<and> rs_audio S \<and> rs_factory S")
  case False
  with assms show ?thesis by (auto simp: rtc_initialize_def same_camera_def split: if_splits)
next
  case True
  obtain e1 w1 where a: "rtc_applyInput (rs_input S) (wc_audioInput w) (w\<lparr>wc_factory := True\<rparr>) = (e1, w1)" by fastforce
  obtain e2 w2 where b: "rtc_applyOutput (rs_output S) (wc_audioOutput w1) w1 = (e2, w2)" by fastforce
  have "v = createLocalAudioTrack (rs_track S) w2" using assms True a b by (auto simp: rtc_initialize_def)
  with input_same [OF a] output_same [OF b] show ?thesis by (simp add: createLocalAudioTrack_def same_camera_def)
qed

lemma track_camera:
  assumes "createLocalCameraTrack track added w = (es, v)" and "camera_ok w"
  shows "camera_ok v \<and> wc_cameraRequested v = wc_cameraRequested w \<and> wc_observer v = wc_observer w \<and> wc_connections v = wc_connections w
    \<and> set es \<subseteq> {RtcError ''Unable to add the local video track''}"
proof -
  let ?w1 = "if wc_videoTrack w = None then w\<lparr>wc_videoTrack := Some True, wc_cameraSource := True\<rparr> else w"
  have u: "camera_ok (updateCameraCapture ?w1)" by (rule update_camera) (use camera_ok_queue [OF assms(2)] in auto)
  have "camera_ok (w\<lparr>wc_cameraSource := False\<rparr>)" "camera_ok (updateCameraCapture ?w1\<lparr>wc_videoSent := True\<rparr>)"
    using camera_ok_cong [OF assms(2), of "w\<lparr>wc_cameraSource := False\<rparr>"] camera_ok_cong [OF u] by auto
  with assms u show ?thesis
    by (auto simp: createLocalCameraTrack_def Let_def update_keeps split: if_splits)
qed

lemma state_camera:
  assumes "peer_state_changed n st w = (es, v)" and "camera_ok w"
  shows "camera_ok v \<and> wc_cameraRequested v = wc_cameraRequested w \<and> wc_observer v = wc_observer w \<and> wc_connections v = wc_connections w"
proof -
  let ?u = "updateCameraCapture (w\<lparr>wc_peerConnected := (st = PeerConnected)\<rparr>)"
  have u: "camera_ok ?u" by (rule update_camera) (use camera_ok_queue [OF assms(2)] in auto)
  then have m: "camera_ok (setMuteMicrophone False ?u)" by (rule camera_ok_cong) (simp_all add: setMuteMicrophone_def)
  have k: "wc_cameraRequested (setMuteMicrophone b x) = wc_cameraRequested x" "wc_observer (setMuteMicrophone b x) = wc_observer x"
    "wc_connections (setMuteMicrophone b x) = wc_connections x" for b x
    by (simp_all add: setMuteMicrophone_def)
  have "v \<in> {w, ?u, setMuteMicrophone False ?u}" using assms(1) by (auto simp: peer_state_changed_def Let_def split: if_splits)
  then show ?thesis using assms(2) u m k by (auto simp: update_keeps)
qed

lemma close_camera:
  assumes "rtc_close w = (es, v)" and "camera_ok w"
  shows "camera_ok v \<and> \<not> wc_cameraRequested v \<and> wc_observer v = None \<and> wc_connections v = wc_connections w"
proof -
  let ?u = "updateCameraCapture (w\<lparr>wc_peerConnected := False, wc_cameraRequested := False\<rparr>)"
  have u: "camera_ok ?u" by (rule update_camera) (use camera_ok_queue [OF assms(2)] in auto)
  have v: "v = ?u\<lparr>wc_peer := False, wc_observer := None, wc_videoTrack := None, wc_cameraSource := False, wc_videoSent := False\<rparr>"
    using assms(1) by (simp add: rtc_close_def Let_def)
  have "camera_ok v" by (rule camera_ok_cong [OF u]) (simp_all add: v)
  with v show ?thesis by (simp add: update_keeps)
qed

lemma capture_camera:
  assumes "on_capture f w = (es, v)" and "camera_ok w" and "\<And>c cs d. f c = (cs, d) \<Longrightarrow> cam_requested d \<Longrightarrow> cam_requested c"
  shows "camera_ok v \<and> wc_cameraRequested v = wc_cameraRequested w \<and> wc_observer v = wc_observer w \<and> wc_connections v = wc_connections w"
proof (cases "wc_capture w")
  case None
  with assms show ?thesis by (simp add: on_capture_def)
next
  case (Some c)
  obtain cs d where f: "f c = (cs, d)" by fastforce
  then have v: "v = w\<lparr>wc_capture := Some d\<rparr>" using assms(1) Some by (simp add: on_capture_def)
  have "wanted_after (wc_queue w) (cam_requested d) \<Longrightarrow> wanted_after (wc_queue w) (cam_requested c)"
    using assms(3) [OF f] by (auto elim: wanted_after_mono)
  with assms(2) Some v show ?thesis by (simp add: camera_ok_def)
qed

lemma takes_camera:
  assumes "camera_takes E w = (es, v)" and "camera_ok w"
  shows "camera_ok v \<and> wc_cameraRequested v = wc_cameraRequested w \<and> wc_observer v = wc_observer w \<and> wc_connections v = wc_connections w
    \<and> wc_queue v = tl (wc_queue w)"
proof (cases "wc_queue w")
  case Nil
  with assms show ?thesis by (simp add: camera_takes_def)
next
  case (Cons q qs)
  then obtain c where c: "wc_capture w = Some c" using assms(2) by (cases "wc_capture w") (auto simp: camera_ok_def)
  obtain cs d where x: "capture_exec E q c = (cs, d)" by fastforce
  have v: "v = w\<lparr>wc_queue := qs, wc_capture := Some d\<rparr>" using assms(1) Cons c x by (simp add: camera_takes_def on_capture_def)
  have "wanted_after qs (cam_requested d) \<Longrightarrow> wanted_after (wc_queue w) (cam_requested c)"
    using exec_wants [OF x] Cons by (cases q) (auto elim: wanted_after_mono)
  with assms(2) c v Cons show ?thesis by (simp add: camera_ok_def)
qed

lemma tick_camera:
  assumes "video_tick remote converted w = (es, v)" and "camera_ok w"
  shows "camera_ok v \<and> wc_cameraRequested v = wc_cameraRequested w \<and> wc_observer v = wc_observer w \<and> wc_connections v = wc_connections w
    \<and> LocalVideoFrame True \<notin> set es \<and> (PushedFrame \<in> set es \<longrightarrow> wc_cameraRequested w) \<and> wc_queue v = wc_queue w
    \<and> (\<forall>d. wc_capture v = Some d \<longrightarrow> (\<exists>c. wc_capture w = Some c \<and> cam_requested d = cam_requested c))"
  using assms by (auto simp: video_tick_def camera_ok_def capture_takeFrame_def Let_def split: if_splits option.splits)

lemma capture_failed_keeps: "capture_failed e c = (cs, d) \<Longrightarrow> (cam_requested d \<longrightarrow> cam_requested c) \<and> FrameReady True \<notin> set cs"
  by (auto simp: capture_failed_def split: if_splits)

lemma capture_frame_keeps: "capture_frame b c = (cs, d) \<Longrightarrow> cam_requested d = cam_requested c"
  by (auto simp: capture_frame_def split: if_splits)

lemma rtc_step_camera:
  assumes "rtc_step e w = (es, v)" and "camera_ok w"
  shows "camera_ok v \<and> (wc_cameraRequested v \<longrightarrow> wc_cameraRequested w \<or> e = RtcSetCamera True)"
proof (cases e)
  case (RtcInit S)
  then obtain ok where "rtc_initialize S w = (ok, es, v)" using assms(1) by (cases "rtc_initialize S w") auto
  from same_ok [OF _ assms(2)] init_same [OF this] show ?thesis by simp
next
  case RtcPrepareCall
  then have "v = rtc_prepare w" using assms(1) by simp
  with prepare_camera [OF assms(2)] show ?thesis by (simp add: rtc_prepare_def)
next
  case (RtcCreatePeer created servers)
  have "same_camera w v"
    using assms(1) RtcCreatePeer by (auto simp: createPeerConnection_def same_camera_def Let_def split: if_splits)
  from same_ok [OF this assms(2)] show ?thesis by simp
next
  case (RtcCreateSdp a t d)
  then consider "v = w" | "createLocalCameraTrack t d w = (es, v)"
    using assms(1) by (auto simp: rtc_createSdp_def split: if_splits prod.splits)
  then show ?thesis using assms(2) track_camera [OF _ assms(2)] by cases auto
next
  case (RtcCameraTrackCall t d)
  then have "createLocalCameraTrack t d w = (es, v)" using assms(1) by simp
  from track_camera [OF this assms(2)] show ?thesis by simp
next
  case (RtcSetCamera b)
  have "camera_ok (updateCameraCapture (w\<lparr>wc_cameraRequested := b\<rparr>))" by (rule update_camera) (use camera_ok_queue [OF assms(2)] in auto)
  with assms(1) RtcSetCamera show ?thesis by (auto simp: setCameraEnabled_def update_keeps)
next
  case (RtcMute b)
  then have "same_camera w v" using assms(1) by (auto simp: setMuteMicrophone_def same_camera_def)
  from same_ok [OF this assms(2)] show ?thesis by simp
next
  case (RtcCameraChosen d)
  then have v: "v = rtc_setCameraDevice d w" using assms(1) by simp
  show ?thesis
  proof (cases "wc_capture w")
    case None
    with assms(2) show ?thesis by (simp add: v rtc_setCameraDevice_def camera_ok_def)
  next
    case (Some c)
    with assms(2) show ?thesis by (simp add: v rtc_setCameraDevice_def camera_ok_def wanted_after_append)
  qed
next
  case (RtcInput A d)
  with assms(1) have "rtc_applyInput A d (w\<lparr>wc_audioInput := d\<rparr>) = (es, v)" by (simp add: rtc_setAudioInput_def)
  from input_same [OF this] have "same_camera w v" by (simp add: same_camera_def)
  from same_ok [OF this assms(2)] show ?thesis by simp
next
  case (RtcOutput A d)
  with assms(1) have "rtc_applyOutput A d (w\<lparr>wc_audioOutput := d\<rparr>) = (es, v)" by (simp add: rtc_setAudioOutput_def)
  from output_same [OF this] have "same_camera w v" by (simp add: same_camera_def)
  from same_ok [OF this assms(2)] show ?thesis by simp
next
  case (RtcPeerState n st)
  then have "peer_state_changed n st w = (es, v)" using assms(1) by simp
  from state_camera [OF this assms(2)] show ?thesis by simp
next
  case RtcClose
  then have "rtc_close w = (es, v)" using assms(1) by simp
  from close_camera [OF this assms(2)] show ?thesis by simp
next
  case (RtcVideoTick a b)
  then have "video_tick a b w = (es, v)" using assms(1) by simp
  from tick_camera [OF this assms(2)] show ?thesis by simp
next
  case (CameraTakes E)
  then have "camera_takes E w = (es, v)" using assms(1) by simp
  from takes_camera [OF this assms(2)] show ?thesis by simp
next
  case (CameraFails x)
  then have "on_capture (capture_failed x) w = (es, v)" using assms(1) by simp
  from capture_camera [OF this assms(2)] have "camera_ok v \<and> wc_cameraRequested v = wc_cameraRequested w"
    by (metis capture_failed_keeps)
  then show ?thesis by simp
next
  case (CameraFrame b)
  then have "on_capture (capture_frame b) w = (es, v)" using assms(1) by simp
  from capture_camera [OF this assms(2)] have "camera_ok v \<and> wc_cameraRequested v = wc_cameraRequested w"
    by (metis capture_frame_keeps)
  then show ?thesis by simp
qed (use assms in auto)

lemma rtc_run_camera: "rtc_run es w = (fs, v) \<Longrightarrow> camera_ok w \<Longrightarrow> camera_ok v"
proof (induction es arbitrary: w fs)
  case (Cons e es)
  then show ?case by (auto split: prod.splits dest: rtc_step_camera)
qed simp

lemma new_camera_ok: "camera_ok new_webrtc"
  by (simp add: camera_ok_def new_webrtc_def)

text \<open>The camera is off for good: nothing is wanted, and no call that starts it is waiting.\<close>

definition camera_off :: "webrtc \<Rightarrow> bool" where
  "camera_off w \<longleftrightarrow> camera_ok w \<and> \<not> wc_cameraRequested w \<and> CaptureStart \<notin> set (wc_queue w)
     \<and> (\<forall>c. wc_capture w = Some c \<longrightarrow> \<not> cam_requested c)"

lemma update_off: "\<not> wc_cameraRequested w \<Longrightarrow> set (wc_queue (updateCameraCapture w)) \<subseteq> insert CaptureStop (set (wc_queue w))
    \<and> wc_capture (updateCameraCapture w) = wc_capture w"
  by (simp add: updateCameraCapture_def Let_def) auto

lemma capture_off:
  assumes "on_capture f w = (es, v)" and "\<And>c. wc_capture w = Some c \<Longrightarrow> \<not> cam_requested c"
    and "\<And>c cs d. f c = (cs, d) \<Longrightarrow> \<not> cam_requested c \<Longrightarrow> \<not> cam_requested d \<and> FrameReady True \<notin> set cs"
  shows "(\<forall>d. wc_capture v = Some d \<longrightarrow> \<not> cam_requested d) \<and> wc_queue v = wc_queue w
    \<and> LocalVideoFrame True \<notin> set es \<and> PushedFrame \<notin> set es"
proof (cases "wc_capture w")
  case None
  with assms show ?thesis by (simp add: on_capture_def)
next
  case (Some c)
  obtain cs d where f: "f c = (cs, d)" by fastforce
  then have v: "v = w\<lparr>wc_capture := Some d\<rparr>" "es = forward_capture cs" using assms(1) Some by (simp_all add: on_capture_def)
  have n: "\<not> cam_requested d \<and> FrameReady True \<notin> set cs" using assms(3) [OF f assms(2) [OF Some]] .
  then have "LocalVideoFrame True \<notin> set es \<and> PushedFrame \<notin> set es"
    unfolding v(2) by (auto simp: forward_capture_def List.map_filter_def split: capture_signal.splits)
  with n v(1) show ?thesis by simp
qed

lemma prepare_frames: "capture_prepare E c = (es, d) \<Longrightarrow> FrameReady True \<notin> set es"
  by (auto simp: capture_prepare_def Let_def split: if_splits)

lemma setDevice_off:
  assumes "capture_setDevice E x c = (cs, d)" and "\<not> cam_requested c"
  shows "\<not> cam_requested d \<and> FrameReady True \<notin> set cs"
  using assms by (auto simp: capture_setDevice_def capture_stop_def Let_def split: if_splits)

lemma exec_off:
  assumes "capture_exec E q c = (cs, d)" and "\<not> cam_requested c" "q \<noteq> CaptureStart"
  shows "\<not> cam_requested d \<and> FrameReady True \<notin> set cs"
proof (cases q)
  case (CaptureDevice x)
  with assms setDevice_off show ?thesis by auto
next
  case (CapturePrepare x)
  obtain es c1 where a: "capture_setDevice E x c = (es, c1)" by fastforce
  obtain fs c2 where b: "capture_prepare E c1 = (fs, c2)" by fastforce
  from assms(1) CapturePrepare a b show ?thesis
    using setDevice_off [OF a assms(2)] prepare_wants [OF b] prepare_frames [OF b] by auto
next
  case CaptureStop
  with assms show ?thesis by (auto simp: capture_stop_def)
qed (use assms in simp)

lemma step_off:
  assumes "rtc_step e w = (es, v)" and "camera_off w" and "e \<noteq> RtcSetCamera True"
  shows "camera_off v \<and> LocalVideoFrame True \<notin> set es \<and> PushedFrame \<notin> set es"
proof -
  have ok: "camera_ok v" "\<not> wc_cameraRequested v"
    using rtc_step_camera [OF assms(1)] assms(2,3) by (auto simp: camera_off_def)
  have of_same: ?thesis if "wc_capture v = wc_capture w" "set (wc_queue v) \<subseteq> set (wc_queue w) \<union> {CaptureStop} \<union> range CapturePrepare \<union> range CaptureDevice"
    "LocalVideoFrame True \<notin> set es" "PushedFrame \<notin> set es"
    using that ok assms(2) by (auto simp: camera_off_def)
  have off: "\<not> wc_cameraRequested w" using assms(2) by (simp add: camera_off_def)
  show ?thesis
  proof (cases e)
    case (RtcInit S)
    then obtain b where i: "rtc_initialize S w = (b, es, v)" using assms(1) by (cases "rtc_initialize S w") auto
    have "LocalVideoFrame True \<notin> set es \<and> PushedFrame \<notin> set es"
      using i by (auto simp: rtc_initialize_def rtc_applyInput_def rtc_applyOutput_def split: if_splits prod.splits)
    with init_same [OF i] show ?thesis by (intro of_same) (auto simp: same_camera_def)
  next
    case RtcPrepareCall
    with assms(1) have "es = []" "v = rtc_prepare w" by auto
    with ok assms(2) show ?thesis by (auto simp: camera_off_def rtc_prepare_def new_capture_def split: option.splits)
  next
    case (RtcCreatePeer created servers)
    with assms(1) show ?thesis by (intro of_same) (auto simp: createPeerConnection_def Let_def split: if_splits)
  next
    case (RtcCreateSdp a t d)
    with assms(1) off show ?thesis
      by (intro of_same) (auto simp: rtc_createSdp_def createLocalCameraTrack_def split: if_splits)
  next
    case (RtcCameraTrackCall t d)
    with assms(1) off show ?thesis by (intro of_same) (auto simp: createLocalCameraTrack_def)
  next
    case (RtcSetCamera b)
    then have "\<not> b" "es = []" "v = updateCameraCapture (w\<lparr>wc_cameraRequested := False\<rparr>)"
      using assms(1,3) by (auto simp: setCameraEnabled_def)
    with update_off [of "w\<lparr>wc_cameraRequested := False\<rparr>"] show ?thesis by (intro of_same) auto
  next
    case (RtcMute b)
    with assms(1) show ?thesis by (intro of_same) (auto simp: setMuteMicrophone_def)
  next
    case (RtcCameraChosen d)
    with assms(1) show ?thesis by (intro of_same) (auto simp: rtc_setCameraDevice_def Let_def split: if_splits)
  next
    case (RtcInput A d)
    then have i: "rtc_applyInput A d (w\<lparr>wc_audioInput := d\<rparr>) = (es, v)" using assms(1) by (simp add: rtc_setAudioInput_def)
    then have "LocalVideoFrame True \<notin> set es \<and> PushedFrame \<notin> set es" by (auto simp: rtc_applyInput_def split: if_splits prod.splits)
    with input_same [OF i] show ?thesis by (intro of_same) (auto simp: same_camera_def)
  next
    case (RtcOutput A d)
    then have i: "rtc_applyOutput A d (w\<lparr>wc_audioOutput := d\<rparr>) = (es, v)" using assms(1) by (simp add: rtc_setAudioOutput_def)
    then have "LocalVideoFrame True \<notin> set es \<and> PushedFrame \<notin> set es" by (auto simp: rtc_applyOutput_def split: if_splits prod.splits)
    with output_same [OF i] show ?thesis by (intro of_same) (auto simp: same_camera_def)
  next
    case (RtcPeerState n st)
    let ?u = "updateCameraCapture (w\<lparr>wc_peerConnected := (st = PeerConnected)\<rparr>)"
    have "v \<in> {w, ?u, setMuteMicrophone False ?u}" "LocalVideoFrame True \<notin> set es" "PushedFrame \<notin> set es"
      using assms(1) RtcPeerState by (auto simp: peer_state_changed_def Let_def split: if_splits)
    with update_off [of "w\<lparr>wc_peerConnected := (st = PeerConnected)\<rparr>"] off show ?thesis
      by (intro of_same) (auto simp: setMuteMicrophone_def)
  next
    case RtcClose
    with assms(1) update_off [of "w\<lparr>wc_peerConnected := False, wc_cameraRequested := False\<rparr>"] show ?thesis
      by (intro of_same) (auto simp: rtc_close_def Let_def split: if_splits)
  next
    case (RtcVideoTick a b)
    with assms(1) tick_camera [of a b w es v] assms(2) ok show ?thesis by (auto simp: camera_off_def)
  next
    case (CameraTakes E)
    show ?thesis
    proof (cases "wc_queue w")
      case Nil
      with assms(1) CameraTakes show ?thesis by (intro of_same) (auto simp: camera_takes_def)
    next
      case (Cons q qs)
      then have x: "on_capture (capture_exec E q) (w\<lparr>wc_queue := qs\<rparr>) = (es, v)" and q: "q \<noteq> CaptureStart" "CaptureStart \<notin> set qs"
        using assms(1,2) CameraTakes by (auto simp: camera_takes_def camera_off_def)
      have n: "\<not> cam_requested c" if "wc_capture (w\<lparr>wc_queue := qs\<rparr>) = Some c" for c
        using assms(2) that by (simp add: camera_off_def)
      have k: "\<not> cam_requested d \<and> FrameReady True \<notin> set cs" if "capture_exec E q c = (cs, d)" "\<not> cam_requested c" for c cs d
        using exec_off [OF that q(1)] .
      from capture_off [OF x n k] ok q(2) show ?thesis by (simp add: camera_off_def)
    qed
  next
    case (CameraFails x)
    then have f: "on_capture (capture_failed x) w = (es, v)" using assms(1) by simp
    have "(\<forall>d. wc_capture v = Some d \<longrightarrow> \<not> cam_requested d) \<and> wc_queue v = wc_queue w \<and> LocalVideoFrame True \<notin> set es \<and> PushedFrame \<notin> set es"
      by (rule capture_off [OF f]) (use assms(2) in \<open>auto simp: camera_off_def dest: capture_failed_keeps\<close>)
    with ok assms(2) show ?thesis by (simp add: camera_off_def)
  next
    case (CameraFrame b)
    then have f: "on_capture (capture_frame b) w = (es, v)" using assms(1) by simp
    have "(\<forall>d. wc_capture v = Some d \<longrightarrow> \<not> cam_requested d) \<and> wc_queue v = wc_queue w \<and> LocalVideoFrame True \<notin> set es \<and> PushedFrame \<notin> set es"
      by (rule capture_off [OF f]) (use assms(2) in \<open>auto simp: camera_off_def capture_frame_def\<close>)
    with ok assms(2) show ?thesis by (simp add: camera_off_def)
  next
    case (RtcSdpDelivered n k sdp)
    with assms(1) show ?thesis by (intro of_same) (auto simp: sdp_delivered_def split: if_splits)
  next
    case (RtcRemoteDelivered n)
    with assms(1) show ?thesis by (intro of_same) (auto simp: remote_sdp_delivered_def split: if_splits)
  next
    case (RtcCandidate n a b c)
    with assms(1) show ?thesis by (intro of_same) (auto simp: candidate_found_def split: if_splits)
  next
    case (CameraActive b)
    with assms(1) show ?thesis by (intro of_same) (auto split: if_splits)
  qed
qed

lemma run_off:
  "rtc_run es w = (fs, v) \<Longrightarrow> camera_off w \<Longrightarrow> RtcSetCamera True \<notin> set es \<Longrightarrow> LocalVideoFrame True \<notin> set fs \<and> PushedFrame \<notin> set fs"
proof (induction es arbitrary: w fs)
  case (Cons e es)
  obtain gs x where s: "rtc_step e w = (gs, x)" by fastforce
  obtain hs y where r: "rtc_run es x = (hs, y)" by fastforce
  have "camera_off x \<and> LocalVideoFrame True \<notin> set gs \<and> PushedFrame \<notin> set gs" using step_off [OF s] Cons.prems by auto
  with Cons.IH [of x hs] Cons.prems s r show ?case by auto
qed simp

lemma drained_off:
  assumes "rtc_run (map CameraTakes Es) w = (fs, v)" and "length Es = length (wc_queue w)" and "camera_ok w" "\<not> wc_cameraRequested w"
  shows "camera_off v"
  using assms
proof (induction Es arbitrary: w fs)
  case Nil
  then show ?case by (auto simp: camera_off_def camera_ok_def split: option.splits)
next
  case (Cons E Es)
  obtain gs x where s: "camera_takes E w = (gs, x)" by fastforce
  obtain hs y where r: "rtc_run (map CameraTakes Es) x = (hs, y)" by fastforce
  have x: "camera_ok x" "\<not> wc_cameraRequested x" "length Es = length (wc_queue x)"
    using takes_camera [OF s Cons.prems(3)] Cons.prems(2,4) by auto
  have "y = v" using Cons.prems(1) s r by simp
  with Cons.IH [of x hs] r x show ?case by simp
qed

text \<open>
  C10: The camera is off when it is not wanted: once the call is closed or the camera is switched off, and the
  capture thread has taken the calls that were waiting, in whatever state they found the camera, no picture
  of it is shown or sent until the camera is switched on again, whatever devices are chosen or fail.
\<close>

theorem camera_stays_off:
  assumes "rtc_run (es @ [e]) new_webrtc = (fs0, w)" and "e = RtcClose \<or> e = RtcSetCamera False"
    and "rtc_run (map CameraTakes Es) w = (fs1, w1)" and "length Es = length (wc_queue w)"
    and "rtc_run ds w1 = (fs, w2)" and "RtcSetCamera True \<notin> set ds"
  shows "LocalVideoFrame True \<notin> set fs \<and> PushedFrame \<notin> set fs"
proof -
  have app: "rtc_run (xs @ ys) a = (case rtc_run xs a of (p, b) \<Rightarrow> (case rtc_run ys b of (q, c) \<Rightarrow> (p @ q, c)))" for xs ys a
    by (induction xs arbitrary: a) (auto split: prod.splits)
  obtain gs a where r: "rtc_run es new_webrtc = (gs, a)" by fastforce
  obtain hs where s: "rtc_step e a = (hs, w)" using assms(1) r by (auto simp: app split: prod.splits)
  have a: "camera_ok a" by (rule rtc_run_camera [OF r new_camera_ok])
  have "camera_ok w" using rtc_step_camera [OF s a] by simp
  moreover have "\<not> wc_cameraRequested w"
    using assms(2) s close_camera [OF _ a] by (auto simp: setCameraEnabled_def update_keeps)
  ultimately have "camera_off w1" by (rule drained_off [OF assms(3,4)])
  from run_off [OF assms(5) this assms(6)] show ?thesis .
qed


definition demo_rtc_start :: rtc_start where
  "demo_rtc_start = \<lparr>rs_threads = True, rs_audio = True, rs_factory = True, rs_track = True,
     rs_input = \<lparr>ac_devices = [], ac_stop = True, ac_set = True, ac_init = True, ac_start = True\<rparr>,
     rs_output = \<lparr>ac_devices = [], ac_stop = True, ac_set = True, ac_init = True, ac_start = True\<rparr>\<rparr>"

definition demo_camera_env :: camera_env where
  "demo_camera_env = \<lparr>cam_default = ''cam0'', cam_usable = (\<lambda>d. d = ''cam0'')\<rparr>"

text \<open>A call with the camera on, a picture shown and sent.\<close>

definition demo_video_call :: "rtc_event list" where
  "demo_video_call = [RtcInit demo_rtc_start, RtcCameraChosen ''cam0'', RtcCreatePeer True [], RtcSetCamera True, RtcCreateSdp True True True,
     CameraTakes demo_camera_env, CameraTakes demo_camera_env, CameraTakes demo_camera_env,
     CameraFrame True, RtcVideoTick False True]"

lemma demo_video_shown: "list_ex (\<lambda>s. s = PushedFrame) (fst (rtc_run demo_video_call new_webrtc))"
  by code_simp

definition demo_after_call :: "rtc_event list" where
  "demo_after_call = [CameraFrame True, RtcVideoTick False True, RtcCameraChosen ''cam0'', CameraTakes demo_camera_env, CameraFrame True]"

theorem camera_stays_off_witness:
  "\<not> list_ex (\<lambda>s. s = LocalVideoFrame True \<or> s = PushedFrame)
       (fst (rtc_run demo_after_call (snd (rtc_run [CameraTakes demo_camera_env] (snd (rtc_run (demo_video_call @ [RtcClose]) new_webrtc))))))
   \<and> wc_queue (snd (rtc_run (demo_video_call @ [RtcClose]) new_webrtc)) = [CaptureStop]"
proof -
  have q: "wc_queue (snd (rtc_run (demo_video_call @ [RtcClose]) new_webrtc)) = [CaptureStop]" by code_simp
  have l: "length [demo_camera_env] = length (wc_queue (snd (rtc_run (demo_video_call @ [RtcClose]) new_webrtc)))" unfolding q by simp
  have d: "RtcSetCamera True \<notin> set demo_after_call" by (simp add: demo_after_call_def)
  have "rtc_run (map CameraTakes [demo_camera_env]) (snd (rtc_run (demo_video_call @ [RtcClose]) new_webrtc)) =
    (fst (rtc_run [CameraTakes demo_camera_env] (snd (rtc_run (demo_video_call @ [RtcClose]) new_webrtc))),
     snd (rtc_run [CameraTakes demo_camera_env] (snd (rtc_run (demo_video_call @ [RtcClose]) new_webrtc))))"
    by (simp only: list.map prod.collapse)
  from camera_stays_off [OF prod.collapse [symmetric] disjI1 [OF refl] this l prod.collapse [symmetric] d] q
  show ?thesis by (auto simp only: list_ex_iff)
qed

section \<open>A closed connection is silent\<close>

text \<open>The callbacks of the connections from the \<open>k\<close>th on, and everything else.\<close>

fun fresh_event :: "nat \<Rightarrow> rtc_event \<Rightarrow> bool" where
  "fresh_event k (RtcSdpDelivered n kind sdp) = (k \<le> n)"
| "fresh_event k (RtcRemoteDelivered n) = (k \<le> n)"
| "fresh_event k (RtcPeerState n st) = (k \<le> n)"
| "fresh_event k (RtcCandidate n candidate mid line) = (k \<le> n)"
| "fresh_event k e = True"

definition observer_from :: "nat \<Rightarrow> webrtc \<Rightarrow> bool" where
  "observer_from k w \<longleftrightarrow> k \<le> wc_connections w \<and> (\<forall>m. wc_observer w = Some m \<longrightarrow> k \<le> m)"

lemma observer_step:
  assumes "rtc_step e w = (es, v)" and "camera_ok w" and "observer_from k w"
  shows "observer_from k v"
proof -
  have same: ?thesis if "wc_observer v = wc_observer w" "wc_connections v = wc_connections w"
    using that assms(3) by (simp add: observer_from_def)
  show ?thesis
  proof (cases e)
    case (RtcInit S)
    then obtain b where "rtc_initialize S w = (b, es, v)" using assms(1) by (cases "rtc_initialize S w") auto
    from init_same [OF this] same show ?thesis by simp
  next
    case (RtcCreatePeer created servers)
    with assms(1,3) show ?thesis by (auto simp: createPeerConnection_def observer_from_def Let_def split: if_splits)
  next
    case (RtcCreateSdp a t d)
    then consider "v = w" | "createLocalCameraTrack t d w = (es, v)"
      using assms(1) by (auto simp: rtc_createSdp_def split: if_splits prod.splits)
    then show ?thesis using same track_camera [OF _ assms(2)] by cases auto
  next
    case (RtcCameraTrackCall t d)
    then have "createLocalCameraTrack t d w = (es, v)" using assms(1) by simp
    from track_camera [OF this assms(2)] same show ?thesis by simp
  next
    case (RtcInput A d)
    then have "rtc_applyInput A d (w\<lparr>wc_audioInput := d\<rparr>) = (es, v)" using assms(1) by (simp add: rtc_setAudioInput_def)
    from input_same [OF this] same show ?thesis by simp
  next
    case (RtcOutput A d)
    then have "rtc_applyOutput A d (w\<lparr>wc_audioOutput := d\<rparr>) = (es, v)" using assms(1) by (simp add: rtc_setAudioOutput_def)
    from output_same [OF this] same show ?thesis by simp
  next
    case (RtcPeerState n st)
    then have "peer_state_changed n st w = (es, v)" using assms(1) by simp
    from state_camera [OF this assms(2)] same show ?thesis by simp
  next
    case RtcClose
    then have "rtc_close w = (es, v)" using assms(1) by simp
    from close_camera [OF this assms(2)] assms(3) show ?thesis by (simp add: observer_from_def)
  next
    case (RtcVideoTick a b)
    then have "video_tick a b w = (es, v)" using assms(1) by simp
    from tick_camera [OF this assms(2)] same show ?thesis by simp
  next
    case (CameraTakes E)
    then have "camera_takes E w = (es, v)" using assms(1) by simp
    from takes_camera [OF this assms(2)] same show ?thesis by simp
  next
    case (CameraFails x)
    with assms(1) show ?thesis by (intro same) (auto simp: on_capture_def split: option.splits prod.splits)
  next
    case (CameraFrame b)
    with assms(1) show ?thesis by (intro same) (auto simp: on_capture_def split: option.splits prod.splits)
  qed (use assms(1) same in \<open>auto simp: rtc_prepare_def setCameraEnabled_def update_keeps setMuteMicrophone_def rtc_setCameraDevice_def Let_def split: if_splits\<close>)
qed

lemma stale_event:
  assumes "\<not> fresh_event k e" and "observer_from k w"
  shows "rtc_step e w = ([], w)"
  using assms
  by (cases e) (auto simp: sdp_delivered_def remote_sdp_delivered_def peer_state_changed_def candidate_found_def observer_from_def)

lemma stale_run:
  assumes "camera_ok w" and "observer_from k w"
  shows "rtc_run ds w = rtc_run (filter (fresh_event k) ds) w"
  using assms
proof (induction ds arbitrary: w)
  case (Cons e es)
  show ?case
  proof (cases "fresh_event k e")
    case True
    obtain fs v where s: "rtc_step e w = (fs, v)" by fastforce
    have "camera_ok v" "observer_from k v" using rtc_step_camera [OF s Cons.prems(1)] observer_step [OF s Cons.prems] by simp_all
    from Cons.IH [OF this] True s show ?thesis by simp
  next
    case False
    with Cons stale_event [OF False Cons.prems(2)] show ?thesis by simp
  qed
qed simp

text \<open>
  C11: A closed connection is silent: after \<open>closeConnection\<close> the callbacks that the connections made before
  still deliver (descriptions, candidates, states) change nothing and signal nothing. Whatever follows, also a
  new connection and its own callbacks, runs as if they had not been delivered.
\<close>

theorem closed_connection_is_silent:
  assumes "rtc_run es new_webrtc = (fs, w)" and "rtc_step RtcClose w = (gs, w1)"
  shows "rtc_run ds w1 = rtc_run (filter (fresh_event (wc_connections w)) ds) w1"
proof -
  have w: "camera_ok w" by (rule rtc_run_camera [OF assms(1) new_camera_ok])
  have "rtc_close w = (gs, w1)" using assms(2) by simp
  from close_camera [OF this w] show ?thesis by (intro stale_run) (simp_all add: observer_from_def)
qed

definition demo_late_callbacks :: "rtc_event list" where
  "demo_late_callbacks = [RtcPeerState 0 PeerConnected, RtcCandidate 0 ''candidate'' ''0'' 0, RtcCreatePeer True [],
     RtcSdpDelivered 0 ''offer'' ''v=0'', RtcPeerState 1 PeerConnected]"

theorem closed_connection_is_silent_witness:
  "rtc_run demo_late_callbacks (snd (rtc_run (demo_video_call @ [RtcClose]) new_webrtc)) =
     rtc_run [RtcCreatePeer True [], RtcPeerState 1 PeerConnected] (snd (rtc_run (demo_video_call @ [RtcClose]) new_webrtc))
   \<and> list_ex (\<lambda>s. s = RtcIsConnected) (fst (rtc_run demo_late_callbacks (snd (rtc_run (demo_video_call @ [RtcClose]) new_webrtc))))"
proof -
  let ?w = "snd (rtc_run demo_video_call new_webrtc)"
  have n: "wc_connections ?w = 1" by code_simp
  have c: "snd (rtc_run (demo_video_call @ [RtcClose]) new_webrtc) = snd (rtc_step RtcClose ?w)" by code_simp
  have f: "filter (fresh_event 1) demo_late_callbacks = [RtcCreatePeer True [], RtcPeerState 1 PeerConnected]"
    by (simp add: demo_late_callbacks_def)
  have "rtc_run demo_late_callbacks (snd (rtc_step RtcClose ?w)) = rtc_run (filter (fresh_event (wc_connections ?w)) demo_late_callbacks) (snd (rtc_step RtcClose ?w))"
    by (rule closed_connection_is_silent [OF prod.collapse [symmetric] prod.collapse [symmetric]])
  moreover have "list_ex (\<lambda>s. s = RtcIsConnected) (fst (rtc_run demo_late_callbacks (snd (rtc_run (demo_video_call @ [RtcClose]) new_webrtc))))"
    by code_simp
  ultimately show ?thesis unfolding c n f by simp
qed

section \<open>What a reconnection and a failed device do\<close>

text \<open>
  The client always selects a device before it prepares the camera: when none was chosen it selects the null
  device, and the default camera is not used.
\<close>

lemma default_camera_unused:
  "fst (rtc_run [RtcPrepareCall, CameraTakes demo_camera_env] new_webrtc) = [LocalVideoFrame False, RtcError ''No usable local camera is available'']"
  by code_simp

text \<open>The microphone that was muted is open again after the connection was lost for a moment.\<close>

lemma reconnect_unmutes:
  "wc_audioTrack (snd (rtc_run (demo_video_call @ [RtcPeerState 0 PeerConnected, RtcMute True]) new_webrtc)) = Some False \<and>
   wc_audioTrack (snd (rtc_run (demo_video_call @ [RtcPeerState 0 PeerConnected, RtcMute True, RtcPeerState 0 PeerDisconnected,
     RtcPeerState 0 PeerConnected]) new_webrtc)) = Some True"
  by (rule conjI) code_simp+

text \<open>
  A device that cannot be initialised leaves the direction inactive and nothing to resume: a switch to a device
  that works does not start it again.
\<close>

definition demo_microphone :: audio_device where
  "demo_microphone = \<lparr>ad_id = ''m1'', ad_description = ''Microphone'', ad_null = False\<rparr>"

definition demo_audio_calls :: "bool \<Rightarrow> audio_calls" where
  "demo_audio_calls ok = \<lparr>ac_devices = [Some (''Microphone'', ''m1'')], ac_stop = True, ac_set = True, ac_init = ok, ac_start = True\<rparr>"

lemma failed_device_not_resumed:
  "ap_active (snd (applyAudioDevice (demo_audio_calls True) demo_microphone
     (snd (applyAudioDevice (demo_audio_calls False) demo_microphone \<lparr>ap_active = True, ap_resume = False, ap_device = 0\<rparr>)))) = False"
  by code_simp

text \<open>
  Apart from that the direction is never lost: as long as the calls succeed, taking the device away and giving
  one back, however often, ends with the direction as active as it was.
\<close>

definition audio_calls_work :: "audio_calls \<Rightarrow> audio_device \<Rightarrow> bool" where
  "audio_calls_work A d \<longleftrightarrow> ac_stop A \<and> ac_set A \<and> ac_init A \<and> ac_start A \<and> (ad_null d \<or> find_device d 0 (ac_devices A) \<noteq> None)"

fun audio_switches :: "(audio_calls \<times> audio_device) list \<Rightarrow> audio_path \<Rightarrow> bool \<times> audio_path" where
  "audio_switches [] p = (True, p)"
| "audio_switches ((A, d) # xs) p = (case applyAudioDevice A d p of (ok, q) \<Rightarrow> (case audio_switches xs q of (oks, r) \<Rightarrow> (ok \<and> oks, r)))"

lemma switch_step:
  assumes "audio_calls_work A d" and "applyAudioDevice A d p = (ok, q)"
  shows "ok \<and> (ap_active q \<or> ap_resume q \<longleftrightarrow> ap_active p \<or> ap_resume p) \<and> (\<not> ad_null d \<longrightarrow> ap_active q = (ap_active p \<or> ap_resume p))"
  using assms by (auto simp: audio_calls_work_def applyAudioDevice_def Let_def split: if_splits option.splits)

lemma switches_keep:
  assumes "list_all (\<lambda>(A, d). audio_calls_work A d) xs" and "audio_switches xs p = (ok, q)"
  shows "ok \<and> (ap_active q \<or> ap_resume q \<longleftrightarrow> ap_active p \<or> ap_resume p)"
  using assms
proof (induction xs arbitrary: p ok q)
  case (Cons x xs)
  obtain A d where x: "x = (A, d)" by fastforce
  obtain ok1 p1 where a: "applyAudioDevice A d p = (ok1, p1)" by fastforce
  obtain ok2 p2 where b: "audio_switches xs p1 = (ok2, p2)" by fastforce
  have "audio_calls_work A d" using Cons.prems(1) x by simp
  from switch_step [OF this a] Cons.IH [OF _ b] Cons.prems x a b show ?case by auto
qed simp

text \<open>
  Unplugging does not end the sound: whatever sequence of devices is chosen, devices that disappear (null)
  included, while the calls of the audio module succeed, a direction that ran runs again on the next device
  that is found, and one that did not run is not started.
\<close>

theorem sound_survives_unplugging:
  assumes "list_all (\<lambda>(A, d). audio_calls_work A d) xs" and "audio_switches xs p = (ok, q)"
    and "applyAudioDevice A d q = (done, r)" and "audio_calls_work A d" and "\<not> ad_null d"
  shows "ok \<and> done \<and> ap_active r = (ap_active p \<or> ap_resume p)"
  using switches_keep [OF assms(1,2)] switch_step [OF assms(4,3)] assms(5) by auto

definition demo_switches :: "(audio_calls \<times> audio_device) list" where
  "demo_switches = [(demo_audio_calls True, no_audio), (demo_audio_calls True, no_audio)]"

theorem sound_survives_unplugging_witness:
  "ap_active (snd (applyAudioDevice (demo_audio_calls True) demo_microphone
     (snd (audio_switches demo_switches \<lparr>ap_active = True, ap_resume = False, ap_device = 0\<rparr>))))"
proof -
  have a: "list_all (\<lambda>(A, d). audio_calls_work A d) demo_switches" by code_simp
  have b: "audio_calls_work (demo_audio_calls True) demo_microphone" "\<not> ad_null demo_microphone" by code_simp+
  from sound_survives_unplugging [OF a prod.collapse [symmetric] prod.collapse [symmetric] b, of "\<lparr>ap_active = True, ap_resume = False, ap_device = 0\<rparr>"]
  show ?thesis by simp
qed

end
