(* ===== verification/Media_Devices.thy ===== *)
theory Media_Devices
  imports Prelude
begin

text \<open>
  The device lists of the settings: \<open>MediaDeviceManager\<close> and \<open>MediaDeviceModel\<close> (core/media), and the first
  devices a listener is given (features/voip/presentation/viewmodel/call_vm.cpp). The three directions have the
  same code; what the system lists, and its default, come with each call.
\<close>

section \<open>Identifiers\<close>

text \<open>\<open>QByteArray::toBase64\<close>, on bytes.\<close>

definition base64_char :: "nat \<Rightarrow> char" where
  "base64_char n = (''ABCDEFGHIJKLMNOPQRSTUVWXYZabcdefghijklmnopqrstuvwxyz0123456789+/'' ! n)"

fun toBase64 :: "string \<Rightarrow> string" where
  "toBase64 [] = []"
| "toBase64 [a] = [base64_char (of_char a div 4), base64_char (of_char a mod 4 * 16), CHR ''='', CHR ''='']"
| "toBase64 [a, b] =
     [base64_char (of_char a div 4), base64_char (of_char a mod 4 * 16 + of_char b div 16), base64_char (of_char b mod 16 * 4), CHR ''='']"
| "toBase64 (a # b # c # r) =
     base64_char (of_char a div 4) # base64_char (of_char a mod 4 * 16 + of_char b div 16)
       # base64_char (of_char b mod 16 * 4 + of_char c div 64) # base64_char (of_char c mod 64) # toBase64 r"

text \<open>What the operating system says of a device; \<open>None\<close> is the null device.\<close>

record media_device =
  dev_id :: string
  dev_name :: string
  dev_default :: bool

definition deviceId :: "media_device \<Rightarrow> string" where
  "deviceId d = toBase64 (dev_id d)"

section \<open>The model of one list\<close>

record device_item =
  item_id :: string
  item_name :: string
  item_default :: bool

fun index_from :: "string \<Rightarrow> int \<Rightarrow> device_item list \<Rightarrow> int" where
  "index_from d i [] = -1"
| "index_from d i (x # xs) = (if item_id x = d then i else index_from d (i + 1) xs)"

definition device_indexOf :: "device_item list \<Rightarrow> string \<Rightarrow> int" where
  "device_indexOf items d = index_from d 0 items"

definition device_idAt :: "device_item list \<Rightarrow> int \<Rightarrow> string" where
  "device_idAt items i = (if i < 0 \<or> int (length items) \<le> i then [] else item_id (items ! nat i))"

datatype device_role = DeviceIdRole | DeviceNameRole | DeviceDisplayRole | DeviceDefaultRole | OtherDeviceRole

datatype device_value = DeviceText string | DeviceFlag bool | NoDeviceValue

definition device_data :: "device_item list \<Rightarrow> int \<Rightarrow> device_role \<Rightarrow> device_value" where
  "device_data items i r =
     (if i < 0 \<or> int (length items) \<le> i then NoDeviceValue
      else (case r of
              DeviceIdRole \<Rightarrow> DeviceText (item_id (items ! nat i))
            | DeviceDisplayRole \<Rightarrow> DeviceText (item_name (items ! nat i))
            | DeviceNameRole \<Rightarrow> DeviceText (item_name (items ! nat i))
            | DeviceDefaultRole \<Rightarrow> DeviceFlag (item_default (items ! nat i))
            | OtherDeviceRole \<Rightarrow> NoDeviceValue))"

section \<open>One direction\<close>

record device_list =
  dl_items :: "device_item list"
  dl_devices :: "media_device list"
  dl_selected :: string

record device_env =
  env_devices :: "media_device list"
  env_default :: "media_device option"

datatype device_signal = SelectedChanged | DeviceChanged "media_device option"

definition no_devices :: device_list where
  "no_devices = \<lparr>dl_items = [], dl_devices = [], dl_selected = []\<rparr>"

definition device_items :: "media_device list \<Rightarrow> device_item list" where
  "device_items ds = map (\<lambda>d. \<lparr>item_id = deviceId d, item_name = dev_name d, item_default = dev_default d\<rparr>) ds"

definition selectedIndex :: "device_list \<Rightarrow> int" where
  "selectedIndex l = device_indexOf (dl_items l) (dl_selected l)"

definition selectedDevice :: "device_env \<Rightarrow> device_list \<Rightarrow> media_device option" where
  "selectedDevice E l =
     (if 0 \<le> selectedIndex l \<and> selectedIndex l < int (length (dl_devices l)) then Some (dl_devices l ! nat (selectedIndex l)) else env_default E)"

definition select_device :: "int \<Rightarrow> device_list \<Rightarrow> device_signal list \<times> device_list" where
  "select_device i l =
     (if i < 0 \<or> int (length (dl_devices l)) \<le> i then ([], l)
      else
        (let d = dl_devices l ! nat i
         in if deviceId d = dl_selected l then ([], l)
            else ([SelectedChanged, DeviceChanged (Some d)], l\<lparr>dl_selected := deviceId d\<rparr>)))"

definition use_default :: "device_env \<Rightarrow> device_list \<Rightarrow> device_signal list \<times> device_list" where
  "use_default E l =
     (case env_default E of
        None \<Rightarrow> ([], l)
      | Some d \<Rightarrow> if 0 \<le> device_indexOf (dl_items l) (deviceId d) then select_device (device_indexOf (dl_items l) (deviceId d)) l else ([], l))"

definition reload_devices :: "device_env \<Rightarrow> device_list \<Rightarrow> device_signal list \<times> device_list" where
  "reload_devices E l =
     (let l1 = l\<lparr>dl_devices := env_devices E, dl_items := device_items (env_devices E)\<rparr>
      in if dl_selected l1 = []
         then (case env_default E of
                 None \<Rightarrow> ([SelectedChanged], l1)
               | Some d \<Rightarrow> ([SelectedChanged, SelectedChanged, DeviceChanged (Some d)], l1\<lparr>dl_selected := deviceId d\<rparr>))
         else if device_indexOf (dl_items l1) (dl_selected l1) < 0
         then ([SelectedChanged, SelectedChanged, DeviceChanged (env_default E)],
               l1\<lparr>dl_selected := (case env_default E of None \<Rightarrow> [] | Some d \<Rightarrow> deviceId d)\<rparr>)
         else ([SelectedChanged], l1))"

section \<open>The manager\<close>

datatype device_kind = AudioInputs | AudioOutputs | Cameras

record media_devices =
  md_inputs :: device_list
  md_outputs :: device_list
  md_cameras :: device_list

definition on_inputs :: "(device_list \<Rightarrow> device_signal list \<times> device_list) \<Rightarrow> media_devices \<Rightarrow> (device_kind \<times> device_signal) list \<times> media_devices" where
  "on_inputs f m = (case f (md_inputs m) of (es, l) \<Rightarrow> (map (Pair AudioInputs) es, m\<lparr>md_inputs := l\<rparr>))"

definition on_outputs :: "(device_list \<Rightarrow> device_signal list \<times> device_list) \<Rightarrow> media_devices \<Rightarrow> (device_kind \<times> device_signal) list \<times> media_devices" where
  "on_outputs f m = (case f (md_outputs m) of (es, l) \<Rightarrow> (map (Pair AudioOutputs) es, m\<lparr>md_outputs := l\<rparr>))"

definition on_cameras :: "(device_list \<Rightarrow> device_signal list \<times> device_list) \<Rightarrow> media_devices \<Rightarrow> (device_kind \<times> device_signal) list \<times> media_devices" where
  "on_cameras f m = (case f (md_cameras m) of (es, l) \<Rightarrow> (map (Pair Cameras) es, m\<lparr>md_cameras := l\<rparr>))"

definition selectAudioInput :: "int \<Rightarrow> media_devices \<Rightarrow> (device_kind \<times> device_signal) list \<times> media_devices" where
  "selectAudioInput i = on_inputs (select_device i)"

definition selectAudioOutput :: "int \<Rightarrow> media_devices \<Rightarrow> (device_kind \<times> device_signal) list \<times> media_devices" where
  "selectAudioOutput i = on_outputs (select_device i)"

definition selectCamera :: "int \<Rightarrow> media_devices \<Rightarrow> (device_kind \<times> device_signal) list \<times> media_devices" where
  "selectCamera i = on_cameras (select_device i)"

definition useDefaultAudioInput :: "device_env \<Rightarrow> media_devices \<Rightarrow> (device_kind \<times> device_signal) list \<times> media_devices" where
  "useDefaultAudioInput E = on_inputs (use_default E)"

definition useDefaultAudioOutput :: "device_env \<Rightarrow> media_devices \<Rightarrow> (device_kind \<times> device_signal) list \<times> media_devices" where
  "useDefaultAudioOutput E = on_outputs (use_default E)"

definition useDefaultCamera :: "device_env \<Rightarrow> media_devices \<Rightarrow> (device_kind \<times> device_signal) list \<times> media_devices" where
  "useDefaultCamera E = on_cameras (use_default E)"

definition reloadAudioInputs :: "device_env \<Rightarrow> media_devices \<Rightarrow> (device_kind \<times> device_signal) list \<times> media_devices" where
  "reloadAudioInputs E = on_inputs (reload_devices E)"

definition reloadAudioOutputs :: "device_env \<Rightarrow> media_devices \<Rightarrow> (device_kind \<times> device_signal) list \<times> media_devices" where
  "reloadAudioOutputs E = on_outputs (reload_devices E)"

definition reloadCameras :: "device_env \<Rightarrow> media_devices \<Rightarrow> (device_kind \<times> device_signal) list \<times> media_devices" where
  "reloadCameras E = on_cameras (reload_devices E)"

definition selectedAudioInputDevice :: "device_env \<Rightarrow> media_devices \<Rightarrow> media_device option" where
  "selectedAudioInputDevice E m = selectedDevice E (md_inputs m)"

definition selectedAudioOutputDevice :: "device_env \<Rightarrow> media_devices \<Rightarrow> media_device option" where
  "selectedAudioOutputDevice E m = selectedDevice E (md_outputs m)"

definition selectedCameraDevice :: "device_env \<Rightarrow> media_devices \<Rightarrow> media_device option" where
  "selectedCameraDevice E m = selectedDevice E (md_cameras m)"

text \<open>The constructor; the system is asked for each direction.\<close>

definition new_media_devices :: "(device_kind \<Rightarrow> device_env) \<Rightarrow> media_devices" where
  "new_media_devices E =
     snd (reloadCameras (E Cameras) (snd (reloadAudioOutputs (E AudioOutputs) (snd (reloadAudioInputs (E AudioInputs)
       \<lparr>md_inputs = no_devices, md_outputs = no_devices, md_cameras = no_devices\<rparr>)))))"

text \<open>The call view model asks for the selected devices when it is built and then follows_device the signals.\<close>

type_synonym media_listener = "device_kind \<Rightarrow> media_device option"

definition first_devices :: "(device_kind \<Rightarrow> device_env) \<Rightarrow> media_devices \<Rightarrow> media_listener" where
  "first_devices E m = (\<lambda>k. case k of AudioInputs \<Rightarrow> selectedAudioInputDevice (E k) m
     | AudioOutputs \<Rightarrow> selectedAudioOutputDevice (E k) m | Cameras \<Rightarrow> selectedCameraDevice (E k) m)"

fun on_device_signal :: "device_kind \<times> device_signal \<Rightarrow> media_listener \<Rightarrow> media_listener" where
  "on_device_signal (k, DeviceChanged d) L = L(k := d)"
| "on_device_signal (k, SelectedChanged) L = L"

datatype device_event =
    DevicesReloaded device_kind device_env
  | DeviceChosen device_kind int
  | DefaultChosen device_kind device_env

fun device_step :: "device_event \<Rightarrow> media_devices \<Rightarrow> (device_kind \<times> device_signal) list \<times> media_devices" where
  "device_step (DevicesReloaded AudioInputs E) m = reloadAudioInputs E m"
| "device_step (DevicesReloaded AudioOutputs E) m = reloadAudioOutputs E m"
| "device_step (DevicesReloaded Cameras E) m = reloadCameras E m"
| "device_step (DeviceChosen AudioInputs i) m = selectAudioInput i m"
| "device_step (DeviceChosen AudioOutputs i) m = selectAudioOutput i m"
| "device_step (DeviceChosen Cameras i) m = selectCamera i m"
| "device_step (DefaultChosen AudioInputs E) m = useDefaultAudioInput E m"
| "device_step (DefaultChosen AudioOutputs E) m = useDefaultAudioOutput E m"
| "device_step (DefaultChosen Cameras E) m = useDefaultCamera E m"

fun devices_run :: "device_event list \<Rightarrow> media_devices \<times> media_listener \<Rightarrow> media_devices \<times> media_listener" where
  "devices_run [] s = s"
| "devices_run (e # es) s = (case device_step e (fst s) of (fs, m) \<Rightarrow> devices_run es (m, fold on_device_signal fs (snd s)))"


section \<open>Identifiers are unique\<close>

definition base64_value :: "char \<Rightarrow> nat" where
  "base64_value c =
     (let n = of_char c
      in if 65 \<le> n \<and> n \<le> 90 then n - 65 else if 97 \<le> n \<and> n \<le> 122 then n - 71 else if 48 \<le> n \<and> n \<le> 57 then n + 4
         else if n = 43 then 62 else 63)"

lemma base64_value_char: "n < 64 \<Longrightarrow> base64_value (base64_char n) = n \<and> base64_char n \<noteq> CHR ''=''"
proof -
  have "\<forall>n \<in> set [0..<64]. base64_value (base64_char n) = n \<and> base64_char n \<noteq> CHR ''=''"
    by (simp add: upt_rec [of _ 64] base64_char_def base64_value_def)
  then show "n < 64 \<Longrightarrow> base64_value (base64_char n) = n \<and> base64_char n \<noteq> CHR ''=''" by simp
qed

lemma base64_char_inj: "base64_char m = base64_char n \<Longrightarrow> m < 64 \<Longrightarrow> n < 64 \<Longrightarrow> m = n"
  using base64_value_char by metis

lemma byte_bound: "of_char (c :: char) < (256 :: nat)"
  by simp

lemma digit_bounds:
  "(of_char (a :: char) :: nat) div 4 < 64" "of_char a mod 4 * 16 + (of_char (b :: char) :: nat) div 16 < 64" "(of_char a mod 4 * 16 :: nat) < 64"
  "(of_char b mod 16 * 4 + of_char (c :: char) div 64 :: nat) < 64" "(of_char b mod 16 * 4 :: nat) < 64" "(of_char c mod 64 :: nat) < 64"
  using byte_bound [of a] byte_bound [of b] byte_bound [of c] by linarith+

lemma first_byte:
  fixes a a' b b' :: char
  assumes "(of_char a :: nat) div 4 = of_char a' div 4"
    and "(of_char a :: nat) mod 4 * 16 + of_char b div 16 = of_char a' mod 4 * 16 + of_char b' div 16"
  shows "a = a' \<and> (of_char b :: nat) div 16 = of_char b' div 16"
proof -
  have "(of_char b :: nat) div 16 < 16" "(of_char b' :: nat) div 16 < 16" using byte_bound [of b] byte_bound [of b'] by linarith+
  then have m: "(of_char a :: nat) mod 4 = of_char a' mod 4" using assms(2) by linarith
  then have "(of_char a :: nat) = of_char a'" using assms(1) by (metis div_mult_mod_eq)
  moreover have "(of_char b :: nat) div 16 = of_char b' div 16" using m assms(2) by linarith
  ultimately show ?thesis by simp
qed

lemma second_byte:
  fixes b b' c c' :: char
  assumes "(of_char b :: nat) div 16 = of_char b' div 16"
    and "(of_char b :: nat) mod 16 * 4 + of_char c div 64 = of_char b' mod 16 * 4 + of_char c' div 64"
  shows "b = b' \<and> (of_char c :: nat) div 64 = of_char c' div 64"
proof -
  have "(of_char c :: nat) div 64 < 4" "(of_char c' :: nat) div 64 < 4" using byte_bound [of c] byte_bound [of c'] by linarith+
  then have m: "(of_char b :: nat) mod 16 = of_char b' mod 16" using assms(2) by linarith
  then have "(of_char b :: nat) = of_char b'" using assms(1) by (metis div_mult_mod_eq)
  moreover have "(of_char c :: nat) div 64 = of_char c' div 64" using m assms(2) by linarith
  ultimately show ?thesis by simp
qed

lemma padding_differs: "n < 64 \<Longrightarrow> base64_char n \<noteq> CHR ''=''"
  using base64_value_char by blast


lemma no_padding [simp]:
  "base64_char (of_char b mod 16 * 4 + of_char (c :: char) div 64) \<noteq> CHR ''=''" "base64_char (of_char (b :: char) mod 16 * 4) \<noteq> CHR ''=''"
  "base64_char (of_char (c :: char) mod 64) \<noteq> CHR ''=''"
  "CHR ''='' \<noteq> base64_char (of_char b mod 16 * 4 + of_char (c :: char) div 64)" "CHR ''='' \<noteq> base64_char (of_char (b :: char) mod 16 * 4)"
  "CHR ''='' \<noteq> base64_char (of_char (c :: char) mod 64)"
  using padding_differs [OF digit_bounds(4)] padding_differs [OF digit_bounds(5)] padding_differs [OF digit_bounds(6)] by metis+

lemma third_byte:
  fixes c c' :: char
  assumes "(of_char c :: nat) div 64 = of_char c' div 64" and "(of_char c :: nat) mod 64 = of_char c' mod 64"
  shows "c = c'"
proof -
  have "(of_char c :: nat) = of_char c'" using assms by (metis div_mult_mod_eq)
  then show ?thesis by simp
qed

lemma toBase64_nonempty: "toBase64 (a # x) \<noteq> []"
  by (cases "a # x" rule: toBase64.cases) auto

lemma toBase64_inj: "toBase64 x = toBase64 y \<Longrightarrow> x = y"
proof (induction x arbitrary: y rule: toBase64.induct)
  case 1
  show ?case
  proof (cases y)
    case (Cons a r)
    with 1 toBase64_nonempty [of a r] show ?thesis by simp
  qed simp
next
  case (2 a)
  then show ?case
  proof (cases y rule: toBase64.cases)
    case (2 a')
    from "2.prems" 2 have e: "base64_char (of_char a div 4) = base64_char (of_char a' div 4)"
      "base64_char (of_char a mod 4 * 16) = base64_char (of_char a' mod 4 * 16)" by simp_all
    have "(of_char a :: nat) div 4 = of_char a' div 4" "(of_char a :: nat) mod 4 = of_char a' mod 4"
      using base64_char_inj [OF e(1)] base64_char_inj [OF e(2)] digit_bounds by simp_all
    then have "(of_char a :: nat) = of_char a'" by (metis div_mult_mod_eq)
    with 2 show ?thesis by simp
  qed (use "2.prems" in simp_all)
next
  case (3 a b)
  then show ?case
  proof (cases y rule: toBase64.cases)
    case (3 a' b')
    from "3.prems" 3 have e: "base64_char (of_char a div 4) = base64_char (of_char a' div 4)"
      "base64_char (of_char a mod 4 * 16 + of_char b div 16) = base64_char (of_char a' mod 4 * 16 + of_char b' div 16)"
      "base64_char (of_char b mod 16 * 4) = base64_char (of_char b' mod 16 * 4)" by simp_all
    have n: "(of_char a :: nat) div 4 = of_char a' div 4"
      "(of_char a :: nat) mod 4 * 16 + of_char b div 16 = of_char a' mod 4 * 16 + of_char b' div 16"
      "(of_char b :: nat) mod 16 = of_char b' mod 16"
      using base64_char_inj [OF e(1)] base64_char_inj [OF e(2)] base64_char_inj [OF e(3)] digit_bounds by simp_all
    have a: "a = a' \<and> (of_char b :: nat) div 16 = of_char b' div 16" by (rule first_byte [OF n(1,2)])
    then have "(of_char b :: nat) = of_char b'" using n(3) by (metis div_mult_mod_eq)
    with a 3 show ?thesis by simp
  qed (use "3.prems" in simp_all)
next
  case (4 a b c r)
  then show ?case
  proof (cases y rule: toBase64.cases)
    case (4 a' b' c' r')
    from "4.prems" 4 have e: "base64_char (of_char a div 4) = base64_char (of_char a' div 4)"
      "base64_char (of_char a mod 4 * 16 + of_char b div 16) = base64_char (of_char a' mod 4 * 16 + of_char b' div 16)"
      "base64_char (of_char b mod 16 * 4 + of_char c div 64) = base64_char (of_char b' mod 16 * 4 + of_char c' div 64)"
      "base64_char (of_char c mod 64) = base64_char (of_char c' mod 64)" and r: "toBase64 r = toBase64 r'" by simp_all
    have n: "(of_char a :: nat) div 4 = of_char a' div 4"
      "(of_char a :: nat) mod 4 * 16 + of_char b div 16 = of_char a' mod 4 * 16 + of_char b' div 16"
      "(of_char b :: nat) mod 16 * 4 + of_char c div 64 = of_char b' mod 16 * 4 + of_char c' div 64"
      "(of_char c :: nat) mod 64 = of_char c' mod 64"
      using base64_char_inj [OF e(1)] base64_char_inj [OF e(2)] base64_char_inj [OF e(3)] base64_char_inj [OF e(4)] digit_bounds by simp_all
    have a: "a = a' \<and> (of_char b :: nat) div 16 = of_char b' div 16" by (rule first_byte [OF n(1,2)])
    then have b: "b = b' \<and> (of_char c :: nat) div 64 = of_char c' div 64" using n(3) by (intro second_byte) simp_all
    then have c: "c = c'" using n(4) by (intro third_byte) simp_all
    from "4.IH" [OF r] a b c 4 show ?thesis by simp
  qed (use "4.prems" in simp_all)
qed

lemma deviceId_inj: "deviceId d = deviceId e \<longleftrightarrow> dev_id d = dev_id e"
  by (auto simp: deviceId_def dest: toBase64_inj)

section \<open>The device in use is the device that is shown\<close>

lemma index_from_bounds:
  "index_from d i xs = -1 \<and> d \<notin> item_id ` set xs \<or> (\<exists>n. index_from d i xs = i + int n \<and> n < length xs \<and> item_id (xs ! n) = d)"
proof (induction d i xs rule: index_from.induct)
  case (2 d i x xs)
  show ?case
  proof (cases "item_id x = d")
    case True
    then show ?thesis by (intro disjI2 exI [of _ 0]) simp
  next
    case False
    with 2 consider "index_from d (i + 1) xs = -1" "d \<notin> item_id ` set xs"
      | n where "index_from d (i + 1) xs = i + 1 + int n" "n < length xs" "item_id (xs ! n) = d" by auto
    then show ?thesis
    proof cases
      case 1
      with False show ?thesis by auto
    next
      case (2 n)
      with False show ?thesis by (intro disjI2 exI [of _ "Suc n"]) simp
    qed
  qed
qed simp

lemma indexOf_cases:
  obtains "device_indexOf xs d = -1" "d \<notin> item_id ` set xs"
    | n where "device_indexOf xs d = int n" "n < length xs" "item_id (xs ! n) = d"
  using index_from_bounds [of d 0 xs] unfolding device_indexOf_def by auto

text \<open>The listener's device is the selected one; the list shows the devices it was made from.\<close>

definition follows_device :: "device_list \<Rightarrow> media_device option \<Rightarrow> bool" where
  "follows_device l h \<longleftrightarrow> dl_items l = device_items (dl_devices l)
     \<and> (case h of None \<Rightarrow> dl_selected l = [] | Some d \<Rightarrow> dl_selected l = deviceId d)"

definition heard :: "device_signal list \<Rightarrow> media_device option \<Rightarrow> media_device option" where
  "heard es h = fold (\<lambda>e h. case e of DeviceChanged d \<Rightarrow> d | SelectedChanged \<Rightarrow> h) es h"

lemma heard_simps [simp]: "heard [] h = h" "heard (SelectedChanged # es) h = heard es h" "heard (DeviceChanged d # es) h = heard es d"
  by (simp_all add: heard_def)

lemma select_follows: "select_device i l = (es, v) \<Longrightarrow> follows_device l h \<Longrightarrow> follows_device v (heard es h)"
  by (auto simp: select_device_def follows_device_def Let_def split: if_splits)

lemma default_follows: "use_default E l = (es, v) \<Longrightarrow> follows_device l h \<Longrightarrow> follows_device v (heard es h)"
  by (auto simp: use_default_def split: option.splits if_splits intro: select_follows)

lemma reload_follows: "reload_devices E l = (es, v) \<Longrightarrow> follows_device l h \<Longrightarrow> follows_device v (heard es h)"
  by (auto simp: reload_devices_def follows_device_def Let_def split: if_splits option.splits)

lemma first_follows:
  assumes "reload_devices E no_devices = (es, l)"
  shows "follows_device l (selectedDevice E l)"
proof -
  have l: "dl_items l = device_items (dl_devices l)" "dl_selected l = (case env_default E of None \<Rightarrow> [] | Some d \<Rightarrow> deviceId d)"
    using assms by (auto simp: reload_devices_def no_devices_def Let_def split: option.splits)
  show ?thesis
  proof (cases rule: indexOf_cases [of "dl_items l" "dl_selected l"])
    case 1
    then have "selectedDevice E l = env_default E" by (simp add: selectedDevice_def selectedIndex_def)
    with l show ?thesis by (simp add: follows_device_def split: option.splits)
  next
    case (2 n)
    then have "selectedDevice E l = Some (dl_devices l ! n)" "dl_selected l = deviceId (dl_devices l ! n)"
      using l(1) by (auto simp: selectedDevice_def selectedIndex_def device_items_def)
    with l(1) show ?thesis by (simp add: follows_device_def)
  qed
qed

fun direction :: "device_kind \<Rightarrow> media_devices \<Rightarrow> device_list" where
  "direction AudioInputs m = md_inputs m"
| "direction AudioOutputs m = md_outputs m"
| "direction Cameras m = md_cameras m"

fun direction_op :: "device_event \<Rightarrow> device_list \<Rightarrow> device_signal list \<times> device_list" where
  "direction_op (DevicesReloaded k E) = reload_devices E"
| "direction_op (DeviceChosen k i) = select_device i"
| "direction_op (DefaultChosen k E) = use_default E"

fun event_kind :: "device_event \<Rightarrow> device_kind" where
  "event_kind (DevicesReloaded k E) = k"
| "event_kind (DeviceChosen k i) = k"
| "event_kind (DefaultChosen k E) = k"

lemma op_follows: "direction_op e l = (es, v) \<Longrightarrow> follows_device l h \<Longrightarrow> follows_device v (heard es h)"
  by (cases e) (auto intro: select_follows default_follows reload_follows)

lemma fold_signals: "fold on_device_signal (map (Pair k) es) L = L(k := heard es (L k))"
proof (induction es arbitrary: L)
  case (Cons e es)
  then show ?case by (cases e) auto
qed simp

text \<open>A step is its operation on its direction.\<close>

lemma step_direction:
  obtains es v m1 where "direction_op e (direction (event_kind e) m) = (es, v)" "device_step e m = (map (Pair (event_kind e)) es, m1)"
    "direction (event_kind e) m1 = v" "\<And>k. k \<noteq> event_kind e \<Longrightarrow> direction k m1 = direction k m"
proof -
  obtain es v where o: "direction_op e (direction (event_kind e) m) = (es, v)" by fastforce
  note defs = on_inputs_def on_outputs_def on_cameras_def selectAudioInput_def selectAudioOutput_def selectCamera_def useDefaultAudioInput_def
    useDefaultAudioOutput_def useDefaultCamera_def reloadAudioInputs_def reloadAudioOutputs_def reloadCameras_def
  define m1 where "m1 = (case event_kind e of AudioInputs \<Rightarrow> m\<lparr>md_inputs := v\<rparr> | AudioOutputs \<Rightarrow> m\<lparr>md_outputs := v\<rparr> | Cameras \<Rightarrow> m\<lparr>md_cameras := v\<rparr>)"
  have s: "device_step e m = (map (Pair (event_kind e)) es, m1)"
    using o by (cases e; cases "event_kind e") (auto simp: defs m1_def)
  have d: "direction (event_kind e) m1 = v" by (cases "event_kind e") (simp_all add: m1_def)
  have r: "direction k m1 = direction k m" if "k \<noteq> event_kind e" for k
    using that by (cases "event_kind e"; cases k) (simp_all add: m1_def)
  from that [OF o s d r] show ?thesis .
qed

lemma run_follows:
  assumes "\<forall>k. follows_device (direction k (fst s)) (snd s k)"
  shows "\<forall>k. follows_device (direction k (fst (devices_run es s))) (snd (devices_run es s) k)"
  using assms
proof (induction es arbitrary: s)
  case (Cons e es)
  obtain fs v m1 where d: "direction_op e (direction (event_kind e) (fst s)) = (fs, v)"
    "device_step e (fst s) = (map (Pair (event_kind e)) fs, m1)" "direction (event_kind e) m1 = v"
    "\<And>k. k \<noteq> event_kind e \<Longrightarrow> direction k m1 = direction k (fst s)" by (rule step_direction [of e "fst s"]) blast
  let ?L = "(snd s)(event_kind e := heard fs (snd s (event_kind e)))"
  have "follows_device v (heard fs (snd s (event_kind e)))" using op_follows [OF d(1)] Cons.prems by blast
  then have "\<forall>k. follows_device (direction k (fst (m1, ?L))) (snd (m1, ?L) k)" using d(3,4) Cons.prems by auto
  from Cons.IH [OF this] d(2) show ?case by (simp add: fold_signals)
qed simp

definition start_devices :: "(device_kind \<Rightarrow> device_env) \<Rightarrow> media_devices \<times> media_listener" where
  "start_devices E = (new_media_devices E, first_devices E (new_media_devices E))"

lemma start_follows: "follows_device (direction k (fst (start_devices E))) (snd (start_devices E) k)"
proof -
  obtain es1 l1 where a: "reload_devices (E AudioInputs) no_devices = (es1, l1)" by fastforce
  obtain es2 l2 where b: "reload_devices (E AudioOutputs) no_devices = (es2, l2)" by fastforce
  obtain es3 l3 where c: "reload_devices (E Cameras) no_devices = (es3, l3)" by fastforce
  have m: "new_media_devices E = \<lparr>md_inputs = l1, md_outputs = l2, md_cameras = l3\<rparr>"
    using a b c by (simp add: new_media_devices_def reloadAudioInputs_def reloadAudioOutputs_def reloadCameras_def on_inputs_def on_outputs_def on_cameras_def)
  show ?thesis
    using first_follows [OF a] first_follows [OF b] first_follows [OF c]
    by (cases k) (simp_all add: start_devices_def m first_devices_def selectedAudioInputDevice_def selectedAudioOutputDevice_def selectedCameraDevice_def)
qed


text \<open>While the device that was chosen is listed and nothing else is chosen, the choice is kept.\<close>

fun keeps_choice :: "device_kind \<Rightarrow> string \<Rightarrow> device_event \<Rightarrow> bool" where
  "keeps_choice k d (DevicesReloaded j E) = (j \<noteq> k \<or> d \<in> dev_id ` set (env_devices E))"
| "keeps_choice k d e = (event_kind e \<noteq> k)"

lemma reload_keeps_choice:
  assumes "reload_devices E l = (es, v)" and "dl_selected l = deviceId d" "dev_id d \<noteq> []" and "dev_id d \<in> dev_id ` set (env_devices E)"
  shows "dl_selected v = deviceId d \<and> heard es h = h"
proof -
  have "deviceId d \<noteq> []" using assms(3) toBase64_nonempty by (cases "dev_id d") (auto simp: deviceId_def)
  moreover have "\<not> device_indexOf (device_items (env_devices E)) (deviceId d) < 0"
  proof (cases rule: indexOf_cases [of "device_items (env_devices E)" "deviceId d"])
    case 1
    obtain x where "x \<in> set (env_devices E)" "dev_id d = dev_id x" using assms(4) by auto
    then have "deviceId d \<in> item_id ` set (device_items (env_devices E))" by (force simp: device_items_def deviceId_def)
    with 1 show ?thesis by simp
  qed simp
  ultimately show ?thesis using assms(1,2) by (simp add: reload_devices_def Let_def) (auto split: if_splits)
qed

lemma run_keeps_choice:
  assumes "list_all (keeps_choice k (dev_id d)) es" and "dl_selected (direction k (fst s)) = deviceId d" "dev_id d \<noteq> []"
  shows "dl_selected (direction k (fst (devices_run es s))) = deviceId d \<and> snd (devices_run es s) k = snd s k"
  using assms
proof (induction es arbitrary: s)
  case (Cons e es)
  obtain fs v m1 where d: "direction_op e (direction (event_kind e) (fst s)) = (fs, v)"
    "device_step e (fst s) = (map (Pair (event_kind e)) fs, m1)" "direction (event_kind e) m1 = v"
    "\<And>k. k \<noteq> event_kind e \<Longrightarrow> direction k m1 = direction k (fst s)" by (rule step_direction [of e "fst s"]) blast
  let ?L = "(snd s)(event_kind e := heard fs (snd s (event_kind e)))"
  have "dl_selected (direction k m1) = deviceId d \<and> ?L k = snd s k"
  proof (cases "event_kind e = k")
    case True
    with Cons.prems(1) obtain E where e: "e = DevicesReloaded k E" "dev_id d \<in> dev_id ` set (env_devices E)" by (cases e) auto
    have "reload_devices E (direction k (fst s)) = (fs, v)" using d(1) e by simp
    from reload_keeps_choice [OF this Cons.prems(2,3) e(2)] d(3) True show ?thesis by auto
  qed (use d(4) Cons.prems(2) in auto)
  with Cons.IH [of "(m1, ?L)"] Cons.prems(1,3) d(2) show ?case by (simp add: fold_signals)
qed simp

lemma choose_selects:
  assumes "0 \<le> i" "i < int (length (dl_devices (direction k m)))" and "follows_device (direction k m) (L k)"
  shows "case devices_run [DeviceChosen k i] (m, L) of (m1, L1) \<Rightarrow>
    dl_selected (direction k m1) = deviceId (dl_devices (direction k m) ! nat i)
    \<and> (\<exists>d. L1 k = Some d \<and> dev_id d = dev_id (dl_devices (direction k m) ! nat i)) \<or> dev_id (dl_devices (direction k m) ! nat i) = []"
proof -
  let ?e = "DeviceChosen k i" and ?d = "dl_devices (direction k m) ! nat i"
  obtain fs v m1 where d: "direction_op ?e (direction (event_kind ?e) m) = (fs, v)"
    "device_step ?e m = (map (Pair (event_kind ?e)) fs, m1)" "direction (event_kind ?e) m1 = v"
    "\<And>k. k \<noteq> event_kind ?e \<Longrightarrow> direction k m1 = direction k m" by (rule step_direction [of ?e m]) blast
  have r: "devices_run [?e] (m, L) = (m1, L(k := heard fs (L k)))" using d(2) by (simp add: fold_signals)
  have s: "select_device i (direction k m) = (fs, v)" using d(1) by simp
  show ?thesis
  proof (cases "dev_id ?d = []")
    case False
    then have n: "deviceId ?d \<noteq> []" using toBase64_nonempty by (cases "dev_id ?d") (auto simp: deviceId_def)
    have "dl_selected v = deviceId ?d" using s assms(1,2) by (auto simp: select_device_def Let_def split: if_splits)
    moreover have "follows_device v (heard fs (L k))" by (rule select_follows [OF s assms(3)])
    ultimately show ?thesis using r d(3) n by (auto simp: follows_device_def deviceId_inj split: option.splits)
  qed (simp add: r)
qed

text \<open>
  C34: A choice is kept: the device chosen in a list is used from then on, in that direction, while it stays
  plugged in and nothing else is chosen there, whatever else is plugged in or out, becomes the default, or is
  chosen for another direction.
\<close>

theorem choice_is_kept:
  assumes "devices_run es (start_devices E) = (m, L)" and "0 \<le> i" "i < int (length (dl_devices (direction k m)))"
    and "chosen = dev_id (dl_devices (direction k m) ! nat i)" "chosen \<noteq> []"
    and "list_all (keeps_choice k chosen) ds"
  shows "\<exists>d. snd (devices_run (DeviceChosen k i # ds) (m, L)) k = Some d \<and> dev_id d = chosen"
proof -
  have f: "follows_device (direction k m) (L k)"
    using run_follows [of "start_devices E" es] start_follows assms(1) by (metis fst_conv snd_conv)
  obtain m1 L1 where r: "devices_run [DeviceChosen k i] (m, L) = (m1, L1)" by fastforce
  have c: "dl_selected (direction k m1) = deviceId (dl_devices (direction k m) ! nat i)" "\<exists>d. L1 k = Some d \<and> dev_id d = chosen"
    using choose_selects [OF assms(2,3), of L] f r assms(4,5) by auto
  have "devices_run (DeviceChosen k i # ds) (m, L) = devices_run ds (m1, L1)" using r by (simp split: prod.splits)
  with run_keeps_choice [of k "dl_devices (direction k m) ! nat i" ds "(m1, L1)"] c assms(4,5,6) show ?thesis by simp
qed

definition demo_media_device :: "string \<Rightarrow> media_device" where
  "demo_media_device d = \<lparr>dev_id = d, dev_name = d, dev_default = False\<rparr>"

definition demo_device_env :: "string list \<Rightarrow> device_env" where
  "demo_device_env ds = \<lparr>env_devices = map demo_media_device ds, env_default = (case ds of [] \<Rightarrow> None | d # _ \<Rightarrow> Some (demo_media_device d))\<rparr>"

theorem choice_is_kept_witness:
  "\<exists>d. snd (devices_run [DeviceChosen AudioInputs 1, DevicesReloaded AudioInputs (demo_device_env [''usb'', ''line'', ''jack''])]
     (start_devices (\<lambda>k. demo_device_env [''mic'', ''jack'']))) AudioInputs = Some d \<and> dev_id d = ''jack''"
proof -
  let ?s = "devices_run [] (start_devices (\<lambda>k. demo_device_env [''mic'', ''jack'']))"
  have l: "dl_devices (direction AudioInputs (fst ?s)) = map demo_media_device [''mic'', ''jack'']"
    by (simp add: start_devices_def new_media_devices_def reloadAudioInputs_def reloadAudioOutputs_def reloadCameras_def on_inputs_def on_outputs_def
      on_cameras_def reload_devices_def no_devices_def demo_device_env_def Let_def)
  have "list_all (keeps_choice AudioInputs ''jack'') [DevicesReloaded AudioInputs (demo_device_env [''usb'', ''line'', ''jack''])]"
    by (simp add: demo_device_env_def demo_media_device_def)
  from choice_is_kept [OF prod.collapse [symmetric] _ _ _ _ this, of 1 "[]" "\<lambda>k. demo_device_env [''mic'', ''jack'']"] l
  show ?thesis by (simp add: demo_media_device_def)
qed

end
